(* ===== verification/Sar_Prelude.thy ===== *)
theory Sar_Prelude
  imports Main "HOL-Library.Word"
begin

text \<open>
  The prelude of the development: the machine types of the C sources, the memory helpers of
  \<^verbatim>\<open>engine/src/eng_mem.h\<close>, the byte-order helpers of \<^verbatim>\<open>engine/ciphers/cipher_common.h\<close>, and the
  generic facts on byte lists, slices and exclusive-or that the components share.

  A C buffer is a list of bytes. A pointer into a buffer is the suffix (\<open>drop\<close>) it points to, and a
  read of \<open>n\<close> bytes at offset \<open>i\<close> is \<open>slice xs i n\<close>. A function that fills an output buffer returns
  the bytes it writes.
\<close>

unbundle bit_operations_syntax

section \<open>Types\<close>

type_synonym u8 = "8 word"
type_synonym u16 = "16 word"
type_synonym u32 = "32 word"
type_synonym u64 = "64 word"
type_synonym bytes = "u8 list"

named_theorems sar_bytes \<open>round trips of loads and stores\<close>
named_theorems sar_len \<open>lengths of the buffers an operation produces\<close>

section \<open>Definitions\<close>

subsection \<open>Slices and byte-wise exclusive-or\<close>

definition slice :: "'a list \<Rightarrow> nat \<Rightarrow> nat \<Rightarrow> 'a list" where
  "slice xs i n = take n (drop i xs)"

definition splice_at :: "'a list \<Rightarrow> nat \<Rightarrow> 'a list \<Rightarrow> 'a list" where
  "splice_at xs i ys = take i xs @ ys @ drop (i + length ys) xs"

definition xor_bytes :: "bytes \<Rightarrow> bytes \<Rightarrow> bytes" where
  "xor_bytes xs ys = map2 (XOR) xs ys"

subsection \<open>Memory helpers (eng\_mem.h)\<close>

definition sar_memcpy :: "'a list \<Rightarrow> 'a list \<Rightarrow> nat \<Rightarrow> 'a list" where
  "sar_memcpy dst src n = take n src @ drop n dst"

definition sar_memset :: "'a list \<Rightarrow> 'a \<Rightarrow> nat \<Rightarrow> 'a list" where
  "sar_memset dst v n = replicate n v @ drop n dst"

primrec sar_memcmp_loop :: "nat \<Rightarrow> ('a::linorder) list \<Rightarrow> 'a list \<Rightarrow> int" where
  "sar_memcmp_loop 0 x y = 0"
| "sar_memcmp_loop (Suc n) x y =
     (if hd x \<noteq> hd y then (if hd x < hd y then - 1 else 1)
      else sar_memcmp_loop n (tl x) (tl y))"

definition sar_memcmp :: "('a::linorder) list \<Rightarrow> 'a list \<Rightarrow> nat \<Rightarrow> int" where
  "sar_memcmp x y n = sar_memcmp_loop n x y"

definition sar_ct_equal :: "bytes \<Rightarrow> bytes \<Rightarrow> nat \<Rightarrow> bool" where
  "sar_ct_equal x y n = (fold (\<lambda>i acc. acc OR (x ! i XOR y ! i)) [0..<n] 0 = 0)"

subsection \<open>Rotations, loads and stores (cipher\_common.h)\<close>

definition SAR_ROTL32 :: "u32 \<Rightarrow> nat \<Rightarrow> u32" where
  "SAR_ROTL32 x n = push_bit n x OR drop_bit (32 - n) x"

definition SAR_ROTR32 :: "u32 \<Rightarrow> nat \<Rightarrow> u32" where
  "SAR_ROTR32 x n = drop_bit n x OR push_bit (32 - n) x"

definition sar_le32 :: "bytes \<Rightarrow> u32" where
  "sar_le32 p = ucast (p ! 0) OR push_bit 8 (ucast (p ! 1)) OR
     push_bit 16 (ucast (p ! 2)) OR push_bit 24 (ucast (p ! 3))"

definition sar_st_le32 :: "u32 \<Rightarrow> bytes" where
  "sar_st_le32 v =
     [ucast v, ucast (drop_bit 8 v), ucast (drop_bit 16 v), ucast (drop_bit 24 v)]"

definition sar_be32 :: "bytes \<Rightarrow> u32" where
  "sar_be32 p = push_bit 24 (ucast (p ! 0)) OR push_bit 16 (ucast (p ! 1)) OR
     push_bit 8 (ucast (p ! 2)) OR ucast (p ! 3)"

definition sar_st_be32 :: "u32 \<Rightarrow> bytes" where
  "sar_st_be32 v =
     [ucast (drop_bit 24 v), ucast (drop_bit 16 v), ucast (drop_bit 8 v), ucast v]"

definition sar_le64 :: "bytes \<Rightarrow> u64" where
  "sar_le64 p = fold (\<lambda>i v. v OR push_bit (i * 8) (ucast (p ! i))) [0..<8] 0"

definition sar_load64be :: "bytes \<Rightarrow> u64" where
  "sar_load64be p =
     push_bit 56 (ucast (p ! 0)) OR push_bit 48 (ucast (p ! 1)) OR
     push_bit 40 (ucast (p ! 2)) OR push_bit 32 (ucast (p ! 3)) OR
     push_bit 24 (ucast (p ! 4)) OR push_bit 16 (ucast (p ! 5)) OR
     push_bit 8 (ucast (p ! 6)) OR ucast (p ! 7)"

definition sar_store64be :: "u64 \<Rightarrow> bytes" where
  "sar_store64be v =
     [ucast (drop_bit 56 v), ucast (drop_bit 48 v), ucast (drop_bit 40 v),
      ucast (drop_bit 32 v), ucast (drop_bit 24 v), ucast (drop_bit 16 v),
      ucast (drop_bit 8 v), ucast v]"

text \<open>
  The bytes of an integer field of a packed struct on the little-endian targets of the program, and
  the field read back from them.
\<close>

definition le_store :: "nat \<Rightarrow> 'a::len word \<Rightarrow> bytes" where
  "le_store n v = map (\<lambda>i. ucast (drop_bit (8 * i) v)) [0..<n]"

definition le_load :: "bytes \<Rightarrow> 'a::len word" where
  "le_load b = fold (\<lambda>i v. v OR push_bit (8 * i) (ucast (b ! i))) [0..<length b] 0"

section \<open>Lemmas\<close>

subsection \<open>Exclusive-or\<close>

lemma xor_left_cancel [simp]: "x XOR (x XOR y) = y" for x y :: "'a::len word"
  by (simp flip: xor.assoc)

lemma xor_right_cancel [simp]: "(y XOR x) XOR x = y" for x y :: "'a::len word"
  by (simp add: xor.assoc)

lemma xor_eq_iff: "x XOR y = z \<longleftrightarrow> x = z XOR y" for x y z :: "'a::len word"
  by auto

lemma xor_0_iff [simp]: "x XOR y = 0 \<longleftrightarrow> x = y" for x y :: "'a::len word"
  by (simp add: xor_eq_iff)

lemma or_0_iff: "x OR y = 0 \<longleftrightarrow> x = 0 \<and> y = 0" for x y :: "'a::len word"
  by (auto simp: bit_eq_iff bit_simps)

lemmas xor_ac = xor.assoc xor.commute xor.left_commute

lemma length_xor_bytes [simp, sar_len]:
  "length (xor_bytes xs ys) = min (length xs) (length ys)"
  by (simp add: xor_bytes_def)

lemma nth_xor_bytes:
  "i < length xs \<Longrightarrow> i < length ys \<Longrightarrow> xor_bytes xs ys ! i = xs ! i XOR ys ! i"
  by (simp add: xor_bytes_def)

lemma xor_bytes_Nil [simp]: "xor_bytes [] ys = []" "xor_bytes xs [] = []"
  by (simp_all add: xor_bytes_def)

lemma xor_bytes_Cons [simp]:
  "xor_bytes (x # xs) (y # ys) = (x XOR y) # xor_bytes xs ys"
  by (simp add: xor_bytes_def)

lemma xor_bytes_commute: "xor_bytes xs ys = xor_bytes ys xs"
  by (rule nth_equalityI) (auto simp: nth_xor_bytes xor.commute)

lemma xor_bytes_cancel_right:
  "length xs \<le> length ys \<Longrightarrow> xor_bytes (xor_bytes xs ys) ys = xs"
  by (rule nth_equalityI) (auto simp: nth_xor_bytes)

lemma xor_bytes_cancel_left:
  "length xs \<le> length ys \<Longrightarrow> xor_bytes ys (xor_bytes ys xs) = xs"
  by (rule nth_equalityI) (auto simp: nth_xor_bytes)

lemma xor_bytes_eq_iff:
  assumes "length xs = n" "length ys = n" "length zs = n"
  shows "xor_bytes xs ys = zs \<longleftrightarrow> xs = xor_bytes zs ys"
  using assms by (metis order_refl xor_bytes_cancel_right)

lemma xor_bytes_append:
  "length xs = length xs' \<Longrightarrow>
     xor_bytes (xs @ ys) (xs' @ ys') = xor_bytes xs xs' @ xor_bytes ys ys'"
  by (simp add: xor_bytes_def)

subsection \<open>Slices\<close>

lemma length_slice [simp, sar_len]: "length (slice xs i n) = min n (length xs - i)"
  by (simp add: slice_def)

lemma length_slice_exact [sar_len]: "i + n \<le> length xs \<Longrightarrow> length (slice xs i n) = n"
  by simp

lemma nth_slice: "j < n \<Longrightarrow> i + j < length xs \<Longrightarrow> slice xs i n ! j = xs ! (i + j)"
  by (simp add: slice_def)

lemma slice_0_length [simp]: "slice xs 0 (length xs) = xs"
  by (simp add: slice_def)

lemma slice_eqI:
  assumes "length ys = n" "i + n \<le> length xs" "\<And>j. j < n \<Longrightarrow> xs ! (i + j) = ys ! j"
  shows "slice xs i n = ys"
  using assms by (intro nth_equalityI) (auto simp: nth_slice)

lemma slice_append_left: "i + n \<le> length xs \<Longrightarrow> slice (xs @ ys) i n = slice xs i n"
  by (simp add: slice_def)

lemma slice_append_right:
  "length xs \<le> i \<Longrightarrow> slice (xs @ ys) i n = slice ys (i - length xs) n"
  by (simp add: slice_def)

lemma slice_slice:
  "j + m \<le> n \<Longrightarrow> slice (slice xs i n) j m = slice xs (i + j) m"
  by (simp add: slice_def take_drop min_def add.commute)

lemma length_splice_at [simp, sar_len]:
  "i + length ys \<le> length xs \<Longrightarrow> length (splice_at xs i ys) = length xs"
  by (simp add: splice_at_def)

lemma nth_splice_at:
  assumes "i + length ys \<le> length xs" "k < length xs"
  shows "splice_at xs i ys ! k =
     (if i \<le> k \<and> k < i + length ys then ys ! (k - i) else xs ! k)"
  using assms by (auto simp: splice_at_def nth_append)

lemma slice_splice_at_same:
  "i + length ys \<le> length xs \<Longrightarrow> slice (splice_at xs i ys) i (length ys) = ys"
  by (simp add: slice_def splice_at_def)

subsection \<open>Memory helpers\<close>

lemma sar_memcmp_eq_0:
  "n \<le> length x \<Longrightarrow> n \<le> length y \<Longrightarrow> sar_memcmp x y n = 0 \<longleftrightarrow> take n x = take n y"
  unfolding sar_memcmp_def
proof (induction n arbitrary: x y)
  case 0
  then show ?case by simp
next
  case (Suc n)
  then obtain a x' b y' where "x = a # x'" "y = b # y'"
    by (metis Suc_le_length_iff)
  with Suc show ?case by simp
qed

lemma or_fold_eq_0:
  "fold (\<lambda>i acc. acc OR f i) xs a = 0 \<longleftrightarrow> a = 0 \<and> (\<forall>i\<in>set xs. f i = 0)"
  for f :: "nat \<Rightarrow> 'a::len word"
  by (induction xs arbitrary: a) (auto simp: or_0_iff)

lemma sar_ct_equal_iff:
  "n \<le> length x \<Longrightarrow> n \<le> length y \<Longrightarrow> sar_ct_equal x y n \<longleftrightarrow> take n x = take n y"
  by (auto simp: sar_ct_equal_def or_fold_eq_0 list_eq_iff_nth_eq)

lemma sar_ct_equal_refl [simp]: "sar_ct_equal x x n"
  unfolding sar_ct_equal_def or_fold_eq_0 by simp

lemma sar_memcpy_exact: "n = length src \<Longrightarrow> n = length dst \<Longrightarrow> sar_memcpy dst src n = src"
  by (simp add: sar_memcpy_def)

subsection \<open>Explicit byte blocks\<close>

lemma length_Suc_ex: "length xs = Suc n \<longleftrightarrow> (\<exists>y ys. xs = y # ys \<and> length ys = n)"
  by (rule length_Suc_conv)

lemma upt_4: "[0..<4] = [0, 1, 2, 3]"
  by code_simp

lemma upt_8: "[0..<8] = [0, 1, 2, 3, 4, 5, 6, 7]"
  by code_simp

lemma upt_16: "[0..<16] = [0, 1, 2, 3, 4, 5, 6, 7, 8, 9, 10, 11, 12, 13, 14, 15]"
  by code_simp

lemma list4E:
  assumes "length xs = 4"
  obtains a b c d where "xs = [a, b, c, d]"
  using assms by (auto simp: numeral_eq_Suc length_Suc_conv)

lemma list8E:
  assumes "length xs = 8"
  obtains a b c d e f g h where "xs = [a, b, c, d, e, f, g, h]"
  using assms by (auto simp: numeral_eq_Suc length_Suc_conv)

lemma list16E:
  assumes "length xs = 16"
  obtains a0 a1 a2 a3 a4 a5 a6 a7 a8 a9 a10 a11 a12 a13 a14 a15 where
    "xs = [a0, a1, a2, a3, a4, a5, a6, a7, a8, a9, a10, a11, a12, a13, a14, a15]"
  using assms by (auto simp: numeral_eq_Suc length_Suc_conv)

subsection \<open>Loads and stores\<close>

lemma bit_u8_above: "8 \<le> n \<Longrightarrow> \<not> bit (x :: u8) n"
  using bit_imp_le_length by fastforce

lemma length_stores [simp, sar_len]:
  "length (sar_st_be32 v) = 4" "length (sar_st_le32 v) = 4" "length (sar_store64be w) = 8"
  by (simp_all add: sar_st_be32_def sar_st_le32_def sar_store64be_def)

lemma bit_octet:
  "bit (push_bit k (ucast (b :: u8)) :: 'a::len word) n \<longleftrightarrow>
     k \<le> n \<and> n < k + 8 \<and> n < LENGTH('a) \<and> bit b (n - k)"
proof (cases "n < k + 8")
  case False
  then have "\<not> bit b (n - k)" by (intro bit_u8_above) simp
  with False show ?thesis by (auto simp: bit_simps)
qed (auto simp: bit_simps)

lemma bit_octet0:
  "bit (ucast (b :: u8) :: 'a::len word) n \<longleftrightarrow> n < 8 \<and> n < LENGTH('a) \<and> bit b n"
  using bit_octet [of 0 b n] by simp

lemma bit_octet_of:
  "bit (ucast (v :: 'a::len word) :: u8) n \<longleftrightarrow> n < 8 \<and> bit v n"
  by (auto simp: bit_simps not_less)

lemmas bit_octets = bit_or_iff bit_octet bit_octet0 bit_octet_of bit_drop_bit_eq less_diff_conv2

lemma octet_cases:
  fixes n :: nat
  assumes "n < 64"
  obtains "n < 8" | "8 \<le> n" "n < 16" | "16 \<le> n" "n < 24" | "24 \<le> n" "n < 32"
    | "32 \<le> n" "n < 40" | "40 \<le> n" "n < 48" | "48 \<le> n" "n < 56" | "56 \<le> n" "n < 64"
  using assms by linarith

lemma sar_be32_st [simp, sar_bytes]: "sar_be32 (sar_st_be32 v) = v"
proof (rule bit_eqI)
  fix n assume "possible_bit TYPE(32 word) n"
  then have "n < 32" "n < 64" by simp_all
  from this(2,1) show "bit (sar_be32 (sar_st_be32 v)) n = bit v n"
    by (cases rule: octet_cases) (simp_all add: sar_be32_def sar_st_be32_def bit_octets)
qed

lemma sar_le32_st [simp, sar_bytes]: "sar_le32 (sar_st_le32 v) = v"
proof (rule bit_eqI)
  fix n assume "possible_bit TYPE(32 word) n"
  then have "n < 32" "n < 64" by simp_all
  from this(2,1) show "bit (sar_le32 (sar_st_le32 v)) n = bit v n"
    by (cases rule: octet_cases) (simp_all add: sar_le32_def sar_st_le32_def bit_octets)
qed

lemma sar_load64be_store [simp, sar_bytes]: "sar_load64be (sar_store64be v) = v"
proof (rule bit_eqI)
  fix n assume "possible_bit TYPE(64 word) n"
  then have "n < 64" by simp
  then show "bit (sar_load64be (sar_store64be v)) n = bit v n"
    by (cases rule: octet_cases) (simp_all add: sar_load64be_def sar_store64be_def bit_octets)
qed

lemma sar_st_be32_load_Cons [simp, sar_bytes]:
  "sar_st_be32 (sar_be32 (a # b # c # d # p)) = [a, b, c, d]"
  unfolding sar_st_be32_def sar_be32_def
  by (simp; intro conjI; rule bit_eqI; simp add: bit_octets)

lemma sar_st_le32_load_Cons [simp, sar_bytes]:
  "sar_st_le32 (sar_le32 (a # b # c # d # p)) = [a, b, c, d]"
  unfolding sar_st_le32_def sar_le32_def
  by (simp; intro conjI; rule bit_eqI; simp add: bit_octets)

lemma sar_store64be_load_Cons [simp, sar_bytes]:
  "sar_store64be (sar_load64be (a # b # c # d # e # f # g # h # p)) = [a, b, c, d, e, f, g, h]"
  unfolding sar_store64be_def sar_load64be_def
  by (simp; intro conjI; rule bit_eqI; simp add: bit_octets)

lemma sar_be32_st_append [simp, sar_bytes]: "sar_be32 (sar_st_be32 v @ ys) = v"
  using sar_be32_st [of v] by (simp add: sar_be32_def sar_st_be32_def)

lemma sar_load64be_store_append [simp, sar_bytes]: "sar_load64be (sar_store64be v @ ys) = v"
  using sar_load64be_store [of v] by (simp add: sar_load64be_def sar_store64be_def)

subsection \<open>Halves of a 64-bit word\<close>

lemma bit_u32_above: "32 \<le> n \<Longrightarrow> \<not> bit (x :: u32) n"
  using bit_imp_le_length by fastforce

lemma mask_32: "(0xFFFFFFFF :: u64) = mask 32"
  by (simp add: mask_eq_exp_minus_1)

lemma hi32_join [simp]:
  "ucast (drop_bit 32 (push_bit 32 (ucast h) OR ucast l :: u64)) = h" for h l :: u32
  by (rule bit_eqI) (auto simp: bit_simps bit_u32_above)

lemma lo32_join [simp]:
  "ucast ((push_bit 32 (ucast h) OR ucast l :: u64) AND 0xFFFFFFFF) = l" for h l :: u32
  unfolding mask_32 by (rule bit_eqI) (auto simp: bit_simps)

lemma join32_split [simp]:
  "push_bit 32 (ucast (ucast (drop_bit 32 x) :: u32)) OR
     ucast (ucast (x AND 0xFFFFFFFF) :: u32) = x" for x :: u64
  unfolding mask_32 by (rule bit_eqI) (auto simp: bit_simps)

lemma u8_table_inverse:
  assumes "list_all (\<lambda>i. g ! unat (f ! i :: u8) = word_of_nat i) [0..<256]"
  shows "g ! unat (f ! unat (x :: u8)) = x"
proof -
  have "unat x < 256" using unsigned_less [of x] by simp
  with assms show ?thesis by (auto simp: list_all_iff)
qed

lemma unat_u64_of_nat: "n < 2 ^ 64 \<Longrightarrow> unat (word_of_nat n :: u64) = n"
  by (simp add: unsigned_of_nat take_bit_nat_eq_self)

lemma bit_fold_le:
  "bit (fold (\<lambda>i v. v OR push_bit (8 * i) (ucast (h i :: u8))) [0..<n] (0 :: 'a::len word)) k \<longleftrightarrow>
     k < LENGTH('a) \<and> k < 8 * n \<and> bit (h (k div 8)) (k mod 8)"
proof (induction n)
  case (Suc n)
  show ?case
  proof (cases "8 * n \<le> k \<and> k < 8 * Suc n")
    case True
    then have "k div 8 = n" by (simp add: div_nat_eqI)
    then have "k div 8 = n" "k mod 8 = k - 8 * n" using minus_mult_div_eq_mod [of k 8] by simp_all
    then show ?thesis using Suc True by (auto simp: bit_simps)
  next
    case False
    then have "\<not> (8 * n \<le> k \<and> bit (h n) (k - 8 * n))"
      using bit_u8_above [of "k - 8 * n" "h n"] by (cases "8 \<le> k - 8 * n") auto
    then show ?thesis using Suc False by (auto simp: bit_simps)
  qed
qed simp

lemma length_le_store [simp, sar_len]: "length (le_store n v) = n"
  by (simp add: le_store_def)

lemma le_load_store:
  assumes "LENGTH('a::len) = 8 * n"
  shows "le_load (le_store n (v :: 'a word)) = v"
proof (rule bit_word_eqI)
  fix k assume k: "k < LENGTH('a)"
  then have "k div 8 < n" using assms by (simp add: less_mult_imp_div_less mult.commute)
  then show "bit (le_load (le_store n v) :: 'a word) k = bit v k"
    using k assms by (simp add: le_load_def le_store_def bit_fold_le bit_octet_of bit_drop_bit_eq)
qed

lemma le_store_load:
  assumes "LENGTH('a::len) = 8 * n" "length b = n"
  shows "le_store n (le_load b :: 'a word) = b"
proof (rule nth_equalityI)
  fix i assume "i < length (le_store n (le_load b :: 'a word))"
  then have i: "i < n" by simp
  have "ucast (drop_bit (8 * i) (le_load b :: 'a word)) = b ! i"
  proof (rule bit_word_eqI)
    fix k assume "k < LENGTH(8)"
    then show "bit (ucast (drop_bit (8 * i) (le_load b :: 'a word)) :: u8) k = bit (b ! i) k"
      using i assms by (simp add: le_load_def bit_fold_le bit_octet_of bit_drop_bit_eq)
  qed
  then show "le_store n (le_load b :: 'a word) ! i = b ! i"
    using i by (simp add: le_store_def)
qed (use assms in simp)

end
