(* ===== verification/Engine_Format.thy ===== *)
theory Engine_Format
  imports Sar_Prelude
begin

text \<open>
  The constants the engine components share: the sizes and the algorithm and mode numbers of
  \<^verbatim>\<open>common/include/semantics_ar/keystore_format.h\<close>, at the 32-bit width the records store them with; and the verdict the conviction engine fills in
  (\<^verbatim>\<open>sar_verdict_t\<close> of \<^verbatim>\<open>engine/include/conviction_engine.h\<close>).
\<close>

record sar_verdict =
  v_convicted :: bool
  v_algorithm :: u32
  v_mode :: u32
  v_key :: bytes
  v_key_length :: u32
  v_mode_params :: u64
  v_iv :: bytes
  v_iv_length :: u8
  v_ctr_layout_tag :: u8

definition SEMANTICS_AR_KEY_ID_SIZE :: nat where "SEMANTICS_AR_KEY_ID_SIZE = 32"
definition SEMANTICS_AR_MAC_SIZE :: nat where "SEMANTICS_AR_MAC_SIZE = 32"
definition SEMANTICS_AR_MAX_KEY_BYTES :: nat where "SEMANTICS_AR_MAX_KEY_BYTES = 64"
definition SEMANTICS_AR_IV_MAX :: nat where "SEMANTICS_AR_IV_MAX = 24"
definition SEMANTICS_AR_PROVENANCE_PATH_MAX :: nat where "SEMANTICS_AR_PROVENANCE_PATH_MAX = 260"
definition SEMANTICS_AR_SAMPLE_TAG_MAX :: nat where "SEMANTICS_AR_SAMPLE_TAG_MAX = 64"

lemmas sar_sizes =
  SEMANTICS_AR_KEY_ID_SIZE_def SEMANTICS_AR_MAC_SIZE_def SEMANTICS_AR_MAX_KEY_BYTES_def
  SEMANTICS_AR_IV_MAX_def SEMANTICS_AR_PROVENANCE_PATH_MAX_def SEMANTICS_AR_SAMPLE_TAG_MAX_def

definition SAR_ALG_AES_128 :: u32 where "SAR_ALG_AES_128 = 1"
definition SAR_ALG_AES_192 :: u32 where "SAR_ALG_AES_192 = 2"
definition SAR_ALG_AES_256 :: u32 where "SAR_ALG_AES_256 = 3"
definition SAR_ALG_3DES :: u32 where "SAR_ALG_3DES = 4"
definition SAR_ALG_SM4 :: u32 where "SAR_ALG_SM4 = 5"
definition SAR_ALG_CAMELLIA :: u32 where "SAR_ALG_CAMELLIA = 6"
definition SAR_ALG_ARIA :: u32 where "SAR_ALG_ARIA = 7"
definition SAR_ALG_SEED :: u32 where "SAR_ALG_SEED = 8"
definition SAR_ALG_CHACHA20 :: u32 where "SAR_ALG_CHACHA20 = 9"
definition SAR_ALG_XCHACHA20 :: u32 where "SAR_ALG_XCHACHA20 = 10"
definition SAR_ALG_SALSA20 :: u32 where "SAR_ALG_SALSA20 = 11"
definition SAR_ALG_XSALSA20 :: u32 where "SAR_ALG_XSALSA20 = 12"
definition SAR_ALG_RC4 :: u32 where "SAR_ALG_RC4 = 13"

lemmas sar_algs =
  SAR_ALG_AES_128_def SAR_ALG_AES_192_def SAR_ALG_AES_256_def SAR_ALG_3DES_def SAR_ALG_SM4_def
  SAR_ALG_CAMELLIA_def SAR_ALG_ARIA_def SAR_ALG_SEED_def SAR_ALG_CHACHA20_def SAR_ALG_XCHACHA20_def
  SAR_ALG_SALSA20_def SAR_ALG_XSALSA20_def SAR_ALG_RC4_def

definition SAR_MODE_ECB :: u32 where "SAR_MODE_ECB = 1"
definition SAR_MODE_CBC :: u32 where "SAR_MODE_CBC = 2"
definition SAR_MODE_CTR :: u32 where "SAR_MODE_CTR = 3"
definition SAR_MODE_XTS :: u32 where "SAR_MODE_XTS = 4"
definition SAR_MODE_CFB :: u32 where "SAR_MODE_CFB = 5"
definition SAR_MODE_OFB :: u32 where "SAR_MODE_OFB = 6"
definition SAR_MODE_STREAM :: u32 where "SAR_MODE_STREAM = 7"

lemmas sar_modes =
  SAR_MODE_ECB_def SAR_MODE_CBC_def SAR_MODE_CTR_def SAR_MODE_XTS_def SAR_MODE_CFB_def
  SAR_MODE_OFB_def SAR_MODE_STREAM_def

lemma sar_modes_neq [simp]:
  "SAR_MODE_ECB \<noteq> SAR_MODE_CBC" "SAR_MODE_ECB \<noteq> SAR_MODE_CTR"
  "SAR_MODE_ECB \<noteq> SAR_MODE_XTS" "SAR_MODE_ECB \<noteq> SAR_MODE_CFB"
  "SAR_MODE_ECB \<noteq> SAR_MODE_OFB" "SAR_MODE_ECB \<noteq> SAR_MODE_STREAM"
  "SAR_MODE_CBC \<noteq> SAR_MODE_ECB" "SAR_MODE_CBC \<noteq> SAR_MODE_CTR"
  "SAR_MODE_CBC \<noteq> SAR_MODE_XTS" "SAR_MODE_CBC \<noteq> SAR_MODE_CFB"
  "SAR_MODE_CBC \<noteq> SAR_MODE_OFB" "SAR_MODE_CBC \<noteq> SAR_MODE_STREAM"
  "SAR_MODE_CTR \<noteq> SAR_MODE_ECB" "SAR_MODE_CTR \<noteq> SAR_MODE_CBC"
  "SAR_MODE_CTR \<noteq> SAR_MODE_XTS" "SAR_MODE_CTR \<noteq> SAR_MODE_CFB"
  "SAR_MODE_CTR \<noteq> SAR_MODE_OFB" "SAR_MODE_CTR \<noteq> SAR_MODE_STREAM"
  "SAR_MODE_XTS \<noteq> SAR_MODE_ECB" "SAR_MODE_XTS \<noteq> SAR_MODE_CBC"
  "SAR_MODE_XTS \<noteq> SAR_MODE_CTR" "SAR_MODE_XTS \<noteq> SAR_MODE_CFB"
  "SAR_MODE_XTS \<noteq> SAR_MODE_OFB" "SAR_MODE_XTS \<noteq> SAR_MODE_STREAM"
  "SAR_MODE_CFB \<noteq> SAR_MODE_ECB" "SAR_MODE_CFB \<noteq> SAR_MODE_CBC"
  "SAR_MODE_CFB \<noteq> SAR_MODE_CTR" "SAR_MODE_CFB \<noteq> SAR_MODE_XTS"
  "SAR_MODE_CFB \<noteq> SAR_MODE_OFB" "SAR_MODE_CFB \<noteq> SAR_MODE_STREAM"
  "SAR_MODE_OFB \<noteq> SAR_MODE_ECB" "SAR_MODE_OFB \<noteq> SAR_MODE_CBC"
  "SAR_MODE_OFB \<noteq> SAR_MODE_CTR" "SAR_MODE_OFB \<noteq> SAR_MODE_XTS"
  "SAR_MODE_OFB \<noteq> SAR_MODE_CFB" "SAR_MODE_OFB \<noteq> SAR_MODE_STREAM"
  "SAR_MODE_STREAM \<noteq> SAR_MODE_ECB" "SAR_MODE_STREAM \<noteq> SAR_MODE_CBC"
  "SAR_MODE_STREAM \<noteq> SAR_MODE_CTR" "SAR_MODE_STREAM \<noteq> SAR_MODE_XTS"
  "SAR_MODE_STREAM \<noteq> SAR_MODE_CFB" "SAR_MODE_STREAM \<noteq> SAR_MODE_OFB"
  by (simp_all add: sar_modes)

lemma sar_algs_neq [simp]:
  "SAR_ALG_AES_128 \<noteq> SAR_ALG_AES_192" "SAR_ALG_AES_128 \<noteq> SAR_ALG_AES_256"
  "SAR_ALG_AES_128 \<noteq> SAR_ALG_3DES" "SAR_ALG_AES_128 \<noteq> SAR_ALG_SM4"
  "SAR_ALG_AES_128 \<noteq> SAR_ALG_CAMELLIA" "SAR_ALG_AES_128 \<noteq> SAR_ALG_ARIA"
  "SAR_ALG_AES_128 \<noteq> SAR_ALG_SEED" "SAR_ALG_AES_128 \<noteq> SAR_ALG_CHACHA20"
  "SAR_ALG_AES_128 \<noteq> SAR_ALG_XCHACHA20" "SAR_ALG_AES_128 \<noteq> SAR_ALG_SALSA20"
  "SAR_ALG_AES_128 \<noteq> SAR_ALG_XSALSA20" "SAR_ALG_AES_128 \<noteq> SAR_ALG_RC4"
  "SAR_ALG_AES_192 \<noteq> SAR_ALG_AES_128" "SAR_ALG_AES_192 \<noteq> SAR_ALG_AES_256"
  "SAR_ALG_AES_192 \<noteq> SAR_ALG_3DES" "SAR_ALG_AES_192 \<noteq> SAR_ALG_SM4"
  "SAR_ALG_AES_192 \<noteq> SAR_ALG_CAMELLIA" "SAR_ALG_AES_192 \<noteq> SAR_ALG_ARIA"
  "SAR_ALG_AES_192 \<noteq> SAR_ALG_SEED" "SAR_ALG_AES_192 \<noteq> SAR_ALG_CHACHA20"
  "SAR_ALG_AES_192 \<noteq> SAR_ALG_XCHACHA20" "SAR_ALG_AES_192 \<noteq> SAR_ALG_SALSA20"
  "SAR_ALG_AES_192 \<noteq> SAR_ALG_XSALSA20" "SAR_ALG_AES_192 \<noteq> SAR_ALG_RC4"
  "SAR_ALG_AES_256 \<noteq> SAR_ALG_AES_128" "SAR_ALG_AES_256 \<noteq> SAR_ALG_AES_192"
  "SAR_ALG_AES_256 \<noteq> SAR_ALG_3DES" "SAR_ALG_AES_256 \<noteq> SAR_ALG_SM4"
  "SAR_ALG_AES_256 \<noteq> SAR_ALG_CAMELLIA" "SAR_ALG_AES_256 \<noteq> SAR_ALG_ARIA"
  "SAR_ALG_AES_256 \<noteq> SAR_ALG_SEED" "SAR_ALG_AES_256 \<noteq> SAR_ALG_CHACHA20"
  "SAR_ALG_AES_256 \<noteq> SAR_ALG_XCHACHA20" "SAR_ALG_AES_256 \<noteq> SAR_ALG_SALSA20"
  "SAR_ALG_AES_256 \<noteq> SAR_ALG_XSALSA20" "SAR_ALG_AES_256 \<noteq> SAR_ALG_RC4"
  "SAR_ALG_3DES \<noteq> SAR_ALG_AES_128" "SAR_ALG_3DES \<noteq> SAR_ALG_AES_192"
  "SAR_ALG_3DES \<noteq> SAR_ALG_AES_256" "SAR_ALG_3DES \<noteq> SAR_ALG_SM4"
  "SAR_ALG_3DES \<noteq> SAR_ALG_CAMELLIA" "SAR_ALG_3DES \<noteq> SAR_ALG_ARIA"
  "SAR_ALG_3DES \<noteq> SAR_ALG_SEED" "SAR_ALG_3DES \<noteq> SAR_ALG_CHACHA20"
  "SAR_ALG_3DES \<noteq> SAR_ALG_XCHACHA20" "SAR_ALG_3DES \<noteq> SAR_ALG_SALSA20"
  "SAR_ALG_3DES \<noteq> SAR_ALG_XSALSA20" "SAR_ALG_3DES \<noteq> SAR_ALG_RC4"
  "SAR_ALG_SM4 \<noteq> SAR_ALG_AES_128" "SAR_ALG_SM4 \<noteq> SAR_ALG_AES_192"
  "SAR_ALG_SM4 \<noteq> SAR_ALG_AES_256" "SAR_ALG_SM4 \<noteq> SAR_ALG_3DES"
  "SAR_ALG_SM4 \<noteq> SAR_ALG_CAMELLIA" "SAR_ALG_SM4 \<noteq> SAR_ALG_ARIA"
  "SAR_ALG_SM4 \<noteq> SAR_ALG_SEED" "SAR_ALG_SM4 \<noteq> SAR_ALG_CHACHA20"
  "SAR_ALG_SM4 \<noteq> SAR_ALG_XCHACHA20" "SAR_ALG_SM4 \<noteq> SAR_ALG_SALSA20"
  "SAR_ALG_SM4 \<noteq> SAR_ALG_XSALSA20" "SAR_ALG_SM4 \<noteq> SAR_ALG_RC4"
  "SAR_ALG_CAMELLIA \<noteq> SAR_ALG_AES_128" "SAR_ALG_CAMELLIA \<noteq> SAR_ALG_AES_192"
  "SAR_ALG_CAMELLIA \<noteq> SAR_ALG_AES_256" "SAR_ALG_CAMELLIA \<noteq> SAR_ALG_3DES"
  "SAR_ALG_CAMELLIA \<noteq> SAR_ALG_SM4" "SAR_ALG_CAMELLIA \<noteq> SAR_ALG_ARIA"
  "SAR_ALG_CAMELLIA \<noteq> SAR_ALG_SEED" "SAR_ALG_CAMELLIA \<noteq> SAR_ALG_CHACHA20"
  "SAR_ALG_CAMELLIA \<noteq> SAR_ALG_XCHACHA20" "SAR_ALG_CAMELLIA \<noteq> SAR_ALG_SALSA20"
  "SAR_ALG_CAMELLIA \<noteq> SAR_ALG_XSALSA20" "SAR_ALG_CAMELLIA \<noteq> SAR_ALG_RC4"
  "SAR_ALG_ARIA \<noteq> SAR_ALG_AES_128" "SAR_ALG_ARIA \<noteq> SAR_ALG_AES_192"
  "SAR_ALG_ARIA \<noteq> SAR_ALG_AES_256" "SAR_ALG_ARIA \<noteq> SAR_ALG_3DES"
  "SAR_ALG_ARIA \<noteq> SAR_ALG_SM4" "SAR_ALG_ARIA \<noteq> SAR_ALG_CAMELLIA"
  "SAR_ALG_ARIA \<noteq> SAR_ALG_SEED" "SAR_ALG_ARIA \<noteq> SAR_ALG_CHACHA20"
  "SAR_ALG_ARIA \<noteq> SAR_ALG_XCHACHA20" "SAR_ALG_ARIA \<noteq> SAR_ALG_SALSA20"
  "SAR_ALG_ARIA \<noteq> SAR_ALG_XSALSA20" "SAR_ALG_ARIA \<noteq> SAR_ALG_RC4"
  "SAR_ALG_SEED \<noteq> SAR_ALG_AES_128" "SAR_ALG_SEED \<noteq> SAR_ALG_AES_192"
  "SAR_ALG_SEED \<noteq> SAR_ALG_AES_256" "SAR_ALG_SEED \<noteq> SAR_ALG_3DES"
  "SAR_ALG_SEED \<noteq> SAR_ALG_SM4" "SAR_ALG_SEED \<noteq> SAR_ALG_CAMELLIA"
  "SAR_ALG_SEED \<noteq> SAR_ALG_ARIA" "SAR_ALG_SEED \<noteq> SAR_ALG_CHACHA20"
  "SAR_ALG_SEED \<noteq> SAR_ALG_XCHACHA20" "SAR_ALG_SEED \<noteq> SAR_ALG_SALSA20"
  "SAR_ALG_SEED \<noteq> SAR_ALG_XSALSA20" "SAR_ALG_SEED \<noteq> SAR_ALG_RC4"
  "SAR_ALG_CHACHA20 \<noteq> SAR_ALG_AES_128" "SAR_ALG_CHACHA20 \<noteq> SAR_ALG_AES_192"
  "SAR_ALG_CHACHA20 \<noteq> SAR_ALG_AES_256" "SAR_ALG_CHACHA20 \<noteq> SAR_ALG_3DES"
  "SAR_ALG_CHACHA20 \<noteq> SAR_ALG_SM4" "SAR_ALG_CHACHA20 \<noteq> SAR_ALG_CAMELLIA"
  "SAR_ALG_CHACHA20 \<noteq> SAR_ALG_ARIA" "SAR_ALG_CHACHA20 \<noteq> SAR_ALG_SEED"
  "SAR_ALG_CHACHA20 \<noteq> SAR_ALG_XCHACHA20" "SAR_ALG_CHACHA20 \<noteq> SAR_ALG_SALSA20"
  "SAR_ALG_CHACHA20 \<noteq> SAR_ALG_XSALSA20" "SAR_ALG_CHACHA20 \<noteq> SAR_ALG_RC4"
  "SAR_ALG_XCHACHA20 \<noteq> SAR_ALG_AES_128" "SAR_ALG_XCHACHA20 \<noteq> SAR_ALG_AES_192"
  "SAR_ALG_XCHACHA20 \<noteq> SAR_ALG_AES_256" "SAR_ALG_XCHACHA20 \<noteq> SAR_ALG_3DES"
  "SAR_ALG_XCHACHA20 \<noteq> SAR_ALG_SM4" "SAR_ALG_XCHACHA20 \<noteq> SAR_ALG_CAMELLIA"
  "SAR_ALG_XCHACHA20 \<noteq> SAR_ALG_ARIA" "SAR_ALG_XCHACHA20 \<noteq> SAR_ALG_SEED"
  "SAR_ALG_XCHACHA20 \<noteq> SAR_ALG_CHACHA20" "SAR_ALG_XCHACHA20 \<noteq> SAR_ALG_SALSA20"
  "SAR_ALG_XCHACHA20 \<noteq> SAR_ALG_XSALSA20" "SAR_ALG_XCHACHA20 \<noteq> SAR_ALG_RC4"
  "SAR_ALG_SALSA20 \<noteq> SAR_ALG_AES_128" "SAR_ALG_SALSA20 \<noteq> SAR_ALG_AES_192"
  "SAR_ALG_SALSA20 \<noteq> SAR_ALG_AES_256" "SAR_ALG_SALSA20 \<noteq> SAR_ALG_3DES"
  "SAR_ALG_SALSA20 \<noteq> SAR_ALG_SM4" "SAR_ALG_SALSA20 \<noteq> SAR_ALG_CAMELLIA"
  "SAR_ALG_SALSA20 \<noteq> SAR_ALG_ARIA" "SAR_ALG_SALSA20 \<noteq> SAR_ALG_SEED"
  "SAR_ALG_SALSA20 \<noteq> SAR_ALG_CHACHA20" "SAR_ALG_SALSA20 \<noteq> SAR_ALG_XCHACHA20"
  "SAR_ALG_SALSA20 \<noteq> SAR_ALG_XSALSA20" "SAR_ALG_SALSA20 \<noteq> SAR_ALG_RC4"
  "SAR_ALG_XSALSA20 \<noteq> SAR_ALG_AES_128" "SAR_ALG_XSALSA20 \<noteq> SAR_ALG_AES_192"
  "SAR_ALG_XSALSA20 \<noteq> SAR_ALG_AES_256" "SAR_ALG_XSALSA20 \<noteq> SAR_ALG_3DES"
  "SAR_ALG_XSALSA20 \<noteq> SAR_ALG_SM4" "SAR_ALG_XSALSA20 \<noteq> SAR_ALG_CAMELLIA"
  "SAR_ALG_XSALSA20 \<noteq> SAR_ALG_ARIA" "SAR_ALG_XSALSA20 \<noteq> SAR_ALG_SEED"
  "SAR_ALG_XSALSA20 \<noteq> SAR_ALG_CHACHA20" "SAR_ALG_XSALSA20 \<noteq> SAR_ALG_XCHACHA20"
  "SAR_ALG_XSALSA20 \<noteq> SAR_ALG_SALSA20" "SAR_ALG_XSALSA20 \<noteq> SAR_ALG_RC4"
  "SAR_ALG_RC4 \<noteq> SAR_ALG_AES_128" "SAR_ALG_RC4 \<noteq> SAR_ALG_AES_192"
  "SAR_ALG_RC4 \<noteq> SAR_ALG_AES_256" "SAR_ALG_RC4 \<noteq> SAR_ALG_3DES"
  "SAR_ALG_RC4 \<noteq> SAR_ALG_SM4" "SAR_ALG_RC4 \<noteq> SAR_ALG_CAMELLIA"
  "SAR_ALG_RC4 \<noteq> SAR_ALG_ARIA" "SAR_ALG_RC4 \<noteq> SAR_ALG_SEED"
  "SAR_ALG_RC4 \<noteq> SAR_ALG_CHACHA20" "SAR_ALG_RC4 \<noteq> SAR_ALG_XCHACHA20"
  "SAR_ALG_RC4 \<noteq> SAR_ALG_SALSA20" "SAR_ALG_RC4 \<noteq> SAR_ALG_XSALSA20"
  by (simp_all add: sar_algs)

end
