(* ===== verification/Sha256.thy ===== *)
theory Sha256
  imports Sar_Prelude
begin

text \<open>
  SHA-256 and HMAC-SHA-256 of \<^verbatim>\<open>engine/src/sha256.c\<close>. The partial block \<^verbatim>\<open>buf\<close>/\<^verbatim>\<open>buf_len\<close> of a context
  is the list of the \<^verbatim>\<open>buf_len\<close> bytes it holds. The streaming interface is related to the padded
  message of the standard: feeding a message in any pieces and finishing gives the digest of the
  one padded message.
\<close>

section \<open>Definitions\<close>

text \<open>
  The 64 round constants of the table \<^verbatim>\<open>K\<close>, which the source writes in hexadecimal, in decimal.
\<close>

definition sha_K :: "u32 list" where
  "sha_K =
  [1116352408, 1899447441, 3049323471, 3921009573, 961987163, 1508970993,
   2453635748, 2870763221, 3624381080, 310598401, 607225278, 1426881987,
   1925078388, 2162078206, 2614888103, 3248222580, 3835390401, 4022224774,
   264347078, 604807628, 770255983, 1249150122, 1555081692, 1996064986,
   2554220882, 2821834349, 2952996808, 3210313671, 3336571891, 3584528711,
   113926993, 338241895, 666307205, 773529912, 1294757372, 1396182291,
   1695183700, 1986661051, 2177026350, 2456956037, 2730485921, 2820302411,
   3259730800, 3345764771, 3516065817, 3600352804, 4094571909, 275423344,
   430227734, 506948616, 659060556, 883997877, 958139571, 1322822218,
   1537002063, 1747873779, 1955562222, 2024104815, 2227730452, 2361852424,
   2428436474, 2756734187, 3204031479, 3329325298]"

record sar_sha256_ctx =
  sha_state :: "u32 list"
  sha_total :: u64
  sha_buf :: bytes

definition sha_ror :: "u32 \<Rightarrow> nat \<Rightarrow> u32" where
  "sha_ror x n = drop_bit n x OR push_bit (32 - n) x"

definition sar_sha256_init :: sar_sha256_ctx where
  "sar_sha256_init =
     \<lparr>sha_state = [0x6a09e667, 0xbb67ae85, 0x3c6ef372, 0xa54ff53a,
                   0x510e527f, 0x9b05688c, 0x1f83d9ab, 0x5be0cd19],
      sha_total = 0, sha_buf = []\<rparr>"

definition sha_schedule :: "bytes \<Rightarrow> u32 list" where
  "sha_schedule p =
     fold (\<lambda>i w.
        let s0 = sha_ror (w ! (i - 15)) 7 XOR sha_ror (w ! (i - 15)) 18 XOR drop_bit 3 (w ! (i - 15));
            s1 = sha_ror (w ! (i - 2)) 17 XOR sha_ror (w ! (i - 2)) 19 XOR drop_bit 10 (w ! (i - 2))
        in w @ [w ! (i - 16) + s0 + w ! (i - 7) + s1])
       [16..<64]
       (map (\<lambda>i. push_bit 24 (ucast (p ! (i * 4))) OR push_bit 16 (ucast (p ! (i * 4 + 1))) OR
                 push_bit 8 (ucast (p ! (i * 4 + 2))) OR ucast (p ! (i * 4 + 3))) [0..<16])"

definition sha_round ::
  "u32 list \<Rightarrow> nat \<Rightarrow> u32 \<times> u32 \<times> u32 \<times> u32 \<times> u32 \<times> u32 \<times> u32 \<times> u32
     \<Rightarrow> u32 \<times> u32 \<times> u32 \<times> u32 \<times> u32 \<times> u32 \<times> u32 \<times> u32" where
  "sha_round w i = (\<lambda>(a, b, c, d, e, f, g, h).
     let S1 = sha_ror e 6 XOR sha_ror e 11 XOR sha_ror e 25;
         ch = (e AND f) XOR (NOT e AND g);
         t1 = h + S1 + ch + sha_K ! i + w ! i;
         S0 = sha_ror a 2 XOR sha_ror a 13 XOR sha_ror a 22;
         maj = (a AND b) XOR (a AND c) XOR (b AND c);
         t2 = S0 + maj
     in (t1 + t2, a, b, c, d + t1, e, f, g))"

definition sha256_block :: "u32 list \<Rightarrow> bytes \<Rightarrow> u32 list" where
  "sha256_block st p =
     (let w = sha_schedule p;
          (a, b, c, d, e, f, g, h) = fold (sha_round w) [0..<64]
            (st ! 0, st ! 1, st ! 2, st ! 3, st ! 4, st ! 5, st ! 6, st ! 7)
      in [st ! 0 + a, st ! 1 + b, st ! 2 + c, st ! 3 + d,
          st ! 4 + e, st ! 5 + f, st ! 6 + g, st ! 7 + h])"

text \<open>
  The loop of \<^verbatim>\<open>sar_sha256_update\<close>. \<^verbatim>\<open>buf_len\<close> never exceeds the 64 bytes of the array it indexes; the
  guard on that is what makes the recursion well-founded, and
  \<^verbatim>\<open>sha_ready\<close> below is preserved by every operation.
\<close>

function sha_feed :: "sar_sha256_ctx \<Rightarrow> bytes \<Rightarrow> sar_sha256_ctx" where
  "sha_feed ctx data =
     (if data = [] \<or> 64 < length (sha_buf ctx) then ctx
      else
        let n = min (64 - length (sha_buf ctx)) (length data);
            ctx = ctx\<lparr>sha_buf := sha_buf ctx @ take n data\<rparr>;
            ctx = (if length (sha_buf ctx) = 64
                   then ctx\<lparr>sha_state := sha256_block (sha_state ctx) (sha_buf ctx), sha_buf := []\<rparr>
                   else ctx)
        in sha_feed ctx (drop n data))"
  by pat_completeness auto

termination
proof (relation "measures [\<lambda>(c, d). length d, \<lambda>(c, d). length (sha_buf c)]", goal_cases)
  case (2 ctx data n ctx' ctx'')
  then show ?case by (cases "length (sha_buf ctx) = 64") (auto simp: Let_def split: if_splits)
qed simp

declare sha_feed.simps [simp del]

definition sar_sha256_update :: "sar_sha256_ctx \<Rightarrow> bytes \<Rightarrow> sar_sha256_ctx" where
  "sar_sha256_update ctx data =
     sha_feed (ctx\<lparr>sha_total := sha_total ctx + word_of_nat (length data)\<rparr>) data"

definition sha_ready :: "sar_sha256_ctx \<Rightarrow> bool" where
  "sha_ready ctx \<longleftrightarrow> length (sha_buf ctx) < 64 \<and> length (sha_state ctx) = 8"

definition sha_push :: "u8 \<Rightarrow> sar_sha256_ctx \<Rightarrow> sar_sha256_ctx" where
  "sha_push b ctx =
     (if length (sha_buf ctx) = 63
      then ctx\<lparr>sha_state := sha256_block (sha_state ctx) (sha_buf ctx @ [b]),
               sha_total := sha_total ctx + 1, sha_buf := []\<rparr>
      else ctx\<lparr>sha_total := sha_total ctx + 1, sha_buf := sha_buf ctx @ [b]\<rparr>)"

lemma length_sha256_block [simp, sar_len]: "length (sha256_block st p) = 8"
  by (simp add: sha256_block_def Let_def split: prod.splits)

lemma sha_feed_Nil [simp]: "sha_feed ctx [] = ctx"
  by (simp add: sha_feed.simps)

lemma sha_update_byte: "length (sha_buf ctx) < 64 \<Longrightarrow> sar_sha256_update ctx [b] = sha_push b ctx"
  by (subst sar_sha256_update_def, subst sha_feed.simps) (simp add: sha_push_def Let_def)

function sha_pad_zero :: "sar_sha256_ctx \<Rightarrow> sar_sha256_ctx" where
  "sha_pad_zero ctx =
     (if length (sha_buf ctx) = 56 \<or> 64 \<le> length (sha_buf ctx) then ctx
      else sha_pad_zero (sar_sha256_update ctx [0]))"
  by pat_completeness auto

termination
  by (relation "measure (\<lambda>c. if length (sha_buf c) \<le> 56 then 56 - length (sha_buf c)
        else 120 - length (sha_buf c))")
    (auto simp: sha_update_byte sha_push_def)

declare sha_pad_zero.simps [simp del]

definition sar_sha256_final :: "sar_sha256_ctx \<Rightarrow> bytes" where
  "sar_sha256_final ctx =
     (let bits = sha_total ctx * 8;
          ctx = sar_sha256_update ctx [0x80];
          ctx = sha_pad_zero ctx;
          lenbuf = map (\<lambda>i. ucast (drop_bit (56 - 8 * i) bits)) [0..<8];
          ctx = sar_sha256_update ctx lenbuf
      in concat (map (\<lambda>i. let x = sha_state ctx ! i in
           [ucast (drop_bit 24 x), ucast (drop_bit 16 x), ucast (drop_bit 8 x), ucast x]) [0..<8]))"

definition sar_hmac_sha256 :: "bytes \<Rightarrow> bytes \<Rightarrow> bytes" where
  "sar_hmac_sha256 key msg =
     (let k = sar_memset (replicate 64 0) 0 64;
          k = (if length key > 64
               then sar_memcpy k (sar_sha256_final (sar_sha256_update sar_sha256_init key)) 32
               else sar_memcpy k key (length key));
          ipad = map (\<lambda>b. b XOR 0x36) k;
          opad = map (\<lambda>b. b XOR 0x5c) k;
          inner = sar_sha256_final
            (sar_sha256_update (sar_sha256_update sar_sha256_init ipad) msg)
      in sar_sha256_final
           (sar_sha256_update (sar_sha256_update sar_sha256_init opad) inner))"

section \<open>The message digest of the standard\<close>

definition sha_padding :: "nat \<Rightarrow> bytes" where
  "sha_padding n = 0x80 # replicate ((119 - n mod 64) mod 64) 0 @ sar_store64be (word_of_nat n * 8)"

fun sha_blocks :: "bytes \<Rightarrow> bytes list" where
  "sha_blocks m = (if length m < 64 then [] else take 64 m # sha_blocks (drop 64 m))"

declare sha_blocks.simps [simp del]

definition sha256_digest :: "bytes \<Rightarrow> bytes" where
  "sha256_digest m =
     concat (map sar_st_be32
       (fold (\<lambda>b st. sha256_block st b) (sha_blocks (m @ sha_padding (length m)))
         (sha_state sar_sha256_init)))"

definition hmac_sha256 :: "bytes \<Rightarrow> bytes \<Rightarrow> bytes" where
  "hmac_sha256 key msg =
     (let k0 = (if length key > 64 then sha256_digest key else key);
          k = k0 @ replicate (64 - length k0) 0
      in sha256_digest (map (\<lambda>b. b XOR 0x5c) k @ sha256_digest (map (\<lambda>b. b XOR 0x36) k @ msg)))"

section \<open>Feeding in pieces\<close>

lemma sha_ready_init [simp]: "sha_ready sar_sha256_init"
  by (simp add: sha_ready_def sar_sha256_init_def)

lemma sha_init_simps [simp]: "sha_buf sar_sha256_init = []" "sha_total sar_sha256_init = 0"
  by (simp_all add: sar_sha256_init_def)

lemma sha_ready_push [simp]: "sha_ready ctx \<Longrightarrow> sha_ready (sha_push b ctx)"
  by (auto simp: sha_ready_def sha_push_def)

lemma sha_ready_pushes [simp]: "sha_ready ctx \<Longrightarrow> sha_ready (fold sha_push d ctx)"
  by (induction d arbitrary: ctx) auto

lemma sha_ready_funpow [simp]: "sha_ready ctx \<Longrightarrow> sha_ready ((sha_push b ^^ n) ctx)"
  by (induction n) auto

lemma sha_push_short:
  "length (sha_buf ctx) + length d < 64 \<Longrightarrow>
     fold sha_push d ctx =
       ctx\<lparr>sha_total := sha_total ctx + word_of_nat (length d), sha_buf := sha_buf ctx @ d\<rparr>"
proof (induction d arbitrary: ctx)
  case (Cons b d)
  then show ?case by (simp add: sha_push_def algebra_simps)
qed simp

lemma sha_push_full:
  assumes "d \<noteq> []" "length (sha_buf ctx) + length d = 64"
  shows "fold sha_push d ctx =
    ctx\<lparr>sha_state := sha256_block (sha_state ctx) (sha_buf ctx @ d),
        sha_total := sha_total ctx + word_of_nat (length d), sha_buf := []\<rparr>"
proof -
  obtain ys y where d: "d = ys @ [y]" using assms(1) by (cases d rule: rev_cases) auto
  have "fold sha_push ys ctx =
      ctx\<lparr>sha_total := sha_total ctx + word_of_nat (length ys), sha_buf := sha_buf ctx @ ys\<rparr>"
    using assms by (intro sha_push_short) (simp add: d)
  then have "fold sha_push d ctx = sha_push y
      (ctx\<lparr>sha_total := sha_total ctx + word_of_nat (length ys), sha_buf := sha_buf ctx @ ys\<rparr>)"
    by (simp add: d)
  then show ?thesis using assms(2) by (cases ctx) (simp add: d sha_push_def algebra_simps)
qed

lemma sha_feed_short:
  "length (sha_buf ctx) + length d < 64 \<Longrightarrow> sha_feed ctx d = ctx\<lparr>sha_buf := sha_buf ctx @ d\<rparr>"
  by (subst sha_feed.simps) (simp add: Let_def)

lemma sha_feed_full:
  assumes "length (sha_buf ctx) < 64" "n = 64 - length (sha_buf ctx)" "n \<le> length d"
  shows "sha_feed ctx d = sha_feed
    (ctx\<lparr>sha_state := sha256_block (sha_state ctx) (sha_buf ctx @ take n d), sha_buf := []\<rparr>) (drop n d)"
proof -
  have "min (64 - length (sha_buf ctx)) (length d) = n" "d \<noteq> []"
    "length (sha_buf ctx @ take n d) = 64"
    using assms by auto
  with assms(1) show ?thesis by (subst sha_feed.simps) (simp add: Let_def)
qed

lemma sha_feed_push:
  assumes "length (sha_buf ctx) < 64"
  shows "sha_feed (ctx\<lparr>sha_total := sha_total ctx + word_of_nat (length d)\<rparr>) d = fold sha_push d ctx"
  using assms
proof (induction "length d" arbitrary: ctx d rule: less_induct)
  case less
  define n where "n = 64 - length (sha_buf ctx)"
  show ?case
  proof (cases "n \<le> length d")
    case True
    define ctx' where "ctx' = fold sha_push (take n d) ctx"
    have n: "0 < n" "length (sha_buf ctx) + n = 64" using less.prems by (auto simp: n_def)
    have t: "word_of_nat n + word_of_nat (length (drop n d)) = (word_of_nat (length d) :: u64)"
      using True by (simp flip: of_nat_add)
    have "d \<noteq> []" using n True by auto
    with n True have c': "ctx' = ctx\<lparr>sha_state := sha256_block (sha_state ctx) (sha_buf ctx @ take n d),
        sha_total := sha_total ctx + word_of_nat n, sha_buf := []\<rparr>"
      using sha_push_full [of "take n d" ctx] by (simp add: ctx'_def)
    define c1 where "c1 = ctx\<lparr>sha_total := sha_total ctx + word_of_nat (length d)\<rparr>"
    have "sha_feed c1 d = sha_feed (c1\<lparr>sha_state := sha256_block (sha_state c1)
        (sha_buf c1 @ take n d), sha_buf := []\<rparr>) (drop n d)"
      using less.prems True by (intro sha_feed_full) (simp_all add: c1_def n_def)
    also have "c1\<lparr>sha_state := sha256_block (sha_state c1) (sha_buf c1 @ take n d), sha_buf := []\<rparr> =
        ctx'\<lparr>sha_total := sha_total ctx' + word_of_nat (length (drop n d))\<rparr>"
      by (cases ctx) (simp add: c' c1_def add.assoc t del: length_drop)
    also have "sha_feed \<dots> (drop n d) = fold sha_push (drop n d) ctx'"
      using n True by (intro less.hyps) (simp_all add: c')
    also have "\<dots> = fold sha_push (take n d @ drop n d) ctx"
      by (simp only: ctx'_def fold_append comp_def)
    finally show ?thesis by (simp add: c1_def)
  next
    case False
    then show ?thesis by (cases ctx) (simp add: sha_feed_short sha_push_short n_def)
  qed
qed

lemma sha_update_push: "sha_ready ctx \<Longrightarrow> sar_sha256_update ctx d = fold sha_push d ctx"
  by (simp add: sar_sha256_update_def sha_ready_def sha_feed_push)

section \<open>Finishing\<close>

lemma sha_push_byte_length:
  "sha_ready ctx \<Longrightarrow> length (sha_buf (sha_push b ctx)) = (length (sha_buf ctx) + 1) mod 64"
  by (cases "length (sha_buf ctx) = 63") (simp_all add: sha_push_def sha_ready_def)

lemma sha_push_buf_length:
  "sha_ready ctx \<Longrightarrow> length (sha_buf (fold sha_push m ctx)) = (length (sha_buf ctx) + length m) mod 64"
proof (induction m arbitrary: ctx)
  case (Cons b m)
  have "length (sha_buf (fold sha_push m (sha_push b ctx))) =
      ((length (sha_buf ctx) + 1) mod 64 + length m) mod 64"
    using Cons.prems by (simp only: Cons.IH sha_ready_push sha_push_byte_length)
  then show ?case by (simp only: mod_add_left_eq fold_simps list.size add.assoc add.commute [of 1])
      simp
qed (simp add: sha_ready_def)

lemma sha_push_blocks:
  "sha_buf ctx = [] \<Longrightarrow> fold sha_push m ctx =
     ctx\<lparr>sha_state := fold (\<lambda>b st. sha256_block st b) (sha_blocks m) (sha_state ctx),
         sha_total := sha_total ctx + word_of_nat (length m),
         sha_buf := drop (64 * (length m div 64)) m\<rparr>"
proof (induction m arbitrary: ctx rule: sha_blocks.induct)
  case (1 m)
  show ?case
  proof (cases "length m < 64")
    case True
    then show ?thesis using 1 by (simp add: sha_push_short sha_blocks.simps)
  next
    case False
    define c where "c = fold sha_push (take 64 m) ctx"
    have "m \<noteq> []" using False by auto
    then have c: "c = ctx\<lparr>sha_state := sha256_block (sha_state ctx) (take 64 m),
        sha_total := sha_total ctx + 64, sha_buf := []\<rparr>"
      using sha_push_full [of "take 64 m" ctx] False 1(2) by (simp add: c_def)
    have "fold sha_push (take 64 m @ drop 64 m) ctx = fold sha_push (drop 64 m) c"
      by (simp only: c_def fold_append comp_def)
    also have "\<dots> = c\<lparr>sha_state := fold (\<lambda>b st. sha256_block st b) (sha_blocks (drop 64 m)) (sha_state c),
         sha_total := sha_total c + word_of_nat (length (drop 64 m)),
         sha_buf := drop (64 * (length (drop 64 m) div 64)) (drop 64 m)\<rparr>"
      using False by (intro 1(1)) (simp_all add: c)
    finally show ?thesis
      using False by (cases ctx) (simp add: c sha_blocks.simps [of m] le_div_geq of_nat_diff add.commute)
  qed
qed

lemma sha_pad_mod:
  fixes l :: nat
  assumes "l < 64"
  shows "(120 - l) mod 64 = (if l \<le> 56 then 56 - l else 120 - l)"
proof (cases "l \<le> 56")
  case True
  then have "120 - l = 56 - l + 64" by simp
  then show ?thesis using True by (simp only: mod_add_self2) simp
qed (use assms in simp)

lemma sha_pad_mod_Suc: "(120 - Suc n mod 64) mod 64 = (119 - n mod 64) mod 64"
  by (simp add: mod_Suc)

lemma sha_pad_zero_push:
  "sha_ready ctx \<Longrightarrow>
     sha_pad_zero ctx = fold sha_push (replicate ((120 - length (sha_buf ctx)) mod 64) 0) ctx"
proof (induction ctx rule: sha_pad_zero.induct)
  case (1 ctx)
  define l where "l = length (sha_buf ctx)"
  have l: "l < 64" using 1(2) by (simp add: l_def sha_ready_def)
  show ?case
  proof (cases "l = 56")
    case True
    then show ?thesis by (simp add: sha_pad_zero.simps l_def)
  next
    case False
    have "length (sha_buf (sha_push 0 ctx)) = (l + 1) mod 64"
      using l by (auto simp: sha_push_def l_def)
    moreover have "(120 - l) mod 64 = Suc ((120 - (l + 1) mod 64) mod 64)"
      using l False by (auto simp: sha_pad_mod mod_Suc)
    moreover have "sha_pad_zero (sha_push 0 ctx) =
        fold sha_push (replicate ((120 - length (sha_buf (sha_push 0 ctx))) mod 64) 0) (sha_push 0 ctx)"
      using 1 False l by (auto simp: sha_update_byte l_def)
    ultimately show ?thesis
      using False l 1(2) by (subst sha_pad_zero.simps) (simp add: sha_update_byte l_def)
  qed
qed

lemma sha_final_digest:
  "sar_sha256_final (fold sha_push m sar_sha256_init) = sha256_digest m"
proof -
  define c where "c = fold sha_push m sar_sha256_init"
  have rd: "sha_ready c" by (simp add: c_def)
  have tot: "sha_total c = word_of_nat (length m)"
    using sha_push_blocks [of sar_sha256_init m] by (simp add: c_def)
  have "length (sha_buf (sha_push 0x80 c)) = (length m + 1) mod 64"
    using sha_push_buf_length [of sar_sha256_init "m @ [0x80]"]
    by (simp add: c_def)
  then have z: "(120 - length (sha_buf (sha_push 0x80 c))) mod 64 = (119 - length m mod 64) mod 64"
    by (simp add: sha_pad_mod_Suc)
  have pad: "sar_sha256_update (sha_pad_zero (sar_sha256_update c [0x80]))
      (map (\<lambda>i. ucast (drop_bit (56 - 8 * i) (sha_total c * 8))) [0..<8]) =
      fold sha_push (m @ sha_padding (length m)) sar_sha256_init"
    using rd z by (simp add: sha_update_push sha_pad_zero_push sha_padding_def c_def [symmetric] tot
        sar_store64be_def upt_8)
  define st where "st = fold (\<lambda>b st. sha256_block st b) (sha_blocks (m @ sha_padding (length m)))
      (sha_state sar_sha256_init)"
  have st: "sha_state (fold sha_push (m @ sha_padding (length m)) sar_sha256_init) = st"
    using sha_push_blocks [of sar_sha256_init "m @ sha_padding (length m)"]
    by (simp add: st_def)
  have "length st = 8"
    using sha_ready_pushes [OF sha_ready_init, of "m @ sha_padding (length m)"] st
    by (simp add: sha_ready_def)
  then have "map (\<lambda>i. sar_st_be32 (st ! i)) [0..<8] = map sar_st_be32 st"
    by (intro nth_equalityI) auto
  then show ?thesis
    unfolding sar_sha256_final_def Let_def c_def [symmetric] pad st sha256_digest_def st_def [symmetric]
    by (simp add: sar_st_be32_def)
qed

lemma sha_stream_digest:
  "sar_sha256_final (sar_sha256_update sar_sha256_init m) = sha256_digest m"
  "sar_sha256_final (sar_sha256_update (sar_sha256_update sar_sha256_init a) b) = sha256_digest (a @ b)"
  using sha_final_digest [of m] sha_final_digest [of "a @ b"] by (simp_all add: sha_update_push)

lemma sha_final_init: "sar_sha256_final sar_sha256_init = sha256_digest []"
  using sha_final_digest [of "[]"] by simp

lemma length_sha256_digest [simp, sar_len]: "length (sha256_digest m) = 32"
proof -
  have "sha_ready (fold sha_push (m @ sha_padding (length m)) sar_sha256_init)" by simp
  then have "length (fold (\<lambda>b st. sha256_block st b) (sha_blocks (m @ sha_padding (length m)))
      (sha_state sar_sha256_init)) = 8"
    using sha_push_blocks [of sar_sha256_init "m @ sha_padding (length m)"]
    by (simp add: sha_ready_def)
  then show ?thesis by (simp add: sha256_digest_def length_concat comp_def sum_list_triv)
qed

lemma sar_hmac_sha256_eq: "sar_hmac_sha256 key msg = hmac_sha256 key msg"
proof -
  have "(if length key > 64 then sar_memcpy (sar_memset (replicate 64 0) 0 64) (sha256_digest key) 32
      else sar_memcpy (sar_memset (replicate 64 0) 0 64) key (length key)) =
    (let k0 = (if length key > 64 then sha256_digest key else key) in k0 @ replicate (64 - length k0) 0)"
    by (simp add: sar_memcpy_def sar_memset_def Let_def)
  then show ?thesis
    unfolding sar_hmac_sha256_def hmac_sha256_def Let_def sha_stream_digest
    by simp
qed

lemma length_sar_hmac_sha256 [simp, sar_len]: "length (sar_hmac_sha256 key msg) = 32"
  by (simp add: sar_hmac_sha256_eq hmac_sha256_def Let_def)

end
