(* ===== verification/Mac_Chain.thy ===== *)
theory Mac_Chain
  imports Sar_Prelude
begin

text \<open>
  Both persistent stores, the keystore and the preserve index, write their records one after the
  other, each followed by a MAC over the record and the previous MAC, and verify them in a loop. The
  locale \<open>mac_chain\<close> is the contract between such a store and this layout: a record encoding with
  a decoder, a MAC, and a loop that obeys the verification equations. The two stores interpret it.
  The packed layout of the wide-character paths both record types hold is here too.
\<close>

primrec chain_body :: "('r \<Rightarrow> bytes) \<Rightarrow> ('r \<Rightarrow> bytes \<Rightarrow> bytes) \<Rightarrow> bytes \<Rightarrow> 'r list \<Rightarrow> bytes" where
  "chain_body enc macf prev [] = []"
| "chain_body enc macf prev (r # rs) =
     (let m = macf r prev in enc r @ m @ chain_body enc macf m rs)"

primrec chain_head :: "('r \<Rightarrow> bytes \<Rightarrow> bytes) \<Rightarrow> bytes \<Rightarrow> 'r list \<Rightarrow> bytes" where
  "chain_head macf prev [] = prev"
| "chain_head macf prev (r # rs) = chain_head macf (macf r prev) rs"

definition path_bytes :: "u16 list \<Rightarrow> bytes" where
  "path_bytes p = concat (map (le_store 2) p)"

definition path_of_bytes :: "nat \<Rightarrow> bytes \<Rightarrow> u16 list" where
  "path_of_bytes n b = map (\<lambda>i. le_load (slice b (2 * i) 2)) [0..<n]"

lemma chain_fold:
  "fold (\<lambda>r (out, prev). let m = macf r prev in (out @ enc r @ m, m)) rs (out, prev) =
     (out @ chain_body enc macf prev rs, chain_head macf prev rs)"
  by (induction rs arbitrary: out prev) (simp_all add: Let_def)

lemma slice_join: "j = i + n \<Longrightarrow> slice b i n @ slice b j m = slice b i (n + m)"
  by (simp add: slice_def take_add add.commute [of n i])

lemma slice_single: "i < length b \<Longrightarrow> [b ! i] = slice b i 1"
  by (simp add: slice_def take_Suc_conv_app_nth flip: hd_drop_conv_nth)

lemma length_path_bytes [simp, sar_len]: "length (path_bytes p) = 2 * length p"
  by (induction p) (simp_all add: path_bytes_def)

lemma path_bytes_Cons: "path_bytes (c # p) = le_store 2 c @ path_bytes p"
  by (simp add: path_bytes_def)

lemma slice_path_bytes: "i < length p \<Longrightarrow> slice (path_bytes p) (2 * i) 2 = le_store 2 (p ! i)"
proof (induction p arbitrary: i)
  case (Cons c p)
  show ?case
  proof (cases i)
    case 0
    then show ?thesis by (simp add: path_bytes_Cons slice_def)
  next
    case (Suc j)
    then show ?thesis using Cons by (simp add: path_bytes_Cons slice_def)
  qed
qed simp

lemma path_of_bytes_path [simp]: "length p = n \<Longrightarrow> path_of_bytes n (path_bytes p) = p"
  by (rule nth_equalityI) (simp_all add: path_of_bytes_def slice_path_bytes le_load_store)

lemma length_path_of_bytes [simp, sar_len]: "length (path_of_bytes n b) = n"
  by (simp add: path_of_bytes_def)

lemma path_bytes_of: "length b = 2 * n \<Longrightarrow> path_bytes (path_of_bytes n b) = b"
proof (rule nth_equalityI)
  fix i assume b: "length b = 2 * n" and "i < length (path_bytes (path_of_bytes n b))"
  then have i: "i div 2 < n" by auto
  have "path_bytes (path_of_bytes n b) ! i = slice (path_bytes (path_of_bytes n b)) (2 * (i div 2)) 2 ! (i mod 2)"
    using b i by (simp add: nth_slice)
  also have "\<dots> = le_store 2 (le_load (slice b (2 * (i div 2)) 2) :: u16) ! (i mod 2)"
    using i by (simp add: slice_path_bytes) (simp add: path_of_bytes_def)
  also have "\<dots> = slice b (2 * (i div 2)) 2 ! (i mod 2)"
    using b i by (simp add: le_store_load)
  also have "\<dots> = b ! i" using b i by (simp add: nth_slice)
  finally show "path_bytes (path_of_bytes n b) ! i = b ! i" .
qed simp

lemma path_bytes_inject: "length p = length q \<Longrightarrow> path_bytes p = path_bytes q \<longleftrightarrow> p = q"
  by (metis path_of_bytes_path)

locale mac_chain =
  fixes enc :: "'r \<Rightarrow> bytes"
    and dec :: "bytes \<Rightarrow> 'r"
    and wf :: "'r \<Rightarrow> bool"
    and rsize :: nat
    and macf :: "'r \<Rightarrow> bytes \<Rightarrow> bytes"
    and loop :: "bytes \<Rightarrow> nat \<Rightarrow> nat \<Rightarrow> bytes \<Rightarrow> bytes option option"
  assumes enc_length: "wf r \<Longrightarrow> length (enc r) = rsize"
    and dec_enc: "wf r \<Longrightarrow> dec (enc r) = r"
    and enc_dec: "length b = rsize \<Longrightarrow> enc (dec b) = b"
    and dec_wf: "length b = rsize \<Longrightarrow> wf (dec b)"
    and mac_length: "length (macf r prev) = 32"
    and loop_0: "loop buf p 0 prev = Some (Some prev)"
    and loop_Suc: "loop buf p (Suc n) prev =
      (if p + (rsize + 32) > length buf then None
       else let m = slice buf (p + rsize) 32
            in if \<not> sar_ct_equal (macf (dec (slice buf p rsize)) prev) m 32 then Some None
               else loop buf (p + (rsize + 32)) n m)"
begin

lemma head_length: "length prev = 32 \<Longrightarrow> length (chain_head macf prev rs) = 32"
  by (induction rs arbitrary: prev) (simp_all add: mac_length)

lemma body_length: "list_all wf rs \<Longrightarrow> length (chain_body enc macf prev rs) = length rs * (rsize + 32)"
  by (induction rs arbitrary: prev) (simp_all add: Let_def enc_length mac_length algebra_simps)

lemma body_slice:
  "list_all wf rs \<Longrightarrow> i < length rs \<Longrightarrow>
     slice (chain_body enc macf prev rs) (i * (rsize + 32)) rsize = enc (rs ! i)"
proof (induction rs arbitrary: i prev)
  case (Cons r rs)
  show ?case
  proof (cases i)
    case 0
    then show ?thesis using Cons.prems by (simp add: Let_def slice_def enc_length)
  next
    case (Suc j)
    then show ?thesis using Cons by (simp add: Let_def slice_def enc_length mac_length)
  qed
qed simp

lemma loop_body:
  assumes "list_all wf rs" "length prev = 32"
  shows "loop (pre @ chain_body enc macf prev rs @ post) (length pre) (length rs) prev =
    Some (Some (chain_head macf prev rs))"
  using assms
proof (induction rs arbitrary: pre prev)
  case (Cons r rs)
  define m where "m = macf r prev"
  define buf where "buf = pre @ chain_body enc macf prev (r # rs) @ post"
  have buf: "buf = (pre @ enc r @ m) @ chain_body enc macf m rs @ post"
    by (simp add: buf_def m_def Let_def)
  have len: "length (pre @ enc r @ m) = length pre + (rsize + 32)"
    using Cons.prems by (simp add: m_def mac_length enc_length)
  have room: "\<not> length pre + (rsize + 32) > length buf"
    using len by (simp add: buf)
  have rd: "slice buf (length pre) rsize = enc r" "slice buf (length pre + rsize) 32 = m"
    using Cons.prems by (simp_all add: buf slice_def m_def mac_length enc_length)
  have "loop buf (length pre + (rsize + 32)) (length rs) m = Some (Some (chain_head macf m rs))"
    using Cons.IH [of m "pre @ enc r @ m"] Cons.prems len by (simp add: buf m_def mac_length)
  then show ?case
    using room rd Cons.prems
    by (simp add: buf_def [symmetric] loop_Suc Let_def dec_enc m_def [symmetric] del: chain_body.simps)
qed (simp add: loop_0)

lemma loop_Some:
  assumes "loop buf p n prev = Some (Some h)" "length prev = 32" "p + n * (rsize + 32) \<le> length buf"
  obtains rs where "length rs = n" "list_all wf rs"
    "slice buf p (n * (rsize + 32)) = chain_body enc macf prev rs" "h = chain_head macf prev rs"
  using assms
proof (induction n arbitrary: p prev thesis)
  case 0
  show ?case by (rule 0(1) [of "[]"]) (use 0(2) in \<open>simp_all add: slice_def loop_0\<close>)
next
  case (Suc n)
  define r where "r = dec (slice buf p rsize)"
  define m where "m = slice buf (p + rsize) 32"
  have room: "p + (rsize + 32) \<le> length buf" "p + (rsize + 32) + n * (rsize + 32) \<le> length buf"
    using Suc.prems(4) by simp_all
  have m: "macf r prev = m" and rest: "loop buf (p + (rsize + 32)) n m = Some (Some h)"
    using Suc.prems(2) room(1)
    by (simp_all add: loop_Suc Let_def sar_ct_equal_iff mac_length m_def r_def split: if_splits)
  obtain rs where rs: "length rs = n" "list_all wf rs"
    "slice buf (p + (rsize + 32)) (n * (rsize + 32)) = chain_body enc macf m rs" "h = chain_head macf m rs"
    using Suc.IH [OF _ rest] room by (auto simp: m_def)
  have "slice buf p (Suc n * (rsize + 32)) =
      slice buf p rsize @ slice buf (p + rsize) 32 @ slice buf (p + (rsize + 32)) (n * (rsize + 32))"
    by (simp add: slice_join add.assoc)
  also have "slice buf p rsize = enc r"
    using room by (simp add: r_def enc_dec)
  finally have "slice buf p (Suc n * (rsize + 32)) = chain_body enc macf prev (r # rs)"
    using rs(3) m by (simp add: Let_def m_def)
  with rs m room show ?case
    by (intro Suc.prems(1) [of "r # rs"]) (simp_all add: r_def dec_wf)
qed

lemma loop_in_bounds: "p + n * (rsize + 32) \<le> length buf \<Longrightarrow> loop buf p n prev \<noteq> None"
  by (induction n arbitrary: p prev) (auto simp: loop_0 loop_Suc Let_def)

lemma loop_outside: "0 < n \<Longrightarrow> length buf < p + (rsize + 32) \<Longrightarrow> loop buf p n prev = None"
  by (cases n) (simp_all add: loop_Suc)

end

end
