(* ===== verification/Keystore.thy ===== *)
theory Keystore
  imports Engine_Format Sha256 Mac_Chain
begin

text \<open>
  The keystore of \<^verbatim>\<open>engine/src/keystore.c\<close>: captured-key records, their packed byte layout
  (\<^verbatim>\<open>common/include/semantics_ar/keystore_format.h\<close>), the append with its duplicate test, and the
  serialised form whose records are chained by HMAC. Sizes are computed in 64-bit words, as
  \<^verbatim>\<open>size_t\<close> is on the targets; a read outside the buffer is the value \<^term>\<open>None\<close> of the verifier.
\<close>

section \<open>Definitions\<close>

record keystore_record =
  kr_key_id :: bytes
  kr_algorithm :: u32
  kr_mode :: u32
  kr_key_length :: u32
  kr_key_bytes :: bytes
  kr_iv :: bytes
  kr_iv_length :: u8
  kr_ctr_layout_tag :: u8
  kr_mode_params :: u64
  kr_provenance_offset :: u64
  kr_provenance_length :: u64
  kr_provenance_path :: "u16 list"
  kr_sample_offset :: u64
  kr_sample_length :: u32
  kr_sample_tag :: bytes
  kr_capture_time :: u64
  kr_actor_start_key :: u64

record keystore_header =
  kh_magic :: u32
  kh_record_count :: u64
  kh_generation :: u64
  kh_head_mac :: bytes

record keystore_anchor =
  ka_present :: bool
  ka_generation :: u64
  ka_head_mac :: bytes

datatype ks_status =
    SAR_KS_OK | SAR_KS_INVALID_ARG | SAR_KS_FULL | SAR_KS_BUFFER_TOO_SMALL | SAR_KS_BAD_MAGIC
  | SAR_KS_TRUNCATED | SAR_KS_RECORD_MAC | SAR_KS_COUNT_MISMATCH | SAR_KS_ROLLBACK

definition SEMANTICS_AR_KEYSTORE_MAGIC :: u32 where
  "SEMANTICS_AR_KEYSTORE_MAGIC = 0x53414B53"

text \<open>
  The packed layout of a record, 738 bytes, and of the header, 52 bytes.
\<close>

definition ks_record_size :: nat where "ks_record_size = 738"
definition ks_disk_size :: nat where "ks_disk_size = 770"
definition ks_header_size :: nat where "ks_header_size = 52"

definition ks_encode :: "keystore_record \<Rightarrow> bytes" where
  "ks_encode r =
     kr_key_id r @ le_store 4 (kr_algorithm r) @ le_store 4 (kr_mode r) @ le_store 4 (kr_key_length r) @
     kr_key_bytes r @ kr_iv r @ [kr_iv_length r] @ [kr_ctr_layout_tag r] @
     le_store 8 (kr_mode_params r) @ le_store 8 (kr_provenance_offset r) @
     le_store 8 (kr_provenance_length r) @ path_bytes (kr_provenance_path r) @
     le_store 8 (kr_sample_offset r) @ le_store 4 (kr_sample_length r) @ kr_sample_tag r @
     le_store 8 (kr_capture_time r) @ le_store 8 (kr_actor_start_key r)"

definition ks_decode :: "bytes \<Rightarrow> keystore_record" where
  "ks_decode b =
     \<lparr>kr_key_id = slice b 0 32,
      kr_algorithm = le_load (slice b 32 4),
      kr_mode = le_load (slice b 36 4),
      kr_key_length = le_load (slice b 40 4),
      kr_key_bytes = slice b 44 64,
      kr_iv = slice b 108 24,
      kr_iv_length = b ! 132,
      kr_ctr_layout_tag = b ! 133,
      kr_mode_params = le_load (slice b 134 8),
      kr_provenance_offset = le_load (slice b 142 8),
      kr_provenance_length = le_load (slice b 150 8),
      kr_provenance_path = path_of_bytes 260 (slice b 158 520),
      kr_sample_offset = le_load (slice b 678 8),
      kr_sample_length = le_load (slice b 686 4),
      kr_sample_tag = slice b 690 32,
      kr_capture_time = le_load (slice b 722 8),
      kr_actor_start_key = le_load (slice b 730 8)\<rparr>"

definition kh_encode :: "keystore_header \<Rightarrow> bytes" where
  "kh_encode h =
     le_store 4 (kh_magic h) @ le_store 8 (kh_record_count h) @ le_store 8 (kh_generation h) @ kh_head_mac h"

definition kh_decode :: "bytes \<Rightarrow> keystore_header" where
  "kh_decode b =
     \<lparr>kh_magic = le_load (slice b 0 4), kh_record_count = le_load (slice b 4 8),
      kh_generation = le_load (slice b 12 8), kh_head_mac = slice b 20 32\<rparr>"

definition sar_keystore_key_id :: "bytes \<Rightarrow> u32 \<Rightarrow> u32 \<Rightarrow> u32 \<Rightarrow> bytes \<Rightarrow> bytes" where
  "sar_keystore_key_id mac_key algorithm mode key_length key_bytes =
     (let kl = (if unat key_length > SEMANTICS_AR_MAX_KEY_BYTES then SEMANTICS_AR_MAX_KEY_BYTES
                else unat key_length)
      in sar_hmac_sha256 mac_key
           ([0x01] @ le_store 4 algorithm @ le_store 4 mode @ le_store 4 key_length @ take kl key_bytes))"

definition sar_sample_tag :: "bytes \<Rightarrow> nat \<Rightarrow> bytes" where
  "sar_sample_tag data len =
     (if len \<noteq> 0 then sar_sha256_final (sar_sha256_update sar_sha256_init (take len data))
      else sar_sha256_final sar_sha256_init)"

primrec copy_path :: "nat \<Rightarrow> u16 list \<Rightarrow> u16 list" where
  "copy_path 0 p = []"
| "copy_path (Suc n) p =
     (case p of [] \<Rightarrow> replicate (Suc n) 0
      | c # p' \<Rightarrow> c # (if c = 0 then replicate n 0 else copy_path n p'))"

definition sar_keystore_record_init ::
  "bytes \<Rightarrow> sar_verdict \<Rightarrow> u16 list option \<Rightarrow> u64 \<Rightarrow> u64 \<Rightarrow> bytes option \<Rightarrow> u32 \<Rightarrow> u64 \<Rightarrow> u64 \<Rightarrow> u64
     \<Rightarrow> keystore_record" where
  "sar_keystore_record_init mac_key verdict provenance_path provenance_offset provenance_length
     sample sample_len sample_offset capture_time actor_start_key =
     (let kl = min (unat (v_key_length verdict)) SEMANTICS_AR_MAX_KEY_BYTES;
          key_bytes = sar_memcpy (replicate 64 0) (v_key verdict) kl;
          ivl = (if unat (v_iv_length verdict) > SEMANTICS_AR_IV_MAX then word_of_nat SEMANTICS_AR_IV_MAX
                 else v_iv_length verdict);
          sl = (if unat sample_len > SEMANTICS_AR_SAMPLE_TAG_MAX then word_of_nat SEMANTICS_AR_SAMPLE_TAG_MAX
                else sample_len);
          (sample_length, sample_tag) =
            (case sample of
               Some s \<Rightarrow> if sample_len > 0 then (sl, sar_sample_tag s (unat sl)) else (0, replicate 32 0)
             | None \<Rightarrow> (0, replicate 32 0))
      in \<lparr>kr_key_id = sar_keystore_key_id mac_key (v_algorithm verdict) (v_mode verdict)
            (v_key_length verdict) key_bytes,
          kr_algorithm = v_algorithm verdict,
          kr_mode = v_mode verdict,
          kr_key_length = v_key_length verdict,
          kr_key_bytes = key_bytes,
          kr_iv = sar_memcpy (replicate 24 0) (v_iv verdict) (unat ivl),
          kr_iv_length = ivl,
          kr_ctr_layout_tag = v_ctr_layout_tag verdict,
          kr_mode_params = v_mode_params verdict,
          kr_provenance_offset = provenance_offset,
          kr_provenance_length = provenance_length,
          kr_provenance_path =
            (case provenance_path of None \<Rightarrow> replicate 260 0
             | Some p \<Rightarrow> copy_path SEMANTICS_AR_PROVENANCE_PATH_MAX p),
          kr_sample_offset = sample_offset,
          kr_sample_length = sample_length,
          kr_sample_tag = sample_tag,
          kr_capture_time = capture_time,
          kr_actor_start_key = actor_start_key\<rparr>)"

definition ks_same_key :: "keystore_record \<Rightarrow> keystore_record \<Rightarrow> bool" where
  "ks_same_key a rec \<longleftrightarrow>
     sar_memcmp (kr_key_id a) (kr_key_id rec) SEMANTICS_AR_KEY_ID_SIZE = 0 \<and>
     kr_provenance_offset a = kr_provenance_offset rec \<and>
     sar_memcmp (path_bytes (kr_provenance_path a)) (path_bytes (kr_provenance_path rec)) 520 = 0"

definition sar_keystore_append ::
  "keystore_record list \<Rightarrow> nat \<Rightarrow> keystore_record \<Rightarrow> int \<times> keystore_record list" where
  "sar_keystore_append records capacity rec =
     (if list_ex (\<lambda>a. ks_same_key a rec) records then (0, records)
      else if length records \<ge> capacity then (- 2, records)
      else (1, records @ [rec]))"

definition sar_keystore_mac_record :: "bytes \<Rightarrow> keystore_record \<Rightarrow> bytes \<Rightarrow> bytes" where
  "sar_keystore_mac_record mac_key rf prev_mac =
     sar_hmac_sha256 mac_key (ks_encode rf @ take SEMANTICS_AR_MAC_SIZE prev_mac)"

definition sar_keystore_serialized_size :: "u64 \<Rightarrow> u64" where
  "sar_keystore_serialized_size count = word_of_nat ks_header_size + count * word_of_nat ks_disk_size"

definition ks_write_record ::
  "bytes \<Rightarrow> keystore_record \<Rightarrow> bytes \<times> bytes \<Rightarrow> bytes \<times> bytes" where
  "ks_write_record mac_key r = (\<lambda>(out, prev).
     let mac = sar_keystore_mac_record mac_key r prev in (out @ ks_encode r @ mac, mac))"

definition sar_keystore_serialize ::
  "bytes \<Rightarrow> keystore_record list \<Rightarrow> u64 \<Rightarrow> u64 \<Rightarrow> u64 \<Rightarrow> ks_status \<times> u64 \<times> bytes" where
  "sar_keystore_serialize mac_key records count generation out_cap =
     (let need = sar_keystore_serialized_size count
      in if out_cap < need then (SAR_KS_BUFFER_TOO_SMALL, need, [])
         else
           let (body, prev) = fold (ks_write_record mac_key) (take (unat count) records)
                 ([], replicate SEMANTICS_AR_MAC_SIZE 0);
               hdr = \<lparr>kh_magic = SEMANTICS_AR_KEYSTORE_MAGIC, kh_record_count = count,
                      kh_generation = generation, kh_head_mac = prev\<rparr>
           in (SAR_KS_OK, need, kh_encode hdr @ body))"

text \<open>
  The verification loop: \<^term>\<open>None\<close> when a record is read from outside the buffer, \<^term>\<open>Some None\<close>
  when a record MAC does not match, \<^term>\<open>Some (Some prev)\<close> with the last MAC otherwise.
\<close>

primrec ks_verify_loop :: "bytes \<Rightarrow> bytes \<Rightarrow> nat \<Rightarrow> nat \<Rightarrow> bytes \<Rightarrow> bytes option option" where
  "ks_verify_loop mac_key buf p 0 prev = Some (Some prev)"
| "ks_verify_loop mac_key buf p (Suc n) prev =
     (if p + ks_disk_size > length buf then None
      else
        let rf = ks_decode (slice buf p ks_record_size);
            disk_mac = slice buf (p + ks_record_size) SEMANTICS_AR_MAC_SIZE;
            mac = sar_keystore_mac_record mac_key rf prev
        in if \<not> sar_ct_equal mac disk_mac SEMANTICS_AR_MAC_SIZE then Some None
           else ks_verify_loop mac_key buf (p + ks_disk_size) n disk_mac)"

definition sar_keystore_verify ::
  "bytes \<Rightarrow> bytes \<Rightarrow> keystore_anchor option \<Rightarrow> (ks_status \<times> u64 option) option" where
  "sar_keystore_verify buf mac_key anchor =
     (if length buf < ks_header_size then Some (SAR_KS_TRUNCATED, None)
      else
        let hdr = kh_decode buf
        in if kh_magic hdr \<noteq> SEMANTICS_AR_KEYSTORE_MAGIC then Some (SAR_KS_BAD_MAGIC, None)
           else
             let need = sar_keystore_serialized_size (kh_record_count hdr)
             in if length buf < unat need then Some (SAR_KS_TRUNCATED, None)
                else if length buf \<noteq> unat need then Some (SAR_KS_COUNT_MISMATCH, None)
                else
                  case ks_verify_loop mac_key buf ks_header_size (unat (kh_record_count hdr))
                         (replicate SEMANTICS_AR_MAC_SIZE 0) of
                    None \<Rightarrow> None
                  | Some None \<Rightarrow> Some (SAR_KS_RECORD_MAC, None)
                  | Some (Some prev) \<Rightarrow>
                      if \<not> sar_ct_equal prev (kh_head_mac hdr) SEMANTICS_AR_MAC_SIZE
                      then Some (SAR_KS_RECORD_MAC, None)
                      else
                        (case anchor of
                           None \<Rightarrow> Some (SAR_KS_OK, Some (kh_record_count hdr))
                         | Some a \<Rightarrow>
                             if ka_present a \<and> kh_generation hdr \<noteq> ka_generation a
                             then Some (SAR_KS_ROLLBACK, None)
                             else if ka_present a \<and>
                                 \<not> sar_ct_equal (kh_head_mac hdr) (ka_head_mac a) SEMANTICS_AR_MAC_SIZE
                             then Some (SAR_KS_ROLLBACK, None)
                             else Some (SAR_KS_OK, Some (kh_record_count hdr))))"

section \<open>The byte layout\<close>

definition wf_ks_record :: "keystore_record \<Rightarrow> bool" where
  "wf_ks_record r \<longleftrightarrow> length (kr_key_id r) = 32 \<and> length (kr_key_bytes r) = 64 \<and> length (kr_iv r) = 24 \<and>
     length (kr_provenance_path r) = 260 \<and> length (kr_sample_tag r) = 32"

lemmas ks_sizes = ks_record_size_def ks_disk_size_def ks_header_size_def

lemma length_ks_encode [simp, sar_len]: "wf_ks_record r \<Longrightarrow> length (ks_encode r) = 738"
  by (simp add: ks_encode_def wf_ks_record_def)

lemma ks_decode_encode: "wf_ks_record r \<Longrightarrow> ks_decode (ks_encode r) = r"
  by (cases r) (simp add: ks_decode_def ks_encode_def wf_ks_record_def slice_def le_load_store nth_append)

lemma ks_encode_decode:
  assumes "length b = 738"
  shows "ks_encode (ks_decode b) = b"
proof -
  have "ks_encode (ks_decode b) = slice b 0 738"
    using assms
    by (simp add: ks_encode_def ks_decode_def le_store_load path_bytes_of slice_single [of 132]
        slice_single [of 133] slice_join)
  then show ?thesis using assms by (simp add: slice_def)
qed

lemma wf_ks_decode: "length b = 738 \<Longrightarrow> wf_ks_record (ks_decode b)"
  by (simp add: wf_ks_record_def ks_decode_def)

lemma length_kh_encode [simp, sar_len]: "length (kh_head_mac h) = 32 \<Longrightarrow> length (kh_encode h) = 52"
  by (simp add: kh_encode_def)

lemma kh_decode_encode: "length (kh_head_mac h) = 32 \<Longrightarrow> kh_decode (kh_encode h @ rest) = h"
  by (cases h) (simp add: kh_decode_def kh_encode_def slice_def le_load_store)

lemma kh_encode_decode:
  assumes "52 \<le> length b"
  shows "kh_encode (kh_decode b) = take 52 b"
proof -
  have "kh_encode (kh_decode b) = slice b 0 52"
    using assms by (simp add: kh_encode_def kh_decode_def le_store_load slice_join)
  then show ?thesis by (simp add: slice_def)
qed

section \<open>The MAC chain\<close>

text \<open>
  The serialised body of a list of records and the MAC the chain ends with, as functions of the MAC
  it starts with.
\<close>

definition ks_body :: "bytes \<Rightarrow> bytes \<Rightarrow> keystore_record list \<Rightarrow> bytes" where
  "ks_body mac_key = chain_body ks_encode (sar_keystore_mac_record mac_key)"

definition ks_head :: "bytes \<Rightarrow> bytes \<Rightarrow> keystore_record list \<Rightarrow> bytes" where
  "ks_head mac_key = chain_head (sar_keystore_mac_record mac_key)"

definition ks_zero_mac :: bytes where
  "ks_zero_mac = replicate 32 0"

definition ks_image :: "bytes \<Rightarrow> u64 \<Rightarrow> keystore_record list \<Rightarrow> bytes" where
  "ks_image mac_key generation rs =
     kh_encode \<lparr>kh_magic = SEMANTICS_AR_KEYSTORE_MAGIC, kh_record_count = word_of_nat (length rs),
                kh_generation = generation, kh_head_mac = ks_head mac_key ks_zero_mac rs\<rparr> @
     ks_body mac_key ks_zero_mac rs"

lemma length_ks_mac [simp, sar_len]: "length (sar_keystore_mac_record k r prev) = 32"
  by (simp add: sar_keystore_mac_record_def)

interpretation ks_chain: mac_chain ks_encode ks_decode wf_ks_record 738
    "sar_keystore_mac_record mac_key" "ks_verify_loop mac_key" for mac_key
  by unfold_locales
    (simp_all add: ks_decode_encode ks_encode_decode wf_ks_decode ks_sizes sar_sizes Let_def)

lemmas ks_chain_defs = ks_body_def ks_head_def

lemma length_ks_head [simp, sar_len]: "length prev = 32 \<Longrightarrow> length (ks_head k prev rs) = 32"
  by (simp add: ks_head_def ks_chain.head_length)

lemma length_ks_body [sar_len]: "list_all wf_ks_record rs \<Longrightarrow> length (ks_body k prev rs) = length rs * 770"
  by (simp add: ks_body_def ks_chain.body_length)

lemma ks_chain_Nil [simp]: "ks_body k prev [] = []" "ks_head k prev [] = prev"
  by (simp_all add: ks_chain_defs)

lemma length_ks_zero_mac [simp, sar_len]: "length ks_zero_mac = 32"
  by (simp add: ks_zero_mac_def)

lemma ks_write_records:
  "fold (ks_write_record k) rs (out, prev) = (out @ ks_body k prev rs, ks_head k prev rs)"
  unfolding ks_chain_defs ks_write_record_def by (rule chain_fold)

lemma sar_keystore_serialize_image:
  assumes "length rs < 2 ^ 64" "sar_keystore_serialized_size (word_of_nat (length rs)) \<le> out_cap"
  shows "sar_keystore_serialize mac_key rs (word_of_nat (length rs)) generation out_cap =
    (SAR_KS_OK, sar_keystore_serialized_size (word_of_nat (length rs)), ks_image mac_key generation rs)"
  using assms
  by (simp add: sar_keystore_serialize_def ks_write_records ks_image_def unat_u64_of_nat Let_def
      ks_zero_mac_def sar_sizes not_less)

lemma length_ks_image: "list_all wf_ks_record rs \<Longrightarrow> length (ks_image k g rs) = 52 + length rs * 770"
  by (simp add: ks_image_def length_ks_body)

lemma unat_serialized_size:
  assumes "52 + n * 770 < 2 ^ 64"
  shows "unat (sar_keystore_serialized_size (word_of_nat n)) = 52 + n * 770"
proof -
  have "sar_keystore_serialized_size (word_of_nat n) = word_of_nat (52 + n * 770)"
    by (simp add: sar_keystore_serialized_size_def ks_sizes)
  then show ?thesis using unat_u64_of_nat [OF assms] by simp
qed

lemma kh_decode_image:
  "kh_decode (ks_image k g rs) =
     \<lparr>kh_magic = SEMANTICS_AR_KEYSTORE_MAGIC, kh_record_count = word_of_nat (length rs),
      kh_generation = g, kh_head_mac = ks_head k ks_zero_mac rs\<rparr>"
  by (simp add: ks_image_def kh_decode_encode)

lemma sar_keystore_verify_image:
  assumes "list_all wf_ks_record rs" "52 + length rs * 770 < 2 ^ 64"
  shows "sar_keystore_verify (ks_image k g rs) k anchor =
    (case anchor of
       None \<Rightarrow> Some (SAR_KS_OK, Some (word_of_nat (length rs)))
     | Some a \<Rightarrow>
         if ka_present a \<and> (g \<noteq> ka_generation a \<or>
              \<not> sar_ct_equal (ks_head k ks_zero_mac rs) (ka_head_mac a) SEMANTICS_AR_MAC_SIZE)
         then Some (SAR_KS_ROLLBACK, None)
         else Some (SAR_KS_OK, Some (word_of_nat (length rs))))"
proof -
  have n: "unat (word_of_nat (length rs) :: u64) = length rs"
    using assms(2) by (intro unat_u64_of_nat) simp
  have "ks_verify_loop k (ks_image k g rs) ks_header_size (length rs) (replicate SEMANTICS_AR_MAC_SIZE 0) =
      Some (Some (ks_head k ks_zero_mac rs))"
    using ks_chain.loop_body [OF assms(1), of ks_zero_mac k "kh_encode
        \<lparr>kh_magic = SEMANTICS_AR_KEYSTORE_MAGIC, kh_record_count = word_of_nat (length rs),
         kh_generation = g, kh_head_mac = ks_head k ks_zero_mac rs\<rparr>" "[]"]
    by (simp add: ks_image_def ks_sizes sar_sizes ks_zero_mac_def [symmetric] ks_chain_defs [symmetric])
  then show ?thesis
    using length_ks_image [OF assms(1), of k g] unat_serialized_size [OF assms(2)] n
    by (simp add: sar_keystore_verify_def kh_decode_image ks_sizes Let_def split: option.split)
qed

lemma sar_keystore_verify_OK:
  assumes "sar_keystore_verify buf k anchor = Some (SAR_KS_OK, Some n)" "52 + unat n * 770 < 2 ^ 64"
  obtains rs where "length rs = unat n" "list_all wf_ks_record rs"
    "buf = ks_image k (kh_generation (kh_decode buf)) rs"
proof -
  define h where "h = kh_decode buf"
  define need where "need = sar_keystore_serialized_size (kh_record_count h)"
  have len: "52 \<le> length buf" and magic: "kh_magic h = SEMANTICS_AR_KEYSTORE_MAGIC"
    and need: "length buf = unat need"
    using assms(1) by (auto simp: sar_keystore_verify_def Let_def ks_sizes h_def need_def split: if_splits)
  then obtain prev where
    loop: "ks_verify_loop k buf ks_header_size (unat (kh_record_count h)) (replicate SEMANTICS_AR_MAC_SIZE 0) =
      Some (Some prev)" and head: "sar_ct_equal prev (kh_head_mac h) 32" and n: "n = kh_record_count h"
    using assms(1)
    by (auto simp: sar_keystore_verify_def Let_def ks_sizes sar_sizes h_def [symmetric] need_def [symmetric]
        split: option.splits if_splits)
  have "length buf = 52 + unat n * 770"
    using need unat_serialized_size [OF assms(2)] by (simp add: need_def n)
  then obtain rs where rs: "length rs = unat n" "list_all wf_ks_record rs"
    "slice buf 52 (unat n * 770) = ks_body k ks_zero_mac rs" "prev = ks_head k ks_zero_mac rs"
    using ks_chain.loop_Some [OF loop] by (auto simp: ks_sizes sar_sizes ks_zero_mac_def n ks_chain_defs)
  have "kh_head_mac h = ks_head k ks_zero_mac rs"
    using head rs(4) len by (simp add: sar_ct_equal_iff h_def kh_decode_def)
  then have "h = \<lparr>kh_magic = SEMANTICS_AR_KEYSTORE_MAGIC, kh_record_count = word_of_nat (length rs),
      kh_generation = kh_generation h, kh_head_mac = ks_head k ks_zero_mac rs\<rparr>"
    using magic rs(1) n by (cases h) simp
  moreover have "buf = kh_encode h @ ks_body k ks_zero_mac rs"
    using len rs(3) \<open>length buf = 52 + unat n * 770\<close>
    by (simp add: h_def kh_encode_decode slice_def flip: rs(3))
  ultimately have "buf = ks_image k (kh_generation h) rs"
    by (simp add: ks_image_def)
  then show thesis using that rs(1,2) by (simp add: h_def)
qed

section \<open>The in-memory ledger\<close>

definition ks_nodup :: "keystore_record list \<Rightarrow> bool" where
  "ks_nodup rs = sorted_wrt (\<lambda>a b. \<not> ks_same_key a b) rs"

definition ks_ledger :: "nat \<Rightarrow> keystore_record list \<Rightarrow> bool" where
  "ks_ledger capacity rs \<longleftrightarrow> length rs \<le> capacity \<and> ks_nodup rs \<and> list_all wf_ks_record rs"

lemma ks_same_key_iff:
  assumes "wf_ks_record a" "wf_ks_record b"
  shows "ks_same_key a b \<longleftrightarrow>
    kr_key_id a = kr_key_id b \<and> kr_provenance_offset a = kr_provenance_offset b \<and>
    kr_provenance_path a = kr_provenance_path b"
  using assms
  by (auto simp: ks_same_key_def sar_memcmp_eq_0 wf_ks_record_def sar_sizes path_bytes_inject)

lemma sar_keystore_append_ledger:
  "ks_ledger capacity rs \<Longrightarrow> wf_ks_record r \<Longrightarrow> ks_ledger capacity (snd (sar_keystore_append rs capacity r))"
  by (auto simp: sar_keystore_append_def ks_ledger_def ks_nodup_def sorted_wrt_append list_ex_iff)

text \<open>
  Building a record from a verdict gives a well-formed one, with the key material of the verdict.
\<close>

lemma length_copy_path [simp, sar_len]: "length (copy_path n p) = n"
  by (induction n arbitrary: p) (auto split: list.splits)

lemma sar_sample_tag_digest: "sar_sample_tag d n = sha256_digest (take n d)"
  by (simp add: sar_sample_tag_def sha_stream_digest sha_final_init)

lemma length_sar_sample_tag [simp, sar_len]: "length (sar_sample_tag d n) = 32"
  by (simp add: sar_sample_tag_digest)

lemma wf_sar_keystore_record_init:
  assumes "length (v_key verdict) = 64" "length (v_iv verdict) = 24"
  shows "wf_ks_record (sar_keystore_record_init mac_key verdict path off plen sample slen soff t actor)"
proof -
  have "unat (word_of_nat SEMANTICS_AR_IV_MAX :: u8) = 24" by (simp add: sar_sizes)
  then show ?thesis
    using assms
    by (auto simp: sar_keystore_record_init_def wf_ks_record_def Let_def sar_memcpy_def
        sar_keystore_key_id_def sar_sizes split: option.split)
qed

definition ks_example_record :: keystore_record where
  "ks_example_record =
     \<lparr>kr_key_id = replicate 32 1, kr_algorithm = SAR_ALG_AES_128, kr_mode = SAR_MODE_CBC, kr_key_length = 16,
      kr_key_bytes = replicate 64 2, kr_iv = replicate 24 3, kr_iv_length = 16, kr_ctr_layout_tag = 0,
      kr_mode_params = 0, kr_provenance_offset = 4096, kr_provenance_length = 64,
      kr_provenance_path = replicate 260 0, kr_sample_offset = 0, kr_sample_length = 32,
      kr_sample_tag = replicate 32 4, kr_capture_time = 5, kr_actor_start_key = 6\<rparr>"

lemma wf_ks_example_record [simp]: "wf_ks_record ks_example_record"
  by (simp add: wf_ks_record_def ks_example_record_def)

section \<open>Properties\<close>

text \<open>
  A serialised keystore verifies. Serialising well-formed records into a buffer of the required
  size succeeds, fills exactly that size, and the result verifies under the same MAC key, both without
  an anchor and against the anchor of that generation and chain head.
\<close>

theorem keystore_serialize_verify:
  assumes "list_all wf_ks_record rs" "52 + length rs * 770 < 2 ^ 64"
    and "sar_keystore_serialized_size (word_of_nat (length rs)) \<le> cap"
  shows "\<exists>buf. sar_keystore_serialize k rs (word_of_nat (length rs)) g cap =
        (SAR_KS_OK, word_of_nat (length buf), buf) \<and>
      length buf = 52 + 770 * length rs \<and>
      sar_keystore_verify buf k None = Some (SAR_KS_OK, Some (word_of_nat (length rs))) \<and>
      sar_keystore_verify buf k (Some \<lparr>ka_present = True, ka_generation = g,
          ka_head_mac = kh_head_mac (kh_decode buf)\<rparr>) =
        Some (SAR_KS_OK, Some (word_of_nat (length rs)))"
proof (intro exI conjI)
  show "sar_keystore_serialize k rs (word_of_nat (length rs)) g cap =
      (SAR_KS_OK, word_of_nat (length (ks_image k g rs)), ks_image k g rs)"
    using assms length_ks_image [OF assms(1), of k g]
    by (simp add: sar_keystore_serialize_image sar_keystore_serialized_size_def ks_sizes)
qed (use assms in \<open>simp_all add: length_ks_image sar_keystore_verify_image kh_decode_image\<close>)

theorem keystore_serialize_verify_witness:
  "\<exists>buf. sar_keystore_serialize [] [ks_example_record] (word_of_nat (length [ks_example_record])) 7 4096 =
        (SAR_KS_OK, word_of_nat (length buf), buf) \<and>
      length buf = 52 + 770 * length [ks_example_record] \<and>
      sar_keystore_verify buf [] None = Some (SAR_KS_OK, Some (word_of_nat (length [ks_example_record]))) \<and>
      sar_keystore_verify buf [] (Some \<lparr>ka_present = True, ka_generation = 7,
          ka_head_mac = kh_head_mac (kh_decode buf)\<rparr>) =
        Some (SAR_KS_OK, Some (word_of_nat (length [ks_example_record])))"
  by (rule keystore_serialize_verify) (simp_all add: sar_keystore_serialized_size_def ks_sizes)

text \<open>
  C23: the verifier accepts nothing else. Whatever buffer it accepts, if its record count does not wrap
  the size computation, is byte for byte the serialisation, under that MAC key, of the records it
  holds and the generation in its header.
\<close>

theorem keystore_verify_only_serialized:
  assumes "sar_keystore_verify buf k anchor = Some (SAR_KS_OK, Some n)" "52 + unat n * 770 < 2 ^ 64"
  shows "\<exists>rs. length rs = unat n \<and> list_all wf_ks_record rs \<and>
    sar_keystore_serialize k rs n (kh_generation (kh_decode buf)) (word_of_nat (length buf)) =
      (SAR_KS_OK, word_of_nat (length buf), buf)"
proof -
  obtain rs where rs: "length rs = unat n" "list_all wf_ks_record rs"
    "buf = ks_image k (kh_generation (kh_decode buf)) rs"
    using sar_keystore_verify_OK [OF assms] .
  have n: "n = word_of_nat (length rs)" using rs(1) by simp
  have "length buf = 52 + length rs * 770"
    using rs(3) length_ks_image [OF rs(2)] by metis
  then have size: "word_of_nat (length buf) = sar_keystore_serialized_size n"
    using rs(1) by (simp add: sar_keystore_serialized_size_def ks_sizes)
  have "length rs < 2 ^ 64" using rs(1) assms(2) by simp
  then have "sar_keystore_serialize k rs n (kh_generation (kh_decode buf)) (word_of_nat (length buf)) =
      (SAR_KS_OK, word_of_nat (length buf), buf)"
    unfolding n using rs(3) size n by (simp add: sar_keystore_serialize_image)
  with rs show ?thesis by blast
qed

theorem keystore_verify_only_serialized_witness:
  "\<exists>rs. length rs = unat (1 :: u64) \<and> list_all wf_ks_record rs \<and>
    sar_keystore_serialize [9] rs 1 (kh_generation (kh_decode (ks_image [9] 3 [ks_example_record])))
      (word_of_nat (length (ks_image [9] 3 [ks_example_record]))) =
      (SAR_KS_OK, word_of_nat (length (ks_image [9] 3 [ks_example_record])), ks_image [9] 3 [ks_example_record])"
  by (rule keystore_verify_only_serialized [where anchor = None]) (simp_all add: sar_keystore_verify_image)

text \<open>
  As long as the header's record count does not wrap the size computation, the verifier reads
  inside the buffer, for every buffer.
\<close>

theorem keystore_verify_in_bounds:
  assumes "52 + unat (kh_record_count (kh_decode buf)) * 770 < 2 ^ 64"
  shows "sar_keystore_verify buf k anchor \<noteq> None"
proof -
  have "ks_verify_loop k buf ks_header_size (unat (kh_record_count (kh_decode buf)))
      (replicate SEMANTICS_AR_MAC_SIZE 0) \<noteq> None"
    if "length buf = unat (sar_keystore_serialized_size (kh_record_count (kh_decode buf)))"
    using that assms unat_serialized_size [of "unat (kh_record_count (kh_decode buf))"]
    by (intro ks_chain.loop_in_bounds) (simp add: ks_sizes)
  then show ?thesis
    by (auto simp: sar_keystore_verify_def Let_def split: option.splits)
qed

theorem keystore_verify_in_bounds_witness:
  "sar_keystore_verify (ks_image [9] 3 [ks_example_record]) [8] None \<noteq> None"
  by (rule keystore_verify_in_bounds) (simp add: kh_decode_image)

text \<open>
  C38: without that restriction it does not. A 52-byte buffer that holds only a header with the record
  count \<^term>\<open>2 ^ 63\<close> passes the size test, because the count times the record size wraps to zero, and
  the verifier reads its first record behind the end of the buffer.
\<close>

theorem keystore_verify_reads_outside:
  "\<exists>buf. length buf = ks_header_size \<and> kh_record_count (kh_decode buf) = 2 ^ 63 \<and>
     sar_keystore_verify buf k anchor = None"
proof -
  define c :: u64 where "c = 2 ^ 63"
  have c: "0 < unat c" "unat (sar_keystore_serialized_size c) = 52"
    by (simp_all add: c_def sar_keystore_serialized_size_def ks_sizes)
  define h where "h = \<lparr>kh_magic = SEMANTICS_AR_KEYSTORE_MAGIC, kh_record_count = c,
    kh_generation = 0, kh_head_mac = ks_zero_mac\<rparr>"
  have h: "length (kh_encode h) = ks_header_size" "kh_decode (kh_encode h) = h"
    "kh_magic h = SEMANTICS_AR_KEYSTORE_MAGIC" "kh_record_count h = c"
    using kh_decode_encode [of h "[]"] by (simp_all add: h_def ks_sizes)
  then have "ks_verify_loop k (kh_encode h) ks_header_size (unat c) prev = None" for prev
    using c(1) by (intro ks_chain.loop_outside) (simp_all add: ks_sizes)
  then have "sar_keystore_verify (kh_encode h) k anchor = None"
    using h c(2) by (simp add: sar_keystore_verify_def ks_sizes)
  then show ?thesis
    using h by (intro exI [of _ "kh_encode h"]) (simp add: c_def)
qed

text \<open>
  C36: the ledger is append-only and holds each captured key once per place it was captured at; a key
  with several offsets or paths has a record for each. Appending returns 0 and changes
  nothing exactly when a record with the same key identifier, offset and path is held already; else it
  returns -2 and changes nothing when the ledger is full; else it returns 1 and the record is added at
  the end. The capacity bound, the absence of duplicates and well-formedness are kept.
\<close>

theorem keystore_append_ledger:
  assumes "ks_ledger capacity rs" "wf_ks_record r"
  shows "ks_ledger capacity (snd (sar_keystore_append rs capacity r)) \<and>
    sar_keystore_append rs capacity r =
      (if \<exists>a\<in>set rs. kr_key_id a = kr_key_id r \<and> kr_provenance_offset a = kr_provenance_offset r \<and>
             kr_provenance_path a = kr_provenance_path r then (0, rs)
       else if length rs = capacity then (- 2, rs)
       else (1, rs @ [r]))"
proof
  have wf: "\<forall>a\<in>set rs. ks_same_key a r \<longleftrightarrow> kr_key_id a = kr_key_id r \<and>
      kr_provenance_offset a = kr_provenance_offset r \<and> kr_provenance_path a = kr_provenance_path r"
    using assms by (auto simp: ks_ledger_def list_all_iff ks_same_key_iff)
  show "sar_keystore_append rs capacity r =
      (if \<exists>a\<in>set rs. kr_key_id a = kr_key_id r \<and> kr_provenance_offset a = kr_provenance_offset r \<and>
             kr_provenance_path a = kr_provenance_path r then (0, rs)
       else if length rs = capacity then (- 2, rs) else (1, rs @ [r]))"
    using wf assms(1) by (auto simp: sar_keystore_append_def list_ex_iff ks_ledger_def)
qed (use assms in \<open>rule sar_keystore_append_ledger\<close>)

theorem keystore_append_ledger_witness:
  "ks_ledger 4 (snd (sar_keystore_append [] 4 ks_example_record)) \<and>
    sar_keystore_append [] 4 ks_example_record = (1, [ks_example_record])"
  using keystore_append_ledger [of 4 "[]" ks_example_record] by (simp add: ks_ledger_def ks_nodup_def)

end
