(* ===== verification/Keystore_Mgr.thy ===== *)
theory Keystore_Mgr
  imports Keystore
begin

text \<open>
  The keystore manager of \<^verbatim>\<open>engine/src/keystore_mgr.c\<close>: loading a serialised store against the anchor
  that was persisted beside it, and persisting the ledger under the next generation. The MAC-key
  pointer may be null, which both operations test; the output pointers are results of the model.
  The outer \<^term>\<open>None\<close> of a load is a read outside the buffer.
\<close>

section \<open>Definitions\<close>

datatype ksm_status =
    SAR_KSM_OK | SAR_KSM_EMPTY | SAR_KSM_INVALID_ARG | SAR_KSM_CORRUPT | SAR_KSM_ROLLBACK
  | SAR_KSM_OVERFLOW | SAR_KSM_BUFFER_TOO_SMALL

record ksm_load_result =
  kl_status :: ksm_status
  kl_records :: "keystore_record list"
  kl_anchor :: keystore_anchor
  kl_generation :: u64
  kl_advanced :: bool

definition ksm_map_verify :: "ks_status \<Rightarrow> ksm_status" where
  "ksm_map_verify rc = (case rc of SAR_KS_OK \<Rightarrow> SAR_KSM_OK | _ \<Rightarrow> SAR_KSM_CORRUPT)"

definition ksm_reset :: ksm_load_result where
  "ksm_reset = \<lparr>kl_status = SAR_KSM_INVALID_ARG, kl_records = [],
     kl_anchor = \<lparr>ka_present = False, ka_generation = 0, ka_head_mac = replicate 32 0\<rparr>,
     kl_generation = 0, kl_advanced = False\<rparr>"

definition ksm_fail :: "ksm_status \<Rightarrow> ksm_load_result" where
  "ksm_fail s = ksm_reset\<lparr>kl_status := s\<rparr>"

definition ksm_read_records :: "bytes \<Rightarrow> nat \<Rightarrow> keystore_record list" where
  "ksm_read_records buf count =
     map (\<lambda>i. ks_decode (slice buf (ks_header_size + i * ks_disk_size) ks_record_size)) [0..<count]"

definition sar_ksm_load ::
  "bytes \<Rightarrow> bytes option \<Rightarrow> keystore_anchor option \<Rightarrow> u64 \<Rightarrow> ksm_load_result option" where
  "sar_ksm_load buf mac_key anchor records_capacity =
     (case mac_key of None \<Rightarrow> Some ksm_reset
      | Some key \<Rightarrow>
        if buf = [] then
          (case anchor of
             Some a \<Rightarrow> if ka_present a \<and> ka_generation a > 0 then Some (ksm_fail SAR_KSM_ROLLBACK)
                       else Some (ksm_fail SAR_KSM_EMPTY)
           | None \<Rightarrow> Some (ksm_fail SAR_KSM_EMPTY))
        else
          case sar_keystore_verify buf key None of
            None \<Rightarrow> None
          | Some (rc, cnt) \<Rightarrow>
              if ksm_map_verify rc \<noteq> SAR_KSM_OK then Some (ksm_fail (ksm_map_verify rc))
              else
                let count = (case cnt of Some c \<Rightarrow> c | None \<Rightarrow> 0)
                in if count > records_capacity then Some (ksm_fail SAR_KSM_OVERFLOW)
                   else
                     let hdr = kh_decode buf;
                         accept = (\<lambda>advanced. Some
                           \<lparr>kl_status = SAR_KSM_OK, kl_records = ksm_read_records buf (unat count),
                            kl_anchor = \<lparr>ka_present = True, ka_generation = kh_generation hdr,
                                         ka_head_mac = kh_head_mac hdr\<rparr>,
                            kl_generation = kh_generation hdr, kl_advanced = advanced\<rparr>)
                     in case anchor of
                          None \<Rightarrow> accept True
                        | Some a \<Rightarrow>
                            if \<not> ka_present a then accept True
                            else if kh_generation hdr < ka_generation a
                            then Some (ksm_fail SAR_KSM_ROLLBACK)
                            else if kh_generation hdr = ka_generation a then
                              (if \<not> sar_ct_equal (kh_head_mac hdr) (ka_head_mac a) SEMANTICS_AR_MAC_SIZE
                               then Some (ksm_fail SAR_KSM_ROLLBACK) else accept False)
                            else accept True)"

definition sar_ksm_persist ::
  "bytes option \<Rightarrow> keystore_record list \<Rightarrow> u64 \<Rightarrow> u64 \<Rightarrow> u64
     \<Rightarrow> ksm_status \<times> (bytes \<times> keystore_anchor) option" where
  "sar_ksm_persist mac_key records count prev_generation out_cap =
     (case mac_key of None \<Rightarrow> (SAR_KSM_INVALID_ARG, None)
      | Some key \<Rightarrow>
          let new_gen = prev_generation + 1;
              (rc, need, out) = sar_keystore_serialize key records count new_gen out_cap
          in if rc = SAR_KS_BUFFER_TOO_SMALL then (SAR_KSM_BUFFER_TOO_SMALL, None)
             else if rc \<noteq> SAR_KS_OK then (SAR_KSM_CORRUPT, None)
             else (SAR_KSM_OK, Some (out, \<lparr>ka_present = True, ka_generation = new_gen,
                                           ka_head_mac = kh_head_mac (kh_decode out)\<rparr>)))"

section \<open>Loading what was persisted\<close>

lemma ksm_read_image:
  assumes "list_all wf_ks_record rs"
  shows "ksm_read_records (ks_image k g rs) (length rs) = rs"
proof (rule nth_equalityI)
  fix i assume "i < length (ksm_read_records (ks_image k g rs) (length rs))"
  then have i: "i < length rs" by (simp add: ksm_read_records_def)
  have "slice (ks_image k g rs) (52 + i * 770) 738 = slice (ks_body k ks_zero_mac rs) (i * 770) 738"
    by (simp add: ks_image_def slice_def)
  then show "ksm_read_records (ks_image k g rs) (length rs) ! i = rs ! i"
    using i assms by (simp add: ksm_read_records_def ks_sizes ks_body_def
          ks_chain.body_slice [of _ _ k, simplified] ks_decode_encode list_all_length)
qed (simp add: ksm_read_records_def)

lemma sar_ksm_load_image:
  assumes "list_all wf_ks_record rs" "52 + length rs * 770 < 2 ^ 64"
    and "word_of_nat (length rs) \<le> cap"
  shows "sar_ksm_load (ks_image k g rs) (Some k) anchor cap =
    (let ok = (\<lambda>adv. Some \<lparr>kl_status = SAR_KSM_OK, kl_records = rs,
        kl_anchor = \<lparr>ka_present = True, ka_generation = g, ka_head_mac = ks_head k ks_zero_mac rs\<rparr>,
        kl_generation = g, kl_advanced = adv\<rparr>)
     in case anchor of None \<Rightarrow> ok True
        | Some a \<Rightarrow>
            if \<not> ka_present a then ok True
            else if g < ka_generation a then Some (ksm_fail SAR_KSM_ROLLBACK)
            else if g = ka_generation a then
              (if sar_ct_equal (ks_head k ks_zero_mac rs) (ka_head_mac a) SEMANTICS_AR_MAC_SIZE
               then ok False else Some (ksm_fail SAR_KSM_ROLLBACK))
            else ok True)"
proof -
  have n: "unat (word_of_nat (length rs) :: u64) = length rs"
    using assms(2) by (intro unat_u64_of_nat) simp
  have "ks_image k g rs \<noteq> []"
    using length_ks_image [OF assms(1), of k g] by auto
  then show ?thesis
    using assms n
    by (simp add: sar_ksm_load_def sar_keystore_verify_image ksm_map_verify_def kh_decode_image
        ksm_read_image Let_def not_less split: option.split)
qed

lemma sar_ksm_persist_image:
  assumes "length rs < 2 ^ 64" "sar_keystore_serialized_size (word_of_nat (length rs)) \<le> cap"
  shows "sar_ksm_persist (Some k) rs (word_of_nat (length rs)) g cap =
    (SAR_KSM_OK, Some (ks_image k (g + 1) rs, \<lparr>ka_present = True, ka_generation = g + 1,
       ka_head_mac = ks_head k ks_zero_mac rs\<rparr>))"
  using assms by (simp add: sar_ksm_persist_def sar_keystore_serialize_image kh_decode_image Let_def)

section \<open>Properties\<close>

text \<open>
  C26: what is persisted is loaded back. Persisting a ledger of well-formed records under generation
  \<^term>\<open>g\<close> gives a store and an anchor; loading that store against that anchor succeeds and returns the
  same records, the generation \<^term>\<open>g + 1\<close> and the same anchor, not advanced.
\<close>

theorem ksm_persist_load:
  assumes "list_all wf_ks_record rs" "52 + length rs * 770 < 2 ^ 64"
    and "sar_keystore_serialized_size (word_of_nat (length rs)) \<le> out_cap"
    and "word_of_nat (length rs) \<le> records_cap"
  shows "\<exists>buf a. sar_ksm_persist (Some k) rs (word_of_nat (length rs)) g out_cap = (SAR_KSM_OK, Some (buf, a)) \<and>
    sar_ksm_load buf (Some k) (Some a) records_cap =
      Some \<lparr>kl_status = SAR_KSM_OK, kl_records = rs, kl_anchor = a, kl_generation = g + 1, kl_advanced = False\<rparr>"
  using assms by (simp add: sar_ksm_persist_image sar_ksm_load_image Let_def)

theorem ksm_persist_load_witness:
  "\<exists>buf a. sar_ksm_persist (Some [5]) [ks_example_record] (word_of_nat (length [ks_example_record])) 41 4096 =
      (SAR_KSM_OK, Some (buf, a)) \<and>
    sar_ksm_load buf (Some [5]) (Some a) 16384 =
      Some \<lparr>kl_status = SAR_KSM_OK, kl_records = [ks_example_record], kl_anchor = a, kl_generation = 41 + 1,
        kl_advanced = False\<rparr>"
  by (rule ksm_persist_load) (simp_all add: sar_keystore_serialized_size_def ks_sizes)

text \<open>
  C25: a rolled-back store is refused. Against a present anchor, a store of an older generation, a store
  of the same generation with another chain head, and an erased store (when a generation was
  committed) are all reported as a rollback and no record of them is returned.
\<close>

theorem ksm_load_refuses_rollback:
  assumes "list_all wf_ks_record rs" "52 + length rs * 770 < 2 ^ 64"
    and "word_of_nat (length rs) \<le> cap" "ka_present a"
    and "buf = ks_image k g rs \<and> (g < ka_generation a \<or>
           g = ka_generation a \<and> take 32 (ka_head_mac a) \<noteq> ks_head k ks_zero_mac rs \<and>
           length (ka_head_mac a) = 32) \<or>
         buf = [] \<and> 0 < ka_generation a"
  shows "\<exists>r. sar_ksm_load buf (Some k) (Some a) cap = Some r \<and> kl_status r = SAR_KSM_ROLLBACK \<and>
    kl_records r = []"
proof (cases "buf = []")
  case True
  have "ks_image k g rs \<noteq> []" using length_ks_image [OF assms(1), of k g] by auto
  then show ?thesis
    using True assms(4,5) by (auto simp: sar_ksm_load_def ksm_fail_def ksm_reset_def)
next
  case False
  then have "\<not> sar_ct_equal (ks_head k ks_zero_mac rs) (ka_head_mac a) SEMANTICS_AR_MAC_SIZE"
    if "\<not> g < ka_generation a"
    using that assms(5) by (auto simp: sar_ct_equal_iff sar_sizes)
  then show ?thesis
    using False assms by (auto simp: sar_ksm_load_image ksm_fail_def ksm_reset_def Let_def)
qed

theorem ksm_load_refuses_rollback_witness:
  "\<exists>r. sar_ksm_load (ks_image [5] 3 [ks_example_record]) (Some [5])
      (Some \<lparr>ka_present = True, ka_generation = 4, ka_head_mac = ks_zero_mac\<rparr>) 16 = Some r \<and>
    kl_status r = SAR_KSM_ROLLBACK \<and> kl_records r = []"
  by (rule ksm_load_refuses_rollback [where rs = "[ks_example_record]" and g = 3]) simp_all

text \<open>
  C39: an emptied keystore is accepted. The header of the store is not covered by a MAC, so a 52-byte
  store with no records, an all-zero chain head and any generation above the anchor's loads as valid
  under every MAC key, with no record and the anchor advanced to the forged generation.
\<close>

theorem ksm_load_accepts_forged_empty:
  assumes "ka_generation a < g"
  shows "\<exists>buf. length buf = ks_header_size \<and>
    (\<forall>k cap. sar_ksm_load buf (Some k) (Some a) cap =
      Some \<lparr>kl_status = SAR_KSM_OK, kl_records = [],
        kl_anchor = \<lparr>ka_present = True, ka_generation = g, ka_head_mac = replicate 32 0\<rparr>,
        kl_generation = g, kl_advanced = True\<rparr>)"
proof -
  have e: "ks_image [] g [] = ks_image k g []" for k by (simp add: ks_image_def)
  have "\<not> g < ka_generation a" "g \<noteq> ka_generation a" using assms by auto
  then have "sar_ksm_load (ks_image [] g []) (Some k) (Some a) cap =
      Some \<lparr>kl_status = SAR_KSM_OK, kl_records = [],
        kl_anchor = \<lparr>ka_present = True, ka_generation = g, ka_head_mac = replicate 32 0\<rparr>,
        kl_generation = g, kl_advanced = True\<rparr>" for k cap
    unfolding e [of k] by (simp add: sar_ksm_load_image Let_def ks_zero_mac_def)
  then show ?thesis
    by (intro exI [of _ "ks_image [] g []"]) (simp add: length_ks_image ks_sizes)
qed

theorem ksm_load_accepts_forged_empty_witness:
  "\<exists>buf. length buf = ks_header_size \<and>
    (\<forall>k cap. sar_ksm_load buf (Some k) (Some \<lparr>ka_present = True, ka_generation = 9, ka_head_mac = replicate 32 1\<rparr>) cap =
      Some \<lparr>kl_status = SAR_KSM_OK, kl_records = [],
        kl_anchor = \<lparr>ka_present = True, ka_generation = 10, ka_head_mac = replicate 32 0\<rparr>,
        kl_generation = 10, kl_advanced = True\<rparr>)"
  by (rule ksm_load_accepts_forged_empty) simp

end
