(* ===== verification/Preserve.thy ===== *)
theory Preserve
  imports Keystore "HOL-Library.Multiset" "HOL-Library.Sublist"
begin

text \<open>
  The preserve index of \<^verbatim>\<open>engine/src/preserve.c\<close>: the ledger of byte ranges whose original contents were
  saved before a write reached them. This theory holds the records, the coverage tests on 64-bit
  ranges, the append, promotion, reconciliation and eviction, and the check made before a saved
  region is restored. The serialised form is in the theory \<open>Preserve_Store\<close>.

  Offsets and lengths are 64-bit words with the wrap-around of the code. The ledger is the used prefix
  of the C array, so its length is the C count; the loops that compact the array in place are
  translated with their read and write indices.
\<close>

section \<open>Definitions\<close>

record sar_preserve_record =
  pr_provenance_path :: "u16 list"
  pr_provenance_offset :: u64
  pr_provenance_length :: u64
  pr_capture_time :: u64
  pr_payload_offset :: u64
  pr_payload_length :: u64
  pr_actor_id :: u64
  pr_state :: u32
  pr_kind :: u8
  pr_iv :: bytes
  pr_iv_length :: u8
  pr_content_tag :: bytes
  pr_causing_image_path :: "u16 list"

datatype pres_status =
    SAR_PRES_OK | SAR_PRES_INVALID_ARG | SAR_PRES_FULL | SAR_PRES_BUFFER_TOO_SMALL | SAR_PRES_BAD_MAGIC
  | SAR_PRES_TRUNCATED | SAR_PRES_RECORD_MAC | SAR_PRES_COUNT_MISMATCH | SAR_PRES_ROLLBACK
  | SAR_PRES_RESTORE_MISMATCH

definition SAR_PRESERVE_PROBATION :: u32 where "SAR_PRESERVE_PROBATION = 0"
definition SAR_PRESERVE_PROTECTED :: u32 where "SAR_PRESERVE_PROTECTED = 1"
definition SAR_PRESERVE_KIND_BYTERANGE :: u8 where "SAR_PRESERVE_KIND_BYTERANGE = 0"
definition SAR_PRESERVE_KIND_NAMESPACE :: u8 where "SAR_PRESERVE_KIND_NAMESPACE = 1"

definition sar_pres_path_eq :: "u16 list \<Rightarrow> u16 list \<Rightarrow> bool" where
  "sar_pres_path_eq a b \<longleftrightarrow>
     sar_memcmp (path_bytes a) (path_bytes b) (SEMANTICS_AR_PROVENANCE_PATH_MAX * 2) = 0"

definition sar_pres_overlap :: "u64 \<Rightarrow> u64 \<Rightarrow> u64 \<Rightarrow> u64 \<Rightarrow> bool" where
  "sar_pres_overlap a_off a_len b_off b_len \<longleftrightarrow> a_off < b_off + b_len \<and> b_off < a_off + a_len"

definition sar_pres_contains :: "u64 \<Rightarrow> u64 \<Rightarrow> u64 \<Rightarrow> u64 \<Rightarrow> bool" where
  "sar_pres_contains outer_off outer_len inner_off inner_len \<longleftrightarrow>
     outer_off \<le> inner_off \<and> inner_off + inner_len \<le> outer_off + outer_len"

definition sar_preserve_content_tag :: "bytes option \<Rightarrow> u64 \<Rightarrow> bytes" where
  "sar_preserve_content_tag plaintext len =
     (case plaintext of
        Some p \<Rightarrow> if len \<noteq> 0 then sar_sha256_final (sar_sha256_update sar_sha256_init (take (unat len) p))
                 else sar_sha256_final sar_sha256_init
      | None \<Rightarrow> sar_sha256_final sar_sha256_init)"

definition sar_preserve_record_init ::
  "u16 list option \<Rightarrow> u64 \<Rightarrow> u64 \<Rightarrow> u64 \<Rightarrow> u64 \<Rightarrow> u64 \<Rightarrow> u64 \<Rightarrow> bytes option \<Rightarrow> u8 \<Rightarrow> bytes option \<Rightarrow> u64
     \<Rightarrow> sar_preserve_record" where
  "sar_preserve_record_init provenance_path provenance_offset provenance_length capture_time
     payload_offset payload_length actor_id iv iv_length plaintext plaintext_length =
     (let ivl = (if unat iv_length > SEMANTICS_AR_IV_MAX then word_of_nat SEMANTICS_AR_IV_MAX else iv_length)
      in \<lparr>pr_provenance_path =
            (case provenance_path of None \<Rightarrow> replicate 260 0
             | Some p \<Rightarrow> copy_path SEMANTICS_AR_PROVENANCE_PATH_MAX p),
          pr_provenance_offset = provenance_offset,
          pr_provenance_length = provenance_length,
          pr_capture_time = capture_time,
          pr_payload_offset = payload_offset,
          pr_payload_length = payload_length,
          pr_actor_id = actor_id,
          pr_state = SAR_PRESERVE_PROBATION,
          pr_kind = 0,
          pr_iv = (case iv of None \<Rightarrow> replicate 24 0 | Some v \<Rightarrow> sar_memcpy (replicate 24 0) v (unat ivl)),
          pr_iv_length = ivl,
          pr_content_tag = sar_preserve_content_tag plaintext plaintext_length,
          pr_causing_image_path = replicate 260 0\<rparr>)"

definition sar_preserve_covered :: "sar_preserve_record list \<Rightarrow> u16 list \<Rightarrow> u64 \<Rightarrow> u64 \<Rightarrow> bool" where
  "sar_preserve_covered records path offset len =
     list_ex (\<lambda>r. sar_pres_path_eq (pr_provenance_path r) path \<and>
       sar_pres_overlap (pr_provenance_offset r) (pr_provenance_length r) offset len) records"

text \<open>
  One turn of the search for the first gap: the scan that extends the covered prefix past the cursor,
  and the scan that ends the gap at the next record.
\<close>

definition pres_cover_step :: "u16 list \<Rightarrow> u64 \<Rightarrow> sar_preserve_record \<Rightarrow> bool \<times> u64 \<Rightarrow> bool \<times> u64" where
  "pres_cover_step path cursor r = (\<lambda>(covered, cover_end).
     if \<not> sar_pres_path_eq (pr_provenance_path r) path then (covered, cover_end)
     else
       let ro = pr_provenance_offset r; re = ro + pr_provenance_length r
       in if ro \<le> cursor \<and> cursor < re then (True, if re > cover_end then re else cover_end)
          else (covered, cover_end))"

definition pres_cover_scan :: "sar_preserve_record list \<Rightarrow> u16 list \<Rightarrow> u64 \<Rightarrow> bool \<times> u64" where
  "pres_cover_scan records path cursor = fold (pres_cover_step path cursor) records (False, cursor)"

definition pres_gap_scan :: "sar_preserve_record list \<Rightarrow> u16 list \<Rightarrow> u64 \<Rightarrow> u64 \<Rightarrow> u64" where
  "pres_gap_scan records path cursor end_off =
     fold (\<lambda>r gap_end.
         if \<not> sar_pres_path_eq (pr_provenance_path r) path then gap_end
         else
           let ro = pr_provenance_offset r
           in if ro > cursor \<and> ro < gap_end then ro else gap_end)
       records end_off"

text \<open>
  The set of file offsets the records of a path hold, and what the two scans compute of it. The first
  scan moves the cursor strictly forward, which is why the search ends.
\<close>

definition pres_holds :: "u16 list \<Rightarrow> u64 \<Rightarrow> sar_preserve_record \<Rightarrow> bool" where
  "pres_holds path x r \<longleftrightarrow> sar_pres_path_eq (pr_provenance_path r) path \<and>
     pr_provenance_offset r \<le> x \<and> x < pr_provenance_offset r + pr_provenance_length r"

lemma pres_cover_fold:
  "fold (pres_cover_step path cursor) records (c, e) =
     (c \<or> list_ex (pres_holds path cursor) records,
      fold max (map (\<lambda>r. pr_provenance_offset r + pr_provenance_length r)
        (filter (pres_holds path cursor) records)) e)"
  by (induction records arbitrary: c e)
    (auto simp: pres_cover_step_def pres_holds_def Let_def max_def not_less)

lemma pres_cover_scan_eq:
  "pres_cover_scan records path cursor =
     (list_ex (pres_holds path cursor) records,
      Max (set (cursor # map (\<lambda>r. pr_provenance_offset r + pr_provenance_length r)
        (filter (pres_holds path cursor) records))))"
  unfolding pres_cover_scan_def pres_cover_fold Max.set_eq_fold [symmetric] by simp

lemma pres_cover_scan_gt:
  assumes "fst (pres_cover_scan records path cursor)"
  shows "cursor < snd (pres_cover_scan records path cursor)"
proof -
  obtain r where "r \<in> set records" "pres_holds path cursor r"
    using assms by (auto simp: pres_cover_scan_eq list_ex_iff)
  then have "cursor < pr_provenance_offset r + pr_provenance_length r"
    "pr_provenance_offset r + pr_provenance_length r \<le> snd (pres_cover_scan records path cursor)"
    unfolding pres_cover_scan_eq snd_conv by (auto simp: pres_holds_def intro!: Max_ge)
  then show ?thesis by simp
qed

function pres_gap_loop :: "sar_preserve_record list \<Rightarrow> u16 list \<Rightarrow> u64 \<Rightarrow> u64 \<Rightarrow> (u64 \<times> u64) option" where
  "pres_gap_loop records path end_off cursor =
     (if cursor < end_off then
        let (covered, cover_end) = pres_cover_scan records path cursor
        in if covered then pres_gap_loop records path end_off cover_end
           else Some (cursor, pres_gap_scan records path cursor end_off - cursor)
      else None)"
  by auto
termination
proof (relation "measure (\<lambda>(_, _, _, cursor). 2 ^ 64 - unat cursor)")
  fix records path end_off cursor scan covered cover_end
  assume "scan = pres_cover_scan records path cursor" "(covered, cover_end) = scan" covered
  then have "cursor < cover_end" using pres_cover_scan_gt [of records path cursor] by (metis fst_conv snd_conv)
  then have "unat cursor < unat cover_end" "unat cover_end < 2 ^ 64"
    using unsigned_less [of cover_end] by (simp_all add: word_less_nat_alt)
  then show "((records, path, end_off, cover_end), records, path, end_off, cursor)
      \<in> measure (\<lambda>(_, _, _, cursor). 2 ^ 64 - unat cursor)"
    by simp
qed simp

declare pres_gap_loop.simps [simp del]

definition sar_preserve_first_gap ::
  "sar_preserve_record list \<Rightarrow> u16 list \<Rightarrow> u64 \<Rightarrow> u64 \<Rightarrow> (u64 \<times> u64) option" where
  "sar_preserve_first_gap records path offset len = pres_gap_loop records path (offset + len) offset"

definition sar_preserve_append ::
  "sar_preserve_record list \<Rightarrow> nat \<Rightarrow> sar_preserve_record \<Rightarrow> int \<times> sar_preserve_record list" where
  "sar_preserve_append records capacity rec =
     (if sar_preserve_covered records (pr_provenance_path rec) (pr_provenance_offset rec) (pr_provenance_length rec)
      then (0, records)
      else if length records \<ge> capacity then (- 2, records)
      else (1, records @ [rec]))"

definition pres_promote_step :: "u64 \<Rightarrow> nat \<Rightarrow> sar_preserve_record list \<times> u64 \<Rightarrow> sar_preserve_record list \<times> u64" where
  "pres_promote_step actor_id i = (\<lambda>(rs, promoted).
     if pr_state (rs ! i) = SAR_PRESERVE_PROBATION \<and> pr_actor_id (rs ! i) = actor_id
     then (rs[i := (rs ! i)\<lparr>pr_state := SAR_PRESERVE_PROTECTED\<rparr>], promoted + 1)
     else (rs, promoted))"

definition sar_preserve_promote ::
  "sar_preserve_record list \<Rightarrow> u64 \<Rightarrow> sar_preserve_record list \<times> u64" where
  "sar_preserve_promote records actor_id =
     fold (pres_promote_step actor_id) [0..<length records] (records, 0)"

text \<open>
  The compaction loop of the reconciliation and of the eviction by age: a read index runs over the
  array, a write index follows it, and a record the predicate selects is dropped. The array keeps its
  length; the new count is the write index.
\<close>

definition pres_compact_step ::
  "('r \<Rightarrow> bool) \<Rightarrow> nat \<Rightarrow> 'r list \<times> nat \<times> u64 \<Rightarrow> 'r list \<times> nat \<times> u64" where
  "pres_compact_step dropped r = (\<lambda>(rs, w, removed).
     if dropped (rs ! r) then (rs, w, removed + 1)
     else ((if w \<noteq> r then rs[w := rs ! r] else rs), w + 1, removed))"

definition pres_compact :: "('r \<Rightarrow> bool) \<Rightarrow> 'r list \<Rightarrow> 'r list \<times> u64" where
  "pres_compact dropped records =
     (let (rs, w, removed) = fold (pres_compact_step dropped) [0..<length records] (records, 0, 0)
      in (take w rs, removed))"

definition sar_preserve_reconcile ::
  "sar_preserve_record list \<Rightarrow> u16 list \<Rightarrow> u64 \<Rightarrow> u64 \<Rightarrow> sar_preserve_record list \<times> u64" where
  "sar_preserve_reconcile records path key_offset key_length =
     pres_compact (\<lambda>r. sar_pres_path_eq (pr_provenance_path r) path \<and>
       sar_pres_contains key_offset key_length (pr_provenance_offset r) (pr_provenance_length r)) records"

definition sar_preserve_total_bytes :: "sar_preserve_record list \<Rightarrow> u64" where
  "sar_preserve_total_bytes records = fold (\<lambda>r total. total + pr_payload_length r) records 0"

definition sar_preserve_protected_bytes :: "sar_preserve_record list \<Rightarrow> u64" where
  "sar_preserve_protected_bytes records =
     fold (\<lambda>r total. if pr_state r = SAR_PRESERVE_PROTECTED then total + pr_payload_length r else total) records 0"

definition sar_preserve_probation_bytes :: "sar_preserve_record list \<Rightarrow> u64" where
  "sar_preserve_probation_bytes records =
     fold (\<lambda>r total. if pr_state r = SAR_PRESERVE_PROBATION then total + pr_payload_length r else total) records 0"

definition sar_preserve_evict_aged ::
  "sar_preserve_record list \<Rightarrow> u64 \<Rightarrow> u64 \<Rightarrow> sar_preserve_record list \<times> u64" where
  "sar_preserve_evict_aged records now retention =
     pres_compact (\<lambda>r. now > pr_capture_time r \<and> now - pr_capture_time r \<ge> retention) records"

definition pres_oldest :: "sar_preserve_record list \<Rightarrow> nat" where
  "pres_oldest records =
     fold (\<lambda>i oldest.
         if pr_state (records ! i) \<noteq> SAR_PRESERVE_PROBATION then oldest
         else if oldest = length records \<or> pr_capture_time (records ! i) < pr_capture_time (records ! oldest)
         then i else oldest)
       [0..<length records] (length records)"

definition pres_remove_at :: "'r list \<Rightarrow> nat \<Rightarrow> 'r list" where
  "pres_remove_at records oldest =
     take (length records - 1)
       (fold (\<lambda>i rs. rs[i - 1 := rs ! i]) [oldest + 1..<length records] records)"

lemma length_fold_update: "length (fold (\<lambda>i rs. rs[f i := rs ! g i]) is rs) = length rs"
  by (induction "is" arbitrary: rs) simp_all

lemma length_pres_remove_at: "length (pres_remove_at rs i) = length rs - 1"
  by (simp add: pres_remove_at_def length_fold_update)

function pres_evict_loop :: "u64 \<Rightarrow> sar_preserve_record list \<Rightarrow> u64 \<Rightarrow> sar_preserve_record list \<times> u64" where
  "pres_evict_loop cap_bytes records removed =
     (if sar_preserve_probation_bytes records \<le> cap_bytes then (records, removed)
      else
        let oldest = pres_oldest records
        in if oldest = length records then (records, removed)
           else pres_evict_loop cap_bytes (pres_remove_at records oldest) (removed + 1))"
  by auto
termination
proof (relation "measure (\<lambda>(_, records, _). length records)")
  fix cap_bytes :: u64 and records :: "sar_preserve_record list" and removed oldest
  assume "\<not> sar_preserve_probation_bytes records \<le> cap_bytes"
  then have "records \<noteq> []" by (auto simp: sar_preserve_probation_bytes_def)
  then show "((cap_bytes, pres_remove_at records oldest, removed + 1), cap_bytes, records, removed)
      \<in> measure (\<lambda>(_, records, _). length records)"
    by (simp add: length_pres_remove_at)
qed simp

declare pres_evict_loop.simps [simp del]

definition sar_preserve_evict_probation_oldest ::
  "sar_preserve_record list \<Rightarrow> u64 \<Rightarrow> sar_preserve_record list \<times> u64" where
  "sar_preserve_evict_probation_oldest records probation_cap_bytes =
     pres_evict_loop probation_cap_bytes records 0"

definition sar_preserve_would_exceed :: "sar_preserve_record list \<Rightarrow> u64 \<Rightarrow> u64 \<Rightarrow> bool" where
  "sar_preserve_would_exceed records capacity_bytes incoming_bytes \<longleftrightarrow>
     sar_preserve_total_bytes records + incoming_bytes > capacity_bytes"

definition sar_preserve_verify_extract ::
  "sar_preserve_record option \<Rightarrow> u16 list option \<Rightarrow> u64 \<Rightarrow> u64 \<Rightarrow> bytes option \<Rightarrow> u64
     \<Rightarrow> pres_status \<times> u64 option" where
  "sar_preserve_verify_extract rec_ptr target_path target_offset target_length decrypted_region region_length =
     (case (rec_ptr, target_path, decrypted_region) of
        (Some rec, Some path, Some region) \<Rightarrow>
          if target_length = 0 then (SAR_PRES_INVALID_ARG, None)
          else if \<not> sar_pres_path_eq (pr_provenance_path rec) path \<or> region_length \<noteq> pr_provenance_length rec \<or>
             \<not> sar_pres_contains (pr_provenance_offset rec) (pr_provenance_length rec) target_offset target_length
          then (SAR_PRES_RESTORE_MISMATCH, None)
          else
            let tag = sar_preserve_content_tag (Some region) region_length
            in if \<not> sar_ct_equal tag (pr_content_tag rec) SEMANTICS_AR_MAC_SIZE
               then (SAR_PRES_RESTORE_MISMATCH, None)
               else (SAR_PRES_OK, Some (target_offset - pr_provenance_offset rec))
      | _ \<Rightarrow> (SAR_PRES_INVALID_ARG, None))"

section \<open>Coverage and gaps\<close>

definition pres_held :: "sar_preserve_record list \<Rightarrow> u16 list \<Rightarrow> u64 \<Rightarrow> bool" where
  "pres_held records path x = list_ex (pres_holds path x) records"

lemma pres_cover_scan_held:
  assumes "pres_cover_scan records path cursor = (True, cover_end)" "cursor \<le> x" "x < cover_end"
  shows "pres_held records path x"
proof -
  let ?S = "set (cursor # map (\<lambda>r. pr_provenance_offset r + pr_provenance_length r)
    (filter (pres_holds path cursor) records))"
  have "cover_end = Max ?S" using assms(1) by (simp add: pres_cover_scan_eq)
  then have "cover_end \<in> ?S" by (simp only: Max_in List.finite_set set_empty list.distinct not_False_eq_True)
  then obtain r where "r \<in> set records" "pres_holds path cursor r"
    "cover_end = pr_provenance_offset r + pr_provenance_length r"
    using assms(2,3) by auto
  with assms(2,3) have "r \<in> set records" "pres_holds path x r" by (auto simp: pres_holds_def)
  then show ?thesis by (auto simp: pres_held_def list_ex_iff)
qed

lemma pres_gap_scan_eq:
  "pres_gap_scan records path cursor end_off =
     Min (set (end_off # map pr_provenance_offset
       (filter (\<lambda>r. sar_pres_path_eq (pr_provenance_path r) path \<and> cursor < pr_provenance_offset r) records)))"
  unfolding Min.set_eq_fold pres_gap_scan_def
  by (induction records arbitrary: end_off) (auto simp: Let_def min_def not_less)

lemma pres_gap_scan_bounds:
  assumes "cursor < end_off"
  shows "cursor < pres_gap_scan records path cursor end_off" "pres_gap_scan records path cursor end_off \<le> end_off"
    "pres_gap_scan records path cursor end_off = end_off \<or>
       (\<exists>r\<in>set records. sar_pres_path_eq (pr_provenance_path r) path \<and>
          pr_provenance_offset r = pres_gap_scan records path cursor end_off)"
proof -
  let ?S = "set (end_off # map pr_provenance_offset
       (filter (\<lambda>r. sar_pres_path_eq (pr_provenance_path r) path \<and> cursor < pr_provenance_offset r) records))"
  have "Min ?S \<in> ?S" by (simp only: Min_in List.finite_set set_empty list.distinct not_False_eq_True)
  then show "cursor < pres_gap_scan records path cursor end_off"
    "pres_gap_scan records path cursor end_off = end_off \<or>
       (\<exists>r\<in>set records. sar_pres_path_eq (pr_provenance_path r) path \<and>
          pr_provenance_offset r = pres_gap_scan records path cursor end_off)"
    unfolding pres_gap_scan_eq using assms by auto
  show "pres_gap_scan records path cursor end_off \<le> end_off"
    unfolding pres_gap_scan_eq by (rule Min_le) simp_all
qed

lemma pres_gap_scan_record:
  assumes "r \<in> set records" "sar_pres_path_eq (pr_provenance_path r) path" "cursor < pr_provenance_offset r"
  shows "pres_gap_scan records path cursor end_off \<le> pr_provenance_offset r"
  unfolding pres_gap_scan_eq using assms by (intro Min_le) auto

lemma pres_gap_scan_free:
  assumes "\<not> pres_held records path cursor" "cursor \<le> x" "x < pres_gap_scan records path cursor end_off"
  shows "\<not> pres_held records path x"
proof
  assume "pres_held records path x"
  then obtain r where r: "r \<in> set records" "pres_holds path x r"
    by (auto simp: pres_held_def list_ex_iff)
  show False
  proof (cases "cursor < pr_provenance_offset r")
    case True
    then have "pres_gap_scan records path cursor end_off \<le> pr_provenance_offset r"
      using r by (intro pres_gap_scan_record) (auto simp: pres_holds_def)
    then show ?thesis using r(2) assms(3) by (auto simp: pres_holds_def)
  next
    case False
    then have "pres_holds path cursor r" using r(2) assms(2) by (auto simp: pres_holds_def)
    then show ?thesis using r(1) assms(1) by (auto simp: pres_held_def list_ex_iff)
  qed
qed

definition pres_gap_spec :: "sar_preserve_record list \<Rightarrow> u16 list \<Rightarrow> u64 \<Rightarrow> u64 \<Rightarrow> (u64 \<times> u64) option \<Rightarrow> bool" where
  "pres_gap_spec records path lo hi res =
     (case res of
        None \<Rightarrow> \<forall>x. lo \<le> x \<and> x < hi \<longrightarrow> pres_held records path x
      | Some (g, l) \<Rightarrow>
          lo \<le> g \<and> g < g + l \<and> g + l \<le> hi \<and>
          (\<forall>x. lo \<le> x \<and> x < g \<longrightarrow> pres_held records path x) \<and>
          (\<forall>x. g \<le> x \<and> x < g + l \<longrightarrow> \<not> pres_held records path x) \<and>
          (\<forall>r\<in>set records. sar_pres_path_eq (pr_provenance_path r) path \<longrightarrow>
             \<not> (g < pr_provenance_offset r \<and> pr_provenance_offset r < g + l)) \<and>
          (g + l = hi \<or> (\<exists>r\<in>set records. sar_pres_path_eq (pr_provenance_path r) path \<and>
             pr_provenance_offset r = g + l)))"

lemma pres_gap_loop_spec: "pres_gap_spec records path cursor end_off (pres_gap_loop records path end_off cursor)"
proof (induction records path end_off cursor rule: pres_gap_loop.induct)
  case (1 records path end_off cursor)
  obtain covered cover_end where scan: "pres_cover_scan records path cursor = (covered, cover_end)"
    by fastforce
  consider "\<not> cursor < end_off" | "cursor < end_off" covered | "cursor < end_off" "\<not> covered" by blast
  then show ?case
  proof cases
    case 1
    then show ?thesis by (auto simp: pres_gap_loop.simps pres_gap_spec_def)
  next
    case 2
    then have "pres_gap_loop records path end_off cursor = pres_gap_loop records path end_off cover_end"
      using scan by (simp add: pres_gap_loop.simps [of _ _ _ cursor])
    moreover have "pres_gap_spec records path cover_end end_off (pres_gap_loop records path end_off cover_end)"
      using 1 [OF 2(1) refl scan [symmetric]] 2 by simp
    moreover have "cursor < cover_end"
      using pres_cover_scan_gt [of records path cursor] scan 2 by simp
    moreover have "pres_held records path x" if "cursor \<le> x" "x < cover_end" for x
      using pres_cover_scan_held [of records path cursor cover_end x] that scan 2 by simp
    ultimately show ?thesis
      unfolding pres_gap_spec_def by (force split: option.splits)
  next
    case 3
    let ?e = "pres_gap_scan records path cursor end_off"
    have "pres_gap_loop records path end_off cursor = Some (cursor, ?e - cursor)"
      using 3 scan by (simp add: pres_gap_loop.simps)
    moreover have "\<not> pres_held records path cursor"
      using scan 3 by (simp add: pres_cover_scan_eq pres_held_def)
    ultimately show ?thesis
      using pres_gap_scan_bounds [OF 3(1), of records path] pres_gap_scan_free [of records path cursor _ end_off]
        pres_gap_scan_record [of _ records path cursor end_off, THEN leD]
      by (auto simp: pres_gap_spec_def)
  qed
qed

section \<open>Loops over the array\<close>

text \<open>The compaction loop keeps the records it does not drop, in their order.\<close>

lemma pres_compact_step_inv:
  assumes "length rs = length records" "drop r rs = drop r records" "r < length records" "k \<le> r"
    and "take k rs = kept"
  shows "\<exists>rs'. pres_compact_step dropped r (rs, k, removed) =
      (if dropped (records ! r) then (rs', k, removed + 1) else (rs', Suc k, removed)) \<and>
    length rs' = length records \<and> drop (Suc r) rs' = drop (Suc r) records \<and>
    (if dropped (records ! r) then take k rs' = kept else take (Suc k) rs' = kept @ [records ! r])"
proof -
  have at: "rs ! r = records ! r" using assms(1-3) by (metis hd_drop_conv_nth)
  have tl: "drop (Suc r) rs = drop (Suc r) records" using assms(2) by (metis drop_Suc tl_drop)
  have "take (Suc k) (rs[k := records ! r]) = kept @ [records ! r]"
    using assms by (simp add: take_Suc_conv_app_nth)
  moreover have "take (Suc r) rs = kept @ [records ! r]" if "k = r"
    using that assms(1,3,5) at by (simp add: take_Suc_conv_app_nth)
  ultimately show ?thesis
    using assms at tl by (cases "dropped (records ! r)") (simp_all add: pres_compact_step_def)
qed

lemma pres_compact_fold:
  "r \<le> length records \<Longrightarrow>
    \<exists>rs. fold (pres_compact_step dropped) [0..<r] (records, 0, 0) =
       (rs, length (filter (\<lambda>x. \<not> dropped x) (take r records)),
        word_of_nat (length (filter dropped (take r records)))) \<and>
      length rs = length records \<and> drop r rs = drop r records \<and>
      take (length (filter (\<lambda>x. \<not> dropped x) (take r records))) rs = filter (\<lambda>x. \<not> dropped x) (take r records)"
proof (induction r)
  case 0
  then show ?case by simp
next
  case (Suc r)
  let ?kept = "filter (\<lambda>x. \<not> dropped x) (take r records)"
  let ?gone = "word_of_nat (length (filter dropped (take r records))) :: u64"
  obtain rs where rs: "fold (pres_compact_step dropped) [0..<r] (records, 0, 0) = (rs, length ?kept, ?gone)"
    "length rs = length records" "drop r rs = drop r records" "take (length ?kept) rs = ?kept"
    using Suc by auto
  have r: "r < length records" using Suc.prems by simp
  have "length ?kept \<le> r"
    using length_filter_le [of "\<lambda>x. \<not> dropped x" "take r records"] r by simp
  from pres_compact_step_inv [OF rs(2,3) r this rs(4), of dropped ?gone]
  show ?case using rs(1) r
    by (auto simp: take_Suc_conv_app_nth split: if_splits)
qed

lemma pres_compact_filter:
  "pres_compact dropped records =
     (filter (\<lambda>x. \<not> dropped x) records, word_of_nat (length (filter dropped records)))"
  using pres_compact_fold [of "length records" records dropped]
  by (auto simp: pres_compact_def)

lemma pres_promote_fold:
  "n \<le> length records \<Longrightarrow>
    fold (pres_promote_step actor_id) [0..<n] (records, 0) =
      (map (\<lambda>r. if pr_state r = SAR_PRESERVE_PROBATION \<and> pr_actor_id r = actor_id
                then r\<lparr>pr_state := SAR_PRESERVE_PROTECTED\<rparr> else r) (take n records) @ drop n records,
       word_of_nat (length (filter (\<lambda>r. pr_state r = SAR_PRESERVE_PROBATION \<and> pr_actor_id r = actor_id)
         (take n records))))"
proof (induction n)
  case 0
  then show ?case by simp
next
  case (Suc n)
  then have "drop n records = records ! n # drop (Suc n) records"
    by (simp add: Cons_nth_drop_Suc)
  then show ?case
    using Suc by (simp add: pres_promote_step_def take_Suc_conv_app_nth nth_append list_update_append)
qed

lemma pres_remove_fold:
  "i < n \<Longrightarrow> n \<le> length rs \<Longrightarrow> k < length rs \<Longrightarrow>
    fold (\<lambda>i rs. rs[i - 1 := rs ! i]) [Suc i..<n] rs ! k = (if i \<le> k \<and> k < n - 1 then rs ! Suc k else rs ! k)"
proof (induction n arbitrary: k)
  case 0
  then show ?case by simp
next
  case (Suc n)
  show ?case
  proof (cases "i < n")
    case True
    let ?rs = "fold (\<lambda>i rs. rs[i - 1 := rs ! i]) [Suc i..<n] rs"
    have "?rs ! n = rs ! n" using Suc.IH [of n] Suc.prems True by (simp split: if_splits)
    then show ?thesis
      using Suc.IH [of k] Suc.prems True by (auto simp: nth_list_update length_fold_update)
  next
    case False
    then have "n = i" using Suc.prems by simp
    then show ?thesis by auto
  qed
qed

lemma pres_remove_at_eq:
  assumes "i < length rs"
  shows "pres_remove_at rs i = take i rs @ drop (Suc i) rs"
proof (rule nth_equalityI)
  fix k assume "k < length (pres_remove_at rs i)"
  then have "k < length rs - 1" by (simp add: length_pres_remove_at)
  then show "pres_remove_at rs i ! k = (take i rs @ drop (Suc i) rs) ! k"
    using assms pres_remove_fold [of i "length rs" rs k] by (auto simp: pres_remove_at_def nth_append)
qed (use assms in \<open>simp add: length_pres_remove_at\<close>)

section \<open>Eviction\<close>

abbreviation pres_on_probation :: "sar_preserve_record \<Rightarrow> bool" where
  "pres_on_probation r \<equiv> pr_state r = SAR_PRESERVE_PROBATION"

lemma pres_oldest_fold:
  fixes records :: "sar_preserve_record list"
  defines "pick \<equiv> (\<lambda>i oldest. if \<not> pres_on_probation (records ! i) then oldest
     else if oldest = length records \<or> pr_capture_time (records ! i) < pr_capture_time (records ! oldest)
     then i else oldest)"
  assumes "n \<le> length records"
  shows "(if \<exists>i<n. pres_on_probation (records ! i) then
      (let o' = fold pick [0..<n] (length records) in o' < n \<and> pres_on_probation (records ! o') \<and>
         (\<forall>i<n. pres_on_probation (records ! i) \<longrightarrow> pr_capture_time (records ! o') \<le> pr_capture_time (records ! i)))
     else fold pick [0..<n] (length records) = length records)"
  using assms(2)
proof (induction n)
  case 0
  then show ?case by simp
next
  case (Suc n)
  then show ?case
    by (auto simp: pick_def Let_def less_Suc_eq split: if_splits)
qed

lemma pres_oldest_cases:
  obtains (none) "pres_oldest records = length records" "list_all (\<lambda>r. \<not> pres_on_probation r) records"
  | (some) "pres_oldest records < length records" "pres_on_probation (records ! pres_oldest records)"
    "\<forall>r\<in>set records. pres_on_probation r \<longrightarrow> pr_capture_time (records ! pres_oldest records) \<le> pr_capture_time r"
  using pres_oldest_fold [of "length records" records]
  by (auto simp: pres_oldest_def [symmetric] Let_def list_all_length all_set_conv_all_nth split: if_splits)

lemma pres_probation_bytes_0:
  "list_all (\<lambda>r. \<not> pres_on_probation r) records \<Longrightarrow> sar_preserve_probation_bytes records = 0"
proof -
  have "list_all (\<lambda>r. \<not> pres_on_probation r) records \<Longrightarrow>
      fold (\<lambda>r total. if pres_on_probation r then total + pr_payload_length r else total) records t = t" for t
    by (induction records arbitrary: t) simp_all
  then show "list_all (\<lambda>r. \<not> pres_on_probation r) records \<Longrightarrow> ?thesis"
    by (simp add: sar_preserve_probation_bytes_def)
qed

definition pres_evict_spec ::
  "u64 \<Rightarrow> sar_preserve_record list \<Rightarrow> sar_preserve_record list \<Rightarrow> bool" where
  "pres_evict_spec cap_bytes records rest \<longleftrightarrow>
     sar_preserve_probation_bytes rest \<le> cap_bytes \<and> subseq rest records \<and>
     filter (\<lambda>r. \<not> pres_on_probation r) rest = filter (\<lambda>r. \<not> pres_on_probation r) records \<and>
     (\<forall>x\<in>#mset records - mset rest. \<forall>y\<in>set rest. pres_on_probation y \<longrightarrow> pr_capture_time x \<le> pr_capture_time y)"

lemma subseq_mset: "subseq xs ys \<Longrightarrow> mset xs \<subseteq># mset ys"
  by (induction rule: list_emb.induct) (auto intro: subset_mset.trans)

lemma subseq_remove_nth: "i < length xs \<Longrightarrow> subseq (take i xs @ drop (Suc i) xs) xs"
  using id_take_nth_drop [of i xs] by (metis subseq_append' subseq_Cons' subseq_order.order_refl)

lemma pres_evict_spec_step:
  assumes "i < length records" "pres_on_probation (records ! i)"
    and "\<forall>r\<in>set records. pres_on_probation r \<longrightarrow> pr_capture_time (records ! i) \<le> pr_capture_time r"
    and "pres_evict_spec cap_bytes (take i records @ drop (Suc i) records) rest"
  shows "pres_evict_spec cap_bytes records rest"
proof -
  define r where "r = take i records @ drop (Suc i) records"
  have split: "records = take i records @ records ! i # drop (Suc i) records"
    using assms(1) by (rule id_take_nth_drop)
  then have ms: "mset records = add_mset (records ! i) (mset r)"
    unfolding r_def by (metis mset_append mset.simps(2) union_mset_add_mset_right)
  have spec: "pres_evict_spec cap_bytes r rest" using assms(4) by (simp add: r_def)
  then have sub: "subseq rest r" by (simp add: pres_evict_spec_def)
  moreover have "subseq r records" unfolding r_def using assms(1) by (rule subseq_remove_nth)
  ultimately have rest: "subseq rest records" by (rule subseq_order.trans)
  have "filter (\<lambda>r. \<not> pres_on_probation r) records = filter (\<lambda>r. \<not> pres_on_probation r) r"
    using arg_cong [OF split, of "filter (\<lambda>r. \<not> pres_on_probation r)"] assms(2) by (simp add: r_def)
  moreover have "mset records - mset rest = add_mset (records ! i) (mset r - mset rest)"
    using subseq_mset [OF sub] by (auto simp: ms mset_subset_eq_exists_conv)
  moreover have "set rest \<subseteq> set records"
    using subseq_mset [OF rest] by (metis set_mset_mono set_mset_mset)
  ultimately show ?thesis
    using assms(3) spec rest by (auto simp: pres_evict_spec_def)
qed

lemma pres_evict_loop_spec:
  "pres_evict_spec cap_bytes records (fst (pres_evict_loop cap_bytes records removed)) \<and>
   snd (pres_evict_loop cap_bytes records removed) =
     removed + word_of_nat (length records - length (fst (pres_evict_loop cap_bytes records removed)))"
proof (induction cap_bytes records removed rule: pres_evict_loop.induct)
  case (1 cap_bytes records removed)
  show ?case
  proof (cases "sar_preserve_probation_bytes records \<le> cap_bytes")
    case True
    then show ?thesis by (simp add: pres_evict_loop.simps pres_evict_spec_def)
  next
    case False
    let ?i = "pres_oldest records"
    from False have some: "?i < length records" "pres_on_probation (records ! ?i)"
      "\<forall>r\<in>set records. pres_on_probation r \<longrightarrow> pr_capture_time (records ! ?i) \<le> pr_capture_time r"
      by (cases rule: pres_oldest_cases [of records]; simp add: pres_probation_bytes_0)+
    let ?rec = "pres_evict_loop cap_bytes (pres_remove_at records ?i) (removed + 1)"
    have eq: "pres_evict_loop cap_bytes records removed = ?rec"
      using False some(1) by (simp add: pres_evict_loop.simps [of _ records])
    have IH: "pres_evict_spec cap_bytes (pres_remove_at records ?i) (fst ?rec)"
      "snd ?rec = removed + 1 + word_of_nat (length (pres_remove_at records ?i) - length (fst ?rec))"
      using 1 [OF False refl] some(1) by simp_all
    have "pres_evict_spec cap_bytes records (fst ?rec)"
      using pres_evict_spec_step [OF some] IH(1) some(1) by (simp add: pres_remove_at_eq)
    moreover have "length (fst ?rec) \<le> length records - 1"
      using IH(1) list_emb_length [of "(=)" "fst ?rec" "pres_remove_at records ?i"]
      by (simp add: pres_evict_spec_def length_pres_remove_at)
    then have "length records - length (fst ?rec) = Suc (length (pres_remove_at records ?i) - length (fst ?rec))"
      using some(1) by (simp add: length_pres_remove_at)
    ultimately show ?thesis
      using eq IH(2) by simp
  qed
qed

section \<open>The ledger\<close>

text \<open>
  A range that does not wrap, a ledger whose ranges of one path are pairwise disjoint, and an example
  record.
\<close>

definition pres_nowrap :: "u64 \<Rightarrow> u64 \<Rightarrow> bool" where
  "pres_nowrap off len \<longleftrightarrow> unat off + unat len < 2 ^ 64"

definition wf_pres_record :: "sar_preserve_record \<Rightarrow> bool" where
  "wf_pres_record r \<longleftrightarrow> length (pr_provenance_path r) = 260 \<and> length (pr_iv r) = 24 \<and>
     length (pr_content_tag r) = 32 \<and> length (pr_causing_image_path r) = 260"

definition pres_disjoint :: "sar_preserve_record \<Rightarrow> sar_preserve_record \<Rightarrow> bool" where
  "pres_disjoint a b \<longleftrightarrow>
     \<not> (\<exists>x. pres_holds (pr_provenance_path a) x a \<and> pres_holds (pr_provenance_path a) x b)"

definition pres_ledger :: "nat \<Rightarrow> sar_preserve_record list \<Rightarrow> bool" where
  "pres_ledger capacity rs \<longleftrightarrow> length rs \<le> capacity \<and> list_all wf_pres_record rs \<and> sorted_wrt pres_disjoint rs"

definition pres_example :: "u64 \<Rightarrow> u64 \<Rightarrow> sar_preserve_record" where
  "pres_example off len =
     \<lparr>pr_provenance_path = replicate 260 7, pr_provenance_offset = off, pr_provenance_length = len,
      pr_capture_time = 5, pr_payload_offset = 0, pr_payload_length = len, pr_actor_id = 3,
      pr_state = SAR_PRESERVE_PROBATION, pr_kind = 0, pr_iv = replicate 24 0, pr_iv_length = 16,
      pr_content_tag = replicate 32 0, pr_causing_image_path = replicate 260 0\<rparr>"

lemma wf_pres_example [simp]: "wf_pres_record (pres_example off len)"
  by (simp add: wf_pres_record_def pres_example_def)

lemma pres_example_sel [simp]:
  "pr_provenance_path (pres_example off len) = replicate 260 7"
  "pr_provenance_offset (pres_example off len) = off" "pr_provenance_length (pres_example off len) = len"
  "pr_state (pres_example off len) = SAR_PRESERVE_PROBATION" "pr_actor_id (pres_example off len) = 3"
  by (simp_all add: pres_example_def)

lemma sar_pres_path_eq_iff:
  "length a = 260 \<Longrightarrow> length b = 260 \<Longrightarrow> sar_pres_path_eq a b \<longleftrightarrow> a = b"
  by (simp add: sar_pres_path_eq_def sar_memcmp_eq_0 sar_sizes path_bytes_inject)

lemma sar_pres_path_eq_refl [simp]: "length a = 260 \<Longrightarrow> sar_pres_path_eq a a"
  by (simp add: sar_pres_path_eq_iff)

lemma pres_held_append [simp]:
  "pres_held (rs @ rs') path x \<longleftrightarrow> pres_held rs path x \<or> pres_held rs' path x"
  by (simp add: pres_held_def)

lemma pres_overlap_shared:
  "pr_provenance_offset a \<le> x \<Longrightarrow> x < pr_provenance_offset a + pr_provenance_length a \<Longrightarrow>
   off \<le> x \<Longrightarrow> x < off + len \<Longrightarrow> sar_pres_overlap (pr_provenance_offset a) (pr_provenance_length a) off len"
  by (auto simp: sar_pres_overlap_def)

lemma pres_not_covered_disjoint:
  assumes "\<not> sar_preserve_covered rs (pr_provenance_path r) (pr_provenance_offset r) (pr_provenance_length r)"
    and "a \<in> set rs" "wf_pres_record a" "wf_pres_record r"
  shows "pres_disjoint a r"
proof -
  have "\<not> (sar_pres_path_eq (pr_provenance_path a) (pr_provenance_path r) \<and>
      sar_pres_overlap (pr_provenance_offset a) (pr_provenance_length a) (pr_provenance_offset r) (pr_provenance_length r))"
    using assms(1,2) by (auto simp: sar_preserve_covered_def list_ex_iff)
  then show ?thesis
    using assms(3,4) pres_overlap_shared [of a _ "pr_provenance_offset r" "pr_provenance_length r"]
    by (auto simp: pres_disjoint_def pres_holds_def sar_pres_path_eq_iff wf_pres_record_def)
qed

lemma pres_append_ledger:
  assumes "pres_ledger capacity rs" "wf_pres_record r"
  shows "pres_ledger capacity (snd (sar_preserve_append rs capacity r))"
  using assms pres_not_covered_disjoint [of rs r]
  by (auto simp: sar_preserve_append_def pres_ledger_def sorted_wrt_append list_all_iff)

lemma pres_add_less:
  "pres_nowrap off len \<Longrightarrow> unat (off + len) = unat off + unat len"
  by (simp add: pres_nowrap_def unat_word_ariths)

lemma pres_gap_not_covered:
  assumes "sar_preserve_first_gap rs path off len = Some (g, l)"
  shows "\<not> sar_preserve_covered rs path g l"
proof
  assume "sar_preserve_covered rs path g l"
  then obtain r where r: "r \<in> set rs" "sar_pres_path_eq (pr_provenance_path r) path"
    "pr_provenance_offset r < g + l" "g < pr_provenance_offset r + pr_provenance_length r"
    by (auto simp: sar_preserve_covered_def list_ex_iff sar_pres_overlap_def)
  have spec: "pres_gap_spec rs path off (off + len) (Some (g, l))"
    using pres_gap_loop_spec [of rs path off "off + len"] assms by (simp add: sar_preserve_first_gap_def)
  moreover have "\<not> pr_provenance_offset r \<le> g"
    using r spec by (auto simp: pres_gap_spec_def pres_held_def list_ex_iff pres_holds_def)
  ultimately show False
    using r by (auto simp: pres_gap_spec_def)
qed

lemma sar_preserve_content_tag_digest: "sar_preserve_content_tag (Some p) len = sha256_digest (take (unat len) p)"
  by (simp add: sar_preserve_content_tag_def sha_stream_digest sha_final_init)

lemma length_sar_preserve_content_tag [simp, sar_len]: "length (sar_preserve_content_tag p len) = 32"
  by (cases p) (simp_all add: sar_preserve_content_tag_digest, simp add: sar_preserve_content_tag_def sha_final_init)

lemma wf_sar_preserve_record_init:
  assumes "case iv of None \<Rightarrow> True | Some v \<Rightarrow> min (unat ivl) 24 \<le> length v"
  shows "wf_pres_record (sar_preserve_record_init path off len t poff plen actor iv ivl plain n)"
proof -
  have "unat (word_of_nat SEMANTICS_AR_IV_MAX :: u8) = 24" by (simp add: sar_sizes)
  then show ?thesis
    using assms
    by (auto simp: sar_preserve_record_init_def wf_pres_record_def Let_def sar_memcpy_def sar_sizes
        split: option.splits)
qed

text \<open>
  The check before a restore adds in 64 bits. It is exact as written there; where neither sum wraps it is the containment
  of the target in the region.
\<close>

lemma verify_extract_words:
  assumes "length (pr_provenance_path r) = 260" "length path = 260" "length (pr_content_tag r) = 32"
  shows "sar_preserve_verify_extract (Some r) (Some path) off len (Some region) n = (SAR_PRES_OK, Some inner) \<longleftrightarrow>
    len \<noteq> 0 \<and> pr_provenance_path r = path \<and> n = pr_provenance_length r \<and>
    sha256_digest (take (unat n) region) = pr_content_tag r \<and>
    pr_provenance_offset r \<le> off \<and> off + len \<le> pr_provenance_offset r + pr_provenance_length r \<and>
    inner = off - pr_provenance_offset r"
  using assms
  by (auto simp: sar_preserve_verify_extract_def sar_pres_path_eq_iff sar_preserve_content_tag_digest sar_pres_contains_def
      sar_ct_equal_iff sar_sizes Let_def)

lemma pres_nowrap_guard: "off \<le> off + len \<Longrightarrow> pres_nowrap off len" for off len :: u64
proof (rule ccontr)
  assume le: "off \<le> off + len" and "\<not> pres_nowrap off len"
  then have wrap: "2 ^ 64 \<le> unat off + unat len" by (simp add: pres_nowrap_def)
  have "unat off < 2 ^ 64" "unat len < 2 ^ 64" using unsigned_less [of off] unsigned_less [of len] by simp_all
  moreover from this have "(unat off + unat len) mod 2 ^ 64 = unat off + unat len - 2 ^ 64"
    using wrap by (subst le_mod_geq) simp_all
  moreover have "unat off \<le> (unat off + unat len) mod 2 ^ 64" using le by (simp add: word_le_nat_alt unat_word_ariths)
  ultimately show False using wrap by linarith
qed

lemma verify_extract_iff:
  assumes "length (pr_provenance_path r) = 260" "length path = 260" "length (pr_content_tag r) = 32"
    and "pres_nowrap (pr_provenance_offset r) (pr_provenance_length r)" "pres_nowrap off len"
  shows "sar_preserve_verify_extract (Some r) (Some path) off len (Some region) n = (SAR_PRES_OK, Some inner) \<longleftrightarrow>
    len \<noteq> 0 \<and> pr_provenance_path r = path \<and> n = pr_provenance_length r \<and>
    sha256_digest (take (unat n) region) = pr_content_tag r \<and>
    unat (pr_provenance_offset r) + unat inner = unat off \<and> unat inner + unat len \<le> unat n"
proof -
  have "sar_pres_contains (pr_provenance_offset r) (pr_provenance_length r) off len \<longleftrightarrow>
      unat (pr_provenance_offset r) \<le> unat off \<and>
      unat off + unat len \<le> unat (pr_provenance_offset r) + unat (pr_provenance_length r)"
    using assms(4,5) by (simp add: sar_pres_contains_def word_le_nat_alt pres_add_less)
  moreover have "inner = off - pr_provenance_offset r \<longleftrightarrow> unat (pr_provenance_offset r) + unat inner = unat off"
    if "unat (pr_provenance_offset r) \<le> unat off"
    using that unat_sub [of "pr_provenance_offset r" off]
    by (auto simp: word_le_nat_alt) (metis add_diff_cancel_left' word_unat_eq_iff)
  ultimately show ?thesis
    using assms(1-3)
    by (auto simp: sar_preserve_verify_extract_def sar_pres_path_eq_iff sar_preserve_content_tag_digest
        sar_ct_equal_iff sar_sizes Let_def)
qed

section \<open>Properties\<close>

text \<open>
  C22: the gap search is exact. It always ends; when it reports no gap, every offset of the requested
  range is held by a record of that path; when it reports a gap, the gap is a non-empty part of the
  range, everything before it is held, nothing in it is held, no record of the path starts inside it,
  and it ends at the end of the range or where a record starts.
\<close>

theorem preserve_first_gap_exact:
  "pres_gap_spec records path offset (offset + len) (sar_preserve_first_gap records path offset len)"
  unfolding sar_preserve_first_gap_def by (rule pres_gap_loop_spec)

text \<open>
  C33: what is saved stays disjoint and a gap can always be filled. Appending a record keeps the
  capacity bound, the well-formedness and the disjointness of the ranges of each path. A record for a
  gap that the search reported is never refused as covered: it is appended unless the ledger is full.
\<close>

theorem preserve_append_ledger:
  assumes "pres_ledger capacity rs" "wf_pres_record r"
  shows "pres_ledger capacity (snd (sar_preserve_append rs capacity r)) \<and>
    (sar_preserve_first_gap rs (pr_provenance_path r) offset len =
        Some (pr_provenance_offset r, pr_provenance_length r) \<longrightarrow>
      sar_preserve_append rs capacity r = (if length rs = capacity then (- 2, rs) else (1, rs @ [r])))"
  using assms pres_append_ledger [OF assms] pres_gap_not_covered [of rs "pr_provenance_path r" offset len]
  by (auto simp: sar_preserve_append_def pres_ledger_def)

theorem preserve_append_ledger_witness:
  "pres_ledger 2 (snd (sar_preserve_append [pres_example 100 50] 2 (pres_example 150 30))) \<and>
    sar_preserve_first_gap [pres_example 100 50] (replicate 260 7) 100 80 = Some (150, 30) \<and>
    sar_preserve_append [pres_example 100 50] 2 (pres_example 150 30) =
      (1, [pres_example 100 50, pres_example 150 30])"
proof -
  have gap: "sar_preserve_first_gap [pres_example 100 50] (replicate 260 7) 100 80 = Some (150, 30)"
    by (simp add: sar_preserve_first_gap_def pres_gap_loop.simps pres_cover_scan_def pres_cover_step_def
        pres_gap_scan_def)
  have "pres_ledger 2 [pres_example 100 50]" by (simp add: pres_ledger_def)
  from preserve_append_ledger [OF this wf_pres_example, of 150 30 100 80] gap
  show ?thesis by auto
qed

text \<open>
  The in-place compactions are filters. Reconciliation removes exactly the records of the path that
  lie inside the captured key's range, the eviction by age exactly those at least the retention old;
  the others stay in their order, and the number returned is the number removed.
\<close>

theorem preserve_compaction_filters:
  "sar_preserve_reconcile records path key_offset key_length =
     (let P = (\<lambda>r. sar_pres_path_eq (pr_provenance_path r) path \<and>
        sar_pres_contains key_offset key_length (pr_provenance_offset r) (pr_provenance_length r))
      in (filter (\<lambda>r. \<not> P r) records, word_of_nat (length (filter P records)))) \<and>
   sar_preserve_evict_aged records now retention =
     (let P = (\<lambda>r. pr_capture_time r < now \<and> retention \<le> now - pr_capture_time r)
      in (filter (\<lambda>r. \<not> P r) records, word_of_nat (length (filter P records))))"
  by (simp add: sar_preserve_reconcile_def sar_preserve_evict_aged_def pres_compact_filter Let_def)

text \<open>
  C32: the eviction of probation records ends, brings the bytes on probation down to the cap, keeps the
  remaining records in their order, never removes a record that is not on probation, removes the
  oldest ones (no removed record is younger than a probation record that stays), and returns the number
  of records removed.
\<close>

theorem preserve_evict_probation_oldest_first:
  "pres_evict_spec cap_bytes records (fst (sar_preserve_evict_probation_oldest records cap_bytes)) \<and>
   snd (sar_preserve_evict_probation_oldest records cap_bytes) =
     word_of_nat (length records - length (fst (sar_preserve_evict_probation_oldest records cap_bytes)))"
  using pres_evict_loop_spec [of cap_bytes records 0] by (simp add: sar_preserve_evict_probation_oldest_def)

text \<open>
  C34: promotion. Every probation record of the convicted actor becomes protected, no other record
  changes, nothing is added or removed, and the number returned is the number of promoted records.
  After it, the eviction of probation records cannot remove any of them.
\<close>

theorem preserve_promote_protects:
  "sar_preserve_promote records actor_id =
     (map (\<lambda>r. if pr_state r = SAR_PRESERVE_PROBATION \<and> pr_actor_id r = actor_id
              then r\<lparr>pr_state := SAR_PRESERVE_PROTECTED\<rparr> else r) records,
      word_of_nat (length (filter (\<lambda>r. pr_state r = SAR_PRESERVE_PROBATION \<and> pr_actor_id r = actor_id) records))) \<and>
   (\<forall>r\<in>set records. pr_actor_id r = actor_id \<and> pr_state r = SAR_PRESERVE_PROBATION \<longrightarrow>
      r\<lparr>pr_state := SAR_PRESERVE_PROTECTED\<rparr> \<in>
        set (fst (sar_preserve_evict_probation_oldest (fst (sar_preserve_promote records actor_id)) cap_bytes)))"
proof -
  have eq: "sar_preserve_promote records actor_id =
     (map (\<lambda>r. if pr_state r = SAR_PRESERVE_PROBATION \<and> pr_actor_id r = actor_id
              then r\<lparr>pr_state := SAR_PRESERVE_PROTECTED\<rparr> else r) records,
      word_of_nat (length (filter (\<lambda>r. pr_state r = SAR_PRESERVE_PROBATION \<and> pr_actor_id r = actor_id) records)))"
    using pres_promote_fold [of "length records" records actor_id] by (simp add: sar_preserve_promote_def)
  have kept: "x \<in> set (fst (sar_preserve_evict_probation_oldest rs cap_bytes))"
    if "x \<in> set rs" "\<not> pres_on_probation x" for x rs
  proof -
    have "set (filter (\<lambda>r. \<not> pres_on_probation r) (fst (pres_evict_loop cap_bytes rs 0))) =
        set (filter (\<lambda>r. \<not> pres_on_probation r) rs)"
      using pres_evict_loop_spec [of cap_bytes rs 0] by (simp add: pres_evict_spec_def)
    then show ?thesis using that by (auto simp: sar_preserve_evict_probation_oldest_def)
  qed
  have "SAR_PRESERVE_PROTECTED \<noteq> SAR_PRESERVE_PROBATION"
    by (simp add: SAR_PRESERVE_PROTECTED_def SAR_PRESERVE_PROBATION_def)
  then show ?thesis using eq by (auto intro!: kept)
qed

theorem preserve_promote_protects_witness:
  "sar_preserve_promote [pres_example 0 64] 3 = ([(pres_example 0 64)\<lparr>pr_state := SAR_PRESERVE_PROTECTED\<rparr>], 1) \<and>
   (pres_example 0 64)\<lparr>pr_state := SAR_PRESERVE_PROTECTED\<rparr> \<in>
     set (fst (sar_preserve_evict_probation_oldest (fst (sar_preserve_promote [pres_example 0 64] 3)) 0))"
  using preserve_promote_protects [of "[pres_example 0 64]" 3 0] by auto

text \<open>
  C17: what a restore may take from a saved region. The check before a restore accepts exactly the non-empty targets of
  the record's path for which the region has the recorded length and digest, the record begins at or before the target
  and, in wrapping 64-bit sums, ends at or behind its end; it returns the distance. When neither range wraps, which the
  driver's handler tests for the target before it asks, this is exactly that the target lies inside the region at the
  offset returned. Without that test the check is not enough: a target whose end wraps can be accepted, and does then not
  lie inside the region.
\<close>

theorem preserve_verify_extract_sound:
  assumes "length (pr_provenance_path r) = 260" "length path = 260" "length (pr_content_tag r) = 32"
  shows "(sar_preserve_verify_extract (Some r) (Some path) off len (Some region) n = (SAR_PRES_OK, Some inner) \<longleftrightarrow>
      len \<noteq> 0 \<and> pr_provenance_path r = path \<and> n = pr_provenance_length r \<and>
      sha256_digest (take (unat n) region) = pr_content_tag r \<and>
      pr_provenance_offset r \<le> off \<and> off + len \<le> pr_provenance_offset r + pr_provenance_length r \<and>
      inner = off - pr_provenance_offset r) \<and>
    (pres_nowrap (pr_provenance_offset r) (pr_provenance_length r) \<and> off \<le> off + len \<longrightarrow>
      (sar_preserve_verify_extract (Some r) (Some path) off len (Some region) n = (SAR_PRES_OK, Some inner) \<longleftrightarrow>
         len \<noteq> 0 \<and> pr_provenance_path r = path \<and> n = pr_provenance_length r \<and>
         sha256_digest (take (unat n) region) = pr_content_tag r \<and>
         unat (pr_provenance_offset r) + unat inner = unat off \<and> unat inner + unat len \<le> unat n)) \<and>
    (pres_nowrap (pr_provenance_offset r) (pr_provenance_length r) \<and> off + len < off \<longrightarrow>
      sar_preserve_verify_extract (Some r) (Some path) off len (Some region) n = (SAR_PRES_OK, Some inner) \<longrightarrow>
      unat inner + unat len > unat n)"
proof (intro conjI impI, goal_cases)
  case 1
  show ?case by (rule verify_extract_words [OF assms])
next
  case 2
  then show ?case using assms pres_nowrap_guard by (intro verify_extract_iff) simp_all
next
  case 3
  then have "n = pr_provenance_length r" "pr_provenance_offset r \<le> off" "inner = off - pr_provenance_offset r"
    by (simp_all add: verify_extract_words [OF assms])
  moreover have "2 ^ 64 \<le> unat off + unat len"
    using 3(1) pres_add_less [of off len] unfolding pres_nowrap_def word_less_nat_alt by linarith
  moreover have "unat (pr_provenance_offset r) + unat (pr_provenance_length r) < 2 ^ 64" using 3(1) by (simp add: pres_nowrap_def)
  ultimately have "unat (pr_provenance_offset r) \<le> unat off" "unat inner = unat off - unat (pr_provenance_offset r)"
      "unat n + unat (pr_provenance_offset r) < unat off + unat len"
    by (simp_all add: unat_sub word_le_nat_alt)
  then show ?case by linarith
qed

theorem preserve_verify_extract_sound_witness:
  "sar_preserve_verify_extract (Some ((pres_example 100 4)\<lparr>pr_content_tag := sha256_digest [1, 2, 3, 4]\<rparr>))
     (Some (replicate 260 7)) 101 2 (Some [1, 2, 3, 4]) 4 = (SAR_PRES_OK, Some 1) \<and>
   sar_preserve_verify_extract (Some ((pres_example 0 4)\<lparr>pr_content_tag := sha256_digest [1, 2, 3, 4]\<rparr>))
     (Some (replicate 260 7)) (- 2) 4 (Some [1, 2, 3, 4]) 4 = (SAR_PRES_OK, Some (- 2))"
proof
  let ?r = "\<lambda>off. (pres_example off 4)\<lparr>pr_content_tag := sha256_digest [1, 2, 3, 4]\<rparr>"
  have r: "length (pr_provenance_path (?r off)) = 260" "length (replicate 260 (7 :: u16)) = 260" "length (pr_content_tag (?r off)) = 32" for off
    by (simp_all add: pres_example_def)
  show "sar_preserve_verify_extract (Some (?r 100)) (Some (replicate 260 7)) 101 2 (Some [1, 2, 3, 4]) 4 = (SAR_PRES_OK, Some 1)"
    unfolding preserve_verify_extract_sound [OF r, THEN conjunct1] by (simp add: pres_example_def)
  show "sar_preserve_verify_extract (Some (?r 0)) (Some (replicate 260 7)) (- 2) 4 (Some [1, 2, 3, 4]) 4 = (SAR_PRES_OK, Some (- 2))"
    unfolding preserve_verify_extract_sound [OF r, THEN conjunct1] by (simp add: pres_example_def)
qed

end
