(* ===== verification/Preserve_Store.thy ===== *)
theory Preserve_Store
  imports Preserve
begin

text \<open>
  The serialised preserve index of \<^verbatim>\<open>engine/src/preserve.c\<close>
  (\<^verbatim>\<open>common/include/semantics_ar/preserve_format.h\<close>): a header and the records, each with a MAC over
  the record and the previous MAC. Unlike the keystore, the chain starts with a MAC of the generation and
  the record count, and the count is compared with the room in the buffer before it is multiplied.
\<close>

section \<open>Definitions\<close>

record sar_preserve_header =
  ph_magic :: u32
  ph_record_count :: u64
  ph_generation :: u64
  ph_head_mac :: bytes

definition SEMANTICS_AR_PRESERVE_MAGIC :: u32 where
  "SEMANTICS_AR_PRESERVE_MAGIC = 0x50524153"

definition pres_record_size :: nat where "pres_record_size = 1150"
definition pres_disk_size :: nat where "pres_disk_size = 1182"
definition pres_header_size :: nat where "pres_header_size = 52"

definition pr_encode :: "sar_preserve_record \<Rightarrow> bytes" where
  "pr_encode r =
     path_bytes (pr_provenance_path r) @ le_store 8 (pr_provenance_offset r) @
     le_store 8 (pr_provenance_length r) @ le_store 8 (pr_capture_time r) @
     le_store 8 (pr_payload_offset r) @ le_store 8 (pr_payload_length r) @ le_store 8 (pr_actor_id r) @
     le_store 4 (pr_state r) @ [pr_kind r] @ pr_iv r @ [pr_iv_length r] @ pr_content_tag r @
     path_bytes (pr_causing_image_path r)"

definition pr_decode :: "bytes \<Rightarrow> sar_preserve_record" where
  "pr_decode b =
     \<lparr>pr_provenance_path = path_of_bytes 260 (slice b 0 520),
      pr_provenance_offset = le_load (slice b 520 8),
      pr_provenance_length = le_load (slice b 528 8),
      pr_capture_time = le_load (slice b 536 8),
      pr_payload_offset = le_load (slice b 544 8),
      pr_payload_length = le_load (slice b 552 8),
      pr_actor_id = le_load (slice b 560 8),
      pr_state = le_load (slice b 568 4),
      pr_kind = b ! 572,
      pr_iv = slice b 573 24,
      pr_iv_length = b ! 597,
      pr_content_tag = slice b 598 32,
      pr_causing_image_path = path_of_bytes 260 (slice b 630 520)\<rparr>"

definition ph_encode :: "sar_preserve_header \<Rightarrow> bytes" where
  "ph_encode h =
     le_store 4 (ph_magic h) @ le_store 8 (ph_record_count h) @ le_store 8 (ph_generation h) @ ph_head_mac h"

definition ph_decode :: "bytes \<Rightarrow> sar_preserve_header" where
  "ph_decode b =
     \<lparr>ph_magic = le_load (slice b 0 4), ph_record_count = le_load (slice b 4 8),
      ph_generation = le_load (slice b 12 8), ph_head_mac = slice b 20 32\<rparr>"

definition sar_pres_mac_record :: "bytes \<Rightarrow> sar_preserve_record \<Rightarrow> bytes \<Rightarrow> bytes" where
  "sar_pres_mac_record mac_key rf prev_mac =
     sar_hmac_sha256 mac_key (pr_encode rf @ take SEMANTICS_AR_MAC_SIZE prev_mac)"

definition sar_pres_mac_head :: "bytes \<Rightarrow> u64 \<Rightarrow> u64 \<Rightarrow> bytes" where
  "sar_pres_mac_head mac_key generation record_count =
     sar_hmac_sha256 mac_key (le_store 8 generation @ le_store 8 record_count)"

definition sar_preserve_serialized_size :: "u64 \<Rightarrow> u64" where
  "sar_preserve_serialized_size cnt = word_of_nat pres_header_size + cnt * word_of_nat pres_disk_size"

definition pres_write_record ::
  "bytes \<Rightarrow> sar_preserve_record \<Rightarrow> bytes \<times> bytes \<Rightarrow> bytes \<times> bytes" where
  "pres_write_record mac_key r = (\<lambda>(out, prev).
     let mac = sar_pres_mac_record mac_key r prev in (out @ pr_encode r @ mac, mac))"

definition sar_preserve_serialize ::
  "bytes \<Rightarrow> sar_preserve_record list \<Rightarrow> u64 \<Rightarrow> u64 \<Rightarrow> u64 \<Rightarrow> pres_status \<times> u64 \<times> bytes" where
  "sar_preserve_serialize mac_key records cnt generation out_cap =
     (let need = sar_preserve_serialized_size cnt
      in if out_cap < need then (SAR_PRES_BUFFER_TOO_SMALL, need, [])
         else
           let (body, prev) = fold (pres_write_record mac_key) (take (unat cnt) records)
                 ([], sar_pres_mac_head mac_key generation cnt);
               hdr = \<lparr>ph_magic = SEMANTICS_AR_PRESERVE_MAGIC, ph_record_count = cnt,
                      ph_generation = generation, ph_head_mac = prev\<rparr>
           in (SAR_PRES_OK, need, ph_encode hdr @ body))"

text \<open>
  The verification loop: \<^term>\<open>None\<close> when a record is read from outside the buffer, \<^term>\<open>Some None\<close>
  when a record MAC does not match, \<^term>\<open>Some (Some prev)\<close> with the last MAC otherwise.
\<close>

primrec pres_verify_loop :: "bytes \<Rightarrow> bytes \<Rightarrow> nat \<Rightarrow> nat \<Rightarrow> bytes \<Rightarrow> bytes option option" where
  "pres_verify_loop mac_key buf p 0 prev = Some (Some prev)"
| "pres_verify_loop mac_key buf p (Suc n) prev =
     (if p + pres_disk_size > length buf then None
      else
        let rf = pr_decode (slice buf p pres_record_size);
            disk_mac = slice buf (p + pres_record_size) SEMANTICS_AR_MAC_SIZE;
            mac = sar_pres_mac_record mac_key rf prev
        in if \<not> sar_ct_equal mac disk_mac SEMANTICS_AR_MAC_SIZE then Some None
           else pres_verify_loop mac_key buf (p + pres_disk_size) n disk_mac)"

definition sar_preserve_verify ::
  "bytes \<Rightarrow> bytes \<Rightarrow> keystore_anchor option \<Rightarrow> (pres_status \<times> u64 option) option" where
  "sar_preserve_verify buf mac_key anchor =
     (if length buf < pres_header_size then Some (SAR_PRES_TRUNCATED, None)
      else
        let hdr = ph_decode buf
        in if ph_magic hdr \<noteq> SEMANTICS_AR_PRESERVE_MAGIC then Some (SAR_PRES_BAD_MAGIC, None)
           else if unat (ph_record_count hdr) > (length buf - pres_header_size) div pres_disk_size
           then Some (SAR_PRES_TRUNCATED, None)
           else if length buf \<noteq> unat (sar_preserve_serialized_size (ph_record_count hdr))
           then Some (SAR_PRES_COUNT_MISMATCH, None)
           else
             case pres_verify_loop mac_key buf pres_header_size (unat (ph_record_count hdr))
                    (sar_pres_mac_head mac_key (ph_generation hdr) (ph_record_count hdr)) of
               None \<Rightarrow> None
             | Some None \<Rightarrow> Some (SAR_PRES_RECORD_MAC, None)
             | Some (Some prev) \<Rightarrow>
                 if \<not> sar_ct_equal prev (ph_head_mac hdr) SEMANTICS_AR_MAC_SIZE
                 then Some (SAR_PRES_RECORD_MAC, None)
                 else
                   (case anchor of
                      None \<Rightarrow> Some (SAR_PRES_OK, Some (ph_record_count hdr))
                    | Some a \<Rightarrow>
                        if ka_present a \<and> ph_generation hdr < ka_generation a
                        then Some (SAR_PRES_ROLLBACK, None)
                        else if ka_present a \<and> ph_generation hdr = ka_generation a \<and>
                            \<not> sar_ct_equal (ph_head_mac hdr) (ka_head_mac a) SEMANTICS_AR_MAC_SIZE
                        then Some (SAR_PRES_ROLLBACK, None)
                        else Some (SAR_PRES_OK, Some (ph_record_count hdr))))"

section \<open>The byte layout\<close>

lemmas pres_sizes = pres_record_size_def pres_disk_size_def pres_header_size_def

lemma length_pr_encode [simp, sar_len]: "wf_pres_record r \<Longrightarrow> length (pr_encode r) = 1150"
  by (simp add: pr_encode_def wf_pres_record_def)

lemma pr_decode_encode: "wf_pres_record r \<Longrightarrow> pr_decode (pr_encode r) = r"
  by (cases r) (simp add: pr_decode_def pr_encode_def wf_pres_record_def slice_def le_load_store nth_append)

lemma pr_encode_decode:
  assumes "length b = 1150"
  shows "pr_encode (pr_decode b) = b"
proof -
  have "pr_encode (pr_decode b) = slice b 0 1150"
    using assms
    by (simp add: pr_encode_def pr_decode_def le_store_load path_bytes_of slice_single [of 572]
        slice_single [of 597] slice_join)
  then show ?thesis using assms by (simp add: slice_def)
qed

lemma wf_pr_decode: "length b = 1150 \<Longrightarrow> wf_pres_record (pr_decode b)"
  by (simp add: wf_pres_record_def pr_decode_def)

lemma length_ph_encode [simp, sar_len]: "length (ph_head_mac h) = 32 \<Longrightarrow> length (ph_encode h) = 52"
  by (simp add: ph_encode_def)

lemma ph_decode_encode: "length (ph_head_mac h) = 32 \<Longrightarrow> ph_decode (ph_encode h @ rest) = h"
  by (cases h) (simp add: ph_decode_def ph_encode_def slice_def le_load_store)

lemma ph_encode_decode:
  assumes "52 \<le> length b"
  shows "ph_encode (ph_decode b) = take 52 b"
proof -
  have "ph_encode (ph_decode b) = slice b 0 52"
    using assms by (simp add: ph_encode_def ph_decode_def le_store_load slice_join)
  then show ?thesis by (simp add: slice_def)
qed

lemma length_pres_macs [simp, sar_len]:
  "length (sar_pres_mac_record k r prev) = 32" "length (sar_pres_mac_head k g n) = 32"
  by (simp_all add: sar_pres_mac_record_def sar_pres_mac_head_def)

interpretation pres_chain: mac_chain pr_encode pr_decode wf_pres_record 1150
    "sar_pres_mac_record mac_key" "pres_verify_loop mac_key" for mac_key
  by unfold_locales
    (simp_all add: pr_decode_encode pr_encode_decode wf_pr_decode pres_sizes sar_sizes Let_def)

section \<open>The serialised image\<close>

definition pres_head :: "bytes \<Rightarrow> u64 \<Rightarrow> sar_preserve_record list \<Rightarrow> bytes" where
  "pres_head k g rs = chain_head (sar_pres_mac_record k) (sar_pres_mac_head k g (word_of_nat (length rs))) rs"

definition pres_body :: "bytes \<Rightarrow> u64 \<Rightarrow> sar_preserve_record list \<Rightarrow> bytes" where
  "pres_body k g rs =
     chain_body pr_encode (sar_pres_mac_record k) (sar_pres_mac_head k g (word_of_nat (length rs))) rs"

definition pres_hdr :: "bytes \<Rightarrow> u64 \<Rightarrow> sar_preserve_record list \<Rightarrow> sar_preserve_header" where
  "pres_hdr k g rs =
     \<lparr>ph_magic = SEMANTICS_AR_PRESERVE_MAGIC, ph_record_count = word_of_nat (length rs),
      ph_generation = g, ph_head_mac = pres_head k g rs\<rparr>"

definition pres_image :: "bytes \<Rightarrow> u64 \<Rightarrow> sar_preserve_record list \<Rightarrow> bytes" where
  "pres_image k g rs = ph_encode (pres_hdr k g rs) @ pres_body k g rs"

lemma length_pres_head [simp, sar_len]: "length (pres_head k g rs) = 32"
  by (simp add: pres_head_def pres_chain.head_length)

lemma length_pres_hdr_mac [simp, sar_len]: "length (ph_head_mac (pres_hdr k g rs)) = 32"
  by (simp add: pres_hdr_def)

lemma length_pres_image: "list_all wf_pres_record rs \<Longrightarrow> length (pres_image k g rs) = 52 + length rs * 1182"
  by (simp add: pres_image_def pres_body_def pres_chain.body_length)

lemma ph_decode_image: "ph_decode (pres_image k g rs) = pres_hdr k g rs"
  by (simp add: pres_image_def ph_decode_encode)

lemma unat_pres_serialized_size:
  assumes "52 + n * 1182 < 2 ^ 64"
  shows "unat (sar_preserve_serialized_size (word_of_nat n)) = 52 + n * 1182"
proof -
  have "sar_preserve_serialized_size (word_of_nat n) = word_of_nat (52 + n * 1182)"
    by (simp add: sar_preserve_serialized_size_def pres_sizes)
  then show ?thesis using unat_u64_of_nat [OF assms] by simp
qed

lemma sar_preserve_serialize_image:
  assumes "length rs < 2 ^ 64" "sar_preserve_serialized_size (word_of_nat (length rs)) \<le> out_cap"
  shows "sar_preserve_serialize k rs (word_of_nat (length rs)) g out_cap =
    (SAR_PRES_OK, sar_preserve_serialized_size (word_of_nat (length rs)), pres_image k g rs)"
proof -
  have "fold (pres_write_record k) rs ([], sar_pres_mac_head k g (word_of_nat (length rs))) =
      (pres_body k g rs, pres_head k g rs)"
    unfolding pres_write_record_def pres_body_def pres_head_def by (subst chain_fold) simp
  then show ?thesis
    using assms
    by (simp add: sar_preserve_serialize_def pres_image_def pres_hdr_def unat_u64_of_nat Let_def not_less)
qed

lemma sar_preserve_verify_image:
  assumes "list_all wf_pres_record rs" "52 + length rs * 1182 < 2 ^ 64"
  shows "sar_preserve_verify (pres_image k g rs) k anchor =
    (case anchor of
       None \<Rightarrow> Some (SAR_PRES_OK, Some (word_of_nat (length rs)))
     | Some a \<Rightarrow>
         if ka_present a \<and> (g < ka_generation a \<or> g = ka_generation a \<and>
              \<not> sar_ct_equal (pres_head k g rs) (ka_head_mac a) SEMANTICS_AR_MAC_SIZE)
         then Some (SAR_PRES_ROLLBACK, None)
         else Some (SAR_PRES_OK, Some (word_of_nat (length rs))))"
proof -
  have n: "unat (word_of_nat (length rs) :: u64) = length rs"
    using assms(2) by (intro unat_u64_of_nat) simp
  have "pres_verify_loop k (pres_image k g rs) pres_header_size (length rs)
      (sar_pres_mac_head k g (word_of_nat (length rs))) = Some (Some (pres_head k g rs))"
    using pres_chain.loop_body [OF assms(1), of "sar_pres_mac_head k g (word_of_nat (length rs))" k
        "ph_encode (pres_hdr k g rs)" "[]"]
    by (simp add: pres_image_def pres_sizes flip: pres_body_def pres_head_def)
  then show ?thesis
    using length_pres_image [OF assms(1), of k g] unat_pres_serialized_size [OF assms(2)] n
    by (cases anchor) (auto simp: sar_preserve_verify_def ph_decode_image pres_sizes Let_def pres_hdr_def)
qed

lemma sar_preserve_verify_OK:
  assumes "sar_preserve_verify buf k anchor = Some (SAR_PRES_OK, Some n)" "length buf < 2 ^ 64"
  obtains rs where "length rs = unat n" "list_all wf_pres_record rs"
    "buf = pres_image k (ph_generation (ph_decode buf)) rs"
proof -
  define h where "h = ph_decode buf"
  have len: "52 \<le> length buf" and magic: "ph_magic h = SEMANTICS_AR_PRESERVE_MAGIC"
    and fits: "unat (ph_record_count h) \<le> (length buf - 52) div 1182"
    and need: "length buf = unat (sar_preserve_serialized_size (ph_record_count h))"
    using assms(1)
    by (auto simp: sar_preserve_verify_def Let_def pres_sizes h_def [symmetric] not_less split: if_splits)
  then obtain prev where
    loop: "pres_verify_loop k buf 52 (unat (ph_record_count h))
      (sar_pres_mac_head k (ph_generation h) (ph_record_count h)) = Some (Some prev)"
    and head: "sar_ct_equal prev (ph_head_mac h) 32" and n: "n = ph_record_count h"
    using assms(1)
    by (auto simp: sar_preserve_verify_def Let_def pres_sizes sar_sizes h_def [symmetric]
        split: option.splits if_splits)
  have "52 + unat n * 1182 \<le> length buf"
    using fits len n by (simp add: less_eq_div_iff_mult_less_eq)
  then have total: "length buf = 52 + unat n * 1182"
    using need unat_pres_serialized_size [of "unat n"] assms(2) by (simp add: n)
  then obtain rs where rs: "length rs = unat n" "list_all wf_pres_record rs"
    "slice buf 52 (unat n * 1182) = pres_body k (ph_generation h) rs" "prev = pres_head k (ph_generation h) rs"
    using pres_chain.loop_Some [OF loop] by (auto simp: n pres_body_def pres_head_def)
  have "ph_head_mac h = pres_head k (ph_generation h) rs"
    using head rs(4) len by (simp add: sar_ct_equal_iff h_def ph_decode_def)
  then have "h = pres_hdr k (ph_generation h) rs"
    using magic rs(1) n by (cases h) (simp add: pres_hdr_def)
  moreover have "buf = ph_encode h @ pres_body k (ph_generation h) rs"
    unfolding rs(3) [symmetric] using len total by (simp add: h_def ph_encode_decode slice_def)
  ultimately have "buf = pres_image k (ph_generation h) rs"
    by (simp add: pres_image_def)
  then show thesis using that rs(1,2) by (simp add: h_def)
qed

section \<open>Properties\<close>

text \<open>
  C35: a serialised preserve index verifies, under every anchor that is absent, older, or of the same
  generation and chain head; under an anchor of a newer generation, or of the same generation with
  another chain head, it is reported as a rollback.
\<close>

theorem preserve_serialize_verify:
  assumes "list_all wf_pres_record rs" "52 + length rs * 1182 < 2 ^ 64"
    and "sar_preserve_serialized_size (word_of_nat (length rs)) \<le> cap"
  shows "\<exists>buf. sar_preserve_serialize k rs (word_of_nat (length rs)) g cap =
        (SAR_PRES_OK, word_of_nat (length buf), buf) \<and> length buf = 52 + 1182 * length rs \<and>
      sar_preserve_verify buf k None = Some (SAR_PRES_OK, Some (word_of_nat (length rs))) \<and>
      (\<forall>a. sar_preserve_verify buf k (Some a) =
        (if ka_present a \<and> (g < ka_generation a \<or> g = ka_generation a \<and>
              \<not> sar_ct_equal (ph_head_mac (ph_decode buf)) (ka_head_mac a) 32)
         then Some (SAR_PRES_ROLLBACK, None)
         else Some (SAR_PRES_OK, Some (word_of_nat (length rs)))))"
proof (intro exI conjI)
  show "sar_preserve_serialize k rs (word_of_nat (length rs)) g cap =
      (SAR_PRES_OK, word_of_nat (length (pres_image k g rs)), pres_image k g rs)"
    using assms length_pres_image [OF assms(1), of k g]
    by (simp add: sar_preserve_serialize_image sar_preserve_serialized_size_def pres_sizes)
qed (use assms in \<open>simp_all add: length_pres_image sar_preserve_verify_image ph_decode_image pres_hdr_def sar_sizes\<close>)

theorem preserve_serialize_verify_witness:
  "\<exists>buf. sar_preserve_serialize [] [pres_example 0 64] (word_of_nat (length [pres_example 0 64])) 7 4096 =
        (SAR_PRES_OK, word_of_nat (length buf), buf) \<and> length buf = 52 + 1182 * length [pres_example 0 64] \<and>
      sar_preserve_verify buf [] None = Some (SAR_PRES_OK, Some (word_of_nat (length [pres_example 0 64]))) \<and>
      (\<forall>a. sar_preserve_verify buf [] (Some a) =
        (if ka_present a \<and> (7 < ka_generation a \<or> 7 = ka_generation a \<and>
              \<not> sar_ct_equal (ph_head_mac (ph_decode buf)) (ka_head_mac a) 32)
         then Some (SAR_PRES_ROLLBACK, None)
         else Some (SAR_PRES_OK, Some (word_of_nat (length [pres_example 0 64])))))"
  by (rule preserve_serialize_verify) (simp_all add: sar_preserve_serialized_size_def pres_sizes)

text \<open>
  C24: for every buffer the verifier reads inside the buffer, and it accepts only serialisations: an
  accepted buffer is, byte for byte, what the serialiser writes under that MAC key for the records and
  the generation it holds.
\<close>

theorem preserve_verify_only_serialized:
  assumes "length buf < 2 ^ 64"
  shows "sar_preserve_verify buf k anchor \<noteq> None \<and>
    (\<forall>n. sar_preserve_verify buf k anchor = Some (SAR_PRES_OK, Some n) \<longrightarrow>
      (\<exists>rs. length rs = unat n \<and> list_all wf_pres_record rs \<and>
        sar_preserve_serialize k rs n (ph_generation (ph_decode buf)) (word_of_nat (length buf)) =
          (SAR_PRES_OK, word_of_nat (length buf), buf)))"
proof (intro conjI allI impI)
  let ?c = "ph_record_count (ph_decode buf)"
  show "sar_preserve_verify buf k anchor \<noteq> None"
  proof (cases "length buf < pres_header_size \<or> unat ?c > (length buf - pres_header_size) div pres_disk_size")
    case True
    then show ?thesis by (auto simp: sar_preserve_verify_def Let_def)
  next
    case False
    then have "pres_header_size + unat ?c * (1150 + 32) \<le> length buf"
      by (auto simp: pres_sizes not_less less_eq_div_iff_mult_less_eq)
    then have "pres_verify_loop k buf pres_header_size (unat ?c)
        (sar_pres_mac_head k (ph_generation (ph_decode buf)) ?c) \<noteq> None"
      by (rule pres_chain.loop_in_bounds)
    then obtain res where "pres_verify_loop k buf pres_header_size (unat ?c)
        (sar_pres_mac_head k (ph_generation (ph_decode buf)) ?c) = Some res" by blast
    then show ?thesis
      unfolding sar_preserve_verify_def Let_def by (cases anchor; cases res) simp_all
  qed
next
  fix n assume ok: "sar_preserve_verify buf k anchor = Some (SAR_PRES_OK, Some n)"
  obtain rs where rs: "length rs = unat n" "list_all wf_pres_record rs"
    "buf = pres_image k (ph_generation (ph_decode buf)) rs"
    using sar_preserve_verify_OK [OF ok assms] .
  have n: "n = word_of_nat (length rs)" using rs(1) by simp
  have "length buf = 52 + length rs * 1182"
    using rs(3) length_pres_image [OF rs(2)] by metis
  then have size: "word_of_nat (length buf) = sar_preserve_serialized_size n"
    using rs(1) by (simp add: sar_preserve_serialized_size_def pres_sizes)
  have "length rs < 2 ^ 64" using rs(1) unsigned_less [of n] by simp
  then have "sar_preserve_serialize k rs n (ph_generation (ph_decode buf)) (word_of_nat (length buf)) =
      (SAR_PRES_OK, word_of_nat (length buf), buf)"
    unfolding n using rs(3) size n by (simp add: sar_preserve_serialize_image)
  with rs show "\<exists>rs. length rs = unat n \<and> list_all wf_pres_record rs \<and>
        sar_preserve_serialize k rs n (ph_generation (ph_decode buf)) (word_of_nat (length buf)) =
          (SAR_PRES_OK, word_of_nat (length buf), buf)" by blast
qed

theorem preserve_verify_only_serialized_witness:
  "\<exists>rs. length rs = 1 \<and> list_all wf_pres_record rs \<and>
     sar_preserve_serialize [9] rs 1 (ph_generation (ph_decode (pres_image [9] 3 [pres_example 0 64])))
       (word_of_nat (length (pres_image [9] 3 [pres_example 0 64]))) =
     (SAR_PRES_OK, word_of_nat (length (pres_image [9] 3 [pres_example 0 64])), pres_image [9] 3 [pres_example 0 64])"
  using preserve_verify_only_serialized [of "pres_image [9] 3 [pres_example 0 64]" "[9]" None]
  by (auto simp: length_pres_image sar_preserve_verify_image)

end
