(* ===== verification/Block_Cipher.thy ===== *)
theory Block_Cipher
  imports Sar_Prelude
begin

text \<open>
  The interface the engine's modes rely on: a \<^verbatim>\<open>block_cipher_ctx_t\<close>
  (\<^verbatim>\<open>engine/include/conviction_engine.h\<close>) is a pair of functions and a block size. A C function of
  type \<^verbatim>\<open>block_cipher_fn\<close> returns a status and fills an output block, so the model returns both.

  The locale \<open>block_cipher\<close> states what every cipher of the engine promises its clients; each
  cipher theory interprets it on its own definitions. The locales \<open>reflected_rounds\<close> and
  \<open>feistel\<close> are the contracts that make decryption with reversed round keys work.
\<close>

type_synonym block_cipher_fn = "bytes \<Rightarrow> int \<times> bytes"

record block_cipher_ctx =
  bc_encrypt :: block_cipher_fn
  bc_decrypt :: block_cipher_fn
  bc_block_size :: nat

definition wf_bc :: "block_cipher_ctx \<Rightarrow> bool" where
  "wf_bc bc \<longleftrightarrow>
     bc_block_size bc \<in> {8, 16} \<and>
     (\<forall>x. fst (bc_encrypt bc x) = 1 \<and> fst (bc_decrypt bc x) = 1) \<and>
     (\<forall>x. length x = bc_block_size bc \<longrightarrow>
        length (snd (bc_encrypt bc x)) = bc_block_size bc \<and>
        length (snd (bc_decrypt bc x)) = bc_block_size bc \<and>
        snd (bc_decrypt bc (snd (bc_encrypt bc x))) = x \<and>
        snd (bc_encrypt bc (snd (bc_decrypt bc x))) = x)"

definition feistel_round :: "('k \<Rightarrow> 'h \<Rightarrow> 'h) \<Rightarrow> ('h \<Rightarrow> 'h \<Rightarrow> 'h) \<Rightarrow> 'k \<Rightarrow> 'h \<times> 'h \<Rightarrow> 'h \<times> 'h" where
  "feistel_round f xr k = (\<lambda>(l, r). (r, xr l (f k r)))"

section \<open>The block cipher contract\<close>

locale block_cipher =
  fixes valid :: "'ctx \<Rightarrow> bool"
    and encrypt :: "'ctx \<Rightarrow> block_cipher_fn"
    and decrypt :: "'ctx \<Rightarrow> block_cipher_fn"
    and bs :: nat
  assumes block_size: "bs \<in> {8, 16}"
    and encrypt_status: "fst (encrypt c x) = 1"
    and decrypt_status: "fst (decrypt c x) = 1"
    and encrypt_length: "valid c \<Longrightarrow> length x = bs \<Longrightarrow> length (snd (encrypt c x)) = bs"
    and decrypt_length: "valid c \<Longrightarrow> length x = bs \<Longrightarrow> length (snd (decrypt c x)) = bs"
    and decrypt_encrypt:
      "valid c \<Longrightarrow> length x = bs \<Longrightarrow> snd (decrypt c (snd (encrypt c x))) = x"
begin

lemma encrypt_inj:
  assumes "valid c"
  shows "inj_on (\<lambda>x. snd (encrypt c x)) {x. length x = bs}"
  by (rule inj_on_inverseI [where g = "\<lambda>y. snd (decrypt c y)"])
    (simp add: assms decrypt_encrypt)

lemma encrypt_surj:
  assumes "valid c"
  shows "(\<lambda>x. snd (encrypt c x)) ` {x. length x = bs} = {x. length x = bs}"
proof (rule endo_inj_surj)
  show "finite {x :: bytes. length x = bs}"
    using finite_lists_length_eq [of "UNIV :: u8 set" bs] by simp
qed (use assms in \<open>auto simp: encrypt_length encrypt_inj\<close>)

lemma encrypt_decrypt:
  assumes "valid c" "length x = bs"
  shows "snd (encrypt c (snd (decrypt c x))) = x"
proof -
  from assms encrypt_surj [of c] obtain y where "length y = bs" "x = snd (encrypt c y)"
    by auto
  with assms show ?thesis by (simp add: decrypt_encrypt)
qed

lemma wf_bc_ctx:
  assumes "valid c"
  shows "wf_bc \<lparr>bc_encrypt = encrypt c, bc_decrypt = decrypt c, bc_block_size = bs\<rparr>"
  using assms block_size
  by (simp add: wf_bc_def encrypt_status decrypt_status encrypt_length decrypt_length
      decrypt_encrypt encrypt_decrypt)

end

section \<open>The contract of a round function undone by its own reflection\<close>

text \<open>
  Decryption of 3DES, SEED, SM4 and Camellia runs the encryption rounds with the round keys
  reversed. That works for any round that is undone by itself, under the mirrored round key, once
  the state is reflected.
\<close>

locale reflected_rounds =
  fixes step :: "'k \<Rightarrow> 's \<Rightarrow> 's"
    and mirror :: "'k \<Rightarrow> 'k"
    and reflect :: "'s \<Rightarrow> 's"
  assumes step_reflect: "step (mirror k) (reflect (step k s)) = reflect s"
begin

lemma rounds_reflect:
  "fold step (map mirror (rev ks)) (reflect (fold step ks s)) = reflect s"
proof (induction ks arbitrary: s)
  case (Cons k ks)
  then show ?case by (simp add: step_reflect)
qed simp

lemma indexed_rounds_reflect:
  "fold (\<lambda>i. step (mirror (k (n - 1 - i)))) [0..<n]
     (reflect (fold (\<lambda>i. step (k i)) [0..<n] s)) = reflect s"
proof -
  have "rev (map k [0..<n]) = map (\<lambda>i. k (n - 1 - i)) [0..<n]"
    by (rule nth_equalityI) (auto simp: rev_nth)
  with rounds_reflect [of "map k [0..<n]" s] show ?thesis
    by (simp add: fold_map comp_def)
qed

end

locale feistel =
  fixes f :: "'k \<Rightarrow> 'h \<Rightarrow> 'h"
    and xr :: "'h \<Rightarrow> 'h \<Rightarrow> 'h"
  assumes xr_cancel: "xr (xr a b) b = a"

sublocale feistel \<subseteq> reflected_rounds "feistel_round f xr" "\<lambda>k. k" prod.swap
  by unfold_locales (simp add: feistel_round_def xr_cancel split: prod.splits)

section \<open>Facts on well-formed contexts\<close>

lemma wf_bcD:
  assumes "wf_bc bc"
  shows "bc_block_size bc \<in> {8, 16}"
    and "fst (bc_encrypt bc x) = 1" "fst (bc_decrypt bc x) = 1"
    and "length x = bc_block_size bc \<Longrightarrow> length (snd (bc_encrypt bc x)) = bc_block_size bc"
    and "length x = bc_block_size bc \<Longrightarrow> length (snd (bc_decrypt bc x)) = bc_block_size bc"
    and "length x = bc_block_size bc \<Longrightarrow> snd (bc_decrypt bc (snd (bc_encrypt bc x))) = x"
    and "length x = bc_block_size bc \<Longrightarrow> snd (bc_encrypt bc (snd (bc_decrypt bc x))) = x"
  using assms by (auto simp: wf_bc_def)

end
