(* ===== verification/Ctr_Layout.thy ===== *)
theory Ctr_Layout
  imports Sar_Prelude
begin

text \<open>
  The counter-block layouts of \<^verbatim>\<open>engine/src/ctr_layout.h\<close>: where the counter field lies in a block, its
  width and byte order; reading, writing and comparing blocks around that field. Writing a field and
  reading it back gives the value cut to the field width, and leaves the rest of the block alone.
\<close>

section \<open>Definitions\<close>

record sar_ctr_layout =
  ctr_offset :: nat
  ctr_width :: nat
  ctr_big_endian :: bool
  ctr_block_size :: nat

definition SAR_CTR_LAYOUT_COUNT :: nat where
  "SAR_CTR_LAYOUT_COUNT = 8"

definition SAR_CTR_LAYOUTS :: "sar_ctr_layout list" where
  "SAR_CTR_LAYOUTS =
     map (\<lambda>(off, w, be, bs). \<lparr>ctr_offset = off, ctr_width = w, ctr_big_endian = be, ctr_block_size = bs\<rparr>)
       [(12, 4, True, 16), (8, 8, False, 16), (8, 8, True, 16), (14, 2, True, 16), (0, 8, False, 16),
        (4, 4, True, 8), (0, 8, False, 8), (0, 8, True, 8)]"

definition sar_ctr_field_mask :: "nat \<Rightarrow> u64" where
  "sar_ctr_field_mask width = (if width \<ge> 8 then NOT 0 else push_bit (8 * width) 1 - 1)"

definition sar_ctr_field_read :: "bytes \<Rightarrow> sar_ctr_layout \<Rightarrow> u64" where
  "sar_ctr_field_read block L =
     (if ctr_big_endian L
      then fold (\<lambda>i v. push_bit 8 v OR ucast (block ! (ctr_offset L + i))) [0..<ctr_width L] 0
      else fold (\<lambda>i v. v OR push_bit (8 * i) (ucast (block ! (ctr_offset L + i)))) [0..<ctr_width L] 0)"

definition sar_ctr_field_write :: "bytes \<Rightarrow> sar_ctr_layout \<Rightarrow> u64 \<Rightarrow> bytes" where
  "sar_ctr_field_write block L v =
     (let v = v AND sar_ctr_field_mask (ctr_width L)
      in if ctr_big_endian L
         then fold (\<lambda>i b. b[ctr_offset L + ctr_width L - 1 - i := ucast (drop_bit (8 * i) v)])
                [0..<ctr_width L] block
         else fold (\<lambda>i b. b[ctr_offset L + i := ucast (drop_bit (8 * i) v)]) [0..<ctr_width L] block)"

definition sar_ctr_const_equal :: "bytes \<Rightarrow> bytes \<Rightarrow> sar_ctr_layout \<Rightarrow> bool" where
  "sar_ctr_const_equal a b L =
     list_all (\<lambda>i. i \<ge> ctr_offset L \<and> i < ctr_offset L + ctr_width L \<or> a ! i = b ! i)
       [0..<ctr_block_size L]"

section \<open>The field as a number\<close>

definition ctr_layout_ok :: "sar_ctr_layout \<Rightarrow> bool" where
  "ctr_layout_ok L \<longleftrightarrow> 0 < ctr_width L \<and> ctr_width L \<le> 8 \<and> ctr_offset L + ctr_width L \<le> ctr_block_size L"

lemma ctr_layouts_ok: "L \<in> set SAR_CTR_LAYOUTS \<Longrightarrow> ctr_layout_ok L"
  by (auto simp: SAR_CTR_LAYOUTS_def ctr_layout_ok_def)

lemma sar_ctr_field_mask_eq: "w \<le> 8 \<Longrightarrow> sar_ctr_field_mask w = mask (8 * w)"
  by (auto simp: sar_ctr_field_mask_def mask_eq_exp_minus_1 push_bit_eq_mult)

definition ctr_index :: "sar_ctr_layout \<Rightarrow> nat \<Rightarrow> nat" where
  "ctr_index L i = (if ctr_big_endian L then ctr_offset L + ctr_width L - 1 - i else ctr_offset L + i)"

lemma fold_update_length [simp]: "length (fold (\<lambda>i b. b[f i := g i]) is xs) = length xs"
  by (induction "is" arbitrary: xs) auto

lemma fold_update_other:
  "j \<notin> f ` set is \<Longrightarrow> fold (\<lambda>i b. b[f i := g i]) is xs ! j = xs ! j"
  by (induction "is" arbitrary: xs) auto

lemma fold_update_hit:
  "inj_on f {..<n} \<Longrightarrow> i < n \<Longrightarrow> f i < length xs \<Longrightarrow>
     fold (\<lambda>i b. b[f i := g i]) [0..<n] xs ! f i = g i"
proof (induction n)
  case (Suc n)
  then have "i \<noteq> n \<Longrightarrow> f n \<noteq> f i" by (auto simp: inj_on_def)
  with Suc show ?case by (cases "i = n") (auto simp: inj_on_def)
qed simp

lemma sar_ctr_field_write_fold:
  "sar_ctr_field_write block L v =
     fold (\<lambda>i b. b[ctr_index L i := ucast (drop_bit (8 * i) (v AND sar_ctr_field_mask (ctr_width L)))])
       [0..<ctr_width L] block"
  by (simp add: sar_ctr_field_write_def ctr_index_def Let_def)

lemma length_sar_ctr_field_write [simp, sar_len]: "length (sar_ctr_field_write block L v) = length block"
  by (simp add: sar_ctr_field_write_fold)

lemma inj_ctr_index: "inj_on (ctr_index L) {..<ctr_width L}"
  by (auto simp: inj_on_def ctr_index_def)

lemma ctr_index_image:
  "ctr_index L ` {0..<ctr_width L} = {ctr_offset L..<ctr_offset L + ctr_width L}"
proof (cases "ctr_big_endian L")
  case True
  then have "i \<in> ctr_index L ` {0..<ctr_width L}"
    if "ctr_offset L \<le> i" "i < ctr_offset L + ctr_width L" for i
    using that by (intro image_eqI [of _ _ "ctr_offset L + ctr_width L - 1 - i"])
      (auto simp: ctr_index_def)
  with True show ?thesis by (auto simp: ctr_index_def)
qed (auto simp: ctr_index_def)

lemma sar_ctr_field_write_other:
  "\<not> (ctr_offset L \<le> j \<and> j < ctr_offset L + ctr_width L) \<Longrightarrow> sar_ctr_field_write b L v ! j = b ! j"
  unfolding sar_ctr_field_write_fold
  by (rule fold_update_other) (simp add: ctr_index_image)

lemma sar_ctr_field_write_hit:
  assumes "i < ctr_width L" "ctr_width L \<le> 8" "ctr_offset L + ctr_width L \<le> length b"
  shows "sar_ctr_field_write b L v ! ctr_index L i = ucast (drop_bit (8 * i) v)"
proof -
  have "ctr_index L i < length b" using assms by (auto simp: ctr_index_def)
  moreover have "(ucast (drop_bit (8 * i) (v AND mask (8 * ctr_width L))) :: u8) = ucast (drop_bit (8 * i) v)"
    using assms(1,2) by (intro bit_word_eqI)
      (auto simp: bit_unsigned_iff bit_drop_bit_eq bit_and_iff bit_mask_iff)
  ultimately show ?thesis
    unfolding sar_ctr_field_write_fold sar_ctr_field_mask_eq [OF assms(2)]
    by (subst fold_update_hit [OF inj_ctr_index assms(1)]) simp_all
qed

lemma bit_fold_be:
  "bit (fold (\<lambda>i v. push_bit 8 v OR ucast (h i :: u8)) [0..<n] (0 :: u64)) k \<longleftrightarrow>
     k < 64 \<and> k < 8 * n \<and> bit (h (n - 1 - k div 8)) (k mod 8)"
proof (induction n arbitrary: k)
  case (Suc n)
  show ?case
  proof (cases "k < 8")
    case True
    then show ?thesis by (auto simp: bit_simps)
  next
    case False
    then have "k div 8 = Suc ((k - 8) div 8)" "k mod 8 = (k - 8) mod 8" "\<not> bit (h n) k"
      by (auto simp: le_div_geq le_mod_geq bit_u8_above)
    then show ?thesis using Suc.IH [of "k - 8"] False by (auto simp: bit_simps)
  qed
qed simp

lemma bit_sar_ctr_field_read:
  assumes "ctr_width L \<le> 8"
  shows "bit (sar_ctr_field_read b L) k \<longleftrightarrow>
    k < 8 * ctr_width L \<and> bit (b ! ctr_index L (k div 8)) (k mod 8)"
proof (cases "k < 8 * ctr_width L")
  case True
  then have "ctr_offset L + (ctr_width L - Suc (k div 8)) = ctr_offset L + ctr_width L - 1 - k div 8"
    by (simp add: less_mult_imp_div_less mult.commute Suc_leI)
  then show ?thesis
    using True assms by (auto simp: sar_ctr_field_read_def ctr_index_def bit_fold_le bit_fold_be)
next
  case False
  then show ?thesis
    by (auto simp: sar_ctr_field_read_def ctr_index_def bit_fold_le bit_fold_be)
qed

lemma ctr_index_read_write:
  assumes "ctr_width L \<le> 8" "ctr_offset L + ctr_width L \<le> length b"
  shows "sar_ctr_field_read (sar_ctr_field_write b L v) L = v AND sar_ctr_field_mask (ctr_width L)"
proof (rule bit_word_eqI)
  fix k
  have "k < 8 * ctr_width L \<Longrightarrow> k div 8 < ctr_width L" by (simp add: less_mult_imp_div_less mult.commute)
  moreover have "8 * (k div 8) + k mod 8 = k" by simp
  ultimately show "bit (sar_ctr_field_read (sar_ctr_field_write b L v) L) k =
      bit (v AND sar_ctr_field_mask (ctr_width L)) k"
    using assms by (auto simp: bit_sar_ctr_field_read sar_ctr_field_write_hit sar_ctr_field_mask_eq
        bit_unsigned_iff bit_drop_bit_eq bit_and_iff bit_mask_iff)
qed

lemma sar_ctr_field_eqI:
  assumes "length a = length b" "ctr_offset L + ctr_width L \<le> length b"
    and "\<And>j. j < length b \<Longrightarrow> \<not> (ctr_offset L \<le> j \<and> j < ctr_offset L + ctr_width L) \<Longrightarrow> a ! j = b ! j"
    and "\<And>i. i < ctr_width L \<Longrightarrow> a ! ctr_index L i = b ! ctr_index L i"
  shows "a = b"
proof (rule nth_equalityI [OF assms(1)])
  fix j assume j: "j < length a"
  show "a ! j = b ! j"
  proof (cases "ctr_offset L \<le> j \<and> j < ctr_offset L + ctr_width L")
    case True
    then have "j \<in> ctr_index L ` {0..<ctr_width L}" by (simp add: ctr_index_image)
    then show ?thesis using assms(4) by auto
  qed (use assms j in auto)
qed

lemma sar_ctr_field_write_read:
  assumes "ctr_width L \<le> 8" "ctr_offset L + ctr_width L \<le> length b"
  shows "sar_ctr_field_write b L (sar_ctr_field_read b L) = b"
proof (rule sar_ctr_field_eqI [where L = L])
  fix i assume i: "i < ctr_width L"
  have "ucast (drop_bit (8 * i) (sar_ctr_field_read b L)) = b ! ctr_index L i"
  proof (rule bit_word_eqI)
    fix k assume "k < LENGTH(8)"
    then have "(8 * i + k) div 8 = i" "(8 * i + k) mod 8 = k" "8 * i + k < 8 * ctr_width L"
      using i by auto
    then show "bit (ucast (drop_bit (8 * i) (sar_ctr_field_read b L)) :: u8) k = bit (b ! ctr_index L i) k"
      using assms \<open>k < LENGTH(8)\<close>
      by (simp add: bit_unsigned_iff bit_drop_bit_eq bit_sar_ctr_field_read)
  qed
  then show "sar_ctr_field_write b L (sar_ctr_field_read b L) ! ctr_index L i = b ! ctr_index L i"
    using i assms by (simp add: sar_ctr_field_write_hit)
qed (use assms in \<open>simp_all add: sar_ctr_field_write_other\<close>)

lemma sar_ctr_field_write_write:
  assumes "ctr_width L \<le> 8" "ctr_offset L + ctr_width L \<le> length b"
  shows "sar_ctr_field_write (sar_ctr_field_write b L u) L v = sar_ctr_field_write b L v"
  by (rule sar_ctr_field_eqI [where L = L])
    (use assms in \<open>simp_all add: sar_ctr_field_write_other sar_ctr_field_write_hit\<close>)

lemma sar_ctr_field_write_mask:
  "sar_ctr_field_write b L (v AND sar_ctr_field_mask (ctr_width L)) = sar_ctr_field_write b L v"
  by (simp add: sar_ctr_field_write_fold and.assoc)

lemma take_bit_diff_left: "take_bit k (take_bit k x - n) = take_bit k (x - n :: int)"
  using take_bit_diff [of k "take_bit k x" n] take_bit_diff [of k x n] by simp

lemma mask_diff: "(((v + n) AND mask m) - n) AND mask m = v AND (mask m :: 'a::len word)"
proof -
  have "take_bit m (take_bit m (v + n) - n) = take_bit m v"
    by transfer (simp add: take_bit_diff_left)
  then show ?thesis by (simp add: take_bit_eq_mask)
qed

text \<open>
  Stepping the counter of a block by \<^term>\<open>n\<close> and back gives the block.
\<close>

lemma sar_ctr_step_back:
  assumes "ctr_layout_ok L" "length b = ctr_block_size L"
    and c_def: "c = sar_ctr_field_write b L (sar_ctr_field_read b L + n)"
  shows "sar_ctr_field_write c L (sar_ctr_field_read c L - n) = b"
proof -
  have ok: "ctr_width L \<le> 8" "ctr_offset L + ctr_width L \<le> length b"
    using assms by (auto simp: ctr_layout_ok_def)
  define v where "v = sar_ctr_field_read b L"
  have "sar_ctr_field_write c L (sar_ctr_field_read c L - n) =
      sar_ctr_field_write b L (((v + n) AND sar_ctr_field_mask (ctr_width L)) - n)"
    using ok by (simp add: c_def v_def ctr_index_read_write sar_ctr_field_write_write)
  also have "\<dots> = sar_ctr_field_write b L v"
    using ok(1) by (subst (1 2) sar_ctr_field_write_mask [symmetric])
      (simp add: sar_ctr_field_mask_eq mask_diff)
  also have "\<dots> = b" using ok by (simp add: v_def sar_ctr_field_write_read)
  finally show ?thesis .
qed

lemma sar_ctr_const_equal_write:
  "ctr_layout_ok L \<Longrightarrow> sar_ctr_const_equal (sar_ctr_field_write b L u) (sar_ctr_field_write b L v) L"
  unfolding sar_ctr_const_equal_def list_all_iff by (metis sar_ctr_field_write_other)

lemma sar_ctr_const_equal_eq:
  assumes "sar_ctr_const_equal a b L" "ctr_layout_ok L"
    and "length a = ctr_block_size L" "length b = ctr_block_size L"
  shows "b = sar_ctr_field_write a L (sar_ctr_field_read b L)"
proof (rule sar_ctr_field_eqI [where L = L])
  fix i assume i: "i < ctr_width L"
  have "sar_ctr_field_write b L (sar_ctr_field_read b L) ! ctr_index L i = b ! ctr_index L i"
    using assms by (simp add: ctr_layout_ok_def sar_ctr_field_write_read)
  then show "b ! ctr_index L i = sar_ctr_field_write a L (sar_ctr_field_read b L) ! ctr_index L i"
    using i assms by (simp add: ctr_layout_ok_def sar_ctr_field_write_hit)
qed (use assms in \<open>auto simp: sar_ctr_const_equal_def list_all_iff ctr_layout_ok_def sar_ctr_field_write_other\<close>)

end
