(* ===== verification/Modes.thy ===== *)
theory Modes
  imports Block_Cipher Ctr_Layout Engine_Format
begin

text \<open>
  The mode search of \<^verbatim>\<open>engine/src/modes.c\<close>: given a block cipher keyed with a candidate key and a
  plaintext/ciphertext sample, find the mode of operation that relates the two and derive the
  initialisation vector. The forward relation of each mode is stated with encryption only; the
  search accepts a mode exactly when that relation holds on a window of the sample.
\<close>

section \<open>Definitions\<close>

record sar_iv_out =
  iv_bytes :: bytes
  iv_length :: nat
  iv_tag :: nat

definition iv_clear :: "sar_iv_out option \<Rightarrow> sar_iv_out option" where
  "iv_clear iv = map_option (\<lambda>_. \<lparr>iv_bytes = replicate SEMANTICS_AR_IV_MAX 0, iv_length = 0, iv_tag = 0\<rparr>) iv"

definition gf128_step :: "nat \<Rightarrow> bytes \<times> u8 \<Rightarrow> bytes \<times> u8" where
  "gf128_step i = (\<lambda>(tweak, carry).
     let next_carry = drop_bit 7 (tweak ! i) AND 1
     in (tweak[i := push_bit 1 (tweak ! i) OR carry], next_carry))"

definition gf128_mul_alpha :: "bytes \<Rightarrow> bytes" where
  "gf128_mul_alpha tweak =
     (let (tweak, carry) = fold gf128_step [0..<16] (tweak, 0)
      in if carry \<noteq> 0 then tweak[0 := tweak ! 0 XOR 0x87] else tweak)"

definition sar_be_eq :: "bytes \<Rightarrow> bytes \<Rightarrow> nat \<Rightarrow> bool" where
  "sar_be_eq a b n = list_all (\<lambda>i. a ! i = b ! i) [0..<n]"

text \<open>
  The shifts \<^term>\<open>s\<close> the search loops \<^verbatim>\<open>for (s = 0; s < bs && s + span <= len; s++)\<close> go through.
\<close>

definition window_shifts :: "nat \<Rightarrow> nat \<Rightarrow> nat \<Rightarrow> nat list" where
  "window_shifts bs span len = filter (\<lambda>s. s + span \<le> len) [0..<bs]"

definition ecb_match :: "block_cipher_ctx \<Rightarrow> bytes \<Rightarrow> bytes \<Rightarrow> nat \<Rightarrow> bool" where
  "ecb_match bc pt ct s =
     (let bs = bc_block_size bc; (r, out) = bc_encrypt bc (slice pt s bs)
      in r \<noteq> 0 \<and> sar_be_eq out (drop s ct) bs)"

definition generic_ecb :: "block_cipher_ctx \<Rightarrow> bytes \<Rightarrow> bytes \<Rightarrow> nat \<Rightarrow> bool" where
  "generic_ecb bc pt ct len =
     list_ex (ecb_match bc pt ct) (window_shifts (bc_block_size bc) (bc_block_size bc) len)"

definition iv_store :: "bytes \<Rightarrow> nat \<Rightarrow> sar_iv_out \<Rightarrow> sar_iv_out" where
  "iv_store b bs iv = iv\<lparr>iv_bytes := take bs b @ drop bs (iv_bytes iv), iv_length := bs\<rparr>"

definition cbc_match :: "block_cipher_ctx \<Rightarrow> bytes \<Rightarrow> bytes \<Rightarrow> nat \<Rightarrow> bool" where
  "cbc_match bc pt ct s =
     (let bs = bc_block_size bc; (r, dec) = bc_decrypt bc (slice ct (s + bs) bs)
      in r \<noteq> 0 \<and> list_all (\<lambda>i. dec ! i XOR ct ! (s + i) = pt ! (s + bs + i)) [0..<bs])"

definition generic_cbc ::
  "block_cipher_ctx \<Rightarrow> bytes \<Rightarrow> bytes \<Rightarrow> nat \<Rightarrow> u64 \<Rightarrow> sar_iv_out option \<Rightarrow> bool \<times> sar_iv_out option" where
  "generic_cbc bc pt ct len file_offset iv =
     (let bs = bc_block_size bc
      in case find (cbc_match bc pt ct) (window_shifts bs (2 * bs) len) of
           None \<Rightarrow> (False, iv)
         | Some s \<Rightarrow>
             (True,
              if file_offset = 0 then
                map_option (\<lambda>iv. let (r, dec) = bc_decrypt bc (take bs ct)
                  in if r \<noteq> 0 then iv_store (xor_bytes dec (take bs pt)) bs iv else iv) iv
              else iv))"

definition cfb_match :: "block_cipher_ctx \<Rightarrow> bytes \<Rightarrow> bytes \<Rightarrow> nat \<Rightarrow> bool" where
  "cfb_match bc pt ct s =
     (let bs = bc_block_size bc; (r, enc) = bc_encrypt bc (slice ct s bs)
      in r \<noteq> 0 \<and> list_all (\<lambda>i. enc ! i XOR ct ! (s + bs + i) = pt ! (s + bs + i)) [0..<bs])"

definition generic_cfb ::
  "block_cipher_ctx \<Rightarrow> bytes \<Rightarrow> bytes \<Rightarrow> nat \<Rightarrow> u64 \<Rightarrow> sar_iv_out option \<Rightarrow> bool \<times> sar_iv_out option" where
  "generic_cfb bc pt ct len file_offset iv =
     (let bs = bc_block_size bc
      in case find (cfb_match bc pt ct) (window_shifts bs (2 * bs) len) of
           None \<Rightarrow> (False, iv)
         | Some s \<Rightarrow>
             (True,
              if file_offset = 0 then
                map_option (\<lambda>iv. let (r, b) = bc_decrypt bc (xor_bytes (take bs pt) (take bs ct))
                  in if r \<noteq> 0 then iv_store b bs iv else iv) iv
              else iv))"

definition window_ks :: "bytes \<Rightarrow> bytes \<Rightarrow> nat \<Rightarrow> nat \<Rightarrow> bytes" where
  "window_ks pt ct s bs = xor_bytes (slice pt s bs) (slice ct s bs)"

definition ofb_match :: "block_cipher_ctx \<Rightarrow> bytes \<Rightarrow> bytes \<Rightarrow> nat \<Rightarrow> bool" where
  "ofb_match bc pt ct s =
     (let bs = bc_block_size bc;
          ks0 = window_ks pt ct s bs; ks1 = window_ks pt ct (s + bs) bs;
          (r, enc) = bc_encrypt bc ks0
      in r \<noteq> 0 \<and> sar_be_eq enc ks1 bs)"

primrec ofb_back :: "block_cipher_ctx \<Rightarrow> nat \<Rightarrow> bytes \<Rightarrow> bytes option" where
  "ofb_back bc 0 cur = Some cur"
| "ofb_back bc (Suc n) cur =
     (let (r, prev) = bc_decrypt bc cur in if r = 0 then None else ofb_back bc n prev)"

definition generic_ofb ::
  "block_cipher_ctx \<Rightarrow> bytes \<Rightarrow> bytes \<Rightarrow> nat \<Rightarrow> u64 \<Rightarrow> sar_iv_out option \<Rightarrow> bool \<times> sar_iv_out option" where
  "generic_ofb bc pt ct len file_offset iv =
     (let bs = bc_block_size bc
      in case find (ofb_match bc pt ct) (window_shifts bs (2 * bs) len) of
           None \<Rightarrow> (False, iv)
         | Some s \<Rightarrow>
             (True,
              map_option (\<lambda>iv.
                let blk = unat ((file_offset + word_of_nat s) div word_of_nat bs)
                in case ofb_back bc blk (window_ks pt ct s bs) of
                     None \<Rightarrow> iv
                   | Some cur \<Rightarrow>
                       let (r, b) = bc_decrypt bc cur in if r \<noteq> 0 then iv_store b bs iv else iv) iv))"

definition ctr_match :: "block_cipher_ctx \<Rightarrow> bytes \<Rightarrow> bytes \<Rightarrow> nat \<times> nat \<Rightarrow> bool" where
  "ctr_match bc pt ct = (\<lambda>(s, t).
     let bs = bc_block_size bc;
         ks0 = window_ks pt ct s bs; ks1 = window_ks pt ct (s + bs) bs;
         (r0, c0) = bc_decrypt bc ks0; (r1, c1) = bc_decrypt bc ks1;
         L = SAR_CTR_LAYOUTS ! t;
         v0 = sar_ctr_field_read c0 L; v1 = sar_ctr_field_read c1 L
     in r0 \<noteq> 0 \<and> r1 \<noteq> 0 \<and> ctr_block_size L = bs \<and> sar_ctr_const_equal c0 c1 L \<and>
        (v0 + 1) AND sar_ctr_field_mask (ctr_width L) = v1)"

definition generic_ctr ::
  "block_cipher_ctx \<Rightarrow> bytes \<Rightarrow> bytes \<Rightarrow> nat \<Rightarrow> u64 \<Rightarrow> sar_iv_out option \<Rightarrow> bool \<times> sar_iv_out option" where
  "generic_ctr bc pt ct len file_offset iv =
     (let bs = bc_block_size bc
      in case find (ctr_match bc pt ct)
             (List.product (window_shifts bs (2 * bs) len) [0..<SAR_CTR_LAYOUT_COUNT]) of
           None \<Rightarrow> (False, iv)
         | Some (s, t) \<Rightarrow>
             (True,
              map_option (\<lambda>iv.
                let blk = (file_offset + word_of_nat s) div word_of_nat bs;
                    L = SAR_CTR_LAYOUTS ! t;
                    c0 = snd (bc_decrypt bc (window_ks pt ct s bs));
                    iv = iv_store c0 bs iv
                in iv\<lparr>iv_bytes := sar_ctr_field_write (iv_bytes iv) L (sar_ctr_field_read c0 L - blk),
                      iv_tag := t + 1\<rparr>) iv))"

definition engine_try_block_modes ::
  "block_cipher_ctx \<Rightarrow> bytes \<Rightarrow> bytes \<Rightarrow> nat \<Rightarrow> u64 \<Rightarrow> sar_iv_out option
     \<Rightarrow> u32 option \<times> sar_iv_out option" where
  "engine_try_block_modes bc pt ct len file_offset out_iv =
     (let iv = iv_clear out_iv
      in if generic_ecb bc pt ct len then (Some SAR_MODE_ECB, iv)
         else if len \<ge> 2 * bc_block_size bc then
           let (r, iv) = generic_cbc bc pt ct len file_offset iv
           in if r then (Some SAR_MODE_CBC, iv)
              else let (r, iv) = generic_cfb bc pt ct len file_offset iv
              in if r then (Some SAR_MODE_CFB, iv)
                 else let (r, iv) = generic_ofb bc pt ct len file_offset iv
                 in if r then (Some SAR_MODE_OFB, iv)
                    else let (r, iv) = generic_ctr bc pt ct len file_offset iv
                    in if r then (Some SAR_MODE_CTR, iv) else (None, iv)
         else (None, iv))"

definition xts_tweak_in :: "u64 \<Rightarrow> bytes" where
  "xts_tweak_in data_unit = map (\<lambda>i. ucast (drop_bit (8 * i) data_unit)) [0..<8] @ replicate 8 0"

definition xts_tweak_match ::
  "block_cipher_ctx \<Rightarrow> block_cipher_ctx \<Rightarrow> u64 \<Rightarrow> nat \<Rightarrow> bytes \<Rightarrow> bytes \<Rightarrow> bool" where
  "xts_tweak_match bc1 bc2 data_unit block_in_unit pt ct =
     (let (r2, tweak) = bc_encrypt bc2 (xts_tweak_in data_unit);
          tweak = fold (\<lambda>_. gf128_mul_alpha) [0..<block_in_unit] tweak;
          (r1, enc) = bc_encrypt bc1 (xor_bytes (take 16 pt) tweak)
      in r2 \<noteq> 0 \<and> r1 \<noteq> 0 \<and> sar_be_eq (xor_bytes enc tweak) ct 16)"

definition engine_verify_xts ::
  "block_cipher_ctx \<Rightarrow> block_cipher_ctx \<Rightarrow> bytes \<Rightarrow> bytes \<Rightarrow> nat \<Rightarrow> u64 \<Rightarrow> u64 option" where
  "engine_verify_xts bc1 bc2 pt ct len file_offset =
     (let skip = unat ((16 - (file_offset AND 15)) AND 15)
      in if skip + 16 > len then None
         else
           let aligned = file_offset + word_of_nat skip
           in find (\<lambda>du. xts_tweak_match bc1 bc2 (aligned div du) (unat ((aligned mod du) div 16))
                          (drop skip pt) (drop skip ct)) [512, 4096])"

section \<open>The forward relations\<close>

abbreviation bc_E :: "block_cipher_ctx \<Rightarrow> bytes \<Rightarrow> bytes" where
  "bc_E bc x \<equiv> snd (bc_encrypt bc x)"

abbreviation bc_D :: "block_cipher_ctx \<Rightarrow> bytes \<Rightarrow> bytes" where
  "bc_D bc x \<equiv> snd (bc_decrypt bc x)"

definition ctr_step :: "sar_ctr_layout \<Rightarrow> u64 \<Rightarrow> bytes \<Rightarrow> bytes" where
  "ctr_step L n c = sar_ctr_field_write c L (sar_ctr_field_read c L + n)"

text \<open>
  What it means that a mode produced the ciphertext window at shift \<^term>\<open>s\<close>: the block cipher, run
  forward on what the mode feeds it, gives the ciphertext.
\<close>

definition mode_forward :: "block_cipher_ctx \<Rightarrow> u32 \<Rightarrow> bytes \<Rightarrow> bytes \<Rightarrow> nat \<Rightarrow> bool" where
  "mode_forward bc m pt ct s =
     (let bs = bc_block_size bc;
          P0 = slice pt s bs; C0 = slice ct s bs;
          P1 = slice pt (s + bs) bs; C1 = slice ct (s + bs) bs;
          K0 = window_ks pt ct s bs; K1 = window_ks pt ct (s + bs) bs
      in if m = SAR_MODE_ECB then bc_E bc P0 = C0
         else if m = SAR_MODE_CBC then bc_E bc (xor_bytes P1 C0) = C1
         else if m = SAR_MODE_CFB then xor_bytes P1 (bc_E bc C0) = C1
         else if m = SAR_MODE_OFB then bc_E bc K0 = K1
         else if m = SAR_MODE_CTR then
           list_ex (\<lambda>L. ctr_block_size L = bs \<and> bc_E bc (ctr_step L 1 (bc_D bc K0)) = K1) SAR_CTR_LAYOUTS
         else False)"

definition mode_span :: "block_cipher_ctx \<Rightarrow> u32 \<Rightarrow> nat" where
  "mode_span bc m = (if m = SAR_MODE_ECB then bc_block_size bc else 2 * bc_block_size bc)"

definition mode_seen :: "block_cipher_ctx \<Rightarrow> bytes \<Rightarrow> bytes \<Rightarrow> nat \<Rightarrow> u32 \<Rightarrow> bool" where
  "mode_seen bc pt ct len m =
     list_ex (mode_forward bc m pt ct) (window_shifts (bc_block_size bc) (mode_span bc m) len)"

definition engine_modes :: "u32 list" where
  "engine_modes = [SAR_MODE_ECB, SAR_MODE_CBC, SAR_MODE_CFB, SAR_MODE_OFB, SAR_MODE_CTR]"

lemma sar_be_eq_iff: "n \<le> length a \<Longrightarrow> n \<le> length b \<Longrightarrow> sar_be_eq a b n \<longleftrightarrow> take n a = take n b"
  by (auto simp: sar_be_eq_def list_all_iff list_eq_iff_nth_eq)

lemma list_all_slice:
  assumes "length a = n" "s + n \<le> length b"
  shows "list_all (\<lambda>i. a ! i = b ! (s + i)) [0..<n] \<longleftrightarrow> a = slice b s n"
proof -
  have "list_all (\<lambda>i. a ! i = b ! (s + i)) [0..<n] \<longleftrightarrow> (\<forall>i<n. a ! i = slice b s n ! i)"
    using assms(2) by (auto simp: list_all_iff nth_slice)
  also have "\<dots> \<longleftrightarrow> a = slice b s n"
    using assms by (simp add: list_eq_iff_nth_eq)
  finally show ?thesis .
qed

lemma length_window_ks [simp, sar_len]:
  "s + bs \<le> length pt \<Longrightarrow> s + bs \<le> length ct \<Longrightarrow> length (window_ks pt ct s bs) = bs"
  by (simp add: window_ks_def)

lemma bc_E_eq_iff:
  assumes "wf_bc bc" "length x = bc_block_size bc" "length y = bc_block_size bc"
  shows "bc_E bc x = y \<longleftrightarrow> bc_D bc y = x"
proof
  assume "bc_E bc x = y"
  then show "bc_D bc y = x" using wf_bcD(6) [OF assms(1,2)] by simp
next
  assume "bc_D bc y = x"
  then show "bc_E bc x = y" using wf_bcD(7) [OF assms(1,3)] by simp
qed

lemma window_shiftsD: "s \<in> set (window_shifts bs span len) \<longleftrightarrow> s < bs \<and> s + span \<le> len"
  by (auto simp: window_shifts_def)

lemma xor_bytes_swap:
  "length a = n \<Longrightarrow> length b = n \<Longrightarrow> length c = n \<Longrightarrow> xor_bytes a b = c \<longleftrightarrow> a = xor_bytes c b"
  using xor_bytes_cancel_right [of a b] xor_bytes_cancel_right [of c b] by auto

lemma ecb_match_iff:
  assumes "wf_bc bc" "s + mode_span bc SAR_MODE_ECB \<le> length pt" "s + mode_span bc SAR_MODE_ECB \<le> length ct"
  shows "ecb_match bc pt ct s \<longleftrightarrow> mode_forward bc SAR_MODE_ECB pt ct s"
proof -
  have "length (bc_E bc (slice pt s (bc_block_size bc))) = bc_block_size bc"
    using assms by (intro wf_bcD) (simp_all add: mode_span_def)
  then show ?thesis
    using assms wf_bcD(2) [OF assms(1)]
    by (simp add: ecb_match_def mode_forward_def mode_span_def sar_be_eq_iff slice_def case_prod_unfold Let_def)
qed

lemma cbc_match_iff:
  assumes "wf_bc bc" "s + mode_span bc SAR_MODE_CBC \<le> length pt" "s + mode_span bc SAR_MODE_CBC \<le> length ct"
  shows "cbc_match bc pt ct s \<longleftrightarrow> mode_forward bc SAR_MODE_CBC pt ct s"
proof -
  define bs where "bs = bc_block_size bc"
  define d where "d = bc_D bc (slice ct (s + bs) bs)"
  have len: "s + 2 * bs \<le> length pt" "s + 2 * bs \<le> length ct"
    using assms by (simp_all add: mode_span_def bs_def)
  have d: "length d = bs"
    using assms(1) len by (simp add: d_def bs_def wf_bcD)
  have "cbc_match bc pt ct s \<longleftrightarrow> list_all (\<lambda>i. xor_bytes d (slice ct s bs) ! i = pt ! (s + bs + i)) [0..<bs]"
    using wf_bcD(3) [OF assms(1)] len d
    by (simp add: cbc_match_def case_prod_unfold Let_def list_all_iff nth_xor_bytes nth_slice
        flip: bs_def d_def)
  also have "\<dots> \<longleftrightarrow> xor_bytes d (slice ct s bs) = slice pt (s + bs) bs"
    using d len by (intro list_all_slice) simp_all
  also have "\<dots> \<longleftrightarrow> d = xor_bytes (slice pt (s + bs) bs) (slice ct s bs)"
    using d len by (intro xor_bytes_swap) simp_all
  also have "\<dots> \<longleftrightarrow> bc_E bc (xor_bytes (slice pt (s + bs) bs) (slice ct s bs)) = slice ct (s + bs) bs"
    unfolding d_def using assms(1) len by (intro bc_E_eq_iff [symmetric]) (simp_all add: bs_def)
  finally show ?thesis by (simp add: mode_forward_def Let_def bs_def)
qed

lemma cfb_match_iff:
  assumes "wf_bc bc" "s + mode_span bc SAR_MODE_CFB \<le> length pt" "s + mode_span bc SAR_MODE_CFB \<le> length ct"
  shows "cfb_match bc pt ct s \<longleftrightarrow> mode_forward bc SAR_MODE_CFB pt ct s"
proof -
  define bs where "bs = bc_block_size bc"
  define e where "e = bc_E bc (slice ct s bs)"
  have len: "s + 2 * bs \<le> length pt" "s + 2 * bs \<le> length ct"
    using assms by (simp_all add: mode_span_def bs_def)
  have e: "length e = bs"
    using assms(1) len by (simp add: e_def bs_def wf_bcD)
  have "cfb_match bc pt ct s \<longleftrightarrow>
      list_all (\<lambda>i. xor_bytes e (slice ct (s + bs) bs) ! i = pt ! (s + bs + i)) [0..<bs]"
    using wf_bcD(2) [OF assms(1)] len e
    by (simp add: cfb_match_def case_prod_unfold Let_def list_all_iff nth_xor_bytes nth_slice
        flip: bs_def e_def)
  also have "\<dots> \<longleftrightarrow> xor_bytes e (slice ct (s + bs) bs) = slice pt (s + bs) bs"
    using e len by (intro list_all_slice) simp_all
  also have "\<dots> \<longleftrightarrow> xor_bytes (slice pt (s + bs) bs) e = slice ct (s + bs) bs"
    using e len xor_bytes_swap [of "slice ct (s + bs) bs" bs e "slice pt (s + bs) bs"]
    by (auto simp: xor_bytes_commute)
  finally show ?thesis by (simp add: mode_forward_def Let_def bs_def e_def)
qed

lemma ofb_match_iff:
  assumes "wf_bc bc" "s + mode_span bc SAR_MODE_OFB \<le> length pt" "s + mode_span bc SAR_MODE_OFB \<le> length ct"
  shows "ofb_match bc pt ct s \<longleftrightarrow> mode_forward bc SAR_MODE_OFB pt ct s"
proof -
  have "length (bc_E bc (window_ks pt ct s (bc_block_size bc))) = bc_block_size bc"
    using assms by (intro wf_bcD) (simp_all add: mode_span_def)
  then show ?thesis
    using assms wf_bcD(2) [OF assms(1)]
    by (simp add: ofb_match_def mode_forward_def mode_span_def sar_be_eq_iff case_prod_unfold Let_def)
qed

lemma ctr_block_step:
  assumes "ctr_layout_ok L" "length c0 = ctr_block_size L" "length c1 = ctr_block_size L"
  shows "sar_ctr_const_equal c0 c1 L \<and>
      (sar_ctr_field_read c0 L + n) AND sar_ctr_field_mask (ctr_width L) = sar_ctr_field_read c1 L \<longleftrightarrow>
    c1 = ctr_step L n c0"
proof
  assume *: "sar_ctr_const_equal c0 c1 L \<and>
      (sar_ctr_field_read c0 L + n) AND sar_ctr_field_mask (ctr_width L) = sar_ctr_field_read c1 L"
  then have "c1 = sar_ctr_field_write c0 L (sar_ctr_field_read c1 L)"
    using assms sar_ctr_const_equal_eq by blast
  also have "\<dots> = ctr_step L n c0"
    using * sar_ctr_field_write_mask by (metis ctr_step_def)
  finally show "c1 = ctr_step L n c0" .
next
  assume c1: "c1 = ctr_step L n c0"
  have "c0 = sar_ctr_field_write c0 L (sar_ctr_field_read c0 L)"
    using assms by (simp add: ctr_layout_ok_def sar_ctr_field_write_read)
  then have "sar_ctr_const_equal c0 c1 L"
    using sar_ctr_const_equal_write [OF assms(1)] c1 by (metis ctr_step_def)
  then show "sar_ctr_const_equal c0 c1 L \<and>
      (sar_ctr_field_read c0 L + n) AND sar_ctr_field_mask (ctr_width L) = sar_ctr_field_read c1 L"
    using assms by (simp add: c1 ctr_step_def ctr_layout_ok_def ctr_index_read_write)
qed

lemma length_SAR_CTR_LAYOUTS [simp]: "length SAR_CTR_LAYOUTS = 8"
  by (simp add: SAR_CTR_LAYOUTS_def)

lemma ctr_match_step:
  assumes "wf_bc bc" "s + 2 * bc_block_size bc \<le> length pt" "s + 2 * bc_block_size bc \<le> length ct"
    and "t < SAR_CTR_LAYOUT_COUNT"
  shows "ctr_match bc pt ct (s, t) \<longleftrightarrow>
    ctr_block_size (SAR_CTR_LAYOUTS ! t) = bc_block_size bc \<and>
    bc_E bc (ctr_step (SAR_CTR_LAYOUTS ! t) 1 (bc_D bc (window_ks pt ct s (bc_block_size bc)))) =
      window_ks pt ct (s + bc_block_size bc) (bc_block_size bc)"
proof (cases "ctr_block_size (SAR_CTR_LAYOUTS ! t) = bc_block_size bc")
  case True
  define L where "L = SAR_CTR_LAYOUTS ! t"
  define K0 where "K0 = window_ks pt ct s (bc_block_size bc)"
  define K1 where "K1 = window_ks pt ct (s + bc_block_size bc) (bc_block_size bc)"
  have k: "length K0 = bc_block_size bc" "length K1 = bc_block_size bc"
    using assms by (simp_all add: K0_def K1_def)
  have len: "length (bc_D bc K0) = ctr_block_size L" "length (bc_D bc K1) = ctr_block_size L"
    using assms(1) k True by (simp_all add: wf_bcD L_def)
  have ok: "ctr_layout_ok L"
    using assms(4) by (intro ctr_layouts_ok) (simp add: L_def SAR_CTR_LAYOUT_COUNT_def)
  have "ctr_match bc pt ct (s, t) \<longleftrightarrow> bc_D bc K1 = ctr_step L 1 (bc_D bc K0)"
    using ctr_block_step [OF ok len] True wf_bcD(3) [OF assms(1)]
    by (simp add: ctr_match_def case_prod_unfold Let_def flip: L_def K0_def K1_def)
  also have "\<dots> \<longleftrightarrow> bc_E bc (ctr_step L 1 (bc_D bc K0)) = K1"
    using assms(1) k len True by (intro bc_E_eq_iff [symmetric]) (simp_all add: ctr_step_def L_def)
  finally show ?thesis using True by (simp add: L_def K0_def K1_def)
qed (simp add: ctr_match_def case_prod_unfold Let_def)

lemma ctr_match_iff:
  assumes "wf_bc bc" "s + mode_span bc SAR_MODE_CTR \<le> length pt" "s + mode_span bc SAR_MODE_CTR \<le> length ct"
  shows "list_ex (\<lambda>t. ctr_match bc pt ct (s, t)) [0..<SAR_CTR_LAYOUT_COUNT] \<longleftrightarrow>
    mode_forward bc SAR_MODE_CTR pt ct s"
proof -
  define P where "P L \<longleftrightarrow> ctr_block_size L = bc_block_size bc \<and>
    bc_E bc (ctr_step L 1 (bc_D bc (window_ks pt ct s (bc_block_size bc)))) =
      window_ks pt ct (s + bc_block_size bc) (bc_block_size bc)" for L
  have "list_ex (\<lambda>t. ctr_match bc pt ct (s, t)) [0..<SAR_CTR_LAYOUT_COUNT] \<longleftrightarrow>
      (\<exists>t<SAR_CTR_LAYOUT_COUNT. P (SAR_CTR_LAYOUTS ! t))"
    using assms by (auto simp: list_ex_iff ctr_match_step mode_span_def P_def)
  also have "\<dots> \<longleftrightarrow> list_ex P SAR_CTR_LAYOUTS"
    by (simp add: list_ex_length SAR_CTR_LAYOUT_COUNT_def)
  finally show ?thesis by (simp add: mode_forward_def Let_def P_def [abs_def])
qed

lemma list_ex_find: "list_ex P xs \<longleftrightarrow> find P xs \<noteq> None"
  by (auto simp: find_None_iff list_ex_iff)

lemma list_ex_product: "list_ex (\<lambda>x. list_ex (\<lambda>y. P (x, y)) ys) xs = list_ex P (List.product xs ys)"
  by (auto simp: list_ex_iff)

lemma generic_fst:
  defines "shifts \<equiv> \<lambda>bc. window_shifts (bc_block_size bc) (2 * bc_block_size bc)"
  shows "fst (generic_cbc bc pt ct len fo iv) = list_ex (cbc_match bc pt ct) (shifts bc len)"
    and "fst (generic_cfb bc pt ct len fo iv) = list_ex (cfb_match bc pt ct) (shifts bc len)"
    and "fst (generic_ofb bc pt ct len fo iv) = list_ex (ofb_match bc pt ct) (shifts bc len)"
    and "fst (generic_ctr bc pt ct len fo iv) =
      list_ex (\<lambda>s. list_ex (\<lambda>t. ctr_match bc pt ct (s, t)) [0..<SAR_CTR_LAYOUT_COUNT]) (shifts bc len)"
  unfolding list_ex_product unfolding list_ex_find shifts_def
  by (auto simp: generic_cbc_def generic_cfb_def generic_ofb_def generic_ctr_def Let_def
      split: option.splits)

lemma list_ex_window:
  "(\<And>s. s < bs \<Longrightarrow> s + span \<le> len \<Longrightarrow> P s = Q s) \<Longrightarrow>
     list_ex P (window_shifts bs span len) = list_ex Q (window_shifts bs span len)"
  by (auto simp: list_ex_iff window_shiftsD)

lemma window_shifts_short: "len < span \<Longrightarrow> window_shifts bs span len = []"
  by (simp add: window_shifts_def filter_empty_conv)

lemma mode_seen_generic:
  assumes "wf_bc bc" "len \<le> length pt" "len \<le> length ct"
  shows "generic_ecb bc pt ct len = mode_seen bc pt ct len SAR_MODE_ECB"
    and "fst (generic_cbc bc pt ct len fo iv) = mode_seen bc pt ct len SAR_MODE_CBC"
    and "fst (generic_cfb bc pt ct len fo iv) = mode_seen bc pt ct len SAR_MODE_CFB"
    and "fst (generic_ofb bc pt ct len fo iv) = mode_seen bc pt ct len SAR_MODE_OFB"
    and "fst (generic_ctr bc pt ct len fo iv) = mode_seen bc pt ct len SAR_MODE_CTR"
  unfolding generic_fst generic_ecb_def mode_seen_def mode_span_def
  using assms ecb_match_iff [OF assms(1)] cbc_match_iff [OF assms(1)] cfb_match_iff [OF assms(1)]
    ofb_match_iff [OF assms(1)] ctr_match_iff [OF assms(1)]
  by (simp_all add: mode_span_def) (rule list_ex_window; simp)+

lemma engine_try_block_modes_find:
  assumes "wf_bc bc" "len \<le> length pt" "len \<le> length ct"
  shows "fst (engine_try_block_modes bc pt ct len fo iv) = find (mode_seen bc pt ct len) engine_modes"
proof -
  have "mode_seen bc pt ct len m = False" if "len < 2 * bc_block_size bc" "m \<noteq> SAR_MODE_ECB" for m
    using that by (simp add: mode_seen_def mode_span_def window_shifts_short)
  then have short: "\<not> mode_seen bc pt ct len SAR_MODE_CBC" "\<not> mode_seen bc pt ct len SAR_MODE_CFB"
    "\<not> mode_seen bc pt ct len SAR_MODE_OFB" "\<not> mode_seen bc pt ct len SAR_MODE_CTR"
    if "\<not> 2 * bc_block_size bc \<le> len"
    using that by simp_all
  show ?thesis
    using mode_seen_generic [OF assms] short
    by (simp add: engine_try_block_modes_def engine_modes_def Let_def case_prod_unfold)
qed

end
