(* ===== verification/Mode_Reference.thy ===== *)
theory Mode_Reference
  imports Modes
begin

text \<open>
  The modes of operation as an encrypting program applies them to a whole file: the specification the
  search of \<^theory_text>\<open>Modes\<close> and the recovery code are measured against. For every mode the ciphertext satisfies the
  forward relation at every block, so the search accepts it; where the search derives an initialisation
  vector, it is the one the file was encrypted with.
\<close>

section \<open>Encryption\<close>

function ecb_encrypt :: "block_cipher_ctx \<Rightarrow> bytes \<Rightarrow> bytes" where
  "ecb_encrypt bc pt =
     (let bs = bc_block_size bc
      in if bs = 0 \<or> length pt < bs then []
         else bc_E bc (take bs pt) @ ecb_encrypt bc (drop bs pt))"
  by pat_completeness auto

termination by (relation "measure (\<lambda>(bc, pt). length pt)") auto

function cbc_encrypt :: "block_cipher_ctx \<Rightarrow> bytes \<Rightarrow> bytes \<Rightarrow> bytes" where
  "cbc_encrypt bc prev pt =
     (let bs = bc_block_size bc
      in if bs = 0 \<or> length pt < bs then []
         else let c = bc_E bc (xor_bytes (take bs pt) prev) in c @ cbc_encrypt bc c (drop bs pt))"
  by pat_completeness auto

termination by (relation "measure (\<lambda>(bc, prev, pt). length pt)") auto

function cfb_encrypt :: "block_cipher_ctx \<Rightarrow> bytes \<Rightarrow> bytes \<Rightarrow> bytes" where
  "cfb_encrypt bc prev pt =
     (let bs = bc_block_size bc
      in if bs = 0 \<or> pt = [] then []
         else let c = xor_bytes (take bs pt) (bc_E bc prev) in c @ cfb_encrypt bc c (drop bs pt))"
  by pat_completeness auto

termination by (relation "measure (\<lambda>(bc, prev, pt). length pt)") auto

declare ecb_encrypt.simps [simp del] cbc_encrypt.simps [simp del] cfb_encrypt.simps [simp del]

definition ofb_block :: "block_cipher_ctx \<Rightarrow> bytes \<Rightarrow> nat \<Rightarrow> bytes" where
  "ofb_block bc iv k = ((bc_E bc) ^^ Suc k) iv"

definition ctr_block :: "block_cipher_ctx \<Rightarrow> sar_ctr_layout \<Rightarrow> bytes \<Rightarrow> nat \<Rightarrow> bytes" where
  "ctr_block bc L iv k = bc_E bc (ctr_step L (word_of_nat k) iv)"

definition ks_encrypt :: "(nat \<Rightarrow> bytes) \<Rightarrow> nat \<Rightarrow> bytes \<Rightarrow> bytes" where
  "ks_encrypt f bs pt = map (\<lambda>j. pt ! j XOR f (j div bs) ! (j mod bs)) [0..<length pt]"

definition mode_encrypt :: "block_cipher_ctx \<Rightarrow> u32 \<Rightarrow> sar_ctr_layout \<Rightarrow> bytes \<Rightarrow> bytes \<Rightarrow> bytes" where
  "mode_encrypt bc m L iv pt =
     (if m = SAR_MODE_ECB then ecb_encrypt bc pt
      else if m = SAR_MODE_CBC then cbc_encrypt bc iv pt
      else if m = SAR_MODE_CFB then cfb_encrypt bc iv pt
      else if m = SAR_MODE_OFB then ks_encrypt (ofb_block bc iv) (bc_block_size bc) pt
      else if m = SAR_MODE_CTR then ks_encrypt (ctr_block bc L iv) (bc_block_size bc) pt
      else [])"

section \<open>Blocks of a ciphertext\<close>

lemma wf_bc_pos: "wf_bc bc \<Longrightarrow> 0 < bc_block_size bc"
  by (auto simp: wf_bc_def)

lemma slice_append_shift: "slice (a @ b) (length a + i) n = slice b i n"
  by (simp add: slice_def)

lemma slice_drop: "slice (drop m xs) i n = slice xs (m + i) n"
  by (simp add: slice_def add.commute)

lemma slice_Suc_block:
  "length c = bs \<Longrightarrow> slice (c @ r) (Suc k * bs) bs = slice r (k * bs) bs"
  using slice_append_shift [of c r "k * bs" bs] by simp

lemma slice_0_block: "length c = bs \<Longrightarrow> slice (c @ r) 0 bs = c"
  by (simp add: slice_def)

lemma ecb_block:
  assumes "wf_bc bc"
  shows "Suc k * bc_block_size bc \<le> length pt \<Longrightarrow>
    slice (ecb_encrypt bc pt) (k * bc_block_size bc) (bc_block_size bc) =
      bc_E bc (slice pt (k * bc_block_size bc) (bc_block_size bc))"
proof (induction k arbitrary: pt)
  case 0
  then show ?case using wf_bc_pos [OF assms]
    by (subst ecb_encrypt.simps) (simp add: Let_def slice_0_block wf_bcD [OF assms] slice_def)
next
  case (Suc k)
  define bs where "bs = bc_block_size bc"
  have "ecb_encrypt bc pt = bc_E bc (take bs pt) @ ecb_encrypt bc (drop bs pt)"
    using Suc.prems wf_bc_pos [OF assms] by (subst ecb_encrypt.simps) (simp add: bs_def Let_def)
  moreover have "length (bc_E bc (take bs pt)) = bs"
    using Suc.prems by (simp add: bs_def wf_bcD [OF assms])
  ultimately show ?case
    using Suc.IH [of "drop bs pt"] Suc.prems
    by (simp only: slice_Suc_block flip: bs_def) (simp add: slice_drop bs_def)
qed

lemma cbc_block:
  assumes "wf_bc bc"
  shows "length prev = bc_block_size bc \<Longrightarrow> Suc k * bc_block_size bc \<le> length pt \<Longrightarrow>
    slice (cbc_encrypt bc prev pt) (k * bc_block_size bc) (bc_block_size bc) =
      bc_E bc (xor_bytes (slice pt (k * bc_block_size bc) (bc_block_size bc))
        (if k = 0 then prev
         else slice (cbc_encrypt bc prev pt) ((k - 1) * bc_block_size bc) (bc_block_size bc)))"
proof (induction k arbitrary: prev pt)
  case 0
  then show ?case using wf_bc_pos [OF assms]
    by (subst cbc_encrypt.simps) (simp add: Let_def slice_0_block wf_bcD [OF assms] slice_def)
next
  case (Suc k)
  define bs where "bs = bc_block_size bc"
  define c where "c = bc_E bc (xor_bytes (take bs pt) prev)"
  have e: "cbc_encrypt bc prev pt = c @ cbc_encrypt bc c (drop bs pt)"
    using Suc.prems wf_bc_pos [OF assms] by (subst cbc_encrypt.simps) (simp add: bs_def c_def Let_def)
  have c: "length c = bs"
    using Suc.prems by (simp add: bs_def c_def wf_bcD [OF assms])
  have "slice (cbc_encrypt bc prev pt) (k * bs) bs =
      (if k = 0 then c else slice (cbc_encrypt bc c (drop bs pt)) ((k - 1) * bs) bs)"
    using c by (cases k) (simp_all only: e slice_Suc_block, simp_all add: slice_0_block)
  then show ?case
    using Suc.IH [of c "drop bs pt"] Suc.prems c
    by (simp only: e slice_Suc_block flip: bs_def) (simp add: slice_drop bs_def e)
qed

lemma slice_Suc_part:
  "length c = bs \<Longrightarrow> slice (c @ r) (Suc k * bs) n = slice r (k * bs) n"
  using slice_append_shift [of c r "k * bs" n] by simp

text \<open>
  Cipher feedback and the keystream modes also encrypt a last partial block, so their block lemmas speak of
  the first \<^term>\<open>n\<close> bytes of a block.
\<close>

lemma cfb_part:
  assumes "wf_bc bc" "n \<le> bc_block_size bc"
  shows "length prev = bc_block_size bc \<Longrightarrow> k * bc_block_size bc + n \<le> length pt \<Longrightarrow>
    slice (cfb_encrypt bc prev pt) (k * bc_block_size bc) n =
      xor_bytes (slice pt (k * bc_block_size bc) n)
        (bc_E bc (if k = 0 then prev
         else slice (cfb_encrypt bc prev pt) ((k - 1) * bc_block_size bc) (bc_block_size bc)))"
proof (induction k arbitrary: prev pt)
  case 0
  define bs where "bs = bc_block_size bc"
  have E: "length (bc_E bc prev) = bs" using 0 by (simp add: bs_def wf_bcD [OF assms(1)])
  show ?case
  proof (cases "pt = []")
    case False
    then have "cfb_encrypt bc prev pt =
        xor_bytes (take bs pt) (bc_E bc prev) @ cfb_encrypt bc (xor_bytes (take bs pt) (bc_E bc prev)) (drop bs pt)"
      using wf_bc_pos [OF assms(1)] by (subst cfb_encrypt.simps) (simp add: Let_def bs_def)
    moreover have "take n (xor_bytes (take bs pt) (bc_E bc prev)) = xor_bytes (take n pt) (bc_E bc prev)"
      using 0 assms(2) E by (intro nth_equalityI) (auto simp: nth_xor_bytes bs_def)
    ultimately show ?thesis using 0 assms(2) E by (simp add: slice_def bs_def)
  qed (use 0 in \<open>simp add: slice_def\<close>)
next
  case (Suc k)
  define bs where "bs = bc_block_size bc"
  define c where "c = xor_bytes (take bs pt) (bc_E bc prev)"
  have long: "bs \<le> length pt" and "pt \<noteq> []"
    using Suc.prems wf_bc_pos [OF assms(1)] by (auto simp: bs_def)
  then have e: "cfb_encrypt bc prev pt = c @ cfb_encrypt bc c (drop bs pt)"
    using wf_bc_pos [OF assms(1)] by (subst cfb_encrypt.simps) (simp add: bs_def c_def Let_def)
  have c: "length c = bs"
    using Suc.prems long by (simp add: bs_def c_def wf_bcD [OF assms(1)])
  have "slice (cfb_encrypt bc prev pt) (k * bs) bs =
      (if k = 0 then c else slice (cfb_encrypt bc c (drop bs pt)) ((k - 1) * bs) bs)"
    using c by (cases k) (simp_all only: e slice_Suc_block, simp_all add: slice_0_block)
  then show ?case
    using Suc.IH [of c "drop bs pt"] Suc.prems c long
    by (simp only: e slice_Suc_part flip: bs_def) (simp add: slice_drop bs_def e)
qed

lemma cfb_block:
  assumes "wf_bc bc"
  shows "length prev = bc_block_size bc \<Longrightarrow> Suc k * bc_block_size bc \<le> length pt \<Longrightarrow>
    slice (cfb_encrypt bc prev pt) (k * bc_block_size bc) (bc_block_size bc) =
      xor_bytes (slice pt (k * bc_block_size bc) (bc_block_size bc))
        (bc_E bc (if k = 0 then prev
         else slice (cfb_encrypt bc prev pt) ((k - 1) * bc_block_size bc) (bc_block_size bc)))"
  using cfb_part [OF assms order_refl, of prev k pt] by (simp add: add.commute)

lemma length_ks_encrypt [simp, sar_len]: "length (ks_encrypt f bs pt) = length pt"
  by (simp add: ks_encrypt_def)

lemma ks_part:
  assumes "k * bs + n \<le> length pt" "length (f k) = bs" "n \<le> bs"
  shows "slice (ks_encrypt f bs pt) (k * bs) n = xor_bytes (slice pt (k * bs) n) (f k)"
proof (rule nth_equalityI)
  fix i assume "i < length (slice (ks_encrypt f bs pt) (k * bs) n)"
  then have "i < n" "i < bs" using assms by simp_all
  moreover from this have "(k * bs + i) div bs = k" "(k * bs + i) mod bs = i" by auto
  ultimately show "slice (ks_encrypt f bs pt) (k * bs) n ! i = xor_bytes (slice pt (k * bs) n) (f k) ! i"
    using assms by (simp add: nth_slice nth_xor_bytes ks_encrypt_def)
qed (use assms in simp)

lemma ks_block:
  assumes "Suc k * bs \<le> length pt" "length (f k) = bs"
  shows "slice (ks_encrypt f bs pt) (k * bs) bs = xor_bytes (slice pt (k * bs) bs) (f k)"
  using ks_part [of k bs bs pt f] assms by (simp add: add.commute)

lemma length_ofb_block [simp, sar_len]:
  "wf_bc bc \<Longrightarrow> length iv = bc_block_size bc \<Longrightarrow> length (ofb_block bc iv k) = bc_block_size bc"
  unfolding ofb_block_def by (induction k) (simp_all add: wf_bcD)

lemma length_ctr_block [simp, sar_len]:
  "wf_bc bc \<Longrightarrow> length iv = bc_block_size bc \<Longrightarrow> length (ctr_block bc L iv k) = bc_block_size bc"
  by (simp add: ctr_block_def ctr_step_def wf_bcD)

lemma length_ecb_encrypt:
  assumes "wf_bc bc"
  shows "length (ecb_encrypt bc pt) = length pt div bc_block_size bc * bc_block_size bc"
proof (induction "length pt" arbitrary: pt rule: less_induct)
  case less
  show ?case
  proof (cases "length pt < bc_block_size bc")
    case True
    then show ?thesis by (subst ecb_encrypt.simps) simp
  next
    case False
    then show ?thesis using less [of "drop (bc_block_size bc) pt"] wf_bc_pos [OF assms]
      by (subst ecb_encrypt.simps) (simp add: Let_def wf_bcD [OF assms] le_div_geq)
  qed
qed

lemma length_cbc_encrypt:
  assumes "wf_bc bc"
  shows "length prev = bc_block_size bc \<Longrightarrow>
    length (cbc_encrypt bc prev pt) = length pt div bc_block_size bc * bc_block_size bc"
proof (induction "length pt" arbitrary: prev pt rule: less_induct)
  case less
  show ?case
  proof (cases "length pt < bc_block_size bc")
    case True
    then show ?thesis by (subst cbc_encrypt.simps) simp
  next
    case False
    define c where "c = bc_E bc (xor_bytes (take (bc_block_size bc) pt) prev)"
    have "length c = bc_block_size bc"
      using False less.prems by (simp add: c_def wf_bcD [OF assms])
    then show ?thesis using False less.hyps [of "drop (bc_block_size bc) pt" c] wf_bc_pos [OF assms]
      by (subst cbc_encrypt.simps) (simp add: Let_def le_div_geq flip: c_def)
  qed
qed

lemma length_cfb_encrypt:
  assumes "wf_bc bc"
  shows "length prev = bc_block_size bc \<Longrightarrow> length (cfb_encrypt bc prev pt) = length pt"
proof (induction "length pt" arbitrary: prev pt rule: less_induct)
  case less
  define bs where "bs = bc_block_size bc"
  define c where "c = xor_bytes (take bs pt) (bc_E bc prev)"
  have step: "cfb_encrypt bc prev pt = (if pt = [] then [] else c @ cfb_encrypt bc c (drop bs pt))"
    using wf_bc_pos [OF assms] by (subst cfb_encrypt.simps) (simp add: Let_def c_def bs_def)
  show ?case
  proof (cases "length pt < bs")
    case True
    then have "drop bs pt = []" "length c = length pt"
      using less.prems by (simp_all add: c_def bs_def wf_bcD [OF assms])
    moreover have "cfb_encrypt bc c [] = []" by (simp add: cfb_encrypt.simps)
    ultimately show ?thesis by (simp add: step)
  next
    case False
    have "length c = bs" using False less.prems by (simp add: c_def bs_def wf_bcD [OF assms])
    then have "length (cfb_encrypt bc c (drop bs pt)) = length (drop bs pt)"
      using False wf_bc_pos [OF assms] by (intro less.hyps) (simp_all add: bs_def)
    then show ?thesis using False \<open>length c = bs\<close> by (simp add: step)
  qed
qed

section \<open>A sample of an encrypted file is accepted\<close>

lemma window_ks_block:
  assumes "Suc k * bs \<le> length pt" "length (f k) = bs"
  shows "window_ks pt (ks_encrypt f bs pt) (k * bs) bs = f k"
proof -
  have "xor_bytes (slice pt (k * bs) bs) (xor_bytes (slice pt (k * bs) bs) (f k)) = f k"
    using assms by (intro xor_bytes_cancel_left) simp
  then show ?thesis using assms by (simp add: window_ks_def ks_block)
qed

lemma window_ks_drop:
  "window_ks (drop off pt) (drop off ct) s bs = window_ks pt ct (off + s) bs"
  by (simp add: window_ks_def slice_drop)

lemma mode_forward_drop:
  "mode_forward bc m (drop off pt) (drop off ct) s = mode_forward bc m pt ct (off + s)"
  by (simp add: mode_forward_def window_ks_drop slice_drop add.assoc)

lemma ofb_block_Suc: "bc_E bc (ofb_block bc iv k) = ofb_block bc iv (Suc k)"
  by (simp add: ofb_block_def)

lemma take_bit_add_left: "take_bit k (take_bit k x + n) = take_bit k (x + n :: int)"
  using take_bit_add [of k "take_bit k x" n] take_bit_add [of k x n] by simp

lemma ctr_step_add:
  assumes "ctr_layout_ok L" "length c = ctr_block_size L"
  shows "ctr_step L n (ctr_step L m c) = ctr_step L (m + n) c"
proof -
  have ok: "ctr_width L \<le> 8" "ctr_offset L + ctr_width L \<le> length c"
    using assms by (auto simp: ctr_layout_ok_def)
  define w where "w = 8 * ctr_width L"
  define v where "v = sar_ctr_field_read c L"
  have "take_bit w (take_bit w (v + m) + n) = take_bit w (v + (m + n))" for v m n :: u64
    by transfer (simp add: take_bit_add_left add.assoc)
  then have "((v + m) AND mask w) + n AND mask w = v + (m + n) AND mask w"
    by (simp add: take_bit_eq_mask)
  then have "sar_ctr_field_write c L (((v + m) AND mask w) + n) = sar_ctr_field_write c L (v + (m + n))"
    using ok(1) sar_ctr_field_write_mask [of c L] by (metis sar_ctr_field_mask_eq w_def)
  then show ?thesis
    using ok by (simp add: ctr_step_def ctr_index_read_write sar_ctr_field_write_write
        sar_ctr_field_mask_eq v_def w_def)
qed

definition mode_layout_ok :: "block_cipher_ctx \<Rightarrow> u32 \<Rightarrow> sar_ctr_layout \<Rightarrow> bool" where
  "mode_layout_ok bc m L \<longleftrightarrow>
     m \<noteq> SAR_MODE_CTR \<or> L \<in> set SAR_CTR_LAYOUTS \<and> ctr_block_size L = bc_block_size bc"

lemma ctr_block_Suc:
  assumes "wf_bc bc" "length iv = bc_block_size bc" "ctr_layout_ok L" "ctr_block_size L = bc_block_size bc"
  shows "bc_E bc (ctr_step L 1 (bc_D bc (ctr_block bc L iv k))) = ctr_block bc L iv (Suc k)"
proof -
  have "bc_D bc (ctr_block bc L iv k) = ctr_step L (word_of_nat k) iv"
    using assms by (simp add: ctr_block_def ctr_step_def wf_bcD)
  then show ?thesis
    using assms by (simp add: ctr_step_add ctr_block_def add.commute)
qed

lemma mode_encrypt_forward:
  assumes "wf_bc bc" "length iv = bc_block_size bc" "m \<in> set engine_modes" "mode_layout_ok bc m L"
    and "Suc (Suc k) * bc_block_size bc \<le> length pt"
  shows "mode_forward bc m pt (mode_encrypt bc m L iv pt) (k * bc_block_size bc)"
proof -
  define bs where "bs = bc_block_size bc"
  have len: "Suc k * bs \<le> length pt" "Suc (Suc k) * bs \<le> length pt"
    using assms(5) by (simp_all add: bs_def)
  have idx: "k * bs + bs = Suc k * bs" by simp
  note blocks = ecb_block [OF assms(1), of k pt] cbc_block [OF assms(1,2), of "Suc k" pt]
    cfb_block [OF assms(1,2), of "Suc k" pt]
  have ofb: "window_ks pt (ks_encrypt (ofb_block bc iv) bs pt) (j * bs) bs = ofb_block bc iv j"
    if "Suc j * bs \<le> length pt" for j
    using that assms(1,2) by (intro window_ks_block) (simp_all add: bs_def)
  have ctr: "window_ks pt (ks_encrypt (ctr_block bc L iv) bs pt) (j * bs) bs = ctr_block bc L iv j"
    if "Suc j * bs \<le> length pt" for j
    using that assms(1,2) by (intro window_ks_block) (simp_all add: bs_def)
  consider "m = SAR_MODE_ECB" | "m = SAR_MODE_CBC" | "m = SAR_MODE_CFB" | "m = SAR_MODE_OFB" | "m = SAR_MODE_CTR"
    using assms(3) by (auto simp: engine_modes_def)
  then show ?thesis
  proof cases
    case 5
    then have L: "L \<in> set SAR_CTR_LAYOUTS" "ctr_block_size L = bs"
      using assms(4) by (auto simp: mode_layout_ok_def bs_def)
    then have "bc_E bc (ctr_step L 1 (bc_D bc (ctr_block bc L iv k))) = ctr_block bc L iv (Suc k)"
      using assms(1,2) by (intro ctr_block_Suc) (simp_all add: ctr_layouts_ok bs_def)
    with L have "list_ex (\<lambda>L'. ctr_block_size L' = bs \<and>
        bc_E bc (ctr_step L' 1 (bc_D bc (ctr_block bc L iv k))) = ctr_block bc L iv (Suc k)) SAR_CTR_LAYOUTS"
      by (auto simp: list_ex_iff)
    then show ?thesis
      using len 5 ctr [OF len(1)] ctr [OF len(2)]
      by (simp add: mode_forward_def mode_encrypt_def Let_def add.commute flip: bs_def)
  qed (use blocks len ofb [OF len(1)] ofb [OF len(2)] in
      \<open>simp_all add: mode_forward_def mode_encrypt_def Let_def ofb_block_Suc add.commute
         flip: bs_def\<close>)
qed

lemma window_shifts_0: "0 < bs \<Longrightarrow> span \<le> len \<Longrightarrow> \<exists>r. window_shifts bs span len = 0 # r"
  by (simp add: window_shifts_def upt_conv_Cons)

lemma mode_encrypt_seen:
  assumes "wf_bc bc" "length iv = bc_block_size bc" "m \<in> set engine_modes" "mode_layout_ok bc m L"
    and "off = k * bc_block_size bc" "2 * bc_block_size bc \<le> len" "off + len \<le> length pt"
  shows "mode_seen bc (drop off pt) (drop off (mode_encrypt bc m L iv pt)) len m"
proof -
  have "mode_forward bc m pt (mode_encrypt bc m L iv pt) (k * bc_block_size bc)"
    using assms by (intro mode_encrypt_forward) simp_all
  then have "mode_forward bc m (drop off pt) (drop off (mode_encrypt bc m L iv pt)) 0"
    using assms(5) by (simp add: mode_forward_drop)
  moreover have "0 \<in> set (window_shifts (bc_block_size bc) (mode_span bc m) len)"
    using assms(6) wf_bc_pos [OF assms(1)] by (auto simp: window_shiftsD mode_span_def)
  ultimately show ?thesis by (auto simp: mode_seen_def list_ex_iff)
qed

section \<open>The initialisation vector of an encrypted file\<close>

lemma find_first_window:
  assumes "0 < bs" "span \<le> len" "P 0"
  shows "find P (window_shifts bs span len) = Some 0"
  using window_shifts_0 [OF assms(1,2)] assms(3) by auto

lemma take_mode_encrypt_0: "take bs x = slice x 0 bs"
  by (simp add: slice_def)

lemma generic_cbc_iv:
  assumes "wf_bc bc" "length iv0 = bc_block_size bc" "2 * bc_block_size bc \<le> len" "len \<le> length pt"
    and "ct = mode_encrypt bc SAR_MODE_CBC L iv0 pt"
  shows "generic_cbc bc pt ct len 0 (Some iv) = (True, Some (iv_store iv0 (bc_block_size bc) iv))"
proof -
  define bs where "bs = bc_block_size bc"
  have len: "2 * bs \<le> length pt" "2 * bs \<le> length ct"
  proof -
    show pt: "2 * bs \<le> length pt" using assms(3,4) by (simp add: bs_def)
    have "2 \<le> length pt div bs" using pt wf_bc_pos [OF assms(1)] by (simp add: bs_def less_eq_div_iff_mult_less_eq)
    then show "2 * bs \<le> length ct"
      using assms(1,2,5) by (simp add: mode_encrypt_def length_cbc_encrypt bs_def)
  qed
  have "mode_forward bc SAR_MODE_CBC pt ct (0 * bc_block_size bc)"
    unfolding assms(5) using assms(1-4)
    by (intro mode_encrypt_forward) (simp_all add: engine_modes_def mode_layout_ok_def)
  then have "find (cbc_match bc pt ct) (window_shifts bs (2 * bs) len) = Some 0"
    using assms(1,3) len wf_bc_pos [OF assms(1)]
    by (intro find_first_window) (simp_all add: cbc_match_iff mode_span_def bs_def)
  moreover have "take bs ct = bc_E bc (xor_bytes (take bs pt) iv0)"
    using cbc_block [OF assms(1,2), of 0 pt] assms(5) len
    by (simp add: mode_encrypt_def take_mode_encrypt_0 bs_def)
  then have "bc_D bc (take bs ct) = xor_bytes (take bs pt) iv0"
    using assms(1,2) len by (simp add: wf_bcD bs_def)
  then have "xor_bytes (bc_D bc (take bs ct)) (take bs pt) = iv0"
    using assms(2) len xor_bytes_cancel_right [of iv0 "take bs pt"]
    by (simp add: xor_bytes_commute [of iv0] bs_def)
  ultimately show ?thesis
    using wf_bcD(3) [OF assms(1)]
    by (simp add: generic_cbc_def Let_def case_prod_unfold flip: bs_def)
qed

lemma generic_cfb_iv:
  assumes "wf_bc bc" "length iv0 = bc_block_size bc" "2 * bc_block_size bc \<le> len" "len \<le> length pt"
    and "ct = mode_encrypt bc SAR_MODE_CFB L iv0 pt"
  shows "generic_cfb bc pt ct len 0 (Some iv) = (True, Some (iv_store iv0 (bc_block_size bc) iv))"
proof -
  define bs where "bs = bc_block_size bc"
  have len: "2 * bs \<le> length pt" "2 * bs \<le> length ct"
    using assms by (simp_all add: bs_def mode_encrypt_def length_cfb_encrypt)
  have "mode_forward bc SAR_MODE_CFB pt ct (0 * bc_block_size bc)"
    unfolding assms(5) using assms(1-4)
    by (intro mode_encrypt_forward) (simp_all add: engine_modes_def mode_layout_ok_def)
  then have "find (cfb_match bc pt ct) (window_shifts bs (2 * bs) len) = Some 0"
    using assms(1,3) len wf_bc_pos [OF assms(1)]
    by (intro find_first_window) (simp_all add: cfb_match_iff mode_span_def bs_def)
  moreover have "take bs ct = xor_bytes (take bs pt) (bc_E bc iv0)"
    using cfb_block [OF assms(1,2), of 0 pt] assms(5) len
    by (simp add: mode_encrypt_def take_mode_encrypt_0 bs_def)
  then have "xor_bytes (take bs pt) (take bs ct) = bc_E bc iv0"
    using assms(1,2) len by (simp add: xor_bytes_cancel_left wf_bcD bs_def)
  ultimately show ?thesis
    using wf_bcD(3) [OF assms(1)] wf_bcD(6) [OF assms(1,2)]
    by (simp add: generic_cfb_def Let_def case_prod_unfold flip: bs_def)
qed

lemma ofb_back_block:
  assumes "wf_bc bc" "length iv = bc_block_size bc"
  shows "ofb_back bc k (ofb_block bc iv k) = Some (bc_E bc iv)"
proof (induction k)
  case (Suc k)
  have "bc_D bc (ofb_block bc iv (Suc k)) = ofb_block bc iv k"
    using assms wf_bcD(6) [OF assms(1), of "ofb_block bc iv k"] by (simp add: ofb_block_Suc)
  then show ?case using Suc wf_bcD(3) [OF assms(1)] by (simp add: case_prod_unfold)
qed (simp add: ofb_block_def)

lemma block_index_word:
  assumes "off = k * bs" "off < 2 ^ 64" "0 < bs" "bs < 2 ^ 64"
  shows "unat ((word_of_nat off :: u64) div word_of_nat bs) = k"
proof -
  have "unat ((word_of_nat off :: u64) div word_of_nat bs) = off div bs"
    using assms(2,4) by (simp add: unat_div_distrib unat_u64_of_nat)
  then show ?thesis using assms(1,3) by simp
qed

lemma generic_ofb_iv:
  assumes "wf_bc bc" "length iv0 = bc_block_size bc" "2 * bc_block_size bc \<le> len"
    and "off = k * bc_block_size bc" "off < 2 ^ 64" "off + len \<le> length pt"
    and "ct = mode_encrypt bc SAR_MODE_OFB L iv0 pt"
  shows "generic_ofb bc (drop off pt) (drop off ct) len (word_of_nat off) (Some iv) =
    (True, Some (iv_store iv0 (bc_block_size bc) iv))"
proof -
  define bs where "bs = bc_block_size bc"
  have bs: "0 < bs" "bs < 2 ^ 64" using wf_bcD(1) [OF assms(1)] by (auto simp: bs_def)
  have len: "off + 2 * bs \<le> length pt" "length ct = length pt"
    using assms by (simp_all add: bs_def mode_encrypt_def)
  have ks: "window_ks (drop off pt) (drop off ct) 0 bs = ofb_block bc iv0 k"
    unfolding window_ks_drop assms(7) using assms(1,2,4) len
    by (simp add: mode_encrypt_def window_ks_block bs_def)
  have "mode_forward bc SAR_MODE_OFB (drop off pt) (drop off ct) 0"
    unfolding mode_forward_drop assms(7) using assms(1,2,4) len mode_encrypt_forward [of bc iv0 SAR_MODE_OFB L k pt]
    by (simp add: engine_modes_def mode_layout_ok_def bs_def)
  then have "find (ofb_match bc (drop off pt) (drop off ct)) (window_shifts bs (2 * bs) len) = Some 0"
    using assms(1,3) len bs by (intro find_first_window) (simp_all add: ofb_match_iff mode_span_def bs_def)
  moreover have "unat ((word_of_nat off + word_of_nat 0 :: u64) div word_of_nat bs) = k"
    using block_index_word [of off k bs] assms(4,5) bs by (simp add: bs_def)
  ultimately show ?thesis
    using ks wf_bcD(3,6) [OF assms(1)] ofb_back_block [OF assms(1,2)] assms(2)
    by (simp add: generic_ofb_def Let_def case_prod_unfold flip: bs_def)
qed

text \<open>
  The counter the search derives is a forward proof too: stepping it to the block the window was
  taken at, and one further, and encrypting gives both keystream blocks of the window.
\<close>

lemma find_SomeD: "find P xs = Some x \<Longrightarrow> x \<in> set xs \<and> P x"
  by (auto simp: find_Some_iff)

lemma take_sar_ctr_field_write:
  assumes "ctr_offset L + ctr_width L \<le> n" "ctr_width L \<le> 8" "n \<le> length b"
  shows "take n (sar_ctr_field_write b L v) = sar_ctr_field_write (take n b) L v"
proof (rule sar_ctr_field_eqI [where L = L])
  fix i assume i: "i < ctr_width L"
  then have "ctr_index L i < n" using assms by (auto simp: ctr_index_def)
  then show "take n (sar_ctr_field_write b L v) ! ctr_index L i = sar_ctr_field_write (take n b) L v ! ctr_index L i"
    using i assms by (simp add: sar_ctr_field_write_hit)
qed (use assms in \<open>simp_all add: sar_ctr_field_write_other\<close>)

lemma generic_ctr_forward:
  assumes "wf_bc bc" "len \<le> length pt" "len \<le> length ct"
    and "generic_ctr bc pt ct len file_offset (Some iv) = (True, Some iv')"
    and "bc_block_size bc \<le> length (iv_bytes iv)"
  obtains s L where "s < bc_block_size bc" "s + 2 * bc_block_size bc \<le> len"
    "iv_tag iv' \<in> {1..SAR_CTR_LAYOUT_COUNT}" "L = SAR_CTR_LAYOUTS ! (iv_tag iv' - 1)"
    "ctr_block_size L = bc_block_size bc" "iv_length iv' = bc_block_size bc"
    "bc_E bc (ctr_step L ((file_offset + word_of_nat s) div word_of_nat (bc_block_size bc))
       (take (bc_block_size bc) (iv_bytes iv'))) = window_ks pt ct s (bc_block_size bc)"
    "bc_E bc (ctr_step L ((file_offset + word_of_nat s) div word_of_nat (bc_block_size bc) + 1)
       (take (bc_block_size bc) (iv_bytes iv'))) = window_ks pt ct (s + bc_block_size bc) (bc_block_size bc)"
proof -
  define bs where "bs = bc_block_size bc"
  obtain s t where f: "find (ctr_match bc pt ct)
      (List.product (window_shifts bs (2 * bs) len) [0..<SAR_CTR_LAYOUT_COUNT]) = Some (s, t)"
    using assms(4) by (auto simp: generic_ctr_def Let_def bs_def split: option.splits)
  have st: "s < bs" "s + 2 * bs \<le> len" "t < SAR_CTR_LAYOUT_COUNT" "ctr_match bc pt ct (s, t)"
    using find_SomeD [OF f] by (simp_all add: window_shiftsD)
  define L where "L = SAR_CTR_LAYOUTS ! t"
  define blk where "blk = (file_offset + word_of_nat s) div (word_of_nat bs :: u64)"
  define K0 where "K0 = window_ks pt ct s bs"
  define c0 where "c0 = bc_D bc K0"
  have m: "ctr_block_size L = bs" "bc_E bc (ctr_step L 1 c0) = window_ks pt ct (s + bs) bs"
    using st ctr_match_step [OF assms(1), of s pt ct t] assms(2,3)
    by (simp_all add: L_def c0_def K0_def bs_def)
  have ok: "ctr_layout_ok L"
    using st(3) by (intro ctr_layouts_ok) (simp add: L_def SAR_CTR_LAYOUT_COUNT_def)
  have K0: "length K0 = bs" using st assms(2,3) by (simp add: K0_def)
  then have c0: "length c0 = ctr_block_size L" using assms(1) m by (simp add: c0_def bs_def wf_bcD)
  define iv0 where "iv0 = sar_ctr_field_write c0 L (sar_ctr_field_read c0 L - blk)"
  have "iv' = (iv_store c0 bs iv)\<lparr>iv_bytes := sar_ctr_field_write (iv_bytes (iv_store c0 bs iv)) L
      (sar_ctr_field_read c0 L - blk), iv_tag := t + 1\<rparr>"
    using assms(4) f by (simp add: generic_ctr_def Let_def flip: bs_def K0_def c0_def L_def blk_def)
  then have iv': "take bs (iv_bytes iv') = iv0" "iv_tag iv' = t + 1" "iv_length iv' = bs"
    using ok c0 m(1) by (simp_all add: iv_store_def iv0_def ctr_layout_ok_def take_sar_ctr_field_write)
  have iv0: "length iv0 = ctr_block_size L" using c0 by (simp add: iv0_def)
  have stepped: "ctr_step L blk iv0 = c0"
    using sar_ctr_step_back [OF ok c0, of iv0 "- blk"] by (simp add: iv0_def ctr_step_def)
  show thesis
  proof (rule that [of s L])
    show "iv_tag iv' \<in> {1..SAR_CTR_LAYOUT_COUNT}" using iv' st(3) by simp
    show "bc_E bc (ctr_step L ((file_offset + word_of_nat s) div word_of_nat (bc_block_size bc))
        (take (bc_block_size bc) (iv_bytes iv'))) = window_ks pt ct s (bc_block_size bc)"
      using iv'(1) stepped wf_bcD(7) [OF assms(1)] K0
      by (simp flip: bs_def blk_def K0_def) (simp add: c0_def bs_def)
    show "bc_E bc (ctr_step L ((file_offset + word_of_nat s) div word_of_nat (bc_block_size bc) + 1)
       (take (bc_block_size bc) (iv_bytes iv'))) = window_ks pt ct (s + bc_block_size bc) (bc_block_size bc)"
      using iv'(1) stepped m(2) ctr_step_add [OF ok iv0, of 1 blk] by (simp flip: bs_def blk_def)
  qed (use st iv' m in \<open>simp_all add: L_def bs_def\<close>)
qed

end
