(* ===== verification/Sm4.thy ===== *)
theory Sm4
  imports Block_Cipher
begin

text \<open>
  The SM4 block cipher of \<^verbatim>\<open>engine/ciphers/sm4.c\<close>: tables, key schedule, and the two block
  functions. Decryption is shown to invert encryption for every context.
\<close>

section \<open>Definitions\<close>

definition SM4_SBOX :: "u8 list" where
  "SM4_SBOX =
  [0xd6, 0x90, 0xe9, 0xfe, 0xcc, 0xe1, 0x3d, 0xb7, 0x16, 0xb6, 0x14, 0xc2, 0x28, 0xfb, 0x2c, 0x05,
   0x2b, 0x67, 0x9a, 0x76, 0x2a, 0xbe, 0x04, 0xc3, 0xaa, 0x44, 0x13, 0x26, 0x49, 0x86, 0x06, 0x99,
   0x9c, 0x42, 0x50, 0xf4, 0x91, 0xef, 0x98, 0x7a, 0x33, 0x54, 0x0b, 0x43, 0xed, 0xcf, 0xac, 0x62,
   0xe4, 0xb3, 0x1c, 0xa9, 0xc9, 0x08, 0xe8, 0x95, 0x80, 0xdf, 0x94, 0xfa, 0x75, 0x8f, 0x3f, 0xa6,
   0x47, 0x07, 0xa7, 0xfc, 0xf3, 0x73, 0x17, 0xba, 0x83, 0x59, 0x3c, 0x19, 0xe6, 0x85, 0x4f, 0xa8,
   0x68, 0x6b, 0x81, 0xb2, 0x71, 0x64, 0xda, 0x8b, 0xf8, 0xeb, 0x0f, 0x4b, 0x70, 0x56, 0x9d, 0x35,
   0x1e, 0x24, 0x0e, 0x5e, 0x63, 0x58, 0xd1, 0xa2, 0x25, 0x22, 0x7c, 0x3b, 0x01, 0x21, 0x78, 0x87,
   0xd4, 0x00, 0x46, 0x57, 0x9f, 0xd3, 0x27, 0x52, 0x4c, 0x36, 0x02, 0xe7, 0xa0, 0xc4, 0xc8, 0x9e,
   0xea, 0xbf, 0x8a, 0xd2, 0x40, 0xc7, 0x38, 0xb5, 0xa3, 0xf7, 0xf2, 0xce, 0xf9, 0x61, 0x15, 0xa1,
   0xe0, 0xae, 0x5d, 0xa4, 0x9b, 0x34, 0x1a, 0x55, 0xad, 0x93, 0x32, 0x30, 0xf5, 0x8c, 0xb1, 0xe3,
   0x1d, 0xf6, 0xe2, 0x2e, 0x82, 0x66, 0xca, 0x60, 0xc0, 0x29, 0x23, 0xab, 0x0d, 0x53, 0x4e, 0x6f,
   0xd5, 0xdb, 0x37, 0x45, 0xde, 0xfd, 0x8e, 0x2f, 0x03, 0xff, 0x6a, 0x72, 0x6d, 0x6c, 0x5b, 0x51,
   0x8d, 0x1b, 0xaf, 0x92, 0xbb, 0xdd, 0xbc, 0x7f, 0x11, 0xd9, 0x5c, 0x41, 0x1f, 0x10, 0x5a, 0xd8,
   0x0a, 0xc1, 0x31, 0x88, 0xa5, 0xcd, 0x7b, 0xbd, 0x2d, 0x74, 0xd0, 0x12, 0xb8, 0xe5, 0xb4, 0xb0,
   0x89, 0x69, 0x97, 0x4a, 0x0c, 0x96, 0x77, 0x7e, 0x65, 0xb9, 0xf1, 0x09, 0xc5, 0x6e, 0xc6, 0x84,
   0x18, 0xf0, 0x7d, 0xec, 0x3a, 0xdc, 0x4d, 0x20, 0x79, 0xee, 0x5f, 0x3e, 0xd7, 0xcb, 0x39, 0x48]"

definition SM4_FK :: "u32 list" where
  "SM4_FK = [0xa3b1bac6, 0x56aa3350, 0x677d9197, 0xb27022dc]"

definition SM4_CK :: "u32 list" where
  "SM4_CK =
  [0x00070e15, 0x1c232a31, 0x383f464d, 0x545b6269, 0x70777e85, 0x8c939aa1, 0xa8afb6bd, 0xc4cbd2d9,
   0xe0e7eef5, 0xfc030a11, 0x181f262d, 0x343b4249, 0x50575e65, 0x6c737a81, 0x888f969d, 0xa4abb2b9,
   0xc0c7ced5, 0xdce3eaf1, 0xf8ff060d, 0x141b2229, 0x30373e45, 0x4c535a61, 0x686f767d, 0x848b9299,
   0xa0a7aeb5, 0xbcc3cad1, 0xd8dfe6ed, 0xf4fb0209, 0x10171e25, 0x2c333a41, 0x484f565d, 0x646b7279]"

record sm4_ctx =
  sm4_rk :: "u32 list"

definition sm4_tau :: "u32 \<Rightarrow> u32" where
  "sm4_tau a =
     push_bit 24 (ucast (SM4_SBOX ! unat (drop_bit 24 a AND 0xFF))) OR
     push_bit 16 (ucast (SM4_SBOX ! unat (drop_bit 16 a AND 0xFF))) OR
     push_bit 8 (ucast (SM4_SBOX ! unat (drop_bit 8 a AND 0xFF))) OR
     ucast (SM4_SBOX ! unat (a AND 0xFF))"

definition sm4_l :: "u32 \<Rightarrow> u32" where
  "sm4_l b = b XOR SAR_ROTL32 b 2 XOR SAR_ROTL32 b 10 XOR SAR_ROTL32 b 18 XOR SAR_ROTL32 b 24"

definition sm4_lp :: "u32 \<Rightarrow> u32" where
  "sm4_lp b = b XOR SAR_ROTL32 b 13 XOR SAR_ROTL32 b 23"

definition sm4_key_step ::
  "nat \<Rightarrow> (u32 \<times> u32 \<times> u32 \<times> u32) \<times> u32 list \<Rightarrow> (u32 \<times> u32 \<times> u32 \<times> u32) \<times> u32 list" where
  "sm4_key_step i = (\<lambda>((k0, k1, k2, k3), rk).
     let tmp = sm4_lp (sm4_tau (k1 XOR k2 XOR k3 XOR SM4_CK ! i));
         r = k0 XOR tmp
     in ((k1, k2, k3, r), rk @ [r]))"

definition sm4_key_schedule :: "bytes \<Rightarrow> sm4_ctx" where
  "sm4_key_schedule key =
     (let k = (sar_be32 key XOR SM4_FK ! 0, sar_be32 (drop 4 key) XOR SM4_FK ! 1,
               sar_be32 (drop 8 key) XOR SM4_FK ! 2, sar_be32 (drop 12 key) XOR SM4_FK ! 3)
      in \<lparr>sm4_rk = snd (fold sm4_key_step [0..<32] (k, []))\<rparr>)"

definition sm4_round :: "u32 \<Rightarrow> u32 \<times> u32 \<times> u32 \<times> u32 \<Rightarrow> u32 \<times> u32 \<times> u32 \<times> u32" where
  "sm4_round rk = (\<lambda>(x0, x1, x2, x3).
     let t = sm4_l (sm4_tau (x1 XOR x2 XOR x3 XOR rk)); x4 = x0 XOR t
     in (x1, x2, x3, x4))"

definition sm4_load :: "bytes \<Rightarrow> u32 \<times> u32 \<times> u32 \<times> u32" where
  "sm4_load p = (sar_be32 p, sar_be32 (drop 4 p), sar_be32 (drop 8 p), sar_be32 (drop 12 p))"

definition sm4_store :: "u32 \<times> u32 \<times> u32 \<times> u32 \<Rightarrow> bytes" where
  "sm4_store = (\<lambda>(x0, x1, x2, x3).
     sar_st_be32 x3 @ sar_st_be32 x2 @ sar_st_be32 x1 @ sar_st_be32 x0)"

definition sm4_encrypt_block :: "sm4_ctx \<Rightarrow> block_cipher_fn" where
  "sm4_encrypt_block ctx p =
     (1, sm4_store (fold (\<lambda>i. sm4_round (sm4_rk ctx ! i)) [0..<32] (sm4_load p)))"

definition sm4_decrypt_block :: "sm4_ctx \<Rightarrow> block_cipher_fn" where
  "sm4_decrypt_block ctx p =
     (1, sm4_store (fold (\<lambda>i. sm4_round (sm4_rk ctx ! (31 - i))) [0..<32] (sm4_load p)))"

definition sm4_reflect :: "u32 \<times> u32 \<times> u32 \<times> u32 \<Rightarrow> u32 \<times> u32 \<times> u32 \<times> u32" where
  "sm4_reflect = (\<lambda>(x0, x1, x2, x3). (x3, x2, x1, x0))"

section \<open>Correctness\<close>

interpretation sm4_rounds: reflected_rounds sm4_round "\<lambda>k. k" sm4_reflect
  by unfold_locales (auto simp: sm4_round_def sm4_reflect_def Let_def xor_ac split: prod.splits)

lemma sm4_load_store: "sm4_load (sm4_store s) = sm4_reflect s"
  by (cases s) (simp add: sm4_load_def sm4_store_def sm4_reflect_def)

lemma sm4_store_reflect_load: "length p = 16 \<Longrightarrow> sm4_store (sm4_reflect (sm4_load p)) = p"
  by (elim list16E) (simp add: sm4_load_def sm4_store_def sm4_reflect_def)

lemma length_sm4_store [simp, sar_len]: "length (sm4_store s) = 16"
  by (cases s) (simp add: sm4_store_def)

interpretation sm4: block_cipher "\<lambda>_. True" sm4_encrypt_block sm4_decrypt_block 16
proof
  fix c :: sm4_ctx and p :: bytes
  assume p: "length p = 16"
  have "fold (\<lambda>i. sm4_round (sm4_rk c ! (31 - i))) [0..<32]
      (sm4_reflect (fold (\<lambda>i. sm4_round (sm4_rk c ! i)) [0..<32] (sm4_load p)))
      = sm4_reflect (sm4_load p)"
    using sm4_rounds.indexed_rounds_reflect [of "(!) (sm4_rk c)" 32] by simp
  then show "snd (sm4_decrypt_block c (snd (sm4_encrypt_block c p))) = p"
    using p by (simp add: sm4_encrypt_block_def sm4_decrypt_block_def sm4_load_store
        sm4_store_reflect_load)
qed (simp_all add: sm4_encrypt_block_def sm4_decrypt_block_def)

end
