(* ===== verification/Des.thy ===== *)
theory Des
  imports Block_Cipher
begin

text \<open>
  The triple-DES block cipher of \<^verbatim>\<open>engine/ciphers/des.c\<close>: the permutation and substitution tables
  (with the prefix \<open>des_\<close>), the bit permutation, the single-DES key schedule and block function, and
  the encrypt-decrypt-encrypt composition. Tables used as bit positions are lists of \<open>nat\<close>.
\<close>

section \<open>Definitions\<close>

definition des_IP :: "nat list" where
  "des_IP =
  [58, 50, 42, 34, 26, 18, 10, 2, 60, 52, 44, 36, 28, 20, 12, 4,
   62, 54, 46, 38, 30, 22, 14, 6, 64, 56, 48, 40, 32, 24, 16, 8,
   57, 49, 41, 33, 25, 17, 9, 1, 59, 51, 43, 35, 27, 19, 11, 3,
   61, 53, 45, 37, 29, 21, 13, 5, 63, 55, 47, 39, 31, 23, 15, 7]"

definition des_FP :: "nat list" where
  "des_FP =
  [40, 8, 48, 16, 56, 24, 64, 32, 39, 7, 47, 15, 55, 23, 63, 31,
   38, 6, 46, 14, 54, 22, 62, 30, 37, 5, 45, 13, 53, 21, 61, 29,
   36, 4, 44, 12, 52, 20, 60, 28, 35, 3, 43, 11, 51, 19, 59, 27,
   34, 2, 42, 10, 50, 18, 58, 26, 33, 1, 41, 9, 49, 17, 57, 25]"

definition des_E :: "nat list" where
  "des_E =
  [32, 1, 2, 3, 4, 5, 4, 5, 6, 7, 8, 9, 8, 9, 10, 11,
   12, 13, 12, 13, 14, 15, 16, 17, 16, 17, 18, 19, 20, 21, 20, 21,
   22, 23, 24, 25, 24, 25, 26, 27, 28, 29, 28, 29, 30, 31, 32, 1]"

definition des_P :: "nat list" where
  "des_P =
  [16, 7, 20, 21, 29, 12, 28, 17, 1, 15, 23, 26, 5, 18, 31, 10,
   2, 8, 24, 14, 32, 27, 3, 9, 19, 13, 30, 6, 22, 11, 4, 25]"

definition des_PC1 :: "nat list" where
  "des_PC1 =
  [57, 49, 41, 33, 25, 17, 9, 1, 58, 50, 42, 34, 26, 18, 10, 2,
   59, 51, 43, 35, 27, 19, 11, 3, 60, 52, 44, 36, 63, 55, 47, 39,
   31, 23, 15, 7, 62, 54, 46, 38, 30, 22, 14, 6, 61, 53, 45, 37,
   29, 21, 13, 5, 28, 20, 12, 4]"

definition des_PC2 :: "nat list" where
  "des_PC2 =
  [14, 17, 11, 24, 1, 5, 3, 28, 15, 6, 21, 10, 23, 19, 12, 4,
   26, 8, 16, 7, 27, 20, 13, 2, 41, 52, 31, 37, 47, 55, 30, 40,
   51, 45, 33, 48, 44, 49, 39, 56, 34, 53, 46, 42, 50, 36, 29, 32]"

definition des_SHIFTS :: "nat list" where
  "des_SHIFTS =
  [1, 1, 2, 2, 2, 2, 2, 2, 1, 2, 2, 2, 2, 2, 2, 1]"

definition des_SBOX :: "u8 list list" where
  "des_SBOX =
  [[14, 4, 13, 1, 2, 15, 11, 8, 3, 10, 6, 12, 5, 9, 0, 7,
    0, 15, 7, 4, 14, 2, 13, 1, 10, 6, 12, 11, 9, 5, 3, 8,
    4, 1, 14, 8, 13, 6, 2, 11, 15, 12, 9, 7, 3, 10, 5, 0,
    15, 12, 8, 2, 4, 9, 1, 7, 5, 11, 3, 14, 10, 0, 6, 13],
   [15, 1, 8, 14, 6, 11, 3, 4, 9, 7, 2, 13, 12, 0, 5, 10,
    3, 13, 4, 7, 15, 2, 8, 14, 12, 0, 1, 10, 6, 9, 11, 5,
    0, 14, 7, 11, 10, 4, 13, 1, 5, 8, 12, 6, 9, 3, 2, 15,
    13, 8, 10, 1, 3, 15, 4, 2, 11, 6, 7, 12, 0, 5, 14, 9],
   [10, 0, 9, 14, 6, 3, 15, 5, 1, 13, 12, 7, 11, 4, 2, 8,
    13, 7, 0, 9, 3, 4, 6, 10, 2, 8, 5, 14, 12, 11, 15, 1,
    13, 6, 4, 9, 8, 15, 3, 0, 11, 1, 2, 12, 5, 10, 14, 7,
    1, 10, 13, 0, 6, 9, 8, 7, 4, 15, 14, 3, 11, 5, 2, 12],
   [7, 13, 14, 3, 0, 6, 9, 10, 1, 2, 8, 5, 11, 12, 4, 15,
    13, 8, 11, 5, 6, 15, 0, 3, 4, 7, 2, 12, 1, 10, 14, 9,
    10, 6, 9, 0, 12, 11, 7, 13, 15, 1, 3, 14, 5, 2, 8, 4,
    3, 15, 0, 6, 10, 1, 13, 8, 9, 4, 5, 11, 12, 7, 2, 14],
   [2, 12, 4, 1, 7, 10, 11, 6, 8, 5, 3, 15, 13, 0, 14, 9,
    14, 11, 2, 12, 4, 7, 13, 1, 5, 0, 15, 10, 3, 9, 8, 6,
    4, 2, 1, 11, 10, 13, 7, 8, 15, 9, 12, 5, 6, 3, 0, 14,
    11, 8, 12, 7, 1, 14, 2, 13, 6, 15, 0, 9, 10, 4, 5, 3],
   [12, 1, 10, 15, 9, 2, 6, 8, 0, 13, 3, 4, 14, 7, 5, 11,
    10, 15, 4, 2, 7, 12, 9, 5, 6, 1, 13, 14, 0, 11, 3, 8,
    9, 14, 15, 5, 2, 8, 12, 3, 7, 0, 4, 10, 1, 13, 11, 6,
    4, 3, 2, 12, 9, 5, 15, 10, 11, 14, 1, 7, 6, 0, 8, 13],
   [4, 11, 2, 14, 15, 0, 8, 13, 3, 12, 9, 7, 5, 10, 6, 1,
    13, 0, 11, 7, 4, 9, 1, 10, 14, 3, 5, 12, 2, 15, 8, 6,
    1, 4, 11, 13, 12, 3, 7, 14, 10, 15, 6, 8, 0, 5, 9, 2,
    6, 11, 13, 8, 1, 4, 10, 7, 9, 5, 0, 15, 14, 2, 3, 12],
   [13, 2, 8, 4, 6, 15, 11, 1, 10, 9, 3, 14, 5, 0, 12, 7,
    1, 15, 13, 8, 10, 3, 7, 4, 12, 5, 6, 11, 0, 14, 9, 2,
    7, 11, 4, 1, 9, 12, 14, 2, 0, 6, 10, 13, 15, 3, 5, 8,
    2, 1, 14, 7, 4, 10, 8, 13, 15, 12, 9, 0, 3, 5, 6, 11]]"

record des3_ctx =
  des3_ks :: "u64 list list"

definition permute :: "u64 \<Rightarrow> nat list \<Rightarrow> nat \<Rightarrow> nat \<Rightarrow> u64" where
  "permute inp table n in_bits =
     fold (\<lambda>i out.
       let b = drop_bit (in_bits - table ! i) inp AND 1
       in out OR push_bit (n - 1 - i) b) [0..<n] 0"

definition des_key_step :: "nat \<Rightarrow> (u32 \<times> u32) \<times> u64 list \<Rightarrow> (u32 \<times> u32) \<times> u64 list" where
  "des_key_step i = (\<lambda>((c, d), ks).
     let s = des_SHIFTS ! i;
         c = (push_bit s c OR drop_bit (28 - s) c) AND 0x0FFFFFFF;
         d = (push_bit s d OR drop_bit (28 - s) d) AND 0x0FFFFFFF;
         cd = push_bit 28 (ucast c) OR ucast d
     in ((c, d), ks @ [permute cd des_PC2 48 56]))"

definition des_setkey_single :: "u64 \<Rightarrow> u64 list" where
  "des_setkey_single key =
     (let permuted = permute key des_PC1 56 64;
          c = ucast (drop_bit 28 permuted AND 0x0FFFFFFF);
          d = ucast (permuted AND 0x0FFFFFFF)
      in snd (fold des_key_step [0..<16] ((c, d), [])))"

definition des_f :: "u32 \<Rightarrow> u64 \<Rightarrow> u32" where
  "des_f r k =
     (let er = permute (ucast r) des_E 48 32 XOR k;
          out = fold (\<lambda>i out.
            let six = ucast (drop_bit (42 - 6 * i) er AND 0x3F) :: u8;
                row = drop_bit 4 (six AND 0x20) OR (six AND 1);
                col = drop_bit 1 six AND 0x0F
            in out OR push_bit (28 - 4 * i)
                 (ucast (des_SBOX ! i ! (unat row * 16 + unat col)))) [0..<8] (0 :: u32)
      in ucast (permute (ucast out) des_P 32 32))"

definition des_crypt_block :: "u64 \<Rightarrow> u64 list \<Rightarrow> bool \<Rightarrow> u64" where
  "des_crypt_block blk ks decrypt =
     (let ip = permute blk des_IP 64 64;
          l = ucast (drop_bit 32 ip) :: u32;
          r = ucast (ip AND 0xFFFFFFFF) :: u32;
          (l, r) = fold (\<lambda>i.
            let ki = (if decrypt then 15 - i else i)
            in feistel_round (\<lambda>k r. des_f r k) (XOR) (ks ! ki)) [0..<16] (l, r);
          pre = push_bit 32 (ucast r) OR ucast l
      in permute pre des_FP 64 64)"

definition des_load :: "bytes \<Rightarrow> u64" where
  "des_load p = fold (\<lambda>i b. push_bit 8 b OR ucast (p ! i)) [0..<8] 0"

definition des_store :: "u64 \<Rightarrow> bytes" where
  "des_store b = map (\<lambda>i. ucast (drop_bit (56 - 8 * i) b)) [0..<8]"

definition des3_setkey :: "bytes \<Rightarrow> des3_ctx" where
  "des3_setkey key24 =
     \<lparr>des3_ks = map (\<lambda>k. des_setkey_single (des_load (drop (k * 8) key24))) [0..<3]\<rparr>"

definition des3_encrypt_block :: "des3_ctx \<Rightarrow> block_cipher_fn" where
  "des3_encrypt_block ctx p =
     (let b = des_load p;
          b = des_crypt_block b (des3_ks ctx ! 0) False;
          b = des_crypt_block b (des3_ks ctx ! 1) True;
          b = des_crypt_block b (des3_ks ctx ! 2) False
      in (1, des_store b))"

definition des3_decrypt_block :: "des3_ctx \<Rightarrow> block_cipher_fn" where
  "des3_decrypt_block ctx p =
     (let b = des_load p;
          b = des_crypt_block b (des3_ks ctx ! 2) True;
          b = des_crypt_block b (des3_ks ctx ! 1) False;
          b = des_crypt_block b (des3_ks ctx ! 0) True
      in (1, des_store b))"

section \<open>The bit permutation\<close>

lemma bit_fold_or:
  "bit (fold (\<lambda>i out. out OR f i) xs a) n \<longleftrightarrow> bit a n \<or> (\<exists>i\<in>set xs. bit (f i) n)"
  for f :: "nat \<Rightarrow> 'a::len word"
  by (induction xs arbitrary: a) (auto simp: bit_or_iff)

lemma bit_push_bit_and_1:
  "bit (push_bit k (x AND 1) :: u64) j \<longleftrightarrow> j = k \<and> j < 64 \<and> bit x 0"
proof -
  have "bit (push_bit k (x AND 1) :: u64) j \<longleftrightarrow> k \<le> j \<and> j < 64 \<and> bit x (j - k) \<and> j - k = 0"
    by (simp only: bit_push_bit_iff bit_and_iff bit_1_iff) auto
  also have "\<dots> \<longleftrightarrow> j = k \<and> j < 64 \<and> bit x 0"
    by auto
  finally show ?thesis .
qed

lemma bit_permute:
  assumes "n \<le> 64"
  shows "bit (permute x tab n m) j \<longleftrightarrow> j < n \<and> bit x (m - tab ! (n - 1 - j))"
proof -
  have "bit (permute x tab n m) j \<longleftrightarrow>
      (\<exists>i<n. j = n - 1 - i \<and> j < 64 \<and> bit x (m - tab ! i))"
    unfolding permute_def Let_def bit_fold_or bit_push_bit_and_1
    by (auto simp: bit_drop_bit_eq)
  also have "\<dots> \<longleftrightarrow> j < n \<and> bit x (m - tab ! (n - 1 - j))"
    using assms by (auto intro: exI [of _ "n - 1 - j"])
  finally show ?thesis .
qed

lemma des_IP_FP_tables:
  "\<forall>j\<in>set [0..<64]. 64 - des_FP ! (63 - (64 - des_IP ! (63 - j))) = j \<and> 64 - des_IP ! (63 - j) < 64 \<and>
     64 - des_IP ! (63 - (64 - des_FP ! (63 - j))) = j \<and> 64 - des_FP ! (63 - j) < 64"
  by code_simp

lemma permute_IP_FP: "permute (permute x des_FP 64 64) des_IP 64 64 = x"
proof (rule bit_eqI)
  fix j assume "possible_bit TYPE(64 word) j"
  then have "j \<in> set [0..<64]" by simp
  with des_IP_FP_tables show "bit (permute (permute x des_FP 64 64) des_IP 64 64) j = bit x j"
    by (simp add: bit_permute)
qed

lemma permute_FP_IP: "permute (permute x des_IP 64 64) des_FP 64 64 = x"
proof (rule bit_eqI)
  fix j assume "possible_bit TYPE(64 word) j"
  then have "j \<in> set [0..<64]" by simp
  with des_IP_FP_tables show "bit (permute (permute x des_IP 64 64) des_FP 64 64) j = bit x j"
    by (simp add: bit_permute)
qed

section \<open>Single DES and the composition\<close>

definition des_split :: "u64 \<Rightarrow> u32 \<times> u32" where
  "des_split x = (ucast (drop_bit 32 x), ucast (x AND 0xFFFFFFFF))"

definition des_join :: "u32 \<times> u32 \<Rightarrow> u64" where
  "des_join = (\<lambda>(l, r). push_bit 32 (ucast r) OR ucast l)"

interpretation des_rounds: feistel "\<lambda>k r. des_f r k" "(XOR)"
  by unfold_locales simp

lemma des_split_join: "des_split (des_join s) = prod.swap s"
  by (cases s) (simp add: des_split_def des_join_def del: unsigned_or_eq drop_bit_or)

lemma des_join_swap_split: "des_join (prod.swap (des_split x)) = x"
  by (simp add: des_split_def des_join_def)

lemma des_crypt_block_alt:
  "des_crypt_block x ks d =
     permute (des_join (fold (\<lambda>i. feistel_round (\<lambda>k r. des_f r k) (XOR) (ks ! (if d then 15 - i else i)))
       [0..<16] (des_split (permute x des_IP 64 64)))) des_FP 64 64"
  by (simp add: des_crypt_block_def des_split_def des_join_def Let_def split: prod.splits)

lemma des_crypt_block_inverse:
  "des_crypt_block (des_crypt_block x ks False) ks True = x"
  "des_crypt_block (des_crypt_block x ks True) ks False = x"
proof -
  have idx: "fold (\<lambda>i. feistel_round (\<lambda>k r. des_f r k) (XOR) (ks ! i)) [0..<16] =
      fold (\<lambda>i. feistel_round (\<lambda>k r. des_f r k) (XOR) (ks ! (15 - (15 - i)))) [0..<16]"
    by (intro ext fold_cong) auto
  show "des_crypt_block (des_crypt_block x ks False) ks True = x"
    using des_rounds.indexed_rounds_reflect [of "(!) ks" 16]
    by (simp add: des_crypt_block_alt permute_IP_FP des_split_join des_join_swap_split permute_FP_IP)
  show "des_crypt_block (des_crypt_block x ks True) ks False = x"
    using des_rounds.indexed_rounds_reflect [of "\<lambda>i. ks ! (15 - i)" 16]
    by (simp add: des_crypt_block_alt permute_IP_FP des_split_join des_join_swap_split permute_FP_IP
        idx del: diff_diff_cancel)
qed

lemma des_load_eq: "des_load p = sar_load64be p"
  by (simp add: des_load_def sar_load64be_def upt_8 push_bit_or or.assoc)

lemma des_store_eq: "des_store b = sar_store64be b"
  by (simp add: des_store_def sar_store64be_def upt_8)

interpretation des3: block_cipher "\<lambda>_. True" des3_encrypt_block des3_decrypt_block 8
proof
  fix c :: des3_ctx and p :: bytes
  assume "length p = 8"
  then have "sar_store64be (sar_load64be p) = p"
    by (elim list8E) simp
  then show "snd (des3_decrypt_block c (snd (des3_encrypt_block c p))) = p"
    by (simp add: des3_encrypt_block_def des3_decrypt_block_def Let_def des_load_eq des_store_eq
        des_crypt_block_inverse)
qed (simp_all add: des3_encrypt_block_def des3_decrypt_block_def Let_def des_store_eq)

end
