(* ===== verification/Camellia.thy ===== *)
theory Camellia
  imports Block_Cipher
begin

text \<open>
  The Camellia block cipher of \<^verbatim>\<open>engine/ciphers/camellia.c\<close>. The three derived substitution tables
  the C code fills on first use (\<^verbatim>\<open>init_sboxes\<close>, called first thing by the key schedule) are
  definitions over the first one.
\<close>

section \<open>Definitions\<close>

definition cam_SBOX1 :: "u8 list" where
  "cam_SBOX1 =
  [112, 130, 44, 236, 179, 39, 192, 229, 228, 133, 87, 53, 234, 12, 174, 65,
   35, 239, 107, 147, 69, 25, 165, 33, 237, 14, 79, 78, 29, 101, 146, 189,
   134, 184, 175, 143, 124, 235, 31, 206, 62, 48, 220, 95, 94, 197, 11, 26,
   166, 225, 57, 202, 213, 71, 93, 61, 217, 1, 90, 214, 81, 86, 108, 77,
   139, 13, 154, 102, 251, 204, 176, 45, 116, 18, 43, 32, 240, 177, 132, 153,
   223, 76, 203, 194, 52, 126, 118, 5, 109, 183, 169, 49, 209, 23, 4, 215,
   20, 88, 58, 97, 222, 27, 17, 28, 50, 15, 156, 22, 83, 24, 242, 34,
   254, 68, 207, 178, 195, 181, 122, 145, 36, 8, 232, 168, 96, 252, 105, 80,
   170, 208, 160, 125, 161, 137, 98, 151, 84, 91, 30, 149, 224, 255, 100, 210,
   16, 196, 0, 72, 163, 247, 117, 219, 138, 3, 230, 218, 9, 63, 221, 148,
   135, 92, 131, 2, 205, 74, 144, 51, 115, 103, 246, 243, 157, 127, 191, 226,
   82, 155, 216, 38, 200, 55, 198, 59, 129, 150, 111, 75, 19, 190, 99, 46,
   233, 121, 167, 140, 159, 110, 188, 142, 41, 245, 249, 182, 47, 253, 180, 89,
   120, 152, 6, 106, 231, 70, 113, 186, 212, 37, 171, 66, 136, 162, 141, 250,
   114, 7, 185, 85, 248, 238, 172, 10, 54, 73, 42, 104, 60, 56, 241, 164,
   64, 40, 211, 123, 187, 201, 67, 193, 21, 227, 173, 244, 119, 199, 128, 158]"

definition cam_SBOX2 :: "u8 list" where
  "cam_SBOX2 = map (\<lambda>x. push_bit 1 x OR drop_bit 7 x) cam_SBOX1"

definition cam_SBOX3 :: "u8 list" where
  "cam_SBOX3 = map (\<lambda>x. drop_bit 1 x OR push_bit 7 x) cam_SBOX1"

definition cam_SBOX4 :: "u8 list" where
  "cam_SBOX4 = map (\<lambda>i. let b = word_of_nat i :: u8
     in cam_SBOX1 ! unat (push_bit 1 b OR drop_bit 7 b)) [0..<256]"

definition cam_SIGMA :: "u64 list" where
  "cam_SIGMA =
  [0xa09e667f3bcc908b, 0xb67ae8584caa73b2, 0xc6ef372fe94f82be,
   0x54ff53a5f1d36f1c, 0x10e527fade682d1d, 0xb05688c2b3e6c1fd]"

record camellia_ctx =
  cam_kw :: "u64 list"
  cam_k :: "u64 list"
  cam_ke :: "u64 list"
  cam_rounds :: nat

definition camellia_f :: "u64 \<Rightarrow> u64 \<Rightarrow> u64" where
  "camellia_f x k =
     (let y = x XOR k;
          t = sar_store64be y;
          y1 = cam_SBOX1 ! unat (t ! 0);
          y2 = cam_SBOX2 ! unat (t ! 1);
          y3 = cam_SBOX3 ! unat (t ! 2);
          y4 = cam_SBOX4 ! unat (t ! 3);
          y5 = cam_SBOX2 ! unat (t ! 4);
          y6 = cam_SBOX3 ! unat (t ! 5);
          y7 = cam_SBOX4 ! unat (t ! 6);
          y8 = cam_SBOX1 ! unat (t ! 7);
          z1 = y1 XOR y3 XOR y4 XOR y6 XOR y7 XOR y8;
          z2 = y1 XOR y2 XOR y4 XOR y5 XOR y7 XOR y8;
          z3 = y1 XOR y2 XOR y3 XOR y5 XOR y6 XOR y8;
          z4 = y2 XOR y3 XOR y4 XOR y5 XOR y6 XOR y7;
          z5 = y1 XOR y2 XOR y6 XOR y7 XOR y8;
          z6 = y2 XOR y3 XOR y5 XOR y7 XOR y8;
          z7 = y3 XOR y4 XOR y5 XOR y6 XOR y8;
          z8 = y1 XOR y4 XOR y5 XOR y6 XOR y7
      in sar_load64be [z1, z2, z3, z4, z5, z6, z7, z8])"

definition camellia_fl :: "u64 \<Rightarrow> u64 \<Rightarrow> u64" where
  "camellia_fl x k =
     (let xl = ucast (drop_bit 32 x) :: u32;
          xr = ucast (x AND 0xFFFFFFFF) :: u32;
          kl = ucast (drop_bit 32 k) :: u32;
          kr = ucast (k AND 0xFFFFFFFF) :: u32;
          yr = xr XOR SAR_ROTL32 (xl AND kl) 1;
          yl = xl XOR (yr OR kr)
      in push_bit 32 (ucast yl) OR ucast yr)"

definition camellia_flinv :: "u64 \<Rightarrow> u64 \<Rightarrow> u64" where
  "camellia_flinv y k =
     (let yl = ucast (drop_bit 32 y) :: u32;
          yr = ucast (y AND 0xFFFFFFFF) :: u32;
          kl = ucast (drop_bit 32 k) :: u32;
          kr = ucast (k AND 0xFFFFFFFF) :: u32;
          xl = yl XOR (yr OR kr);
          xr = yr XOR SAR_ROTL32 (xl AND kl) 1
      in push_bit 32 (ucast xl) OR ucast xr)"

definition rotl128 :: "u64 \<Rightarrow> u64 \<Rightarrow> nat \<Rightarrow> u64 list" where
  "rotl128 hi lo n =
     (let n = n mod 128
      in if n = 0 then [hi, lo]
         else if n < 64 then
           [push_bit n hi OR drop_bit (64 - n) lo, push_bit n lo OR drop_bit (64 - n) hi]
         else
           let n = n - 64
           in if n = 0 then [lo, hi]
              else [push_bit n lo OR drop_bit (64 - n) hi, push_bit n hi OR drop_bit (64 - n) lo])"

definition camellia_schedule_18 :: "u64 \<Rightarrow> u64 \<Rightarrow> u64 \<Rightarrow> u64 \<Rightarrow> camellia_ctx" where
  "camellia_schedule_18 kl_hi kl_lo ka_hi ka_lo =
     \<lparr>cam_kw = [kl_hi, kl_lo] @ rotl128 ka_hi ka_lo 111,
      cam_k = [ka_hi, ka_lo] @
        rotl128 kl_hi kl_lo 15 @ rotl128 ka_hi ka_lo 15 @
        rotl128 kl_hi kl_lo 45 @ [rotl128 ka_hi ka_lo 45 ! 0] @ [rotl128 kl_hi kl_lo 60 ! 1] @
        rotl128 ka_hi ka_lo 60 @
        rotl128 kl_hi kl_lo 94 @ rotl128 ka_hi ka_lo 94 @ rotl128 kl_hi kl_lo 111 @
        replicate 6 0,
      cam_ke = rotl128 ka_hi ka_lo 30 @ rotl128 kl_hi kl_lo 77 @ replicate 2 0,
      cam_rounds = 18\<rparr>"

definition camellia_schedule_24 ::
  "u64 \<Rightarrow> u64 \<Rightarrow> u64 \<Rightarrow> u64 \<Rightarrow> u64 \<Rightarrow> u64 \<Rightarrow> u64 \<Rightarrow> u64 \<Rightarrow> camellia_ctx" where
  "camellia_schedule_24 kl_hi kl_lo kr_hi kr_lo ka_hi ka_lo kb_hi kb_lo =
     \<lparr>cam_kw = [kl_hi, kl_lo] @ rotl128 kb_hi kb_lo 111,
      cam_k = [kb_hi, kb_lo] @
        rotl128 kr_hi kr_lo 15 @ rotl128 ka_hi ka_lo 15 @
        rotl128 kb_hi kb_lo 30 @ rotl128 kl_hi kl_lo 45 @ rotl128 ka_hi ka_lo 45 @
        rotl128 kr_hi kr_lo 60 @ rotl128 kb_hi kb_lo 60 @ rotl128 kl_hi kl_lo 77 @
        rotl128 kr_hi kr_lo 94 @ rotl128 ka_hi ka_lo 94 @ rotl128 kl_hi kl_lo 111,
      cam_ke = rotl128 kr_hi kr_lo 30 @ rotl128 kl_hi kl_lo 60 @ rotl128 ka_hi ka_lo 77,
      cam_rounds = 24\<rparr>"

definition camellia_key_schedule :: "bytes \<Rightarrow> nat \<Rightarrow> camellia_ctx" where
  "camellia_key_schedule key key_len =
     (let kl_hi = sar_load64be key;
          kl_lo = sar_load64be (drop 8 key);
          (kr_hi, kr_lo, rounds) =
            (if key_len = 16 then (0, 0, 18 :: nat)
             else if key_len = 24 then
               (sar_load64be (drop 16 key), NOT (sar_load64be (drop 16 key)), 24)
             else (sar_load64be (drop 16 key), sar_load64be (drop 24 key), 24));
          d1 = kl_hi XOR kr_hi;
          d2 = kl_lo XOR kr_lo;
          d2 = d2 XOR camellia_f d1 (cam_SIGMA ! 0);
          d1 = d1 XOR camellia_f d2 (cam_SIGMA ! 1);
          d1 = d1 XOR kl_hi;
          d2 = d2 XOR kl_lo;
          d2 = d2 XOR camellia_f d1 (cam_SIGMA ! 2);
          d1 = d1 XOR camellia_f d2 (cam_SIGMA ! 3);
          ka_hi = d1; ka_lo = d2;
          d1 = ka_hi XOR kr_hi;
          d2 = ka_lo XOR kr_lo;
          d2 = d2 XOR camellia_f d1 (cam_SIGMA ! 4);
          d1 = d1 XOR camellia_f d2 (cam_SIGMA ! 5);
          kb_hi = d1; kb_lo = d2
      in if rounds = 18 then camellia_schedule_18 kl_hi kl_lo ka_hi ka_lo
         else camellia_schedule_24 kl_hi kl_lo kr_hi kr_lo ka_hi ka_lo kb_hi kb_lo)"

definition camellia_round :: "u64 list \<Rightarrow> nat \<Rightarrow> nat \<Rightarrow> u64 \<times> u64 \<Rightarrow> u64 \<times> u64" where
  "camellia_round rk base r = (\<lambda>(d1, d2).
     if r mod 2 = 0 then (d1, d2 XOR camellia_f d1 (rk ! (base + r)))
     else (d1 XOR camellia_f d2 (rk ! (base + r)), d2))"

definition camellia_group ::
  "u64 list \<Rightarrow> u64 list \<Rightarrow> nat \<Rightarrow> nat \<Rightarrow> u64 \<times> u64 \<Rightarrow> u64 \<times> u64" where
  "camellia_group rk fk nfl g s =
     (let base = g * 6;
          (d1, d2) = fold (camellia_round rk base) [0..<6] s
      in if g < nfl
         then (camellia_fl d1 (fk ! (g * 2)), camellia_flinv d2 (fk ! (g * 2 + 1)))
         else (d1, d2))"

definition camellia_crypt :: "camellia_ctx \<Rightarrow> bytes \<Rightarrow> bool \<Rightarrow> bytes" where
  "camellia_crypt ctx p decrypt =
     (let d1 = sar_load64be p;
          d2 = sar_load64be (drop 8 p);
          nk = (if cam_rounds ctx = 18 then 18 else 24);
          (kw_pre0, kw_pre1, kw_post0, kw_post1, rk, fk) =
            (if \<not> decrypt then
               (cam_kw ctx ! 0, cam_kw ctx ! 1, cam_kw ctx ! 2, cam_kw ctx ! 3,
                map (\<lambda>i. cam_k ctx ! i) [0..<nk], map (\<lambda>i. cam_ke ctx ! i) [0..<6])
             else
               (cam_kw ctx ! 2, cam_kw ctx ! 3, cam_kw ctx ! 0, cam_kw ctx ! 1,
                map (\<lambda>i. cam_k ctx ! (nk - 1 - i)) [0..<nk],
                if cam_rounds ctx = 18
                then [cam_ke ctx ! 3, cam_ke ctx ! 2, cam_ke ctx ! 1, cam_ke ctx ! 0]
                else [cam_ke ctx ! 5, cam_ke ctx ! 4, cam_ke ctx ! 3, cam_ke ctx ! 2,
                      cam_ke ctx ! 1, cam_ke ctx ! 0]));
          d1 = d1 XOR kw_pre0;
          d2 = d2 XOR kw_pre1;
          nfl = (if cam_rounds ctx = 18 then 2 else 3);
          (d1, d2) = fold (camellia_group rk fk nfl) [0..<nfl + 1] (d1, d2);
          d2 = d2 XOR kw_post0;
          d1 = d1 XOR kw_post1
      in sar_store64be d2 @ sar_store64be d1)"

definition camellia_encrypt_block :: "camellia_ctx \<Rightarrow> block_cipher_fn" where
  "camellia_encrypt_block ctx p = (1, camellia_crypt ctx p False)"

definition camellia_decrypt_block :: "camellia_ctx \<Rightarrow> block_cipher_fn" where
  "camellia_decrypt_block ctx p = (1, camellia_crypt ctx p True)"

section \<open>The layers as reflected steps\<close>

text \<open>
  For the proof, the rounds are a list of steps: a pair of Feistel rounds, or an FL layer. Each is
  undone by itself with its two keys exchanged once the halves are exchanged.
\<close>

datatype camellia_step = Two_Rounds u64 u64 | FL_Layer u64 u64

primrec camellia_do :: "camellia_step \<Rightarrow> u64 \<times> u64 \<Rightarrow> u64 \<times> u64" where
  "camellia_do (Two_Rounds a b) s =
     (let d1 = fst s; d2 = snd s; d2 = d2 XOR camellia_f d1 a; d1 = d1 XOR camellia_f d2 b
      in (d1, d2))"
| "camellia_do (FL_Layer a b) s = (camellia_fl (fst s) a, camellia_flinv (snd s) b)"

primrec camellia_mirror :: "camellia_step \<Rightarrow> camellia_step" where
  "camellia_mirror (Two_Rounds a b) = Two_Rounds b a"
| "camellia_mirror (FL_Layer a b) = FL_Layer b a"

definition camellia_steps :: "(nat \<Rightarrow> u64) \<Rightarrow> (nat \<Rightarrow> u64) \<Rightarrow> nat \<Rightarrow> camellia_step list" where
  "camellia_steps rk fk g =
     [Two_Rounds (rk (g * 6)) (rk (g * 6 + 1)), Two_Rounds (rk (g * 6 + 2)) (rk (g * 6 + 3)),
      Two_Rounds (rk (g * 6 + 4)) (rk (g * 6 + 5)), FL_Layer (fk (g * 2)) (fk (g * 2 + 1))]"

lemma camellia_flinv_fl [simp]: "camellia_flinv (camellia_fl x k) k = x"
  by (simp add: camellia_fl_def camellia_flinv_def Let_def del: unsigned_or_eq drop_bit_or)

lemma camellia_fl_flinv [simp]: "camellia_fl (camellia_flinv x k) k = x"
  by (simp add: camellia_fl_def camellia_flinv_def Let_def del: unsigned_or_eq drop_bit_or)

interpretation camellia_layers: reflected_rounds camellia_do camellia_mirror prod.swap
proof
  fix k s
  show "camellia_do (camellia_mirror k) (prod.swap (camellia_do k s)) = prod.swap s"
    by (cases k; cases s) (simp_all add: Let_def)
qed

lemma upt_6: "[0..<6] = [0, 1, 2, 3, 4, 5]"
  by code_simp

lemma camellia_two_rounds:
  assumes "even r"
  shows "camellia_round rk base (Suc r) (camellia_round rk base r s) =
    camellia_do (Two_Rounds (rk ! (base + r)) (rk ! (base + Suc r))) s"
  using assms by (simp add: camellia_round_def Let_def even_iff_mod_2_eq_zero mod_Suc
      split: prod.splits)

lemma camellia_six_rounds:
  "fold (camellia_round rk (g * 6)) [0..<6] s =
     fold camellia_do (butlast (camellia_steps ((!) rk) ((!) fk) g)) s"
  using camellia_two_rounds [of 0 rk "g * 6"] camellia_two_rounds [of 2 rk "g * 6"]
    camellia_two_rounds [of 4 rk "g * 6"]
  by (simp add: upt_6 camellia_steps_def del: camellia_do.simps)

lemma camellia_group_steps:
  "camellia_group rk fk nfl g s =
     fold camellia_do
       (let st = camellia_steps ((!) rk) ((!) fk) g in if g < nfl then st else butlast st) s"
  unfolding camellia_group_def Let_def camellia_six_rounds [of rk g s fk]
  by (simp add: camellia_steps_def split: prod.splits)

lemma upt_small: "[0..<2] = [0, 1]" "[0..<3] = [0, 1, 2]"
  by code_simp+

lemma camellia_steps_eq:
  "fold camellia_do (camellia_steps rk fk g) s =
     camellia_do (FL_Layer (fk (g * 2)) (fk (g * 2 + 1)))
       (fold camellia_do (butlast (camellia_steps rk fk g)) s)"
  by (simp add: camellia_steps_def)

definition camellia_all_steps :: "u64 list \<Rightarrow> u64 list \<Rightarrow> nat \<Rightarrow> camellia_step list" where
  "camellia_all_steps rk fk nfl =
     concat (map (camellia_steps ((!) rk) ((!) fk)) [0..<nfl]) @
     butlast (camellia_steps ((!) rk) ((!) fk) nfl)"

lemma camellia_groups_prefix:
  "n \<le> nfl \<Longrightarrow> fold (camellia_group rk fk nfl) [0..<n] s =
     fold camellia_do (concat (map (camellia_steps ((!) rk) ((!) fk)) [0..<n])) s"
  by (induction n) (simp_all add: camellia_group_steps Let_def)

lemma camellia_groups_steps:
  "fold (camellia_group rk fk nfl) [0..<nfl + 1] s =
     fold camellia_do (camellia_all_steps rk fk nfl) s"
  by (simp add: camellia_all_steps_def camellia_groups_prefix camellia_group_steps Let_def)

lemma camellia_mirror_18:
  "map camellia_mirror (rev (camellia_all_steps (map ((!) k) [0..<18]) (map ((!) ke) [0..<6]) 2)) =
     camellia_all_steps (map (\<lambda>i. k ! (18 - 1 - i)) [0..<18]) [ke ! 3, ke ! 2, ke ! 1, ke ! 0] 2"
  by (simp add: camellia_all_steps_def camellia_steps_def upt_small numeral_2_eq_2 [symmetric])

lemma camellia_mirror_24:
  "map camellia_mirror (rev (camellia_all_steps (map ((!) k) [0..<24]) (map ((!) ke) [0..<6]) 3)) =
     camellia_all_steps (map (\<lambda>i. k ! (24 - 1 - i)) [0..<24])
       [ke ! 5, ke ! 4, ke ! 3, ke ! 2, ke ! 1, ke ! 0] 3"
  by (simp add: camellia_all_steps_def camellia_steps_def upt_small numeral_2_eq_2 [symmetric])

lemma camellia_crypt_length [simp]: "length (camellia_crypt ctx p d) = 16"
  by (simp add: camellia_crypt_def Let_def split: prod.splits)

definition camellia_keys :: "camellia_ctx \<Rightarrow> bool \<Rightarrow> u64 \<times> u64 \<times> u64 \<times> u64 \<times> camellia_step list" where
  "camellia_keys ctx decrypt =
     (let w = (\<lambda>i. cam_kw ctx ! i);
          n = (if cam_rounds ctx = 18 then 2 else 3);
          nk = (if cam_rounds ctx = 18 then 18 else 24);
          ops = camellia_all_steps (map ((!) (cam_k ctx)) [0..<nk]) (map ((!) (cam_ke ctx)) [0..<6]) n
      in if decrypt then (w 2, w 3, w 0, w 1, map camellia_mirror (rev ops))
         else (w 0, w 1, w 2, w 3, ops))"

lemma camellia_crypt_keys:
  "camellia_crypt ctx p decrypt =
     (case camellia_keys ctx decrypt of (a0, a1, b0, b1, ops) \<Rightarrow>
       (case fold camellia_do ops (sar_load64be p XOR a0, sar_load64be (drop 8 p) XOR a1) of
         (d1, d2) \<Rightarrow> sar_store64be (d2 XOR b0) @ sar_store64be (d1 XOR b1)))"
  unfolding camellia_crypt_def camellia_keys_def Let_def camellia_groups_steps
  by (cases decrypt; cases "cam_rounds ctx = 18")
    (simp_all only: simp_thms if_True if_False split_conv
      camellia_groups_steps camellia_mirror_18 camellia_mirror_24)

lemma camellia_load_store:
  "sar_load64be (sar_store64be a @ sar_store64be b) = a"
  "sar_load64be (drop 8 (sar_store64be a @ sar_store64be b)) = b"
  by simp_all

lemma camellia_store_load:
  "length p = 16 \<Longrightarrow> sar_store64be (sar_load64be p) @ sar_store64be (sar_load64be (drop 8 p)) = p"
  by (elim list16E) simp

interpretation camellia: block_cipher "\<lambda>_. True" camellia_encrypt_block camellia_decrypt_block 16
proof
  fix c :: camellia_ctx and p :: bytes
  assume p: "length p = 16"
  obtain a0 a1 b0 b1 ops where e: "camellia_keys c False = (a0, a1, b0, b1, ops)"
    by (metis prod_cases5)
  then have d: "camellia_keys c True = (b0, b1, a0, a1, map camellia_mirror (rev ops))"
    by (auto simp: camellia_keys_def Let_def)
  obtain d1 d2 where f:
    "fold camellia_do ops (sar_load64be p XOR a0, sar_load64be (drop 8 p) XOR a1) = (d1, d2)"
    by fastforce
  then have "fold camellia_do (map camellia_mirror (rev ops)) (d2, d1) =
      (sar_load64be (drop 8 p) XOR a1, sar_load64be p XOR a0)"
    using camellia_layers.rounds_reflect
      [of ops "(sar_load64be p XOR a0, sar_load64be (drop 8 p) XOR a1)"]
    by simp
  then show "snd (camellia_decrypt_block c (snd (camellia_encrypt_block c p))) = p"
    using p by (simp add: camellia_encrypt_block_def camellia_decrypt_block_def camellia_crypt_keys
        e d f camellia_load_store camellia_store_load)
qed (simp_all add: camellia_encrypt_block_def camellia_decrypt_block_def)

end
