(* ===== verification/Aes.thy ===== *)
theory Aes
  imports Block_Cipher
begin

text \<open>
  The AES block cipher of \<^verbatim>\<open>engine/ciphers/aes.c\<close>: the key schedule, the two block functions, the
  recovery of a master key from a window of its schedule, the test that a buffer is a key schedule,
  and the byte swap for word-reversed schedules. The schedule is the list of the bytes written so
  far: every word is appended after the ones it is computed from.
\<close>

section \<open>Definitions\<close>

definition aes_SBOX :: "u8 list" where
  "aes_SBOX =
  [99, 124, 119, 123, 242, 107, 111, 197, 48, 1, 103, 43, 254, 215, 171, 118,
   202, 130, 201, 125, 250, 89, 71, 240, 173, 212, 162, 175, 156, 164, 114, 192,
   183, 253, 147, 38, 54, 63, 247, 204, 52, 165, 229, 241, 113, 216, 49, 21,
   4, 199, 35, 195, 24, 150, 5, 154, 7, 18, 128, 226, 235, 39, 178, 117,
   9, 131, 44, 26, 27, 110, 90, 160, 82, 59, 214, 179, 41, 227, 47, 132,
   83, 209, 0, 237, 32, 252, 177, 91, 106, 203, 190, 57, 74, 76, 88, 207,
   208, 239, 170, 251, 67, 77, 51, 133, 69, 249, 2, 127, 80, 60, 159, 168,
   81, 163, 64, 143, 146, 157, 56, 245, 188, 182, 218, 33, 16, 255, 243, 210,
   205, 12, 19, 236, 95, 151, 68, 23, 196, 167, 126, 61, 100, 93, 25, 115,
   96, 129, 79, 220, 34, 42, 144, 136, 70, 238, 184, 20, 222, 94, 11, 219,
   224, 50, 58, 10, 73, 6, 36, 92, 194, 211, 172, 98, 145, 149, 228, 121,
   231, 200, 55, 109, 141, 213, 78, 169, 108, 86, 244, 234, 101, 122, 174, 8,
   186, 120, 37, 46, 28, 166, 180, 198, 232, 221, 116, 31, 75, 189, 139, 138,
   112, 62, 181, 102, 72, 3, 246, 14, 97, 53, 87, 185, 134, 193, 29, 158,
   225, 248, 152, 17, 105, 217, 142, 148, 155, 30, 135, 233, 206, 85, 40, 223,
   140, 161, 137, 13, 191, 230, 66, 104, 65, 153, 45, 15, 176, 84, 187, 22]"

definition aes_INV_SBOX :: "u8 list" where
  "aes_INV_SBOX =
  [82, 9, 106, 213, 48, 54, 165, 56, 191, 64, 163, 158, 129, 243, 215, 251,
   124, 227, 57, 130, 155, 47, 255, 135, 52, 142, 67, 68, 196, 222, 233, 203,
   84, 123, 148, 50, 166, 194, 35, 61, 238, 76, 149, 11, 66, 250, 195, 78,
   8, 46, 161, 102, 40, 217, 36, 178, 118, 91, 162, 73, 109, 139, 209, 37,
   114, 248, 246, 100, 134, 104, 152, 22, 212, 164, 92, 204, 93, 101, 182, 146,
   108, 112, 72, 80, 253, 237, 185, 218, 94, 21, 70, 87, 167, 141, 157, 132,
   144, 216, 171, 0, 140, 188, 211, 10, 247, 228, 88, 5, 184, 179, 69, 6,
   208, 44, 30, 143, 202, 63, 15, 2, 193, 175, 189, 3, 1, 19, 138, 107,
   58, 145, 17, 65, 79, 103, 220, 234, 151, 242, 207, 206, 240, 180, 230, 115,
   150, 172, 116, 34, 231, 173, 53, 133, 226, 249, 55, 232, 28, 117, 223, 110,
   71, 241, 26, 113, 29, 41, 197, 137, 111, 183, 98, 14, 170, 24, 190, 27,
   252, 86, 62, 75, 198, 210, 121, 32, 154, 219, 192, 254, 120, 205, 90, 244,
   31, 221, 168, 51, 136, 7, 199, 49, 177, 18, 16, 89, 39, 128, 236, 95,
   96, 81, 127, 169, 25, 181, 74, 13, 45, 229, 122, 159, 147, 201, 156, 239,
   160, 224, 59, 77, 174, 42, 245, 176, 200, 235, 187, 60, 131, 83, 153, 97,
   23, 43, 4, 126, 186, 119, 214, 38, 225, 105, 20, 99, 85, 33, 12, 125]"

definition aes_RCON :: "u8 list" where
  "aes_RCON = [0, 1, 2, 4, 8, 16, 32, 64, 128, 27, 54]"

record aes_ctx =
  aes_rk :: bytes
  aes_nr :: nat

definition xtime :: "u8 \<Rightarrow> u8" where
  "xtime x = push_bit 1 x XOR (drop_bit 7 x * 0x1b)"

definition gmul_step :: "u8 \<times> u8 \<times> u8 \<Rightarrow> u8 \<times> u8 \<times> u8" where
  "gmul_step = (\<lambda>(a, b, p).
     let p = (if b AND 1 \<noteq> 0 then p XOR a else p);
         hi = a AND 0x80;
         a = push_bit 1 a;
         a = (if hi \<noteq> 0 then a XOR 0x1b else a);
         b = drop_bit 1 b
     in (a, b, p))"

definition gmul :: "u8 \<Rightarrow> u8 \<Rightarrow> u8" where
  "gmul a b = (case fold (\<lambda>_. gmul_step) [0..<8] (a, b, 0) of (_, _, p) \<Rightarrow> p)"

definition aes_sub :: "u8 \<Rightarrow> u8" where
  "aes_sub b = aes_SBOX ! unat b"

definition aes_inv_sub :: "u8 \<Rightarrow> u8" where
  "aes_inv_sub b = aes_INV_SBOX ! unat b"

definition aes_temp :: "nat \<Rightarrow> nat \<Rightarrow> nat \<Rightarrow> bytes \<Rightarrow> bytes" where
  "aes_temp nk off rc t =
     (if off = 0 then
        [aes_sub (t ! 1) XOR aes_RCON ! rc, aes_sub (t ! 2), aes_sub (t ! 3), aes_sub (t ! 0)]
      else if nk > 6 \<and> off = 4 then
        [aes_sub (t ! 0), aes_sub (t ! 1), aes_sub (t ! 2), aes_sub (t ! 3)]
      else t)"

definition aes_word :: "bytes \<Rightarrow> nat \<Rightarrow> bytes" where
  "aes_word w i = slice w (i * 4) 4"

definition aes_next_word :: "nat \<Rightarrow> bytes \<Rightarrow> nat \<Rightarrow> bytes" where
  "aes_next_word nk w i =
     xor_bytes (aes_word w (i - nk)) (aes_temp nk (i mod nk) (i div nk) (aes_word w (i - 1)))"

definition aes_setkey :: "bytes \<Rightarrow> nat \<Rightarrow> aes_ctx" where
  "aes_setkey key key_len =
     (let nk = key_len div 4;
          nr = nk + 6;
          w = take (4 * nk) key;
          total = 4 * (nr + 1)
      in \<lparr>aes_rk = fold (\<lambda>i w. w @ aes_next_word nk w i) [nk..<total] w, aes_nr = nr\<rparr>)"

definition add_round_key :: "bytes \<Rightarrow> bytes \<Rightarrow> bytes" where
  "add_round_key s rk = xor_bytes s (take 16 rk)"

definition aes_shift_rows :: "bytes \<Rightarrow> bytes" where
  "aes_shift_rows s =
     (let t = s ! 1; s = s[1 := s ! 5]; s = s[5 := s ! 9]; s = s[9 := s ! 13]; s = s[13 := t];
          t = s ! 2; s = s[2 := s ! 10]; s = s[10 := t];
          t = s ! 6; s = s[6 := s ! 14]; s = s[14 := t];
          t = s ! 15; s = s[15 := s ! 11]; s = s[11 := s ! 7]; s = s[7 := s ! 3]; s = s[3 := t]
      in s)"

definition aes_mix_column :: "u8 \<Rightarrow> u8 \<Rightarrow> u8 \<Rightarrow> u8 \<Rightarrow> bytes" where
  "aes_mix_column a0 a1 a2 a3 =
     [xtime a0 XOR (xtime a1 XOR a1) XOR a2 XOR a3,
      a0 XOR xtime a1 XOR (xtime a2 XOR a2) XOR a3,
      a0 XOR a1 XOR xtime a2 XOR (xtime a3 XOR a3),
      (xtime a0 XOR a0) XOR a1 XOR a2 XOR xtime a3]"

definition aes_columns :: "(u8 \<Rightarrow> u8 \<Rightarrow> u8 \<Rightarrow> u8 \<Rightarrow> bytes) \<Rightarrow> bytes \<Rightarrow> bytes" where
  "aes_columns f s =
     concat (map (\<lambda>c. f (s ! (c * 4)) (s ! (c * 4 + 1)) (s ! (c * 4 + 2)) (s ! (c * 4 + 3))) [0..<4])"

definition aes_encrypt_round :: "aes_ctx \<Rightarrow> nat \<Rightarrow> bytes \<Rightarrow> bytes" where
  "aes_encrypt_round ctx round s =
     (let s = map aes_sub s;
          s = aes_shift_rows s;
          s = (if round \<noteq> aes_nr ctx then aes_columns aes_mix_column s else s)
      in add_round_key s (drop (round * 16) (aes_rk ctx)))"

definition aes_encrypt_block :: "aes_ctx \<Rightarrow> block_cipher_fn" where
  "aes_encrypt_block ctx p =
     (1, fold (aes_encrypt_round ctx) [1..<aes_nr ctx + 1] (add_round_key p (aes_rk ctx)))"

definition aes_inv_shift_rows :: "bytes \<Rightarrow> bytes" where
  "aes_inv_shift_rows s =
     (let t = s ! 13; s = s[13 := s ! 9]; s = s[9 := s ! 5]; s = s[5 := s ! 1]; s = s[1 := t];
          t = s ! 2; s = s[2 := s ! 10]; s = s[10 := t];
          t = s ! 6; s = s[6 := s ! 14]; s = s[14 := t];
          t = s ! 3; s = s[3 := s ! 7]; s = s[7 := s ! 11]; s = s[11 := s ! 15]; s = s[15 := t]
      in s)"

definition aes_inv_mix_column :: "u8 \<Rightarrow> u8 \<Rightarrow> u8 \<Rightarrow> u8 \<Rightarrow> bytes" where
  "aes_inv_mix_column a0 a1 a2 a3 =
     [gmul a0 14 XOR gmul a1 11 XOR gmul a2 13 XOR gmul a3 9,
      gmul a0 9 XOR gmul a1 14 XOR gmul a2 11 XOR gmul a3 13,
      gmul a0 13 XOR gmul a1 9 XOR gmul a2 14 XOR gmul a3 11,
      gmul a0 11 XOR gmul a1 13 XOR gmul a2 9 XOR gmul a3 14]"

definition aes_decrypt_round :: "aes_ctx \<Rightarrow> nat \<Rightarrow> bytes \<Rightarrow> bytes" where
  "aes_decrypt_round ctx round s =
     (let s = aes_inv_shift_rows s;
          s = map aes_inv_sub s;
          s = add_round_key s (drop (round * 16) (aes_rk ctx))
      in if round \<noteq> 0 then aes_columns aes_inv_mix_column s else s)"

definition aes_decrypt_block :: "aes_ctx \<Rightarrow> block_cipher_fn" where
  "aes_decrypt_block ctx p =
     (1, fold (aes_decrypt_round ctx) (rev [0..<aes_nr ctx])
           (add_round_key p (drop (aes_nr ctx * 16) (aes_rk ctx))))"

definition aes_prev_word ::
  "nat \<Rightarrow> nat \<Rightarrow> bytes list \<Rightarrow> nat \<Rightarrow> bytes list \<Rightarrow> bytes list" where
  "aes_prev_word nk b cur off prev =
     (let wim1 = (if off \<ge> 1 then cur ! (off - 1) else prev ! (nk - 1))
      in prev[off := xor_bytes (cur ! off) (aes_temp nk off b wim1)])"

definition aes_prev_block :: "nat \<Rightarrow> nat \<Rightarrow> bytes list \<times> bytes list \<Rightarrow> bytes list \<times> bytes list" where
  "aes_prev_block nk b = (\<lambda>(cur, prev).
     let prev = fold (aes_prev_word nk b cur) (rev [0..<nk]) prev in (prev, prev))"

definition aes_master_from_window :: "nat \<Rightarrow> bytes \<Rightarrow> int \<Rightarrow> bytes option" where
  "aes_master_from_window key_len window base_block =
     (let nk = key_len div 4
      in if nk \<noteq> 4 \<and> nk \<noteq> 6 \<and> nk \<noteq> 8 then None
         else if base_block < 1 then None
         else
           let cur = map (\<lambda>i. slice window (i * 4) 4) [0..<nk];
               (cur, prev) = fold (aes_prev_block nk) (rev [1..<nat base_block + 1])
                 (cur, replicate nk (replicate 4 0))
           in Some (concat cur))"

definition aes_schedule_is_valid :: "bytes \<Rightarrow> nat \<Rightarrow> bool" where
  "aes_schedule_is_valid schedule key_len =
     (let nk = key_len div 4
      in if nk \<noteq> 4 \<and> nk \<noteq> 6 \<and> nk \<noteq> 8 then False
         else list_all (\<lambda>i. aes_word schedule i = aes_next_word nk schedule i)
           [nk..<4 * (nk + 6 + 1)])"

fun aes_word_byteswap :: "bytes \<Rightarrow> nat \<Rightarrow> bytes" where
  "aes_word_byteswap src len =
     (if 4 \<le> len then
        src ! 3 # src ! 2 # src ! 1 # src ! 0 # aes_word_byteswap (drop 4 src) (len - 4)
      else [])"

declare aes_word_byteswap.simps [simp del]

section \<open>The round functions and their inverses\<close>

lemma aes_SBOX_computed:
  "list_all (\<lambda>i. aes_INV_SBOX ! unat (aes_SBOX ! i) = word_of_nat i) [0..<256]"
  by code_simp

lemma aes_inv_sub_sub [simp]: "aes_inv_sub (aes_sub x) = x"
  unfolding aes_inv_sub_def aes_sub_def by (rule u8_table_inverse [OF aes_SBOX_computed])

lemma aes_sub_inv_sub [simp]: "aes_sub (aes_inv_sub x) = x"
  using finite_UNIV_inj_surj [of aes_sub] aes_inv_sub_sub
  by (metis finite injI surjD)

lemma aes_shift_rows_list:
  "length s = 16 \<Longrightarrow> aes_shift_rows s =
     [s ! 0, s ! 5, s ! 10, s ! 15, s ! 4, s ! 9, s ! 14, s ! 3,
      s ! 8, s ! 13, s ! 2, s ! 7, s ! 12, s ! 1, s ! 6, s ! 11]"
  by (elim list16E) (simp add: aes_shift_rows_def)

lemma aes_inv_shift_rows_list:
  "length s = 16 \<Longrightarrow> aes_inv_shift_rows s =
     [s ! 0, s ! 13, s ! 10, s ! 7, s ! 4, s ! 1, s ! 14, s ! 11,
      s ! 8, s ! 5, s ! 2, s ! 15, s ! 12, s ! 9, s ! 6, s ! 3]"
  by (elim list16E) (simp add: aes_inv_shift_rows_def)

lemma aes_inv_shift_shift: "length s = 16 \<Longrightarrow> aes_inv_shift_rows (aes_shift_rows s) = s"
  by (elim list16E) (simp add: aes_shift_rows_list aes_inv_shift_rows_list)

lemma xtime_bit: "xtime x = push_bit 1 x XOR (if bit x 7 then 0x1b else 0)"
proof -
  have "drop_bit 7 x = (if bit x 7 then 1 else 0)"
  proof (rule bit_word_eqI)
    fix n show "bit (drop_bit 7 x) n = bit (if bit x 7 then 1 else 0 :: u8) n"
      by (cases n) (simp_all add: bit_drop_bit_eq bit_1_iff bit_u8_above)
  qed
  then show ?thesis by (simp add: xtime_def)
qed

lemma xtime_xor [simp]: "xtime (a XOR b) = xtime a XOR xtime b"
  by (simp add: xtime_bit bit_xor_iff push_bit_xor xor_ac)

lemma gmul_step_xtime:
  "gmul_step (a, b, p) = (xtime a, drop_bit 1 b, if odd b then p XOR a else p)"
proof -
  have "(a AND 0x80 \<noteq> 0) = bit a 7"
    using bit_iff_and_push_bit_not_eq_0 [of a 7] by simp
  then show ?thesis by (simp add: gmul_step_def xtime_bit Let_def and_one_eq odd_iff_mod_2_eq_one)
qed

lemma gmul_consts:
  "gmul a 9 = a XOR xtime (xtime (xtime a))"
  "gmul a 11 = a XOR xtime a XOR xtime (xtime (xtime a))"
  "gmul a 13 = a XOR xtime (xtime a) XOR xtime (xtime (xtime a))"
  "gmul a 14 = xtime a XOR xtime (xtime a) XOR xtime (xtime (xtime a))"
  by (simp_all add: gmul_def upt_8 gmul_step_xtime xor_ac)

lemma aes_inv_mix_mix:
  "length s = 16 \<Longrightarrow> aes_columns aes_inv_mix_column (aes_columns aes_mix_column s) = s"
  by (elim list16E)
    (simp add: aes_columns_def upt_4 aes_mix_column_def aes_inv_mix_column_def gmul_consts xor_ac)

lemma length_aes_columns [simp, sar_len]:
  "(\<And>a b c d. length (f a b c d) = 4) \<Longrightarrow> length (aes_columns f s) = 16"
  by (simp add: aes_columns_def upt_4)

lemma length_aes_mix_column [simp]: "length (aes_mix_column a b c d) = 4"
  by (simp add: aes_mix_column_def)

lemma length_aes_inv_mix_column [simp]: "length (aes_inv_mix_column a b c d) = 4"
  by (simp add: aes_inv_mix_column_def)

lemma length_aes_shift_rows [simp, sar_len]:
  "length (aes_shift_rows s) = length s" "length (aes_inv_shift_rows s) = length s"
  by (simp_all add: aes_shift_rows_def aes_inv_shift_rows_def Let_def)

section \<open>The block functions are inverse\<close>

definition aes_valid :: "aes_ctx \<Rightarrow> bool" where
  "aes_valid c \<longleftrightarrow> 1 \<le> aes_nr c \<and> 16 * (aes_nr c + 1) \<le> length (aes_rk c)"

lemma aes_round_key_length:
  assumes "aes_valid c" "r \<le> aes_nr c"
  shows "length (take 16 (drop (r * 16) (aes_rk c))) = 16"
proof -
  from assms have "r * 16 + 16 \<le> length (aes_rk c)" by (simp add: aes_valid_def)
  then show ?thesis by (simp add: min_absorb2)
qed

lemma length_add_round_key [simp, sar_len]:
  "aes_valid c \<Longrightarrow> r \<le> aes_nr c \<Longrightarrow> length s = 16 \<Longrightarrow>
     length (add_round_key s (drop (r * 16) (aes_rk c))) = 16"
  using aes_round_key_length [of c r] by (simp add: add_round_key_def)

lemma add_round_key_twice [simp]:
  "aes_valid c \<Longrightarrow> r \<le> aes_nr c \<Longrightarrow> length s = 16 \<Longrightarrow>
     add_round_key (add_round_key s (drop (r * 16) (aes_rk c))) (drop (r * 16) (aes_rk c)) = s"
  using aes_round_key_length [of c r] by (simp add: add_round_key_def xor_bytes_cancel_right)

lemma length_aes_encrypt_round [simp, sar_len]:
  "aes_valid c \<Longrightarrow> r \<le> aes_nr c \<Longrightarrow> length s = 16 \<Longrightarrow> length (aes_encrypt_round c r s) = 16"
  by (simp add: aes_encrypt_round_def Let_def)

lemma length_aes_decrypt_round [simp, sar_len]:
  "aes_valid c \<Longrightarrow> r \<le> aes_nr c \<Longrightarrow> length s = 16 \<Longrightarrow> length (aes_decrypt_round c r s) = 16"
  using length_add_round_key [of c 0 "map aes_inv_sub (aes_inv_shift_rows s)"]
  by (simp add: aes_decrypt_round_def Let_def)

lemma length_aes_rounds:
  "aes_valid c \<Longrightarrow> length s = 16 \<Longrightarrow> n \<le> aes_nr c + 1 \<Longrightarrow>
     length (fold (aes_encrypt_round c) [1..<n] s) = 16"
  by (induction n) auto

lemma length_aes_inv_rounds:
  "aes_valid c \<Longrightarrow> length s = 16 \<Longrightarrow> n \<le> aes_nr c \<Longrightarrow>
     length (fold (aes_decrypt_round c) (rev [0..<n]) s) = 16"
  by (induction n arbitrary: s) auto

lemma aes_decrypt_round_undo:
  assumes "aes_valid c" "r \<le> aes_nr c" "length s = 16"
  shows "aes_decrypt_round c r (aes_shift_rows (map aes_sub (add_round_key s (drop (r * 16) (aes_rk c))))) =
    (if r \<noteq> 0 then aes_columns aes_inv_mix_column s else s)"
  using assms by (simp add: aes_decrypt_round_def aes_inv_shift_shift comp_def)

lemma aes_rounds_undo:
  assumes "aes_valid c" "length p = 16" "n < aes_nr c"
  shows "fold (aes_decrypt_round c) (rev [0..<Suc n]) (aes_shift_rows (map aes_sub
      (fold (aes_encrypt_round c) [1..<Suc n] (add_round_key p (aes_rk c))))) = p"
  using assms(3)
proof (induction n)
  case 0
  then show ?case using assms aes_decrypt_round_undo [of c 0 p] by simp
next
  case (Suc n)
  define e where "e = fold (aes_encrypt_round c) [1..<Suc n] (add_round_key p (aes_rk c))"
  define m where "m = aes_shift_rows (map aes_sub e)"
  have e: "length e = 16"
    unfolding e_def using assms Suc.prems length_add_round_key [of c 0 p]
    by (intro length_aes_rounds) auto
  have "aes_encrypt_round c (Suc n) e =
      add_round_key (aes_columns aes_mix_column m) (drop (Suc n * 16) (aes_rk c))"
    using Suc.prems by (simp add: aes_encrypt_round_def m_def)
  moreover have "aes_decrypt_round c (Suc n) (aes_shift_rows (map aes_sub
      (add_round_key (aes_columns aes_mix_column m) (drop (Suc n * 16) (aes_rk c))))) = m"
    using aes_decrypt_round_undo [of c "Suc n" "aes_columns aes_mix_column m"] assms Suc.prems e
    by (simp add: aes_inv_mix_mix m_def)
  ultimately show ?case
    using Suc.IH Suc.prems by (simp add: e_def m_def)
qed

interpretation aes: block_cipher aes_valid aes_encrypt_block aes_decrypt_block 16
proof
  fix c :: aes_ctx and p :: bytes
  assume v: "aes_valid c" and p: "length p = 16"
  then have p0: "length (add_round_key p (aes_rk c)) = 16"
    using length_add_round_key [of c 0 p] by simp
  show "length (snd (aes_encrypt_block c p)) = 16"
    using v p0 length_aes_rounds [of c _ "Suc (aes_nr c)"] by (simp add: aes_encrypt_block_def)
  show "length (snd (aes_decrypt_block c p)) = 16"
    using v p by (simp add: aes_decrypt_block_def length_aes_inv_rounds)
  obtain n where n: "aes_nr c = Suc n"
    using v by (cases "aes_nr c") (auto simp: aes_valid_def)
  define e where "e = fold (aes_encrypt_round c) [1..<Suc n] (add_round_key p (aes_rk c))"
  have e: "length e = 16"
    unfolding e_def using v p0 n by (intro length_aes_rounds) auto
  have "add_round_key (aes_encrypt_round c (aes_nr c) e) (drop (aes_nr c * 16) (aes_rk c)) =
      aes_shift_rows (map aes_sub e)"
    using v e add_round_key_twice [of c "aes_nr c" "aes_shift_rows (map aes_sub e)"]
    by (simp add: aes_encrypt_round_def)
  then show "snd (aes_decrypt_block c (snd (aes_encrypt_block c p))) = p"
    using aes_rounds_undo [OF v p, of n] n
    by (simp add: aes_decrypt_block_def aes_encrypt_block_def e_def)
qed (simp_all add: aes_encrypt_block_def aes_decrypt_block_def)

section \<open>The key schedule\<close>

definition aes_expand :: "nat \<Rightarrow> bytes \<Rightarrow> nat \<Rightarrow> bytes" where
  "aes_expand nk key n = fold (\<lambda>i w. w @ aes_next_word nk w i) [nk..<n] key"

lemma length_aes_temp [simp, sar_len]: "length t = 4 \<Longrightarrow> length (aes_temp nk off rc t) = 4"
  by (simp add: aes_temp_def)

lemma length_aes_word [simp, sar_len]: "4 * i + 4 \<le> length w \<Longrightarrow> length (aes_word w i) = 4"
  by (simp add: aes_word_def mult.commute)

lemma aes_word_append: "4 * i + 4 \<le> length w \<Longrightarrow> aes_word (w @ v) i = aes_word w i"
  by (simp add: aes_word_def slice_append_left mult.commute)

lemma aes_next_word_append:
  "0 < nk \<Longrightarrow> nk \<le> i \<Longrightarrow> 4 * i \<le> length w \<Longrightarrow> aes_next_word nk (w @ v) i = aes_next_word nk w i"
  by (simp add: aes_next_word_def aes_word_append)

lemma length_aes_next_word [simp, sar_len]:
  "0 < nk \<Longrightarrow> nk \<le> i \<Longrightarrow> 4 * i \<le> length w \<Longrightarrow> length (aes_next_word nk w i) = 4"
  by (simp add: aes_next_word_def)

lemma aes_expand_Suc:
  "nk \<le> n \<Longrightarrow> aes_expand nk key (Suc n) = aes_expand nk key n @ aes_next_word nk (aes_expand nk key n) n"
  by (simp add: aes_expand_def)

lemma aes_expand_base [simp]: "aes_expand nk key nk = key"
  by (simp add: aes_expand_def)

lemma length_aes_expand [sar_len]:
  assumes "0 < nk" "length key = 4 * nk" "nk \<le> n"
  shows "length (aes_expand nk key n) = 4 * n"
  using assms(3) by (induction rule: dec_induct) (simp_all add: assms aes_expand_Suc)

lemma take_aes_expand:
  assumes "0 < nk" "length key = 4 * nk" "nk \<le> n"
  shows "take (4 * nk) (aes_expand nk key n) = key"
  using assms(3)
  by (induction rule: dec_induct) (simp_all add: assms aes_expand_Suc length_aes_expand)

lemma aes_expand_recurrence:
  assumes "0 < nk" "length key = 4 * nk" "nk \<le> n" "nk \<le> i" "i < n"
  shows "aes_word (aes_expand nk key n) i = aes_next_word nk (aes_expand nk key n) i"
  using assms(3,4,5)
proof (induction arbitrary: i rule: dec_induct)
  case (step n)
  have len: "length (aes_expand nk key n) = 4 * n"
    using assms step by (simp add: length_aes_expand)
  show ?case
  proof (cases "i = n")
    case True
    then show ?thesis using assms step len
      by (simp add: aes_expand_Suc aes_next_word_append)
        (simp add: aes_word_def slice_def)
  next
    case False
    then show ?thesis using assms step len
      by (simp add: aes_expand_Suc aes_next_word_append aes_word_append)
  qed
qed simp

lemma aes_expand_unique:
  assumes "0 < nk" "nk \<le> n" "4 * n \<le> length w"
    and "\<And>i. nk \<le> i \<Longrightarrow> i < n \<Longrightarrow> aes_word w i = aes_next_word nk w i"
  shows "take (4 * n) w = aes_expand nk (take (4 * nk) w) n"
  using assms(2,3,4)
proof (induction rule: dec_induct)
  case (step n)
  have "take (4 * Suc n) w = take (4 * n) w @ aes_word w n"
    using take_add [of "n * 4" 4 w] by (simp add: aes_word_def slice_def mult.commute add.commute)
  also have "aes_word w n = aes_next_word nk (take (4 * n) w) n"
  proof -
    have "aes_next_word nk (take (4 * n) w @ drop (4 * n) w) n = aes_next_word nk (take (4 * n) w) n"
      using step.prems step.hyps assms(1) by (intro aes_next_word_append) auto
    with step show ?thesis by (simp only: append_take_drop_id)
  qed
  finally show ?case using step by (simp add: aes_expand_Suc)
qed simp

lemma aes_setkey_expand:
  "aes_setkey key key_len =
     \<lparr>aes_rk = aes_expand (key_len div 4) (take (4 * (key_len div 4)) key) (4 * (key_len div 4 + 7)),
      aes_nr = key_len div 4 + 6\<rparr>"
  by (simp add: aes_setkey_def aes_expand_def Let_def add.commute)

lemma aes_valid_setkey:
  "key_len \<in> {16, 24, 32} \<Longrightarrow> length key \<ge> key_len \<Longrightarrow> aes_valid (aes_setkey key key_len)"
  by (auto simp: aes_setkey_expand aes_valid_def length_aes_expand)

lemma aes_schedule_is_valid_iff:
  assumes "16 * (key_len div 4 + 7) \<le> length sched"
  shows "aes_schedule_is_valid sched key_len \<longleftrightarrow>
    key_len div 4 \<in> {4, 6, 8} \<and>
    take (16 * (key_len div 4 + 7)) sched = aes_rk (aes_setkey sched key_len)"
    (is "?v \<longleftrightarrow> ?k \<and> ?e")
proof -
  define nk where "nk = key_len div 4"
  define n where "n = 4 * (nk + 7)"
  have len: "4 * n \<le> length sched" and le: "nk \<le> n" using assms by (simp_all add: n_def nk_def)
  have ex: "?e \<longleftrightarrow> take (4 * n) sched = aes_expand nk (take (4 * nk) sched) n"
    by (simp add: aes_setkey_expand n_def nk_def)
  have v: "?v \<longleftrightarrow> ?k \<and> (\<forall>i. nk \<le> i \<and> i < n \<longrightarrow> aes_word sched i = aes_next_word nk sched i)"
    by (auto simp: aes_schedule_is_valid_def Let_def list_all_iff n_def nk_def)
  have "(\<forall>i. nk \<le> i \<and> i < n \<longrightarrow> aes_word sched i = aes_next_word nk sched i)"
    if e: ?e and k: ?k
  proof (intro allI impI)
    fix i assume i: "nk \<le> i \<and> i < n"
    have nk: "0 < nk" using k by (auto simp: nk_def)
    have "aes_word (take (4 * n) sched) i = aes_next_word nk (take (4 * n) sched) i"
      unfolding e [unfolded ex] using i le nk len
      by (intro aes_expand_recurrence) auto
    then show "aes_word sched i = aes_next_word nk sched i"
      using i nk len aes_word_append [of i "take (4 * n) sched" "drop (4 * n) sched"]
        aes_next_word_append [of nk i "take (4 * n) sched" "drop (4 * n) sched"] by simp
  qed
  moreover have ?e if "\<forall>i. nk \<le> i \<and> i < n \<longrightarrow> aes_word sched i = aes_next_word nk sched i" ?k
    unfolding ex using that le len by (intro aes_expand_unique) (auto simp: nk_def)
  ultimately show ?thesis unfolding v by blast
qed

section \<open>The master key from a window of the schedule\<close>

definition aes_row :: "nat \<Rightarrow> bytes \<Rightarrow> nat \<Rightarrow> bytes list" where
  "aes_row nk w b = map (\<lambda>i. aes_word w (b * nk + i)) [0..<nk]"

lemma aes_word_back:
  assumes "aes_word w (b * nk + off) = aes_next_word nk w (b * nk + off)"
    and "1 \<le> b" "off < nk" "4 * (b * nk + off) + 4 \<le> length w"
  shows "xor_bytes (aes_word w (b * nk + off)) (aes_temp nk off b (aes_word w (b * nk + off - 1))) =
    aes_word w ((b - 1) * nk + off)"
proof -
  obtain b' where b: "b = Suc b'" using assms by (cases b) auto
  have "b * nk + off - nk = (b - 1) * nk + off" by (simp add: b)
  moreover have "(b * nk + off) mod nk = off" "(b * nk + off) div nk = b"
    using assms by simp_all
  ultimately have "aes_word w (b * nk + off) = xor_bytes (aes_word w ((b - 1) * nk + off))
      (aes_temp nk off b (aes_word w (b * nk + off - 1)))"
    using assms by (simp add: aes_next_word_def)
  moreover have "length (aes_word w ((b - 1) * nk + off)) = 4"
    "length (aes_word w (b * nk + off - 1)) = 4"
    using assms by (auto intro!: length_aes_word simp: b)
  ultimately show ?thesis by (simp add: xor_bytes_cancel_right)
qed

lemma aes_prev_words:
  assumes rec: "\<And>off. off < nk \<Longrightarrow> aes_word w (b * nk + off) = aes_next_word nk w (b * nk + off)"
    and b: "1 \<le> b" "4 * (b * nk + nk) \<le> length w" "1 < nk"
    and "k \<le> nk" "length prev = nk"
    and "\<And>j. k \<le> j \<Longrightarrow> j < nk \<Longrightarrow> prev ! j = aes_row nk w (b - 1) ! j"
  shows "fold (aes_prev_word nk b (aes_row nk w b)) (rev [0..<k]) prev = aes_row nk w (b - 1)"
  using assms(5-7)
proof (induction k arbitrary: prev)
  case 0
  then show ?case by (intro nth_equalityI) (auto simp: aes_row_def)
next
  case (Suc k)
  have idx: "(b - 1) * nk + (nk - 1) = b * nk - 1" using b by (cases b) auto
  define p where "p = aes_prev_word nk b (aes_row nk w b) k prev"
  have pk: "p = prev[k := aes_row nk w (b - 1) ! k]"
  proof -
    have "(if k \<ge> 1 then aes_row nk w b ! (k - 1) else prev ! (nk - 1)) = aes_word w (b * nk + k - 1)"
      using Suc.prems b idx by (cases k) (auto simp: aes_row_def)
    then show ?thesis
      unfolding p_def aes_prev_word_def using aes_word_back [OF rec, of k] Suc.prems b
      by (simp add: aes_row_def)
  qed
  have "fold (aes_prev_word nk b (aes_row nk w b)) (rev [0..<k]) p = aes_row nk w (b - 1)"
    using Suc.prems by (intro Suc.IH) (auto simp: pk nth_list_update)
  then show ?case by (simp add: p_def)
qed

lemma aes_prev_blocks:
  assumes "1 < nk" "4 * (b * nk + nk) \<le> length w" "length prev = nk"
    and "\<And>i. nk \<le> i \<Longrightarrow> i < b * nk + nk \<Longrightarrow> aes_word w i = aes_next_word nk w i"
  shows "fst (fold (aes_prev_block nk) (rev [1..<b + 1]) (aes_row nk w b, prev)) = aes_row nk w 0"
  using assms(2-4)
proof (induction b arbitrary: prev)
  case (Suc b)
  have "fold (aes_prev_word nk (Suc b) (aes_row nk w (Suc b))) (rev [0..<nk]) prev =
      aes_row nk w (Suc b - 1)"
    using Suc.prems assms(1) by (intro aes_prev_words) auto
  then have "aes_prev_block nk (Suc b) (aes_row nk w (Suc b), prev) = (aes_row nk w b, aes_row nk w b)"
    by (simp add: aes_prev_block_def Let_def)
  then show ?case using Suc.IH [of "aes_row nk w b"] Suc.prems by (simp add: aes_row_def)
qed simp

lemma concat_aes_words: "4 * n \<le> length w \<Longrightarrow> concat (map (aes_word w) [0..<n]) = take (4 * n) w"
proof (induction n)
  case (Suc n)
  then show ?case using take_add [of "n * 4" 4 w]
    by (simp add: aes_word_def slice_def mult.commute add.commute)
qed simp

lemma aes_master_from_window_setkey:
  assumes "key_len \<in> {16, 24, 32}" "length key = key_len"
    and "1 \<le> b" "(b + 1) * (key_len div 4) \<le> 4 * (key_len div 4 + 7)"
  shows "aes_master_from_window key_len
      (slice (aes_rk (aes_setkey key key_len)) (b * key_len) key_len) (int b) = Some key"
proof -
  define nk where "nk = key_len div 4"
  define w where "w = aes_rk (aes_setkey key key_len)"
  have nk: "nk = 4 \<or> nk = 6 \<or> nk = 8" and kl: "key_len = 4 * nk" and nk0: "0 < nk"
    using assms(1) by (auto simp: nk_def)
  have w: "w = aes_expand nk key (4 * (nk + 7))"
    using assms(2) by (simp add: w_def aes_setkey_expand nk_def [symmetric] kl)
  have len: "length w = 16 * (nk + 7)"
    using assms nk0 kl by (simp add: w length_aes_expand)
  have bound: "b * nk + nk \<le> 4 * (nk + 7)" using assms(4) by (simp add: nk_def)
  have cur: "map (\<lambda>i. slice (slice w (b * key_len) key_len) (i * 4) 4) [0..<nk] = aes_row nk w b"
  proof -
    have "slice (slice w (b * key_len) key_len) (i * 4) 4 = aes_word w (b * nk + i)" if "i < nk" for i
      using that kl by (subst slice_slice) (simp_all add: aes_word_def distrib_right mult.assoc mult.commute [of 4 nk])
    then show ?thesis by (simp add: aes_row_def)
  qed
  have "fst (fold (aes_prev_block nk) (rev [1..<b + 1]) (aes_row nk w b, replicate nk (replicate 4 0))) =
      aes_row nk w 0"
    using nk nk0 bound len assms(2) kl
    by (intro aes_prev_blocks) (auto simp: w intro!: aes_expand_recurrence)
  moreover have "concat (aes_row nk w 0) = key"
    using concat_aes_words [of nk w] take_aes_expand [of nk key "4 * (nk + 7)"] len assms(2) kl nk0
    by (simp add: aes_row_def w)
  ultimately show ?thesis
    using nk assms(3) unfolding aes_master_from_window_def Let_def nk_def [symmetric]
      w_def [symmetric] cur
    by (auto split: prod.splits)
qed

lemma aes_word_byteswap_involution:
  "length src = len \<Longrightarrow> 4 dvd len \<Longrightarrow> aes_word_byteswap (aes_word_byteswap src len) len = src"
proof (induction len arbitrary: src rule: less_induct)
  case (less len)
  show ?case
  proof (cases "4 \<le> len")
    case True
    then have "Suc (Suc (Suc (Suc 0))) \<le> length src" using less.prems by simp
    then obtain a b c d r where "src = a # b # c # d # r"
      by (auto simp: Suc_le_length_iff)
    then show ?thesis using less True by (simp add: aes_word_byteswap.simps [of _ len])
  next
    case False
    then have "len = 0" using less.prems(2) dvd_imp_le [of 4 len] by linarith
    then show ?thesis using less.prems by (simp add: aes_word_byteswap.simps)
  qed
qed

end
