(* ===== verification/Aria.thy ===== *)
theory Aria
  imports Aes
begin

text \<open>
  The ARIA block cipher of \<^verbatim>\<open>engine/ciphers/aria.c\<close>. The 128-bit state \<^verbatim>\<open>uint32_t d[4]\<close> is a quadruple
  of words, and the round-key arrays \<^verbatim>\<open>ek\<close> and \<^verbatim>\<open>dk\<close>, which the code only reads and writes in rows
  of four words at \<^verbatim>\<open>4*i\<close>, are lists of such quadruples.
\<close>

section \<open>Definitions\<close>

definition aria_S1 :: "u8 list" where
  "aria_S1 =
  [99, 124, 119, 123, 242, 107, 111, 197, 48, 1, 103, 43, 254, 215, 171, 118,
   202, 130, 201, 125, 250, 89, 71, 240, 173, 212, 162, 175, 156, 164, 114, 192,
   183, 253, 147, 38, 54, 63, 247, 204, 52, 165, 229, 241, 113, 216, 49, 21,
   4, 199, 35, 195, 24, 150, 5, 154, 7, 18, 128, 226, 235, 39, 178, 117,
   9, 131, 44, 26, 27, 110, 90, 160, 82, 59, 214, 179, 41, 227, 47, 132,
   83, 209, 0, 237, 32, 252, 177, 91, 106, 203, 190, 57, 74, 76, 88, 207,
   208, 239, 170, 251, 67, 77, 51, 133, 69, 249, 2, 127, 80, 60, 159, 168,
   81, 163, 64, 143, 146, 157, 56, 245, 188, 182, 218, 33, 16, 255, 243, 210,
   205, 12, 19, 236, 95, 151, 68, 23, 196, 167, 126, 61, 100, 93, 25, 115,
   96, 129, 79, 220, 34, 42, 144, 136, 70, 238, 184, 20, 222, 94, 11, 219,
   224, 50, 58, 10, 73, 6, 36, 92, 194, 211, 172, 98, 145, 149, 228, 121,
   231, 200, 55, 109, 141, 213, 78, 169, 108, 86, 244, 234, 101, 122, 174, 8,
   186, 120, 37, 46, 28, 166, 180, 198, 232, 221, 116, 31, 75, 189, 139, 138,
   112, 62, 181, 102, 72, 3, 246, 14, 97, 53, 87, 185, 134, 193, 29, 158,
   225, 248, 152, 17, 105, 217, 142, 148, 155, 30, 135, 233, 206, 85, 40, 223,
   140, 161, 137, 13, 191, 230, 66, 104, 65, 153, 45, 15, 176, 84, 187, 22]"

definition aria_S2 :: "u8 list" where
  "aria_S2 =
  [226, 78, 84, 252, 148, 194, 74, 204, 98, 13, 106, 70, 60, 77, 139, 209,
   94, 250, 100, 203, 180, 151, 190, 43, 188, 119, 46, 3, 211, 25, 89, 193,
   29, 6, 65, 107, 85, 240, 153, 105, 234, 156, 24, 174, 99, 223, 231, 187,
   0, 115, 102, 251, 150, 76, 133, 228, 58, 9, 69, 170, 15, 238, 16, 235,
   45, 127, 244, 41, 172, 207, 173, 145, 141, 120, 200, 149, 249, 47, 206, 205,
   8, 122, 136, 56, 92, 131, 42, 40, 71, 219, 184, 199, 147, 164, 18, 83,
   255, 135, 14, 49, 54, 33, 88, 72, 1, 142, 55, 116, 50, 202, 233, 177,
   183, 171, 12, 215, 196, 86, 66, 38, 7, 152, 96, 217, 182, 185, 17, 64,
   236, 32, 140, 189, 160, 201, 132, 4, 73, 35, 241, 79, 80, 31, 19, 220,
   216, 192, 158, 87, 227, 195, 123, 101, 59, 2, 143, 62, 232, 37, 146, 229,
   21, 221, 253, 23, 169, 191, 212, 154, 126, 197, 57, 103, 254, 118, 157, 67,
   167, 225, 208, 245, 104, 242, 27, 52, 112, 5, 163, 138, 213, 121, 134, 168,
   48, 198, 81, 75, 30, 166, 39, 246, 53, 210, 110, 36, 22, 130, 95, 218,
   230, 117, 162, 239, 44, 178, 28, 159, 93, 111, 128, 10, 114, 68, 155, 108,
   144, 11, 91, 51, 125, 90, 82, 243, 97, 161, 247, 176, 214, 63, 124, 109,
   237, 20, 224, 165, 61, 34, 179, 248, 137, 222, 113, 26, 175, 186, 181, 129]"

definition aria_S1_inv :: "u8 list" where
  "aria_S1_inv =
  [82, 9, 106, 213, 48, 54, 165, 56, 191, 64, 163, 158, 129, 243, 215, 251,
   124, 227, 57, 130, 155, 47, 255, 135, 52, 142, 67, 68, 196, 222, 233, 203,
   84, 123, 148, 50, 166, 194, 35, 61, 238, 76, 149, 11, 66, 250, 195, 78,
   8, 46, 161, 102, 40, 217, 36, 178, 118, 91, 162, 73, 109, 139, 209, 37,
   114, 248, 246, 100, 134, 104, 152, 22, 212, 164, 92, 204, 93, 101, 182, 146,
   108, 112, 72, 80, 253, 237, 185, 218, 94, 21, 70, 87, 167, 141, 157, 132,
   144, 216, 171, 0, 140, 188, 211, 10, 247, 228, 88, 5, 184, 179, 69, 6,
   208, 44, 30, 143, 202, 63, 15, 2, 193, 175, 189, 3, 1, 19, 138, 107,
   58, 145, 17, 65, 79, 103, 220, 234, 151, 242, 207, 206, 240, 180, 230, 115,
   150, 172, 116, 34, 231, 173, 53, 133, 226, 249, 55, 232, 28, 117, 223, 110,
   71, 241, 26, 113, 29, 41, 197, 137, 111, 183, 98, 14, 170, 24, 190, 27,
   252, 86, 62, 75, 198, 210, 121, 32, 154, 219, 192, 254, 120, 205, 90, 244,
   31, 221, 168, 51, 136, 7, 199, 49, 177, 18, 16, 89, 39, 128, 236, 95,
   96, 81, 127, 169, 25, 181, 74, 13, 45, 229, 122, 159, 147, 201, 156, 239,
   160, 224, 59, 77, 174, 42, 245, 176, 200, 235, 187, 60, 131, 83, 153, 97,
   23, 43, 4, 126, 186, 119, 214, 38, 225, 105, 20, 99, 85, 33, 12, 125]"

definition aria_S2_inv :: "u8 list" where
  "aria_S2_inv =
  [48, 104, 153, 27, 135, 185, 33, 120, 80, 57, 219, 225, 114, 9, 98, 60,
   62, 126, 94, 142, 241, 160, 204, 163, 42, 29, 251, 182, 214, 32, 196, 141,
   129, 101, 245, 137, 203, 157, 119, 198, 87, 67, 86, 23, 212, 64, 26, 77,
   192, 99, 108, 227, 183, 200, 100, 106, 83, 170, 56, 152, 12, 244, 155, 237,
   127, 34, 118, 175, 221, 58, 11, 88, 103, 136, 6, 195, 53, 13, 1, 139,
   140, 194, 230, 95, 2, 36, 117, 147, 102, 30, 229, 226, 84, 216, 16, 206,
   122, 232, 8, 44, 18, 151, 50, 171, 180, 39, 10, 35, 223, 239, 202, 217,
   184, 250, 220, 49, 107, 209, 173, 25, 73, 189, 81, 150, 238, 228, 168, 65,
   218, 255, 205, 85, 134, 54, 190, 97, 82, 248, 187, 14, 130, 72, 105, 154,
   224, 71, 158, 92, 4, 75, 52, 21, 121, 38, 167, 222, 41, 174, 146, 215,
   132, 233, 210, 186, 93, 243, 197, 176, 191, 164, 59, 113, 68, 70, 43, 252,
   235, 111, 213, 246, 20, 254, 124, 112, 90, 125, 253, 47, 24, 131, 22, 165,
   145, 31, 5, 149, 116, 169, 193, 91, 74, 133, 109, 19, 7, 79, 78, 69,
   178, 15, 201, 28, 166, 188, 236, 115, 144, 123, 207, 89, 143, 161, 249, 45,
   242, 177, 0, 148, 55, 159, 208, 46, 156, 110, 40, 63, 128, 240, 61, 211,
   37, 138, 181, 231, 66, 179, 199, 234, 247, 76, 17, 51, 3, 162, 172, 96]"

type_synonym aria_state = "u32 \<times> u32 \<times> u32 \<times> u32"

definition aria_C1 :: aria_state where
  "aria_C1 = (0x517cc1b7, 0x27220a94, 0xfe13abe8, 0xfa9a6ee0)"

definition aria_C2 :: aria_state where
  "aria_C2 = (0x6db14acc, 0x9e21c820, 0xff28b1d5, 0xef5de2b0)"

definition aria_C3 :: aria_state where
  "aria_C3 = (0xdb92371d, 0x2126e970, 0x03249775, 0x04e8c90e)"

record aria_ctx =
  aria_ek :: "aria_state list"
  aria_dk :: "aria_state list"
  aria_rounds :: nat

fun xor128 :: "aria_state \<Rightarrow> aria_state \<Rightarrow> aria_state" where
  "xor128 (a0, a1, a2, a3) (b0, b1, b2, b3) = (a0 XOR b0, a1 XOR b1, a2 XOR b2, a3 XOR b3)"

definition sub_odd :: "bytes \<Rightarrow> bytes" where
  "sub_odd s =
     [aria_S1 ! unat (s ! 0), aria_S2 ! unat (s ! 1),
      aria_S1_inv ! unat (s ! 2), aria_S2_inv ! unat (s ! 3),
      aria_S1 ! unat (s ! 4), aria_S2 ! unat (s ! 5),
      aria_S1_inv ! unat (s ! 6), aria_S2_inv ! unat (s ! 7),
      aria_S1 ! unat (s ! 8), aria_S2 ! unat (s ! 9),
      aria_S1_inv ! unat (s ! 10), aria_S2_inv ! unat (s ! 11),
      aria_S1 ! unat (s ! 12), aria_S2 ! unat (s ! 13),
      aria_S1_inv ! unat (s ! 14), aria_S2_inv ! unat (s ! 15)]"

definition sub_even :: "bytes \<Rightarrow> bytes" where
  "sub_even s =
     [aria_S1_inv ! unat (s ! 0), aria_S2_inv ! unat (s ! 1),
      aria_S1 ! unat (s ! 2), aria_S2 ! unat (s ! 3),
      aria_S1_inv ! unat (s ! 4), aria_S2_inv ! unat (s ! 5),
      aria_S1 ! unat (s ! 6), aria_S2 ! unat (s ! 7),
      aria_S1_inv ! unat (s ! 8), aria_S2_inv ! unat (s ! 9),
      aria_S1 ! unat (s ! 10), aria_S2 ! unat (s ! 11),
      aria_S1_inv ! unat (s ! 12), aria_S2_inv ! unat (s ! 13),
      aria_S1 ! unat (s ! 14), aria_S2 ! unat (s ! 15)]"

definition diff_layer :: "bytes \<Rightarrow> bytes" where
  "diff_layer d =
     [d ! 3 XOR d ! 4 XOR d ! 6 XOR d ! 8 XOR d ! 9 XOR d ! 13 XOR d ! 14,
      d ! 2 XOR d ! 5 XOR d ! 7 XOR d ! 8 XOR d ! 9 XOR d ! 12 XOR d ! 15,
      d ! 1 XOR d ! 4 XOR d ! 6 XOR d ! 10 XOR d ! 11 XOR d ! 12 XOR d ! 15,
      d ! 0 XOR d ! 5 XOR d ! 7 XOR d ! 10 XOR d ! 11 XOR d ! 13 XOR d ! 14,
      d ! 0 XOR d ! 2 XOR d ! 5 XOR d ! 8 XOR d ! 11 XOR d ! 14 XOR d ! 15,
      d ! 1 XOR d ! 3 XOR d ! 4 XOR d ! 9 XOR d ! 10 XOR d ! 14 XOR d ! 15,
      d ! 0 XOR d ! 2 XOR d ! 7 XOR d ! 9 XOR d ! 10 XOR d ! 12 XOR d ! 13,
      d ! 1 XOR d ! 3 XOR d ! 6 XOR d ! 8 XOR d ! 11 XOR d ! 12 XOR d ! 13,
      d ! 0 XOR d ! 1 XOR d ! 4 XOR d ! 7 XOR d ! 10 XOR d ! 13 XOR d ! 15,
      d ! 0 XOR d ! 1 XOR d ! 5 XOR d ! 6 XOR d ! 11 XOR d ! 12 XOR d ! 14,
      d ! 2 XOR d ! 3 XOR d ! 5 XOR d ! 6 XOR d ! 8 XOR d ! 13 XOR d ! 15,
      d ! 2 XOR d ! 3 XOR d ! 4 XOR d ! 7 XOR d ! 9 XOR d ! 12 XOR d ! 14,
      d ! 1 XOR d ! 2 XOR d ! 6 XOR d ! 7 XOR d ! 9 XOR d ! 11 XOR d ! 12,
      d ! 0 XOR d ! 3 XOR d ! 6 XOR d ! 7 XOR d ! 8 XOR d ! 10 XOR d ! 13,
      d ! 0 XOR d ! 3 XOR d ! 4 XOR d ! 5 XOR d ! 9 XOR d ! 11 XOR d ! 14,
      d ! 1 XOR d ! 2 XOR d ! 4 XOR d ! 5 XOR d ! 8 XOR d ! 10 XOR d ! 15]"

definition rotr128 :: "aria_state \<Rightarrow> nat \<Rightarrow> aria_state" where
  "rotr128 a n =
     (let n = n mod 128
      in if n = 0 then a
         else
           let (a0, a1, a2, a3) = a;
               inp = [a0, a1, a2, a3];
               w = n div 32;
               b = n mod 32;
               word = (\<lambda>i. let lo = (i + 4 - w) mod 4; hi = (i + 8 - w - 1) mod 4
                       in if b = 0 then inp ! lo
                          else drop_bit b (inp ! lo) OR push_bit (32 - b) (inp ! hi))
           in (word 0, word 1, word 2, word 3))"

definition aria_store :: "aria_state \<Rightarrow> bytes" where
  "aria_store = (\<lambda>(d0, d1, d2, d3).
     sar_st_be32 d0 @ sar_st_be32 d1 @ sar_st_be32 d2 @ sar_st_be32 d3)"

definition aria_load :: "bytes \<Rightarrow> aria_state" where
  "aria_load t =
     (sar_be32 t, sar_be32 (drop 4 t), sar_be32 (drop 8 t), sar_be32 (drop 12 t))"

definition aria_sl1_a :: "aria_state \<Rightarrow> aria_state" where
  "aria_sl1_a d = aria_load (diff_layer (sub_odd (aria_store d)))"

definition aria_sl2_a :: "aria_state \<Rightarrow> aria_state" where
  "aria_sl2_a d = aria_load (diff_layer (sub_even (aria_store d)))"

definition aria_fo :: "aria_state \<Rightarrow> aria_state \<Rightarrow> aria_state" where
  "aria_fo d rk = aria_sl1_a (xor128 d rk)"

definition aria_fe :: "aria_state \<Rightarrow> aria_state \<Rightarrow> aria_state" where
  "aria_fe d rk = aria_sl2_a (xor128 d rk)"

definition aria_ROTS :: "nat list" where
  "aria_ROTS = [19, 31, 67, 97, 109]"

definition aria_ek_row :: "aria_state list \<Rightarrow> nat \<Rightarrow> aria_state" where
  "aria_ek_row W k =
     (let g = k div 4; p = k mod 4
      in if p < 3 then xor128 (W ! p) (rotr128 (W ! (p + 1)) (aria_ROTS ! g))
         else xor128 (rotr128 (W ! 0) (aria_ROTS ! g)) (W ! 3))"

definition aria_key_schedule :: "bytes \<Rightarrow> nat \<Rightarrow> aria_ctx" where
  "aria_key_schedule key key_len =
     (let KL = aria_load key;
          KR = ((if key_len \<ge> 24 then sar_be32 (drop 16 key) else 0),
                (if key_len \<ge> 24 then sar_be32 (drop 20 key) else 0),
                (if key_len \<ge> 32 then sar_be32 (drop 24 key) else 0),
                (if key_len \<ge> 32 then sar_be32 (drop 28 key) else 0));
          (rounds, CK1, CK2, CK3) =
            (if key_len \<le> 16 then (12 :: nat, aria_C1, aria_C2, aria_C3)
             else if key_len \<le> 24 then (14, aria_C2, aria_C3, aria_C1)
             else (16, aria_C3, aria_C1, aria_C2));
          W0 = KL;
          W1 = xor128 (aria_fo W0 CK1) KR;
          W2 = xor128 (aria_fe W1 CK2) W0;
          W3 = xor128 (aria_fo W2 CK3) W1;
          ek = map (aria_ek_row [W0, W1, W2, W3]) [0..<rounds + 1];
          dk = map (\<lambda>i. if 1 \<le> i \<and> i < rounds
                         then aria_load (diff_layer (aria_store (ek ! (rounds - i))))
                         else ek ! (rounds - i)) [0..<rounds + 1]
      in \<lparr>aria_ek = ek, aria_dk = dk, aria_rounds = rounds\<rparr>)"

function aria_loop :: "aria_state list \<Rightarrow> nat \<Rightarrow> nat \<Rightarrow> aria_state \<Rightarrow> nat \<times> aria_state" where
  "aria_loop rk rounds i d =
     (let d = xor128 d (rk ! i);
          i = i + 1;
          d = aria_sl1_a d;
          d = xor128 d (rk ! i);
          i = i + 1
      in if i \<ge> rounds then (i, d) else aria_loop rk rounds i (aria_sl2_a d))"
  by pat_completeness auto

termination by (relation "measure (\<lambda>(rk, rounds, i, d). rounds - i)") auto

declare aria_loop.simps [simp del]

definition aria_crypt :: "aria_state list \<Rightarrow> nat \<Rightarrow> bytes \<Rightarrow> bytes" where
  "aria_crypt rk rounds p =
     (let d = aria_load p;
          (i, d) = aria_loop rk rounds 0 d;
          d = aria_load (sub_even (aria_store d));
          d = xor128 d (rk ! i)
      in aria_store d)"

definition aria_encrypt_block :: "aria_ctx \<Rightarrow> block_cipher_fn" where
  "aria_encrypt_block ctx p = (1, aria_crypt (aria_ek ctx) (aria_rounds ctx) p)"

definition aria_decrypt_block :: "aria_ctx \<Rightarrow> block_cipher_fn" where
  "aria_decrypt_block ctx p = (1, aria_crypt (aria_dk ctx) (aria_rounds ctx) p)"

section \<open>The layers\<close>

text \<open>
  The first substitution box is the one of AES, whose inverse is already computed.
\<close>

lemma aria_S1_aes: "aria_S1 = aes_SBOX" "aria_S1_inv = aes_INV_SBOX"
  by (simp_all only: aria_S1_def aes_SBOX_def aria_S1_inv_def aes_INV_SBOX_def)

lemma aria_S1_inverse [simp]:
  "aria_S1_inv ! unat (aria_S1 ! unat x) = x" "aria_S1 ! unat (aria_S1_inv ! unat x) = x"
  using aes_inv_sub_sub [of x] aes_sub_inv_sub [of x]
  by (simp_all only: aria_S1_aes aes_sub_def aes_inv_sub_def)

lemma aria_S2_computed:
  "list_all (\<lambda>i. aria_S2_inv ! unat (aria_S2 ! i) = word_of_nat i) [0..<256]"
  by code_simp

lemma aria_S2_inverse [simp]:
  "aria_S2_inv ! unat (aria_S2 ! unat x) = x" "aria_S2 ! unat (aria_S2_inv ! unat x) = x"
proof -
  have inv: "aria_S2_inv ! unat (aria_S2 ! unat x) = x" for x :: u8
    by (rule u8_table_inverse [OF aria_S2_computed])
  then show "aria_S2_inv ! unat (aria_S2 ! unat x) = x" .
  have "inj (\<lambda>x :: u8. aria_S2 ! unat x)"
    by (rule inj_on_inverseI [where g = "\<lambda>y. aria_S2_inv ! unat y"]) (rule inv)
  then have "surj (\<lambda>x :: u8. aria_S2 ! unat x)"
    by (rule finite_UNIV_inj_surj [OF finite])
  then obtain y :: u8 where "x = aria_S2 ! unat y" by (rule surjE)
  then show "aria_S2 ! unat (aria_S2_inv ! unat x) = x" by (simp only: inv)
qed

lemma sub_even_odd: "length s = 16 \<Longrightarrow> sub_even (sub_odd s) = s"
  by (elim list16E) (simp add: sub_even_def sub_odd_def)

lemma sub_odd_even: "length s = 16 \<Longrightarrow> sub_odd (sub_even s) = s"
  by (elim list16E) (simp add: sub_even_def sub_odd_def)

lemma diff_layer_involution: "length d = 16 \<Longrightarrow> diff_layer (diff_layer d) = d"
  by (elim list16E) (simp add: diff_layer_def xor_ac)

lemma diff_layer_xor:
  "length a = 16 \<Longrightarrow> length b = 16 \<Longrightarrow>
     diff_layer (xor_bytes a b) = xor_bytes (diff_layer a) (diff_layer b)"
  by (elim list16E) (simp add: diff_layer_def xor_bytes_def xor_ac)

lemma length_aria_layers [simp, sar_len]:
  "length (sub_even s) = 16" "length (sub_odd s) = 16" "length (diff_layer s) = 16"
  "length (aria_store d) = 16"
  by (simp_all add: sub_even_def sub_odd_def diff_layer_def aria_store_def split: prod.splits)

lemma aria_load_store [simp]: "aria_load (aria_store d) = d"
  by (cases d) (simp add: aria_load_def aria_store_def)

lemma aria_store_load [simp]: "length p = 16 \<Longrightarrow> aria_store (aria_load p) = p"
  by (elim list16E) (simp add: aria_load_def aria_store_def)

lemma xor128_cancel [simp]: "xor128 (xor128 a b) b = a"
  by (cases a; cases b) simp

lemma sar_st_be32_xor: "sar_st_be32 (a XOR b) = xor_bytes (sar_st_be32 a) (sar_st_be32 b)"
  by (simp add: sar_st_be32_def xor_bytes_def unsigned_xor_eq drop_bit_xor)

lemma aria_store_xor128: "aria_store (xor128 a b) = xor_bytes (aria_store a) (aria_store b)"
  by (cases a; cases b) (simp add: aria_store_def sar_st_be32_xor xor_bytes_append)

section \<open>The block functions are inverse\<close>

text \<open>
  For the proof the loop is an indexed sequence: \<^term>\<open>aria_seq rk i d\<close> is the state before round key
  \<^term>\<open>i\<close> is mixed in, with the substitution layer alternating and the diffusion applied after each.
\<close>

definition aria_S :: "nat \<Rightarrow> aria_state \<Rightarrow> aria_state" where
  "aria_S i d = aria_load ((if even i then sub_odd else sub_even) (aria_store d))"

definition aria_D :: "aria_state \<Rightarrow> aria_state" where
  "aria_D d = aria_load (diff_layer (aria_store d))"

primrec aria_seq :: "aria_state list \<Rightarrow> nat \<Rightarrow> aria_state \<Rightarrow> aria_state" where
  "aria_seq rk 0 d = d"
| "aria_seq rk (Suc i) d = aria_D (aria_S i (xor128 (aria_seq rk i d) (rk ! i)))"

lemma aria_D_D [simp]: "aria_D (aria_D d) = d"
  by (simp add: aria_D_def diff_layer_involution)

lemma aria_D_xor: "aria_D (xor128 a b) = xor128 (aria_D a) (aria_D b)"
proof -
  have "aria_store (aria_D (xor128 a b)) = aria_store (xor128 (aria_D a) (aria_D b))"
    by (simp add: aria_D_def aria_store_xor128 diff_layer_xor)
  then show ?thesis by (metis aria_load_store)
qed

lemma aria_S_S [simp]: "even i \<noteq> even j \<Longrightarrow> aria_S i (aria_S j d) = d"
  by (auto simp: aria_S_def sub_even_odd sub_odd_even)

lemma aria_sl_layers:
  "aria_sl1_a d = aria_D (aria_S 0 d)" "aria_sl2_a d = aria_D (aria_S 1 d)"
  by (simp_all add: aria_sl1_a_def aria_sl2_a_def aria_D_def aria_S_def)

lemma aria_S_parity: "even i = even j \<Longrightarrow> aria_S i = aria_S j"
  by (auto simp: aria_S_def)

lemma aria_loop_seq:
  assumes "even i" "even rounds" "i < rounds"
  shows "aria_loop rk rounds i (aria_seq rk i d) =
    (rounds, xor128 (aria_seq rk (rounds - 1) d) (rk ! (rounds - 1)))"
  using assms
proof (induction "rounds - i" arbitrary: i rule: less_induct)
  case less
  have s: "aria_sl1_a (xor128 (aria_seq rk i d) (rk ! i)) = aria_seq rk (i + 1) d"
    "aria_sl2_a (xor128 (aria_seq rk (i + 1) d) (rk ! (i + 1))) = aria_seq rk (i + 2) d"
    using less.prems aria_S_parity [of 0 i] aria_S_parity [of 1 "i + 1"]
    by (simp_all add: aria_sl_layers)
  show ?case
  proof (cases "rounds \<le> i + 2")
    case True
    then have "rounds = i + 2" using less.prems by presburger
    then show ?thesis using s by (subst aria_loop.simps) (simp add: Let_def)
  next
    case False
    then have "aria_loop rk rounds (i + 2) (aria_seq rk (i + 2) d) =
        (rounds, xor128 (aria_seq rk (rounds - 1) d) (rk ! (rounds - 1)))"
      using less.prems by (intro less.hyps) auto
    then show ?thesis using False s by (subst aria_loop.simps) (simp add: Let_def)
  qed
qed

lemma aria_crypt_seq:
  assumes "even rounds" "0 < rounds"
  shows "aria_crypt rk rounds p = aria_store (xor128
    (aria_S 1 (xor128 (aria_seq rk (rounds - 1) (aria_load p)) (rk ! (rounds - 1)))) (rk ! rounds))"
  using assms aria_loop_seq [of 0 rounds rk "aria_load p"]
  by (simp add: aria_crypt_def aria_S_def Let_def)

definition aria_valid :: "aria_ctx \<Rightarrow> bool" where
  "aria_valid c \<longleftrightarrow> even (aria_rounds c) \<and> 2 \<le> aria_rounds c \<and>
     (\<forall>i \<le> aria_rounds c. aria_dk c ! i =
       (if 1 \<le> i \<and> i < aria_rounds c then aria_D (aria_ek c ! (aria_rounds c - i))
        else aria_ek c ! (aria_rounds c - i)))"

lemma aria_valid_key_schedule: "aria_valid (aria_key_schedule key key_len)"
  by (auto simp: aria_valid_def aria_key_schedule_def Let_def aria_D_def simp del: upt_Suc)

lemma aria_seq_undo:
  assumes v: "aria_valid c" and "1 \<le> j" "j < aria_rounds c"
    and y: "y = xor128 (aria_S 1 (xor128 (aria_seq (aria_ek c) (aria_rounds c - 1) d)
      (aria_ek c ! (aria_rounds c - 1)))) (aria_ek c ! aria_rounds c)"
  shows "aria_seq (aria_dk c) j y =
    aria_D (xor128 (aria_seq (aria_ek c) (aria_rounds c - j) d) (aria_ek c ! (aria_rounds c - j)))"
  using assms(2,3)
proof (induction j rule: dec_induct)
  case base
  then show ?case using v by (simp add: y aria_valid_def)
next
  case (step j)
  obtain n where n: "aria_rounds c - j = Suc n" "aria_rounds c - Suc j = n"
    using step.prems by (metis Suc_diff_Suc Suc_lessD)
  have "even n \<noteq> even j" using v step.prems n by (auto simp: aria_valid_def)
  moreover have "aria_dk c ! j = aria_D (aria_ek c ! Suc n)"
    using v step n by (auto simp: aria_valid_def)
  ultimately show ?case using step n by (simp add: aria_D_xor)
qed

interpretation aria: block_cipher aria_valid aria_encrypt_block aria_decrypt_block 16
proof
  fix c :: aria_ctx and p :: bytes
  assume v: "aria_valid c" and p: "length p = 16"
  obtain n where n: "aria_rounds c = Suc (Suc n)" "even n"
    using v unfolding aria_valid_def by (metis even_Suc Suc_le_D numeral_2_eq_2 Suc_le_mono)
  define y where "y = xor128 (aria_S 1 (xor128 (aria_seq (aria_ek c) (aria_rounds c - 1) (aria_load p))
      (aria_ek c ! (aria_rounds c - 1)))) (aria_ek c ! aria_rounds c)"
  have e: "snd (aria_encrypt_block c p) = aria_store y"
    using n by (simp add: aria_encrypt_block_def aria_crypt_seq y_def)
  have "aria_seq (aria_dk c) (Suc n) y = aria_D (xor128 (aria_seq (aria_ek c) 1 (aria_load p)) (aria_ek c ! 1))"
    using aria_seq_undo [OF v, of "Suc n" y "aria_load p"] n by (simp add: y_def)
  moreover have "aria_dk c ! Suc n = aria_D (aria_ek c ! 1)" "aria_dk c ! Suc (Suc n) = aria_ek c ! 0"
    using v n by (auto simp: aria_valid_def)
  ultimately show "snd (aria_decrypt_block c (snd (aria_encrypt_block c p))) = p"
    unfolding e using n p by (simp add: aria_decrypt_block_def aria_crypt_seq aria_D_xor)
qed (simp_all add: aria_encrypt_block_def aria_decrypt_block_def aria_crypt_def Let_def split: prod.splits)

end
