(* ===== verification/Stream_Ciphers.thy ===== *)
theory Stream_Ciphers
  imports Sar_Prelude
begin

text \<open>
  The stream ciphers of \<^verbatim>\<open>engine/ciphers/stream.c\<close>: the ChaCha and Salsa20 block functions with a
  selectable number of rounds, the HChaCha20 and HSalsa20 subkey derivations, and the two RC4 checks
  that compare a plaintext/ciphertext sample with the keystream. RC4 is related to its keystream as
  a list, and its state is shown to stay a permutation of the 256 byte values.
\<close>

section \<open>ChaCha and Salsa20\<close>

definition STREAM_ROUNDS :: "nat list" where
  "STREAM_ROUNDS = [8, 12, 20]"

definition chacha_qr :: "nat \<Rightarrow> nat \<Rightarrow> nat \<Rightarrow> nat \<Rightarrow> u32 list \<Rightarrow> u32 list" where
  "chacha_qr a b c d s =
     (let s = s[a := s ! a + s ! b]; s = s[d := s ! d XOR s ! a]; s = s[d := SAR_ROTL32 (s ! d) 16];
          s = s[c := s ! c + s ! d]; s = s[b := s ! b XOR s ! c]; s = s[b := SAR_ROTL32 (s ! b) 12];
          s = s[a := s ! a + s ! b]; s = s[d := s ! d XOR s ! a]; s = s[d := SAR_ROTL32 (s ! d) 8];
          s = s[c := s ! c + s ! d]; s = s[b := s ! b XOR s ! c]; s = s[b := SAR_ROTL32 (s ! b) 7]
      in s)"

definition chacha_double_round :: "u32 list \<Rightarrow> u32 list" where
  "chacha_double_round w =
     (let w = chacha_qr 0 4 8 12 w; w = chacha_qr 1 5 9 13 w;
          w = chacha_qr 2 6 10 14 w; w = chacha_qr 3 7 11 15 w;
          w = chacha_qr 0 5 10 15 w; w = chacha_qr 1 6 11 12 w;
          w = chacha_qr 2 7 8 13 w; w = chacha_qr 3 4 9 14 w
      in w)"

definition chacha_block :: "bytes \<Rightarrow> bytes \<Rightarrow> u32 \<Rightarrow> nat \<Rightarrow> bytes" where
  "chacha_block key nonce counter rounds =
     (let s = [0x61707865, 0x3320646e, 0x79622d32, 0x6b206574] @
              map (\<lambda>i. sar_le32 (drop (i * 4) key)) [0..<8] @
              [counter, sar_le32 nonce, sar_le32 (drop 4 nonce), sar_le32 (drop 8 nonce)];
          dr = rounds div 2;
          w = fold (\<lambda>_. chacha_double_round) [0..<dr] s
      in concat (map (\<lambda>i. sar_st_le32 (w ! i + s ! i)) [0..<16]))"

definition hchacha20 :: "bytes \<Rightarrow> bytes \<Rightarrow> bytes" where
  "hchacha20 key nonce =
     (let s = [0x61707865, 0x3320646e, 0x79622d32, 0x6b206574] @
              map (\<lambda>i. sar_le32 (drop (i * 4) key)) [0..<8] @
              [sar_le32 nonce, sar_le32 (drop 4 nonce), sar_le32 (drop 8 nonce), sar_le32 (drop 12 nonce)];
          s = fold (\<lambda>_. chacha_double_round) [0..<10] s
      in concat (map (\<lambda>i. sar_st_le32 (s ! i)) [0..<4]) @
         concat (map (\<lambda>i. sar_st_le32 (s ! (12 + i))) [0..<4]))"

definition salsa_qr :: "nat \<Rightarrow> nat \<Rightarrow> nat \<Rightarrow> nat \<Rightarrow> u32 list \<Rightarrow> u32 list" where
  "salsa_qr a b c d s =
     (let s = s[b := s ! b XOR SAR_ROTL32 (s ! a + s ! d) 7];
          s = s[c := s ! c XOR SAR_ROTL32 (s ! b + s ! a) 9];
          s = s[d := s ! d XOR SAR_ROTL32 (s ! c + s ! b) 13];
          s = s[a := s ! a XOR SAR_ROTL32 (s ! d + s ! c) 18]
      in s)"

definition salsa_double_round :: "u32 list \<Rightarrow> u32 list" where
  "salsa_double_round w =
     (let w = salsa_qr 0 4 8 12 w; w = salsa_qr 5 9 13 1 w;
          w = salsa_qr 10 14 2 6 w; w = salsa_qr 15 3 7 11 w;
          w = salsa_qr 0 1 2 3 w; w = salsa_qr 5 6 7 4 w;
          w = salsa_qr 10 11 8 9 w; w = salsa_qr 15 12 13 14 w
      in w)"

definition salsa_block :: "bytes \<Rightarrow> bytes \<Rightarrow> u64 \<Rightarrow> nat \<Rightarrow> bytes" where
  "salsa_block key nonce counter rounds =
     (let s = [0x61707865,
               sar_le32 key, sar_le32 (drop 4 key), sar_le32 (drop 8 key), sar_le32 (drop 12 key),
               0x3320646e,
               sar_le32 nonce, sar_le32 (drop 4 nonce),
               ucast (counter AND 0xFFFFFFFF), ucast (drop_bit 32 counter),
               0x79622d32,
               sar_le32 (drop 16 key), sar_le32 (drop 20 key), sar_le32 (drop 24 key), sar_le32 (drop 28 key),
               0x6b206574];
          dr = rounds div 2;
          w = fold (\<lambda>_. salsa_double_round) [0..<dr] s
      in concat (map (\<lambda>i. sar_st_le32 (w ! i + s ! i)) [0..<16]))"

definition hsalsa20 :: "bytes \<Rightarrow> bytes \<Rightarrow> bytes" where
  "hsalsa20 key nonce =
     (let s = [0x61707865,
               sar_le32 key, sar_le32 (drop 4 key), sar_le32 (drop 8 key), sar_le32 (drop 12 key),
               0x3320646e,
               sar_le32 nonce, sar_le32 (drop 4 nonce), sar_le32 (drop 8 nonce), sar_le32 (drop 12 nonce),
               0x79622d32,
               sar_le32 (drop 16 key), sar_le32 (drop 20 key), sar_le32 (drop 24 key), sar_le32 (drop 28 key),
               0x6b206574];
          s = fold (\<lambda>_. salsa_double_round) [0..<10] s
      in concat (map (\<lambda>i. sar_st_le32 (s ! i)) [0, 5, 10, 15, 6, 7, 8, 9]))"

section \<open>RC4\<close>

type_synonym rc4_state = "u8 list \<times> u8 \<times> u8"

definition rc4_swap :: "u8 list \<Rightarrow> u8 \<Rightarrow> u8 \<Rightarrow> u8 list" where
  "rc4_swap S i j = (let tmp = S ! unat i; S = S[unat i := S ! unat j] in S[unat j := tmp])"

definition rc4_schedule_step :: "bytes \<Rightarrow> nat \<Rightarrow> nat \<Rightarrow> u8 list \<times> u8 \<Rightarrow> u8 list \<times> u8" where
  "rc4_schedule_step key key_len i = (\<lambda>(S, j).
     let j = j + S ! i + key ! (i mod key_len) in (rc4_swap S (word_of_nat i) j, j))"

definition rc4_schedule :: "bytes \<Rightarrow> nat \<Rightarrow> u8 list" where
  "rc4_schedule key key_len =
     fst (fold (rc4_schedule_step key key_len) [0..<256] (map word_of_nat [0..<256], 0))"

definition rc4_step :: "rc4_state \<Rightarrow> rc4_state" where
  "rc4_step = (\<lambda>(S, ri, rj).
     let ri = ri + 1; rj = rj + S ! unat ri in (rc4_swap S ri rj, ri, rj))"

definition rc4_out :: "rc4_state \<Rightarrow> u8" where
  "rc4_out = (\<lambda>(S, ri, rj). S ! unat (S ! unat ri + S ! unat rj))"

primrec rc4_check :: "rc4_state \<Rightarrow> bytes \<Rightarrow> bytes \<Rightarrow> nat \<Rightarrow> nat \<Rightarrow> bool" where
  "rc4_check st pt ct k 0 = True"
| "rc4_check st pt ct k (Suc n) =
     (let st = rc4_step st
      in if pt ! k XOR rc4_out st \<noteq> ct ! k then False else rc4_check st pt ct (Suc k) n)"

definition rc4_verify :: "bytes \<Rightarrow> nat \<Rightarrow> bytes \<Rightarrow> bytes \<Rightarrow> nat \<Rightarrow> nat \<Rightarrow> bool" where
  "rc4_verify key key_len pt ct sample_size file_offset =
     (let st = (rc4_schedule key key_len, 0, 0);
          st = fold (\<lambda>_. rc4_step) [0..<file_offset] st
      in rc4_check st pt ct 0 sample_size)"

definition rc4_verify_state :: "u8 list \<Rightarrow> u8 \<Rightarrow> u8 \<Rightarrow> bytes \<Rightarrow> bytes \<Rightarrow> nat \<Rightarrow> bool" where
  "rc4_verify_state S si sj pt ct sample_size = rc4_check (S, si, sj) pt ct 0 sample_size"

section \<open>RC4 as a keystream\<close>

definition rc4_keystream :: "rc4_state \<Rightarrow> nat \<Rightarrow> bytes" where
  "rc4_keystream st n = map (\<lambda>k. rc4_out ((rc4_step ^^ Suc k) st)) [0..<n]"

definition rc4_start :: "bytes \<Rightarrow> nat \<Rightarrow> nat \<Rightarrow> rc4_state" where
  "rc4_start key key_len off = (rc4_step ^^ off) (rc4_schedule key key_len, 0, 0)"

lemma length_rc4_keystream [simp, sar_len]: "length (rc4_keystream st n) = n"
  by (simp add: rc4_keystream_def)

lemma nth_rc4_keystream [simp]: "k < n \<Longrightarrow> rc4_keystream st n ! k = rc4_out ((rc4_step ^^ Suc k) st)"
  by (simp add: rc4_keystream_def)

lemma rc4_check_iff:
  "rc4_check st pt ct k n \<longleftrightarrow> (\<forall>i<n. ct ! (k + i) = pt ! (k + i) XOR rc4_out ((rc4_step ^^ Suc i) st))"
proof (induction n arbitrary: st k)
  case (Suc n)
  have "(\<forall>i<Suc n. P i) = (P 0 \<and> (\<forall>i<n. P (Suc i)))" for P
    using less_Suc_eq_0_disj by auto
  then show ?case
    by (simp add: Suc Let_def funpow_swap1 eq_commute [of "ct ! _"] del: funpow.simps)
      (simp add: funpow_swap1)
qed simp

lemma rc4_check_keystream:
  assumes "n \<le> length pt" "n \<le> length ct"
  shows "rc4_check st pt ct 0 n \<longleftrightarrow> take n ct = xor_bytes (take n pt) (rc4_keystream st n)"
  using assms by (auto simp: rc4_check_iff list_eq_iff_nth_eq nth_xor_bytes)

lemma fold_const_funpow: "fold (\<lambda>_. f) [0..<n] x = (f ^^ n) x"
  by (induction n) simp_all

lemma rc4_verify_start:
  "rc4_verify key key_len pt ct n off = rc4_check (rc4_start key key_len off) pt ct 0 n"
  by (simp add: rc4_verify_def rc4_start_def fold_const_funpow Let_def)

section \<open>The state stays a permutation\<close>

definition rc4_perm :: "u8 list \<Rightarrow> bool" where
  "rc4_perm S \<longleftrightarrow> length S = 256 \<and> distinct S"

lemma unat_u8_less [simp]: "unat (x :: u8) < 256"
  using unsigned_less [of x] by simp

lemma rc4_swap_perm: "rc4_perm S \<Longrightarrow> rc4_perm (rc4_swap S i j)"
  by (simp add: rc4_perm_def rc4_swap_def Let_def)

lemma rc4_schedule_step_perm:
  "rc4_perm (fst s) \<Longrightarrow> rc4_perm (fst (rc4_schedule_step key key_len i s))"
  by (cases s) (simp add: rc4_schedule_step_def rc4_swap_perm Let_def)

lemma rc4_schedule_perm: "rc4_perm (rc4_schedule key key_len)"
proof -
  have "rc4_perm (fst (fold (rc4_schedule_step key key_len) is s))" if "rc4_perm (fst s)" for "is" s
    using that by (induction "is" arbitrary: s) (auto simp: rc4_schedule_step_perm)
  moreover have "rc4_perm (map word_of_nat [0..<256])"
    by (auto simp: rc4_perm_def distinct_map inj_on_def of_nat_eq_iff word_of_nat_eq_iff take_bit_eq_mod)
  ultimately show ?thesis by (simp add: rc4_schedule_def)
qed

lemma rc4_step_perm: "rc4_perm (fst st) \<Longrightarrow> rc4_perm (fst (rc4_step st))"
  by (cases st) (simp add: rc4_step_def rc4_swap_perm Let_def)

lemma rc4_start_perm: "rc4_perm (fst (rc4_start key key_len off))"
  unfolding rc4_start_def by (induction off) (auto simp: rc4_step_perm rc4_schedule_perm)

lemma length_blocks [simp, sar_len]:
  "length (chacha_block key nonce c r) = 64" "length (salsa_block key nonce c64 r) = 64"
  "length (hchacha20 key n16) = 32" "length (hsalsa20 key n16) = 32"
  by (simp_all add: chacha_block_def salsa_block_def hchacha20_def hsalsa20_def Let_def
      length_concat comp_def sum_list_triv)

end
