(* ===== verification/Recover.thy ===== *)
theory Recover
  imports Mode_Reference Keystore Sm4 Seed Des Camellia Aria Stream_Ciphers "HOL-Library.Monad_Syntax"
begin

text \<open>
  The recovery engine of \<^verbatim>\<open>engine/src/recover.c\<close>: expanding a partial-encryption geometry into byte
  ranges, decrypting a range under every mode, checking the recovered sample, and searching a file for
  its initialisation vector. This theory holds the definitions; what they compute is proved in
  \<open>Geometry\<close> and \<open>Recover_Correct\<close>.

  A pointer \<^verbatim>\<open>ct\<close> into a file is a window: the bytes that may be read, how many of them lie before the
  pointer, and the file offset \<^verbatim>\<open>base\<close> the pointer stands for. A read outside the window or a write
  outside the output buffer is \<^term>\<open>None\<close>. Offsets that passed the range test against the file size are
  natural numbers; the geometry, which is checked before that test, computes with 64-bit words.
\<close>

section \<open>Keys, ranges and geometries\<close>

datatype sar_recover_status =
    SAR_RECOVER_OK | SAR_RECOVER_DECLINED_KEY | SAR_RECOVER_DECLINED_IV | SAR_RECOVER_DECLINED_GEOMETRY
  | SAR_RECOVER_DECLINED_STATE_ONLY | SAR_RECOVER_DECLINED_MISMATCH | SAR_RECOVER_INVALID
  | SAR_RECOVER_DECLINED_NO_KEY_ID | SAR_RECOVER_DECLINED_TARGET_IO | SAR_RECOVER_DECLINED_TOO_LARGE

record sar_recovery_key =
  rk_algorithm :: u32
  rk_mode :: u32
  rk_key_length :: u32
  rk_key :: bytes
  rk_mode_params :: u64
  rk_iv :: bytes
  rk_iv_length :: u8
  rk_ctr_layout_tag :: u8

record sar_recovery_sample =
  sm_file_offset :: u64
  sm_plaintext :: bytes
  sm_ciphertext :: bytes
  sm_length :: u32

record sar_recovery_verify =
  rv_sample_offset :: u64
  rv_sample_length :: u32
  rv_sample_tag :: bytes

record sar_range =
  rg_offset :: u64
  rg_length :: u64

record sar_geometry =
  ge_mode :: u32
  ge_head_bytes :: u64
  ge_chunk_bytes :: u64
  ge_stride_bytes :: u64
  ge_percent :: u32
  ge_block_count :: u32
  ge_counter_policy :: u32
  ge_ranges :: "sar_range list option"
  ge_range_count :: u32

definition SAR_GEOM_FULL :: u32 where "SAR_GEOM_FULL = 0"
definition SAR_GEOM_HEAD :: u32 where "SAR_GEOM_HEAD = 1"
definition SAR_GEOM_STRIDE :: u32 where "SAR_GEOM_STRIDE = 2"
definition SAR_GEOM_PERCENT :: u32 where "SAR_GEOM_PERCENT = 3"
definition SAR_GEOM_EXPLICIT :: u32 where "SAR_GEOM_EXPLICIT = 4"
definition SAR_CTR_CONTINUOUS :: u32 where "SAR_CTR_CONTINUOUS = 0"
definition SAR_CTR_RESET_PER_CHUNK :: u32 where "SAR_CTR_RESET_PER_CHUNK = 1"
definition SAR_MAX_RANGES :: nat where "SAR_MAX_RANGES = 1024"

section \<open>Ciphers\<close>

definition make_block :: "u32 \<Rightarrow> bytes \<Rightarrow> nat \<Rightarrow> block_cipher_ctx option" where
  "make_block alg key klen =
     (if alg = SAR_ALG_AES_128 \<or> alg = SAR_ALG_AES_192 \<or> alg = SAR_ALG_AES_256 then
        let c = aes_setkey key klen
        in Some \<lparr>bc_encrypt = aes_encrypt_block c, bc_decrypt = aes_decrypt_block c, bc_block_size = 16\<rparr>
      else if alg = SAR_ALG_3DES then
        let c = des3_setkey key
        in Some \<lparr>bc_encrypt = des3_encrypt_block c, bc_decrypt = des3_decrypt_block c, bc_block_size = 8\<rparr>
      else if alg = SAR_ALG_SM4 then
        let c = sm4_key_schedule key
        in Some \<lparr>bc_encrypt = sm4_encrypt_block c, bc_decrypt = sm4_decrypt_block c, bc_block_size = 16\<rparr>
      else if alg = SAR_ALG_CAMELLIA then
        let c = camellia_key_schedule key klen
        in Some \<lparr>bc_encrypt = camellia_encrypt_block c, bc_decrypt = camellia_decrypt_block c, bc_block_size = 16\<rparr>
      else if alg = SAR_ALG_ARIA then
        let c = aria_key_schedule key klen
        in Some \<lparr>bc_encrypt = aria_encrypt_block c, bc_decrypt = aria_decrypt_block c, bc_block_size = 16\<rparr>
      else if alg = SAR_ALG_SEED then
        let c = seed_key_schedule key
        in Some \<lparr>bc_encrypt = seed_encrypt_block c, bc_decrypt = seed_decrypt_block c, bc_block_size = 16\<rparr>
      else None)"

definition make_xts :: "u32 \<Rightarrow> bytes \<Rightarrow> nat \<Rightarrow> (block_cipher_ctx \<times> block_cipher_ctx) option" where
  "make_xts alg key klen =
     (let half = klen div 2
      in if half = 0 then None
         else do {
           bc1 \<leftarrow> make_block alg key half;
           bc2 \<leftarrow> make_block alg (drop half key) half;
           Some (bc1, bc2) })"

definition is_block_alg :: "u32 \<Rightarrow> bool" where
  "is_block_alg alg \<longleftrightarrow> alg = SAR_ALG_AES_128 \<or> alg = SAR_ALG_AES_192 \<or> alg = SAR_ALG_AES_256 \<or>
     alg = SAR_ALG_3DES \<or> alg = SAR_ALG_SM4 \<or> alg = SAR_ALG_CAMELLIA \<or> alg = SAR_ALG_ARIA \<or> alg = SAR_ALG_SEED"

definition is_chacha_alg :: "u32 \<Rightarrow> bool" where
  "is_chacha_alg alg \<longleftrightarrow> alg = SAR_ALG_CHACHA20 \<or> alg = SAR_ALG_XCHACHA20"

definition is_salsa_alg :: "u32 \<Rightarrow> bool" where
  "is_salsa_alg alg \<longleftrightarrow> alg = SAR_ALG_SALSA20 \<or> alg = SAR_ALG_XSALSA20"

definition stream_block :: "sar_recovery_key \<Rightarrow> u64 \<Rightarrow> bytes" where
  "stream_block rk block_index =
     (let rounds = unat (drop_bit 8 (rk_mode_params rk) AND 0xff);
          origin = rk_mode_params rk AND 0xff;
          counter = block_index + origin
      in if is_chacha_alg (rk_algorithm rk) then
           (if rk_algorithm rk = SAR_ALG_XCHACHA20 then
              let subkey = hchacha20 (rk_key rk) (rk_iv rk);
                  nonce12 = replicate 4 0 @ slice (rk_iv rk) 16 8
              in chacha_block subkey nonce12 (ucast counter) rounds
            else chacha_block (rk_key rk) (rk_iv rk) (ucast counter) rounds)
         else
           (if rk_algorithm rk = SAR_ALG_XSALSA20 then
              let subkey = hsalsa20 (rk_key rk) (rk_iv rk); nonce8 = slice (rk_iv rk) 16 8
              in salsa_block subkey nonce8 counter rounds
            else salsa_block (rk_key rk) (rk_iv rk) counter rounds))"

definition rc4_ksa :: "sar_recovery_key \<Rightarrow> u8 list" where
  "rc4_ksa rk =
     fst (fold (rc4_schedule_step (rk_key rk) (unat (rk_key_length rk))) [0..<256] (map word_of_nat [0..<256], 0))"

section \<open>Windows\<close>

record sar_window =
  w_bytes :: bytes
  w_before :: nat
  w_base :: nat

definition ct_read :: "sar_window \<Rightarrow> nat \<Rightarrow> nat \<Rightarrow> nat \<Rightarrow> bytes option" where
  "ct_read w pos back n =
     (if w_base w + back \<le> pos + w_before w \<and> pos + w_before w + n \<le> w_base w + back + length (w_bytes w)
      then Some (slice (w_bytes w) (pos + w_before w - (w_base w + back)) n)
      else None)"

definition pt_write :: "sar_window \<Rightarrow> nat \<Rightarrow> bytes \<Rightarrow> bytes \<Rightarrow> bytes option" where
  "pt_write w pos b pt =
     (if w_base w \<le> pos \<and> pos - w_base w + length b \<le> length pt then Some (splice_at pt (pos - w_base w) b) else None)"

primrec fold_opt :: "('a \<Rightarrow> 's \<Rightarrow> 's option) \<Rightarrow> 'a list \<Rightarrow> 's \<Rightarrow> 's option" where
  "fold_opt f [] s = Some s"
| "fold_opt f (x # xs) s = Option.bind (f x s) (fold_opt f xs)"

text \<open>
  The offsets of the loop \<^verbatim>\<open>for (o = start; o + bs <= start + length; o += bs)\<close>, and of the loop that also
  visits a last partial block, \<^verbatim>\<open>for (o = start; o < start + length; o += bs)\<close>.
\<close>

definition whole_blocks :: "nat \<Rightarrow> nat \<Rightarrow> nat \<Rightarrow> nat list" where
  "whole_blocks bs start len = map (\<lambda>k. start + k * bs) [0..<len div bs]"

definition all_blocks :: "nat \<Rightarrow> nat \<Rightarrow> nat \<Rightarrow> nat list" where
  "all_blocks bs start len = map (\<lambda>k. start + k * bs) [0..<(len + bs - 1) div bs]"

section \<open>Decrypting one range\<close>

definition rec_ecb :: "block_cipher_ctx \<Rightarrow> sar_window \<Rightarrow> nat \<Rightarrow> nat \<Rightarrow> bytes \<Rightarrow> bytes option" where
  "rec_ecb bc w start len =
     (let bs = bc_block_size bc
      in fold_opt (\<lambda>pos pt. do { c \<leftarrow> ct_read w pos 0 bs; pt_write w pos (bc_D bc c) pt }) (whole_blocks bs start len))"

text \<open>
  The block before a position: \<^term>\<open>Some None\<close> when the code returns 0 because the initialisation vector is
  too short.
\<close>

definition range_iv_block ::
  "sar_recovery_key \<Rightarrow> u32 \<Rightarrow> nat \<Rightarrow> nat \<Rightarrow> nat \<Rightarrow> sar_window \<Rightarrow> bytes option option" where
  "range_iv_block rk policy pos origin bs w =
     (if pos = 0 \<or> policy = SAR_CTR_RESET_PER_CHUNK \<and> pos = origin then
        (if unat (rk_iv_length rk) < bs then Some None else Some (Some (take bs (rk_iv rk))))
      else do { p \<leftarrow> ct_read w pos bs bs; Some (Some p) })"

definition rec_cbc ::
  "block_cipher_ctx \<Rightarrow> sar_recovery_key \<Rightarrow> u32 \<Rightarrow> sar_window \<Rightarrow> nat \<Rightarrow> nat \<Rightarrow> nat \<Rightarrow> bytes \<Rightarrow> bytes option" where
  "rec_cbc bc rk policy w origin start len =
     (let bs = bc_block_size bc
      in fold_opt (\<lambda>pos pt. do {
           p \<leftarrow> range_iv_block rk policy pos origin bs w;
           case p of
             None \<Rightarrow> Some pt
           | Some prev \<Rightarrow> do { c \<leftarrow> ct_read w pos 0 bs; pt_write w pos (xor_bytes (bc_D bc c) prev) pt } })
         (whole_blocks bs start len))"

definition cfb_chunk ::
  "block_cipher_ctx \<Rightarrow> sar_recovery_key \<Rightarrow> u32 \<Rightarrow> sar_window \<Rightarrow> nat \<Rightarrow> nat \<Rightarrow> nat \<Rightarrow> bytes \<Rightarrow> bytes option" where
  "cfb_chunk bc rk policy w origin n pos pt =
     do {
       p \<leftarrow> range_iv_block rk policy pos origin (bc_block_size bc) w;
       case p of
         None \<Rightarrow> Some pt
       | Some prev \<Rightarrow> do { c \<leftarrow> ct_read w pos 0 n; pt_write w pos (xor_bytes c (bc_E bc prev)) pt } }"

definition rec_cfb ::
  "block_cipher_ctx \<Rightarrow> sar_recovery_key \<Rightarrow> u32 \<Rightarrow> sar_window \<Rightarrow> nat \<Rightarrow> nat \<Rightarrow> nat \<Rightarrow> bytes \<Rightarrow> bytes option" where
  "rec_cfb bc rk policy w origin start len pt =
     (let bs = bc_block_size bc; rem = len mod bs
      in do {
           pt \<leftarrow> fold_opt (cfb_chunk bc rk policy w origin bs) (whole_blocks bs start len) pt;
           if rem > 0 then cfb_chunk bc rk policy w origin rem (start + len - rem) pt else Some pt })"

definition ks_chunk :: "sar_window \<Rightarrow> nat \<Rightarrow> nat \<Rightarrow> bytes \<Rightarrow> nat \<Rightarrow> bytes \<Rightarrow> bytes option" where
  "ks_chunk w stop n ks pos pt =
     (let cnt = min (stop - pos) n in do { c \<leftarrow> ct_read w pos 0 cnt; pt_write w pos (xor_bytes c ks) pt })"

definition rec_ofb ::
  "block_cipher_ctx \<Rightarrow> sar_recovery_key \<Rightarrow> u32 \<Rightarrow> sar_window \<Rightarrow> nat \<Rightarrow> nat \<Rightarrow> nat \<Rightarrow> bytes \<Rightarrow> bytes option" where
  "rec_ofb bc rk policy w origin start len pt =
     (let bs = bc_block_size bc;
          first_blk = (if policy = SAR_CTR_RESET_PER_CHUNK then (start - origin) div bs else start div bs);
          O0 = bc_E bc (take bs (rk_iv rk));
          O1 = fold (\<lambda>_. bc_E bc) [0..<first_blk] O0
      in map_option fst (fold_opt (\<lambda>pos (pt, ks). do {
           pt \<leftarrow> ks_chunk w (start + len) bs ks pos pt; Some (pt, bc_E bc ks) })
         (all_blocks bs start len) (pt, O1)))"

definition rec_ctr ::
  "block_cipher_ctx \<Rightarrow> sar_recovery_key \<Rightarrow> u32 \<Rightarrow> sar_window \<Rightarrow> nat \<Rightarrow> nat \<Rightarrow> nat \<Rightarrow> bytes \<Rightarrow> bytes option" where
  "rec_ctr bc rk policy w origin start len =
     (let bs = bc_block_size bc;
          L = SAR_CTR_LAYOUTS ! (unat (rk_ctr_layout_tag rk) - 1);
          v0 = sar_ctr_field_read (rk_iv rk) L
      in fold_opt (\<lambda>pos pt.
           let n = (if policy = SAR_CTR_RESET_PER_CHUNK then (pos - origin) div bs else pos div bs);
               counter = sar_ctr_field_write (take bs (rk_iv rk)) L (v0 + word_of_nat n)
           in ks_chunk w (start + len) bs (bc_E bc counter) pos pt)
         (all_blocks bs start len))"

function rec_stream_loop ::
  "sar_recovery_key \<Rightarrow> u32 \<Rightarrow> sar_window \<Rightarrow> nat \<Rightarrow> nat \<Rightarrow> nat \<Rightarrow> bytes \<Rightarrow> bytes option" where
  "rec_stream_loop rk policy w origin stop pos pt =
     (if pos < stop then
        let eo = (if policy = SAR_CTR_RESET_PER_CHUNK then pos - origin else pos);
            within = eo mod 64;
            ks = stream_block rk (word_of_nat (eo div 64));
            span = min (64 - within) (stop - pos)
        in do {
             c \<leftarrow> ct_read w pos 0 span;
             pt' \<leftarrow> pt_write w pos (xor_bytes c (slice ks within span)) pt;
             rec_stream_loop rk policy w origin stop (pos + span) pt' }
      else Some pt)"
  by pat_completeness auto
termination
proof (relation "measure (\<lambda>(_, _, _, _, stop, pos, _). stop - pos)")
  fix pos stop eo within span :: nat
  assume "pos < stop" "within = eo mod 64" "span = min (64 - within) (stop - pos)"
  then have "0 < span" "pos < stop" by simp_all
  then show "((rk, policy, w, origin, stop, pos + span, pt'), rk, policy, w, origin, stop, pos, pt)
      \<in> measure (\<lambda>(_, _, _, _, stop, pos, _). stop - pos)" for rk policy w origin pt pt'
    by simp
qed simp

declare rec_stream_loop.simps [simp del]

definition rec_stream ::
  "sar_recovery_key \<Rightarrow> u32 \<Rightarrow> sar_window \<Rightarrow> nat \<Rightarrow> nat \<Rightarrow> nat \<Rightarrow> bytes \<Rightarrow> bytes option" where
  "rec_stream rk policy w origin start len = rec_stream_loop rk policy w origin (start + len) start"

definition rec_rc4 :: "sar_recovery_key \<Rightarrow> u32 \<Rightarrow> sar_window \<Rightarrow> nat \<Rightarrow> nat \<Rightarrow> bytes \<Rightarrow> bytes option" where
  "rec_rc4 rk policy w start len pt =
     (let skip = (if policy = SAR_CTR_RESET_PER_CHUNK then 0 else start);
          st = fold (\<lambda>_. rc4_step) [0..<skip] (rc4_ksa rk, 0, 0)
      in map_option fst (fold_opt (\<lambda>pos (pt, st).
           let st = rc4_step st
           in do {
                c \<leftarrow> ct_read (w\<lparr>w_base := 0\<rparr>) pos 0 1;
                pt \<leftarrow> pt_write (w\<lparr>w_base := 0\<rparr>) pos [c ! 0 XOR rc4_out st] pt;
                Some (pt, st) })
         [start..<start + len] (pt, st)))"

definition rec_xts ::
  "block_cipher_ctx \<Rightarrow> block_cipher_ctx \<Rightarrow> u64 \<Rightarrow> sar_window \<Rightarrow> nat \<Rightarrow> nat \<Rightarrow> bytes \<Rightarrow> bytes option" where
  "rec_xts bc1 bc2 data_unit w start len =
     fold_opt (\<lambda>pos pt.
         let du = pos div unat data_unit;
             biu = (pos mod unat data_unit) div 16;
             tweak = fold (\<lambda>_. gf128_mul_alpha) [0..<biu] (bc_E bc2 (xts_tweak_in (word_of_nat du)))
         in do {
              c \<leftarrow> ct_read w pos 0 16;
              pt_write w pos (xor_bytes (bc_D bc1 (xor_bytes c tweak)) tweak) pt })
       (whole_blocks 16 start len)"

section \<open>Keys and samples\<close>

definition sar_recovery_key_from_record :: "keystore_record \<Rightarrow> sar_recovery_key" where
  "sar_recovery_key_from_record r =
     (let kl = min (unat (kr_key_length r)) SEMANTICS_AR_MAX_KEY_BYTES;
          ivl = (if unat (kr_iv_length r) > SEMANTICS_AR_IV_MAX then word_of_nat SEMANTICS_AR_IV_MAX
                 else kr_iv_length r)
      in \<lparr>rk_algorithm = kr_algorithm r, rk_mode = kr_mode r, rk_key_length = kr_key_length r,
          rk_key = sar_memcpy (replicate 64 0) (kr_key_bytes r) kl,
          rk_mode_params = kr_mode_params r,
          rk_iv = sar_memcpy (replicate 24 0) (kr_iv r) (unat ivl),
          rk_iv_length = ivl, rk_ctr_layout_tag = kr_ctr_layout_tag r\<rparr>)"

definition sar_recovery_key_from_verdict :: "sar_verdict \<Rightarrow> sar_recovery_key" where
  "sar_recovery_key_from_verdict v =
     (let kl = min (unat (v_key_length v)) SEMANTICS_AR_MAX_KEY_BYTES;
          ivl = (if unat (v_iv_length v) > SEMANTICS_AR_IV_MAX then word_of_nat SEMANTICS_AR_IV_MAX
                 else v_iv_length v)
      in \<lparr>rk_algorithm = v_algorithm v, rk_mode = v_mode v, rk_key_length = v_key_length v,
          rk_key = sar_memcpy (replicate 64 0) (v_key v) kl,
          rk_mode_params = v_mode_params v,
          rk_iv = sar_memcpy (replicate 24 0) (v_iv v) (unat ivl),
          rk_iv_length = ivl, rk_ctr_layout_tag = v_ctr_layout_tag v\<rparr>)"

definition sar_recovery_verify_from_record :: "keystore_record \<Rightarrow> sar_recovery_verify" where
  "sar_recovery_verify_from_record r =
     \<lparr>rv_sample_offset = kr_sample_offset r, rv_sample_length = kr_sample_length r,
      rv_sample_tag = sar_memcpy (replicate 32 0) (kr_sample_tag r) SEMANTICS_AR_MAC_SIZE\<rparr>"

definition sar_recover_verify ::
  "bytes option \<Rightarrow> u64 \<Rightarrow> sar_recovery_verify option \<Rightarrow> sar_recover_status" where
  "sar_recover_verify pt file_size v =
     (case (pt, v) of
        (Some p, Some v) \<Rightarrow>
          if rv_sample_length v = 0 then SAR_RECOVER_DECLINED_MISMATCH
          else if rv_sample_offset v > file_size \<or>
             file_size - rv_sample_offset v < ucast (rv_sample_length v)
          then SAR_RECOVER_DECLINED_MISMATCH
          else
            let tag = sar_sample_tag (drop (unat (rv_sample_offset v)) p) (unat (rv_sample_length v))
            in if \<not> sar_ct_equal tag (rv_sample_tag v) SEMANTICS_AR_MAC_SIZE
               then SAR_RECOVER_DECLINED_MISMATCH else SAR_RECOVER_OK
      | _ \<Rightarrow> SAR_RECOVER_INVALID)"

section \<open>Geometry\<close>

definition range_emit :: "nat \<Rightarrow> u64 \<Rightarrow> u64 \<Rightarrow> sar_range list \<Rightarrow> sar_range list option" where
  "range_emit cap off len out =
     (if length out \<ge> cap then None else Some (out @ [\<lparr>rg_offset = off, rg_length = len\<rparr>]))"

text \<open>
  The stride loop. Its step may wrap around, but every turn emits a range, so it ends at the latest when
  the output is full. The two tests at its head do not change during the loop.
\<close>

function geom_stride_loop ::
  "u64 \<Rightarrow> u64 \<Rightarrow> u64 \<Rightarrow> nat \<Rightarrow> u64 \<Rightarrow> sar_range list \<Rightarrow> sar_range list option" where
  "geom_stride_loop stride chunk file_size cap pos out =
     (if stride = 0 \<or> chunk = 0 then None
      else if pos < file_size then
        let avail = file_size - pos; len = (if chunk < avail then chunk else avail)
        in if len = 0 then geom_stride_loop stride chunk file_size cap (pos + stride) out
           else if length out \<ge> cap then None
           else geom_stride_loop stride chunk file_size cap (pos + stride)
                  (out @ [\<lparr>rg_offset = pos, rg_length = len\<rparr>])
      else Some out)"
  by pat_completeness auto
termination
proof (relation "measure (\<lambda>(_, _, _, cap, _, out). cap - length out)")
  fix stride chunk file_size pos avail len :: u64 and cap and out :: "sar_range list"
  assume "\<not> (stride = 0 \<or> chunk = 0)" "pos < file_size" "avail = file_size - pos"
    "len = (if chunk < avail then chunk else avail)" "len = 0"
  then show "((stride, chunk, file_size, cap, pos + stride, out), stride, chunk, file_size, cap, pos, out)
      \<in> measure (\<lambda>(_, _, _, cap, _, out). cap - length out)"
    by (auto split: if_splits)
qed simp_all

declare geom_stride_loop.simps [simp del]

primrec geom_percent_loop ::
  "u64 \<Rightarrow> u64 \<Rightarrow> u64 \<Rightarrow> nat \<Rightarrow> nat list \<Rightarrow> sar_range list \<Rightarrow> sar_range list option" where
  "geom_percent_loop chunk step file_size cap [] out = Some out"
| "geom_percent_loop chunk step file_size cap (i # is) out =
     (let off = word_of_nat i * step
      in if off \<ge> file_size then Some out
         else
           let avail = file_size - off; len = (if chunk < avail then chunk else avail)
           in if len = 0 then geom_percent_loop chunk step file_size cap is out
              else do { out' \<leftarrow> range_emit cap off len out;
                        geom_percent_loop chunk step file_size cap is out' })"

primrec geom_explicit_loop ::
  "u64 \<Rightarrow> nat \<Rightarrow> sar_range list \<Rightarrow> sar_range list \<Rightarrow> sar_range list option" where
  "geom_explicit_loop file_size cap [] out = Some out"
| "geom_explicit_loop file_size cap (r # rs) out =
     (let off = rg_offset r
      in if off \<ge> file_size then geom_explicit_loop file_size cap rs out
         else
           let avail = file_size - off; len = (if rg_length r < avail then rg_length r else avail)
           in if len = 0 then geom_explicit_loop file_size cap rs out
              else do { out' \<leftarrow> range_emit cap off len out;
                        geom_explicit_loop file_size cap rs out' })"

definition sar_geometry_expand :: "sar_geometry option \<Rightarrow> u64 \<Rightarrow> nat \<Rightarrow> sar_range list option" where
  "sar_geometry_expand geom file_size cap =
     (case geom of None \<Rightarrow> None
      | Some g \<Rightarrow>
        if file_size = 0 then Some []
        else if ge_mode g = SAR_GEOM_FULL then range_emit cap 0 file_size []
        else if ge_mode g = SAR_GEOM_HEAD then
          (let len = (if ge_head_bytes g < file_size then ge_head_bytes g else file_size)
           in if len > 0 then range_emit cap 0 len [] else Some [])
        else if ge_mode g = SAR_GEOM_STRIDE then
          geom_stride_loop (ge_stride_bytes g) (ge_chunk_bytes g) file_size cap 0 []
        else if ge_mode g = SAR_GEOM_PERCENT then
          (let bc = (if ge_block_count g \<noteq> 0 then ge_block_count g else 1);
               total = file_size * ucast (ge_percent g) div 100;
               chunk = total div ucast bc;
               chunk = (if chunk = 0 then total else chunk);
               step = file_size div ucast bc
           in if chunk = 0 \<or> step = 0 then Some []
              else geom_percent_loop chunk step file_size cap [0..<unat bc] [])
        else if ge_mode g = SAR_GEOM_EXPLICIT then
          (case ge_ranges g of
             None \<Rightarrow> if ge_range_count g > 0 then None else Some []
           | Some rs \<Rightarrow> geom_explicit_loop file_size cap (take (unat (ge_range_count g)) rs) [])
        else None)"

text \<open>
  The geometry of a ransomware family comes from a mapper outside the engine: a parameter.
\<close>

definition sar_geometry_from_family ::
  "(bytes \<Rightarrow> u32 \<Rightarrow> u64 \<Rightarrow> int \<times> sar_geometry) option \<Rightarrow> bytes \<Rightarrow> u32 \<Rightarrow> u64 \<Rightarrow> sar_geometry
     \<Rightarrow> int \<times> sar_geometry" where
  "sar_geometry_from_family mapper family_blob blob_len file_size out =
     (case mapper of None \<Rightarrow> (- 1, out) | Some f \<Rightarrow> f family_blob blob_len file_size)"

section \<open>The forward relation and the search for the initialisation vector\<close>

definition ks_relates :: "bytes \<Rightarrow> bytes \<Rightarrow> bytes \<Rightarrow> nat \<Rightarrow> bool" where
  "ks_relates P C ks n = list_all (\<lambda>i. P ! i XOR ks ! i = C ! i) [0..<n]"

function forward_stream :: "sar_recovery_key \<Rightarrow> u64 \<Rightarrow> bytes \<Rightarrow> bytes \<Rightarrow> nat \<Rightarrow> nat \<Rightarrow> bool" where
  "forward_stream rk so P C n k =
     (if k < n then
        let eo = so + word_of_nat k;
            within = unat (eo mod 64);
            ks = stream_block rk (eo div 64);
            span = min (64 - within) (n - k)
        in list_all (\<lambda>i. P ! (k + i) XOR ks ! (within + i) = C ! (k + i)) [0..<span] \<and>
           forward_stream rk so P C n (k + span)
      else True)"
  by pat_completeness auto
termination
proof (relation "measure (\<lambda>(_, _, _, _, n, k). n - k)")
  fix n k within span :: nat and eo :: u64
  assume "k < n" "within = unat (eo mod 64)" "span = min (64 - within) (n - k)"
  moreover have "unat (eo mod 64) < 64" by (simp add: unat_mod)
  ultimately have "0 < span" "k < n" by simp_all
  then show "((rk, so, P, C, n, k + span), rk, so, P, C, n, k) \<in> measure (\<lambda>(_, _, _, _, n, k). n - k)" for rk so P C
    by simp
qed simp

declare forward_stream.simps [simp del]

definition forward_block :: "block_cipher_ctx \<Rightarrow> sar_recovery_key \<Rightarrow> u64 \<Rightarrow> bytes \<Rightarrow> bytes \<Rightarrow> bool" where
  "forward_block bc rk so P C =
     (let bs = bc_block_size bc; iv = take bs (rk_iv rk)
      in if rk_mode rk = SAR_MODE_ECB then sar_be_eq (bc_E bc (take bs P)) C bs
         else if rk_mode rk = SAR_MODE_CBC then
           so = 0 \<and> unat (rk_iv_length rk) \<ge> bs \<and> sar_be_eq (bc_E bc (xor_bytes (take bs P) iv)) C bs
         else if rk_mode rk = SAR_MODE_CFB then
           so = 0 \<and> unat (rk_iv_length rk) \<ge> bs \<and> ks_relates P C (bc_E bc iv) bs
         else if rk_mode rk = SAR_MODE_OFB then
           unat (rk_iv_length rk) \<ge> bs \<and>
           ks_relates P C (fold (\<lambda>_. bc_E bc) [0..<unat so div bs] (bc_E bc iv)) bs
         else if rk_mode rk = SAR_MODE_CTR then
           (if unat (rk_iv_length rk) < bs \<or> rk_ctr_layout_tag rk = 0 \<or>
               unat (rk_ctr_layout_tag rk) > SAR_CTR_LAYOUT_COUNT then False
            else
              let L = SAR_CTR_LAYOUTS ! (unat (rk_ctr_layout_tag rk) - 1);
                  counter = sar_ctr_field_write iv L (sar_ctr_field_read (rk_iv rk) L + so div word_of_nat bs)
              in ctr_block_size L = bs \<and> ks_relates P C (bc_E bc counter) bs)
         else False)"

definition forward_relation :: "sar_recovery_key \<Rightarrow> sar_recovery_sample \<Rightarrow> bool" where
  "forward_relation rk s =
     (let P = sm_plaintext s; C = sm_ciphertext s; n = unat (sm_length s); so = sm_file_offset s
      in if n < 16 then False
         else if rk_algorithm rk = SAR_ALG_RC4 then
           rk_key_length rk \<noteq> 0 \<and>
           rc4_check (fold (\<lambda>_. rc4_step) [0..<unat so] (rc4_ksa rk, 0, 0)) P C 0 n
         else if is_chacha_alg (rk_algorithm rk) \<or> is_salsa_alg (rk_algorithm rk) then
           rk_iv_length rk \<noteq> 0 \<and> forward_stream rk so P C n 0
         else if rk_mode rk = SAR_MODE_XTS then
           (if \<not> is_block_alg (rk_algorithm rk) then False
            else case make_xts (rk_algorithm rk) (rk_key rk) (unat (rk_key_length rk)) of
              None \<Rightarrow> False
            | Some (bc1, bc2) \<Rightarrow>
                let du = rk_mode_params rk
                in if du = 0 then False
                   else
                     let tweak = fold (\<lambda>_. gf128_mul_alpha) [0..<unat ((so mod du) div 16)]
                           (bc_E bc2 (xts_tweak_in (so div du)))
                     in sar_be_eq (xor_bytes (bc_E bc1 (xor_bytes (take 16 P) tweak)) tweak) C 16)
         else if is_block_alg (rk_algorithm rk) then
           (case make_block (rk_algorithm rk) (rk_key rk) (unat (rk_key_length rk)) of
              None \<Rightarrow> False
            | Some bc \<Rightarrow> if n < bc_block_size bc then False else forward_block bc rk so P C)
         else False)"

definition iv_candidates :: "sar_recovery_key \<Rightarrow> bytes \<Rightarrow> nat \<Rightarrow> sar_recovery_key list" where
  "iv_candidates rk file file_size =
     (let regions = [(0, min file_size 256), (if file_size > 256 then file_size - 256 else 0, file_size)]
      in concat (map (\<lambda>(lo, hi). concat (map (\<lambda>pos. concat (map (\<lambda>w.
           if pos + w > file_size then []
           else
             let cand = rk\<lparr>rk_iv := sar_memcpy (replicate SEMANTICS_AR_IV_MAX 0) (drop pos file) w,
                           rk_iv_length := word_of_nat w\<rparr>
             in if rk_mode cand = SAR_MODE_CTR
                then map (\<lambda>t. cand\<lparr>rk_ctr_layout_tag := word_of_nat t\<rparr>) [1..<Suc SAR_CTR_LAYOUT_COUNT]
                else [cand])
         [8, 12, 16, 24])) [lo..<hi])) regions))"

definition sar_recover_locate_iv ::
  "sar_recovery_key \<Rightarrow> bytes \<Rightarrow> u64 \<Rightarrow> sar_recovery_sample \<Rightarrow> sar_recovery_key option" where
  "sar_recover_locate_iv rk file file_size sample =
     (if rk_mode rk = SAR_MODE_ECB \<or> rk_mode rk = SAR_MODE_STREAM \<and> rk_algorithm rk = SAR_ALG_RC4 then None
      else find (\<lambda>cand. forward_relation cand sample) (iv_candidates rk file (unat file_size)))"

section \<open>Recovery\<close>

definition precheck :: "sar_recovery_key \<Rightarrow> sar_recover_status" where
  "precheck rk =
     (if rk_mode rk = SAR_MODE_ECB \<or> rk_mode rk = SAR_MODE_CBC \<or> rk_mode rk = SAR_MODE_CFB then
        (if \<not> is_block_alg (rk_algorithm rk) then SAR_RECOVER_DECLINED_KEY else SAR_RECOVER_OK)
      else if rk_mode rk = SAR_MODE_OFB then
        (if \<not> is_block_alg (rk_algorithm rk) then SAR_RECOVER_DECLINED_KEY
         else if rk_iv_length rk = 0 then SAR_RECOVER_DECLINED_IV else SAR_RECOVER_OK)
      else if rk_mode rk = SAR_MODE_CTR then
        (if \<not> is_block_alg (rk_algorithm rk) then SAR_RECOVER_DECLINED_KEY
         else if rk_iv_length rk = 0 \<or> rk_ctr_layout_tag rk = 0 \<or>
             unat (rk_ctr_layout_tag rk) > SAR_CTR_LAYOUT_COUNT then SAR_RECOVER_DECLINED_IV
         else SAR_RECOVER_OK)
      else if rk_mode rk = SAR_MODE_XTS then
        (if \<not> is_block_alg (rk_algorithm rk) then SAR_RECOVER_DECLINED_KEY
         else if rk_mode_params rk \<noteq> 512 \<and> rk_mode_params rk \<noteq> 4096 then SAR_RECOVER_DECLINED_KEY
         else SAR_RECOVER_OK)
      else if rk_mode rk = SAR_MODE_STREAM then
        (if rk_algorithm rk = SAR_ALG_RC4 then
           (if rk_key_length rk = 0 then SAR_RECOVER_DECLINED_STATE_ONLY else SAR_RECOVER_OK)
         else if \<not> is_chacha_alg (rk_algorithm rk) \<and> \<not> is_salsa_alg (rk_algorithm rk)
         then SAR_RECOVER_DECLINED_KEY
         else if rk_iv_length rk = 0 then SAR_RECOVER_DECLINED_IV else SAR_RECOVER_OK)
      else SAR_RECOVER_DECLINED_KEY)"

text \<open>
  The ciphers a key needs: one for the block modes, two for XTS, none for the stream ciphers.
\<close>

datatype rec_ciphers = No_Cipher | One_Cipher block_cipher_ctx | Xts_Ciphers block_cipher_ctx block_cipher_ctx

definition build_ciphers :: "sar_recovery_key \<Rightarrow> rec_ciphers option" where
  "build_ciphers rk =
     (if rk_mode rk = SAR_MODE_XTS then
        map_option (\<lambda>(bc1, bc2). Xts_Ciphers bc1 bc2)
          (make_xts (rk_algorithm rk) (rk_key rk) (unat (rk_key_length rk)))
      else if is_block_alg (rk_algorithm rk) then
        map_option One_Cipher (make_block (rk_algorithm rk) (rk_key rk) (unat (rk_key_length rk)))
      else Some No_Cipher)"

definition recover_one_range ::
  "sar_recovery_key \<Rightarrow> u32 \<Rightarrow> rec_ciphers \<Rightarrow> sar_window \<Rightarrow> nat \<Rightarrow> nat \<Rightarrow> nat \<Rightarrow> bytes \<Rightarrow> bytes option" where
  "recover_one_range rk policy cs w origin start len pt =
     (case cs of
        One_Cipher bc \<Rightarrow>
          if rk_mode rk = SAR_MODE_ECB then rec_ecb bc w start len pt
          else if rk_mode rk = SAR_MODE_CBC then rec_cbc bc rk policy w origin start len pt
          else if rk_mode rk = SAR_MODE_CFB then rec_cfb bc rk policy w origin start len pt
          else if rk_mode rk = SAR_MODE_OFB then rec_ofb bc rk policy w origin start len pt
          else if rk_mode rk = SAR_MODE_CTR then rec_ctr bc rk policy w origin start len pt
          else Some pt
      | Xts_Ciphers bc1 bc2 \<Rightarrow> rec_xts bc1 bc2 (rk_mode_params rk) w start len pt
      | No_Cipher \<Rightarrow>
          if rk_mode rk = SAR_MODE_STREAM then
            (if rk_algorithm rk = SAR_ALG_RC4 then rec_rc4 rk policy w start len pt
             else rec_stream rk policy w origin start len pt)
          else Some pt)"

definition recover_ranges_into ::
  "sar_recovery_key \<Rightarrow> sar_range list \<Rightarrow> u32 \<Rightarrow> sar_window \<Rightarrow> bytes \<Rightarrow> u64
     \<Rightarrow> (sar_recover_status \<times> bytes) option" where
  "recover_ranges_into rk ranges policy w pt file_size =
     (if precheck rk \<noteq> SAR_RECOVER_OK then Some (precheck rk, pt)
      else if w_base w \<noteq> 0 \<and> rk_mode rk = SAR_MODE_STREAM \<and> rk_algorithm rk = SAR_ALG_RC4
      then Some (SAR_RECOVER_DECLINED_GEOMETRY, pt)
      else case build_ciphers rk of
        None \<Rightarrow> Some (SAR_RECOVER_DECLINED_KEY, pt)
      | Some cs \<Rightarrow> do {
          pt' \<leftarrow> fold_opt (\<lambda>r pt.
              let start = rg_offset r; len = rg_length r
              in if start > file_size \<or> file_size - start < len then Some pt
                 else recover_one_range rk policy cs w (unat start) (unat start) (unat len) pt)
            ranges pt;
          Some (SAR_RECOVER_OK, pt') })"

definition sar_recover_buffer ::
  "sar_recovery_key \<Rightarrow> sar_geometry option \<Rightarrow> bytes \<Rightarrow> bytes \<Rightarrow> u64 \<Rightarrow> (sar_recover_status \<times> bytes) option" where
  "sar_recover_buffer rk geom ct pt file_size =
     (let full = \<lparr>ge_mode = SAR_GEOM_FULL, ge_head_bytes = 0, ge_chunk_bytes = 0, ge_stride_bytes = 0,
            ge_percent = 0, ge_block_count = 0, ge_counter_policy = 0, ge_ranges = None, ge_range_count = 0\<rparr>;
          (g, policy) = (case geom of Some g \<Rightarrow> (g, ge_counter_policy g) | None \<Rightarrow> (full, SAR_CTR_CONTINUOUS))
      in case sar_geometry_expand (Some g) file_size SAR_MAX_RANGES of
           None \<Rightarrow> Some (SAR_RECOVER_DECLINED_GEOMETRY, pt)
         | Some ranges \<Rightarrow>
             recover_ranges_into rk ranges policy \<lparr>w_bytes = ct, w_before = 0, w_base = 0\<rparr>
               (sar_memcpy pt ct (unat file_size)) file_size)"

definition sar_recover_range ::
  "sar_recovery_key \<Rightarrow> bytes \<Rightarrow> bytes \<Rightarrow> u64 \<Rightarrow> u64 \<Rightarrow> u64 \<Rightarrow> (sar_recover_status \<times> bytes) option" where
  "sar_recover_range rk ct pt file_size range_offset range_length =
     (if range_length = 0 then Some (SAR_RECOVER_OK, pt)
      else recover_ranges_into rk [\<lparr>rg_offset = range_offset, rg_length = range_length\<rparr>] SAR_CTR_CONTINUOUS
             \<lparr>w_bytes = ct, w_before = 0, w_base = 0\<rparr> pt file_size)"

definition sar_recover_chunk ::
  "sar_recovery_key \<Rightarrow> u32 \<Rightarrow> sar_window \<Rightarrow> bytes \<Rightarrow> u64 \<Rightarrow> u64 \<Rightarrow> u64 \<Rightarrow> u64
     \<Rightarrow> (sar_recover_status \<times> bytes) option" where
  "sar_recover_chunk rk policy w pt origin start len file_size =
     (if len = 0 then Some (SAR_RECOVER_OK, pt)
      else if start < origin \<or> start > file_size \<or> file_size - start < len then Some (SAR_RECOVER_INVALID, pt)
      else if precheck rk \<noteq> SAR_RECOVER_OK then Some (precheck rk, pt)
      else if rk_mode rk = SAR_MODE_STREAM \<and> rk_algorithm rk = SAR_ALG_RC4
      then Some (SAR_RECOVER_DECLINED_GEOMETRY, pt)
      else case build_ciphers rk of
        None \<Rightarrow> Some (SAR_RECOVER_DECLINED_KEY, pt)
      | Some cs \<Rightarrow> do {
          pt' \<leftarrow> recover_one_range rk policy cs w (unat origin) (unat start) (unat len) pt;
          Some (SAR_RECOVER_OK, pt') })"

end
