(* ===== verification/Geometry.thy ===== *)
theory Geometry
  imports Recover
begin

text \<open>
  What the expansion of a geometry promises the decryption: at most the requested number of ranges, each
  non-empty and inside the file, whatever the geometry says. For the stride geometry the ranges are
  computed in closed form.
\<close>

section \<open>Lemmas\<close>

definition range_in_file :: "u64 \<Rightarrow> sar_range \<Rightarrow> bool" where
  "range_in_file file_size r \<longleftrightarrow> 0 < rg_length r \<and> unat (rg_offset r) + unat (rg_length r) \<le> unat file_size"

definition ranges_ok :: "u64 \<Rightarrow> nat \<Rightarrow> sar_range list \<Rightarrow> bool" where
  "ranges_ok file_size cap rs \<longleftrightarrow> length rs \<le> cap \<and> list_all (range_in_file file_size) rs"

lemma range_in_file_cut:
  assumes "off < file_size" "len = (if want < file_size - off then want else file_size - off)" "len \<noteq> 0"
  shows "range_in_file file_size \<lparr>rg_offset = off, rg_length = len\<rparr>"
proof -
  have "len \<le> file_size - off" using assms(2) by auto
  then have "unat len \<le> unat file_size - unat off"
    using assms(1) by (metis less_imp_le unat_sub word_le_nat_alt)
  then show ?thesis
    using assms(1,3) by (auto simp: range_in_file_def word_less_nat_alt unat_gt_0)
qed

lemma range_emit_ok:
  "range_emit cap off len out = Some out' \<Longrightarrow> ranges_ok file_size cap out \<Longrightarrow>
     range_in_file file_size \<lparr>rg_offset = off, rg_length = len\<rparr> \<Longrightarrow> ranges_ok file_size cap out'"
  by (auto simp: range_emit_def ranges_ok_def split: if_splits)

lemma geom_stride_loop_ok:
  "geom_stride_loop stride chunk file_size cap pos out = Some out' \<Longrightarrow> ranges_ok file_size cap out \<Longrightarrow>
     ranges_ok file_size cap out'"
proof (induction stride chunk file_size cap pos out rule: geom_stride_loop.induct)
  case (1 stride chunk file_size cap pos out)
  let ?len = "if chunk < file_size - pos then chunk else file_size - pos"
  show ?case
  proof (cases "stride = 0 \<or> chunk = 0 \<or> \<not> pos < file_size")
    case True
    then show ?thesis using 1(3,4) by (auto simp: geom_stride_loop.simps split: if_splits)
  next
    case False
    then have len: "?len \<noteq> 0" by auto
    then have "range_in_file file_size \<lparr>rg_offset = pos, rg_length = ?len\<rparr>"
      using False by (intro range_in_file_cut) auto
    moreover have "length out < cap" "geom_stride_loop stride chunk file_size cap (pos + stride)
        (out @ [\<lparr>rg_offset = pos, rg_length = ?len\<rparr>]) = Some out'"
      using 1(3) False len by (auto simp: geom_stride_loop.simps [of _ _ _ _ pos] Let_def split: if_splits)
    ultimately show ?thesis
      using 1(2) [OF _ _ refl refl len] 1(4) False by (auto simp: ranges_ok_def)
  qed
qed

lemma range_emit_cut_ok:
  assumes "range_emit cap off len out = Some out'" "ranges_ok file_size cap out" "off < file_size" "len \<noteq> 0"
    and "len = (if want < file_size - off then want else file_size - off)"
  shows "ranges_ok file_size cap out'"
  using range_emit_ok [OF assms(1,2) range_in_file_cut [OF assms(3,5,4)]] .

lemma geom_percent_loop_ok:
  "geom_percent_loop chunk step file_size cap is out = Some out' \<Longrightarrow> ranges_ok file_size cap out \<Longrightarrow>
     ranges_ok file_size cap out'"
proof (induction "is" arbitrary: out)
  case (Cons i "is")
  define off where "off = word_of_nat i * step"
  define len where "len = (if chunk < file_size - off then chunk else file_size - off)"
  have step: "geom_percent_loop chunk step file_size cap (i # is) out =
      (if file_size \<le> off then Some out
       else if len = 0 then geom_percent_loop chunk step file_size cap is out
       else Option.bind (range_emit cap off len out) (geom_percent_loop chunk step file_size cap is))"
    by (simp only: geom_percent_loop.simps geom_explicit_loop.simps Let_def off_def len_def)
  consider "file_size \<le> off" | "\<not> file_size \<le> off" "len = 0" | "\<not> file_size \<le> off" "len \<noteq> 0" by blast
  then show ?case
  proof cases
    case 3
    then obtain out1 where "range_emit cap off len out = Some out1"
      "geom_percent_loop chunk step file_size cap is out1 = Some out'"
      using Cons.prems(1) unfolding step by (auto simp: bind_eq_Some_conv)
    with 3 show ?thesis unfolding not_le using Cons.prems(2) range_emit_cut_ok [OF _ _ _ _ len_def] Cons.IH by blast
  qed (use Cons.prems Cons.IH in \<open>auto simp: step simp del: geom_percent_loop.simps\<close>)
qed simp

lemma geom_explicit_loop_ok:
  "geom_explicit_loop file_size cap rs out = Some out' \<Longrightarrow> ranges_ok file_size cap out \<Longrightarrow>
     ranges_ok file_size cap out'"
proof (induction rs arbitrary: out)
  case (Cons r rs)
  define off where "off = rg_offset r"
  define len where "len = (if rg_length r < file_size - off then rg_length r else file_size - off)"
  have step: "geom_explicit_loop file_size cap (r # rs) out =
      (if file_size \<le> off then geom_explicit_loop file_size cap rs out
       else if len = 0 then geom_explicit_loop file_size cap rs out
       else Option.bind (range_emit cap off len out) (geom_explicit_loop file_size cap rs))"
    by (simp only: geom_percent_loop.simps geom_explicit_loop.simps Let_def off_def len_def)
  consider "file_size \<le> off" | "\<not> file_size \<le> off" "len = 0" | "\<not> file_size \<le> off" "len \<noteq> 0" by blast
  then show ?case
  proof cases
    case 3
    then obtain out1 where "range_emit cap off len out = Some out1"
      "geom_explicit_loop file_size cap rs out1 = Some out'"
      using Cons.prems(1) unfolding step by (auto simp: bind_eq_Some_conv)
    with 3 show ?thesis unfolding not_le using Cons.prems(2) range_emit_cut_ok [OF _ _ _ _ len_def] Cons.IH by blast
  qed (use Cons.prems Cons.IH in \<open>auto simp: step simp del: geom_explicit_loop.simps\<close>)
qed simp

lemma range_emit_first:
  assumes "range_emit cap 0 len [] = Some rs" "0 < len" "len \<le> file_size"
  shows "ranges_ok file_size cap rs"
  by (rule range_emit_ok [OF assms(1)])
    (use assms in \<open>auto simp: ranges_ok_def range_in_file_def word_le_nat_alt\<close>)

lemma sar_geometry_expand_ok:
  assumes "sar_geometry_expand (Some g) file_size cap = Some rs"
  shows "ranges_ok file_size cap rs"
proof -
  have nil: "ranges_ok file_size cap []" by (simp add: ranges_ok_def)
  have pos: "0 < file_size" if "file_size \<noteq> 0" using that by (simp add: word_neq_0_conv)
  note loops = geom_stride_loop_ok [OF _ nil] geom_percent_loop_ok [OF _ nil] geom_explicit_loop_ok [OF _ nil]
  show ?thesis
    using assms nil pos unfolding sar_geometry_expand_def option.case Let_def
    by (auto simp only: split: if_splits option.splits intro: loops elim!: range_emit_first)
qed

definition stride_range :: "u64 \<Rightarrow> u64 \<Rightarrow> u64 \<Rightarrow> nat \<Rightarrow> sar_range" where
  "stride_range stride chunk file_size k =
     \<lparr>rg_offset = word_of_nat (k * unat stride),
      rg_length = min chunk (file_size - word_of_nat (k * unat stride))\<rparr>"

definition stride_count :: "u64 \<Rightarrow> u64 \<Rightarrow> nat" where
  "stride_count stride file_size = (unat file_size + unat stride - 1) div unat stride"

lemma stride_count_iff:
  assumes "stride \<noteq> 0"
  shows "k < stride_count stride file_size \<longleftrightarrow> k * unat stride < unat file_size"
proof -
  have s: "0 < unat stride" using assms by (simp add: unat_gt_0)
  then have "Suc k \<le> stride_count stride file_size \<longleftrightarrow> Suc k * unat stride \<le> unat file_size + unat stride - 1"
    unfolding stride_count_def by (rule less_eq_div_iff_mult_less_eq)
  with s show ?thesis by auto
qed

lemma geom_stride_loop_eq:
  assumes "stride \<noteq> 0" "chunk \<noteq> 0" "unat file_size + unat stride < 2 ^ 64"
  shows "k + m = stride_count stride file_size \<Longrightarrow>
    geom_stride_loop stride chunk file_size cap (word_of_nat (k * unat stride)) out =
      (if length out + m \<le> cap then Some (out @ map (stride_range stride chunk file_size) [k..<k + m]) else None)
      \<or> m = 0 \<and> cap < length out"
proof (induction m arbitrary: k out)
  case 0
  let ?pos = "word_of_nat (k * unat stride) :: u64"
  have "unat file_size \<le> k * unat stride"
    using 0 stride_count_iff [OF assms(1), of k file_size] by simp
  moreover have "k * unat stride < 2 ^ 64"
  proof (cases k)
    case (Suc j)
    then have "j * unat stride < unat file_size"
      using 0 stride_count_iff [OF assms(1), of j file_size] by simp
    then show ?thesis using Suc assms(3) by simp
  qed simp
  ultimately have "\<not> ?pos < file_size"
    using unat_u64_of_nat [of "k * unat stride"] by (simp add: word_less_nat_alt)
  then show ?case using assms by (auto simp: geom_stride_loop.simps)
next
  case (Suc m)
  let ?pos = "word_of_nat (k * unat stride) :: u64"
  have "k * unat stride < unat file_size"
    using Suc.prems stride_count_iff [OF assms(1), of k file_size] by simp
  moreover from this have "unat ?pos = k * unat stride"
    using assms(3) by (intro unat_u64_of_nat) simp
  ultimately have pos: "?pos < file_size" by (simp add: word_less_nat_alt)
  define r where "r = stride_range stride chunk file_size k"
  have r: "r = \<lparr>rg_offset = ?pos, rg_length = if chunk < file_size - ?pos then chunk else file_size - ?pos\<rparr>"
    by (auto simp: r_def stride_range_def min_def)
  have len: "(if chunk < file_size - ?pos then chunk else file_size - ?pos) \<noteq> 0"
    using assms(2) pos by auto
  have next_pos: "?pos + stride = word_of_nat (Suc k * unat stride)"
    by (simp add: add.commute)
  have "geom_stride_loop stride chunk file_size cap ?pos out =
      (if length out \<ge> cap then None
       else geom_stride_loop stride chunk file_size cap (word_of_nat (Suc k * unat stride)) (out @ [r]))"
    using pos assms(1,2) len unfolding r next_pos [symmetric]
    by (subst geom_stride_loop.simps) (simp only: Let_def simp_thms if_True if_False)
  then show ?case
    using Suc.IH [of "Suc k" "out @ [r]"] Suc.prems by (auto simp: upt_conv_Cons r_def)
qed

section \<open>Properties\<close>

text \<open>
  C37: whatever geometry a record or a family mapper describes, its expansion either fails or gives at
  most the requested number of ranges, each of them non-empty and inside the file.
\<close>

theorem geometry_ranges_in_file:
  assumes "sar_geometry_expand geom file_size cap = Some rs"
  shows "length rs \<le> cap \<and>
    (\<forall>r\<in>set rs. 0 < rg_length r \<and> unat (rg_offset r) + unat (rg_length r) \<le> unat file_size)"
proof (cases geom)
  case None
  then show ?thesis using assms by (simp add: sar_geometry_expand_def)
next
  case (Some g)
  then show ?thesis
    using sar_geometry_expand_ok [of g file_size cap rs] assms
    by (simp add: ranges_ok_def range_in_file_def list_all_iff)
qed

definition example_stride :: sar_geometry where
  "example_stride = \<lparr>ge_mode = SAR_GEOM_STRIDE, ge_head_bytes = 0, ge_chunk_bytes = 16, ge_stride_bytes = 64,
     ge_percent = 0, ge_block_count = 0, ge_counter_policy = SAR_CTR_RESET_PER_CHUNK, ge_ranges = None,
     ge_range_count = 0\<rparr>"

lemma geom_modes_neq [simp]:
  "SAR_GEOM_STRIDE \<noteq> SAR_GEOM_FULL" "SAR_GEOM_STRIDE \<noteq> SAR_GEOM_HEAD"
  by (simp_all add: SAR_GEOM_STRIDE_def SAR_GEOM_FULL_def SAR_GEOM_HEAD_def)

theorem geometry_ranges_in_file_witness:
  "\<exists>rs. sar_geometry_expand (Some example_stride) 100 8 = Some rs \<and> rs \<noteq> [] \<and> length rs \<le> 8 \<and>
    (\<forall>r\<in>set rs. 0 < rg_length r \<and> unat (rg_offset r) + unat (rg_length r) \<le> unat (100 :: u64))"
proof -
  have "sar_geometry_expand (Some example_stride) 100 8 =
      Some [\<lparr>rg_offset = 0, rg_length = 16\<rparr>, \<lparr>rg_offset = 64, rg_length = 16\<rparr>]"
    by (simp add: sar_geometry_expand_def example_stride_def geom_stride_loop.simps)
  with geometry_ranges_in_file [OF this] show ?thesis by auto
qed

text \<open>
  The stride geometry. On a file whose size plus the stride fits 64 bits, the expansion gives exactly
  the chunks at the multiples of the stride below the file size, each cut at the end of the file, and
  fails exactly when there are more of them than the output holds, or the stride or the chunk is zero.
\<close>

theorem geometry_stride_exact:
  assumes "ge_mode g = SAR_GEOM_STRIDE" "file_size \<noteq> 0" "unat file_size + unat (ge_stride_bytes g) < 2 ^ 64"
  shows "sar_geometry_expand (Some g) file_size cap =
    (if ge_stride_bytes g = 0 \<or> ge_chunk_bytes g = 0 \<or> cap < stride_count (ge_stride_bytes g) file_size then None
     else Some (map (stride_range (ge_stride_bytes g) (ge_chunk_bytes g) file_size)
                  [0..<stride_count (ge_stride_bytes g) file_size]))"
proof (cases "ge_stride_bytes g = 0 \<or> ge_chunk_bytes g = 0")
  case True
  then show ?thesis using assms by (auto simp: sar_geometry_expand_def geom_stride_loop.simps)
next
  case False
  then show ?thesis
    using assms geom_stride_loop_eq [of "ge_stride_bytes g" "ge_chunk_bytes g" file_size 0
        "stride_count (ge_stride_bytes g) file_size" cap "[]"]
    by (auto simp: sar_geometry_expand_def)
qed

theorem geometry_stride_exact_witness:
  "sar_geometry_expand (Some example_stride) 100 8 =
     Some (map (stride_range 64 16 100) [0..<2])"
  using geometry_stride_exact [of example_stride 100 8] by (simp add: example_stride_def stride_count_def)

end
