(* ===== verification/Recover_Correct.thy ===== *)
theory Recover_Correct
  imports Geometry
begin

text \<open>
  Recovery undoes encryption. A segment of a file was encrypted under one of the modes of
  \<open>Mode_Reference\<close>; decrypting any block-aligned part of it, through any window of the file that holds the
  bytes needed, writes exactly the plaintext there and nothing else. From this follow the recovery
  of a whole file, of a partially encrypted file and of a file processed in chunks.
\<close>

section \<open>Windows and loops\<close>

definition window_lo :: "sar_window \<Rightarrow> nat" where
  "window_lo w = w_base w - w_before w"

definition window_of :: "bytes \<Rightarrow> sar_window \<Rightarrow> bool" where
  "window_of file w \<longleftrightarrow> w_before w \<le> w_base w \<and> window_lo w + length (w_bytes w) \<le> length file \<and>
     w_bytes w = slice file (window_lo w) (length (w_bytes w))"

definition window_hi :: "sar_window \<Rightarrow> nat" where
  "window_hi w = window_lo w + length (w_bytes w)"

lemma ct_read_file:
  assumes "window_of file w" "window_lo w + back' \<le> pos" "pos + n \<le> window_hi w + back'"
  shows "ct_read w pos back' n = Some (slice file (pos - back') n)"
proof -
  have eq: "w_bytes w = slice file (window_lo w) (length (w_bytes w))" and le: "w_before w \<le> w_base w"
    using assms(1) by (simp_all add: window_of_def)
  have idx: "pos + w_before w - (w_base w + back') = pos - back' - window_lo w"
    using assms(2) le by (simp add: window_lo_def)
  have "slice (w_bytes w) (pos - back' - window_lo w) n = slice file (pos - back') n"
    using assms(2,3) by (subst eq) (simp add: slice_slice window_hi_def)
  then show ?thesis
    using assms(2,3) le idx by (auto simp: ct_read_def window_lo_def window_hi_def)
qed

lemma splice_at_append:
  "i + length xs + length ys \<le> length pt \<Longrightarrow>
     splice_at (splice_at pt i xs) (i + length xs) ys = splice_at pt i (xs @ ys)"
  by (simp add: splice_at_def add.commute add.left_commute)

lemma splice_at_Nil [simp]: "splice_at pt i [] = pt"
  by (simp add: splice_at_def)

lemma pt_write_append:
  assumes "w_base w \<le> start" "start - w_base w + length xs + length ys \<le> length pt"
  shows "pt_write w (start + length xs) ys (splice_at pt (start - w_base w) xs) =
    Some (splice_at pt (start - w_base w) (xs @ ys))"
  using assms splice_at_append [of "start - w_base w" xs ys pt] by (simp add: pt_write_def)

lemma fold_opt_append:
  "fold_opt f (xs @ ys) s = Option.bind (fold_opt f xs s) (fold_opt f ys)"
proof (induction xs arbitrary: s)
  case (Cons x xs)
  then show ?case by (cases "f x s") simp_all
qed simp

text \<open>
  A loop that writes consecutive chunks, with a state that goes with the chunk number, fills one
  contiguous part of the output.
\<close>

lemma fold_opt_fill:
  assumes "\<And>k pt. k < n \<Longrightarrow> step (p k) (pt, st k) = map_option (\<lambda>pt'. (pt', st (Suc k))) (pt_write w (p k) (B k) pt)"
    and "\<And>k. k < n \<Longrightarrow> p k = start + length (concat (map B [0..<k]))"
    and "w_base w \<le> start" "start - w_base w + length (concat (map B [0..<n])) \<le> length pt"
  shows "fold_opt step (map p [0..<n]) (pt, st 0) = Some (splice_at pt (start - w_base w) (concat (map B [0..<n])), st n)"
  using assms(1,2,4)
proof (induction n)
  case 0
  then show ?case by simp
next
  case (Suc n)
  let ?done = "concat (map B [0..<n])"
  have IH: "fold_opt step (map p [0..<n]) (pt, st 0) = Some (splice_at pt (start - w_base w) ?done, st n)"
    using Suc by auto
  have room: "start - w_base w + length ?done + length (B n) \<le> length pt"
    using Suc.prems(3) by simp
  have "p n = start + length ?done" using Suc.prems(2) by simp
  then have "pt_write w (p n) (B n) (splice_at pt (start - w_base w) ?done) =
      Some (splice_at pt (start - w_base w) (?done @ B n))"
    using room assms(3) by (simp add: pt_write_append)
  then show ?case
    using IH Suc.prems(1) [of n] by (simp add: fold_opt_append)
qed

lemma fold_opt_pair:
  "fold_opt (\<lambda>x (s, u). map_option (\<lambda>s'. (s', u)) (step x s)) xs (s, u) = map_option (\<lambda>s'. (s', u)) (fold_opt step xs s)"
proof (induction xs arbitrary: s)
  case (Cons x xs)
  then show ?case by (cases "step x s") simp_all
qed simp

lemma fold_opt_fill_unit:
  assumes "\<And>k pt. k < n \<Longrightarrow> step (p k) pt = pt_write w (p k) (B k) pt"
    and "\<And>k. k < n \<Longrightarrow> p k = start + length (concat (map B [0..<k]))"
    and "w_base w \<le> start" "start - w_base w + length (concat (map B [0..<n])) \<le> length pt"
  shows "fold_opt step (map p [0..<n]) pt = Some (splice_at pt (start - w_base w) (concat (map B [0..<n])))"
proof -
  have "fold_opt (\<lambda>x (s, u). map_option (\<lambda>s'. (s', u)) (step x s)) (map p [0..<n]) (pt, ()) =
      Some (splice_at pt (start - w_base w) (concat (map B [0..<n])), ())"
    by (rule fold_opt_fill [where st = "\<lambda>_. ()"]) (use assms in auto)
  then show ?thesis unfolding fold_opt_pair by simp
qed

lemma concat_slices:
  "a + n * bs \<le> length x \<Longrightarrow> concat (map (\<lambda>k. slice x (a + k * bs) bs) [0..<n]) = slice x a (n * bs)"
proof (induction n)
  case (Suc n)
  then show ?case by (simp add: slice_join add.commute)
qed (simp add: slice_def)

lemma concat_slices_part:
  assumes "a + len \<le> length x" "0 < bs"
  shows "concat (map (\<lambda>k. slice x (a + k * bs) (min (len - k * bs) bs)) [0..<n]) = slice x a (min len (n * bs))"
proof (induction n)
  case (Suc n)
  have "slice x a (min len (n * bs)) @ slice x (a + n * bs) (min (len - n * bs) bs) =
      slice x a (min len (n * bs) + min (len - n * bs) bs)"
  proof (cases "n * bs \<le> len")
    case False
    then show ?thesis by (simp add: slice_def)
  qed (simp add: slice_join)
  moreover have "min len (n * bs) + min (len - n * bs) bs = min len (Suc n * bs)" by auto
  ultimately show ?case using Suc by simp
qed (simp add: slice_def)

lemma all_blocks_cover: "0 < bs \<Longrightarrow> len \<le> (len + bs - 1) div bs * bs" for bs :: nat
  using div_mult_mod_eq [of "len + bs - 1" bs] mod_less_divisor [of bs "len + bs - 1"] by linarith

lemma all_blocks_below:
  fixes bs :: nat
  assumes "k < (len + bs - 1) div bs"
  shows "k * bs < len"
proof -
  have "0 < bs" using assms by (cases bs) simp_all
  moreover have "Suc k \<le> (len + bs - 1) div bs" using assms by simp
  ultimately have "Suc k * bs \<le> len + bs - 1" by (simp only: less_eq_div_iff_mult_less_eq)
  then show ?thesis using \<open>0 < bs\<close> by simp
qed

section \<open>Encrypted segments\<close>

text \<open>
  The bytes \<^term>\<open>C\<close> of the file at \<^term>\<open>org\<close> are one encrypted segment; \<^term>\<open>range_ready\<close> says that the
  window shows the part \<^term>\<open>i\<close>, \<^term>\<open>len\<close> of it, with \<^term>\<open>need\<close> bytes before, and that the output has room
  for the part. A counter policy fixes where a segment starts: at the range when the counter is reset,
  at the start of the file otherwise.
\<close>

definition segment :: "bytes \<Rightarrow> nat \<Rightarrow> bytes \<Rightarrow> bool" where
  "segment file org C \<longleftrightarrow> org + length C \<le> length file \<and> slice file org (length C) = C"

definition range_ready :: "bytes \<Rightarrow> nat \<Rightarrow> bytes \<Rightarrow> sar_window \<Rightarrow> bytes \<Rightarrow> nat \<Rightarrow> nat \<Rightarrow> nat \<Rightarrow> bool" where
  "range_ready file org C w pt i len need \<longleftrightarrow>
     segment file org C \<and> window_of file w \<and> i + len \<le> length C \<and> w_base w \<le> org + i \<and>
     org + i - w_base w + len \<le> length pt \<and> window_lo w + need \<le> org + i \<and> org + i + len \<le> window_hi w"

definition policy_origin :: "u32 \<Rightarrow> nat \<Rightarrow> nat \<Rightarrow> bool" where
  "policy_origin policy origin org \<longleftrightarrow>
     (if policy = SAR_CTR_RESET_PER_CHUNK then origin = org else org = 0)"

lemma range_readyD:
  assumes "range_ready file org C w pt i len need"
  shows "segment file org C" "window_of file w" "i + len \<le> length C" "w_base w \<le> org + i"
    "org + i - w_base w + len \<le> length pt" "window_lo w + need \<le> org + i" "org + i + len \<le> window_hi w"
  using assms by (auto simp only: range_ready_def)

lemma segment_slice: "segment file org C \<Longrightarrow> i + n \<le> length C \<Longrightarrow> slice file (org + i) n = slice C i n"
  using slice_slice [of i n "length C" "file" org] by (simp add: segment_def)

lemma segment_read:
  assumes "range_ready file org C w pt i len need" "i \<le> k" "k + n \<le> i + len"
  shows "ct_read w (org + k) 0 n = Some (slice C k n)"
  using assms ct_read_file [of "file" w 0 "org + k" n] segment_slice [of "file" org C k n]
  by (simp add: range_ready_def)

lemma segment_read_back:
  assumes "range_ready file org C w pt i len need" "i \<le> k" "k \<le> i + len" "i = 0 \<or> bs \<le> need" "bs \<le> k"
  shows "ct_read w (org + k) bs bs = Some (slice C (k - bs) bs)"
proof -
  have "ct_read w (org + k) bs bs = Some (slice file (org + k - bs) bs)"
    using assms range_readyD [OF assms(1)] by (intro ct_read_file) auto
  then show ?thesis
    using assms range_readyD [OF assms(1)] segment_slice [of "file" org C "k - bs" bs] by simp
qed

lemma block_in_part: "k < len div bs \<Longrightarrow> j * bs + k * bs + bs \<le> j * bs + len" for bs :: nat
  by (metis add.assoc add.commute add_left_mono div_times_less_eq_dividend dual_order.trans mult_Suc
      mult_le_mono1 Suc_leI)

lemma block_at: "(j + k) * bs = j * bs + k * bs" for bs :: nat
  by (rule add_mult_distrib)

lemma part_fits: "len div bs * bs \<le> len" for bs :: nat
  by simp

lemma rec_whole_blocks:
  fixes bs :: nat
  assumes ready: "range_ready file org C w pt (j * bs) len need"
    and P: "j * bs + len div bs * bs \<le> length P"
    and step: "\<And>k pt. k < len div bs \<Longrightarrow>
      step (org + (j + k) * bs) pt = pt_write w (org + (j + k) * bs) (slice P ((j + k) * bs) bs) pt"
  shows "fold_opt step (whole_blocks bs (org + j * bs) len) pt =
    Some (splice_at pt (org + j * bs - w_base w) (slice P (j * bs) (len div bs * bs)))"
proof -
  let ?B = "\<lambda>k. slice P (j * bs + k * bs) bs"
  have lens: "length (concat (map ?B [0..<k])) = k * bs" if "k \<le> len div bs" for k
  proof -
    have "k * bs \<le> len div bs * bs" using that by (rule mult_le_mono1)
    then have "j * bs + k * bs \<le> length P" using P by linarith
    then show ?thesis by (simp add: concat_slices)
  qed
  have "fold_opt step (map (\<lambda>k. org + j * bs + k * bs) [0..<len div bs]) pt =
      Some (splice_at pt (org + j * bs - w_base w) (concat (map ?B [0..<len div bs])))"
  proof (rule fold_opt_fill_unit)
    show "step (org + j * bs + k * bs) pt = pt_write w (org + j * bs + k * bs) (?B k) pt"
      if "k < len div bs" for k pt
      using step [OF that, of pt] by (simp add: block_at add.assoc)
    show "org + j * bs - w_base w + length (concat (map ?B [0..<len div bs])) \<le> length pt"
      unfolding lens [OF order_refl] using range_readyD(5) [OF ready] part_fits [of len bs] by linarith
  qed (use ready lens in \<open>simp_all add: range_ready_def\<close>)
  then show ?thesis using P by (simp add: whole_blocks_def concat_slices)
qed

lemma rec_ecb_segment:
  assumes bc: "wf_bc bc" "bs = bc_block_size bc"
    and ready: "range_ready file org (ecb_encrypt bc P) w pt (j * bs) len need"
  shows "rec_ecb bc w (org + j * bs) len pt =
    Some (splice_at pt (org + j * bs - w_base w) (slice P (j * bs) (len div bs * bs)))"
  unfolding rec_ecb_def Let_def bc(2) [symmetric]
proof (rule rec_whole_blocks [OF ready])
  have C: "length (ecb_encrypt bc P) \<le> length P" using bc by (simp add: length_ecb_encrypt)
  then show "j * bs + len div bs * bs \<le> length P"
    using range_readyD(3) [OF ready] part_fits [of len bs] by linarith
  fix k pt' assume k: "k < len div bs"
  then have in_part: "(j + k) * bs + bs \<le> j * bs + len"
    using block_in_part [of k len bs j] by (simp add: block_at)
  then have P: "Suc (j + k) * bs \<le> length P" using ready C by (simp add: range_ready_def add.commute)
  have "ct_read w (org + (j + k) * bs) 0 bs = Some (slice (ecb_encrypt bc P) ((j + k) * bs) bs)"
    using in_part by (intro segment_read [OF ready]) (simp_all add: block_at)
  moreover have "bc_D bc (slice (ecb_encrypt bc P) ((j + k) * bs) bs) = slice P ((j + k) * bs) bs"
    using ecb_block [OF bc(1), of "j + k" P] P bc(2) by (simp add: wf_bcD [OF bc(1)])
  ultimately show "do { c \<leftarrow> ct_read w (org + (j + k) * bs) 0 bs; pt_write w (org + (j + k) * bs) (bc_D bc c) pt' } =
      pt_write w (org + (j + k) * bs) (slice P ((j + k) * bs) bs) pt'" by simp
qed

definition iv_ready :: "sar_recovery_key \<Rightarrow> nat \<Rightarrow> bytes \<Rightarrow> bool" where
  "iv_ready rk bs iv \<longleftrightarrow> bs \<le> length (rk_iv rk) \<and> bs \<le> unat (rk_iv_length rk) \<and> take bs (rk_iv rk) = iv"

lemma range_iv_block_segment:
  assumes "range_ready file org C w pt (j * bs) len need" "j = 0 \<or> bs \<le> need" "policy_origin policy origin org"
    and "iv_ready rk bs iv" "0 < bs" "j \<le> k" "k * bs \<le> j * bs + len"
  shows "range_iv_block rk policy (org + k * bs) origin bs w =
    Some (Some (if k = 0 then iv else slice C ((k - 1) * bs) bs))"
proof (cases "k = 0")
  case True
  then show ?thesis
    using assms(3,4) by (auto simp: range_iv_block_def policy_origin_def iv_ready_def split: if_splits)
next
  case False
  have "ct_read w (org + k * bs) bs bs = Some (slice C (k * bs - bs) bs)"
    using assms(2,5-7) False by (intro segment_read_back [OF assms(1)]) auto
  moreover have "k * bs - bs = (k - 1) * bs" by (simp add: diff_mult_distrib)
  ultimately show ?thesis
    using False assms(3,5) by (auto simp: range_iv_block_def policy_origin_def split: if_splits)
qed

lemma rec_cbc_segment:
  assumes bc: "wf_bc bc" "bs = bc_block_size bc" and iv: "iv_ready rk bs iv"
    and pol: "policy_origin policy origin org" "j = 0 \<or> bs \<le> need"
    and ready: "range_ready file org (cbc_encrypt bc iv P) w pt (j * bs) len need"
  shows "rec_cbc bc rk policy w origin (org + j * bs) len pt =
    Some (splice_at pt (org + j * bs - w_base w) (slice P (j * bs) (len div bs * bs)))"
  unfolding rec_cbc_def Let_def bc(2) [symmetric]
proof (rule rec_whole_blocks [OF ready])
  let ?C = "cbc_encrypt bc iv P"
  have ivl: "length iv = bc_block_size bc" using iv bc(2) by (auto simp: iv_ready_def)
  have C: "length ?C \<le> length P" using bc ivl by (simp add: length_cbc_encrypt)
  then show "j * bs + len div bs * bs \<le> length P"
    using range_readyD(3) [OF ready] part_fits [of len bs] by linarith
  fix k pt' assume k: "k < len div bs"
  then have in_part: "(j + k) * bs + bs \<le> j * bs + len"
    using block_in_part [of k len bs j] by (simp add: block_at)
  then have P: "Suc (j + k) * bs \<le> length P" using C range_readyD(3) [OF ready] by (simp add: add.commute)
  define prev where "prev = (if j + k = 0 then iv else slice ?C ((j + k - 1) * bs) bs)"
  have "range_iv_block rk policy (org + (j + k) * bs) origin bs w = Some (Some prev)"
    unfolding prev_def using pol iv in_part wf_bc_pos [OF bc(1)] bc(2)
    by (intro range_iv_block_segment [OF ready]) simp_all
  moreover have "ct_read w (org + (j + k) * bs) 0 bs = Some (slice ?C ((j + k) * bs) bs)"
    using in_part by (intro segment_read [OF ready]) (simp_all add: block_at)
  moreover have "xor_bytes (bc_D bc (slice ?C ((j + k) * bs) bs)) prev = slice P ((j + k) * bs) bs"
  proof -
    have "length prev = bs"
      using ivl bc(2) in_part range_readyD(3) [OF ready] by (auto simp: prev_def diff_mult_distrib)
    moreover have "slice ?C ((j + k) * bs) bs = bc_E bc (xor_bytes (slice P ((j + k) * bs) bs) prev)"
      using cbc_block [OF bc(1) ivl, of "j + k" P] P bc(2) by (simp add: prev_def)
    ultimately show ?thesis
      using P bc(2) by (simp add: wf_bcD [OF bc(1)] xor_bytes_cancel_right)
  qed
  ultimately show "do { p \<leftarrow> range_iv_block rk policy (org + (j + k) * bs) origin bs w;
      case p of None \<Rightarrow> Some pt'
      | Some prev \<Rightarrow> do { c \<leftarrow> ct_read w (org + (j + k) * bs) 0 bs;
          pt_write w (org + (j + k) * bs) (xor_bytes (bc_D bc c) prev) pt' } } =
      pt_write w (org + (j + k) * bs) (slice P ((j + k) * bs) bs) pt'" by simp
qed

lemma cfb_chunk_segment:
  assumes bc: "wf_bc bc" "bs = bc_block_size bc" and iv: "iv_ready rk bs iv"
    and pol: "policy_origin policy origin org" "j = 0 \<or> bs \<le> need"
    and ready: "range_ready file org (cfb_encrypt bc iv P) w pt (j * bs) len need"
    and k: "j \<le> k" "k * bs + n \<le> j * bs + len" "n \<le> bs"
  shows "cfb_chunk bc rk policy w origin n (org + k * bs) pt' = pt_write w (org + k * bs) (slice P (k * bs) n) pt'"
proof -
  let ?C = "cfb_encrypt bc iv P"
  have ivl: "length iv = bc_block_size bc" using iv bc(2) by (auto simp: iv_ready_def)
  have C: "length ?C = length P" using bc ivl by (simp add: length_cfb_encrypt)
  then have P: "k * bs + n \<le> length P" using k(2) range_readyD(3) [OF ready] by simp
  define prev where "prev = (if k = 0 then iv else slice ?C ((k - 1) * bs) bs)"
  have "range_iv_block rk policy (org + k * bs) origin bs w = Some (Some prev)"
    unfolding prev_def using pol iv k wf_bc_pos [OF bc(1)] bc(2)
    by (intro range_iv_block_segment [OF ready]) simp_all
  moreover have "ct_read w (org + k * bs) 0 n = Some (slice ?C (k * bs) n)"
    using k by (intro segment_read [OF ready]) simp_all
  moreover have "xor_bytes (slice ?C (k * bs) n) (bc_E bc prev) = slice P (k * bs) n"
  proof -
    have "length prev = bs"
      using ivl bc(2) P C by (auto simp: prev_def diff_mult_distrib)
    then have "length (bc_E bc prev) = bs" using bc(2) by (simp add: wf_bcD [OF bc(1)])
    moreover have "slice ?C (k * bs) n = xor_bytes (slice P (k * bs) n) (bc_E bc prev)"
      using cfb_part [OF bc(1), of n iv k P] k(3) ivl P bc(2) by (simp add: prev_def)
    ultimately show ?thesis
      using P k(3) by (simp add: xor_bytes_cancel_right)
  qed
  ultimately show ?thesis by (simp add: cfb_chunk_def bc(2))
qed

lemma rec_cfb_segment:
  assumes bc: "wf_bc bc" "bs = bc_block_size bc" and iv: "iv_ready rk bs iv"
    and pol: "policy_origin policy origin org" "j = 0 \<or> bs \<le> need"
    and ready: "range_ready file org (cfb_encrypt bc iv P) w pt (j * bs) len need"
  shows "rec_cfb bc rk policy w origin (org + j * bs) len pt =
    Some (splice_at pt (org + j * bs - w_base w) (slice P (j * bs) len))"
proof -
  let ?q = "len div bs"
  let ?i = "org + j * bs - w_base w"
  define a where "a = ?q * bs"
  define m where "m = len mod bs"
  have len: "len = a + m" by (simp add: a_def m_def)
  have "length iv = bc_block_size bc" using iv bc(2) by (auto simp: iv_ready_def)
  then have C: "length (cfb_encrypt bc iv P) = length P" using bc by (simp add: length_cfb_encrypt)
  have P: "j * bs + a + m \<le> length P"
    using range_readyD(3) [OF ready] C len by linarith
  define pt1 where "pt1 = splice_at pt ?i (slice P (j * bs) a)"
  have whole: "fold_opt (cfb_chunk bc rk policy w origin bs) (whole_blocks bs (org + j * bs) len) pt = Some pt1"
    unfolding pt1_def a_def
  proof (rule rec_whole_blocks [OF ready])
    show "j * bs + len div bs * bs \<le> length P" using P by (simp only: a_def)
    fix k pt' assume "k < len div bs"
    then show "cfb_chunk bc rk policy w origin bs (org + (j + k) * bs) pt' =
        pt_write w (org + (j + k) * bs) (slice P ((j + k) * bs) bs) pt'"
      using block_in_part [of k len bs j]
      by (intro cfb_chunk_segment [OF bc iv pol ready]) (simp_all add: block_at)
  qed
  have tail: "cfb_chunk bc rk policy w origin m (org + j * bs + a) pt1 =
      Some (splice_at pt ?i (slice P (j * bs) len))"
  proof -
    have "m \<le> bs" using wf_bc_pos [OF bc(1)] bc(2) by (simp add: m_def less_imp_le)
    then have "cfb_chunk bc rk policy w origin m (org + (j + ?q) * bs) pt1 =
        pt_write w (org + (j + ?q) * bs) (slice P ((j + ?q) * bs) m) pt1"
      by (intro cfb_chunk_segment [OF bc iv pol ready]) (simp_all add: block_at m_def)
    then have "cfb_chunk bc rk policy w origin m (org + j * bs + a) pt1 =
        pt_write w (org + j * bs + a) (slice P (j * bs + a) m) pt1"
      by (simp only: block_at a_def [symmetric] add.assoc)
    also have "\<dots> = Some (splice_at pt ?i (slice P (j * bs) a @ slice P (j * bs + a) m))"
      using pt_write_append [of w "org + j * bs" "slice P (j * bs) a" "slice P (j * bs + a) m" pt]
        range_readyD(4,5) [OF ready] P len by (simp add: pt1_def)
    finally show ?thesis by (simp add: slice_join len)
  qed
  have pos: "org + j * bs + len - m = org + j * bs + a" using len by simp
  have "rec_cfb bc rk policy w origin (org + j * bs) len pt =
      (if m > 0 then cfb_chunk bc rk policy w origin m (org + j * bs + len - m) pt1 else Some pt1)"
    unfolding rec_cfb_def Let_def bc(2) [symmetric] m_def [symmetric] whole by simp
  moreover have "pt1 = splice_at pt ?i (slice P (j * bs) len)" if "m = 0"
    using that len by (simp add: pt1_def)
  ultimately show ?thesis
    using tail by (simp add: pos)
qed

lemma rec_all_blocks:
  fixes bs :: nat
  assumes ready: "range_ready file org C w pt (j * bs) len need" and bs: "0 < bs"
    and P: "j * bs + len \<le> length P"
    and step: "\<And>k pt. k * bs < len \<Longrightarrow> step (org + (j + k) * bs) (pt, st k) =
      map_option (\<lambda>pt'. (pt', st (Suc k)))
        (pt_write w (org + (j + k) * bs) (slice P ((j + k) * bs) (min (len - k * bs) bs)) pt)"
  shows "map_option fst (fold_opt step (all_blocks bs (org + j * bs) len) (pt, st 0)) =
    Some (splice_at pt (org + j * bs - w_base w) (slice P (j * bs) len))"
proof -
  define n where "n = (len + bs - 1) div bs"
  let ?B = "\<lambda>k. slice P (j * bs + k * bs) (min (len - k * bs) bs)"
  have cc: "concat (map ?B [0..<k]) = slice P (j * bs) (min len (k * bs))" for k
    using concat_slices_part [OF P bs, of k] .
  have all: "concat (map ?B [0..<n]) = slice P (j * bs) len"
    using all_blocks_cover [OF bs, of len] unfolding cc n_def [symmetric] by (simp add: min_absorb1)
  have "fold_opt step (map (\<lambda>k. org + j * bs + k * bs) [0..<n]) (pt, st 0) =
      Some (splice_at pt (org + j * bs - w_base w) (concat (map ?B [0..<n])), st n)"
  proof (rule fold_opt_fill)
    fix k assume "k < n"
    then have k: "k * bs < len" unfolding n_def by (rule all_blocks_below)
    then show "step (org + j * bs + k * bs) (pt', st k) =
        map_option (\<lambda>pt'. (pt', st (Suc k))) (pt_write w (org + j * bs + k * bs) (?B k) pt')" for pt'
      using step [of k pt'] by (simp add: block_at add.assoc)
    show "org + j * bs + k * bs = org + j * bs + length (concat (map ?B [0..<k]))"
      using k P unfolding cc by simp
  next
    show "org + j * bs - w_base w + length (concat (map ?B [0..<n])) \<le> length pt"
      using range_readyD(5) [OF ready] P by (simp add: all)
  qed (use range_readyD(4) [OF ready] in simp)
  then show ?thesis unfolding all_blocks_def n_def [symmetric] by (simp add: all)
qed

lemma ks_chunk_segment:
  assumes ready: "range_ready file org (ks_encrypt f bs P) w pt (j * bs) len need"
    and k: "k * bs < len" and f: "length (f (j + k)) = bs"
  shows "ks_chunk w (org + j * bs + len) bs (f (j + k)) (org + (j + k) * bs) pt' =
    pt_write w (org + (j + k) * bs) (slice P ((j + k) * bs) (min (len - k * bs) bs)) pt'"
proof -
  let ?n = "min (len - k * bs) bs"
  have cnt: "org + j * bs + len - (org + (j + k) * bs) = len - k * bs" by (simp add: block_at)
  have n: "(j + k) * bs + ?n \<le> j * bs + len" using k by (auto simp: block_at)
  then have P: "(j + k) * bs + ?n \<le> length P" using range_readyD(3) [OF ready] by simp
  have "ct_read w (org + (j + k) * bs) 0 ?n = Some (slice (ks_encrypt f bs P) ((j + k) * bs) ?n)"
    using n by (intro segment_read [OF ready]) (simp_all add: block_at)
  moreover have "xor_bytes (slice (ks_encrypt f bs P) ((j + k) * bs) ?n) (f (j + k)) = slice P ((j + k) * bs) ?n"
    using ks_part [of "j + k" bs ?n P f] P f by (simp add: xor_bytes_cancel_right)
  ultimately show ?thesis by (simp add: ks_chunk_def cnt Let_def)
qed

lemma policy_block_index:
  assumes "policy_origin policy origin org" "0 < bs"
  shows "(if policy = SAR_CTR_RESET_PER_CHUNK then (org + k * bs - origin) div bs else (org + k * bs) div bs) = k"
  using assms by (auto simp: policy_origin_def)

lemma rec_ofb_segment:
  assumes bc: "wf_bc bc" "bs = bc_block_size bc" and iv: "iv_ready rk bs iv"
    and pol: "policy_origin policy origin org"
    and ready: "range_ready file org (ks_encrypt (ofb_block bc iv) bs P) w pt (j * bs) len need"
  shows "rec_ofb bc rk policy w origin (org + j * bs) len pt =
    Some (splice_at pt (org + j * bs - w_base w) (slice P (j * bs) len))"
proof -
  have bs: "0 < bs" using wf_bc_pos [OF bc(1)] bc(2) by simp
  have ivl: "length iv = bc_block_size bc" using iv bc(2) by (auto simp: iv_ready_def)
  have O1: "fold (\<lambda>_. bc_E bc) [0..<j] (bc_E bc iv) = ofb_block bc iv j"
    using funpow_swap1 [of "bc_E bc" j iv] by (simp add: fold_const_funpow ofb_block_def)
  have "map_option fst (fold_opt (\<lambda>pos (pt, ks). do {
        pt \<leftarrow> ks_chunk w (org + j * bs + len) bs ks pos pt; Some (pt, bc_E bc ks) })
      (all_blocks bs (org + j * bs) len) (pt, ofb_block bc iv (j + 0))) =
    Some (splice_at pt (org + j * bs - w_base w) (slice P (j * bs) len))"
  proof (rule rec_all_blocks [OF ready bs])
    show "j * bs + len \<le> length P" using range_readyD(3) [OF ready] by simp
    fix k pt' assume "k * bs < len"
    then show "(case (pt', ofb_block bc iv (j + k)) of (pt, ks) \<Rightarrow> do {
          pt \<leftarrow> ks_chunk w (org + j * bs + len) bs ks (org + (j + k) * bs) pt; Some (pt, bc_E bc ks) }) =
        map_option (\<lambda>pt'. (pt', ofb_block bc iv (j + Suc k)))
          (pt_write w (org + (j + k) * bs) (slice P ((j + k) * bs) (min (len - k * bs) bs)) pt')"
      using ks_chunk_segment [OF ready, of k pt'] bc ivl
      by (simp add: ofb_block_Suc map_conv_bind_option comp_def)
  qed
  then show ?thesis
    using policy_block_index [OF pol bs, of j] iv
    by (simp add: rec_ofb_def Let_def iv_ready_def O1 flip: bc(2))
qed

lemma sar_ctr_field_read_take:
  assumes "ctr_layout_ok L" "ctr_block_size L \<le> bs"
  shows "sar_ctr_field_read (take bs iv) L = sar_ctr_field_read iv L"
proof -
  have "take bs iv ! (ctr_offset L + i) = iv ! (ctr_offset L + i)" if "i < ctr_width L" for i
    using that assms by (simp add: ctr_layout_ok_def)
  then show ?thesis
    unfolding sar_ctr_field_read_def by (auto intro!: fold_cong)
qed

definition ctr_tag_layout :: "u8 \<Rightarrow> sar_ctr_layout" where
  "ctr_tag_layout tag = SAR_CTR_LAYOUTS ! (unat tag - 1)"

lemma ctr_tag_layout_ok:
  assumes "tag \<noteq> 0" "unat tag \<le> SAR_CTR_LAYOUT_COUNT"
  shows "ctr_layout_ok (ctr_tag_layout tag)"
proof -
  have "unat tag - 1 < length SAR_CTR_LAYOUTS"
    using assms unat_gt_0 [of tag] by (simp add: SAR_CTR_LAYOUT_COUNT_def SAR_CTR_LAYOUTS_def)
  then show ?thesis unfolding ctr_tag_layout_def by (intro ctr_layouts_ok nth_mem)
qed

lemma rec_ctr_segment:
  assumes bc: "wf_bc bc" "bs = bc_block_size bc" and iv: "iv_ready rk bs iv"
    and L: "L = ctr_tag_layout (rk_ctr_layout_tag rk)" "ctr_layout_ok L" "ctr_block_size L \<le> bs"
    and pol: "policy_origin policy origin org"
    and ready: "range_ready file org (ks_encrypt (ctr_block bc L iv) bs P) w pt (j * bs) len need"
  shows "rec_ctr bc rk policy w origin (org + j * bs) len pt =
    Some (splice_at pt (org + j * bs - w_base w) (slice P (j * bs) len))"
proof -
  have bs: "0 < bs" using wf_bc_pos [OF bc(1)] bc(2) by simp
  have ivl: "length iv = bc_block_size bc" using iv bc(2) by (auto simp: iv_ready_def)
  define step where "step = (\<lambda>pos pt.
    let n = (if policy = SAR_CTR_RESET_PER_CHUNK then (pos - origin) div bs else pos div bs);
        counter = sar_ctr_field_write (take bs (rk_iv rk)) L (sar_ctr_field_read (rk_iv rk) L + word_of_nat n)
    in ks_chunk w (org + j * bs + len) bs (bc_E bc counter) pos pt)"
  have step: "step (org + (j + k) * bs) pt' =
      ks_chunk w (org + j * bs + len) bs (ctr_block bc L iv (j + k)) (org + (j + k) * bs) pt'" for k pt'
    using policy_block_index [OF pol bs, of "j + k"] sar_ctr_field_read_take [OF L(2,3), of "rk_iv rk"] iv
    by (simp add: step_def ctr_block_def ctr_step_def iv_ready_def)
  have lens: "length (ctr_block bc L iv (j + k)) = bs" for k
    using bc ivl by simp
  have "map_option fst (fold_opt (\<lambda>pos (pt, u). map_option (\<lambda>pt'. (pt', u)) (step pos pt))
      (all_blocks bs (org + j * bs) len) (pt, ())) =
    Some (splice_at pt (org + j * bs - w_base w) (slice P (j * bs) len))"
  proof (rule rec_all_blocks [OF ready bs, where st = "\<lambda>_. ()"])
    show "j * bs + len \<le> length P" using range_readyD(3) [OF ready] by simp
    fix k pt' assume "k * bs < len"
    then show "(case (pt', ()) of (pt, u) \<Rightarrow> map_option (\<lambda>pt'. (pt', u)) (step (org + (j + k) * bs) pt)) =
        map_option (\<lambda>pt'. (pt', ()))
          (pt_write w (org + (j + k) * bs) (slice P ((j + k) * bs) (min (len - k * bs) bs)) pt')"
      using ks_chunk_segment [OF ready _ lens, of k pt'] by (simp add: step)
  qed
  then have "fold_opt step (all_blocks bs (org + j * bs) len) pt =
      Some (splice_at pt (org + j * bs - w_base w) (slice P (j * bs) len))"
    unfolding fold_opt_pair by (simp add: option.map_comp comp_def option.map_ident)
  then show ?thesis
    unfolding rec_ctr_def step_def L(1) ctr_tag_layout_def by (simp add: Let_def flip: bc(2))
qed

section \<open>XTS and the stream ciphers\<close>

text \<open>
  The reference encryptions of the modes that have no cipher context of their own in
  \<open>Mode_Reference\<close>: XTS over data units, the stream ciphers with 64-byte keystream blocks, and RC4.
\<close>

definition xts_tweak :: "block_cipher_ctx \<Rightarrow> nat \<Rightarrow> nat \<Rightarrow> bytes" where
  "xts_tweak bc2 du k =
     fold (\<lambda>_. gf128_mul_alpha) [0..<(k * 16 mod du) div 16] (bc_E bc2 (xts_tweak_in (word_of_nat (k * 16 div du))))"

definition xts_encrypt :: "block_cipher_ctx \<Rightarrow> block_cipher_ctx \<Rightarrow> nat \<Rightarrow> bytes \<Rightarrow> bytes" where
  "xts_encrypt bc1 bc2 du P =
     concat (map (\<lambda>k. let t = xts_tweak bc2 du k
                      in xor_bytes (bc_E bc1 (xor_bytes (slice P (k * 16) 16) t)) t) [0..<length P div 16])"

definition rc4_encrypt :: "rc4_state \<Rightarrow> bytes \<Rightarrow> bytes" where
  "rc4_encrypt st P = xor_bytes P (rc4_keystream st (length P))"

lemma concat_uniform:
  assumes "\<And>k. k < n \<Longrightarrow> length (f k) = bs"
  shows "length (concat (map f [0..<n])) = n * bs"
    and "k < n \<Longrightarrow> slice (concat (map f [0..<n])) (k * bs) bs = f k"
proof -
  show len: "length (concat (map f [0..<n])) = n * bs"
    using assms by (induction n) simp_all
  show "slice (concat (map f [0..<n])) (k * bs) bs = f k" if "k < n"
    using that assms
  proof (induction n)
    case (Suc n)
    have len: "length (concat (map f [0..<n])) = n * bs"
      using Suc.prems(2) by (induction n) simp_all
    show ?case
    proof (cases "k = n")
      case True
      then show ?thesis using len Suc.prems(2) [of n] slice_append_shift [of "concat (map f [0..<n])" "f n" 0 bs]
        by (simp add: slice_def)
    next
      case False
      then have "k < n" using Suc.prems(1) by simp
      then have "Suc k * bs \<le> n * bs" by (intro mult_le_mono1) simp
      then show ?thesis using \<open>k < n\<close> Suc len by (simp add: slice_append_left add.commute)
    qed
  qed simp
qed

lemma length_gf128_mul_alpha [simp, sar_len]: "length (gf128_mul_alpha t) = length t"
proof -
  have "length (fst (fold gf128_step xs s)) = length (fst s)" for xs s
    by (induction xs arbitrary: s) (simp_all add: gf128_step_def split: prod.splits)
  from this [of "[0..<16]" "(t, 0)"] show ?thesis
    by (auto simp: gf128_mul_alpha_def Let_def split: prod.splits)
qed

lemma length_xts_tweak:
  assumes "wf_bc bc2" "bc_block_size bc2 = 16"
  shows "length (xts_tweak bc2 du k) = 16"
proof -
  have "length (fold (\<lambda>_. gf128_mul_alpha) xs t) = length t" for t and xs :: "nat list"
    by (induction xs arbitrary: t) simp_all
  moreover have "length (bc_E bc2 (xts_tweak_in v)) = 16" for v
    using assms by (simp add: wf_bcD xts_tweak_in_def)
  ultimately show ?thesis by (simp add: xts_tweak_def)
qed

lemma xts_block:
  assumes "wf_bc bc1" "wf_bc bc2" "bc_block_size bc1 = 16" "bc_block_size bc2 = 16"
  shows "length (xts_encrypt bc1 bc2 du P) = length P div 16 * 16"
    and "k < length P div 16 \<Longrightarrow> slice (xts_encrypt bc1 bc2 du P) (k * 16) 16 =
      xor_bytes (bc_E bc1 (xor_bytes (slice P (k * 16) 16) (xts_tweak bc2 du k))) (xts_tweak bc2 du k)"
proof -
  let ?f = "\<lambda>k. let t = xts_tweak bc2 du k in xor_bytes (bc_E bc1 (xor_bytes (slice P (k * 16) 16) t)) t"
  have f: "length (?f k) = 16" if "k < length P div 16" for k
  proof -
    have "Suc k * 16 \<le> length P div 16 * 16" using that by (intro mult_le_mono1) simp
    then have "Suc k * 16 \<le> length P" using part_fits [of "length P" 16] by linarith
    then show ?thesis using assms by (simp add: Let_def length_xts_tweak wf_bcD)
  qed
  show "length (xts_encrypt bc1 bc2 du P) = length P div 16 * 16"
    unfolding xts_encrypt_def using f by (rule concat_uniform(1))
  show "slice (xts_encrypt bc1 bc2 du P) (k * 16) 16 =
      xor_bytes (bc_E bc1 (xor_bytes (slice P (k * 16) 16) (xts_tweak bc2 du k))) (xts_tweak bc2 du k)"
    if "k < length P div 16"
    using concat_uniform(2) [of "length P div 16" ?f 16 k] f that unfolding xts_encrypt_def Let_def by blast
qed

lemma rec_xts_segment:
  assumes bc: "wf_bc bc1" "wf_bc bc2" "bc_block_size bc1 = 16" "bc_block_size bc2 = 16"
    and ready: "range_ready file 0 (xts_encrypt bc1 bc2 (unat du) P) w pt (j * 16) len need"
  shows "rec_xts bc1 bc2 du w (j * 16) len pt =
    Some (splice_at pt (j * 16 - w_base w) (slice P (j * 16) (len div 16 * 16)))"
proof -
  let ?C = "xts_encrypt bc1 bc2 (unat du) P"
  have C: "length ?C \<le> length P" using xts_block(1) [OF bc] part_fits [of "length P" 16] by simp
  have "rec_xts bc1 bc2 du w (0 + j * 16) len pt =
    Some (splice_at pt (0 + j * 16 - w_base w) (slice P (j * 16) (len div 16 * 16)))"
    unfolding rec_xts_def
  proof (rule rec_whole_blocks [OF ready])
    show "j * 16 + len div 16 * 16 \<le> length P"
      using range_readyD(3) [OF ready] C part_fits [of len 16] by linarith
    fix k pt' assume k: "k < len div 16"
    then have in_part: "(j + k) * 16 + 16 \<le> j * 16 + len"
      using block_in_part [of k len 16 j] by (simp add: block_at)
    then have P: "Suc (j + k) * 16 \<le> length P" and "Suc (j + k) * 16 \<le> length P div 16 * 16"
      using C range_readyD(3) [OF ready] xts_block(1) [OF bc, of "unat du" P] by simp_all
    then have jk: "j + k < length P div 16" by simp
    define t where "t = xts_tweak bc2 (unat du) (j + k)"
    have enc: "slice ?C ((j + k) * 16) 16 = xor_bytes (bc_E bc1 (xor_bytes (slice P ((j + k) * 16) 16) t)) t"
      using xts_block(2) [OF bc jk, of "unat du"] by (simp only: t_def)
    have "length t = 16" using bc by (simp add: t_def length_xts_tweak)
    then have "xor_bytes (bc_D bc1 (xor_bytes (slice ?C ((j + k) * 16) 16) t)) t = slice P ((j + k) * 16) 16"
      unfolding enc using P bc(3) by (simp add: xor_bytes_cancel_right wf_bcD [OF bc(1)])
    moreover have "ct_read w (0 + (j + k) * 16) 0 16 = Some (slice ?C ((j + k) * 16) 16)"
      using in_part by (intro segment_read [OF ready]) simp_all
    ultimately show "(let d = (0 + (j + k) * 16) div unat du; b = ((0 + (j + k) * 16) mod unat du) div 16;
          tweak = fold (\<lambda>_. gf128_mul_alpha) [0..<b] (bc_E bc2 (xts_tweak_in (word_of_nat d)))
        in do { c \<leftarrow> ct_read w (0 + (j + k) * 16) 0 16;
             pt_write w (0 + (j + k) * 16) (xor_bytes (bc_D bc1 (xor_bytes c tweak)) tweak) pt' }) =
        pt_write w (0 + (j + k) * 16) (slice P ((j + k) * 16) 16) pt'"
      by (simp add: Let_def t_def xts_tweak_def)
  qed
  then show ?thesis by simp
qed

lemma slice_0 [simp]: "slice xs i 0 = []"
  by (simp add: slice_def)

lemma ks_inside_block:
  assumes "i + n \<le> length P" "i mod bs + n \<le> bs" "length (f (i div bs)) = bs"
  shows "slice (ks_encrypt f bs P) i n = xor_bytes (slice P i n) (slice (f (i div bs)) (i mod bs) n)"
proof (rule nth_equalityI)
  fix l assume "l < length (slice (ks_encrypt f bs P) i n)"
  then have l: "l < n" "l < length P - i" using assms by simp_all
  have "i + l = i div bs * bs + (i mod bs + l)" by simp
  moreover have "i mod bs + l < bs" using l assms by simp
  ultimately have "(i + l) div bs = i div bs" "(i + l) mod bs = i mod bs + l"
    by (metis add.commute div_mult_self3 div_less add.right_neutral not_less0 less_irrefl,
        metis mod_less mod_mult_self3)
  then show "slice (ks_encrypt f bs P) i n ! l = xor_bytes (slice P i n) (slice (f (i div bs)) (i mod bs) n) ! l"
    using l assms by (simp add: nth_slice nth_xor_bytes ks_encrypt_def)
qed (use assms in simp)

lemma range_ready_advance:
  assumes ready: "range_ready file org C w pt i len need" and n: "n \<le> len" "length x = n"
  shows "range_ready file org C w (splice_at pt (org + i - w_base w) x) (i + n) (len - n) need"
  using range_readyD [OF ready] n unfolding range_ready_def by auto

lemma rec_stream_loop_segment:
  assumes "\<And>k. length (stream_block rk k) = 64" "policy_origin policy origin org"
  shows "range_ready file org (ks_encrypt (\<lambda>k. stream_block rk (word_of_nat k)) 64 P) w pt i len need \<Longrightarrow>
    rec_stream_loop rk policy w origin (org + i + len) (org + i) pt =
      Some (splice_at pt (org + i - w_base w) (slice P i len))"
proof (induction len arbitrary: i pt rule: less_induct)
  case (less len)
  note ready = less.prems
  let ?C = "ks_encrypt (\<lambda>k. stream_block rk (word_of_nat k)) 64 P"
  show ?case
  proof (cases "len = 0")
    case True
    then show ?thesis by (simp add: rec_stream_loop.simps)
  next
    case False
    define n where "n = min (64 - i mod 64) len"
    have n: "0 < n" "n \<le> len" "i mod 64 + n \<le> 64" using False by (auto simp: n_def)
    have P: "i + len \<le> length P" using range_readyD(3) [OF ready] by simp
    have eo: "(if policy = SAR_CTR_RESET_PER_CHUNK then org + i - origin else org + i) = i"
      using assms(2) by (auto simp: policy_origin_def)
    have read: "ct_read w (org + i) 0 n = Some (slice ?C i n)"
      using n by (intro segment_read [OF ready]) simp_all
    have dec: "xor_bytes (slice ?C i n) (slice (stream_block rk (word_of_nat (i div 64))) (i mod 64) n) = slice P i n"
      using n P assms(1) by (simp add: ks_inside_block xor_bytes_cancel_right)
    define pt1 where "pt1 = splice_at pt (org + i - w_base w) (slice P i n)"
    have "pt_write w (org + i) (slice P i n) pt = Some pt1"
      using range_readyD(4,5) [OF ready] n P by (simp add: pt_write_def pt1_def)
    then have step: "rec_stream_loop rk policy w origin (org + i + len) (org + i) pt =
        rec_stream_loop rk policy w origin (org + i + len) (org + i + n) pt1"
      using False by (subst rec_stream_loop.simps) (simp add: Let_def eo read dec flip: n_def)
    have "range_ready file org ?C w pt1 (i + n) (len - n) need"
      unfolding pt1_def using n P by (intro range_ready_advance [OF ready]) simp_all
    from less.IH [OF _ this] have "rec_stream_loop rk policy w origin (org + i + len) (org + i + n) pt1 =
        Some (splice_at pt1 (org + (i + n) - w_base w) (slice P (i + n) (len - n)))"
      using n by (simp add: add.assoc)
    also have "splice_at pt1 (org + (i + n) - w_base w) (slice P (i + n) (len - n)) =
        splice_at pt (org + i - w_base w) (slice P i len)"
      using splice_at_append [of "org + i - w_base w" "slice P i n" "slice P (i + n) (len - n)" pt]
        range_readyD(4,5) [OF ready] n P by (simp add: pt1_def slice_join add.assoc)
    finally show ?thesis by (simp add: step)
  qed
qed

lemma rec_rc4_segment:
  assumes pol: "if policy = SAR_CTR_RESET_PER_CHUNK then i = 0 else org = 0" and base: "w_base w = 0"
    and ready: "range_ready file org (rc4_encrypt (rc4_ksa rk, 0, 0) P) w pt i len need"
  shows "rec_rc4 rk policy w (org + i) len pt = Some (splice_at pt (org + i) (slice P i len))"
proof -
  let ?s = "\<lambda>k. (rc4_step ^^ (i + k)) (rc4_ksa rk, 0, 0)"
  let ?C = "rc4_encrypt (rc4_ksa rk, 0, 0) P"
  have P: "i * 1 + len \<le> length P" using range_readyD(3) [OF ready] by (simp add: rc4_encrypt_def)
  have ready1: "range_ready file org ?C w pt (i * 1) len need" using ready by simp
  have w: "w\<lparr>w_base := 0\<rparr> = w" using base by simp
  have skip: "(if policy = SAR_CTR_RESET_PER_CHUNK then 0 else org + i) = i" using pol by auto
  have "map_option fst (fold_opt (\<lambda>pos (pt, st). let st = rc4_step st in do {
        c \<leftarrow> ct_read w pos 0 1; pt \<leftarrow> pt_write w pos [c ! 0 XOR rc4_out st] pt; Some (pt, st) })
      (all_blocks 1 (org + i * 1) len) (pt, ?s 0)) =
    Some (splice_at pt (org + i * 1 - w_base w) (slice P (i * 1) len))"
  proof (rule rec_all_blocks [OF ready1 _ P])
    fix k pt' assume k: "k * 1 < len"
    have "ct_read w (org + (i + k)) 0 1 = Some (slice ?C (i + k) 1)"
      using k by (intro segment_read [OF ready]) simp_all
    moreover have "slice ?C (i + k) 1 ! 0 XOR rc4_out (rc4_step (?s k)) = P ! (i + k)"
      using k P by (simp add: nth_slice rc4_encrypt_def nth_xor_bytes xor.assoc)
    moreover have "slice P (i + k) 1 = [P ! (i + k)]" using k P by (simp add: slice_single)
    moreover have "min (len - k * 1) 1 = 1" using k by simp
    ultimately show "(case (pt', ?s k) of (pt, st) \<Rightarrow> let st = rc4_step st in do {
          c \<leftarrow> ct_read w (org + (i + k) * 1) 0 1;
          pt \<leftarrow> pt_write w (org + (i + k) * 1) [c ! 0 XOR rc4_out st] pt; Some (pt, st) }) =
        map_option (\<lambda>pt'. (pt', ?s (Suc k)))
          (pt_write w (org + (i + k) * 1) (slice P ((i + k) * 1) (min (len - k * 1) 1)) pt')"
      by (simp add: Let_def map_conv_bind_option comp_def)
  qed simp
  moreover have "all_blocks 1 (org + i * 1) len = [org + i..<org + i + len]"
    by (simp add: all_blocks_def map_add_upt add.commute)
  ultimately show ?thesis
    by (simp add: rec_rc4_def w skip base fold_const_funpow)
qed

end
