(* ===== verification/Recover_Roundtrip.thy ===== *)
theory Recover_Roundtrip
  imports Recover_Correct
begin

text \<open>
  The recovery entry points undo the encryptor: the reference encryption of a key, for every algorithm and mode
  the engine convicts, and the theorems that \<^verbatim>\<open>sar_recover_chunk\<close> and \<^verbatim>\<open>sar_recover_buffer\<close>
  give the plaintext back.
\<close>

section \<open>The ciphers of a key\<close>

definition alg_block :: "u32 \<Rightarrow> nat" where
  "alg_block alg = (if alg = SAR_ALG_3DES then 8 else 16)"

definition is_aes_alg :: "u32 \<Rightarrow> bool" where
  "is_aes_alg alg \<longleftrightarrow> alg = SAR_ALG_AES_128 \<or> alg = SAR_ALG_AES_192 \<or> alg = SAR_ALG_AES_256"

definition aes_key_ok :: "u32 \<Rightarrow> bytes \<Rightarrow> nat \<Rightarrow> bool" where
  "aes_key_ok alg key klen \<longleftrightarrow> (is_aes_alg alg \<longrightarrow> klen \<in> {16, 24, 32} \<and> klen \<le> length key)"

lemmas sar_alg_defs = SAR_ALG_AES_128_def SAR_ALG_AES_192_def SAR_ALG_AES_256_def SAR_ALG_3DES_def
  SAR_ALG_SM4_def SAR_ALG_CAMELLIA_def SAR_ALG_ARIA_def SAR_ALG_SEED_def SAR_ALG_CHACHA20_def
  SAR_ALG_XCHACHA20_def SAR_ALG_SALSA20_def SAR_ALG_XSALSA20_def SAR_ALG_RC4_def

lemmas sar_mode_defs = SAR_MODE_ECB_def SAR_MODE_CBC_def SAR_MODE_CTR_def SAR_MODE_XTS_def SAR_MODE_CFB_def
  SAR_MODE_OFB_def SAR_MODE_STREAM_def

lemma make_block_wf:
  assumes "make_block alg key klen = Some bc" "aes_key_ok alg key klen"
  shows "wf_bc bc" "bc_block_size bc = alg_block alg"
proof -
  have "wf_bc bc \<and> bc_block_size bc = alg_block alg"
  proof (cases "is_aes_alg alg")
    case True
    then have "alg \<noteq> SAR_ALG_3DES" by (auto simp: is_aes_alg_def sar_alg_defs)
    moreover have "bc = \<lparr>bc_encrypt = aes_encrypt_block (aes_setkey key klen),
        bc_decrypt = aes_decrypt_block (aes_setkey key klen), bc_block_size = 16\<rparr>"
      using True assms(1) by (simp add: make_block_def Let_def is_aes_alg_def)
    ultimately show ?thesis
      using True assms(2) aes.wf_bc_ctx [OF aes_valid_setkey [of klen key]] by (simp add: alg_block_def aes_key_ok_def)
  next
    case False
    have "alg = SAR_ALG_3DES \<longleftrightarrow> bc_block_size bc = 8"
      and "bc_block_size bc = 8 \<or> bc_block_size bc = 16"
      using False assms(1) by (auto simp: make_block_def Let_def is_aes_alg_def split: if_split_asm)
    moreover have "wf_bc bc"
      using False assms(1) des3.wf_bc_ctx [OF TrueI] sm4.wf_bc_ctx [OF TrueI] camellia.wf_bc_ctx [OF TrueI]
        aria.wf_bc_ctx [OF aria_valid_key_schedule] seed.wf_bc_ctx [OF TrueI]
      by (auto simp: make_block_def Let_def is_aes_alg_def split: if_split_asm)
    ultimately show ?thesis by (auto simp: alg_block_def)
  qed
  then show "wf_bc bc" "bc_block_size bc = alg_block alg" by simp_all
qed

lemma make_block_total: "is_block_alg alg \<Longrightarrow> \<exists>bc. make_block alg key klen = Some bc"
  by (auto simp: is_block_alg_def make_block_def Let_def)

lemma length_stream_block [simp, sar_len]: "length (stream_block rk k) = 64"
proof -
  have st: "length (concat (map (\<lambda>i. sar_st_le32 (f i)) [0..<16])) = 64" for f
    by (simp add: length_concat comp_def sum_list_triv)
  show ?thesis
    unfolding stream_block_def Let_def chacha_block_def salsa_block_def by (simp only: st split: if_split) simp
qed

section \<open>The reference encryption of a key\<close>

text \<open>
  What an encryptor holding the key does to one segment of a file. The electronic code book, cipher block
  chaining and XTS encrypt whole blocks only: \<^term>\<open>rk_whole\<close> is the part of a length they cover.
\<close>

definition rk_unit :: "sar_recovery_key \<Rightarrow> nat" where
  "rk_unit rk = (if is_block_alg (rk_algorithm rk) then alg_block (rk_algorithm rk) else 1)"

definition rk_whole :: "sar_recovery_key \<Rightarrow> nat \<Rightarrow> nat" where
  "rk_whole rk len =
     (if rk_mode rk = SAR_MODE_ECB \<or> rk_mode rk = SAR_MODE_CBC \<or> rk_mode rk = SAR_MODE_XTS
      then len div rk_unit rk * rk_unit rk else len)"

definition sar_encrypt :: "sar_recovery_key \<Rightarrow> rec_ciphers \<Rightarrow> bytes \<Rightarrow> bytes" where
  "sar_encrypt rk cs P =
     (case cs of
        One_Cipher bc \<Rightarrow>
          mode_encrypt bc (rk_mode rk) (ctr_tag_layout (rk_ctr_layout_tag rk)) (take (bc_block_size bc) (rk_iv rk)) P
      | Xts_Ciphers bc1 bc2 \<Rightarrow> xts_encrypt bc1 bc2 (unat (rk_mode_params rk)) P
      | No_Cipher \<Rightarrow>
          if rk_algorithm rk = SAR_ALG_RC4 then rc4_encrypt (rc4_ksa rk, 0, 0) P
          else ks_encrypt (\<lambda>k. stream_block rk (word_of_nat k)) 64 P)"

text \<open>
  A key is ready when its lengths fit its algorithm and mode: an AES key of a standard length, an
  initialisation vector of a whole block, a counter layout of the cipher's block size, and a 16-byte cipher for XTS.
\<close>

definition key_ready :: "sar_recovery_key \<Rightarrow> bool" where
  "key_ready rk \<longleftrightarrow>
     (let klen = unat (rk_key_length rk); half = klen div 2; m = rk_mode rk
      in (if m = SAR_MODE_XTS then aes_key_ok (rk_algorithm rk) (rk_key rk) half \<and>
            aes_key_ok (rk_algorithm rk) (drop half (rk_key rk)) half \<and> rk_algorithm rk \<noteq> SAR_ALG_3DES
          else aes_key_ok (rk_algorithm rk) (rk_key rk) klen) \<and>
         (m = SAR_MODE_CBC \<or> m = SAR_MODE_CFB \<or> m = SAR_MODE_OFB \<or> m = SAR_MODE_CTR \<longrightarrow>
            rk_unit rk \<le> unat (rk_iv_length rk) \<and> rk_unit rk \<le> length (rk_iv rk)) \<and>
         (m = SAR_MODE_CTR \<longrightarrow> ctr_block_size (ctr_tag_layout (rk_ctr_layout_tag rk)) = rk_unit rk))"

lemma precheck_cases:
  assumes "precheck rk = SAR_RECOVER_OK" "build_ciphers rk = Some cs" "key_ready rk"
  obtains (block) bc where "cs = One_Cipher bc" "wf_bc bc" "bc_block_size bc = rk_unit rk"
      "rk_mode rk \<in> {SAR_MODE_ECB, SAR_MODE_CBC, SAR_MODE_CFB, SAR_MODE_OFB, SAR_MODE_CTR}"
  | (xts) bc1 bc2 where "cs = Xts_Ciphers bc1 bc2" "wf_bc bc1" "wf_bc bc2" "bc_block_size bc1 = 16"
      "bc_block_size bc2 = 16" "rk_unit rk = 16" "rk_mode rk = SAR_MODE_XTS"
  | (rc4) "cs = No_Cipher" "rk_mode rk = SAR_MODE_STREAM" "rk_algorithm rk = SAR_ALG_RC4" "rk_unit rk = 1"
  | (stream) "cs = No_Cipher" "rk_mode rk = SAR_MODE_STREAM" "rk_algorithm rk \<noteq> SAR_ALG_RC4" "rk_unit rk = 1"
proof -
  note ready = assms(3) [unfolded key_ready_def Let_def]
  have no_block: "\<not> is_block_alg (rk_algorithm rk)" if "rk_mode rk = SAR_MODE_STREAM"
    using that assms(1)
    by (auto simp: precheck_def sar_mode_defs is_block_alg_def is_chacha_alg_def is_salsa_alg_def sar_alg_defs
        split: if_splits)
  have block_alg: "is_block_alg (rk_algorithm rk)" if "rk_mode rk \<noteq> SAR_MODE_STREAM"
    using that assms(1) by (auto simp: precheck_def split: if_splits)
  consider "rk_mode rk = SAR_MODE_XTS" | "rk_mode rk = SAR_MODE_STREAM"
    | "rk_mode rk \<in> {SAR_MODE_ECB, SAR_MODE_CBC, SAR_MODE_CFB, SAR_MODE_OFB, SAR_MODE_CTR}"
    using assms(1) by (auto simp: precheck_def split: if_splits)
  then show thesis
  proof cases
    case 1
    then have "rk_mode rk \<noteq> SAR_MODE_STREAM" by (simp add: sar_mode_defs)
    then have unit: "rk_unit rk = 16" and "alg_block (rk_algorithm rk) = 16"
      using 1 ready block_alg by (simp_all add: rk_unit_def alg_block_def)
    moreover obtain bc1 bc2 where "make_xts (rk_algorithm rk) (rk_key rk) (unat (rk_key_length rk)) = Some (bc1, bc2)"
      "cs = Xts_Ciphers bc1 bc2" using 1 assms(2) by (auto simp: build_ciphers_def)
    ultimately show ?thesis
      using 1 ready xts [of bc1 bc2] make_block_wf
      by (auto simp: make_xts_def Let_def bind_eq_Some_conv split: if_splits)
  next
    case 2
    then show ?thesis
      using assms(2) no_block rc4 stream
      by (cases "rk_algorithm rk = SAR_ALG_RC4") (auto simp: build_ciphers_def rk_unit_def sar_mode_defs)
  next
    case 3
    then have m: "rk_mode rk \<noteq> SAR_MODE_XTS" "rk_mode rk \<noteq> SAR_MODE_STREAM" by (auto simp: sar_mode_defs)
    then obtain bc where "make_block (rk_algorithm rk) (rk_key rk) (unat (rk_key_length rk)) = Some bc"
      "cs = One_Cipher bc" using assms(2) block_alg by (auto simp: build_ciphers_def)
    with m show ?thesis
      using 3 ready block [of bc] make_block_wf [of "rk_algorithm rk"] block_alg by (auto simp: rk_unit_def)
  qed
qed

section \<open>A part of a segment\<close>

lemma rk_whole_le: "rk_whole rk len \<le> len"
  using part_fits [of len "rk_unit rk"] by (simp add: rk_whole_def)

lemma sar_mode_neq [simp]:
  "SAR_MODE_ECB \<noteq> SAR_MODE_CBC" "SAR_MODE_ECB \<noteq> SAR_MODE_CTR" "SAR_MODE_ECB \<noteq> SAR_MODE_XTS"
  "SAR_MODE_ECB \<noteq> SAR_MODE_CFB" "SAR_MODE_ECB \<noteq> SAR_MODE_OFB" "SAR_MODE_ECB \<noteq> SAR_MODE_STREAM"
  "SAR_MODE_CBC \<noteq> SAR_MODE_CTR" "SAR_MODE_CBC \<noteq> SAR_MODE_XTS" "SAR_MODE_CBC \<noteq> SAR_MODE_CFB"
  "SAR_MODE_CBC \<noteq> SAR_MODE_OFB" "SAR_MODE_CBC \<noteq> SAR_MODE_STREAM" "SAR_MODE_CTR \<noteq> SAR_MODE_XTS"
  "SAR_MODE_CTR \<noteq> SAR_MODE_CFB" "SAR_MODE_CTR \<noteq> SAR_MODE_OFB" "SAR_MODE_CTR \<noteq> SAR_MODE_STREAM"
  "SAR_MODE_XTS \<noteq> SAR_MODE_CFB" "SAR_MODE_XTS \<noteq> SAR_MODE_OFB" "SAR_MODE_XTS \<noteq> SAR_MODE_STREAM"
  "SAR_MODE_CFB \<noteq> SAR_MODE_OFB" "SAR_MODE_CFB \<noteq> SAR_MODE_STREAM" "SAR_MODE_OFB \<noteq> SAR_MODE_STREAM"
  by (simp_all add: sar_mode_defs)

lemmas sar_mode_neq' [simp] = sar_mode_neq [symmetric]

lemma length_sar_encrypt:
  assumes "precheck rk = SAR_RECOVER_OK" "build_ciphers rk = Some cs" "key_ready rk"
  shows "length (sar_encrypt rk cs P) = rk_whole rk (length P)"
  using assms
proof (cases rule: precheck_cases)
  case (block bc)
  have "length (take (bc_block_size bc) (rk_iv rk)) = bc_block_size bc" if "rk_mode rk \<noteq> SAR_MODE_ECB"
    using that block assms(3) by (auto simp: key_ready_def Let_def)
  then show ?thesis using block
    by (auto simp: sar_encrypt_def mode_encrypt_def rk_whole_def length_ecb_encrypt length_cbc_encrypt
        length_cfb_encrypt)
next
  case (xts bc1 bc2)
  then show ?thesis by (simp add: sar_encrypt_def rk_whole_def xts_block(1))
qed (simp_all add: sar_encrypt_def rk_whole_def rc4_encrypt_def)

text \<open>
  The counter policy, the kind of key and the window have to agree: XTS and the continuous policy count
  from the start of the file, and RC4 has no random access, so it starts at the segment or at the file.
\<close>

definition place_ok :: "sar_recovery_key \<Rightarrow> u32 \<Rightarrow> nat \<Rightarrow> nat \<Rightarrow> nat \<Rightarrow> sar_window \<Rightarrow> bool" where
  "place_ok rk policy origin org i w \<longleftrightarrow>
     policy_origin policy origin org \<and> (rk_mode rk = SAR_MODE_XTS \<longrightarrow> org = 0) \<and>
     (rk_algorithm rk = SAR_ALG_RC4 \<longrightarrow> w_base w = 0 \<and> (policy = SAR_CTR_RESET_PER_CHUNK \<longrightarrow> i = 0))"

lemma recover_one_range_segment:
  assumes key: "precheck rk = SAR_RECOVER_OK" "build_ciphers rk = Some cs" "key_ready rk"
    and place: "place_ok rk policy origin org i w" "rk_unit rk dvd i" "i = 0 \<or> rk_unit rk \<le> need"
    and ready: "range_ready file org (sar_encrypt rk cs P) w pt i len need"
  shows "recover_one_range rk policy cs w origin (org + i) len pt =
    Some (splice_at pt (org + i - w_base w) (slice P i (rk_whole rk len)))"
  using key
proof (cases rule: precheck_cases)
  case (block bc)
  obtain j where i: "i = j * bc_block_size bc"
    using place(2) block(3) by (metis dvd_def mult.commute)
  have iv: "iv_ready rk (bc_block_size bc) (take (bc_block_size bc) (rk_iv rk))" if "rk_mode rk \<noteq> SAR_MODE_ECB"
    using that block key(3) by (auto simp: key_ready_def Let_def iv_ready_def)
  have pol: "policy_origin policy origin org" using place(1) by (simp add: place_ok_def)
  have jn: "j = 0 \<or> bc_block_size bc \<le> need" using place(3) i block(3) wf_bc_pos [OF block(2)] by auto
  have tag: "rk_ctr_layout_tag rk \<noteq> 0 \<and> unat (rk_ctr_layout_tag rk) \<le> SAR_CTR_LAYOUT_COUNT"
    if "rk_mode rk = SAR_MODE_CTR"
    using that key(1) by (auto simp: precheck_def split: if_splits)
  have lay: "ctr_layout_ok (ctr_tag_layout (rk_ctr_layout_tag rk))"
    "ctr_block_size (ctr_tag_layout (rk_ctr_layout_tag rk)) \<le> bc_block_size bc" if "rk_mode rk = SAR_MODE_CTR"
    using tag [OF that] key(3) that block(3) by (simp_all add: ctr_tag_layout_ok key_ready_def Let_def)
  note r = ready [unfolded i sar_encrypt_def block(1)]
  from block(4) consider "rk_mode rk = SAR_MODE_ECB" | "rk_mode rk = SAR_MODE_CBC" | "rk_mode rk = SAR_MODE_CFB"
    | "rk_mode rk = SAR_MODE_OFB" | "rk_mode rk = SAR_MODE_CTR" by auto
  then show ?thesis
  proof cases
    case 1
    then show ?thesis using rec_ecb_segment [OF block(2) refl, of "file" org P w pt j len need] r
      by (simp add: recover_one_range_def block(1) rk_whole_def mode_encrypt_def i flip: block(3))
  next
    case 2
    then show ?thesis using rec_cbc_segment [OF block(2) refl iv pol jn, of "file" P w pt len] r
      by (simp add: recover_one_range_def block(1) rk_whole_def mode_encrypt_def i flip: block(3))
  next
    case 3
    then show ?thesis using rec_cfb_segment [OF block(2) refl iv pol jn, of "file" P w pt len] r
      by (simp add: recover_one_range_def block(1) rk_whole_def mode_encrypt_def i)
  next
    case 4
    then show ?thesis using rec_ofb_segment [OF block(2) refl iv pol, of "file" P w pt j len need] r
      by (simp add: recover_one_range_def block(1) rk_whole_def mode_encrypt_def i)
  next
    case 5
    then show ?thesis using rec_ctr_segment [OF block(2) refl iv refl lay pol, of "file" P w pt j len need] r
      by (simp add: recover_one_range_def block(1) rk_whole_def mode_encrypt_def i)
  qed
next
  case (xts bc1 bc2)
  obtain j where i: "i = j * 16" using place(2) xts by (metis dvd_def mult.commute)
  have "org = 0" using place(1) xts by (simp add: place_ok_def)
  then show ?thesis
    using rec_xts_segment [OF xts(2-5), of "file" "rk_mode_params rk" P w pt j len need] ready xts
    by (simp add: i sar_encrypt_def recover_one_range_def rk_whole_def)
next
  case rc4
  then show ?thesis
    using rec_rc4_segment [of policy i org w "file" rk P pt len need] place(1) ready
    by (auto simp: sar_encrypt_def recover_one_range_def rk_whole_def place_ok_def policy_origin_def split: if_splits)
next
  case stream
  then show ?thesis
    using rec_stream_loop_segment [of rk policy origin org "file" P w pt i len need] place(1) ready
    by (simp add: sar_encrypt_def recover_one_range_def rk_whole_def place_ok_def rec_stream_def)
qed

lemma recover_one_range_whole:
  assumes "precheck rk = SAR_RECOVER_OK" "build_ciphers rk = Some cs" "key_ready rk"
  shows "recover_one_range rk policy cs w origin start (rk_whole rk len) pt =
    recover_one_range rk policy cs w origin start len pt"
proof -
  have "whole_blocks bs start (len div bs * bs) = whole_blocks bs start len" for bs
    by (cases "bs = 0") (simp_all add: whole_blocks_def)
  note whole = this
  from assms show ?thesis
  proof (cases rule: precheck_cases)
    case (block bc)
    then show ?thesis
      by (auto simp: recover_one_range_def rk_whole_def rec_ecb_def rec_cbc_def Let_def whole)
  next
    case (xts bc1 bc2)
    then show ?thesis using whole [of 16] by (simp add: recover_one_range_def rk_whole_def rec_xts_def)
  qed (simp_all add: rk_whole_def)
qed

lemma rk_unit_pos: "0 < rk_unit rk"
  by (simp add: rk_unit_def alg_block_def)

lemma rk_whole_idem: "rk_whole rk (rk_whole rk len) = rk_whole rk len"
  using rk_unit_pos [of rk] by (simp add: rk_whole_def)

lemma rk_whole_part:
  assumes "rk_unit rk dvd i" "i + len \<le> n"
  shows "i + rk_whole rk len \<le> rk_whole rk n"
proof -
  define u where "u = rk_unit rk"
  obtain j where i: "i = j * u" using assms(1) by (metis dvd_def mult.commute u_def)
  have "(j + len div u) * u \<le> n div u * u"
    using assms(2) rk_unit_pos [of rk] div_le_mono [OF assms(2), of u] unfolding i u_def
    by (intro mult_le_mono1) simp
  then show ?thesis
    using assms(2) i by (auto simp: rk_whole_def add_mult_distrib simp flip: u_def)
qed

text \<open>
  The general form: the part of a segment a range asks for may end in a partial block the mode left alone.
\<close>

lemma recover_one_range_part:
  assumes key: "precheck rk = SAR_RECOVER_OK" "build_ciphers rk = Some cs" "key_ready rk"
    and place: "place_ok rk policy origin org i w" "rk_unit rk dvd i" "i = 0 \<or> rk_unit rk \<le> need"
    and seg: "segment file org (sar_encrypt rk cs P)" "i + len \<le> length P"
    and win: "window_of file w" "w_base w \<le> org + i" "org + i - w_base w + len \<le> length pt"
      "window_lo w + need \<le> org + i" "org + i + len \<le> window_hi w"
  shows "recover_one_range rk policy cs w origin (org + i) len pt =
    Some (splice_at pt (org + i - w_base w) (slice P i (rk_whole rk len)))"
proof -
  have "i + rk_whole rk len \<le> length (sar_encrypt rk cs P)"
    using rk_whole_part [OF place(2) seg(2)] by (simp add: length_sar_encrypt [OF key])
  then have "range_ready file org (sar_encrypt rk cs P) w pt i (rk_whole rk len) need"
    using seg win rk_whole_le [of rk len] by (auto simp: range_ready_def)
  from recover_one_range_segment [OF key place this] show ?thesis
    by (simp add: recover_one_range_whole [OF key] rk_whole_idem)
qed

section \<open>Chunks\<close>

lemma recover_chunk_part:
  assumes "precheck rk = SAR_RECOVER_OK" "build_ciphers rk = Some cs" "key_ready rk"
    and "rk_algorithm rk \<noteq> SAR_ALG_RC4" "policy_origin policy (unat origin) org" "rk_mode rk = SAR_MODE_XTS \<longrightarrow> org = 0"
    and "segment file org (sar_encrypt rk cs P)" "unat start = org + i" "i + unat len \<le> length P"
    and "rk_unit rk dvd i" "0 < len" "origin \<le> start" "unat start + unat len \<le> unat file_size"
    and "window_of file w" "w_base w \<le> unat start" "unat start - w_base w + unat len \<le> length pt"
    and "window_lo w + (if i = 0 then 0 else rk_unit rk) \<le> unat start" "unat start + unat len \<le> window_hi w"
  shows "sar_recover_chunk rk policy w pt origin start len file_size =
    Some (SAR_RECOVER_OK, splice_at pt (unat start - w_base w) (slice P i (rk_whole rk (unat len))))"
proof -
  have "len \<noteq> 0" using assms(11) by auto
  moreover have "start \<le> file_size" using assms(13) by (simp add: word_le_nat_alt)
  moreover from this have "\<not> file_size - start < len"
    using assms(13) by (simp add: word_less_nat_alt unat_sub word_le_nat_alt)
  moreover have "recover_one_range rk policy cs w (unat origin) (org + i) (unat len) pt =
      Some (splice_at pt (org + i - w_base w) (slice P i (rk_whole rk (unat len))))"
  proof (rule recover_one_range_part [OF assms(1-3) _ assms(10) _ assms(7,9,14)])
    show "place_ok rk policy (unat origin) org i w" using assms(4-6) by (simp add: place_ok_def)
    show "window_lo w + (if i = 0 then 0 else rk_unit rk) \<le> org + i" using assms(8,17) by simp
  qed (use assms(8,15,16,18) in auto)
  ultimately show ?thesis
    using assms(1,2,4,8,12) by (simp add: sar_recover_chunk_def not_less leD)
qed

text \<open>
  C13: recovery in chunks. A segment of a file, starting where the counter policy puts it, holds the encryption of a
  plaintext under a key of any cipher but RC4; in XTS the segment starts with the file. Decrypting a block-aligned part of it through any window of the file that shows the part
  and the block before it gives status OK, and writes the plaintext of the whole blocks of that part, and
  nothing else, into the output. So a file decrypted chunk by chunk gets the same bytes as one decrypted at once.
\<close>

theorem recover_chunk_plaintext:
  assumes "precheck rk = SAR_RECOVER_OK" "build_ciphers rk = Some cs" "key_ready rk"
    and "rk_algorithm rk \<noteq> SAR_ALG_RC4" "policy_origin policy (unat origin) org" "rk_mode rk = SAR_MODE_XTS \<longrightarrow> org = 0"
    and "segment file org (sar_encrypt rk cs P)" "unat start = org + i" "i + unat len \<le> length P"
    and "rk_unit rk dvd i" "0 < len" "origin \<le> start" "unat start + unat len \<le> unat file_size"
    and "window_of file w" "w_base w \<le> unat start" "unat start - w_base w + unat len \<le> length pt"
    and "window_lo w + (if i = 0 then 0 else rk_unit rk) \<le> unat start" "unat start + unat len \<le> window_hi w"
  shows "sar_recover_chunk rk policy w pt origin start len file_size =
    Some (SAR_RECOVER_OK, splice_at pt (unat start - w_base w) (slice P i (rk_whole rk (unat len))))"
  by (rule recover_chunk_part [OF assms])

section \<open>Whole files and ranges\<close>

text \<open>
  A file some ranges of which were encrypted, each on its own: outside the encrypted blocks it is the plaintext.
\<close>

definition partly_encrypted ::
  "sar_recovery_key \<Rightarrow> rec_ciphers \<Rightarrow> sar_range list \<Rightarrow> bytes \<Rightarrow> bytes \<Rightarrow> bool" where
  "partly_encrypted rk cs rs P ct \<longleftrightarrow>
     length ct = length P \<and>
     (\<forall>r\<in>set rs. segment ct (unat (rg_offset r))
        (sar_encrypt rk cs (slice P (unat (rg_offset r)) (unat (rg_length r))))) \<and>
     (\<forall>i<length P. (\<forall>r\<in>set rs. \<not> (unat (rg_offset r) \<le> i \<and>
          i < unat (rg_offset r) + rk_whole rk (unat (rg_length r)))) \<longrightarrow> ct ! i = P ! i)"

text \<open>
  A loop whose steps each write a part of the plaintext leaves the plaintext wherever it wrote.
\<close>

lemma fold_opt_restore:
  assumes "\<And>r pt. r \<in> set rs \<Longrightarrow> length pt = length P \<Longrightarrow> step r pt = Some (splice_at pt (a r) (slice P (a r) (n r)))"
    and "\<And>r. r \<in> set rs \<Longrightarrow> a r + n r \<le> length P"
  shows "length pt = length P \<Longrightarrow> \<exists>pt'. fold_opt step rs pt = Some pt' \<and> length pt' = length P \<and>
    (\<forall>i<length P. pt' ! i = (if \<exists>r\<in>set rs. a r \<le> i \<and> i < a r + n r then P ! i else pt ! i))"
  using assms
proof (induction rs arbitrary: pt)
  case (Cons r rs)
  define pt1 where "pt1 = splice_at pt (a r) (slice P (a r) (n r))"
  have fits: "a r + n r \<le> length P" using Cons.prems(3) by simp
  have len: "length pt1 = length P" using Cons.prems(1) fits by (simp add: pt1_def)
  then obtain pt' where pt': "fold_opt step rs pt1 = Some pt'" "length pt' = length P"
    "\<forall>i<length P. pt' ! i = (if \<exists>r\<in>set rs. a r \<le> i \<and> i < a r + n r then P ! i else pt1 ! i)"
    using Cons.IH [of pt1] Cons.prems(2,3) by auto
  have "pt1 ! i = (if a r \<le> i \<and> i < a r + n r then P ! i else pt ! i)" if "i < length P" for i
    using that Cons.prems(1) fits by (auto simp: pt1_def nth_splice_at nth_slice)
  then show ?case using pt' Cons.prems(1,2) by (auto simp: pt1_def)
qed simp

abbreviation whole_window :: "bytes \<Rightarrow> sar_window" where
  "whole_window ct \<equiv> \<lparr>w_bytes = ct, w_before = 0, w_base = 0\<rparr>"

lemma whole_file_window [simp]:
  "window_of ct (whole_window ct)" "window_lo (whole_window ct) = 0" "window_hi (whole_window ct) = length ct"
  using slice_0_length [of ct] by (simp_all add: window_of_def window_lo_def window_hi_def del: slice_0_length)

lemma recover_ranges_restore:
  assumes key: "precheck rk = SAR_RECOVER_OK" "build_ciphers rk = Some cs"
    and size: "unat file_size = length P" "length ct = length P"
    and fits: "\<And>r. r \<in> set rs \<Longrightarrow> unat (rg_offset r) + unat (rg_length r) \<le> length P"
    and one: "\<And>r pt. r \<in> set rs \<Longrightarrow> length pt = length P \<Longrightarrow>
      recover_one_range rk policy cs (whole_window ct) (unat (rg_offset r)) (unat (rg_offset r)) (unat (rg_length r)) pt =
        Some (splice_at pt (unat (rg_offset r)) (slice P (unat (rg_offset r)) (rk_whole rk (unat (rg_length r)))))"
    and outside: "\<And>i. i < length P \<Longrightarrow> \<forall>r\<in>set rs. \<not> (unat (rg_offset r) \<le> i \<and>
      i < unat (rg_offset r) + rk_whole rk (unat (rg_length r))) \<Longrightarrow> ct ! i = P ! i"
  shows "recover_ranges_into rk rs policy (whole_window ct) ct file_size = Some (SAR_RECOVER_OK, P)"
proof -
  define step where "step = (\<lambda>(r :: sar_range) pt. let start = rg_offset r; len = rg_length r
    in if start > file_size \<or> file_size - start < len then Some pt
       else recover_one_range rk policy cs (whole_window ct) (unat start) (unat start) (unat len) pt)"
  have step: "step r pt = Some (splice_at pt (unat (rg_offset r))
      (slice P (unat (rg_offset r)) (rk_whole rk (unat (rg_length r)))))"
    if r: "r \<in> set rs" "length pt = length P" for r pt
  proof -
    have le: "rg_offset r \<le> file_size" using fits [OF r(1)] by (simp add: word_le_nat_alt size)
    then have "\<not> file_size - rg_offset r < rg_length r"
      using fits [OF r(1)] by (simp add: word_less_nat_alt unat_sub size)
    with le show ?thesis using one [OF r] by (simp add: step_def Let_def not_less leD)
  qed
  have "unat (rg_offset r) + rk_whole rk (unat (rg_length r)) \<le> length P" if "r \<in> set rs" for r
    using fits [OF that] rk_whole_le [of rk "unat (rg_length r)"] by linarith
  with fold_opt_restore [of rs P step "\<lambda>r. unat (rg_offset r)" "\<lambda>r. rk_whole rk (unat (rg_length r))" ct] step size
  obtain pt' where pt': "fold_opt step rs ct = Some pt'" "length pt' = length P"
    "\<forall>i<length P. pt' ! i = (if \<exists>r\<in>set rs. unat (rg_offset r) \<le> i \<and> i < unat (rg_offset r) + rk_whole rk (unat (rg_length r))
       then P ! i else ct ! i)"
    by blast
  have "pt' = P" using pt'(2,3) outside by (intro nth_equalityI) auto
  then show ?thesis using key pt'(1) by (simp add: recover_ranges_into_def step_def)
qed

text \<open>
  C12: recovery of a partially encrypted file, in every mode but XTS. Whatever the geometry of the attack, when it expands
  to a list of ranges, its policy resets the counter at each range, and the file holds each of these ranges encrypted on
  its own and the plaintext elsewhere, recovery returns OK and exactly the original file. (The XTS routine takes the data
  unit from the place in the file and has no reset.)
\<close>

theorem recover_buffer_partial:
  assumes "precheck rk = SAR_RECOVER_OK" "build_ciphers rk = Some cs" "key_ready rk" "rk_mode rk \<noteq> SAR_MODE_XTS"
    and "sar_geometry_expand (Some g) (word_of_nat (length P)) SAR_MAX_RANGES = Some rs"
    and "ge_counter_policy g = SAR_CTR_RESET_PER_CHUNK"
    and "partly_encrypted rk cs rs P ct" "length P < 2 ^ 64" "length pt = length P"
  shows "sar_recover_buffer rk (Some g) ct pt (word_of_nat (length P)) = Some (SAR_RECOVER_OK, P)"
proof -
  have size: "unat (word_of_nat (length P) :: u64) = length P"
    using assms(8) by (simp add: unat_of_nat take_bit_nat_eq_self)
  have ct: "length ct = length P" using assms(7) by (simp add: partly_encrypted_def)
  have fits: "unat (rg_offset r) + unat (rg_length r) \<le> length P" if "r \<in> set rs" for r
    using that sar_geometry_expand_ok [OF assms(5)] by (auto simp: ranges_ok_def list_all_iff range_in_file_def size)
  have "recover_ranges_into rk rs SAR_CTR_RESET_PER_CHUNK (whole_window ct) ct (word_of_nat (length P)) =
      Some (SAR_RECOVER_OK, P)"
  proof (rule recover_ranges_restore [OF assms(1,2) size ct fits])
    fix r and pt' :: bytes assume r: "r \<in> set rs" and len: "length pt' = length P"
    let ?a = "unat (rg_offset r)" and ?n = "unat (rg_length r)"
    have "recover_one_range rk SAR_CTR_RESET_PER_CHUNK cs (whole_window ct) ?a (?a + 0) ?n pt' =
        Some (splice_at pt' (?a + 0 - w_base (whole_window ct)) (slice (slice P ?a ?n) 0 (rk_whole rk ?n)))"
    proof (rule recover_one_range_part [OF assms(1-3), where need = 0])
      show "segment ct ?a (sar_encrypt rk cs (slice P ?a ?n))"
        using assms(7) r by (simp add: partly_encrypted_def)
    qed (use assms(4) fits [OF r] len ct in \<open>simp_all add: place_ok_def policy_origin_def\<close>)
    then show "recover_one_range rk SAR_CTR_RESET_PER_CHUNK cs (whole_window ct) ?a ?a ?n pt' =
        Some (splice_at pt' ?a (slice P ?a (rk_whole rk ?n)))"
      using rk_whole_le [of rk ?n] by (simp add: slice_slice)
  qed (use assms(7) in \<open>simp_all add: partly_encrypted_def\<close>)
  moreover have "sar_memcpy pt ct (length P) = ct" using ct assms(9) by (simp add: sar_memcpy_exact)
  ultimately show ?thesis using assms(5,6) by (simp add: sar_recover_buffer_def size)
qed

definition sar_encrypt_file :: "sar_recovery_key \<Rightarrow> rec_ciphers \<Rightarrow> bytes \<Rightarrow> bytes" where
  "sar_encrypt_file rk cs P = sar_encrypt rk cs P @ drop (rk_whole rk (length P)) P"

text \<open>
  C1: recovery of a whole file. For every algorithm and every mode the engine convicts, and every key whose
  lengths fit, decrypting the encryption of a file without a geometry returns OK and exactly the file.
\<close>

theorem recover_buffer_whole:
  assumes "precheck rk = SAR_RECOVER_OK" "build_ciphers rk = Some cs" "key_ready rk"
    and "length P < 2 ^ 64" "length pt = length P"
  shows "sar_recover_buffer rk None (sar_encrypt_file rk cs P) pt (word_of_nat (length P)) = Some (SAR_RECOVER_OK, P)"
proof (cases "P = []")
  case True
  then show ?thesis using assms
    by (simp add: sar_recover_buffer_def sar_geometry_expand_def recover_ranges_into_def sar_memcpy_def)
next
  case False
  let ?ct = "sar_encrypt_file rk cs P" and ?fs = "word_of_nat (length P) :: u64"
  let ?r = "\<lparr>rg_offset = 0, rg_length = ?fs\<rparr>"
  have size: "unat ?fs = length P" using assms(4) by (simp add: unat_of_nat take_bit_nat_eq_self)
  have C: "length (sar_encrypt rk cs P) = rk_whole rk (length P)" by (rule length_sar_encrypt [OF assms(1-3)])
  then have ct: "length ?ct = length P" using rk_whole_le [of rk "length P"] by (simp add: sar_encrypt_file_def)
  have "recover_ranges_into rk [?r] SAR_CTR_CONTINUOUS (whole_window ?ct) ?ct ?fs = Some (SAR_RECOVER_OK, P)"
  proof (rule recover_ranges_restore [OF assms(1,2) size ct])
    fix r and pt' :: bytes assume "r \<in> set [?r]" and len: "length pt' = length P"
    moreover have "recover_one_range rk SAR_CTR_CONTINUOUS cs (whole_window ?ct) 0 (0 + 0) (length P) pt' =
        Some (splice_at pt' (0 + 0 - w_base (whole_window ?ct)) (slice P 0 (rk_whole rk (length P))))"
    proof (rule recover_one_range_part [OF assms(1-3), where need = 0])
      show "segment ?ct 0 (sar_encrypt rk cs P)" by (simp add: segment_def sar_encrypt_file_def slice_def)
    qed (use len ct in \<open>simp_all add: place_ok_def policy_origin_def SAR_CTR_CONTINUOUS_def
        SAR_CTR_RESET_PER_CHUNK_def\<close>)
    ultimately show "recover_one_range rk SAR_CTR_CONTINUOUS cs (whole_window ?ct) (unat (rg_offset r))
        (unat (rg_offset r)) (unat (rg_length r)) pt' =
        Some (splice_at pt' (unat (rg_offset r)) (slice P (unat (rg_offset r)) (rk_whole rk (unat (rg_length r)))))"
      by (simp add: size)
  next
    fix i assume "i < length P" "\<forall>r\<in>set [?r]. \<not> (unat (rg_offset r) \<le> i \<and> i < unat (rg_offset r) + rk_whole rk (unat (rg_length r)))"
    then show "?ct ! i = P ! i" using C by (simp add: size sar_encrypt_file_def nth_append)
  qed (simp add: size)
  moreover have "?fs \<noteq> 0" using False size by (metis length_0_conv unat_0)
  moreover have "sar_memcpy pt ?ct (length P) = ?ct" using ct assms(5) by (simp add: sar_memcpy_exact)
  ultimately show ?thesis
    by (simp add: sar_recover_buffer_def sar_geometry_expand_def range_emit_def size SAR_MAX_RANGES_def)
qed

text \<open>
  C40: a range that starts inside the first block. Under CBC or CFB, with the continuous counter policy, the block
  before the first one of a range of at least a block at an offset below the block size would lie before the buffer: the
  code reads there, which the model shows as an access out of bounds. (With a reset per range the initialisation vector
  is used instead, and nothing before the buffer is read.)
\<close>

theorem recover_buffer_reads_before:
  assumes "precheck rk = SAR_RECOVER_OK" "build_ciphers rk = Some cs" "key_ready rk"
    and "rk_mode rk = SAR_MODE_CBC \<or> rk_mode rk = SAR_MODE_CFB"
    and "sar_geometry_expand (Some g) file_size SAR_MAX_RANGES = Some (r # rs)"
    and "ge_counter_policy g = SAR_CTR_CONTINUOUS"
    and "0 < rg_offset r" "unat (rg_offset r) < rk_unit rk" "rk_unit rk \<le> unat (rg_length r)"
  shows "sar_recover_buffer rk (Some g) ct pt file_size = None"
  using assms(1-3)
proof (cases rule: precheck_cases)
  case (block bc)
  let ?w = "whole_window ct" and ?o = "unat (rg_offset r)" and ?n = "unat (rg_length r)" and ?bs = "bc_block_size bc"
  have o: "0 < ?o" "?o < ?bs" using assms(7,8) block(3) by (simp_all add: word_less_nat_alt)
  have fits: "?o + ?n \<le> unat file_size"
    using sar_geometry_expand_ok [OF assms(5)] by (simp add: ranges_ok_def range_in_file_def)
  then have le: "rg_offset r \<le> file_size" by (simp add: word_le_nat_alt)
  have "unat (file_size - rg_offset r) = unat file_size - ?o" using le by (rule unat_sub)
  then have len: "\<not> file_size - rg_offset r < rg_length r" using fits by (simp add: word_less_nat_alt)
  have prev: "range_iv_block rk SAR_CTR_CONTINUOUS ?o ?o ?bs ?w = None"
    using o by (simp add: range_iv_block_def ct_read_def SAR_CTR_CONTINUOUS_def SAR_CTR_RESET_PER_CHUNK_def)
  have "0 < ?n div ?bs" using assms(9) block(3) o by (simp add: div_greater_zero_iff)
  then obtain k where "?n div ?bs = Suc k" by (auto simp: gr0_conv_Suc)
  then obtain ps where "whole_blocks ?bs ?o ?n = ?o # ps" by (simp add: whole_blocks_def upt_conv_Cons del: upt_Suc)
  then have "recover_one_range rk SAR_CTR_CONTINUOUS cs ?w ?o ?o ?n pt' = None" for pt'
    using assms(4) block(1)
    by (auto simp: recover_one_range_def rec_cbc_def rec_cfb_def cfb_chunk_def Let_def prev)
  then show ?thesis
    using assms(1,2,5,6) le len by (simp add: sar_recover_buffer_def recover_ranges_into_def Let_def leD not_less)
qed (use assms(4) in auto)

section \<open>Witnesses\<close>

definition example_cbc_key :: sar_recovery_key where
  "example_cbc_key = \<lparr>rk_algorithm = SAR_ALG_SM4, rk_mode = SAR_MODE_CBC, rk_key_length = 16, rk_key = replicate 16 1,
     rk_mode_params = 0, rk_iv = replicate 16 7, rk_iv_length = 16, rk_ctr_layout_tag = 0\<rparr>"

definition example_ciphers :: rec_ciphers where
  "example_ciphers = One_Cipher \<lparr>bc_encrypt = sm4_encrypt_block (sm4_key_schedule (replicate 16 1)),
     bc_decrypt = sm4_decrypt_block (sm4_key_schedule (replicate 16 1)), bc_block_size = 16\<rparr>"

lemma example_cbc_key_ok:
  "precheck example_cbc_key = SAR_RECOVER_OK" "build_ciphers example_cbc_key = Some example_ciphers"
  "key_ready example_cbc_key" "rk_unit example_cbc_key = 16" "rk_mode example_cbc_key = SAR_MODE_CBC"
  "rk_algorithm example_cbc_key \<noteq> SAR_ALG_RC4"
  by (simp_all add: example_cbc_key_def example_ciphers_def precheck_def build_ciphers_def key_ready_def
      is_block_alg_def make_block_def rk_unit_def alg_block_def aes_key_ok_def is_aes_alg_def Let_def sar_alg_defs)

theorem recover_buffer_whole_witness:
  "sar_recover_buffer example_cbc_key None (sar_encrypt_file example_cbc_key example_ciphers (map word_of_nat [0..<45]))
     (replicate 45 0) 45 = Some (SAR_RECOVER_OK, (map word_of_nat [0..<45]))"
  using recover_buffer_whole [OF example_cbc_key_ok(1-3), of "map word_of_nat [0..<45]" "replicate 45 0"] by simp

definition example_head :: sar_geometry where
  "example_head = \<lparr>ge_mode = SAR_GEOM_HEAD, ge_head_bytes = 32, ge_chunk_bytes = 0, ge_stride_bytes = 0,
     ge_percent = 0, ge_block_count = 0, ge_counter_policy = SAR_CTR_RESET_PER_CHUNK, ge_ranges = None,
     ge_range_count = 0\<rparr>"

theorem recover_buffer_partial_witness:
  "sar_recover_buffer example_cbc_key (Some example_head)
     (sar_encrypt example_cbc_key example_ciphers (replicate 32 5) @ replicate 13 9) (replicate 45 0) 45 =
   Some (SAR_RECOVER_OK, replicate 32 5 @ replicate 13 9)"
proof -
  let ?P = "replicate 32 5 @ replicate 13 9 :: bytes"
  let ?r = "\<lparr>rg_offset = 0, rg_length = 32\<rparr> :: sar_range"
  let ?C = "sar_encrypt example_cbc_key example_ciphers (replicate 32 5)"
  have C: "length ?C = 32"
    by (simp add: length_sar_encrypt [OF example_cbc_key_ok(1-3)] rk_whole_def example_cbc_key_ok)
  have geom: "sar_geometry_expand (Some example_head) (word_of_nat (length ?P)) SAR_MAX_RANGES = Some [?r]"
    by (simp add: sar_geometry_expand_def example_head_def range_emit_def SAR_MAX_RANGES_def SAR_GEOM_HEAD_def
        SAR_GEOM_FULL_def)
  have "partly_encrypted example_cbc_key example_ciphers [?r] ?P (?C @ replicate 13 9)"
    using C by (auto simp: partly_encrypted_def segment_def slice_def nth_append rk_whole_def example_cbc_key_ok)
  from recover_buffer_partial [OF example_cbc_key_ok(1-3) _ geom _ this] show ?thesis
    by (simp add: example_cbc_key_ok example_head_def)
qed

theorem recover_chunk_plaintext_witness:
  "sar_recover_chunk example_cbc_key SAR_CTR_CONTINUOUS
     (whole_window (sar_encrypt example_cbc_key example_ciphers (replicate 48 5))) (replicate 48 0) 0 16 32 48 =
   Some (SAR_RECOVER_OK, replicate 16 0 @ replicate 32 5)"
proof -
  let ?C = "sar_encrypt example_cbc_key example_ciphers (replicate 48 5)"
  have C: "length ?C = 48"
    by (simp add: length_sar_encrypt [OF example_cbc_key_ok(1-3)] rk_whole_def example_cbc_key_ok)
  have "segment ?C 0 ?C" by (simp add: segment_def)
  from recover_chunk_plaintext [OF example_cbc_key_ok(1-3,6) _ _ this, of SAR_CTR_CONTINUOUS 0 16 16 32 48
      "whole_window ?C" "replicate 48 0"] C
  show ?thesis
    by (simp add: example_cbc_key_ok policy_origin_def SAR_CTR_CONTINUOUS_def SAR_CTR_RESET_PER_CHUNK_def
        rk_whole_def splice_at_def slice_def)
qed

theorem recover_buffer_reads_before_witness:
  "sar_recover_buffer example_cbc_key
     (Some (example_head\<lparr>ge_mode := SAR_GEOM_EXPLICIT, ge_counter_policy := SAR_CTR_CONTINUOUS,
        ge_ranges := Some [\<lparr>rg_offset = 5, rg_length = 16\<rparr>], ge_range_count := 1\<rparr>)) (replicate 45 0) (replicate 45 0) 45 = None"
proof -
  let ?g = "example_head\<lparr>ge_mode := SAR_GEOM_EXPLICIT, ge_counter_policy := SAR_CTR_CONTINUOUS,
        ge_ranges := Some [\<lparr>rg_offset = 5, rg_length = 16\<rparr>], ge_range_count := 1\<rparr>"
  have "sar_geometry_expand (Some ?g) 45 SAR_MAX_RANGES = Some [\<lparr>rg_offset = 5, rg_length = 16\<rparr>]"
    by (simp add: sar_geometry_expand_def example_head_def range_emit_def SAR_MAX_RANGES_def SAR_GEOM_HEAD_def
        SAR_GEOM_FULL_def SAR_GEOM_STRIDE_def SAR_GEOM_PERCENT_def SAR_GEOM_EXPLICIT_def)
  from recover_buffer_reads_before [OF example_cbc_key_ok(1-3) _ this] show ?thesis
    by (simp add: example_cbc_key_ok)
qed

end
