(* ===== verification/Gate.thy ===== *)
theory Gate
  imports Sar_Prelude
begin

text \<open>
  The novelty gate (\<^verbatim>\<open>engine/src/gate.c\<close>): before the battery is run on a write, each block of 256 bytes is
  searched for bigrams (pairs of adjacent bytes) that the original block did not have. The set of bigrams of the
  original is a bitmap of 65536 bits in a caller-supplied scratch buffer.

  The theorems compute the counts in terms of the bigrams themselves, state exactly when a block fires with the
  arithmetic done at its 32-bit width, and give the reported range in closed form.
\<close>

section \<open>The bitmap\<close>

definition SAR_GATE_BLOCK_SIZE :: nat where "SAR_GATE_BLOCK_SIZE = 256"
definition SAR_GATE_THETA_NUM :: u32 where "SAR_GATE_THETA_NUM = 10"
definition SAR_GATE_THETA_DEN :: u32 where "SAR_GATE_THETA_DEN = 100"
definition SAR_GATE_MIN_NOVELTY_BIGRAMS :: u32 where "SAR_GATE_MIN_NOVELTY_BIGRAMS = 12"
definition SAR_GATE_MAP_BYTES :: nat where "SAR_GATE_MAP_BYTES = 2 ^ 16 div 8"

record sar_gate_map =
  gm_present :: bytes

record sar_gate_result =
  gr_candidate :: bool
  gr_novelty_off :: u32
  gr_novelty_len :: u32

definition gate_pair :: "bytes \<Rightarrow> nat \<Rightarrow> u32" where
  "gate_pair b i = push_bit 8 (ucast (b ! i)) OR ucast (b ! (i + 1))"

definition gate_set :: "u32 \<Rightarrow> bytes \<Rightarrow> bytes" where
  "gate_set pair present =
     (let byte = unat (drop_bit 3 pair)
      in present[byte := present ! byte OR push_bit (unat (pair AND 7)) 1])"

definition map_build_overlapping :: "sar_gate_map \<Rightarrow> bytes \<Rightarrow> nat \<Rightarrow> sar_gate_map" where
  "map_build_overlapping m original block_len =
     (let zero = sar_memset (gm_present m) 0 SAR_GATE_MAP_BYTES
      in if block_len < 2 then m\<lparr>gm_present := zero\<rparr>
         else m\<lparr>gm_present := fold (\<lambda>i. gate_set (gate_pair original i)) [0..<block_len - 1] zero\<rparr>)"

definition gate_test :: "bytes \<Rightarrow> u32 \<Rightarrow> bool" where
  "gate_test present pair \<longleftrightarrow> drop_bit (unat (pair AND 7)) (present ! unat (drop_bit 3 pair)) AND 1 \<noteq> 0"

definition gate_same :: "bytes \<Rightarrow> bytes \<Rightarrow> nat \<Rightarrow> bool" where
  "gate_same original written k \<longleftrightarrow> written ! k = original ! k \<and> written ! (k + 1) = original ! (k + 1)"

definition gate_count_step :: "bytes \<Rightarrow> bytes \<Rightarrow> bytes \<Rightarrow> nat \<Rightarrow> u32 \<times> u32 \<Rightarrow> u32 \<times> u32" where
  "gate_count_step present original written k = (\<lambda>(nq, nc).
     if gate_same original written k then (nq, nc)
     else (nq + 1, if gate_test present (gate_pair written k) then nc + 1 else nc))"

definition sar_gate_block_counts ::
  "sar_gate_map \<Rightarrow> bytes \<Rightarrow> bytes \<Rightarrow> nat \<Rightarrow> sar_gate_map \<times> u32 \<times> u32" where
  "sar_gate_block_counts scratch original written block_len =
     (let scratch = map_build_overlapping scratch original block_len
      in (scratch, fold (gate_count_step (gm_present scratch) original written) [0..<block_len - 1] (0, 0)))"

definition sar_gate_fires :: "u32 \<Rightarrow> u32 \<Rightarrow> bool" where
  "sar_gate_fires n_query n_covered =
     (if n_query = 0 then False
      else
        let novel = n_query - n_covered
        in if novel < SAR_GATE_MIN_NOVELTY_BIGRAMS then False
           else novel * SAR_GATE_THETA_DEN \<ge> n_query * SAR_GATE_THETA_NUM)"

definition gate_block_len :: "nat \<Rightarrow> nat \<Rightarrow> nat" where
  "gate_block_len len off =
     (let block_len = len - off in if block_len > SAR_GATE_BLOCK_SIZE then SAR_GATE_BLOCK_SIZE else block_len)"

text \<open>
  One turn of the loop over the blocks: the scratch map, whether a block has fired, the offset of the first that
  did and the end of the last.
\<close>

definition gate_classify_step ::
  "bytes \<Rightarrow> bytes \<Rightarrow> nat \<Rightarrow> nat \<Rightarrow> sar_gate_map \<times> bool \<times> nat \<times> nat \<Rightarrow> sar_gate_map \<times> bool \<times> nat \<times> nat" where
  "gate_classify_step original written len off = (\<lambda>(scratch, seen, first, last).
     let block_len = gate_block_len len off;
         (scratch, nq, nc) = sar_gate_block_counts scratch (drop off original) (drop off written) block_len
     in if sar_gate_fires nq nc then (scratch, True, if seen then first else off, off + block_len)
        else (scratch, seen, first, last))"

definition sar_gate_classify :: "sar_gate_map \<Rightarrow> bytes \<Rightarrow> bytes \<Rightarrow> nat \<Rightarrow> sar_gate_map \<times> sar_gate_result" where
  "sar_gate_classify scratch original written len =
     (let (scratch, seen, first, last) =
        fold (gate_classify_step original written len)
          (map (\<lambda>k. k * SAR_GATE_BLOCK_SIZE) [0..<(len + SAR_GATE_BLOCK_SIZE - 1) div SAR_GATE_BLOCK_SIZE])
          (scratch, False, 0, 0)
      in (scratch,
          if seen then \<lparr>gr_candidate = True, gr_novelty_off = word_of_nat first, gr_novelty_len = word_of_nat (last - first)\<rparr>
          else \<lparr>gr_candidate = False, gr_novelty_off = 0, gr_novelty_len = 0\<rparr>))"

section \<open>Lemmas\<close>

lemma gate_pair_eq_iff:
  assumes "a = gate_pair x i" "b = gate_pair y j"
  shows "a = b \<longleftrightarrow> x ! i = y ! j \<and> x ! (i + 1) = y ! (j + 1)"
proof
  assume ab: "a = b"
  have hi: "ucast (drop_bit 8 (gate_pair z k)) = z ! k" and lo: "ucast (gate_pair z k) = z ! (k + 1)" for z k
    by (rule bit_word_eqI, auto simp: gate_pair_def bit_simps dest: bit_imp_le_length)+
  show "x ! i = y ! j \<and> x ! (i + 1) = y ! (j + 1)"
    using ab assms hi [of x i] hi [of y j] lo [of x i] lo [of y j] by metis
qed (use assms in \<open>simp add: gate_pair_def\<close>)

lemma two_16: "(2 :: nat) ^ 16 = 65536"
  by simp

lemma gate_pair_less: "unat (gate_pair b i) < 65536"
proof -
  have "take_bit 16 (gate_pair b i) = gate_pair b i"
    by (rule bit_word_eqI) (auto simp: gate_pair_def bit_simps dest: bit_imp_le_length)
  then show ?thesis
    by (metis take_bit_nat_less_exp unsigned_take_bit_eq two_16)
qed

lemma gate_pair_split:
  "unat (drop_bit 3 pair) = unat pair div 8" "unat (pair AND 7) = unat pair mod 8" for pair :: u32
proof -
  have "unat (drop_bit 3 pair) = drop_bit 3 (take_bit 32 (unat pair))"
    by (simp only: unsigned_drop_bit_eq) simp
  moreover have "take_bit 32 (unat pair) = unat pair"
  proof (rule take_bit_nat_eq_self)
    show "unat pair < 2 ^ 32" using unsigned_less [of pair] by simp
  qed
  ultimately show "unat (drop_bit 3 pair) = unat pair div 8" by (simp add: drop_bit_eq_div)
  have "unat (pair AND 7) = take_bit 3 (unat pair)"
    using unsigned_take_bit_eq [of 3 pair, where 'a = nat] by (simp add: take_bit_eq_mask mask_numeral)
  then show "unat (pair AND 7) = unat pair mod 8" by (simp add: take_bit_eq_mod)
qed

lemma gate_test_bit: "gate_test present pair \<longleftrightarrow> bit (present ! (unat pair div 8)) (unat pair mod 8)"
  unfolding gate_test_def gate_pair_split
  by (simp add: and_one_eq bit_iff_odd_drop_bit odd_iff_mod_2_eq_one)

lemma gate_set_eq:
  "gate_set pair present =
     present[unat pair div 8 := present ! (unat pair div 8) OR push_bit (unat pair mod 8) 1]"
  unfolding gate_set_def gate_pair_split Let_def ..

lemma gate_test_set:
  assumes "length present = 8192" "unat p < 65536"
  shows "gate_test (gate_set p present) q \<longleftrightarrow> q = p \<or> gate_test present q"
proof (cases "unat q div 8 = unat p div 8")
  case True
  have "q = p \<longleftrightarrow> unat q mod 8 = unat p mod 8"
    using True by (metis div_mult_mod_eq word_unat_eq_iff)
  moreover have "bit (push_bit (unat p mod 8) 1 :: u8) (unat q mod 8) \<longleftrightarrow> unat q mod 8 = unat p mod 8"
    by (auto simp: bit_simps)
  moreover have "unat p div 8 < length present" using assms by simp
  ultimately show ?thesis using True by (auto simp: gate_test_bit gate_set_eq bit_or_iff)
next
  case False
  then show ?thesis by (auto simp: gate_test_bit gate_set_eq)
qed

lemma length_gate_set [simp, sar_len]: "length (gate_set p m) = length m"
  by (simp add: gate_set_def Let_def)

lemma gate_build:
  assumes "length (gm_present m) = SAR_GATE_MAP_BYTES" "unat q < 65536"
  shows "gate_test (gm_present (map_build_overlapping m original n)) q \<longleftrightarrow>
    (\<exists>i<n - 1. q = gate_pair original i)"
    and "length (gm_present (map_build_overlapping m original n)) = SAR_GATE_MAP_BYTES"
proof -
  define zero :: bytes where "zero = sar_memset (gm_present m) 0 SAR_GATE_MAP_BYTES"
  have zero: "length zero = 8192" "\<not> gate_test zero q"
    using assms by (auto simp: zero_def sar_memset_def SAR_GATE_MAP_BYTES_def gate_test_bit)
  have present: "gm_present (map_build_overlapping m original n) =
      fold (\<lambda>i. gate_set (gate_pair original i)) [0..<n - 1] zero"
    by (simp add: map_build_overlapping_def Let_def zero_def)
  have len: "length (fold (\<lambda>i. gate_set (gate_pair original i)) [0..<k] zero) = 8192" for k
    by (induction k) (simp_all add: zero)
  have "gate_test (fold (\<lambda>i. gate_set (gate_pair original i)) [0..<k] zero) q \<longleftrightarrow> (\<exists>i<k. q = gate_pair original i)" for k
    by (induction k) (auto simp: zero gate_test_set len gate_pair_less less_Suc_eq)
  then show "gate_test (gm_present (map_build_overlapping m original n)) q \<longleftrightarrow> (\<exists>i<n - 1. q = gate_pair original i)"
    by (simp add: present)
  show "length (gm_present (map_build_overlapping m original n)) = SAR_GATE_MAP_BYTES"
    by (simp add: present len SAR_GATE_MAP_BYTES_def)
qed

text \<open>
  The bigrams of a written block that differ in place from the original, and those among them the original block
  has nowhere.
\<close>

definition gate_changed :: "bytes \<Rightarrow> bytes \<Rightarrow> nat \<Rightarrow> nat list" where
  "gate_changed original written n = filter (\<lambda>k. \<not> gate_same original written k) [0..<n - 1]"

definition gate_novel :: "bytes \<Rightarrow> bytes \<Rightarrow> nat \<Rightarrow> nat list" where
  "gate_novel original written n =
     filter (\<lambda>k. \<not> list_ex (\<lambda>i. original ! i = written ! k \<and> original ! (i + 1) = written ! (k + 1)) [0..<n - 1])
       (gate_changed original written n)"

lemma gate_count_fold:
  "fold (gate_count_step present original written) ks (nq, nc) =
     (nq + word_of_nat (length (filter (\<lambda>k. \<not> gate_same original written k) ks)),
      nc + word_of_nat (length (filter (\<lambda>k. gate_test present (gate_pair written k))
        (filter (\<lambda>k. \<not> gate_same original written k) ks))))"
  by (induction ks arbitrary: nq nc) (simp_all add: gate_count_step_def add.assoc)

lemma gate_counts:
  assumes "length (gm_present scratch) = SAR_GATE_MAP_BYTES"
    and "sar_gate_block_counts scratch original written n = (scratch', nq, nc)"
  shows "nq = word_of_nat (length (gate_changed original written n))"
    and "nc = word_of_nat (length (gate_changed original written n) - length (gate_novel original written n))"
    and "length (gm_present scratch') = SAR_GATE_MAP_BYTES"
proof -
  let ?m = "map_build_overlapping scratch original n"
  have "gate_test (gm_present ?m) (gate_pair written k) \<longleftrightarrow>
      list_ex (\<lambda>i. original ! i = written ! k \<and> original ! (i + 1) = written ! (k + 1)) [0..<n - 1]" for k
    using gate_pair_eq_iff [OF refl refl, of written k original]
    by (auto simp: gate_build(1) [OF assms(1) gate_pair_less] list_ex_iff)
  then have covered: "filter (\<lambda>k. gate_test (gm_present ?m) (gate_pair written k)) (gate_changed original written n) =
      filter (\<lambda>k. list_ex (\<lambda>i. original ! i = written ! k \<and> original ! (i + 1) = written ! (k + 1)) [0..<n - 1])
        (gate_changed original written n)" by simp
  have "length (filter (\<lambda>k. gate_test (gm_present ?m) (gate_pair written k)) (gate_changed original written n)) +
      length (gate_novel original written n) = length (gate_changed original written n)"
    unfolding covered gate_novel_def by (rule sum_length_filter_compl)
  then have nc: "length (filter (\<lambda>k. gate_test (gm_present ?m) (gate_pair written k)) (gate_changed original written n)) =
      length (gate_changed original written n) - length (gate_novel original written n)" by simp
  have fold: "(nq, nc) = fold (gate_count_step (gm_present ?m) original written) [0..<n - 1] (0, 0)" "scratch' = ?m"
    using assms(2) by (auto simp: sar_gate_block_counts_def Let_def)
  show "nq = word_of_nat (length (gate_changed original written n))"
    "nc = word_of_nat (length (gate_changed original written n) - length (gate_novel original written n))"
    using fold(1) unfolding gate_count_fold gate_changed_def [symmetric] nc by simp_all
  show "length (gm_present scratch') = SAR_GATE_MAP_BYTES"
    unfolding fold(2) using gate_build(2) [OF assms(1), of 0] by simp
qed

lemma length_gate_changed: "length (gate_changed original written n) \<le> n - 1"
  using length_filter_le [of _ "[0..<n - 1]"] by (simp add: gate_changed_def)

lemma length_gate_novel: "length (gate_novel original written n) \<le> length (gate_changed original written n)"
  by (simp add: gate_novel_def)

lemma sar_gate_fires_iff:
  assumes "novel \<le> changed" "changed < 2 ^ 24"
  shows "sar_gate_fires (word_of_nat changed) (word_of_nat (changed - novel)) \<longleftrightarrow>
    12 \<le> novel \<and> changed \<le> 10 * novel"
proof -
  have sub: "word_of_nat changed - word_of_nat (changed - novel) = (word_of_nat novel :: u32)"
    using assms(1) by (simp add: of_nat_diff)
  have prod: "word_of_nat novel * 100 = (word_of_nat (novel * 100) :: u32)"
    "word_of_nat changed * 10 = (word_of_nat (changed * 10) :: u32)" by simp_all
  have "(word_of_nat (changed * 10) :: u32) \<le> word_of_nat (novel * 100) \<longleftrightarrow> changed * 10 \<le> novel * 100"
    using assms by (simp add: word_le_nat_alt unat_of_nat take_bit_nat_eq_self del: of_nat_mult)
  moreover have "(word_of_nat novel :: u32) < 12 \<longleftrightarrow> novel < 12"
    using assms by (simp add: word_less_nat_alt unat_of_nat take_bit_nat_eq_self)
  moreover have "(word_of_nat changed :: u32) = 0 \<longleftrightarrow> changed = 0"
    using assms by (simp add: word_of_nat_eq_0_iff) (auto dest: dvd_imp_le)
  ultimately show ?thesis
    using assms(1) unfolding sar_gate_fires_def Let_def SAR_GATE_MIN_NOVELTY_BIGRAMS_def SAR_GATE_THETA_DEN_def
      SAR_GATE_THETA_NUM_def sub prod by auto
qed

definition gate_block_fires :: "bytes \<Rightarrow> bytes \<Rightarrow> nat \<Rightarrow> nat \<Rightarrow> bool" where
  "gate_block_fires original written len off \<longleftrightarrow>
     (let o' = drop off original; w' = drop off written; n = min 256 (len - off)
      in 12 \<le> length (gate_novel o' w' n) \<and> length (gate_changed o' w' n) \<le> 10 * length (gate_novel o' w' n))"

definition gate_blocks :: "nat \<Rightarrow> nat list" where
  "gate_blocks len = map (\<lambda>k. k * 256) [0..<(len + 255) div 256]"

lemma gate_classify_step_fires:
  assumes "length (gm_present scratch) = SAR_GATE_MAP_BYTES"
  shows "\<exists>scratch'. length (gm_present scratch') = SAR_GATE_MAP_BYTES \<and>
    gate_classify_step original written len off (scratch, seen, first, lst) =
      (scratch', if gate_block_fires original written len off
        then (True, if seen then first else off, off + min 256 (len - off)) else (seen, first, lst))"
proof -
  let ?o = "drop off original" and ?w = "drop off written" and ?n = "gate_block_len len off"
  obtain scratch' nq nc where c: "sar_gate_block_counts scratch ?o ?w ?n = (scratch', nq, nc)"
    by (metis prod_cases3)
  note counts = gate_counts [OF assms c]
  have n: "?n = min 256 (len - off)" by (simp add: gate_block_len_def Let_def SAR_GATE_BLOCK_SIZE_def)
  have "length (gate_changed ?o ?w ?n) < 2 ^ 24"
    using length_gate_changed [of ?o ?w ?n] unfolding n by simp
  then have "sar_gate_fires nq nc \<longleftrightarrow> gate_block_fires original written len off"
    unfolding counts(1,2) using length_gate_novel
    by (subst sar_gate_fires_iff) (simp_all add: gate_block_fires_def Let_def flip: n)
  then show ?thesis
    using counts(3) c unfolding gate_classify_step_def by (auto simp: Let_def n)
qed

lemma gate_classify_fold:
  fixes original written :: bytes and len :: nat
  assumes "length (gm_present scratch) = SAR_GATE_MAP_BYTES"
  defines "F \<equiv> \<lambda>offs. filter (gate_block_fires original written len) offs"
  shows "\<exists>scratch'. length (gm_present scratch') = SAR_GATE_MAP_BYTES \<and>
    fold (gate_classify_step original written len) offs (scratch, False, 0, 0) =
      (scratch', if F offs = [] then (False, 0, 0)
                 else (True, hd (F offs), last (F offs) + min 256 (len - last (F offs))))"
proof (induction offs rule: rev_induct)
  case Nil
  then show ?case using assms(1) by (auto simp: F_def)
next
  case (snoc off offs)
  then obtain m where m: "length (gm_present m) = SAR_GATE_MAP_BYTES"
    "fold (gate_classify_step original written len) offs (scratch, False, 0, 0) =
      (m, if F offs = [] then (False, 0, 0) else (True, hd (F offs), last (F offs) + min 256 (len - last (F offs))))"
    by blast
  obtain seen first lst where st: "(if F offs = [] then (False, 0, 0)
      else (True, hd (F offs), last (F offs) + min 256 (len - last (F offs)))) = (seen, first, lst)"
    by (metis prod_cases3)
  from gate_classify_step_fires [OF m(1), of original written len off seen first lst] obtain m' where
    "length (gm_present m') = SAR_GATE_MAP_BYTES"
    "gate_classify_step original written len off (m, seen, first, lst) =
      (m', if gate_block_fires original written len off
        then (True, if seen then first else off, off + min 256 (len - off)) else (seen, first, lst))" by blast
  then show ?case using m(2) st by (auto simp: F_def split: if_splits)
qed

section \<open>What the gate reports\<close>

text \<open>
  C21: the gate. Whatever the scratch map held before, a write is a candidate exactly when some block of 256 bytes has at
  least 12 bigrams the original block has nowhere, making up at least a tenth of its changed bigrams; the range
  reported runs from the first such block to the end of the last one. No 32-bit computation wraps on the way.
\<close>

theorem gate_classify_exact:
  assumes "length (gm_present scratch) = SAR_GATE_MAP_BYTES"
  shows "snd (sar_gate_classify scratch original written len) =
    (case filter (gate_block_fires original written len) (gate_blocks len) of
       [] \<Rightarrow> \<lparr>gr_candidate = False, gr_novelty_off = 0, gr_novelty_len = 0\<rparr>
     | off # offs \<Rightarrow>
         let end_off = min len (last (off # offs) + 256)
         in \<lparr>gr_candidate = True, gr_novelty_off = word_of_nat off, gr_novelty_len = word_of_nat (end_off - off)\<rparr>)"
proof -
  let ?F = "filter (gate_block_fires original written len) (gate_blocks len)"
  have blocks: "map (\<lambda>k. k * SAR_GATE_BLOCK_SIZE) [0..<(len + SAR_GATE_BLOCK_SIZE - 1) div SAR_GATE_BLOCK_SIZE] =
      gate_blocks len" by (simp add: gate_blocks_def SAR_GATE_BLOCK_SIZE_def add.commute)
  obtain m where m: "fold (gate_classify_step original written len) (gate_blocks len) (scratch, False, 0, 0) =
      (m, if ?F = [] then (False, 0, 0) else (True, hd ?F, last ?F + min 256 (len - last ?F)))"
    using gate_classify_fold [OF assms, of original written len "gate_blocks len"] by blast
  have "last ?F < len" if "?F \<noteq> []"
  proof -
    have "last ?F \<in> set (gate_blocks len)" using that last_in_set [of ?F] by auto
    then obtain k where "k < (len + 255) div 256" "last ?F = k * 256" by (auto simp: gate_blocks_def)
    then show ?thesis by simp
  qed
  then have "last ?F + min 256 (len - last ?F) = min len (last ?F + 256)" if "?F \<noteq> []"
    using that by auto
  then show ?thesis
    unfolding sar_gate_classify_def blocks m by (cases ?F) (simp_all add: Let_def)
qed

theorem gate_classify_exact_witness:
  "snd (sar_gate_classify \<lparr>gm_present = replicate SAR_GATE_MAP_BYTES 0\<rparr> (replicate 16 0)
     [0, 1, 2, 3, 4, 5, 6, 7, 8, 9, 10, 11, 12, 13, 14, 15] 16) =
     \<lparr>gr_candidate = True, gr_novelty_off = 0, gr_novelty_len = 16\<rparr>"
proof -
  have "gate_block_fires (replicate 16 0) [0, 1, 2, 3, 4, 5, 6, 7, 8, 9, 10, 11, 12, 13, 14, 15] 16 0"
    by code_simp
  then have "filter (gate_block_fires (replicate 16 0) [0, 1, 2, 3, 4, 5, 6, 7, 8, 9, 10, 11, 12, 13, 14, 15] 16)
      (gate_blocks 16) = [0]"
    by (simp add: gate_blocks_def)
  then show ?thesis
    using gate_classify_exact [of "\<lparr>gm_present = replicate SAR_GATE_MAP_BYTES 0\<rparr>" "replicate 16 0"
        "[0, 1, 2, 3, 4, 5, 6, 7, 8, 9, 10, 11, 12, 13, 14, 15]" 16] by (simp)
qed

end
