(* ===== verification/Battery.thy ===== *)
theory Battery
  imports Engine_Format Modes Stream_Ciphers Sm4 Seed Des Camellia Aria Aes
begin

text \<open>
  The conviction battery (\<^verbatim>\<open>engine/src/battery.c\<close>): every candidate key, every pair of candidates and every window
  of a scanned memory region is tried, under every cipher and mode the engine knows, against one sample of known
  plaintext and ciphertext. \<^verbatim>\<open>sar_convict\<close> returns the first key that reproduces the sample.

  A function of the source that returns 1 and fills the verdict, or returns 0 and leaves it alone, is a function to
  \<^typ>\<open>sar_verdict option\<close> here. A loop that returns on its first success is \<open>first_some\<close>. A pointer into a candidate or
  a scanned buffer is passed as the bytes its callee reads.
\<close>

section \<open>Loops that stop at the first success\<close>

primrec first_some :: "('a \<Rightarrow> 'b option) \<Rightarrow> 'a list \<Rightarrow> 'b option" where
  "first_some f [] = None"
| "first_some f (x # xs) = (case f x of None \<Rightarrow> first_some f xs | Some y \<Rightarrow> Some y)"

definition or_else :: "'a option \<Rightarrow> 'a option \<Rightarrow> 'a option" where
  "or_else a b = (case a of None \<Rightarrow> b | Some y \<Rightarrow> Some y)"

lemma first_some_SomeD: "first_some f xs = Some y \<Longrightarrow> \<exists>x\<in>set xs. f x = Some y"
  by (induction xs) (auto split: option.splits)

lemma first_some_None_iff: "first_some f xs = None \<longleftrightarrow> (\<forall>x\<in>set xs. f x = None)"
  by (induction xs) (auto split: option.splits)

lemma or_else_SomeD: "or_else a b = Some y \<Longrightarrow> a = Some y \<or> b = Some y"
  by (simp add: or_else_def split: option.splits)

lemma or_else_None_iff: "or_else a b = None \<longleftrightarrow> a = None \<and> b = None"
  by (simp add: or_else_def split: option.splits)

lemma if_SomeE1: "(if b then x else None) = Some y \<Longrightarrow> (b \<Longrightarrow> x = Some y \<Longrightarrow> P) \<Longrightarrow> P"
  by (cases b) (simp_all only: if_True if_False option.distinct)

lemma if_SomeE2: "(if b then None else x) = Some y \<Longrightarrow> (\<not> b \<Longrightarrow> x = Some y \<Longrightarrow> P) \<Longrightarrow> P"
  by (cases b) (simp_all only: if_True if_False option.distinct not_False_eq_True)

lemma first_some_SomeE:
  assumes "first_some f xs = Some y" obtains x where "x \<in> set xs" "f x = Some y"
  using first_some_SomeD [OF assms] by (elim bexE) (rule that)

lemma or_else_SomeE:
  assumes "or_else a b = Some y" obtains "a = Some y" | "b = Some y"
  using or_else_SomeD [OF assms] by (elim disjE) (rule that; assumption)+

lemmas tried_elims = first_some_SomeE or_else_SomeE if_SomeE1 if_SomeE2

lemma first_some_hit: "x \<in> set xs \<Longrightarrow> f x \<noteq> None \<Longrightarrow> first_some f xs \<noteq> None"
  by (simp only: first_some_None_iff) meson

lemma or_else_hit: "a \<noteq> None \<Longrightarrow> or_else a b \<noteq> None" "b \<noteq> None \<Longrightarrow> or_else a b \<noteq> None"
  by (simp_all only: or_else_None_iff simp_thms)

section \<open>Input and candidates\<close>

record sar_engine_input =
  ei_candidates :: "bytes list"
  ei_scan_buffer :: "bytes option"
  ei_plaintext :: "bytes option"
  ei_ciphertext :: "bytes option"
  ei_sample_size :: u32
  ei_file_offset :: u64

definition candidate_viable :: "bytes \<Rightarrow> bool" where
  "candidate_viable d =
     (let unique = length (filter (\<lambda>i. \<not> list_ex (\<lambda>j. d ! j = d ! i) [0..<i]) [0..<16])
      in if unique < 4 then False else list_ex (\<lambda>i. d ! i \<noteq> d ! 0) [1..<16])"

primrec rc4_sbox_loop :: "bytes \<Rightarrow> nat list \<Rightarrow> bytes \<Rightarrow> bool" where
  "rc4_sbox_loop d [] seen = True"
| "rc4_sbox_loop d (i # is) seen =
     (if seen ! unat (d ! i) \<noteq> 0 then False else rc4_sbox_loop d is (seen[unat (d ! i) := 1]))"

definition is_rc4_sbox :: "bytes \<Rightarrow> bool" where
  "is_rc4_sbox d = rc4_sbox_loop d [0..<256] (replicate 256 0)"

section \<open>Filling the verdict\<close>

definition fill :: "sar_verdict \<Rightarrow> bytes \<Rightarrow> nat \<Rightarrow> u32 \<Rightarrow> u32 \<Rightarrow> u64 \<Rightarrow> sar_verdict" where
  "fill v key klen alg mode mp =
     v\<lparr>v_convicted := True, v_key := sar_memcpy (v_key v) key klen, v_key_length := word_of_nat klen,
       v_algorithm := alg, v_mode := mode, v_mode_params := mp\<rparr>"

definition apply_iv :: "sar_verdict \<Rightarrow> sar_iv_out \<Rightarrow> sar_verdict" where
  "apply_iv v iv =
     v\<lparr>v_iv := sar_memcpy (v_iv v) (iv_bytes iv) SEMANTICS_AR_IV_MAX, v_iv_length := word_of_nat (iv_length iv),
       v_ctr_layout_tag := word_of_nat (iv_tag iv)\<rparr>"

definition fill_stream ::
  "sar_verdict \<Rightarrow> bytes \<Rightarrow> u32 \<Rightarrow> bytes \<Rightarrow> nat \<Rightarrow> nat \<Rightarrow> nat \<Rightarrow> sar_verdict" where
  "fill_stream v report_key alg nonce nlen rounds origin =
     (fill v report_key 32 alg SAR_MODE_STREAM (push_bit 8 (word_of_nat rounds) OR word_of_nat origin))
       \<lparr>v_iv := sar_memcpy (v_iv v) nonce nlen, v_iv_length := word_of_nat nlen, v_ctr_layout_tag := 0\<rparr>"

section \<open>Block ciphers\<close>

definition local_iv :: sar_iv_out where
  "local_iv = \<lparr>iv_bytes = replicate 24 0, iv_length = 0, iv_tag = 0\<rparr>"

definition block_try ::
  "block_cipher_ctx \<Rightarrow> bytes \<Rightarrow> nat \<Rightarrow> u32 \<Rightarrow> bytes \<Rightarrow> bytes \<Rightarrow> nat \<Rightarrow> u64 \<Rightarrow> sar_verdict \<Rightarrow> sar_verdict option" where
  "block_try bc key klen alg pt ct len fo v =
     (case engine_try_block_modes bc pt ct len fo (Some local_iv) of
        (Some mode, Some iv) \<Rightarrow> Some (apply_iv (fill v key klen alg mode 0) iv)
      | _ \<Rightarrow> None)"

definition aes_bc :: "bytes \<Rightarrow> nat \<Rightarrow> block_cipher_ctx" where
  "aes_bc key klen =
     (let c = aes_setkey key klen
      in \<lparr>bc_encrypt = aes_encrypt_block c, bc_decrypt = aes_decrypt_block c, bc_block_size = 16\<rparr>)"

definition sm4_bc :: "bytes \<Rightarrow> block_cipher_ctx" where
  "sm4_bc key =
     (let s = sm4_key_schedule key
      in \<lparr>bc_encrypt = sm4_encrypt_block s, bc_decrypt = sm4_decrypt_block s, bc_block_size = 16\<rparr>)"

definition camellia_bc :: "bytes \<Rightarrow> nat \<Rightarrow> block_cipher_ctx" where
  "camellia_bc key klen =
     (let c = camellia_key_schedule key klen
      in \<lparr>bc_encrypt = camellia_encrypt_block c, bc_decrypt = camellia_decrypt_block c, bc_block_size = 16\<rparr>)"

definition aria_bc :: "bytes \<Rightarrow> nat \<Rightarrow> block_cipher_ctx" where
  "aria_bc key klen =
     (let a = aria_key_schedule key klen
      in \<lparr>bc_encrypt = aria_encrypt_block a, bc_decrypt = aria_decrypt_block a, bc_block_size = 16\<rparr>)"

definition seed_bc :: "bytes \<Rightarrow> block_cipher_ctx" where
  "seed_bc key =
     (let s = seed_key_schedule key
      in \<lparr>bc_encrypt = seed_encrypt_block s, bc_decrypt = seed_decrypt_block s, bc_block_size = 16\<rparr>)"

definition des3_bc :: "bytes \<Rightarrow> block_cipher_ctx" where
  "des3_bc key =
     (let d = des3_setkey key
      in \<lparr>bc_encrypt = des3_encrypt_block d, bc_decrypt = des3_decrypt_block d, bc_block_size = 8\<rparr>)"

definition aes_try_master ::
  "bytes \<Rightarrow> nat \<Rightarrow> bytes \<Rightarrow> bytes \<Rightarrow> nat \<Rightarrow> u64 \<Rightarrow> u32 \<Rightarrow> sar_verdict \<Rightarrow> sar_verdict option" where
  "aes_try_master master klen pt ct len fo alg v =
     (case engine_try_block_modes (aes_bc master klen) pt ct len fo (Some local_iv) of
        (Some mode, Some iv) \<Rightarrow> Some (apply_iv (fill v master klen alg mode 0) iv)
      | _ \<Rightarrow> None)"

definition aes_window_battery ::
  "bytes \<Rightarrow> nat \<Rightarrow> u32 \<Rightarrow> nat \<Rightarrow> bytes \<Rightarrow> bytes \<Rightarrow> nat \<Rightarrow> u64 \<Rightarrow> sar_verdict \<Rightarrow> sar_verdict option" where
  "aes_window_battery window klen alg max_block pt ct len fo v =
     first_some (\<lambda>variant.
         or_else (aes_try_master variant klen pt ct len fo alg v)
           (first_some (\<lambda>b. case aes_master_from_window klen variant (int b) of
                None \<Rightarrow> None
              | Some master \<Rightarrow> aes_try_master master klen pt ct len fo alg v) [1..<max_block + 1]))
       [take klen window, aes_word_byteswap window klen]"

definition xts_try ::
  "block_cipher_ctx \<Rightarrow> block_cipher_ctx \<Rightarrow> bytes \<Rightarrow> nat \<Rightarrow> u32 \<Rightarrow> bytes \<Rightarrow> bytes \<Rightarrow> nat \<Rightarrow> u64 \<Rightarrow> sar_verdict
     \<Rightarrow> sar_verdict option" where
  "xts_try bc1 bc2 keybytes klen alg pt ct len file_offset v =
     (case engine_verify_xts bc1 bc2 pt ct len file_offset of
        Some du \<Rightarrow> Some (fill v keybytes klen alg SAR_MODE_XTS du)
      | None \<Rightarrow> None)"

definition try_block_single ::
  "bytes \<Rightarrow> bytes \<Rightarrow> bytes \<Rightarrow> nat \<Rightarrow> u64 \<Rightarrow> sar_verdict \<Rightarrow> sar_verdict option" where
  "try_block_single key pt ct len fo v =
     or_else (aes_window_battery key 16 SAR_ALG_AES_128 10 pt ct len fo v)
       (first_some (\<lambda>(bc, alg). block_try bc key 16 alg pt ct len fo v)
         [(sm4_bc key, SAR_ALG_SM4), (camellia_bc key 16, SAR_ALG_CAMELLIA), (aria_bc key 16, SAR_ALG_ARIA),
          (seed_bc key, SAR_ALG_SEED)])"

definition try_block_pair ::
  "bytes \<Rightarrow> bytes \<Rightarrow> bytes \<Rightarrow> bytes \<Rightarrow> nat \<Rightarrow> u64 \<Rightarrow> sar_verdict \<Rightarrow> sar_verdict option" where
  "try_block_pair a b pt ct len file_offset v =
     (let k32 = take 16 a @ take 16 b; k24a = take 16 a @ take 8 b; k24b = slice a 8 8 @ take 16 b
      in or_else
          (first_some (\<lambda>(key, klen, alg). aes_window_battery key klen alg 7 pt ct len file_offset v)
            [(k32, 32, SAR_ALG_AES_256), (k24a, 24, SAR_ALG_AES_192), (k24b, 24, SAR_ALG_AES_192)])
          (or_else
            (first_some (\<lambda>(bc, key, klen, alg). block_try bc key klen alg pt ct len file_offset v)
              [(des3_bc k24a, k24a, 24, SAR_ALG_3DES), (des3_bc k24b, k24b, 24, SAR_ALG_3DES),
               (camellia_bc k32 32, k32, 32, SAR_ALG_CAMELLIA), (aria_bc k32 32, k32, 32, SAR_ALG_ARIA)])
            (first_some (\<lambda>(bc1, bc2, alg). xts_try bc1 bc2 k32 32 alg pt ct len file_offset v)
              [(aes_bc a 16, aes_bc b 16, SAR_ALG_AES_128), (sm4_bc a, sm4_bc b, SAR_ALG_SM4),
               (camellia_bc a 16, camellia_bc b 16, SAR_ALG_CAMELLIA), (aria_bc a 16, aria_bc b 16, SAR_ALG_ARIA),
               (seed_bc a, seed_bc b, SAR_ALG_SEED)])))"

definition aes256_xts_window ::
  "bytes \<Rightarrow> bytes \<Rightarrow> bytes \<Rightarrow> nat \<Rightarrow> u64 \<Rightarrow> sar_verdict \<Rightarrow> sar_verdict option" where
  "aes256_xts_window win64 pt ct len file_offset v =
     xts_try (aes_bc win64 32) (aes_bc (drop 32 win64) 32) win64 64 SAR_ALG_AES_256 pt ct len file_offset v"

section \<open>Stream ciphers\<close>

definition stream_sample_len :: "nat \<Rightarrow> nat \<Rightarrow> nat" where
  "stream_sample_len boff sample_size = (let clen = 64 - boff in if clen > sample_size then sample_size else clen)"

definition stream_match :: "bytes \<Rightarrow> bytes \<Rightarrow> bytes \<Rightarrow> nat \<Rightarrow> nat \<Rightarrow> bool" where
  "stream_match ks pt ct boff clen = list_all (\<lambda>m. pt ! m XOR ks ! (boff + m) = ct ! m) [0..<clen]"

definition try_chacha ::
  "bytes \<Rightarrow> bytes \<Rightarrow> bytes \<Rightarrow> bytes \<Rightarrow> nat \<Rightarrow> bytes \<Rightarrow> bytes \<Rightarrow> nat \<Rightarrow> u64 \<Rightarrow> u32 \<Rightarrow> sar_verdict
     \<Rightarrow> sar_verdict option" where
  "try_chacha gen_key report_key gen_nonce12 persist_nonce persist_len pt ct sample_size file_offset alg v =
     first_some (\<lambda>(origin, rounds).
         let blk = (ucast (file_offset div 64) :: u32) + word_of_nat origin;
             boff = unat (file_offset mod 64);
             ks = chacha_block gen_key gen_nonce12 blk rounds;
             clen = stream_sample_len boff sample_size
         in if clen < 16 then None
            else if stream_match ks pt ct boff clen
            then Some (fill_stream v report_key alg persist_nonce persist_len rounds origin)
            else None)
       (List.product [0, 1] STREAM_ROUNDS)"

definition try_salsa ::
  "bytes \<Rightarrow> bytes \<Rightarrow> bytes \<Rightarrow> bytes \<Rightarrow> nat \<Rightarrow> bytes \<Rightarrow> bytes \<Rightarrow> nat \<Rightarrow> u64 \<Rightarrow> u32 \<Rightarrow> sar_verdict
     \<Rightarrow> sar_verdict option" where
  "try_salsa gen_key report_key gen_nonce8 persist_nonce persist_len pt ct sample_size file_offset alg v =
     first_some (\<lambda>origin.
         let ctr = file_offset div 64 + word_of_nat origin;
             boff = unat (file_offset mod 64);
             clen = stream_sample_len boff sample_size
         in if clen < 16 then None
            else first_some (\<lambda>rounds.
                let ks = salsa_block gen_key gen_nonce8 ctr rounds
                in if stream_match ks pt ct boff clen
                   then Some (fill_stream v report_key alg persist_nonce persist_len rounds origin)
                   else None) STREAM_ROUNDS)
       [0, 1]"

definition try_stream ::
  "bytes list \<Rightarrow> bytes \<Rightarrow> bytes \<Rightarrow> nat \<Rightarrow> u64 \<Rightarrow> sar_verdict \<Rightarrow> sar_verdict option" where
  "try_stream cands pt ct sample_size file_offset v =
     first_some (\<lambda>i.
         if \<not> candidate_viable (cands ! i) then None
         else
           let key32 = take 16 (cands ! i) @ take 16 (cands ! (i + 1))
           in first_some (\<lambda>k.
                if k = i \<or> k = i + 1 then None
                else
                  let nonce12 = take 12 (cands ! k); nonce8 = take 8 (cands ! k)
                  in or_else
                      (try_chacha key32 key32 nonce12 nonce12 12 pt ct sample_size file_offset SAR_ALG_CHACHA20 v)
                      (or_else
                        (try_salsa key32 key32 nonce8 nonce8 8 pt ct sample_size file_offset SAR_ALG_SALSA20 v)
                        (if k + 1 < length cands then
                           let nonce24 = take 16 (cands ! k) @ take 8 (cands ! (k + 1))
                           in or_else
                               (try_chacha (hchacha20 key32 nonce24) key32 (replicate 4 0 @ slice nonce24 16 8)
                                  nonce24 24 pt ct sample_size file_offset SAR_ALG_XCHACHA20 v)
                               (try_salsa (hsalsa20 key32 nonce24) key32 (slice nonce24 16 8)
                                  nonce24 24 pt ct sample_size file_offset SAR_ALG_XSALSA20 v)
                         else None)))
              [0..<length cands])
       [0..<length cands - 1]"

definition try_rc4_shortkey ::
  "bytes \<Rightarrow> bytes \<Rightarrow> bytes \<Rightarrow> nat \<Rightarrow> u64 \<Rightarrow> sar_verdict \<Rightarrow> sar_verdict option" where
  "try_rc4_shortkey key pt ct sample_size file_offset v =
     first_some (\<lambda>klen.
         if rc4_verify key klen pt ct sample_size (unat file_offset)
         then Some (fill v key klen SAR_ALG_RC4 SAR_MODE_STREAM 0) else None)
       [5, 8, 16]"

section \<open>Scanning memory\<close>

definition aes_schedule_scan ::
  "bytes \<Rightarrow> bytes \<Rightarrow> bytes \<Rightarrow> nat \<Rightarrow> u64 \<Rightarrow> sar_verdict \<Rightarrow> sar_verdict option" where
  "aes_schedule_scan buf pt ct sample_size file_offset v =
     first_some (\<lambda>(off, klen, slen, alg).
         if off + slen > length buf then None
         else if \<not> aes_schedule_is_valid (slice buf off slen) klen then None
         else aes_try_master (slice buf off klen) klen pt ct sample_size file_offset alg v)
       (List.product [0..<length buf - 175]
         [(16, 176, SAR_ALG_AES_128), (24, 208, SAR_ALG_AES_192), (32, 240, SAR_ALG_AES_256)])"

definition SAR_STREAM_SIGMA :: bytes where
  "SAR_STREAM_SIGMA =
     [0x65, 0x78, 0x70, 0x61, 0x6e, 0x64, 0x20, 0x33, 0x32, 0x2d, 0x62, 0x79, 0x74, 0x65, 0x20, 0x6b]"

definition stream_sigma_scan ::
  "bytes \<Rightarrow> bytes \<Rightarrow> bytes \<Rightarrow> nat \<Rightarrow> u64 \<Rightarrow> sar_verdict \<Rightarrow> sar_verdict option" where
  "stream_sigma_scan buf pt ct sample_size file_offset v =
     first_some (\<lambda>off.
         if buf ! off \<noteq> SAR_STREAM_SIGMA ! 0 then None
         else
           or_else
             (if sar_memcmp (drop off buf) SAR_STREAM_SIGMA 16 = 0 then
                let key = slice buf (off + 16) 32; nonce12 = slice buf (off + 52) 12
                in try_chacha key key nonce12 nonce12 12 pt ct sample_size file_offset SAR_ALG_CHACHA20 v
              else None)
             (if sar_memcmp (drop off buf) SAR_STREAM_SIGMA 4 = 0 \<and>
                 sar_memcmp (drop (off + 20) buf) (drop 4 SAR_STREAM_SIGMA) 4 = 0 \<and>
                 sar_memcmp (drop (off + 40) buf) (drop 8 SAR_STREAM_SIGMA) 4 = 0 \<and>
                 sar_memcmp (drop (off + 60) buf) (drop 12 SAR_STREAM_SIGMA) 4 = 0 then
                let key32 = slice buf (off + 4) 16 @ slice buf (off + 44) 16; nonce8 = slice buf (off + 24) 8
                in try_salsa key32 key32 nonce8 nonce8 8 pt ct sample_size file_offset SAR_ALG_SALSA20 v
              else None))
       [0..<length buf - 63]"

definition SAR_SCAN_BRUTE_CAP :: nat where "SAR_SCAN_BRUTE_CAP = 65536"

definition rc4_state_scan ::
  "bytes \<Rightarrow> nat \<Rightarrow> bytes \<Rightarrow> bytes \<Rightarrow> nat \<Rightarrow> sar_verdict \<Rightarrow> sar_verdict option" where
  "rc4_state_scan buf brute pt ct sample_size v =
     first_some (\<lambda>off.
         let S = slice buf off 256
         in if is_rc4_sbox S then
              or_else
                (if off + 258 \<le> length buf \<and>
                    rc4_verify_state S (buf ! (off + 256)) (buf ! (off + 257)) pt ct sample_size
                 then Some (fill v S 0 SAR_ALG_RC4 SAR_MODE_STREAM 0) else None)
                (if off + 264 \<le> length buf \<and>
                    rc4_verify_state S (buf ! (off + 256)) (buf ! (off + 260)) pt ct sample_size
                 then Some (fill v S 0 SAR_ALG_RC4 SAR_MODE_STREAM 0) else None)
            else None)
       [0..<brute - 255]"

definition window_scan ::
  "bytes \<Rightarrow> nat \<Rightarrow> bytes \<Rightarrow> bytes \<Rightarrow> nat \<Rightarrow> u64 \<Rightarrow> sar_verdict \<Rightarrow> sar_verdict option" where
  "window_scan buf brute pt ct sample_size file_offset v =
     first_some (\<lambda>off.
         if \<not> candidate_viable (slice buf off 16) then None
         else
           or_else (try_block_single (slice buf off 16) pt ct sample_size file_offset v)
             (or_else
               (if off + 32 \<le> brute \<and> candidate_viable (slice buf (off + 16) 16)
                then try_block_pair (slice buf off 16) (slice buf (off + 16) 16) pt ct sample_size file_offset v
                else None)
               (or_else
                 (if off + 64 \<le> brute
                  then aes256_xts_window (slice buf off 64) pt ct sample_size file_offset v else None)
                 (try_rc4_shortkey (slice buf off 16) pt ct sample_size file_offset v))))
       (map (\<lambda>k. k * 16) [0..<brute div 16])"

definition scan_battery ::
  "bytes \<Rightarrow> bytes \<Rightarrow> bytes \<Rightarrow> nat \<Rightarrow> u64 \<Rightarrow> sar_verdict \<Rightarrow> sar_verdict option" where
  "scan_battery buf pt ct sample_size file_offset v =
     (let brute = (if length buf < SAR_SCAN_BRUTE_CAP then length buf else SAR_SCAN_BRUTE_CAP)
      in or_else (aes_schedule_scan buf pt ct sample_size file_offset v)
           (or_else (stream_sigma_scan buf pt ct sample_size file_offset v)
             (or_else (rc4_state_scan buf brute pt ct sample_size v)
               (window_scan buf brute pt ct sample_size file_offset v))))"

section \<open>Conviction\<close>

definition zero_verdict :: sar_verdict where
  "zero_verdict = \<lparr>v_convicted = False, v_algorithm = 0, v_mode = 0, v_key = replicate 64 0, v_key_length = 0,
     v_mode_params = 0, v_iv = replicate 24 0, v_iv_length = 0, v_ctr_layout_tag = 0\<rparr>"

definition sar_convict :: "sar_engine_input \<Rightarrow> sar_verdict option" where
  "sar_convict input =
     (case (ei_plaintext input, ei_ciphertext input) of
        (Some pt, Some ct) \<Rightarrow>
          if ei_sample_size input < 16 then None
          else
            let cands = ei_candidates input; len = unat (ei_sample_size input); fo = ei_file_offset input;
                v = zero_verdict; idx = [0..<length cands]
            in or_else
                 (first_some (\<lambda>i. if \<not> candidate_viable (cands ! i) then None
                    else try_block_single (cands ! i) pt ct len fo v) idx)
               (or_else
                 (first_some (\<lambda>i. if \<not> candidate_viable (cands ! i) then None
                    else first_some (\<lambda>j. if i = j then None
                      else try_block_pair (cands ! i) (cands ! j) pt ct len fo v) idx) idx)
               (or_else (try_stream cands pt ct len fo v)
               (or_else
                 (first_some (\<lambda>i. if \<not> candidate_viable (cands ! i) then None
                    else try_rc4_shortkey (cands ! i) pt ct len fo v) idx)
                 (case ei_scan_buffer input of
                    Some buf \<Rightarrow> if length buf \<ge> 16 then scan_battery buf pt ct len fo v else None
                  | None \<Rightarrow> None))))
      | _ \<Rightarrow> None)"

end
