(* ===== verification/Battery_Correct.thy ===== *)
theory Battery_Correct
  imports Battery Recover_Roundtrip
begin

text \<open>
  The searches of the battery, one by one. What a search reports, the ciphers that recovery later builds from the verdict
  reproduce on the window of the sample the search looked at, and recovery does not decline the key, unless it is an RC4
  permutation found in memory; conversely the block searches find a key that was used in one of the five block modes.
\<close>

section \<open>A key schedule reads its key only\<close>

lemma nth_take_eq:
  assumes "take n x = take n y" "i < n"
  shows "x ! i = y ! i"
  using assms by (metis nth_take)

lemma sar_be32_cong: "take n x = take n y \<Longrightarrow> k + 4 \<le> n \<Longrightarrow> n \<le> length x \<Longrightarrow> n \<le> length y \<Longrightarrow>
    sar_be32 (drop k x) = sar_be32 (drop k y)"
  using nth_take_eq [of n x y k] nth_take_eq [of n x y "k + 1"] nth_take_eq [of n x y "k + 2"]
    nth_take_eq [of n x y "k + 3"] by (simp add: sar_be32_def)

lemma sar_le32_cong: "take n x = take n y \<Longrightarrow> k + 4 \<le> n \<Longrightarrow> n \<le> length x \<Longrightarrow> n \<le> length y \<Longrightarrow>
    sar_le32 (drop k x) = sar_le32 (drop k y)"
  using nth_take_eq [of n x y k] nth_take_eq [of n x y "k + 1"] nth_take_eq [of n x y "k + 2"]
    nth_take_eq [of n x y "k + 3"] by (simp add: sar_le32_def)

lemma sar_load64be_cong: "take n x = take n y \<Longrightarrow> k + 8 \<le> n \<Longrightarrow> n \<le> length x \<Longrightarrow> n \<le> length y \<Longrightarrow>
    sar_load64be (drop k x) = sar_load64be (drop k y)"
  using nth_take_eq [of n x y k] nth_take_eq [of n x y "Suc k"] nth_take_eq [of n x y "Suc (Suc k)"]
    nth_take_eq [of n x y "k + _"] by (simp add: sar_load64be_def)

lemma des_load_cong:
  assumes "take n x = take n y" "k + 8 \<le> n" "n \<le> length x" "n \<le> length y"
  shows "des_load (drop k x) = des_load (drop k y)"
  unfolding des_load_def using assms nth_take_eq [OF assms(1)] by (intro fold_cong) auto

lemmas sar_be32_cong0 = sar_be32_cong [where k = 0, simplified]
lemmas sar_le32_cong0 = sar_le32_cong [where k = 0, simplified]
lemmas sar_load64be_cong0 = sar_load64be_cong [where k = 0, simplified]

definition block_key_len :: "u32 \<Rightarrow> nat \<Rightarrow> bool" where
  "block_key_len alg klen \<longleftrightarrow>
     (if is_aes_alg alg then klen \<in> {16, 24, 32}
      else if alg = SAR_ALG_3DES then klen = 24
      else if alg = SAR_ALG_CAMELLIA \<or> alg = SAR_ALG_ARIA then klen \<in> {16, 24, 32}
      else klen = 16)"

lemma camellia_key_schedule_cong:
  assumes "take n x = take n y" "n \<le> length x" "n \<le> length y" "n \<in> {16, 24, 32}"
  shows "camellia_key_schedule x n = camellia_key_schedule y n"
proof -
  have a: "sar_load64be (drop k x) = sar_load64be (drop k y)" if "k + 8 \<le> n" for k
    using that assms by (intro sar_load64be_cong) simp_all
  have "sar_load64be x = sar_load64be y" "sar_load64be (drop 8 x) = sar_load64be (drop 8 y)"
    using a [of 0] a [of 8] assms(4) by auto
  moreover have "(if n = 16 then (0, 0, 18 :: nat) else if n = 24
        then (sar_load64be (drop 16 x), NOT (sar_load64be (drop 16 x)), 24)
        else (sar_load64be (drop 16 x), sar_load64be (drop 24 x), 24)) =
      (if n = 16 then (0, 0, 18) else if n = 24
        then (sar_load64be (drop 16 y), NOT (sar_load64be (drop 16 y)), 24)
        else (sar_load64be (drop 16 y), sar_load64be (drop 24 y), 24))"
    using a [of 16] a [of 24] assms(4) by auto
  ultimately show ?thesis unfolding camellia_key_schedule_def by (simp only:)
qed

lemma aria_key_schedule_cong:
  assumes "take n x = take n y" "n \<le> length x" "n \<le> length y" "n \<in> {16, 24, 32}"
  shows "aria_key_schedule x n = aria_key_schedule y n"
proof -
  have a: "sar_be32 (drop k x) = sar_be32 (drop k y)" if "k + 4 \<le> n" for k
    using that assms by (intro sar_be32_cong) simp_all
  have "aria_load x = aria_load y"
    using a [of 0] a [of 4] a [of 8] a [of 12] assms(4) by (auto simp: aria_load_def)
  moreover have "(if n \<ge> m then sar_be32 (drop k x) else 0) = (if n \<ge> m then sar_be32 (drop k y) else 0)"
    if "k + 4 \<le> m" for k m using a [of k] that by simp
  note this [of 16 24] this [of 20 24] this [of 24 32] this [of 28 32]
  ultimately show ?thesis unfolding aria_key_schedule_def by (simp only:)
qed

lemma word_key_schedule_cong:
  assumes "take 16 x = take 16 y" "16 \<le> length x" "16 \<le> length y"
  shows "sm4_key_schedule x = sm4_key_schedule y" "seed_key_schedule x = seed_key_schedule y"
proof -
  have a: "sar_be32 (drop k x) = sar_be32 (drop k y)" if "k + 4 \<le> 16" for k
    using that assms by (intro sar_be32_cong) simp_all
  show "sm4_key_schedule x = sm4_key_schedule y" "seed_key_schedule x = seed_key_schedule y"
    using a [of 0] a [of 4] a [of 8] a [of 12] by (simp_all add: sm4_key_schedule_def seed_key_schedule_def)
qed

lemma des3_setkey_cong:
  assumes "take 24 x = take 24 y" "24 \<le> length x" "24 \<le> length y"
  shows "des3_setkey x = des3_setkey y"
  unfolding des3_setkey_def using assms by (auto intro!: map_cong arg_cong [where f = des_setkey_single] des_load_cong)

lemma aes_setkey_cong:
  assumes "take n x = take n y"
  shows "aes_setkey x n = aes_setkey y n"
proof -
  have "take (4 * (n div 4)) x = take (4 * (n div 4)) y"
    using arg_cong [OF assms, of "take (4 * (n div 4))"] by (simp add: min_absorb1)
  then show ?thesis by (simp add: aes_setkey_expand)
qed

lemma make_block_cong:
  assumes "take klen x = take klen y" "klen \<le> length x" "klen \<le> length y" "block_key_len alg klen"
  shows "make_block alg x klen = make_block alg y klen"
proof (cases "is_aes_alg alg")
  case True
  then show ?thesis using aes_setkey_cong [OF assms(1)] by (simp add: make_block_def is_aes_alg_def Let_def)
next
  case False
  then show ?thesis
    using assms camellia_key_schedule_cong [OF assms(1-3)] aria_key_schedule_cong [OF assms(1-3)]
      word_key_schedule_cong [of x y] des3_setkey_cong [of x y]
    by (auto simp: make_block_def is_aes_alg_def Let_def block_key_len_def)
qed

section \<open>The key of a verdict\<close>

lemma verdict_key_fill:
  assumes "klen \<le> 64" "klen \<le> length key" "v = fill zero_verdict key klen alg mode mp"
  shows "rk_algorithm (sar_recovery_key_from_verdict v) = alg" "rk_mode (sar_recovery_key_from_verdict v) = mode"
    "rk_mode_params (sar_recovery_key_from_verdict v) = mp" "unat (rk_key_length (sar_recovery_key_from_verdict v)) = klen"
    "take klen (rk_key (sar_recovery_key_from_verdict v)) = take klen key"
    "length (rk_key (sar_recovery_key_from_verdict v)) = 64"
  using assms
  by (simp_all add: sar_recovery_key_from_verdict_def Let_def fill_def zero_verdict_def sar_memcpy_def sar_sizes
      unat_of_nat take_bit_nat_eq_self)

lemma ofb_back_total: "wf_bc bc \<Longrightarrow> \<exists>y. ofb_back bc n x = Some y"
proof (induction n arbitrary: x)
  case (Suc n)
  have "fst (bc_decrypt bc x) = 1" using Suc.prems by (simp add: wf_bc_def)
  then show ?case using Suc by (auto simp: case_prod_unfold)
qed simp

lemma generic_ofb_stores:
  assumes "wf_bc bc" "generic_ofb bc pt ct len fo (Some iv) = (True, iv')"
  shows "\<exists>b. iv' = Some (iv_store b (bc_block_size bc) iv)"
proof -
  obtain s where "find (ofb_match bc pt ct) (window_shifts (bc_block_size bc) (2 * bc_block_size bc) len) = Some s"
    using assms(2) by (auto simp: generic_ofb_def Let_def split: option.splits)
  moreover from ofb_back_total [OF assms(1)] obtain y where
    "ofb_back bc (unat ((fo + word_of_nat s) div word_of_nat (bc_block_size bc)))
       (window_ks pt ct s (bc_block_size bc)) = Some y" by blast
  moreover have "fst (bc_decrypt bc y) = 1" using assms(1) by (simp add: wf_bc_def)
  ultimately show ?thesis using assms(2) by (auto simp: generic_ofb_def Let_def case_prod_unfold)
qed

lemma generic_ctr_stores:
  assumes "generic_ctr bc pt ct len fo (Some iv) = (True, iv')"
  shows "\<exists>iv''. iv' = Some iv'' \<and> iv_length iv'' = bc_block_size bc \<and> 1 \<le> iv_tag iv'' \<and> iv_tag iv'' \<le> SAR_CTR_LAYOUT_COUNT"
proof -
  obtain s t where f: "find (ctr_match bc pt ct) (List.product (window_shifts (bc_block_size bc) (2 * bc_block_size bc) len)
      [0..<SAR_CTR_LAYOUT_COUNT]) = Some (s, t)"
    using assms by (auto simp: generic_ctr_def Let_def split: option.splits)
  from find_SomeD [OF f] have "t < SAR_CTR_LAYOUT_COUNT" by auto
  then show ?thesis using assms f by (auto simp: generic_ctr_def Let_def iv_store_def)
qed

lemma generic_iv_some:
  "\<exists>iv'. snd (generic_cbc bc pt ct len fo (Some iv)) = Some iv'" "\<exists>iv'. snd (generic_cfb bc pt ct len fo (Some iv)) = Some iv'"
  "\<exists>iv'. snd (generic_ofb bc pt ct len fo (Some iv)) = Some iv'" "\<exists>iv'. snd (generic_ctr bc pt ct len fo (Some iv)) = Some iv'"
  by (auto simp: generic_cbc_def generic_cfb_def generic_ofb_def generic_ctr_def Let_def split: option.splits prod.splits)

lemma engine_try_block_modes_iv:
  assumes "wf_bc bc" "engine_try_block_modes bc pt ct len fo (Some iv0) = (Some m, iv)"
  shows "\<exists>iv'. iv = Some iv' \<and> (m = SAR_MODE_OFB \<or> m = SAR_MODE_CTR \<longrightarrow> iv_length iv' = bc_block_size bc) \<and>
    (m = SAR_MODE_CTR \<longrightarrow> 1 \<le> iv_tag iv' \<and> iv_tag iv' \<le> SAR_CTR_LAYOUT_COUNT)"
proof -
  obtain i0 where i0: "iv_clear (Some iv0) = Some i0" by (simp add: iv_clear_def)
  obtain r1 i1 where c1: "generic_cbc bc pt ct len fo (Some i0) = (r1, Some i1)"
    using generic_iv_some(1) by (metis prod.collapse)
  obtain r2 i2 where c2: "generic_cfb bc pt ct len fo (Some i1) = (r2, Some i2)"
    using generic_iv_some(2) by (metis prod.collapse)
  obtain r3 i3 where c3: "generic_ofb bc pt ct len fo (Some i2) = (r3, Some i3)"
    using generic_iv_some(3) by (metis prod.collapse)
  obtain r4 i4 where c4: "generic_ctr bc pt ct len fo (Some i3) = (r4, Some i4)"
    using generic_iv_some(4) by (metis prod.collapse)
  have "iv_length i3 = bc_block_size bc" if r3
    using generic_ofb_stores [OF assms(1), of pt ct len fo i2 "Some i3"] c3 that by (auto simp: iv_store_def)
  moreover have "iv_length i4 = bc_block_size bc \<and> 1 \<le> iv_tag i4 \<and> iv_tag i4 \<le> SAR_CTR_LAYOUT_COUNT" if r4
    using generic_ctr_stores [of bc pt ct len fo i3 "Some i4"] c4 that by auto
  ultimately show ?thesis
    using assms(2) c1 c2 c3 c4 unfolding engine_try_block_modes_def i0 Let_def by (auto split: if_splits)
qed

section \<open>What a conviction proves\<close>

definition block_proof :: "sar_verdict \<Rightarrow> bytes \<Rightarrow> bytes \<Rightarrow> nat \<Rightarrow> bool" where
  "block_proof v pt ct len \<longleftrightarrow>
     (let rk = sar_recovery_key_from_verdict v
      in precheck rk = SAR_RECOVER_OK \<and> rk_mode rk \<in> set engine_modes \<and>
         (\<exists>bc. build_ciphers rk = Some (One_Cipher bc) \<and> wf_bc bc \<and> mode_seen bc pt ct len (rk_mode rk)))"

lemma block_try_sound:
  assumes tried: "block_try bc key klen alg pt ct len fo zero_verdict = Some v"
    and bc: "make_block alg key klen = Some bc" "block_key_len alg klen" "is_block_alg alg"
    and len: "klen \<le> length key" "len \<le> length pt" "len \<le> length ct"
  shows "block_proof v pt ct len"
proof -
  have klen: "klen \<le> 32" using bc(2) by (auto simp: block_key_len_def split: if_splits)
  have key_ok: "aes_key_ok alg key klen"
    using bc(2) len(1) by (simp add: aes_key_ok_def block_key_len_def split: if_splits)
  have wf: "wf_bc bc" "bc_block_size bc = alg_block alg"
    using make_block_wf [OF bc(1) key_ok] by simp_all
  obtain m iv where e: "engine_try_block_modes bc pt ct len fo (Some local_iv) = (Some m, Some iv)"
    and v: "v = apply_iv (fill zero_verdict key klen alg m 0) iv"
    using tried by (auto simp: block_try_def split: prod.splits option.splits)
  have seen: "mode_seen bc pt ct len m" "m \<in> set engine_modes"
    using engine_try_block_modes_find [OF wf(1) len(2,3), of fo "Some local_iv"] e
      find_SomeD [of "mode_seen bc pt ct len" engine_modes m] by simp_all
  define rk where "rk = sar_recovery_key_from_verdict v"
  note key = verdict_key_fill [of klen key "fill zero_verdict key klen alg m 0" alg m 0]
  have rk: "rk_algorithm rk = alg" "rk_mode rk = m" "unat (rk_key_length rk) = klen"
    "take klen (rk_key rk) = take klen key" "length (rk_key rk) = 64"
    using key klen len(1) by (simp_all add: rk_def v apply_iv_def sar_recovery_key_from_verdict_def Let_def)
  have "make_block alg (rk_key rk) klen = Some bc"
    using make_block_cong [OF rk(4) _ len(1) bc(2)] rk(5) klen bc(1) by simp
  then have "build_ciphers rk = Some (One_Cipher bc)"
    using seen(2) bc(3) by (auto simp: build_ciphers_def rk engine_modes_def)
  moreover have "precheck rk = SAR_RECOVER_OK"
  proof -
    from engine_try_block_modes_iv [OF wf(1) e] have iv: "m = SAR_MODE_OFB \<or> m = SAR_MODE_CTR \<longrightarrow> iv_length iv = alg_block alg"
      "m = SAR_MODE_CTR \<longrightarrow> 1 \<le> iv_tag iv \<and> iv_tag iv \<le> SAR_CTR_LAYOUT_COUNT" by (simp_all add: wf(2))
    have "rk_iv_length rk \<noteq> 0" if "m = SAR_MODE_OFB \<or> m = SAR_MODE_CTR"
    proof -
      have "v_iv_length v = word_of_nat (alg_block alg)" using that iv(1) by (simp add: v apply_iv_def)
      then show ?thesis by (simp add: rk_def sar_recovery_key_from_verdict_def Let_def alg_block_def sar_sizes)
    qed
    moreover have "rk_ctr_layout_tag rk \<noteq> 0 \<and> unat (rk_ctr_layout_tag rk) \<le> SAR_CTR_LAYOUT_COUNT" if "m = SAR_MODE_CTR"
    proof -
      have "unat (rk_ctr_layout_tag rk) = iv_tag iv"
        using that iv(2) by (simp add: rk_def v apply_iv_def sar_recovery_key_from_verdict_def Let_def unat_of_nat
            SAR_CTR_LAYOUT_COUNT_def take_bit_nat_eq_self)
      then show ?thesis using that iv(2) by (auto simp: unat_gt_0)
    qed
    note facts = calculation this
    from seen(2) consider "m = SAR_MODE_ECB" | "m = SAR_MODE_CBC" | "m = SAR_MODE_CFB"
      | "m = SAR_MODE_OFB" | "m = SAR_MODE_CTR" by (auto simp: engine_modes_def)
    then show ?thesis by cases (use facts bc(3) in \<open>simp_all add: precheck_def rk\<close>)
  qed
  ultimately show ?thesis
    using seen wf by (auto simp: block_proof_def Let_def rk(2) simp flip: rk_def)
qed

section \<open>AES windows\<close>

definition aes_words :: "nat \<Rightarrow> bytes list \<Rightarrow> bool" where
  "aes_words nk ws \<longleftrightarrow> length ws = nk \<and> (\<forall>w\<in>set ws. length w = 4)"

lemma aes_words_concat: "aes_words nk ws \<Longrightarrow> length (concat ws) = nk * 4"
  by (induction ws arbitrary: nk) (auto simp: aes_words_def)

lemma aes_prev_word_words:
  assumes "aes_words nk cur" "aes_words nk prev" "off < nk"
  shows "aes_words nk (aes_prev_word nk b cur off prev)"
proof -
  have "length (if off \<ge> 1 then cur ! (off - 1) else prev ! (nk - 1)) = 4" "length (cur ! off) = 4"
    using assms by (auto simp: aes_words_def)
  then show ?thesis
    using assms by (auto simp: aes_words_def aes_prev_word_def Let_def all_set_conv_all_nth nth_list_update)
qed

lemma aes_prev_block_words:
  assumes "aes_words nk (fst s)" "aes_words nk (snd s)"
  shows "aes_words nk (fst (aes_prev_block nk b s)) \<and> aes_words nk (snd (aes_prev_block nk b s))"
proof -
  obtain cur prev where s: "s = (cur, prev)" by (cases s)
  have "aes_words nk (fold (aes_prev_word nk b cur) offs p)" if "\<forall>off\<in>set offs. off < nk" "aes_words nk p" for offs p
    using that assms(1) by (induction offs arbitrary: p) (auto simp: s aes_prev_word_words)
  then show ?thesis using assms by (simp add: aes_prev_block_def Let_def s)
qed

lemma length_aes_master:
  assumes "aes_master_from_window klen window b = Some master" "klen \<in> {16, 24, 32}" "klen \<le> length window"
  shows "length master = klen"
proof -
  define nk where "nk = klen div 4"
  have nk: "klen = nk * 4" using assms(2) by (auto simp: nk_def)
  define st where "st = fold (aes_prev_block nk) (rev [1..<nat b + 1])
    (map (\<lambda>i. slice window (i * 4) 4) [0..<nk], replicate nk (replicate 4 0))"
  have "aes_words nk (map (\<lambda>i. slice window (i * 4) 4) [0..<nk])" "aes_words nk (replicate nk (replicate 4 0))"
    using assms(3) nk by (auto simp: aes_words_def)
  moreover have "aes_words nk (fst (fold (aes_prev_block nk) bs s))" if "aes_words nk (fst s)" "aes_words nk (snd s)" for bs s
    using that by (induction bs arbitrary: s) (simp_all add: aes_prev_block_words)
  ultimately have "aes_words nk (fst st)" by (simp add: st_def)
  then have "length (concat (fst st)) = nk * 4"
    using aes_words_concat by blast
  moreover have "master = concat (fst st)"
    using assms(1) by (simp add: aes_master_from_window_def Let_def st_def case_prod_unfold flip: nk_def split: if_splits)
  ultimately show ?thesis using nk by simp
qed

lemma length_aes_word_byteswap: "4 dvd len \<Longrightarrow> length (aes_word_byteswap src len) = len"
proof (induction len arbitrary: src rule: less_induct)
  case (less len)
  show ?case
  proof (cases "len = 0")
    case True
    then show ?thesis by (simp add: aes_word_byteswap.simps)
  next
    case False
    then have "4 \<le> len" "4 dvd len - 4" using less.prems by (auto simp: dvd_imp_le)
    then show ?thesis using less.IH [of "len - 4" "drop 4 src"] False by (subst aes_word_byteswap.simps) simp
  qed
qed

lemma aes_try_master_eq:
  "aes_try_master master klen pt ct len fo alg v = block_try (aes_bc master klen) master klen alg pt ct len fo v"
  by (simp add: aes_try_master_def block_try_def)

lemma aes_window_battery_sound:
  assumes "aes_window_battery window klen alg max_block pt ct len fo zero_verdict = Some v"
    and "is_aes_alg alg" "klen \<in> {16, 24, 32}" "klen \<le> length window" "len \<le> length pt" "len \<le> length ct"
  shows "block_proof v pt ct len"
proof -
  have key: "block_key_len alg klen" "is_block_alg alg" "make_block alg k klen = Some (aes_bc k klen)" for k
    using assms(2,3) by (auto simp: block_key_len_def is_block_alg_def is_aes_alg_def make_block_def aes_bc_def Let_def)
  have sound: "block_proof v pt ct len"
    if "aes_try_master master klen pt ct len fo alg zero_verdict = Some v" "klen \<le> length master" for master
    using that key assms(5,6) by (intro block_try_sound) (simp_all add: aes_try_master_eq)
  obtain k where k: "k = take klen window \<or> k = aes_word_byteswap window klen"
    "or_else (aes_try_master k klen pt ct len fo alg zero_verdict)
      (first_some (\<lambda>b. case aes_master_from_window klen k (int b) of None \<Rightarrow> None
        | Some master \<Rightarrow> aes_try_master master klen pt ct len fo alg zero_verdict) [1..<max_block + 1]) = Some v"
    using first_some_SomeD [OF assms(1) [unfolded aes_window_battery_def]] by auto
  have "length k = klen" using k(1) assms(3,4) length_aes_word_byteswap [of klen window] by auto
  from or_else_SomeD [OF k(2)] consider "aes_try_master k klen pt ct len fo alg zero_verdict = Some v"
    | b master where "aes_master_from_window klen k (int b) = Some master"
      "aes_try_master master klen pt ct len fo alg zero_verdict = Some v"
    by (auto dest!: first_some_SomeD split: option.splits)
  then show ?thesis
  proof cases
    case 1
    then show ?thesis using \<open>length k = klen\<close> by (intro sound [of k]) simp_all
  next
    case 2
    then have "length master = klen" using length_aes_master [OF 2(1) assms(3)] \<open>length k = klen\<close> by simp
    with 2 show ?thesis by (intro sound [of master]) simp_all
  qed
qed

section \<open>XTS\<close>

definition xts_proof :: "sar_verdict \<Rightarrow> bytes \<Rightarrow> bytes \<Rightarrow> nat \<Rightarrow> u64 \<Rightarrow> bool" where
  "xts_proof v pt ct len fo \<longleftrightarrow>
     (let rk = sar_recovery_key_from_verdict v
      in precheck rk = SAR_RECOVER_OK \<and> rk_mode rk = SAR_MODE_XTS \<and>
         (\<exists>bc1 bc2 skip. build_ciphers rk = Some (Xts_Ciphers bc1 bc2) \<and>
            skip + 16 \<le> len \<and> 16 dvd unat fo + skip \<and>
            slice ct skip 16 = xor_bytes (bc_E bc1 (xor_bytes (slice pt skip 16)
                (xts_tweak bc2 (unat (rk_mode_params rk)) ((unat fo + skip) div 16))))
              (xts_tweak bc2 (unat (rk_mode_params rk)) ((unat fo + skip) div 16))))"

lemma and15: "unat (x AND 15) = unat x mod 16" for x :: u64
proof -
  have "x AND 15 = take_bit 4 x" by (simp add: take_bit_eq_mask mask_numeral)
  then show ?thesis by (simp add: take_bit_eq_mod unat_mod)
qed

lemma xts_skip:
  "unat ((16 - (fo AND 15)) AND 15) = (16 - unat fo mod 16) mod 16" for fo :: u64
proof -
  have "unat (fo AND 15) \<le> unat (16 :: u64)" by (simp add: and15)
  then have "fo AND 15 \<le> 16" by (simp only: word_le_nat_alt)
  then have "unat (16 - (fo AND 15)) = 16 - unat fo mod 16" by (simp add: unat_sub and15)
  then show ?thesis by (simp add: and15)
qed

lemma xts_skip_dvd: "16 dvd n + (16 - n mod 16) mod 16" for n :: nat
proof (cases "n mod 16 = 0")
  case False
  then have "n + (16 - n mod 16) mod 16 = n div 16 * 16 + 16"
    using minus_mod_eq_div_mult [of n 16] mod_less_divisor [of 16 n] by simp
  then show ?thesis by (metis dvd_add dvd_refl dvd_triv_right)
qed auto

lemma engine_verify_xts_sound:
  assumes "engine_verify_xts bc1 bc2 pt ct len fo = Some du"
    and "wf_bc bc1" "wf_bc bc2" "bc_block_size bc1 = 16" "bc_block_size bc2 = 16"
    and "len \<le> length pt" "len \<le> length ct" "unat fo + 16 < 2 ^ 64"
  obtains skip k t where "du = 512 \<or> du = 4096" "skip + 16 \<le> len" "k * 16 = unat fo + skip"
    "t = xts_tweak bc2 (unat du) k" "slice ct skip 16 = xor_bytes (bc_E bc1 (xor_bytes (slice pt skip 16) t)) t"
proof -
  define skip where "skip = unat ((16 - (fo AND 15)) AND 15)"
  define aligned where "aligned = fo + word_of_nat skip"
  have sk_eq: "skip = (16 - unat fo mod 16) mod 16" unfolding skip_def by (rule xts_skip)
  have sk: "skip < 16" by (simp add: sk_eq)
  have al: "unat aligned = unat fo + skip"
  proof -
    have "unat (word_of_nat skip :: u64) = skip" using sk by (simp add: skip_def)
    then show ?thesis using assms(8) sk by (simp add: aligned_def unat_word_ariths)
  qed
  obtain k where k: "k * 16 = unat fo + skip"
    using xts_skip_dvd [of "unat fo"] by (metis dvd_def mult.commute sk_eq)
  have len: "skip + 16 \<le> len" and f: "find (\<lambda>du. xts_tweak_match bc1 bc2 (aligned div du)
      (unat ((aligned mod du) div 16)) (drop skip pt) (drop skip ct)) [512, 4096] = Some du"
    using assms(1) by (simp_all add: engine_verify_xts_def Let_def flip: skip_def aligned_def split: if_split_asm)
  from find_SomeD [OF f] have du: "du = 512 \<or> du = 4096" and match: "xts_tweak_match bc1 bc2 (aligned div du)
      (unat ((aligned mod du) div 16)) (drop skip pt) (drop skip ct)" by simp_all
  define t where "t = xts_tweak bc2 (unat du) k"
  have "unat ((aligned mod du) div 16) = (k * 16 mod unat du) div 16"
    by (simp add: unat_div unat_mod al k)
  moreover have "aligned div du = word_of_nat (k * 16 div unat du)"
    unfolding k al [symmetric] unat_div [symmetric] by simp
  ultimately have tw: "fold (\<lambda>_. gf128_mul_alpha) [0..<unat ((aligned mod du) div 16)]
      (bc_E bc2 (xts_tweak_in (aligned div du))) = t"
    by (simp only: t_def xts_tweak_def)
  have t: "length t = 16" by (simp add: t_def length_xts_tweak assms)
  have "sar_be_eq (xor_bytes (bc_E bc1 (xor_bytes (slice pt skip 16) t)) t) (drop skip ct) 16"
    using match unfolding xts_tweak_match_def case_prod_unfold Let_def fst_conv snd_conv tw slice_def by simp
  moreover have "length (xor_bytes (bc_E bc1 (xor_bytes (slice pt skip 16) t)) t) = 16"
    using t len assms(4,6) wf_bcD [OF assms(2)] by simp
  ultimately have "slice ct skip 16 = xor_bytes (bc_E bc1 (xor_bytes (slice pt skip 16) t)) t"
    using len assms(7) by (simp add: sar_be_eq_iff slice_def)
  with du len k t_def show thesis by (rule that)
qed

lemma xts_try_sound:
  assumes "xts_try bc1 bc2 key klen alg pt ct len fo zero_verdict = Some v"
    and bc: "make_block alg (take half key) half = Some bc1" "make_block alg (drop half key) half = Some bc2"
      "block_key_len alg half" "is_block_alg alg" "alg \<noteq> SAR_ALG_3DES"
    and key: "klen = 2 * half" "klen \<le> 64" "length key = klen"
    and len: "len \<le> length pt" "len \<le> length ct" "unat fo + 16 < 2 ^ 64"
  shows "xts_proof v pt ct len fo"
proof -
  have half: "0 < half" using bc(3) by (auto simp: block_key_len_def split: if_splits)
  have "aes_key_ok alg k half" if "half \<le> length k" for k
    using bc(3) that by (simp add: aes_key_ok_def block_key_len_def split: if_splits)
  then have wf: "wf_bc bc1" "wf_bc bc2" "bc_block_size bc1 = 16" "bc_block_size bc2 = 16"
    using make_block_wf [OF bc(1)] make_block_wf [OF bc(2)] key bc(5) by (simp_all add: alg_block_def)
  obtain du where e: "engine_verify_xts bc1 bc2 pt ct len fo = Some du" and v: "v = fill zero_verdict key klen alg SAR_MODE_XTS du"
    using assms(1) by (auto simp: xts_try_def split: option.splits)
  obtain skip k t where du: "du = 512 \<or> du = 4096" and skip: "skip + 16 \<le> len" "k * 16 = unat fo + skip"
    "t = xts_tweak bc2 (unat du) k" "slice ct skip 16 = xor_bytes (bc_E bc1 (xor_bytes (slice pt skip 16) t)) t"
    using e wf len by (rule engine_verify_xts_sound)
  define rk where "rk = sar_recovery_key_from_verdict v"
  have rk: "rk_algorithm rk = alg" "rk_mode rk = SAR_MODE_XTS" "rk_mode_params rk = du"
    "unat (rk_key_length rk) = klen" "take klen (rk_key rk) = take klen key" "length (rk_key rk) = 64"
    using verdict_key_fill [OF key(2) _ v] key(3) by (simp_all add: rk_def)
  have "take half (take klen (rk_key rk)) = take half key" using rk(5) key(3) by simp
  then have "take half (rk_key rk) = take half key" using key(1) by (simp add: min_def)
  then have "make_block alg (rk_key rk) half = Some bc1"
    using make_block_cong [of half "rk_key rk" "take half key" alg] bc rk(6) key by simp
  moreover have "take half (drop half (rk_key rk)) = drop half key"
    using arg_cong [OF rk(5), of "drop half"] key by (simp add: drop_take)
  then have "make_block alg (drop half (rk_key rk)) half = Some bc2"
    using make_block_cong [of half "drop half (rk_key rk)" "drop half key" alg] bc key rk(6) by simp
  ultimately have "build_ciphers rk = Some (Xts_Ciphers bc1 bc2)"
    using half key(1) by (simp add: build_ciphers_def rk make_xts_def Let_def)
  moreover have "precheck rk = SAR_RECOVER_OK"
    using du bc(4) by (auto simp: precheck_def rk)
  moreover have "(unat fo + skip) div 16 = k" by (simp flip: skip(2))
  moreover have "16 dvd unat fo + skip" by (simp flip: skip(2))
  ultimately show ?thesis
    using skip unfolding xts_proof_def rk_def [symmetric] Let_def rk(2,3) by blast
qed

section \<open>Stream ciphers\<close>

definition stream_proof :: "sar_verdict \<Rightarrow> bytes \<Rightarrow> bytes \<Rightarrow> nat \<Rightarrow> u64 \<Rightarrow> bool" where
  "stream_proof v pt ct len fo \<longleftrightarrow>
     (let rk = sar_recovery_key_from_verdict v; boff = unat (fo mod 64); n = min (64 - boff) len
      in precheck rk = SAR_RECOVER_OK \<and> rk_mode rk = SAR_MODE_STREAM \<and> rk_algorithm rk \<noteq> SAR_ALG_RC4 \<and>
         16 \<le> n \<and> take n ct = xor_bytes (take n pt) (slice (stream_block rk (fo div 64)) boff n))"

lemma stream_match_iff:
  assumes "boff + n \<le> length ks" "n \<le> length pt" "n \<le> length ct"
  shows "stream_match ks pt ct boff n \<longleftrightarrow> take n ct = xor_bytes (take n pt) (slice ks boff n)"
  using assms by (auto simp: stream_match_def list_all_iff list_eq_iff_nth_eq nth_xor_bytes nth_slice)

lemma stream_words_cong:
  assumes "take n x = take n y" "n \<le> length x" "n \<le> length y"
  shows "k + 4 \<le> n \<Longrightarrow> sar_le32 (drop k x) = sar_le32 (drop k y)"
  using assms by (intro sar_le32_cong) simp_all

lemma chacha_block_cong:
  assumes "take 32 k = take 32 k'" "32 \<le> length k" "32 \<le> length k'"
    and "take 12 n = take 12 n'" "12 \<le> length n" "12 \<le> length n'"
  shows "chacha_block k n c r = chacha_block k' n' c r"
proof -
  have "map (\<lambda>i. sar_le32 (drop (i * 4) k)) [0..<8] = map (\<lambda>i. sar_le32 (drop (i * 4) k')) [0..<8]"
    by (auto intro!: stream_words_cong [OF assms(1-3)])
  moreover have "sar_le32 n = sar_le32 n'" "sar_le32 (drop 4 n) = sar_le32 (drop 4 n')" "sar_le32 (drop 8 n) = sar_le32 (drop 8 n')"
    using stream_words_cong [OF assms(4-6), of 0] stream_words_cong [OF assms(4-6), of 4]
      stream_words_cong [OF assms(4-6), of 8] by simp_all
  ultimately show ?thesis unfolding chacha_block_def by (simp only:)
qed

lemma hchacha20_cong:
  assumes "take 32 k = take 32 k'" "32 \<le> length k" "32 \<le> length k'"
    and "take 16 n = take 16 n'" "16 \<le> length n" "16 \<le> length n'"
  shows "hchacha20 k n = hchacha20 k' n'"
proof -
  have "map (\<lambda>i. sar_le32 (drop (i * 4) k)) [0..<8] = map (\<lambda>i. sar_le32 (drop (i * 4) k')) [0..<8]"
    by (auto intro!: stream_words_cong [OF assms(1-3)])
  moreover have "sar_le32 n = sar_le32 n'" "sar_le32 (drop 4 n) = sar_le32 (drop 4 n')" "sar_le32 (drop 8 n) = sar_le32 (drop 8 n')"
    "sar_le32 (drop 12 n) = sar_le32 (drop 12 n')"
    using stream_words_cong [OF assms(4-6), of 0] stream_words_cong [OF assms(4-6), of 4]
      stream_words_cong [OF assms(4-6), of 8] stream_words_cong [OF assms(4-6), of 12] by simp_all
  ultimately show ?thesis unfolding hchacha20_def by (simp only:)
qed

lemma salsa_cong:
  assumes k: "take 32 k = take 32 k'" "32 \<le> length k" "32 \<le> length k'"
  shows "take 8 n = take 8 n' \<Longrightarrow> 8 \<le> length n \<Longrightarrow> 8 \<le> length n' \<Longrightarrow> salsa_block k n c r = salsa_block k' n' c r"
    and "take 16 n = take 16 n' \<Longrightarrow> 16 \<le> length n \<Longrightarrow> 16 \<le> length n' \<Longrightarrow> hsalsa20 k n = hsalsa20 k' n'"
proof -
  note w = stream_words_cong [OF k]
  have ks: "sar_le32 k = sar_le32 k'" "sar_le32 (drop 4 k) = sar_le32 (drop 4 k')" "sar_le32 (drop 8 k) = sar_le32 (drop 8 k')"
    "sar_le32 (drop 12 k) = sar_le32 (drop 12 k')" "sar_le32 (drop 16 k) = sar_le32 (drop 16 k')"
    "sar_le32 (drop 20 k) = sar_le32 (drop 20 k')" "sar_le32 (drop 24 k) = sar_le32 (drop 24 k')"
    "sar_le32 (drop 28 k) = sar_le32 (drop 28 k')"
    using w [of 0] w [of 4] w [of 8] w [of 12] w [of 16] w [of 20] w [of 24] w [of 28] by simp_all
  show "salsa_block k n c r = salsa_block k' n' c r" if "take 8 n = take 8 n'" "8 \<le> length n" "8 \<le> length n'"
    using stream_words_cong [OF that, of 0] stream_words_cong [OF that, of 4]
    unfolding salsa_block_def ks by (simp only: drop_0)
  show "hsalsa20 k n = hsalsa20 k' n'" if "take 16 n = take 16 n'" "16 \<le> length n" "16 \<le> length n'"
    using stream_words_cong [OF that, of 0] stream_words_cong [OF that, of 4] stream_words_cong [OF that, of 8]
      stream_words_cong [OF that, of 12]
    unfolding hsalsa20_def ks by (simp only: drop_0)
qed

lemma fill_stream_key:
  assumes "v = fill_stream zero_verdict key alg nonce nl rounds origin"
    and "length key = 32" "length nonce = nl" "nl \<le> 24" "rounds \<in> set STREAM_ROUNDS" "origin \<in> {0, 1}"
  defines "rk \<equiv> sar_recovery_key_from_verdict v"
  shows "rk_algorithm rk = alg" "rk_mode rk = SAR_MODE_STREAM" "take 32 (rk_key rk) = key" "length (rk_key rk) = 64"
    "take nl (rk_iv rk) = nonce" "length (rk_iv rk) = 24" "rk_iv_length rk = word_of_nat nl"
    "unat (drop_bit 8 (rk_mode_params rk) AND 0xff) = rounds" "rk_mode_params rk AND 0xff = word_of_nat origin"
proof -
  have nl: "unat (word_of_nat nl :: u8) = nl" using assms(4) by (simp add: unat_of_nat take_bit_nat_eq_self)
  have rk: "rk = \<lparr>rk_algorithm = alg, rk_mode = SAR_MODE_STREAM, rk_key_length = 32, rk_key = key @ replicate 32 0,
      rk_mode_params = push_bit 8 (word_of_nat rounds) OR word_of_nat origin,
      rk_iv = nonce @ replicate (24 - nl) 0, rk_iv_length = word_of_nat nl, rk_ctr_layout_tag = 0\<rparr>"
    using assms(2-4) nl
    by (simp add: rk_def assms(1) sar_recovery_key_from_verdict_def Let_def fill_stream_def fill_def zero_verdict_def
        sar_memcpy_def sar_sizes)
  show "rk_algorithm rk = alg" "rk_mode rk = SAR_MODE_STREAM" "take 32 (rk_key rk) = key" "length (rk_key rk) = 64"
    "take nl (rk_iv rk) = nonce" "length (rk_iv rk) = 24" "rk_iv_length rk = word_of_nat nl"
    using assms(2-4) by (simp_all add: rk)
  show "unat (drop_bit 8 (rk_mode_params rk) AND 0xff) = rounds" "rk_mode_params rk AND 0xff = word_of_nat origin"
    using assms(5,6) by (auto simp: rk STREAM_ROUNDS_def)
qed

lemma take_bit_64_add: "take_bit 32 (take_bit 64 b + k) = take_bit 32 (b + k)" for b k :: int
proof -
  have "take_bit 32 (take_bit 64 b + k) = take_bit 32 (take_bit 32 (take_bit 64 b) + take_bit 32 k)"
    by (simp only: take_bit_add)
  also have "\<dots> = take_bit 32 (take_bit 32 b + take_bit 32 k)" by simp
  finally show ?thesis by (simp only: take_bit_add)
qed

lemma ucast_counter: "(ucast (b + word_of_nat k) :: u32) = ucast b + word_of_nat k" for b :: u64
  by transfer (simp add: take_bit_64_add)

lemma stream_sample_len_min: "stream_sample_len boff len = min (64 - boff) len"
  by (simp add: stream_sample_len_def Let_def)

lemma fill_stream_precheck:
  assumes "v = fill_stream zero_verdict key alg nonce nl rounds origin"
    and "length key = 32" "length nonce = nl" "nl \<le> 24" "rounds \<in> set STREAM_ROUNDS" "origin \<in> {0, 1}"
    and "is_chacha_alg alg \<or> is_salsa_alg alg" "0 < nl"
  shows "precheck (sar_recovery_key_from_verdict v) = SAR_RECOVER_OK" "alg \<noteq> SAR_ALG_RC4"
proof -
  show "alg \<noteq> SAR_ALG_RC4" using assms(7) by (auto simp: is_chacha_alg_def is_salsa_alg_def sar_alg_defs)
  moreover have "(word_of_nat nl :: u8) \<noteq> 0"
    using assms(4,8) by (auto simp: word_of_nat_eq_0_iff dest: dvd_imp_le)
  ultimately show "precheck (sar_recovery_key_from_verdict v) = SAR_RECOVER_OK"
    using fill_stream_key [OF assms(1-6)] assms(7) by (simp add: precheck_def)
qed

lemma stream_fill_sound:
  assumes "v = fill_stream zero_verdict key alg nonce nl rounds origin"
    and "length key = 32" "length nonce = nl" "nl \<le> 24" "rounds \<in> set STREAM_ROUNDS" "origin \<in> {0, 1}"
    and alg: "is_chacha_alg alg \<or> is_salsa_alg alg" "0 < nl"
    and n: "n = stream_sample_len (unat (fo mod 64)) len" "\<not> n < 16" "len \<le> length pt" "len \<le> length ct"
    and m: "stream_match (stream_block (sar_recovery_key_from_verdict v) (fo div 64)) pt ct (unat (fo mod 64)) n"
  shows "stream_proof v pt ct len fo"
proof -
  have boff: "unat (fo mod 64) < 64" by (simp add: unat_mod)
  have n': "n = min (64 - unat (fo mod 64)) len" using n(1) by (simp add: stream_sample_len_min)
  have "take n ct = xor_bytes (take n pt)
      (slice (stream_block (sar_recovery_key_from_verdict v) (fo div 64)) (unat (fo mod 64)) n)"
    using m n(3,4) boff by (subst (asm) stream_match_iff) (simp_all add: n')
  then show ?thesis
    using n(2) fill_stream_precheck [OF assms(1-8)] fill_stream_key(1,2) [OF assms(1-6)]
    unfolding stream_proof_def Let_def n' [symmetric] by simp
qed

lemma try_chacha_cases:
  assumes "try_chacha gk key gn nonce nl pt ct len fo alg v0 = Some v"
  obtains origin rounds where "origin \<in> {0, 1}" "rounds \<in> set STREAM_ROUNDS"
    "\<not> stream_sample_len (unat (fo mod 64)) len < 16"
    "stream_match (chacha_block gk gn (ucast (fo div 64) + word_of_nat origin) rounds) pt ct (unat (fo mod 64))
       (stream_sample_len (unat (fo mod 64)) len)"
    "v = fill_stream v0 key alg nonce nl rounds origin"
proof -
  obtain origin rounds where m: "(origin, rounds) \<in> {0, 1} \<times> set STREAM_ROUNDS" and
    t: "(if stream_sample_len (unat (fo mod 64)) len < 16 then None
      else if stream_match (chacha_block gk gn (ucast (fo div 64) + word_of_nat origin) rounds) pt ct (unat (fo mod 64))
         (stream_sample_len (unat (fo mod 64)) len)
      then Some (fill_stream v0 key alg nonce nl rounds origin) else None) = Some v"
    using first_some_SomeD [OF assms [unfolded try_chacha_def Let_def]] by (force simp del: One_nat_def)
  show thesis
    by (rule that [of origin rounds]) (use m t in \<open>simp_all split: if_splits\<close>)
qed

lemma try_salsa_cases:
  assumes "try_salsa gk key gn nonce nl pt ct len fo alg v0 = Some v"
  obtains origin rounds where "origin \<in> {0, 1}" "rounds \<in> set STREAM_ROUNDS"
    "\<not> stream_sample_len (unat (fo mod 64)) len < 16"
    "stream_match (salsa_block gk gn (fo div 64 + word_of_nat origin) rounds) pt ct (unat (fo mod 64))
       (stream_sample_len (unat (fo mod 64)) len)"
    "v = fill_stream v0 key alg nonce nl rounds origin"
proof -
  obtain origin where o: "origin \<in> {0, 1}" and
    t: "(if stream_sample_len (unat (fo mod 64)) len < 16 then None
      else first_some (\<lambda>rounds. if stream_match (salsa_block gk gn (fo div 64 + word_of_nat origin) rounds) pt ct
             (unat (fo mod 64)) (stream_sample_len (unat (fo mod 64)) len)
           then Some (fill_stream v0 key alg nonce nl rounds origin) else None) STREAM_ROUNDS) = Some v"
    using first_some_SomeD [OF assms [unfolded try_salsa_def Let_def]] by (force simp del: One_nat_def)
  from t obtain rounds where r: "rounds \<in> set STREAM_ROUNDS" and
    t': "\<not> stream_sample_len (unat (fo mod 64)) len < 16"
      "(if stream_match (salsa_block gk gn (fo div 64 + word_of_nat origin) rounds) pt ct
             (unat (fo mod 64)) (stream_sample_len (unat (fo mod 64)) len)
           then Some (fill_stream v0 key alg nonce nl rounds origin) else None) = Some v"
    by (auto dest!: first_some_SomeD split: if_split_asm)
  show thesis
    by (rule that [of origin rounds]) (use o r t' in \<open>simp_all split: if_splits\<close>)
qed

lemma try_chacha_sound:
  assumes tried: "try_chacha gk key gn nonce nl pt ct len fo alg zero_verdict = Some v"
    and key: "length key = 32" "length nonce = nl" "len \<le> length pt" "len \<le> length ct"
    and alg: "alg = SAR_ALG_CHACHA20 \<and> gk = key \<and> gn = nonce \<and> nl = 12 \<or>
      alg = SAR_ALG_XCHACHA20 \<and> gk = hchacha20 key nonce \<and> gn = replicate 4 0 @ slice nonce 16 8 \<and> nl = 24"
  shows "stream_proof v pt ct len fo"
proof -
  obtain origin rounds where c: "origin \<in> {0, 1}" "rounds \<in> set STREAM_ROUNDS"
    "\<not> stream_sample_len (unat (fo mod 64)) len < 16"
    "stream_match (chacha_block gk gn (ucast (fo div 64) + word_of_nat origin) rounds) pt ct (unat (fo mod 64))
       (stream_sample_len (unat (fo mod 64)) len)"
    "v = fill_stream zero_verdict key alg nonce nl rounds origin"
    by (rule try_chacha_cases [OF tried])
  have nl: "nl \<le> 24" "0 < nl" using alg by auto
  define rk where "rk = sar_recovery_key_from_verdict v"
  note rk = fill_stream_key [OF c(5) key(1,2) nl(1) c(2,1), folded rk_def]
  have ch: "is_chacha_alg alg" using alg by (auto simp: is_chacha_alg_def)
  have "stream_block rk (fo div 64) = chacha_block gk gn (ucast (fo div 64) + word_of_nat origin) rounds"
  proof (cases "alg = SAR_ALG_XCHACHA20")
    case True
    then have x: "gk = hchacha20 key nonce" "gn = replicate 4 0 @ slice nonce 16 8" "nl = 24" "rk_iv rk = nonce"
      using alg rk(5,6) by (auto simp: sar_alg_defs)
    have "hchacha20 (rk_key rk) (rk_iv rk) = hchacha20 key nonce"
      using rk(3,4) key x by (intro hchacha20_cong) simp_all
    then show ?thesis using True ch by (simp add: stream_block_def rk ucast_counter x Let_def)
  next
    case False
    then have x: "gk = key" "gn = nonce" "nl = 12" using alg by auto
    have "chacha_block (rk_key rk) (rk_iv rk) c r = chacha_block key nonce c r" for c r
      using rk(3-6) key x by (intro chacha_block_cong) simp_all
    then show ?thesis using False ch by (simp add: stream_block_def rk ucast_counter x Let_def)
  qed
  then show ?thesis
    using c(4) ch by (intro stream_fill_sound [OF c(5) key(1,2) nl(1) c(2,1) _ nl(2) refl c(3) key(3,4)])
      (simp_all flip: rk_def)
qed

lemma try_salsa_sound:
  assumes tried: "try_salsa gk key gn nonce nl pt ct len fo alg zero_verdict = Some v"
    and key: "length key = 32" "length nonce = nl" "len \<le> length pt" "len \<le> length ct"
    and alg: "alg = SAR_ALG_SALSA20 \<and> gk = key \<and> gn = nonce \<and> nl = 8 \<or>
      alg = SAR_ALG_XSALSA20 \<and> gk = hsalsa20 key nonce \<and> gn = slice nonce 16 8 \<and> nl = 24"
  shows "stream_proof v pt ct len fo"
proof -
  obtain origin rounds where c: "origin \<in> {0, 1}" "rounds \<in> set STREAM_ROUNDS"
    "\<not> stream_sample_len (unat (fo mod 64)) len < 16"
    "stream_match (salsa_block gk gn (fo div 64 + word_of_nat origin) rounds) pt ct (unat (fo mod 64))
       (stream_sample_len (unat (fo mod 64)) len)"
    "v = fill_stream zero_verdict key alg nonce nl rounds origin"
    by (rule try_salsa_cases [OF tried])
  have nl: "nl \<le> 24" "0 < nl" using alg by auto
  define rk where "rk = sar_recovery_key_from_verdict v"
  note rk = fill_stream_key [OF c(5) key(1,2) nl(1) c(2,1), folded rk_def]
  have ch: "is_salsa_alg alg" "\<not> is_chacha_alg alg"
    using alg by (auto simp: is_chacha_alg_def is_salsa_alg_def sar_alg_defs)
  have "stream_block rk (fo div 64) = salsa_block gk gn (fo div 64 + word_of_nat origin) rounds"
  proof (cases "alg = SAR_ALG_XSALSA20")
    case True
    then have x: "gk = hsalsa20 key nonce" "gn = slice nonce 16 8" "nl = 24" "rk_iv rk = nonce"
      using alg rk(5,6) by (auto simp: sar_alg_defs)
    have "hsalsa20 (rk_key rk) (rk_iv rk) = hsalsa20 key nonce"
      using rk(3,4) key x by (intro salsa_cong(2)) simp_all
    then show ?thesis using True ch by (simp add: stream_block_def rk x Let_def)
  next
    case False
    then have x: "gk = key" "gn = nonce" "nl = 8" using alg by auto
    have "salsa_block (rk_key rk) (rk_iv rk) c r = salsa_block key nonce c r" for c r
      using rk(3-6) key x by (intro salsa_cong(1)) simp_all
    then show ?thesis using False ch by (simp add: stream_block_def rk x Let_def)
  qed
  then show ?thesis
    using c(4) ch by (intro stream_fill_sound [OF c(5) key(1,2) nl(1) c(2,1) _ nl(2) refl c(3) key(3,4)])
      (simp_all flip: rk_def)
qed

section \<open>RC4\<close>

lemma rc4_sbox_loop_iff:
  "length seen = 256 \<Longrightarrow> rc4_sbox_loop d xs seen \<longleftrightarrow> distinct (map (\<lambda>i. d ! i) xs) \<and> (\<forall>i\<in>set xs. seen ! unat (d ! i) = 0)"
proof (induction xs arbitrary: seen)
  case (Cons i xs)
  have "(seen[unat (d ! i) := 1]) ! unat (d ! j) = 0 \<longleftrightarrow> d ! j \<noteq> d ! i \<and> seen ! unat (d ! j) = 0" for j
    using Cons.prems by (auto simp: nth_list_update word_unat_eq_iff)
  then show ?case using Cons by (auto simp: image_iff)
qed simp

lemma is_rc4_sbox_iff: "length d = 256 \<Longrightarrow> is_rc4_sbox d \<longleftrightarrow> rc4_perm d"
  unfolding is_rc4_sbox_def rc4_perm_def using map_nth [of d] by (subst rc4_sbox_loop_iff) (simp_all del: upt_rec_numeral)

definition rc4_proof :: "sar_verdict \<Rightarrow> bytes \<Rightarrow> bytes \<Rightarrow> nat \<Rightarrow> u64 \<Rightarrow> bool" where
  "rc4_proof v pt ct len fo \<longleftrightarrow>
     (let rk = sar_recovery_key_from_verdict v
      in precheck rk = SAR_RECOVER_OK \<and> rk_mode rk = SAR_MODE_STREAM \<and> rk_algorithm rk = SAR_ALG_RC4 \<and>
         take len ct = xor_bytes (take len pt) (rc4_keystream ((rc4_step ^^ unat fo) (rc4_ksa rk, 0, 0)) len))"

definition rc4_state_proof :: "sar_verdict \<Rightarrow> bytes \<Rightarrow> bytes \<Rightarrow> bytes \<Rightarrow> nat \<Rightarrow> bool" where
  "rc4_state_proof v buf pt ct len \<longleftrightarrow>
     precheck (sar_recovery_key_from_verdict v) = SAR_RECOVER_DECLINED_STATE_ONLY \<and>
     (\<exists>off si sj. off + 256 \<le> length buf \<and> rc4_perm (slice buf off 256) \<and>
        take len ct = xor_bytes (take len pt) (rc4_keystream (slice buf off 256, si, sj) len))"

lemma rc4_ksa_cong:
  assumes "take n (rk_key rk) = take n key" "unat (rk_key_length rk) = n" "0 < n"
  shows "rc4_ksa rk = rc4_schedule key n"
proof -
  have "rc4_schedule_step (rk_key rk) n i st = rc4_schedule_step key n i st" for i st
    using arg_cong [OF assms(1), of "\<lambda>x. x ! (i mod n)"] assms(3) by (simp add: rc4_schedule_step_def)
  then have "rc4_schedule_step (rk_key rk) n = rc4_schedule_step key n" by blast
  then show ?thesis by (simp only: rc4_ksa_def rc4_schedule_def assms(2))
qed

lemma try_rc4_shortkey_sound:
  assumes tried: "try_rc4_shortkey key pt ct len fo zero_verdict = Some v"
    and len: "16 \<le> length key" "len \<le> length pt" "len \<le> length ct"
  shows "rc4_proof v pt ct len fo"
proof -
  obtain klen where k: "klen \<in> {5, 8, 16}" "rc4_verify key klen pt ct len (unat fo)"
    and v: "v = fill zero_verdict key klen SAR_ALG_RC4 SAR_MODE_STREAM 0"
    using first_some_SomeD [OF tried [unfolded try_rc4_shortkey_def]] by (auto split: if_split_asm)
  define rk where "rk = sar_recovery_key_from_verdict v"
  have klen: "klen \<le> 64" "klen \<le> length key" "0 < klen" using k(1) len(1) by auto
  note rk = verdict_key_fill [OF klen(1,2) v, folded rk_def]
  have "rc4_ksa rk = rc4_schedule key klen" using rk klen(3) by (intro rc4_ksa_cong) simp_all
  moreover have "rk_key_length rk \<noteq> 0" using rk(4) klen(3) by auto
  ultimately show ?thesis
    using k(2) rk len(2,3)
    by (simp add: rc4_proof_def Let_def rc4_verify_start rc4_check_keystream rc4_start_def precheck_def
        flip: rk_def)
qed

lemma rc4_state_scan_sound:
  assumes tried: "rc4_state_scan buf brute pt ct len zero_verdict = Some v" "brute \<le> length buf"
    and len: "len \<le> length pt" "len \<le> length ct"
  shows "rc4_state_proof v buf pt ct len"
proof -
  obtain off where o: "off < brute - 255" and t: "(if is_rc4_sbox (slice buf off 256) then
      or_else (if off + 258 \<le> length buf \<and>
          rc4_verify_state (slice buf off 256) (buf ! (off + 256)) (buf ! (off + 257)) pt ct len
        then Some (fill zero_verdict (slice buf off 256) 0 SAR_ALG_RC4 SAR_MODE_STREAM 0) else None)
      (if off + 264 \<le> length buf \<and>
          rc4_verify_state (slice buf off 256) (buf ! (off + 256)) (buf ! (off + 260)) pt ct len
        then Some (fill zero_verdict (slice buf off 256) 0 SAR_ALG_RC4 SAR_MODE_STREAM 0) else None)
      else None) = Some v"
    using first_some_SomeD [OF tried(1) [unfolded rc4_state_scan_def Let_def]] by (elim bexE) simp
  from t have sbox: "is_rc4_sbox (slice buf off 256)" by (simp split: if_split_asm)
  with t have d: "(if off + 258 \<le> length buf \<and>
          rc4_verify_state (slice buf off 256) (buf ! (off + 256)) (buf ! (off + 257)) pt ct len
        then Some (fill zero_verdict (slice buf off 256) 0 SAR_ALG_RC4 SAR_MODE_STREAM 0) else None) = Some v \<or>
      (if off + 264 \<le> length buf \<and>
          rc4_verify_state (slice buf off 256) (buf ! (off + 256)) (buf ! (off + 260)) pt ct len
        then Some (fill zero_verdict (slice buf off 256) 0 SAR_ALG_RC4 SAR_MODE_STREAM 0) else None) = Some v"
    by (intro or_else_SomeD) simp
  then have v: "v = fill zero_verdict (slice buf off 256) 0 SAR_ALG_RC4 SAR_MODE_STREAM 0"
    by (elim disjE) (simp_all split: if_split_asm)
  from d obtain si sj where st: "rc4_verify_state (slice buf off 256) si sj pt ct len"
    by (elim disjE) (simp_all split: if_split_asm)
  have off: "off + 256 \<le> length buf" using o tried(2) by linarith
  have "rc4_perm (slice buf off 256)" using sbox off by (simp add: is_rc4_sbox_iff)
  moreover have "take len ct = xor_bytes (take len pt) (rc4_keystream (slice buf off 256, si, sj) len)"
    using st len by (simp add: rc4_verify_state_def rc4_check_keystream)
  moreover have "precheck (sar_recovery_key_from_verdict v) = SAR_RECOVER_DECLINED_STATE_ONLY"
    using verdict_key_fill [OF _ _ v] by (simp add: precheck_def unat_eq_0)
  ultimately show ?thesis using off by (auto simp: rc4_state_proof_def)
qed

end
