(* ===== verification/Convict.thy ===== *)
theory Convict
  imports Battery_Correct
begin

text \<open>
  What \<^verbatim>\<open>sar_convict\<close> of \<^verbatim>\<open>engine/src/battery.c\<close> guarantees. \<open>sar_convict_sound\<close> composes the lemmas of the separate
  searches: every verdict carries a key, or an RC4 state, that explains a window of the sample.
  \<open>sar_convict_complete\<close> is the converse for the block modes: a key on offer that was used leads to a verdict.
\<close>

section \<open>The battery\<close>

lemma make_block_bc:
  "is_aes_alg alg \<Longrightarrow> make_block alg key klen = Some (aes_bc key klen)"
  "make_block SAR_ALG_SM4 key 16 = Some (sm4_bc key)" "make_block SAR_ALG_SEED key 16 = Some (seed_bc key)"
  "make_block SAR_ALG_CAMELLIA key klen = Some (camellia_bc key klen)"
  "make_block SAR_ALG_ARIA key klen = Some (aria_bc key klen)" "make_block SAR_ALG_3DES key 24 = Some (des3_bc key)"
  by (auto simp: make_block_def is_aes_alg_def Let_def aes_bc_def sm4_bc_def seed_bc_def camellia_bc_def aria_bc_def
      des3_bc_def sar_alg_defs)

lemma battery_algs:
  "is_aes_alg SAR_ALG_AES_128" "is_aes_alg SAR_ALG_AES_192" "is_aes_alg SAR_ALG_AES_256"
  "block_key_len SAR_ALG_AES_128 16" "block_key_len SAR_ALG_AES_256 32"
  "block_key_len SAR_ALG_SM4 16" "block_key_len SAR_ALG_SEED 16" "block_key_len SAR_ALG_3DES 24"
  "klen \<in> {16, 32} \<Longrightarrow> block_key_len SAR_ALG_CAMELLIA klen" "klen \<in> {16, 32} \<Longrightarrow> block_key_len SAR_ALG_ARIA klen"
  "is_block_alg SAR_ALG_AES_128" "is_block_alg SAR_ALG_AES_256" "is_block_alg SAR_ALG_SM4" "is_block_alg SAR_ALG_SEED"
  "is_block_alg SAR_ALG_3DES" "is_block_alg SAR_ALG_CAMELLIA" "is_block_alg SAR_ALG_ARIA"
  "SAR_ALG_AES_128 \<noteq> SAR_ALG_3DES" "SAR_ALG_AES_256 \<noteq> SAR_ALG_3DES" "SAR_ALG_SM4 \<noteq> SAR_ALG_3DES"
  "SAR_ALG_SEED \<noteq> SAR_ALG_3DES" "SAR_ALG_CAMELLIA \<noteq> SAR_ALG_3DES" "SAR_ALG_ARIA \<noteq> SAR_ALG_3DES"
  by (auto simp: is_aes_alg_def block_key_len_def is_block_alg_def sar_alg_defs)

lemma try_block_single_sound:
  assumes "try_block_single key pt ct len fo zero_verdict = Some v"
    and len: "16 \<le> length key" "len \<le> length pt" "len \<le> length ct"
  shows "block_proof v pt ct len"
  using or_else_SomeD [OF assms(1) [unfolded try_block_single_def]]
proof
  assume "aes_window_battery key 16 SAR_ALG_AES_128 10 pt ct len fo zero_verdict = Some v"
  then show ?thesis using len battery_algs by (intro aes_window_battery_sound) simp_all
next
  assume "first_some (\<lambda>(bc, alg). block_try bc key 16 alg pt ct len fo zero_verdict)
    [(sm4_bc key, SAR_ALG_SM4), (camellia_bc key 16, SAR_ALG_CAMELLIA), (aria_bc key 16, SAR_ALG_ARIA),
     (seed_bc key, SAR_ALG_SEED)] = Some v"
  then obtain bc alg where "block_try bc key 16 alg pt ct len fo zero_verdict = Some v"
    "make_block alg key 16 = Some bc" "block_key_len alg 16" "is_block_alg alg"
    using battery_algs make_block_bc by (fastforce dest!: first_some_SomeD)
  then show ?thesis using len by (rule block_try_sound)
qed

definition key_proof :: "sar_verdict \<Rightarrow> bytes \<Rightarrow> bytes \<Rightarrow> nat \<Rightarrow> u64 \<Rightarrow> bool" where
  "key_proof v pt ct len fo \<longleftrightarrow>
     block_proof v pt ct len \<or> xts_proof v pt ct len fo \<or> stream_proof v pt ct len fo \<or> rc4_proof v pt ct len fo"

lemma try_block_pair_sound:
  assumes "try_block_pair a b pt ct len fo zero_verdict = Some v"
    and key: "length a = 16" "length b = 16" and len: "len \<le> length pt" "len \<le> length ct" "unat fo + 16 < 2 ^ 64"
  shows "block_proof v pt ct len \<or> xts_proof v pt ct len fo"
proof -
  define k32 k24a k24b where keys: "k32 = take 16 a @ take 16 b" "k24a = take 16 a @ take 8 b" "k24b = slice a 8 8 @ take 16 b"
  have lens: "length k32 = 32" "length k24a = 24" "length k24b = 24" using key by (simp_all add: keys)
  have halves: "take 16 k32 = a" "drop 16 k32 = b" using key by (simp_all add: keys)
  from assms(1) consider
      "first_some (\<lambda>(key, klen, alg). aes_window_battery key klen alg 7 pt ct len fo zero_verdict)
         [(k32, 32, SAR_ALG_AES_256), (k24a, 24, SAR_ALG_AES_192), (k24b, 24, SAR_ALG_AES_192)] = Some v"
    | "first_some (\<lambda>(bc, key, klen, alg). block_try bc key klen alg pt ct len fo zero_verdict)
         [(des3_bc k24a, k24a, 24, SAR_ALG_3DES), (des3_bc k24b, k24b, 24, SAR_ALG_3DES),
          (camellia_bc k32 32, k32, 32, SAR_ALG_CAMELLIA), (aria_bc k32 32, k32, 32, SAR_ALG_ARIA)] = Some v"
    | "first_some (\<lambda>(bc1, bc2, alg). xts_try bc1 bc2 k32 32 alg pt ct len fo zero_verdict)
         [(aes_bc a 16, aes_bc b 16, SAR_ALG_AES_128), (sm4_bc a, sm4_bc b, SAR_ALG_SM4),
          (camellia_bc a 16, camellia_bc b 16, SAR_ALG_CAMELLIA), (aria_bc a 16, aria_bc b 16, SAR_ALG_ARIA),
          (seed_bc a, seed_bc b, SAR_ALG_SEED)] = Some v"
    unfolding try_block_pair_def Let_def keys [symmetric] by (auto dest!: or_else_SomeD simp del: first_some.simps)
  then show ?thesis
  proof cases
    case 1
    then obtain key klen alg where "aes_window_battery key klen alg 7 pt ct len fo zero_verdict = Some v"
      "is_aes_alg alg" "klen \<in> {16, 24, 32}" "klen \<le> length key"
      using battery_algs lens by (fastforce dest!: first_some_SomeD)
    then have "block_proof v pt ct len" using len(1,2) by (rule aes_window_battery_sound)
    then show ?thesis ..
  next
    case 2
    then obtain bc key klen alg where "block_try bc key klen alg pt ct len fo zero_verdict = Some v"
      "make_block alg key klen = Some bc" "block_key_len alg klen" "is_block_alg alg" "klen \<le> length key"
      using battery_algs make_block_bc lens by (fastforce dest!: first_some_SomeD)
    then have "block_proof v pt ct len" using len(1,2) by (rule block_try_sound)
    then show ?thesis ..
  next
    case 3
    then obtain bc1 bc2 alg where "xts_try bc1 bc2 k32 32 alg pt ct len fo zero_verdict = Some v"
      "make_block alg a 16 = Some bc1" "make_block alg b 16 = Some bc2" "block_key_len alg 16" "is_block_alg alg"
      "alg \<noteq> SAR_ALG_3DES"
      using battery_algs make_block_bc by (fastforce dest!: first_some_SomeD)
    then have "xts_proof v pt ct len fo" using lens len
      by (intro xts_try_sound [where half = 16 and key = k32]) (simp_all add: halves)
    then show ?thesis ..
  qed
qed

lemma aes256_xts_window_sound:
  assumes "aes256_xts_window win pt ct len fo zero_verdict = Some v"
    and "length win = 64" "len \<le> length pt" "len \<le> length ct" "unat fo + 16 < 2 ^ 64"
  shows "xts_proof v pt ct len fo"
proof -
  have "aes_bc win 32 = aes_bc (take 32 win) 32" unfolding aes_bc_def
    by (subst aes_setkey_cong [of 32 win "take 32 win"]) (use assms(2) in simp_all)
  then show ?thesis
    using assms battery_algs make_block_bc(1)
    by (intro xts_try_sound [where half = 32 and key = win and klen = 64 and alg = SAR_ALG_AES_256])
      (simp_all add: aes256_xts_window_def)
qed

lemma try_stream_ciphers_sound:
  "try_chacha key key nonce nonce 12 pt ct len fo SAR_ALG_CHACHA20 zero_verdict = Some v \<Longrightarrow>
     length key = 32 \<Longrightarrow> length nonce = 12 \<Longrightarrow> len \<le> length pt \<Longrightarrow> len \<le> length ct \<Longrightarrow> stream_proof v pt ct len fo"
  "try_salsa key key nonce nonce 8 pt ct len fo SAR_ALG_SALSA20 zero_verdict = Some v \<Longrightarrow>
     length key = 32 \<Longrightarrow> length nonce = 8 \<Longrightarrow> len \<le> length pt \<Longrightarrow> len \<le> length ct \<Longrightarrow> stream_proof v pt ct len fo"
  "try_chacha (hchacha20 key nonce) key (replicate 4 0 @ slice nonce 16 8) nonce 24 pt ct len fo SAR_ALG_XCHACHA20
     zero_verdict = Some v \<Longrightarrow>
     length key = 32 \<Longrightarrow> length nonce = 24 \<Longrightarrow> len \<le> length pt \<Longrightarrow> len \<le> length ct \<Longrightarrow> stream_proof v pt ct len fo"
  "try_salsa (hsalsa20 key nonce) key (slice nonce 16 8) nonce 24 pt ct len fo SAR_ALG_XSALSA20
     zero_verdict = Some v \<Longrightarrow>
     length key = 32 \<Longrightarrow> length nonce = 24 \<Longrightarrow> len \<le> length pt \<Longrightarrow> len \<le> length ct \<Longrightarrow> stream_proof v pt ct len fo"
  by ((erule try_chacha_sound; simp), (erule try_salsa_sound; simp),
    (erule try_chacha_sound; simp), (erule try_salsa_sound; simp))

lemma try_stream_sound:
  assumes tried: "try_stream cands pt ct len fo zero_verdict = Some v"
    and cands: "\<forall>c\<in>set cands. length c = 16" and len: "len \<le> length pt" "len \<le> length ct"
  shows "stream_proof v pt ct len fo"
proof -
  have c: "length (cands ! i) = 16" if "i < length cands" for i using cands that by simp
  show ?thesis
    using tried unfolding try_stream_def Let_def
    by (elim tried_elims; elim try_stream_ciphers_sound; simp add: c len)
qed

lemma aes_try_master_sound:
  assumes "aes_try_master master klen pt ct len fo alg zero_verdict = Some v"
    and "is_aes_alg alg" "klen \<in> {16, 24, 32}" "klen \<le> length master" "len \<le> length pt" "len \<le> length ct"
  shows "block_proof v pt ct len"
  using assms make_block_bc(1) [OF assms(2)]
  by (intro block_try_sound [where bc = "aes_bc master klen"])
    (auto simp: aes_try_master_eq block_key_len_def is_block_alg_def is_aes_alg_def)

lemma aes_schedule_scan_sound:
  assumes "aes_schedule_scan buf pt ct len fo zero_verdict = Some v" "len \<le> length pt" "len \<le> length ct"
  shows "block_proof v pt ct len"
proof -
  obtain off klen slen alg where k: "(klen, slen, alg) \<in> {(16, 176, SAR_ALG_AES_128), (24, 208, SAR_ALG_AES_192), (32, 240, SAR_ALG_AES_256)}"
    and t: "(if off + slen > length buf then None
         else if \<not> aes_schedule_is_valid (slice buf off slen) klen then None
         else aes_try_master (slice buf off klen) klen pt ct len fo alg zero_verdict) = Some v"
    using assms(1) unfolding aes_schedule_scan_def
    by (elim first_some_SomeE, simp only: set_product split_paired_all mem_Sigma_iff list.set case_prod_conv, elim conjE)
      (rule that)
  have "aes_try_master (slice buf off klen) klen pt ct len fo alg zero_verdict = Some v" "off + slen \<le> length buf"
    using t by (simp_all split: if_split_asm)
  moreover have "is_aes_alg alg" "klen \<in> {16, 24, 32}" "klen \<le> slen" using k battery_algs by auto
  ultimately show ?thesis using assms(2,3)
    by (intro aes_try_master_sound [where master = "slice buf off klen" and klen = klen]) simp_all
qed

lemma stream_sigma_scan_sound:
  assumes "stream_sigma_scan buf pt ct len fo zero_verdict = Some v" "len \<le> length pt" "len \<le> length ct"
  shows "stream_proof v pt ct len fo"
  using assms(1) unfolding stream_sigma_scan_def Let_def
  by (elim tried_elims; elim try_stream_ciphers_sound; simp add: assms(2,3))

lemma key_proofI:
  "block_proof v pt ct len \<Longrightarrow> key_proof v pt ct len fo" "xts_proof v pt ct len fo \<Longrightarrow> key_proof v pt ct len fo"
  "block_proof v pt ct len \<or> xts_proof v pt ct len fo \<Longrightarrow> key_proof v pt ct len fo"
  "stream_proof v pt ct len fo \<Longrightarrow> key_proof v pt ct len fo" "rc4_proof v pt ct len fo \<Longrightarrow> key_proof v pt ct len fo"
  by (simp_all add: key_proof_def) argo

lemma window_scan_sound:
  assumes "window_scan buf brute pt ct len fo zero_verdict = Some v" "brute \<le> length buf"
    and len: "len \<le> length pt" "len \<le> length ct" "unat fo + 16 < 2 ^ 64"
  shows "key_proof v pt ct len fo"
proof -
  obtain off where "off \<in> set (map (\<lambda>k. k * 16) [0..<brute div 16])" and
    t: "or_else (try_block_single (slice buf off 16) pt ct len fo zero_verdict)
         (or_else
           (if off + 32 \<le> brute \<and> candidate_viable (slice buf (off + 16) 16)
            then try_block_pair (slice buf off 16) (slice buf (off + 16) 16) pt ct len fo zero_verdict else None)
           (or_else
             (if off + 64 \<le> brute then aes256_xts_window (slice buf off 64) pt ct len fo zero_verdict else None)
             (try_rc4_shortkey (slice buf off 16) pt ct len fo zero_verdict))) = Some v"
    using assms(1) unfolding window_scan_def by (elim first_some_SomeE if_SomeE2)
  then have off: "off + 16 \<le> length buf" using assms(2) by (auto simp: less_eq_div_iff_mult_less_eq)
  have sl: "length (slice buf (off + k) n) = n" if "off + k + n \<le> brute" for k n
    using that assms(2) by simp
  note sl = sl [of 16 16] sl [of 0 64]
  from t show ?thesis
  proof (elim or_else_SomeE if_SomeE1 conjE)
    assume "try_block_single (slice buf off 16) pt ct len fo zero_verdict = Some v"
    then show ?thesis by - (rule key_proofI(1), erule try_block_single_sound, use off len in simp_all)
  next
    assume "try_block_pair (slice buf off 16) (slice buf (off + 16) 16) pt ct len fo zero_verdict = Some v" "off + 32 \<le> brute"
    then show ?thesis by - (rule key_proofI(3), erule try_block_pair_sound, use off sl len in simp_all)
  next
    assume "aes256_xts_window (slice buf off 64) pt ct len fo zero_verdict = Some v" "off + 64 \<le> brute"
    then show ?thesis by - (rule key_proofI(2), erule aes256_xts_window_sound, use sl len in simp_all)
  next
    assume "try_rc4_shortkey (slice buf off 16) pt ct len fo zero_verdict = Some v"
    then show ?thesis by - (rule key_proofI(5), erule try_rc4_shortkey_sound, use off len in simp_all)
  qed
qed

lemma scan_battery_sound:
  assumes "scan_battery buf pt ct len fo zero_verdict = Some v"
    and len: "len \<le> length pt" "len \<le> length ct" "unat fo + 16 < 2 ^ 64"
  shows "key_proof v pt ct len fo \<or> rc4_state_proof v buf pt ct len"
  using assms(1) unfolding scan_battery_def Let_def
proof (elim or_else_SomeE)
  assume "aes_schedule_scan buf pt ct len fo zero_verdict = Some v"
  then show ?thesis using len by (intro disjI1 key_proofI(1) aes_schedule_scan_sound)
next
  assume "stream_sigma_scan buf pt ct len fo zero_verdict = Some v"
  then show ?thesis using len by (intro disjI1 key_proofI(4) stream_sigma_scan_sound)
next
  assume "rc4_state_scan buf (if length buf < SAR_SCAN_BRUTE_CAP then length buf else SAR_SCAN_BRUTE_CAP) pt ct len zero_verdict = Some v"
  then show ?thesis using len by (intro disjI2 rc4_state_scan_sound) auto
next
  assume "window_scan buf (if length buf < SAR_SCAN_BRUTE_CAP then length buf else SAR_SCAN_BRUTE_CAP) pt ct len fo zero_verdict = Some v"
  then show ?thesis by - (rule disjI1, erule window_scan_sound, use len in simp_all)
qed

definition verdict_proof :: "sar_engine_input \<Rightarrow> bytes \<Rightarrow> bytes \<Rightarrow> sar_verdict \<Rightarrow> bool" where
  "verdict_proof input pt ct v \<longleftrightarrow>
     (let len = unat (ei_sample_size input); fo = ei_file_offset input
      in key_proof v pt ct len fo \<or> (\<exists>buf. ei_scan_buffer input = Some buf \<and> rc4_state_proof v buf pt ct len))"

lemma sar_convict_sound:
  assumes tried: "sar_convict input = Some v" and io: "ei_plaintext input = Some pt" "ei_ciphertext input = Some ct"
    and cands: "\<forall>c\<in>set (ei_candidates input). length c = 16"
    and len: "unat (ei_sample_size input) \<le> length pt" "unat (ei_sample_size input) \<le> length ct"
      "unat (ei_file_offset input) + 16 < 2 ^ 64"
  shows "verdict_proof input pt ct v"
proof -
  let ?len = "unat (ei_sample_size input)" and ?fo = "ei_file_offset input" and ?cands = "ei_candidates input"
  have c: "length (?cands ! i) = 16" if "i \<in> set [0..<length ?cands]" for i using cands that by simp
  have "key_proof v pt ct ?len ?fo \<or> (\<exists>buf. ei_scan_buffer input = Some buf \<and> rc4_state_proof v buf pt ct ?len)"
    using tried unfolding sar_convict_def io prod.case option.case Let_def
  proof (elim if_SomeE2 or_else_SomeE first_some_SomeE)
    fix i assume "i \<in> set [0..<length ?cands]" "try_block_single (?cands ! i) pt ct ?len ?fo zero_verdict = Some v"
    then show ?thesis by - (rule disjI1, rule key_proofI(1), erule try_block_single_sound, use c len in simp_all)
  next
    fix i j assume "i \<in> set [0..<length ?cands]" "j \<in> set [0..<length ?cands]"
      "try_block_pair (?cands ! i) (?cands ! j) pt ct ?len ?fo zero_verdict = Some v"
    then show ?thesis by - (rule disjI1, rule key_proofI(3), erule try_block_pair_sound, use c len in simp_all)
  next
    assume "try_stream ?cands pt ct ?len ?fo zero_verdict = Some v"
    then show ?thesis by - (rule disjI1, rule key_proofI(4), erule try_stream_sound, use cands len in simp_all)
  next
    fix i assume "i \<in> set [0..<length ?cands]" "try_rc4_shortkey (?cands ! i) pt ct ?len ?fo zero_verdict = Some v"
    then show ?thesis by - (rule disjI1, rule key_proofI(5), erule try_rc4_shortkey_sound, use c len in simp_all)
  next
    assume "(case ei_scan_buffer input of None \<Rightarrow> None
      | Some buf \<Rightarrow> if 16 \<le> length buf then scan_battery buf pt ct ?len ?fo zero_verdict else None) = Some v"
    then obtain buf where "ei_scan_buffer input = Some buf" "scan_battery buf pt ct ?len ?fo zero_verdict = Some v"
      by (auto split: option.split_asm if_split_asm)
    then show ?thesis using scan_battery_sound [OF _ len] by blast
  qed
  then show ?thesis by (simp add: verdict_proof_def Let_def)
qed

section \<open>Keys that are found\<close>

lemma block_try_complete:
  assumes "wf_bc bc" "len \<le> length pt" "len \<le> length ct" "m \<in> set engine_modes" "mode_seen bc pt ct len m"
  shows "block_try bc key klen alg pt ct len fo v \<noteq> None"
proof -
  obtain m' where "find (mode_seen bc pt ct len) engine_modes = Some m'"
    using assms(4,5) by (metis find_None_iff option.exhaust)
  then obtain iv where "engine_try_block_modes bc pt ct len fo (Some local_iv) = (Some m', iv)"
    using engine_try_block_modes_find [OF assms(1-3), of fo "Some local_iv"] by (metis prod.collapse)
  moreover from engine_try_block_modes_iv [OF assms(1) this] obtain iv' where "iv = Some iv'" by blast
  ultimately show ?thesis by (simp add: block_try_def)
qed

lemma aes_window_battery_complete:
  assumes "wf_bc (aes_bc window klen)" "len \<le> length pt" "len \<le> length ct" "m \<in> set engine_modes"
    and "mode_seen (aes_bc window klen) pt ct len m"
  shows "aes_window_battery window klen alg max_block pt ct len fo v \<noteq> None"
proof -
  have "aes_bc (take klen window) klen = aes_bc window klen" unfolding aes_bc_def
    by (subst aes_setkey_cong [of klen "take klen window" window]) simp_all
  then have "aes_try_master (take klen window) klen pt ct len fo alg v \<noteq> None"
    using block_try_complete [OF assms] by (simp add: aes_try_master_eq)
  then show ?thesis unfolding aes_window_battery_def first_some_None_iff or_else_None_iff by simp
qed

definition offers_key :: "sar_engine_input \<Rightarrow> u32 \<Rightarrow> bytes \<Rightarrow> bool" where
  "offers_key input alg key \<longleftrightarrow>
     (let cands = ei_candidates input
      in (\<exists>i < length cands. candidate_viable (cands ! i) \<and> key = cands ! i \<and>
            alg \<in> {SAR_ALG_AES_128, SAR_ALG_SM4, SAR_ALG_CAMELLIA, SAR_ALG_ARIA, SAR_ALG_SEED}) \<or>
         (\<exists>i < length cands. \<exists>j < length cands. i \<noteq> j \<and> candidate_viable (cands ! i) \<and>
            (key = cands ! i @ cands ! j \<and> alg \<in> {SAR_ALG_AES_256, SAR_ALG_CAMELLIA, SAR_ALG_ARIA} \<or>
             (key = cands ! i @ take 8 (cands ! j) \<or> key = drop 8 (cands ! i) @ cands ! j) \<and>
               alg \<in> {SAR_ALG_AES_192, SAR_ALG_3DES})) \<or>
         (\<exists>buf off. ei_scan_buffer input = Some buf \<and>
            (alg, length key) \<in> {(SAR_ALG_AES_128, 16), (SAR_ALG_AES_192, 24), (SAR_ALG_AES_256, 32)} \<and>
            off + 16 * (length key div 4 + 7) \<le> length buf \<and>
            slice buf off (16 * (length key div 4 + 7)) = aes_rk (aes_setkey key (length key))))"

lemma try_block_single_complete:
  assumes bc: "make_block alg key 16 = Some bc" "alg \<in> {SAR_ALG_AES_128, SAR_ALG_SM4, SAR_ALG_CAMELLIA, SAR_ALG_ARIA, SAR_ALG_SEED}"
    and s: "wf_bc bc" "len \<le> length pt" "len \<le> length ct" "m \<in> set engine_modes" "mode_seen bc pt ct len m"
  shows "try_block_single key pt ct len fo v \<noteq> None"
proof (cases "alg = SAR_ALG_AES_128")
  case True
  then have "bc = aes_bc key 16" using bc(1) make_block_bc(1) battery_algs by simp
  then show ?thesis
    unfolding try_block_single_def using s by (intro or_else_hit(1) aes_window_battery_complete) simp_all
next
  case False
  then have "(bc, alg) \<in> {(sm4_bc key, SAR_ALG_SM4), (camellia_bc key 16, SAR_ALG_CAMELLIA), (aria_bc key 16, SAR_ALG_ARIA),
          (seed_bc key, SAR_ALG_SEED)}"
    using bc(2) by (elim insertE emptyE) (use bc(1) in \<open>simp_all add: make_block_bc(2-5)\<close>)
  then show ?thesis
    unfolding try_block_single_def using block_try_complete [OF s, of key 16 alg fo v]
    by (intro or_else_hit(2) first_some_hit [where x = "(bc, alg)"]) (simp_all only: list.set case_prod_conv not_False_eq_True)
qed

lemma try_block_pair_complete:
  assumes bc: "make_block alg key (length key) = Some bc" and ab: "length a = 16" "length b = 16"
    and key: "key = a @ b \<and> alg \<in> {SAR_ALG_AES_256, SAR_ALG_CAMELLIA, SAR_ALG_ARIA} \<or>
        (key = a @ take 8 b \<or> key = drop 8 a @ b) \<and> alg \<in> {SAR_ALG_AES_192, SAR_ALG_3DES}"
    and s: "wf_bc bc" "len \<le> length pt" "len \<le> length ct" "m \<in> set engine_modes" "mode_seen bc pt ct len m"
  shows "try_block_pair a b pt ct len fo v \<noteq> None"
proof -
  define k32 k24a k24b where keys: "k32 = take 16 a @ take 16 b" "k24a = take 16 a @ take 8 b" "k24b = slice a 8 8 @ take 16 b"
  have eq: "k32 = a @ b" "k24a = a @ take 8 b" "k24b = drop 8 a @ b" using ab by (simp_all add: keys slice_def)
  show ?thesis
  proof (cases "is_aes_alg alg")
    case True
    then have k: "(key, length key, alg) \<in> {(k32, 32, SAR_ALG_AES_256), (k24a, 24, SAR_ALG_AES_192), (k24b, 24, SAR_ALG_AES_192)}"
      using key ab True by (elim disjE conjE insertE emptyE) (simp_all add: eq is_aes_alg_def sar_alg_defs)
    have "aes_window_battery key (length key) alg 7 pt ct len fo v \<noteq> None"
      using s bc make_block_bc(1) [OF True] by (intro aes_window_battery_complete) simp_all
    then show ?thesis using k unfolding try_block_pair_def Let_def keys [symmetric]
      by (intro or_else_hit(1) first_some_hit [where x = "(key, length key, alg)"]) (simp_all only: list.set case_prod_conv not_False_eq_True)
  next
    case False
    then have k: "(bc, key, length key, alg) \<in> {(des3_bc k24a, k24a, 24, SAR_ALG_3DES), (des3_bc k24b, k24b, 24, SAR_ALG_3DES),
          (camellia_bc k32 32, k32, 32, SAR_ALG_CAMELLIA), (aria_bc k32 32, k32, 32, SAR_ALG_ARIA)}"
      using key by (elim disjE conjE insertE emptyE) (use ab bc battery_algs(1-3) False in \<open>simp_all add: eq make_block_bc(4-6)\<close>)
    then show ?thesis using block_try_complete [OF s, of key "length key" alg fo v]
      unfolding try_block_pair_def Let_def keys [symmetric]
      by (intro or_else_hit(2) [OF or_else_hit(1)] first_some_hit [where x = "(bc, key, length key, alg)"])
        (simp_all only: list.set case_prod_conv not_False_eq_True)
  qed
qed

lemma aes_schedule_scan_complete:
  assumes alg: "(alg, klen) \<in> {(SAR_ALG_AES_128, 16), (SAR_ALG_AES_192, 24), (SAR_ALG_AES_256, 32)}" "length key = klen"
    and buf: "off + 16 * (klen div 4 + 7) \<le> length buf" "slice buf off (16 * (klen div 4 + 7)) = aes_rk (aes_setkey key klen)"
    and s: "wf_bc (aes_bc key klen)" "len \<le> length pt" "len \<le> length ct" "m \<in> set engine_modes"
      "mode_seen (aes_bc key klen) pt ct len m"
  shows "aes_schedule_scan buf pt ct len fo v \<noteq> None"
proof -
  define slen where "slen = 16 * (klen div 4 + 7)"
  have klen: "klen \<in> {16, 24, 32}" "4 * (klen div 4) = klen" "klen \<le> slen" using alg(1) by (auto simp: slen_def)
  have off: "off + slen \<le> length buf" using buf(1) by (simp add: slen_def)
  have sched: "slice buf off slen = aes_rk (aes_setkey key klen)" using buf(2) by (simp add: slen_def)
  have "take klen (slice buf off slen) = key"
    using take_aes_expand [of "klen div 4" key "4 * (klen div 4 + 7)"] klen alg(2) by (auto simp: sched aes_setkey_expand)
  then have key: "slice buf off klen = key" using klen(3) by (simp add: slice_def min_absorb1)
  have "aes_setkey (slice buf off slen) klen = aes_setkey key klen"
    using \<open>take klen (slice buf off slen) = key\<close> alg(2) by (intro aes_setkey_cong) simp
  then have valid: "aes_schedule_is_valid (slice buf off slen) klen"
    using aes_schedule_is_valid_iff [of klen "slice buf off slen"] klen(1) off sched by (auto simp: slen_def)
  have "(off, klen, slen, alg) \<in> set (List.product [0..<length buf - 175]
      [(16, 176, SAR_ALG_AES_128), (24, 208, SAR_ALG_AES_192), (32, 240, SAR_ALG_AES_256)])"
    using alg(1) off by (auto simp: slen_def)
  then show ?thesis
    unfolding aes_schedule_scan_def
    by (rule first_some_hit)
      (use valid off key block_try_complete [OF s, of key klen alg fo v] in \<open>simp add: aes_try_master_eq\<close>)
qed

lemma make_block_aes: "(alg, klen) \<in> {(SAR_ALG_AES_128, 16), (SAR_ALG_AES_192, 24), (SAR_ALG_AES_256, 32)} \<Longrightarrow>
    make_block alg key klen = Some (aes_bc key klen)"
  using make_block_bc(1) battery_algs(1-3) by (elim insertE emptyE) simp_all

lemma sar_convict_hit:
  assumes io: "ei_plaintext input = Some pt" "ei_ciphertext input = Some ct" "16 \<le> ei_sample_size input"
  defines "len \<equiv> unat (ei_sample_size input)" and "fo \<equiv> ei_file_offset input" and "cands \<equiv> ei_candidates input"
  shows "i < length cands \<Longrightarrow> candidate_viable (cands ! i) \<Longrightarrow>
      try_block_single (cands ! i) pt ct len fo zero_verdict \<noteq> None \<Longrightarrow> sar_convict input \<noteq> None"
    and "i < length cands \<Longrightarrow> candidate_viable (cands ! i) \<Longrightarrow> j < length cands \<Longrightarrow> i \<noteq> j \<Longrightarrow>
      try_block_pair (cands ! i) (cands ! j) pt ct len fo zero_verdict \<noteq> None \<Longrightarrow> sar_convict input \<noteq> None"
    and "ei_scan_buffer input = Some buf \<Longrightarrow> 16 \<le> length buf \<Longrightarrow>
      aes_schedule_scan buf pt ct len fo zero_verdict \<noteq> None \<Longrightarrow> sar_convict input \<noteq> None"
proof -
  have size: "\<not> ei_sample_size input < 16" using io(3) by simp
  note convict = sar_convict_def [of input, unfolded io prod.case option.case Let_def if_not_P [OF size],
      folded len_def fo_def cands_def]
  show "sar_convict input \<noteq> None" if "i < length cands" "candidate_viable (cands ! i)"
    "try_block_single (cands ! i) pt ct len fo zero_verdict \<noteq> None"
    unfolding convict using that by (intro or_else_hit(1) first_some_hit [where x = i]) simp_all
  show "sar_convict input \<noteq> None" if "i < length cands" "candidate_viable (cands ! i)" "j < length cands" "i \<noteq> j"
    "try_block_pair (cands ! i) (cands ! j) pt ct len fo zero_verdict \<noteq> None"
  proof -
    have "first_some (\<lambda>j. if i = j then None else try_block_pair (cands ! i) (cands ! j) pt ct len fo zero_verdict)
        [0..<length cands] \<noteq> None"
      using that by (intro first_some_hit [where x = j]) simp_all
    then show ?thesis unfolding convict using that
      by (intro or_else_hit(2) [OF or_else_hit(1)] first_some_hit [where x = i]) simp_all
  qed
  show "sar_convict input \<noteq> None" if "ei_scan_buffer input = Some buf" "16 \<le> length buf"
    "aes_schedule_scan buf pt ct len fo zero_verdict \<noteq> None"
  proof -
    have "scan_battery buf pt ct len fo zero_verdict \<noteq> None"
      unfolding scan_battery_def Let_def using that(3) by (rule or_else_hit(1))
    then show ?thesis unfolding convict that(1) option.case if_P [OF that(2)]
      by (intro or_else_hit(2))
  qed
qed

lemma sar_convict_complete:
  assumes key: "offers_key input alg key" "make_block alg key (length key) = Some bc"
    and io: "ei_plaintext input = Some pt" "ei_ciphertext input = Some ct"
    and cands: "\<forall>c\<in>set (ei_candidates input). length c = 16" and size: "16 \<le> ei_sample_size input"
    and s: "wf_bc bc" "unat (ei_sample_size input) \<le> length pt" "unat (ei_sample_size input) \<le> length ct"
      "m \<in> set engine_modes" "mode_seen bc pt ct (unat (ei_sample_size input)) m"
  shows "sar_convict input \<noteq> None"
proof -
  let ?len = "unat (ei_sample_size input)" and ?fo = "ei_file_offset input" and ?cands = "ei_candidates input"
  have c: "length (?cands ! i) = 16" if "i < length ?cands" for i using cands that by simp
  from key(1) consider
      (one) i where "i < length ?cands" "candidate_viable (?cands ! i)" "key = ?cands ! i"
        "alg \<in> {SAR_ALG_AES_128, SAR_ALG_SM4, SAR_ALG_CAMELLIA, SAR_ALG_ARIA, SAR_ALG_SEED}"
    | (two) i j where "i < length ?cands" "j < length ?cands" "i \<noteq> j" "candidate_viable (?cands ! i)"
        "key = ?cands ! i @ ?cands ! j \<and> alg \<in> {SAR_ALG_AES_256, SAR_ALG_CAMELLIA, SAR_ALG_ARIA} \<or>
         (key = ?cands ! i @ take 8 (?cands ! j) \<or> key = drop 8 (?cands ! i) @ ?cands ! j) \<and>
           alg \<in> {SAR_ALG_AES_192, SAR_ALG_3DES}"
    | (scan) buf off where "ei_scan_buffer input = Some buf"
        "(alg, length key) \<in> {(SAR_ALG_AES_128, 16), (SAR_ALG_AES_192, 24), (SAR_ALG_AES_256, 32)}"
        "off + 16 * (length key div 4 + 7) \<le> length buf"
        "slice buf off (16 * (length key div 4 + 7)) = aes_rk (aes_setkey key (length key))"
    unfolding offers_key_def Let_def by (elim disjE exE conjE) metis+
  then show ?thesis
  proof cases
    case one
    then have "try_block_single (?cands ! i) pt ct ?len ?fo zero_verdict \<noteq> None"
      using key(2) c s by (intro try_block_single_complete [where alg = alg and bc = bc]) simp_all
    then show ?thesis using one by (intro sar_convict_hit(1) [OF io size])
  next
    case two
    then have "try_block_pair (?cands ! i) (?cands ! j) pt ct ?len ?fo zero_verdict \<noteq> None"
      using key(2) c s by (intro try_block_pair_complete [where key = key and alg = alg and bc = bc])
    then show ?thesis using two by (intro sar_convict_hit(2) [OF io size])
  next
    case scan
    then have "bc = aes_bc key (length key)" using key(2) make_block_aes by simp
    then have "aes_schedule_scan buf pt ct ?len ?fo zero_verdict \<noteq> None"
      using scan s by (intro aes_schedule_scan_complete [where key = key]) simp_all
    then show ?thesis using scan(1,3) by (intro sar_convict_hit(3) [OF io size]) simp_all
  qed
qed

lemma offers_key_ok:
  assumes "offers_key input alg key" "\<forall>c\<in>set (ei_candidates input). length c = 16"
  shows "aes_key_ok alg key (length key)"
proof -
  have "length key \<in> {16, 24, 32}"
    using assms(1) unfolding offers_key_def Let_def
    by (elim disjE exE conjE) (use assms(2) in auto)
  then show ?thesis by (simp add: aes_key_ok_def)
qed

text \<open>
  C4: a conviction is evidence that can be checked. When the engine convicts, either the verdict reports a key that
  recovery accepts and that explains part of the sample, or it is a verdict without a usable key, for an RC4 permutation
  found in memory whose keystream explains the sample and which recovery then declines as state only. Explaining means:
  the defining equation of the reported block mode holds in one window of one or two blocks; or one aligned block is the
  XTS encryption with the reported data unit; or the ChaCha or Salsa keystream of the reported key explains the first
  bytes of the sample, at least 16 and at most 64, up to the next keystream block; or the RC4 keystream of the reported
  key at the file offset explains the whole sample. For all but RC4 the rest of the sample is not examined.
\<close>

theorem convict_sound:
  assumes "sar_convict input = Some v" and "ei_plaintext input = Some pt" "ei_ciphertext input = Some ct"
    and "\<forall>c\<in>set (ei_candidates input). length c = 16"
    and "unat (ei_sample_size input) \<le> length pt" "unat (ei_sample_size input) \<le> length ct"
      "unat (ei_file_offset input) + 16 < 2 ^ 64"
  shows "verdict_proof input pt ct v"
  using assms by (rule sar_convict_sound)

definition convict_example_key :: bytes where
  "convict_example_key = map word_of_nat [0..<16]"

definition convict_example :: sar_engine_input where
  "convict_example = \<lparr>ei_candidates = [convict_example_key], ei_scan_buffer = None, ei_plaintext = Some (replicate 32 7),
     ei_ciphertext = Some (mode_encrypt (sm4_bc convict_example_key) SAR_MODE_OFB (SAR_CTR_LAYOUTS ! 0) (replicate 16 3) (replicate 32 7)),
     ei_sample_size = 32, ei_file_offset = 0\<rparr>"

lemma convict_example_viable: "candidate_viable convict_example_key"
  unfolding convict_example_key_def by code_simp

lemma convict_example_key_length: "length convict_example_key = 16" by (simp add: convict_example_key_def)

lemma convict_example_offers: "offers_key convict_example SAR_ALG_SM4 convict_example_key"
  using convict_example_viable by (simp add: offers_key_def convict_example_def)

lemma convict_example_bc:
  "make_block SAR_ALG_SM4 convict_example_key (length convict_example_key) = Some (sm4_bc convict_example_key)"
  "wf_bc (sm4_bc convict_example_key)" "bc_block_size (sm4_bc convict_example_key) = 16"
proof -
  show m: "make_block SAR_ALG_SM4 convict_example_key (length convict_example_key) = Some (sm4_bc convict_example_key)"
    by (simp only: convict_example_key_length make_block_bc(2))
  show "wf_bc (sm4_bc convict_example_key)" "bc_block_size (sm4_bc convict_example_key) = 16"
    using make_block_wf [OF m] by (simp_all add: aes_key_ok_def is_aes_alg_def alg_block_def sar_alg_defs)
qed

lemma convict_example_seen:
  "mode_seen (sm4_bc convict_example_key) (replicate 32 7)
     (mode_encrypt (sm4_bc convict_example_key) SAR_MODE_OFB (SAR_CTR_LAYOUTS ! 0) (replicate 16 3) (replicate 32 7)) 32 SAR_MODE_OFB"
  using mode_encrypt_seen [of "sm4_bc convict_example_key" "replicate 16 3" SAR_MODE_OFB "SAR_CTR_LAYOUTS ! 0" 0 0 32 "replicate 32 7"]
    convict_example_bc by (simp add: engine_modes_def mode_layout_ok_def sar_mode_neq)

lemma convict_example_length:
  "length (mode_encrypt (sm4_bc convict_example_key) SAR_MODE_OFB (SAR_CTR_LAYOUTS ! 0) (replicate 16 3) (replicate 32 7)) = 32"
  by (simp add: mode_encrypt_def sar_mode_neq)

lemma convict_example_found: "\<exists>v. sar_convict convict_example = Some v"
proof -
  have "sar_convict convict_example \<noteq> None"
    using convict_example_seen convict_example_bc convict_example_length convict_example_key_length
    by (intro sar_convict_complete [OF convict_example_offers convict_example_bc(1), where m = SAR_MODE_OFB])
      (simp_all add: convict_example_def engine_modes_def)
  then show ?thesis by simp
qed

theorem convict_sound_witness:
  "\<exists>v. sar_convict convict_example = Some v \<and> verdict_proof convict_example (replicate 32 7)
     (mode_encrypt (sm4_bc convict_example_key) SAR_MODE_OFB (SAR_CTR_LAYOUTS ! 0) (replicate 16 3) (replicate 32 7)) v"
proof -
  obtain v where v: "sar_convict convict_example = Some v" using convict_example_found by blast
  have "verdict_proof convict_example (replicate 32 7)
     (mode_encrypt (sm4_bc convict_example_key) SAR_MODE_OFB (SAR_CTR_LAYOUTS ! 0) (replicate 16 3) (replicate 32 7)) v"
    by (rule convict_sound [OF v])
      (simp_all add: convict_example_def convict_example_key_length convict_example_length)
  with v show ?thesis by blast
qed

text \<open>
  C5: for the block modes a key on offer is enough for a conviction. When a viable candidate, two of them side by side
  or an AES key schedule anywhere in the scanned memory gives the cipher a file was encrypted with in ECB, CBC, CFB, OFB
  or CTR, and the sample starts at a block boundary and holds at least two blocks, the engine convicts, and what it
  reports is evidence in the sense of the previous property. The key reported need not be the one on offer: the search
  stops at the first that explains a window. XTS and the stream ciphers are not covered.
\<close>

theorem convict_complete:
  assumes "offers_key input alg key" "make_block alg key (length key) = Some bc"
    and "\<forall>c\<in>set (ei_candidates input). length c = 16"
    and "ei_plaintext input = Some (drop off P)" "ei_ciphertext input = Some (drop off (mode_encrypt bc m L iv P))"
    and "m \<in> set engine_modes" "mode_layout_ok bc m L" "length iv = bc_block_size bc" "off = k * bc_block_size bc"
    and "2 * bc_block_size bc \<le> unat (ei_sample_size input)" "off + unat (ei_sample_size input) \<le> length P"
      "off + unat (ei_sample_size input) \<le> length (mode_encrypt bc m L iv P)"
  shows "\<exists>v. sar_convict input = Some v \<and>
    (unat (ei_file_offset input) + 16 < 2 ^ 64 \<longrightarrow> verdict_proof input (drop off P) (drop off (mode_encrypt bc m L iv P)) v)"
proof -
  note bc = make_block_wf [OF assms(2) offers_key_ok [OF assms(1,3)]]
  have "16 \<le> unat (ei_sample_size input)" using assms(10) bc(2) by (simp add: alg_block_def split: if_splits)
  then have "16 \<le> ei_sample_size input" by (simp add: word_le_nat_alt)
  moreover have "mode_seen bc (drop off P) (drop off (mode_encrypt bc m L iv P)) (unat (ei_sample_size input)) m"
    using bc(1) assms by (intro mode_encrypt_seen [where k = k]) simp_all
  ultimately have "sar_convict input \<noteq> None"
    using assms bc(1) by (intro sar_convict_complete [where m = m and bc = bc]) simp_all
  then obtain v where v: "sar_convict input = Some v" by blast
  have "verdict_proof input (drop off P) (drop off (mode_encrypt bc m L iv P)) v" if "unat (ei_file_offset input) + 16 < 2 ^ 64"
    using assms(3,11,12) that by (intro sar_convict_sound [OF v assms(4,5)]) simp_all
  with v show ?thesis by blast
qed

theorem convict_complete_witness:
  "\<exists>v. sar_convict convict_example = Some v \<and> verdict_proof convict_example (replicate 32 7)
     (mode_encrypt (sm4_bc convict_example_key) SAR_MODE_OFB (SAR_CTR_LAYOUTS ! 0) (replicate 16 3) (replicate 32 7)) v"
proof -
  have "\<exists>v. sar_convict convict_example = Some v \<and>
      (unat (ei_file_offset convict_example) + 16 < 2 ^ 64 \<longrightarrow> verdict_proof convict_example (drop 0 (replicate 32 7))
        (drop 0 (mode_encrypt (sm4_bc convict_example_key) SAR_MODE_OFB (SAR_CTR_LAYOUTS ! 0) (replicate 16 3) (replicate 32 7))) v)"
    by (rule convict_complete [OF convict_example_offers convict_example_bc(1), where k = 0])
      (simp_all add: convict_example_def convict_example_key_length convict_example_length convict_example_bc engine_modes_def
        mode_layout_ok_def sar_mode_neq)
  then show ?thesis by (simp add: convict_example_def)
qed

end
