(* ===== verification/Control.thy ===== *)
theory Control
  imports Engine_Format
begin

text \<open>
  The control plane shared by driver and service: the messages of \<^verbatim>\<open>common/include/semantics_ar/protocol.h\<close> and
  their validation (\<^verbatim>\<open>control/src/msg.c\<close>), the enforcement mode (\<^verbatim>\<open>control/src/mode.c\<close>) and the handshake
  (\<^verbatim>\<open>control/src/handshake.c\<close>). A pointer that the code tests against NULL is an option. The signature check of the
  handshake is a function pointer, so it is a field of its state.
\<close>

section \<open>Memory helpers\<close>

definition ctl_memcpy :: "'a list \<Rightarrow> 'a list \<Rightarrow> nat \<Rightarrow> 'a list" where
  "ctl_memcpy dst src n = fold (\<lambda>i d. d[i := src ! i]) [0..<n] dst"

definition ctl_memset :: "'a list \<Rightarrow> 'a \<Rightarrow> nat \<Rightarrow> 'a list" where
  "ctl_memset dst v n = fold (\<lambda>i d. d[i := v]) [0..<n] dst"

primrec ctl_memcmp_loop :: "('a::linorder) list \<Rightarrow> 'a list \<Rightarrow> nat list \<Rightarrow> int" where
  "ctl_memcmp_loop x y [] = 0"
| "ctl_memcmp_loop x y (i # is) =
     (if x ! i \<noteq> y ! i then (if x ! i < y ! i then - 1 else 1) else ctl_memcmp_loop x y is)"

definition ctl_memcmp :: "('a::linorder) list \<Rightarrow> 'a list \<Rightarrow> nat \<Rightarrow> int" where
  "ctl_memcmp x y n = ctl_memcmp_loop x y [0..<n]"

section \<open>Messages\<close>

definition SEMANTICS_AR_PROTOCOL_VERSION :: u32 where "SEMANTICS_AR_PROTOCOL_VERSION = 2"

definition SEMANTICS_AR_MSG_VERDICT_NOTIFY :: u32 where "SEMANTICS_AR_MSG_VERDICT_NOTIFY = 1"
definition SEMANTICS_AR_MSG_RECOVERY_EXEC :: u32 where "SEMANTICS_AR_MSG_RECOVERY_EXEC = 2"
definition SEMANTICS_AR_MSG_RECOVERY_RESULT :: u32 where "SEMANTICS_AR_MSG_RECOVERY_RESULT = 3"
definition SEMANTICS_AR_MSG_SET_MODE :: u32 where "SEMANTICS_AR_MSG_SET_MODE = 4"
definition SEMANTICS_AR_MSG_WHITELIST_ADD :: u32 where "SEMANTICS_AR_MSG_WHITELIST_ADD = 5"
definition SEMANTICS_AR_MSG_WHITELIST_REMOVE :: u32 where "SEMANTICS_AR_MSG_WHITELIST_REMOVE = 6"
definition SEMANTICS_AR_MSG_GET_STATUS :: u32 where "SEMANTICS_AR_MSG_GET_STATUS = 7"
definition SEMANTICS_AR_MSG_CONNECT_CHALLENGE :: u32 where "SEMANTICS_AR_MSG_CONNECT_CHALLENGE = 8"
definition SEMANTICS_AR_MSG_CONNECT_RESPONSE :: u32 where "SEMANTICS_AR_MSG_CONNECT_RESPONSE = 9"
definition SEMANTICS_AR_MSG_STATUS_REPLY :: u32 where "SEMANTICS_AR_MSG_STATUS_REPLY = 10"
definition SEMANTICS_AR_MSG_CATALOG_QUERY :: u32 where "SEMANTICS_AR_MSG_CATALOG_QUERY = 11"
definition SEMANTICS_AR_MSG_CATALOG_REPLY :: u32 where "SEMANTICS_AR_MSG_CATALOG_REPLY = 12"
definition SEMANTICS_AR_MSG_PRESERVE_QUERY :: u32 where "SEMANTICS_AR_MSG_PRESERVE_QUERY = 13"
definition SEMANTICS_AR_MSG_PRESERVE_REPLY :: u32 where "SEMANTICS_AR_MSG_PRESERVE_REPLY = 14"
definition SEMANTICS_AR_MSG_PRESERVE_RECOVER :: u32 where "SEMANTICS_AR_MSG_PRESERVE_RECOVER = 15"
definition SEMANTICS_AR_MSG_PRESERVE_RESULT :: u32 where "SEMANTICS_AR_MSG_PRESERVE_RESULT = 16"
definition SEMANTICS_AR_MSG_SET_BUDGET :: u32 where "SEMANTICS_AR_MSG_SET_BUDGET = 17"
definition SEMANTICS_AR_MSG_EVENTS_QUERY :: u32 where "SEMANTICS_AR_MSG_EVENTS_QUERY = 18"
definition SEMANTICS_AR_MSG_EVENTS_REPLY :: u32 where "SEMANTICS_AR_MSG_EVENTS_REPLY = 19"
definition SEMANTICS_AR_MSG_IDENTITY_VERDICT :: u32 where "SEMANTICS_AR_MSG_IDENTITY_VERDICT = 20"
definition SEMANTICS_AR_MSG_PROCESS_QUERY :: u32 where "SEMANTICS_AR_MSG_PROCESS_QUERY = 21"
definition SEMANTICS_AR_MSG_PROCESS_REPLY :: u32 where "SEMANTICS_AR_MSG_PROCESS_REPLY = 22"
definition SEMANTICS_AR_MSG_WHITELIST_QUERY :: u32 where "SEMANTICS_AR_MSG_WHITELIST_QUERY = 23"
definition SEMANTICS_AR_MSG_WHITELIST_REPLY :: u32 where "SEMANTICS_AR_MSG_WHITELIST_REPLY = 24"

lemmas msg_type_defs = SEMANTICS_AR_MSG_VERDICT_NOTIFY_def SEMANTICS_AR_MSG_RECOVERY_EXEC_def
  SEMANTICS_AR_MSG_RECOVERY_RESULT_def SEMANTICS_AR_MSG_SET_MODE_def SEMANTICS_AR_MSG_WHITELIST_ADD_def
  SEMANTICS_AR_MSG_WHITELIST_REMOVE_def SEMANTICS_AR_MSG_GET_STATUS_def SEMANTICS_AR_MSG_CONNECT_CHALLENGE_def
  SEMANTICS_AR_MSG_CONNECT_RESPONSE_def SEMANTICS_AR_MSG_STATUS_REPLY_def SEMANTICS_AR_MSG_CATALOG_QUERY_def
  SEMANTICS_AR_MSG_CATALOG_REPLY_def SEMANTICS_AR_MSG_PRESERVE_QUERY_def SEMANTICS_AR_MSG_PRESERVE_REPLY_def
  SEMANTICS_AR_MSG_PRESERVE_RECOVER_def SEMANTICS_AR_MSG_PRESERVE_RESULT_def SEMANTICS_AR_MSG_SET_BUDGET_def
  SEMANTICS_AR_MSG_EVENTS_QUERY_def SEMANTICS_AR_MSG_EVENTS_REPLY_def SEMANTICS_AR_MSG_IDENTITY_VERDICT_def
  SEMANTICS_AR_MSG_PROCESS_QUERY_def SEMANTICS_AR_MSG_PROCESS_REPLY_def SEMANTICS_AR_MSG_WHITELIST_QUERY_def
  SEMANTICS_AR_MSG_WHITELIST_REPLY_def

definition SEMANTICS_AR_MODE_AUDIT :: u32 where "SEMANTICS_AR_MODE_AUDIT = 0"
definition SEMANTICS_AR_MODE_ENFORCE :: u32 where "SEMANTICS_AR_MODE_ENFORCE = 1"

definition SEMANTICS_AR_PROTO_PATH_MAX :: nat where "SEMANTICS_AR_PROTO_PATH_MAX = 260"
definition SEMANTICS_AR_PROTO_SUBJECT_MAX :: nat where "SEMANTICS_AR_PROTO_SUBJECT_MAX = 256"
definition SEMANTICS_AR_CONTENT_HASH_SIZE :: nat where "SEMANTICS_AR_CONTENT_HASH_SIZE = 32"
definition SEMANTICS_AR_HS_SIG_MAX :: nat where "SEMANTICS_AR_HS_SIG_MAX = 512"

text \<open>
  The packed structs, as the list of the sizes of their fields.
\<close>

definition msg_header_fields :: "nat list" where
  "msg_header_fields = [4, 4, 4]"

definition verdict_notify_fields :: "nat list" where
  "verdict_notify_fields = msg_header_fields @ [SEMANTICS_AR_KEY_ID_SIZE, 4, 4, 8, 8, 2 * SEMANTICS_AR_PROTO_PATH_MAX]"

definition recovery_exec_fields :: "nat list" where
  "recovery_exec_fields = msg_header_fields @ [SEMANTICS_AR_KEY_ID_SIZE, 2 * SEMANTICS_AR_PROTO_PATH_MAX]"

definition recovery_result_fields :: "nat list" where
  "recovery_result_fields = msg_header_fields @ [4, 8]"

definition set_mode_fields :: "nat list" where
  "set_mode_fields = msg_header_fields @ [4]"

definition whitelist_control_fields :: "nat list" where
  "whitelist_control_fields = msg_header_fields @
     [2 * SEMANTICS_AR_PROTO_PATH_MAX, 2 * SEMANTICS_AR_PROTO_SUBJECT_MAX, SEMANTICS_AR_CONTENT_HASH_SIZE]"

definition identity_verdict_fields :: "nat list" where
  "identity_verdict_fields = msg_header_fields @
     [8, 8, 2 * SEMANTICS_AR_PROTO_PATH_MAX, 2 * SEMANTICS_AR_PROTO_SUBJECT_MAX, SEMANTICS_AR_CONTENT_HASH_SIZE]"

definition process_query_fields :: "nat list" where
  "process_query_fields = msg_header_fields @ [8]"

definition process_reply_fields :: "nat list" where
  "process_reply_fields = msg_header_fields @ [4, 4, 8]"

definition get_status_fields :: "nat list" where
  "get_status_fields = msg_header_fields"

definition status_reply_fields :: "nat list" where
  "status_reply_fields = msg_header_fields @ [4, 4, 4, 8, 8, 8, 8, 8, 4, 4, 8, 4]"

definition connect_challenge_fields :: "nat list" where
  "connect_challenge_fields = msg_header_fields @ [32]"

definition connect_response_fields :: "nat list" where
  "connect_response_fields = msg_header_fields @ [4, SEMANTICS_AR_HS_SIG_MAX]"

definition catalog_entry_fields :: "nat list" where
  "catalog_entry_fields = [SEMANTICS_AR_KEY_ID_SIZE, 4, 4, 8, 2 * SEMANTICS_AR_PROTO_PATH_MAX, 8, 8]"

definition catalog_query_fields :: "nat list" where
  "catalog_query_fields = msg_header_fields @ [4]"

definition catalog_reply_fields :: "nat list" where
  "catalog_reply_fields = msg_header_fields @ [4, 4, 4, 4] @ catalog_entry_fields"

definition preserve_entry_fields :: "nat list" where
  "preserve_entry_fields =
     [2 * SEMANTICS_AR_PROTO_PATH_MAX, 8, 8, 8, 8, 8, 4, 2 * SEMANTICS_AR_PROTO_PATH_MAX]"

definition preserve_query_fields :: "nat list" where
  "preserve_query_fields = msg_header_fields @ [4]"

definition preserve_reply_fields :: "nat list" where
  "preserve_reply_fields = msg_header_fields @ [4, 4, 4, 4] @ preserve_entry_fields"

definition preserve_recover_fields :: "nat list" where
  "preserve_recover_fields = msg_header_fields @ [2 * SEMANTICS_AR_PROTO_PATH_MAX, 8, 8]"

definition set_budget_fields :: "nat list" where
  "set_budget_fields = msg_header_fields @ [8, 8]"

definition whitelist_entry_fields :: "nat list" where
  "whitelist_entry_fields =
     [2 * SEMANTICS_AR_PROTO_PATH_MAX, 2 * SEMANTICS_AR_PROTO_SUBJECT_MAX, SEMANTICS_AR_CONTENT_HASH_SIZE, 8]"

definition whitelist_query_fields :: "nat list" where
  "whitelist_query_fields = msg_header_fields @ [4]"

definition whitelist_reply_fields :: "nat list" where
  "whitelist_reply_fields = msg_header_fields @ [4, 4, 4, 4] @ whitelist_entry_fields"

definition events_query_fields :: "nat list" where
  "events_query_fields = msg_header_fields @ [8, 8]"

definition events_reply_fields :: "nat list" where
  "events_reply_fields = msg_header_fields @ [4, 4, 4, 4, 8, 8, 8, 8]"

definition sizeof :: "nat list \<Rightarrow> nat" where
  "sizeof fs = sum_list fs"

lemmas msg_fields_defs = msg_header_fields_def verdict_notify_fields_def recovery_exec_fields_def
  recovery_result_fields_def set_mode_fields_def whitelist_control_fields_def identity_verdict_fields_def
  process_query_fields_def process_reply_fields_def get_status_fields_def status_reply_fields_def
  connect_challenge_fields_def connect_response_fields_def catalog_entry_fields_def catalog_query_fields_def
  catalog_reply_fields_def preserve_entry_fields_def preserve_query_fields_def preserve_reply_fields_def
  preserve_recover_fields_def set_budget_fields_def whitelist_entry_fields_def whitelist_query_fields_def
  whitelist_reply_fields_def events_query_fields_def events_reply_fields_def sizeof_def
  SEMANTICS_AR_PROTO_PATH_MAX_def SEMANTICS_AR_PROTO_SUBJECT_MAX_def SEMANTICS_AR_CONTENT_HASH_SIZE_def
  SEMANTICS_AR_HS_SIG_MAX_def SEMANTICS_AR_KEY_ID_SIZE_def

definition sar_msg_expected_length :: "u32 \<Rightarrow> u32" where
  "sar_msg_expected_length message_type =
     (if message_type = SEMANTICS_AR_MSG_VERDICT_NOTIFY then word_of_nat (sizeof verdict_notify_fields)
      else if message_type = SEMANTICS_AR_MSG_RECOVERY_EXEC then word_of_nat (sizeof recovery_exec_fields)
      else if message_type = SEMANTICS_AR_MSG_RECOVERY_RESULT then word_of_nat (sizeof recovery_result_fields)
      else if message_type = SEMANTICS_AR_MSG_SET_MODE then word_of_nat (sizeof set_mode_fields)
      else if message_type = SEMANTICS_AR_MSG_WHITELIST_ADD then word_of_nat (sizeof whitelist_control_fields)
      else if message_type = SEMANTICS_AR_MSG_WHITELIST_REMOVE then word_of_nat (sizeof whitelist_control_fields)
      else if message_type = SEMANTICS_AR_MSG_GET_STATUS then word_of_nat (sizeof get_status_fields)
      else if message_type = SEMANTICS_AR_MSG_CONNECT_CHALLENGE then word_of_nat (sizeof connect_challenge_fields)
      else if message_type = SEMANTICS_AR_MSG_CONNECT_RESPONSE then word_of_nat (sizeof connect_response_fields)
      else if message_type = SEMANTICS_AR_MSG_STATUS_REPLY then word_of_nat (sizeof status_reply_fields)
      else if message_type = SEMANTICS_AR_MSG_CATALOG_QUERY then word_of_nat (sizeof catalog_query_fields)
      else if message_type = SEMANTICS_AR_MSG_CATALOG_REPLY then word_of_nat (sizeof catalog_reply_fields)
      else if message_type = SEMANTICS_AR_MSG_PRESERVE_QUERY then word_of_nat (sizeof preserve_query_fields)
      else if message_type = SEMANTICS_AR_MSG_PRESERVE_REPLY then word_of_nat (sizeof preserve_reply_fields)
      else if message_type = SEMANTICS_AR_MSG_PRESERVE_RECOVER then word_of_nat (sizeof preserve_recover_fields)
      else if message_type = SEMANTICS_AR_MSG_PRESERVE_RESULT then word_of_nat (sizeof recovery_result_fields)
      else if message_type = SEMANTICS_AR_MSG_SET_BUDGET then word_of_nat (sizeof set_budget_fields)
      else if message_type = SEMANTICS_AR_MSG_EVENTS_QUERY then word_of_nat (sizeof events_query_fields)
      else if message_type = SEMANTICS_AR_MSG_EVENTS_REPLY then word_of_nat (sizeof events_reply_fields)
      else if message_type = SEMANTICS_AR_MSG_IDENTITY_VERDICT then word_of_nat (sizeof identity_verdict_fields)
      else if message_type = SEMANTICS_AR_MSG_PROCESS_QUERY then word_of_nat (sizeof process_query_fields)
      else if message_type = SEMANTICS_AR_MSG_PROCESS_REPLY then word_of_nat (sizeof process_reply_fields)
      else if message_type = SEMANTICS_AR_MSG_WHITELIST_QUERY then word_of_nat (sizeof whitelist_query_fields)
      else if message_type = SEMANTICS_AR_MSG_WHITELIST_REPLY then word_of_nat (sizeof whitelist_reply_fields)
      else 0)"

record msg_header =
  mh_protocol_version :: u32
  mh_message_type :: u32
  mh_message_length :: u32

definition mh_decode :: "bytes \<Rightarrow> msg_header" where
  "mh_decode b = \<lparr>mh_protocol_version = le_load (slice b 0 4), mh_message_type = le_load (slice b 4 4),
     mh_message_length = le_load (slice b 8 4)\<rparr>"

definition mh_encode :: "msg_header \<Rightarrow> bytes" where
  "mh_encode h = le_store 4 (mh_protocol_version h) @ le_store 4 (mh_message_type h) @ le_store 4 (mh_message_length h)"

datatype sar_msg_status =
    SAR_MSG_OK | SAR_MSG_ERR_SHORT_HEADER | SAR_MSG_ERR_VERSION | SAR_MSG_ERR_TYPE | SAR_MSG_ERR_LENGTH
  | SAR_MSG_ERR_TRUNCATED | SAR_MSG_ERR_OVERSIZED

text \<open>
  The bytes the caller presents are the buffer; its length is \<open>inbound_len\<close>. The second result is \<open>*out_type\<close>.
\<close>

definition sar_msg_validate :: "bytes option \<Rightarrow> sar_msg_status \<times> u32" where
  "sar_msg_validate buf =
     (case buf of
        None \<Rightarrow> (SAR_MSG_ERR_SHORT_HEADER, 0)
      | Some b \<Rightarrow>
          if length b < sizeof msg_header_fields then (SAR_MSG_ERR_SHORT_HEADER, 0)
          else
            let header = mh_decode b
            in if mh_protocol_version header \<noteq> SEMANTICS_AR_PROTOCOL_VERSION then (SAR_MSG_ERR_VERSION, 0)
               else
                 let expected = sar_msg_expected_length (mh_message_type header)
                 in if expected = 0 then (SAR_MSG_ERR_TYPE, 0)
                    else if mh_message_length header \<noteq> expected then (SAR_MSG_ERR_LENGTH, 0)
                    else if length b < unat expected then (SAR_MSG_ERR_TRUNCATED, 0)
                    else if length b > unat expected then (SAR_MSG_ERR_OVERSIZED, 0)
                    else (SAR_MSG_OK, mh_message_type header))"

lemma sizeof_msg:
  "sizeof msg_header_fields = 12" "sizeof connect_response_fields = 528" "sizeof set_mode_fields = 16"
  "sizeof whitelist_control_fields = 1076" "sizeof identity_verdict_fields = 1092" "sizeof process_query_fields = 20"
  "sizeof get_status_fields = 12" "sizeof recovery_exec_fields = 564" "sizeof preserve_recover_fields = 548"
  "sizeof set_budget_fields = 28" "sizeof catalog_query_fields = 16" "sizeof preserve_query_fields = 16"
  "sizeof whitelist_query_fields = 16" "sizeof events_query_fields = 28" "sizeof status_reply_fields = 84"
  "sizeof process_reply_fields = 28" "sizeof recovery_result_fields = 24" "sizeof catalog_reply_fields = 612"
  "sizeof preserve_reply_fields = 1112" "sizeof whitelist_reply_fields = 1100" "sizeof events_reply_fields = 60"
  "sizeof verdict_notify_fields = 588" "sizeof connect_challenge_fields = 44"
  by (simp_all add: msg_fields_defs)

lemma sar_msg_expected_length_bounds:
  "unat (sar_msg_expected_length t) \<le> 1112" "sar_msg_expected_length t \<noteq> 0 \<Longrightarrow> 12 \<le> unat (sar_msg_expected_length t)"
proof -
  show "unat (sar_msg_expected_length t) \<le> 1112" by (simp add: sar_msg_expected_length_def sizeof_msg)
  have "sar_msg_expected_length t = 0 \<or> 12 \<le> unat (sar_msg_expected_length t)"
    by (simp add: sar_msg_expected_length_def sizeof_msg)
  then show "sar_msg_expected_length t \<noteq> 0 \<Longrightarrow> 12 \<le> unat (sar_msg_expected_length t)" by simp
qed

text \<open>
  A message passes validation exactly when it is a buffer of the length its type prescribes that starts with a header
  of this protocol version naming that type and that length.
\<close>

lemma sar_msg_validate_ok_iff:
  "sar_msg_validate buf = (SAR_MSG_OK, t) \<longleftrightarrow>
     (\<exists>b. buf = Some b \<and> mh_decode b = \<lparr>mh_protocol_version = SEMANTICS_AR_PROTOCOL_VERSION, mh_message_type = t,
        mh_message_length = sar_msg_expected_length t\<rparr> \<and> sar_msg_expected_length t \<noteq> 0 \<and>
        length b = unat (sar_msg_expected_length t))"
  using sar_msg_expected_length_bounds(2) [of t]
  by (cases "mh_decode (the buf)")
    (auto simp: sar_msg_validate_def Let_def sizeof_msg split: option.splits if_splits)

section \<open>Mode\<close>

record sar_mode_state =
  ms_mode :: u32

definition sar_mode_init :: "sar_mode_state \<Rightarrow> sar_mode_state" where
  "sar_mode_init st = st\<lparr>ms_mode := SEMANTICS_AR_MODE_AUDIT\<rparr>"

definition sar_mode_set :: "sar_mode_state option \<Rightarrow> u32 \<Rightarrow> bool \<times> sar_mode_state option" where
  "sar_mode_set st requested =
     (case st of
        None \<Rightarrow> (False, None)
      | Some s \<Rightarrow>
          if requested \<noteq> SEMANTICS_AR_MODE_AUDIT \<and> requested \<noteq> SEMANTICS_AR_MODE_ENFORCE then (False, Some s)
          else (True, Some (s\<lparr>ms_mode := requested\<rparr>)))"

definition sar_mode_get :: "sar_mode_state \<Rightarrow> u32" where
  "sar_mode_get st = ms_mode st"

section \<open>Handshake\<close>

definition SAR_HS_NONCE_SIZE :: nat where "SAR_HS_NONCE_SIZE = 32"

datatype sar_hs_phase = SAR_HS_INIT | SAR_HS_CHALLENGE_ISSUED | SAR_HS_AUTHENTICATED | SAR_HS_VERSIONED | SAR_HS_REJECTED

datatype sar_hs_result =
    SAR_HS_RESULT_OK | SAR_HS_RESULT_SEQUENCE | SAR_HS_RESULT_VERIFY_FAILED | SAR_HS_RESULT_VERSION_MISMATCH
  | SAR_HS_RESULT_BAD_PARAM

type_synonym sar_hs_verify_fn = "bytes \<Rightarrow> bytes \<Rightarrow> bool"

record sar_handshake =
  hs_phase :: sar_hs_phase
  hs_nonce :: bytes
  hs_nonce_len :: u32
  hs_version_local :: u32
  hs_version_peer :: u32
  hs_verify :: "sar_hs_verify_fn option"

definition sar_handshake_init :: "u32 \<Rightarrow> sar_hs_verify_fn option \<Rightarrow> sar_handshake" where
  "sar_handshake_init version_local verify =
     \<lparr>hs_phase = SAR_HS_INIT, hs_nonce = replicate SAR_HS_NONCE_SIZE 0, hs_nonce_len = 0,
      hs_version_local = version_local, hs_version_peer = 0, hs_verify = verify\<rparr>"

definition sar_handshake_issue_challenge ::
  "sar_handshake option \<Rightarrow> bytes option \<Rightarrow> u32 \<Rightarrow> sar_hs_result \<times> sar_handshake option" where
  "sar_handshake_issue_challenge hs random random_len =
     (case (hs, random) of
        (Some h, Some r) \<Rightarrow>
          if random_len \<noteq> word_of_nat SAR_HS_NONCE_SIZE then (SAR_HS_RESULT_BAD_PARAM, Some h)
          else if hs_phase h \<noteq> SAR_HS_INIT then (SAR_HS_RESULT_SEQUENCE, Some h)
          else (SAR_HS_RESULT_OK,
            Some (h\<lparr>hs_nonce := ctl_memcpy (hs_nonce h) r SAR_HS_NONCE_SIZE,
              hs_nonce_len := word_of_nat SAR_HS_NONCE_SIZE, hs_phase := SAR_HS_CHALLENGE_ISSUED\<rparr>))
      | _ \<Rightarrow> (SAR_HS_RESULT_BAD_PARAM, hs))"

definition sar_handshake_verify_response ::
  "sar_handshake option \<Rightarrow> bytes option \<Rightarrow> u32 \<Rightarrow> sar_hs_result \<times> sar_handshake option" where
  "sar_handshake_verify_response hs signature sig_len =
     (case (hs, signature) of
        (Some h, Some s) \<Rightarrow>
          if hs_phase h \<noteq> SAR_HS_CHALLENGE_ISSUED then (SAR_HS_RESULT_SEQUENCE, Some h)
          else
            (case hs_verify h of
               None \<Rightarrow> (SAR_HS_RESULT_BAD_PARAM, Some (h\<lparr>hs_phase := SAR_HS_REJECTED\<rparr>))
             | Some verify \<Rightarrow>
                 if \<not> verify (take (unat (hs_nonce_len h)) (hs_nonce h)) (take (unat sig_len) s)
                 then (SAR_HS_RESULT_VERIFY_FAILED, Some (h\<lparr>hs_phase := SAR_HS_REJECTED\<rparr>))
                 else (SAR_HS_RESULT_OK, Some (h\<lparr>hs_phase := SAR_HS_AUTHENTICATED\<rparr>)))
      | _ \<Rightarrow> (SAR_HS_RESULT_BAD_PARAM, hs))"

definition sar_handshake_check_version ::
  "sar_handshake option \<Rightarrow> u32 \<Rightarrow> sar_hs_result \<times> sar_handshake option" where
  "sar_handshake_check_version hs peer_version =
     (case hs of
        None \<Rightarrow> (SAR_HS_RESULT_BAD_PARAM, None)
      | Some h \<Rightarrow>
          if hs_phase h \<noteq> SAR_HS_AUTHENTICATED then (SAR_HS_RESULT_SEQUENCE, Some h)
          else
            let h = h\<lparr>hs_version_peer := peer_version\<rparr>
            in if peer_version \<noteq> hs_version_local h
               then (SAR_HS_RESULT_VERSION_MISMATCH, Some (h\<lparr>hs_phase := SAR_HS_REJECTED\<rparr>))
               else (SAR_HS_RESULT_OK, Some (h\<lparr>hs_phase := SAR_HS_VERSIONED\<rparr>)))"

definition sar_handshake_timeout :: "sar_handshake option \<Rightarrow> sar_handshake option" where
  "sar_handshake_timeout hs =
     (case hs of
        None \<Rightarrow> None
      | Some h \<Rightarrow> if hs_phase h \<noteq> SAR_HS_VERSIONED then Some (h\<lparr>hs_phase := SAR_HS_REJECTED\<rparr>) else Some h)"

definition sar_handshake_authenticated :: "sar_handshake option \<Rightarrow> bool" where
  "sar_handshake_authenticated hs = (case hs of None \<Rightarrow> False | Some h \<Rightarrow> hs_phase h = SAR_HS_VERSIONED)"

lemmas sar_handshake_defs = sar_handshake_init_def sar_handshake_issue_challenge_def
  sar_handshake_verify_response_def sar_handshake_check_version_def sar_handshake_timeout_def
  sar_handshake_authenticated_def

section \<open>Facts on the memory helpers\<close>

lemma ctl_memcpy_eq: "n \<le> length src \<Longrightarrow> n \<le> length dst \<Longrightarrow> ctl_memcpy dst src n = take n src @ drop n dst"
proof (induction n)
  case (Suc n)
  then have "ctl_memcpy dst src (Suc n) = (take n src @ drop n dst)[n := src ! n]" by (simp add: ctl_memcpy_def)
  also have "\<dots> = take n src @ src ! n # drop (Suc n) dst"
    using Suc.prems by (simp add: list_update_append min_absorb2 Cons_nth_drop_Suc [symmetric])
  finally show ?case using Suc.prems by (simp add: take_Suc_conv_app_nth)
qed (simp add: ctl_memcpy_def)

lemma ctl_memcmp_eq_0: "ctl_memcmp x y n = 0 \<longleftrightarrow> (\<forall>i<n. x ! i = y ! i)"
proof -
  have "ctl_memcmp_loop x y is = 0 \<longleftrightarrow> (\<forall>i\<in>set is. x ! i = y ! i)" for "is"
    by (induction "is") auto
  then show ?thesis by (auto simp: ctl_memcmp_def)
qed

lemma ctl_memcmp_eq_0_take: "n \<le> length x \<Longrightarrow> n \<le> length y \<Longrightarrow> ctl_memcmp x y n = 0 \<longleftrightarrow> take n x = take n y"
  by (auto simp: ctl_memcmp_eq_0 list_eq_iff_nth_eq)

end
