(* ===== verification/Whitelist.thy ===== *)
theory Whitelist
  imports Control Mac_Chain
begin

text \<open>
  The whitelist of \<^verbatim>\<open>control/src/whitelist.c\<close>: identities of processes an administrator exempted, held in an array of
  fixed capacity. Two identities are the same when content hash and certificate subject agree; the image path is only
  looked at to refuse the interpreters. The loops are translated with their indices; \<open>wl_ids\<close> is the list a whitelist
  stands for, on which the lemmas say what each operation does.
\<close>

section \<open>Definitions\<close>

record sar_identity =
  id_image_path :: "u16 list"
  id_cert_subject :: "u16 list"
  id_content_hash :: bytes

record sar_whitelist =
  wl_entries :: "sar_identity list option"
  wl_first_seen :: "u64 list option"
  wl_count :: u32
  wl_capacity :: u32

datatype sar_wl_status =
    SAR_WL_OK | SAR_WL_FULL | SAR_WL_DUPLICATE | SAR_WL_NOT_FOUND | SAR_WL_INVALID | SAR_WL_INTERPRETER

datatype sar_id_state = SAR_IDSTATE_OBSERVE_PENDING | SAR_IDSTATE_OBSERVE | SAR_IDSTATE_EXEMPT

definition identity_equal :: "sar_identity \<Rightarrow> sar_identity \<Rightarrow> bool" where
  "identity_equal a b \<longleftrightarrow>
     ctl_memcmp (id_content_hash a) (id_content_hash b) SEMANTICS_AR_CONTENT_HASH_SIZE = 0 \<and>
     ctl_memcmp (path_bytes (id_cert_subject a)) (path_bytes (id_cert_subject b)) (2 * SEMANTICS_AR_PROTO_SUBJECT_MAX) = 0"

definition sar_whitelist_init :: "sar_identity list option \<Rightarrow> u64 list option \<Rightarrow> u32 \<Rightarrow> sar_whitelist" where
  "sar_whitelist_init storage first_seen capacity =
     \<lparr>wl_entries = storage, wl_first_seen = first_seen, wl_count = 0, wl_capacity = capacity\<rparr>"

definition sar_whitelist_match :: "sar_whitelist option \<Rightarrow> sar_identity option \<Rightarrow> bool" where
  "sar_whitelist_match wl ident =
     (case (wl, ident) of
        (Some w, Some i) \<Rightarrow>
          (case wl_entries w of
             None \<Rightarrow> False
           | Some es \<Rightarrow> list_ex (\<lambda>k. identity_equal (es ! k) i) [0..<unat (wl_count w)])
      | _ \<Rightarrow> False)"

subsection \<open>Interpreters\<close>

definition u16s :: "string \<Rightarrow> u16 list" where
  "u16s s = map (\<lambda>c. of_char c) s"

definition interpreter_names :: "u16 list list" where
  "interpreter_names =
     map u16s [''powershell.exe'', ''pwsh.exe'', ''cmd.exe'', ''wscript.exe'', ''cscript.exe'', ''mshta.exe'',
       ''python.exe'', ''node.exe'']"

function path_len :: "u16 list \<Rightarrow> nat \<Rightarrow> nat" where
  "path_len p len = (if len < SEMANTICS_AR_PROTO_PATH_MAX \<and> p ! len \<noteq> 0 then path_len p (len + 1) else len)"
  by auto

termination by (relation "measure (\<lambda>(_, len). SEMANTICS_AR_PROTO_PATH_MAX - len)") auto

definition path_leaf :: "u16 list \<Rightarrow> nat \<Rightarrow> nat" where
  "path_leaf p len = fold (\<lambda>i leaf. if p ! i = of_char CHR 0x5C \<or> p ! i = of_char CHR ''/'' then i + 1 else leaf) [0..<len] 0"

fun path_end :: "u16 list \<Rightarrow> nat \<Rightarrow> nat \<Rightarrow> nat" where
  "path_end p leaf e =
     (if e > leaf \<and> (p ! (e - 1) = of_char CHR '' '' \<or> p ! (e - 1) = of_char CHR ''.'') then path_end p leaf (e - 1) else e)"

definition fold_case :: "u16 \<Rightarrow> u16" where
  "fold_case a = (if of_char CHR ''A'' \<le> a \<and> a \<le> of_char CHR ''Z'' then a + 32 else a)"

text \<open>
  The comparison of one name: the position behind the last character compared, when all of them matched.
\<close>

fun name_match :: "u16 list \<Rightarrow> nat \<Rightarrow> u16 list \<Rightarrow> nat \<Rightarrow> nat option" where
  "name_match p e [] k = Some k"
| "name_match p e (b # bs) k =
     (if k \<ge> e then None else if fold_case (p ! k) \<noteq> fold_case b then None else name_match p e bs (k + 1))"

definition sar_identity_is_interpreter :: "u16 list option \<Rightarrow> bool" where
  "sar_identity_is_interpreter image_path =
     (case image_path of
        None \<Rightarrow> False
      | Some p \<Rightarrow>
          let len = path_len p 0; leaf = path_leaf p len; e = path_end p leaf len
          in list_ex (\<lambda>n. name_match p e n leaf = Some e) interpreter_names)"

declare path_len.simps [simp del] path_end.simps [simp del]

subsection \<open>Operations\<close>

definition sar_whitelist_add ::
  "sar_whitelist option \<Rightarrow> sar_identity option \<Rightarrow> u64 \<Rightarrow> sar_wl_status \<times> sar_whitelist option" where
  "sar_whitelist_add wl ident first_seen =
     (case (wl, ident) of
        (Some w, Some i) \<Rightarrow>
          (case wl_entries w of
             None \<Rightarrow> (SAR_WL_INVALID, wl)
           | Some es \<Rightarrow>
               if sar_identity_is_interpreter (Some (id_image_path i)) then (SAR_WL_INTERPRETER, wl)
               else if list_ex (\<lambda>k. identity_equal (es ! k) i) [0..<unat (wl_count w)] then (SAR_WL_DUPLICATE, wl)
               else if wl_count w \<ge> wl_capacity w then (SAR_WL_FULL, wl)
               else (SAR_WL_OK, Some
                 (w\<lparr>wl_entries := Some (es[unat (wl_count w) := i]),
                    wl_first_seen := map_option (\<lambda>fs. fs[unat (wl_count w) := first_seen]) (wl_first_seen w),
                    wl_count := wl_count w + 1\<rparr>)))
      | _ \<Rightarrow> (SAR_WL_INVALID, wl))"

definition wl_shift :: "nat \<Rightarrow> nat \<Rightarrow> 'a list \<Rightarrow> 'a list" where
  "wl_shift i count xs = fold (\<lambda>j xs. xs[j - 1 := xs ! j]) [i + 1..<count] xs"

definition sar_whitelist_remove ::
  "sar_whitelist option \<Rightarrow> sar_identity option \<Rightarrow> sar_wl_status \<times> sar_whitelist option" where
  "sar_whitelist_remove wl ident =
     (case (wl, ident) of
        (Some w, Some i) \<Rightarrow>
          (case wl_entries w of
             None \<Rightarrow> (SAR_WL_INVALID, wl)
           | Some es \<Rightarrow>
               (case find (\<lambda>k. identity_equal (es ! k) i) [0..<unat (wl_count w)] of
                  None \<Rightarrow> (SAR_WL_NOT_FOUND, wl)
                | Some k \<Rightarrow> (SAR_WL_OK, Some
                    (w\<lparr>wl_entries := Some (wl_shift k (unat (wl_count w)) es),
                       wl_first_seen := map_option (wl_shift k (unat (wl_count w))) (wl_first_seen w),
                       wl_count := wl_count w - 1\<rparr>))))
      | _ \<Rightarrow> (SAR_WL_INVALID, wl))"

definition sar_whitelist_enumerate ::
  "sar_whitelist option \<Rightarrow> u32 \<Rightarrow> sar_wl_status \<times> (sar_identity \<times> u64) option" where
  "sar_whitelist_enumerate wl index =
     (case wl of
        None \<Rightarrow> (SAR_WL_INVALID, None)
      | Some w \<Rightarrow>
          (case wl_entries w of
             None \<Rightarrow> (SAR_WL_INVALID, None)
           | Some es \<Rightarrow>
               if index \<ge> wl_count w then (SAR_WL_NOT_FOUND, None)
               else (SAR_WL_OK, Some (es ! unat index,
                 case wl_first_seen w of None \<Rightarrow> 0 | Some fs \<Rightarrow> fs ! unat index))))"

definition sar_identity_resolve :: "bool \<Rightarrow> bool \<Rightarrow> sar_id_state" where
  "sar_identity_resolve verified whitelist_hit =
     (if \<not> verified then SAR_IDSTATE_OBSERVE_PENDING
      else if whitelist_hit then SAR_IDSTATE_EXEMPT else SAR_IDSTATE_OBSERVE)"

section \<open>Interpreter names\<close>

text \<open>
  The leaf of a path as the loops delimit it: the part behind the last separator, without trailing blanks and dots.
\<close>

definition is_sep :: "u16 \<Rightarrow> bool" where
  "is_sep c \<longleftrightarrow> c = of_char CHR 0x5C \<or> c = of_char CHR ''/''"

definition is_trail :: "u16 \<Rightarrow> bool" where
  "is_trail c \<longleftrightarrow> c = of_char CHR '' '' \<or> c = of_char CHR ''.''"

definition leaf_name :: "u16 list \<Rightarrow> u16 list" where
  "leaf_name p =
     (let q = takeWhile (\<lambda>c. c \<noteq> 0) p
      in rev (dropWhile is_trail (takeWhile (\<lambda>c. \<not> is_sep c) (rev q))))"


lemma path_len_eq:
  assumes "length p = SEMANTICS_AR_PROTO_PATH_MAX" "k \<le> length p"
  shows "path_len p k = k + length (takeWhile (\<lambda>c. c \<noteq> 0) (drop k p))"
  using assms
proof (induction p k rule: path_len.induct)
  case (1 p k)
  show ?case
  proof (cases "k < length p")
    case True
    then have d: "drop k p = p ! k # drop (Suc k) p"
      by (simp add: Cons_nth_drop_Suc)
    show ?thesis
      using 1 True by (subst path_len.simps) (simp add: d)
  next
    case False
    then show ?thesis
      using 1 by (subst path_len.simps) simp
  qed
qed

lemma path_leaf_0: "path_leaf p 0 = 0"
  by (simp add: path_leaf_def)

lemma path_leaf_Suc: "path_leaf p (Suc n) = (if is_sep (p ! n) then Suc n else path_leaf p n)"
  unfolding path_leaf_def is_sep_def upt_Suc_append [OF le0] fold_append by (simp only: o_apply fold.simps id_apply Suc_eq_plus1)

lemma path_leaf_le: "path_leaf p n \<le> n"
  by (induction n) (simp_all add: path_leaf_0 path_leaf_Suc)

lemma path_leaf_drop:
  "n \<le> length p \<Longrightarrow> drop (path_leaf p n) (take n p) = rev (takeWhile (\<lambda>c. \<not> is_sep c) (rev (take n p)))"
proof (induction n)
  case 0
  then show ?case by (simp add: path_leaf_0)
next
  case (Suc n)
  have t: "take (Suc n) p = take n p @ [p ! n]"
    using Suc.prems by (simp add: take_Suc_conv_app_nth)
  show ?case
    using Suc path_leaf_le [of p n] by (simp add: t path_leaf_Suc)
qed

lemma path_end_step:
  "path_end p leaf e = (if e > leaf \<and> is_trail (p ! (e - 1)) then path_end p leaf (e - 1) else e)"
  by (subst path_end.simps) (simp only: is_trail_def)

lemma path_end_drop:
  assumes "leaf \<le> e" "e \<le> length p"
  shows "leaf \<le> path_end p leaf e \<and> path_end p leaf e \<le> e \<and>
    drop leaf (take (path_end p leaf e) p) = rev (dropWhile is_trail (rev (drop leaf (take e p))))"
  using assms
proof (induction e rule: less_induct)
  case (less e)
  show ?case
  proof (cases "e > leaf")
    case True
    then have t: "drop leaf (take e p) = drop leaf (take (e - 1) p) @ [p ! (e - 1)]"
      using less.prems take_Suc_conv_app_nth [of "e - 1" p] by simp
    show ?thesis
    proof (cases "is_trail (p ! (e - 1))")
      case trail: True
      then have "path_end p leaf e = path_end p leaf (e - 1)"
        using True by (simp add: path_end_step [of p leaf e])
      then show ?thesis
        using less.IH [of "e - 1"] less.prems True trail by (simp add: t) linarith
    next
      case False
      then have "path_end p leaf e = e"
        by (simp add: path_end_step [of p leaf e])
      then show ?thesis
        using less.prems False by (simp add: t)
    qed
  next
    case False
    then have "path_end p leaf e = e"
      by (simp add: path_end_step [of p leaf e])
    then show ?thesis
      using less.prems False by simp
  qed
qed

lemma name_match_eq:
  "k \<le> e \<Longrightarrow> e \<le> length p \<Longrightarrow>
   name_match p e n k = Some e \<longleftrightarrow> map fold_case (drop k (take e p)) = map fold_case n"
proof (induction n arbitrary: k)
  case Nil
  then show ?case by auto
next
  case (Cons b n)
  show ?case
  proof (cases "k < e")
    case True
    then have "drop k (take e p) = p ! k # drop (Suc k) (take e p)"
      using Cons.prems Cons_nth_drop_Suc [of k "take e p"] by simp
    then show ?thesis
      using True Cons by auto
  next
    case False
    then show ?thesis using Cons.prems by simp
  qed
qed

text \<open>
  The loops decide whether the leaf of the path is, up to case, one of the names.
\<close>

lemma is_interpreter_eq:
  assumes "length p = SEMANTICS_AR_PROTO_PATH_MAX"
  shows "sar_identity_is_interpreter (Some p) \<longleftrightarrow>
    map fold_case (leaf_name p) \<in> map fold_case ` set interpreter_names"
proof -
  define q where "q = takeWhile (\<lambda>c. c \<noteq> 0) p"
  have len: "path_len p 0 = length q" "length q \<le> length p" and tq: "take (length q) p = q"
    using path_len_eq [OF assms, of 0] takeWhile_eq_take [of "\<lambda>c. c \<noteq> 0" p]
    by (simp_all add: q_def length_takeWhile_le)
  note leaf = path_leaf_le [of p "length q"] path_leaf_drop [OF len(2)]
  note e = path_end_drop [OF leaf(1) len(2)]
  define e0 where "e0 = path_end p (path_leaf p (length q)) (length q)"
  have "drop (path_leaf p (length q)) (take e0 p) = leaf_name p"
    using e leaf(2) by (simp add: e0_def leaf_name_def tq flip: q_def)
  moreover have "path_leaf p (length q) \<le> e0" "e0 \<le> length p"
    using e len by (simp_all add: e0_def)
  ultimately have "name_match p e0 n (path_leaf p (length q)) = Some e0 \<longleftrightarrow>
      map fold_case (leaf_name p) = map fold_case n" for n
    by (simp add: name_match_eq)
  then show ?thesis
    by (auto simp: sar_identity_is_interpreter_def len(1) list_ex_iff simp flip: e0_def)
qed

section \<open>The whitelist as a list of identities\<close>

definition id_key :: "sar_identity \<Rightarrow> bytes \<times> u16 list" where
  "id_key i = (id_content_hash i, id_cert_subject i)"

definition wf_identity :: "sar_identity \<Rightarrow> bool" where
  "wf_identity i \<longleftrightarrow> length (id_image_path i) = SEMANTICS_AR_PROTO_PATH_MAX \<and>
     length (id_cert_subject i) = SEMANTICS_AR_PROTO_SUBJECT_MAX \<and>
     length (id_content_hash i) = SEMANTICS_AR_CONTENT_HASH_SIZE"

definition wl_ids :: "sar_whitelist \<Rightarrow> sar_identity list" where
  "wl_ids w = take (unat (wl_count w)) (case wl_entries w of None \<Rightarrow> [] | Some es \<Rightarrow> es)"

definition wl_storage :: "sar_whitelist \<Rightarrow> bool" where
  "wl_storage w \<longleftrightarrow>
     (case wl_entries w of None \<Rightarrow> False | Some es \<Rightarrow> length es = unat (wl_capacity w)) \<and>
     (case wl_first_seen w of None \<Rightarrow> True | Some fs \<Rightarrow> length fs = unat (wl_capacity w)) \<and>
     wl_count w \<le> wl_capacity w"

definition ids_ok :: "sar_identity list \<Rightarrow> bool" where
  "ids_ok is \<longleftrightarrow> list_all wf_identity is \<and> distinct (map id_key is) \<and>
     list_all (\<lambda>i. \<not> sar_identity_is_interpreter (Some (id_image_path i))) is"

definition wl_ok :: "sar_whitelist \<Rightarrow> bool" where
  "wl_ok w \<longleftrightarrow> wl_storage w \<and> ids_ok (wl_ids w)"

lemma identity_equal_iff:
  "wf_identity a \<Longrightarrow> wf_identity b \<Longrightarrow> identity_equal a b \<longleftrightarrow> id_key a = id_key b"
  by (simp add: identity_equal_def wf_identity_def id_key_def ctl_memcmp_eq_0_take path_bytes_inject)

lemma wl_entriesE:
  assumes "wl_storage w"
  obtains es where "wl_entries w = Some es" "length es = unat (wl_capacity w)"
    "unat (wl_count w) \<le> length es" "wl_ids w = take (unat (wl_count w)) es"
  using assms by (cases "wl_entries w") (simp_all add: wl_storage_def wl_ids_def word_le_nat_alt)

lemma wl_scan:
  assumes "wl_ok w" "wf_identity i" "wl_entries w = Some es" "k < unat (wl_count w)"
  shows "identity_equal (es ! k) i \<longleftrightarrow> id_key (wl_ids w ! k) = id_key i" "k < length (wl_ids w)"
proof -
  have st: "wl_storage w" and wf: "list_all wf_identity (wl_ids w)"
    using assms(1) by (simp_all add: wl_ok_def ids_ok_def)
  show len: "k < length (wl_ids w)" and "identity_equal (es ! k) i \<longleftrightarrow> id_key (wl_ids w ! k) = id_key i"
    using assms st wf by (auto elim!: wl_entriesE simp: list_all_length identity_equal_iff)
qed

lemma length_wl_ids: "wl_storage w \<Longrightarrow> length (wl_ids w) = unat (wl_count w)"
  by (auto elim!: wl_entriesE)

lemma wl_scan_ex:
  assumes "wl_ok w" "wf_identity i" "wl_entries w = Some es"
  shows "list_ex (\<lambda>k. identity_equal (es ! k) i) [0..<unat (wl_count w)] \<longleftrightarrow> id_key i \<in> id_key ` set (wl_ids w)"
proof -
  have "list_ex (\<lambda>k. identity_equal (es ! k) i) [0..<unat (wl_count w)] \<longleftrightarrow>
      (\<exists>k < length (wl_ids w). id_key (wl_ids w ! k) = id_key i)"
    using assms wl_scan(1) [OF assms] length_wl_ids [of w] by (auto simp: list_ex_iff wl_ok_def)
  then show ?thesis
    by (metis (no_types, lifting) image_iff in_set_conv_nth)
qed

lemma sar_whitelist_match_iff:
  assumes "wl_ok w" "wf_identity i"
  shows "sar_whitelist_match (Some w) (Some i) \<longleftrightarrow> id_key i \<in> id_key ` set (wl_ids w)"
proof -
  obtain es where "wl_entries w = Some es"
    using assms(1) by (auto simp: wl_ok_def elim: wl_entriesE)
  then show ?thesis
    using wl_scan_ex [OF assms] by (simp add: sar_whitelist_match_def)
qed

lemma sar_whitelist_init_ok:
  "length es = unat n \<Longrightarrow> (\<forall>fs. first_seen = Some fs \<longrightarrow> length fs = unat n) \<Longrightarrow>
   wl_ok (sar_whitelist_init (Some es) first_seen n) \<and> wl_ids (sar_whitelist_init (Some es) first_seen n) = []"
  by (auto simp: sar_whitelist_init_def wl_ok_def wl_storage_def wl_ids_def ids_ok_def split: option.split)

subsection \<open>Adding\<close>

definition add_status :: "sar_whitelist \<Rightarrow> sar_identity \<Rightarrow> sar_wl_status" where
  "add_status w i =
     (if sar_identity_is_interpreter (Some (id_image_path i)) then SAR_WL_INTERPRETER
      else if id_key i \<in> id_key ` set (wl_ids w) then SAR_WL_DUPLICATE
      else if length (wl_ids w) \<ge> unat (wl_capacity w) then SAR_WL_FULL else SAR_WL_OK)"

lemma take_Suc_update: "n < length xs \<Longrightarrow> take (Suc n) (xs[n := x]) = take n xs @ [x]"
  by (simp add: take_Suc_conv_app_nth)

lemma unat_Suc_less: "(c::u32) < n \<Longrightarrow> unat (c + 1) = Suc (unat c)"
  using unsigned_less [of n, where 'a = nat] by (simp add: word_less_nat_alt unat_word_ariths(1))

lemma sar_whitelist_add_spec:
  assumes ok: "wl_ok w" and wf: "wf_identity i"
  obtains w' where "sar_whitelist_add (Some w) (Some i) t = (add_status w i, Some w')"
    "wl_ok w'" "wl_ids w' = (if add_status w i = SAR_WL_OK then wl_ids w @ [i] else wl_ids w)"
    "wl_capacity w' = wl_capacity w"
proof -
  have st: "wl_storage w" using ok by (simp add: wl_ok_def)
  obtain es where es: "wl_entries w = Some es" "length es = unat (wl_capacity w)"
    "unat (wl_count w) \<le> length es" "wl_ids w = take (unat (wl_count w)) es"
    by (rule wl_entriesE [OF st])
  note scan = wl_scan_ex [OF ok wf es(1)] length_wl_ids [OF st]
  have full: "wl_count w \<ge> wl_capacity w \<longleftrightarrow> length (wl_ids w) \<ge> unat (wl_capacity w)"
    by (simp add: scan word_le_nat_alt)
  show thesis
  proof (cases "add_status w i = SAR_WL_OK")
    case False
    then have "sar_whitelist_add (Some w) (Some i) t = (add_status w i, Some w)"
      by (auto simp: sar_whitelist_add_def add_status_def es(1) scan(1) full split: if_splits)
    then show thesis using False ok by (intro that [of w]) simp_all
  next
    case True
    then have free: "\<not> sar_identity_is_interpreter (Some (id_image_path i))"
      "id_key i \<notin> id_key ` set (wl_ids w)" "\<not> wl_count w \<ge> wl_capacity w"
      by (auto simp: add_status_def full split: if_splits)
    define w' where "w' = w\<lparr>wl_entries := Some (es[unat (wl_count w) := i]),
      wl_first_seen := map_option (\<lambda>fs. fs[unat (wl_count w) := t]) (wl_first_seen w), wl_count := wl_count w + 1\<rparr>"
    have add: "sar_whitelist_add (Some w) (Some i) t = (SAR_WL_OK, Some w')"
      using free by (simp add: sar_whitelist_add_def es(1) scan(1) w'_def)
    have lt: "unat (wl_count w) < length es" "unat (wl_count w + 1) = Suc (unat (wl_count w))"
      using free(3) es(2) unat_Suc_less [of "wl_count w" "wl_capacity w"] by (simp_all add: not_le word_less_nat_alt)
    have ids: "wl_ids w' = wl_ids w @ [i]"
      by (simp add: w'_def wl_ids_def es(1) lt take_Suc_update)
    have "wl_storage w'"
      using st lt es by (auto simp: w'_def wl_storage_def word_le_nat_alt split: option.splits)
    then have "wl_ok w'"
      using ok wf free by (simp add: wl_ok_def ids_ok_def ids)
    then show thesis
      using True add ids by (intro that [of w']) (simp_all add: w'_def)
  qed
qed

subsection \<open>Removing\<close>

lemma length_wl_shift [simp]: "length (wl_shift i n xs) = length xs"
proof -
  have "length (fold (\<lambda>j xs. xs[j - 1 := xs ! j]) js xs) = length xs" for js
    by (induction js arbitrary: xs) simp_all
  then show ?thesis by (simp add: wl_shift_def)
qed

lemma wl_shift_Suc:
  "i < n \<Longrightarrow> wl_shift i (Suc n) xs = (wl_shift i n xs)[n - 1 := wl_shift i n xs ! n]"
  by (simp add: wl_shift_def)

lemma wl_shift_nth:
  assumes "i < n" "n \<le> length xs" "k < length xs"
  shows "wl_shift i n xs ! k = (if i \<le> k \<and> Suc k < n then xs ! Suc k else xs ! k)"
  using assms
proof (induction n arbitrary: k)
  case 0
  then show ?case by simp
next
  case (Suc n)
  show ?case
  proof (cases "i < n")
    case True
    then show ?thesis
      using Suc by (auto simp: wl_shift_Suc nth_list_update)
  next
    case False
    then show ?thesis using Suc.prems by (auto simp: wl_shift_def)
  qed
qed

lemma take_wl_shift:
  assumes "i < n" "n \<le> length xs"
  shows "take (n - 1) (wl_shift i n xs) = take i (take n xs) @ drop (Suc i) (take n xs)"
  using assms by (intro nth_equalityI) (auto simp: wl_shift_nth nth_append split: if_splits)

lemma drop_nth_filter:
  assumes "distinct (map f xs)" "i < length xs"
  shows "take i xs @ drop (Suc i) xs = filter (\<lambda>x. f x \<noteq> f (xs ! i)) xs"
proof -
  have xs: "xs = take i xs @ xs ! i # drop (Suc i) xs"
    using assms(2) by (rule id_take_nth_drop)
  have d: "f (xs ! i) \<notin> set (map f (take i xs)) \<union> set (map f (drop (Suc i) xs))"
    using assms(1) by (subst (asm) xs) auto
  have "filter (\<lambda>x. f x \<noteq> f (xs ! i)) (take i xs @ xs ! i # drop (Suc i) xs) = take i xs @ drop (Suc i) xs"
    using d by (simp, intro arg_cong2 [where f = append]) (auto simp: filter_id_conv image_iff)
  then show ?thesis using xs by simp
qed

definition remove_status :: "sar_whitelist \<Rightarrow> sar_identity \<Rightarrow> sar_wl_status" where
  "remove_status w i = (if id_key i \<in> id_key ` set (wl_ids w) then SAR_WL_OK else SAR_WL_NOT_FOUND)"

lemma ids_ok_filter: "ids_ok xs \<Longrightarrow> ids_ok (filter P xs)"
  by (auto simp: ids_ok_def list_all_iff distinct_map_filter)

lemma sar_whitelist_remove_spec:
  assumes ok: "wl_ok w" and wf: "wf_identity i"
  obtains w' where "sar_whitelist_remove (Some w) (Some i) = (remove_status w i, Some w')"
    "wl_ok w'" "wl_ids w' = filter (\<lambda>j. id_key j \<noteq> id_key i) (wl_ids w)" "wl_capacity w' = wl_capacity w"
proof -
  have st: "wl_storage w" and ids: "ids_ok (wl_ids w)" using ok by (simp_all add: wl_ok_def)
  obtain es where es: "wl_entries w = Some es" "length es = unat (wl_capacity w)"
    "unat (wl_count w) \<le> length es" "wl_ids w = take (unat (wl_count w)) es"
    by (rule wl_entriesE [OF st])
  show thesis
  proof (cases "find (\<lambda>k. identity_equal (es ! k) i) [0..<unat (wl_count w)]")
    case None
    then have out: "id_key i \<notin> id_key ` set (wl_ids w)"
      using wl_scan_ex [OF ok wf es(1)] by (auto simp: find_None_iff list_ex_iff)
    then have "filter (\<lambda>j. id_key j \<noteq> id_key i) (wl_ids w) = wl_ids w"
      by (auto simp: filter_id_conv image_iff)
    then show thesis
      using None out ok by (intro that [of w]) (simp_all add: sar_whitelist_remove_def es(1) remove_status_def)
  next
    case (Some k)
    then have k: "k < unat (wl_count w)" "identity_equal (es ! k) i"
      by (auto simp: find_Some_iff)
    have at: "id_key (wl_ids w ! k) = id_key i" "k < length (wl_ids w)"
      using wl_scan [OF ok wf es(1) k(1)] k(2) by simp_all
    define w' where "w' = w\<lparr>wl_entries := Some (wl_shift k (unat (wl_count w)) es),
      wl_first_seen := map_option (wl_shift k (unat (wl_count w))) (wl_first_seen w), wl_count := wl_count w - 1\<rparr>"
    have c: "unat (wl_count w - 1) = unat (wl_count w) - 1"
      using k(1) by (intro unat_minus_one) auto
    have "wl_ids w' = take k (wl_ids w) @ drop (Suc k) (wl_ids w)"
      using take_wl_shift [OF k(1) es(3)] by (simp only: es(4) [symmetric]) (simp add: w'_def wl_ids_def c)
    also have "\<dots> = filter (\<lambda>j. id_key j \<noteq> id_key i) (wl_ids w)"
      using drop_nth_filter [of id_key "wl_ids w" k] ids at by (simp add: ids_ok_def)
    finally have ids': "wl_ids w' = filter (\<lambda>j. id_key j \<noteq> id_key i) (wl_ids w)" .
    have "wl_storage w'"
      using st es by (auto simp: w'_def wl_storage_def word_le_nat_alt c split: option.splits)
    then have "wl_ok w'"
      using ids by (simp add: wl_ok_def ids' ids_ok_filter)
    moreover have "remove_status w i = SAR_WL_OK"
      using at by (auto simp: remove_status_def in_set_conv_nth intro!: rev_image_eqI [of "wl_ids w ! k"])
    ultimately show thesis
      using ids' by (intro that [of w']) (simp_all add: sar_whitelist_remove_def es(1) Some w'_def)
  qed
qed

lemma sar_whitelist_enumerate_nth:
  assumes "wl_ok w"
  shows "map_option fst (snd (sar_whitelist_enumerate (Some w) k)) =
    (if unat k < length (wl_ids w) then Some (wl_ids w ! unat k) else None)"
proof -
  have st: "wl_storage w" using assms by (simp add: wl_ok_def)
  obtain es where es: "wl_entries w = Some es" "length es = unat (wl_capacity w)"
    "unat (wl_count w) \<le> length es" "wl_ids w = take (unat (wl_count w)) es"
    by (rule wl_entriesE [OF st])
  then show ?thesis
    using length_wl_ids [OF st] by (auto simp: sar_whitelist_enumerate_def word_le_nat_alt)
qed

section \<open>Refinement\<close>

datatype wl_op = Wl_Add sar_identity u64 | Wl_Remove sar_identity

primrec wl_op_id :: "wl_op \<Rightarrow> sar_identity" where
  "wl_op_id (Wl_Add i t) = i"
| "wl_op_id (Wl_Remove i) = i"

primrec wl_step :: "wl_op \<Rightarrow> sar_whitelist option \<Rightarrow> sar_whitelist option" where
  "wl_step (Wl_Add i t) wl = snd (sar_whitelist_add wl (Some i) t)"
| "wl_step (Wl_Remove i) wl = snd (sar_whitelist_remove wl (Some i))"

text \<open>
  What an administrator is promised: a list of identities with distinct keys, bounded by the capacity, that never
  holds an interpreter.
\<close>

primrec spec_step :: "nat \<Rightarrow> wl_op \<Rightarrow> sar_identity list \<Rightarrow> sar_identity list" where
  "spec_step cap (Wl_Add i t) is =
     (if map fold_case (leaf_name (id_image_path i)) \<in> map fold_case ` set interpreter_names \<or>
         id_key i \<in> id_key ` set is \<or> length is \<ge> cap then is else is @ [i])"
| "spec_step cap (Wl_Remove i) is = filter (\<lambda>j. id_key j \<noteq> id_key i) is"

lemma wl_step_refines:
  assumes "wl_ok w" "wf_identity (wl_op_id x)"
  obtains w' where "wl_step x (Some w) = Some w'" "wl_ok w'" "wl_capacity w' = wl_capacity w"
    "wl_ids w' = spec_step (unat (wl_capacity w)) x (wl_ids w)"
proof (cases x)
  case (Wl_Add i t)
  with assms have "wf_identity i" by simp
  moreover obtain w' where "sar_whitelist_add (Some w) (Some i) t = (add_status w i, Some w')"
    "wl_ok w'" "wl_ids w' = (if add_status w i = SAR_WL_OK then wl_ids w @ [i] else wl_ids w)"
    "wl_capacity w' = wl_capacity w"
    using sar_whitelist_add_spec [OF assms(1) calculation] by metis
  ultimately show thesis
    by (intro that [of w']) (simp_all add: Wl_Add add_status_def wf_identity_def is_interpreter_eq)
next
  case (Wl_Remove i)
  with assms have "wf_identity i" by simp
  then show thesis
    by (rule sar_whitelist_remove_spec [OF assms(1)]) (rule that; simp add: Wl_Remove)
qed

lemma wl_steps_refine:
  assumes "wl_ok w" "list_all (\<lambda>x. wf_identity (wl_op_id x)) xs"
  shows "\<exists>w'. fold wl_step xs (Some w) = Some w' \<and> wl_ok w' \<and> wl_capacity w' = wl_capacity w \<and>
    wl_ids w' = fold (spec_step (unat (wl_capacity w))) xs (wl_ids w)"
  using assms
proof (induction xs arbitrary: w)
  case Nil
  then show ?case by simp
next
  case (Cons x xs)
  obtain w1 where "wl_step x (Some w) = Some w1" "wl_ok w1" "wl_capacity w1 = wl_capacity w"
    "wl_ids w1 = spec_step (unat (wl_capacity w)) x (wl_ids w)"
    by (rule wl_step_refines [of w x]) (use Cons.prems in simp_all)
  then show ?case
    using Cons.IH [of w1] Cons.prems by simp
qed

text \<open>
  C20: started on an empty array, any sequence of additions and removals leaves the whitelist holding exactly the
  identities of the abstract list, \<open>sar_whitelist_match\<close> answers for exactly their keys, and no interpreter, no
  duplicate and no more than the capacity ever gets in.
\<close>

theorem whitelist_refines:
  assumes "length es = unat n" "\<forall>fs. first_seen = Some fs \<longrightarrow> length fs = unat n"
    "list_all (\<lambda>x. wf_identity (wl_op_id x)) xs" "wf_identity i"
  shows "\<exists>w. fold wl_step xs (Some (sar_whitelist_init (Some es) first_seen n)) = Some w \<and>
    wl_ids w = fold (spec_step (unat n)) xs [] \<and>
    (sar_whitelist_match (Some w) (Some i) \<longleftrightarrow> id_key i \<in> id_key ` set (fold (spec_step (unat n)) xs [])) \<and>
    distinct (map id_key (wl_ids w)) \<and> length (wl_ids w) \<le> unat n \<and>
    list_all (\<lambda>j. \<not> sar_identity_is_interpreter (Some (id_image_path j))) (wl_ids w)"
proof -
  let ?w0 = "sar_whitelist_init (Some es) first_seen n"
  have w0: "wl_ok ?w0" "wl_ids ?w0 = []" "wl_capacity ?w0 = n"
    using sar_whitelist_init_ok [OF assms(1,2)] by (simp_all add: sar_whitelist_init_def)
  obtain w where w: "fold wl_step xs (Some ?w0) = Some w" "wl_ok w" "wl_capacity w = n"
    "wl_ids w = fold (spec_step (unat n)) xs []"
    using wl_steps_refine [OF w0(1) assms(3)] w0 by auto
  have "length (wl_ids w) \<le> unat n"
    using w(2,3) length_wl_ids [of w] by (simp add: wl_ok_def wl_storage_def word_le_nat_alt)
  then show ?thesis
    using w sar_whitelist_match_iff [OF w(2) assms(4)] by (simp add: wl_ok_def ids_ok_def)
qed

definition id_example :: "string \<Rightarrow> u8 \<Rightarrow> sar_identity" where
  "id_example p h = \<lparr>id_image_path = u16s p @ replicate (SEMANTICS_AR_PROTO_PATH_MAX - length p) 0,
     id_cert_subject = replicate SEMANTICS_AR_PROTO_SUBJECT_MAX 1,
     id_content_hash = replicate SEMANTICS_AR_CONTENT_HASH_SIZE h\<rparr>"

theorem whitelist_refines_witness:
  "\<exists>w. fold wl_step [Wl_Add (id_example ''a.exe'' 1) 5, Wl_Add (id_example ''b.exe'' 2) 6, Wl_Remove (id_example ''c'' 1)]
      (Some (sar_whitelist_init (Some (replicate 2 (id_example '''' 0))) (Some [0, 0]) 2)) = Some w \<and>
    sar_whitelist_match (Some w) (Some (id_example ''z'' 2))"
proof -
  let ?xs = "[Wl_Add (id_example ''a.exe'' 1) 5, Wl_Add (id_example ''b.exe'' 2) 6, Wl_Remove (id_example ''c'' 1)]"
  have "id_key (id_example ''z'' 2) \<in> id_key ` set (fold (spec_step 2) ?xs [])"
    by code_simp
  then show ?thesis
    using whitelist_refines [of "replicate 2 (id_example '''' 0)" 2 "Some [0, 0]" ?xs "id_example ''z'' 2"]
    by (auto simp: id_example_def wf_identity_def u16s_def SEMANTICS_AR_PROTO_PATH_MAX_def)
qed

end
