(* ===== verification/Eventlog.thy ===== *)
theory Eventlog
  imports Sar_Prelude
begin

text \<open>
  The driver's event log, \<^verbatim>\<open>driver/eventlog.c\<close>: a ring of 256 records numbered by a sequence that never restarts within a
  generation. The system time read by \<open>SarEventLogCreate\<close> and \<open>SarEventLogRecord\<close> is an argument. The history of
  everything ever recorded is the abstract state; \<open>el_rep\<close> says that the ring holds the end of it.
\<close>

section \<open>Definitions\<close>

definition SAR_EVENTLOG_CAPACITY :: nat where "SAR_EVENTLOG_CAPACITY = 256"

record SAR_EVENT_RECORD =
  er_generation :: u64
  er_sequence :: u64
  er_timestamp_100ns :: u64
  er_actor_start_key :: u64
  er_event_class :: u32

record SAR_EVENTLOG =
  el_generation :: u64
  el_next_sequence :: u64
  el_head :: u32
  el_count :: u32
  el_records :: "SAR_EVENT_RECORD list"

definition event_zero :: SAR_EVENT_RECORD where
  "event_zero = \<lparr>er_generation = 0, er_sequence = 0, er_timestamp_100ns = 0, er_actor_start_key = 0, er_event_class = 0\<rparr>"

definition SarEventLogCreate :: "u64 \<Rightarrow> SAR_EVENTLOG" where
  "SarEventLogCreate now =
     \<lparr>el_generation = (if now = 0 then 1 else now), el_next_sequence = 1, el_head = 0, el_count = 0,
      el_records = replicate SAR_EVENTLOG_CAPACITY event_zero\<rparr>"

definition SarEventLogRecord :: "u64 \<Rightarrow> SAR_EVENTLOG option \<Rightarrow> u32 \<Rightarrow> u64 \<Rightarrow> SAR_EVENTLOG option" where
  "SarEventLogRecord now log event_class actor =
     map_option (\<lambda>l. l
       \<lparr>el_records := (el_records l)[unat (el_head l) :=
          \<lparr>er_generation = el_generation l, er_sequence = el_next_sequence l, er_timestamp_100ns = now,
           er_actor_start_key = actor, er_event_class = event_class\<rparr>],
        el_next_sequence := el_next_sequence l + 1,
        el_head := (el_head l + 1) mod of_nat SAR_EVENTLOG_CAPACITY,
        el_count := (if el_count l < of_nat SAR_EVENTLOG_CAPACITY then el_count l + 1 else el_count l)\<rparr>) log"

text \<open>
  The answer of \<open>SarEventLogQuery\<close>: the record, whether it is valid, and whether records were lost before it.
\<close>

definition SarEventLogQuery :: "SAR_EVENTLOG option \<Rightarrow> u64 \<Rightarrow> u64 \<Rightarrow> SAR_EVENT_RECORD \<times> bool \<times> bool" where
  "SarEventLogQuery log generation sequence =
     (case log of
        None \<Rightarrow> (event_zero, False, False)
      | Some l \<Rightarrow>
          if el_count l = 0 then (event_zero, False, False)
          else
            let tail = (el_head l + of_nat SAR_EVENTLOG_CAPACITY - el_count l) mod of_nat SAR_EVENTLOG_CAPACITY;
                oldest = er_sequence (el_records l ! unat tail);
                newest = el_next_sequence l - 1
            in if generation = el_generation l \<and> \<not> (generation = 0 \<and> sequence = 0) then
                 let target = sequence + 1
                 in if target > newest then (event_zero, False, False)
                    else if target < oldest then (el_records l ! unat tail, True, True)
                    else
                      let idx = (ucast tail + (target - oldest)) mod of_nat SAR_EVENTLOG_CAPACITY
                      in (el_records l ! unat (ucast idx :: u32), True, False)
               else (el_records l ! unat tail, True, generation \<noteq> 0 \<or> sequence \<noteq> 0))"

section \<open>The ring holds the end of the history\<close>

type_synonym history = "(u64 \<times> u32 \<times> u64) list"

definition nth_event :: "u64 \<Rightarrow> history \<Rightarrow> nat \<Rightarrow> SAR_EVENT_RECORD" where
  "nth_event gen h k = (case h ! k of (now, event_class, actor) \<Rightarrow>
     \<lparr>er_generation = gen, er_sequence = of_nat (Suc k), er_timestamp_100ns = now,
      er_actor_start_key = actor, er_event_class = event_class\<rparr>)"

definition oldest_kept :: "history \<Rightarrow> nat" where
  "oldest_kept h = length h - SAR_EVENTLOG_CAPACITY"

definition el_rep :: "u64 \<Rightarrow> history \<Rightarrow> SAR_EVENTLOG \<Rightarrow> bool" where
  "el_rep gen h l \<longleftrightarrow>
     el_generation l = gen \<and> el_next_sequence l = of_nat (Suc (length h)) \<and>
     unat (el_head l) = length h mod SAR_EVENTLOG_CAPACITY \<and>
     unat (el_count l) = min SAR_EVENTLOG_CAPACITY (length h) \<and>
     length (el_records l) = SAR_EVENTLOG_CAPACITY \<and>
     (\<forall>k. oldest_kept h \<le> k \<and> k < length h \<longrightarrow>
        el_records l ! (k mod SAR_EVENTLOG_CAPACITY) = nth_event gen h k)"

lemma el_rep_create: "el_rep (if now = 0 then 1 else now) [] (SarEventLogCreate now)"
  by (simp add: el_rep_def SarEventLogCreate_def oldest_kept_def SAR_EVENTLOG_CAPACITY_def)

lemma nth_event_append: "k < length h \<Longrightarrow> nth_event gen (h @ x) k = nth_event gen h k"
  by (simp add: nth_event_def nth_append)

lemma mod_ring_neq:
  assumes "n - c \<le> k" "k < n" "0 < c" "n < k + c"
  shows "k mod c \<noteq> n mod (c::nat)"
proof
  assume "k mod c = n mod c"
  then have "c dvd n - k" using assms(2) by (metis less_imp_le mod_eq_dvd_iff_nat)
  then show False using assms dvd_imp_le [of c "n - k"] by simp
qed

lemma el_rep_record:
  assumes "el_rep gen h l"
  obtains l' where "SarEventLogRecord now (Some l) event_class actor = Some l'"
    "el_rep gen (h @ [(now, event_class, actor)]) l'"
proof -
  let ?h = "h @ [(now, event_class, actor)]"
  define l' where "l' = the (SarEventLogRecord now (Some l) event_class actor)"
  have l: "el_generation l = gen" "el_next_sequence l = of_nat (Suc (length h))"
    "unat (el_head l) = length h mod 256" "unat (el_count l) = min 256 (length h)"
    "length (el_records l) = 256"
    "\<And>k. oldest_kept h \<le> k \<Longrightarrow> k < length h \<Longrightarrow> el_records l ! (k mod 256) = nth_event gen h k"
    using assms by (simp_all add: el_rep_def SAR_EVENTLOG_CAPACITY_def)
  have "unat (el_head l + 1) = Suc (length h mod 256)"
    using l(3) by (simp add: unat_word_ariths(1))
  then have head: "unat (el_head l') = length ?h mod 256"
    by (simp add: l'_def SarEventLogRecord_def SAR_EVENTLOG_CAPACITY_def unat_mod mod_Suc_eq)
  have count: "unat (el_count l') = min 256 (length ?h)"
    using l(4) by (auto simp: l'_def SarEventLogRecord_def SAR_EVENTLOG_CAPACITY_def word_less_nat_alt unat_word_ariths(1) min_def
        split: if_splits)
  have recs: "el_records l' ! (k mod 256) = nth_event gen ?h k" if "oldest_kept ?h \<le> k" "k < length ?h" for k
  proof (cases "k = length h")
    case True
    then show ?thesis
      by (simp add: l'_def SarEventLogRecord_def l nth_event_def)
  next
    case False
    then have "k < length h" "k mod 256 \<noteq> length h mod 256" "oldest_kept h \<le> k"
      using that mod_ring_neq [of "length h" 256 k] by (auto simp: oldest_kept_def SAR_EVENTLOG_CAPACITY_def)
    then show ?thesis
      using l(6) [of k] by (simp add: l'_def SarEventLogRecord_def l(3) nth_event_append)
  qed
  have "el_rep gen ?h l'"
    using head count recs l by (simp add: el_rep_def SAR_EVENTLOG_CAPACITY_def) (simp add: l'_def SarEventLogRecord_def)
  then show thesis
    by (intro that [of l']) (simp_all add: l'_def SarEventLogRecord_def)
qed

text \<open>
  The log after a history of records, and what a query at a cursor is to answer.
\<close>

definition eventlog_after :: "u64 \<Rightarrow> history \<Rightarrow> SAR_EVENTLOG option" where
  "eventlog_after now h =
     fold (\<lambda>(t, event_class, actor) log. SarEventLogRecord t log event_class actor) h (Some (SarEventLogCreate now))"

lemma eventlog_after_rep:
  "\<exists>l. eventlog_after now h = Some l \<and> el_rep (if now = 0 then 1 else now) h l"
proof (induction h rule: rev_induct)
  case Nil
  then show ?case using el_rep_create [of now] by (simp add: eventlog_after_def)
next
  case (snoc x h)
  obtain t c a where x: "x = (t, c, a)" by (cases x)
  obtain l where l: "eventlog_after now h = Some l" "el_rep (if now = 0 then 1 else now) h l"
    using snoc by blast
  obtain l' where "SarEventLogRecord t (Some l) c a = Some l'" "el_rep (if now = 0 then 1 else now) (h @ [(t, c, a)]) l'"
    by (rule el_rep_record [OF l(2)])
  then show ?case
    using l(1) by (simp add: eventlog_after_def x)
qed

lemma el_tail:
  assumes "el_rep gen h l" "h \<noteq> []"
  shows "unat ((el_head l + of_nat SAR_EVENTLOG_CAPACITY - el_count l) mod of_nat SAR_EVENTLOG_CAPACITY) =
      oldest_kept h mod 256"
    and "el_records l ! (oldest_kept h mod 256) = nth_event gen h (oldest_kept h)"
proof -
  have l: "unat (el_head l) = length h mod 256" "unat (el_count l) = min 256 (length h)"
    using assms(1) by (simp_all add: el_rep_def SAR_EVENTLOG_CAPACITY_def)
  have "unat (el_head l + 256) = length h mod 256 + 256"
    using l(1) by (simp add: unat_word_ariths(1))
  then have "unat (el_head l + 256 - el_count l) = length h mod 256 + 256 - min 256 (length h)"
    using l(2) by (subst unat_sub) (simp_all add: word_le_nat_alt)
  then show "unat ((el_head l + of_nat SAR_EVENTLOG_CAPACITY - el_count l) mod of_nat SAR_EVENTLOG_CAPACITY) =
      oldest_kept h mod 256"
    by (auto simp: unat_mod SAR_EVENTLOG_CAPACITY_def oldest_kept_def min_def le_mod_geq)
  show "el_records l ! (oldest_kept h mod 256) = nth_event gen h (oldest_kept h)"
    using assms by (cases h) (auto simp: el_rep_def oldest_kept_def SAR_EVENTLOG_CAPACITY_def)
qed

lemma er_sequence_nth [simp]: "er_sequence (nth_event gen h k) = of_nat (Suc k)"
  by (simp add: nth_event_def split: prod.split)

lemma el_index:
  assumes "o' \<le> k" "k < o' + 256" "unat (tail :: u32) = o' mod 256" "k < 2 ^ 63"
  shows "unat (ucast ((ucast tail + (of_nat (Suc k) - of_nat (Suc o') :: u64)) mod 256) :: u32) = k mod 256"
proof -
  define d :: u64 where "d = of_nat (Suc k) - of_nat (Suc o')"
  have "d = of_nat (k - o')"
    using assms(1) by (simp add: d_def of_nat_diff)
  moreover have "unat (of_nat (k - o') :: u64) = k - o'"
    using assms(4) by (simp add: unat_of_nat del: of_nat_diff)
  ultimately have d: "unat d = k - o'" by simp
  have t: "unat (ucast tail :: u64) = o' mod 256"
    using mod_less_divisor [of 256 o'] by (simp add: unsigned_ucast_eq assms(3) take_bit_nat_eq_self)
  have lt: "o' mod 256 + (k - o') < 2 ^ 64"
    using assms(2) mod_less_divisor [of 256 o'] by simp
  have u: "unat (ucast tail + d) = o' mod 256 + (k - o')"
    unfolding unat_word_ariths(1) t d using lt by simp
  have "unat ((ucast tail + d) mod 256) = (o' mod 256 + (k - o')) mod 256"
    unfolding unat_mod u by simp
  also have "\<dots> = k mod 256"
    using assms(1) by (metis le_add_diff_inverse mod_add_left_eq)
  finally have "unat ((ucast tail + d) mod 256) = k mod 256" .
  then have "unat (ucast ((ucast tail + d) mod 256) :: u32) = k mod 256"
    by (simp add: unsigned_ucast_eq take_bit_nat_eq_self)
  then show ?thesis
    by (simp only: d_def)
qed

definition query_spec :: "u64 \<Rightarrow> history \<Rightarrow> u64 \<Rightarrow> u64 \<Rightarrow> SAR_EVENT_RECORD \<times> bool \<times> bool" where
  "query_spec gen h g s =
     (if h = [] then (event_zero, False, False)
      else if g \<noteq> gen then (nth_event gen h (oldest_kept h), True, g \<noteq> 0 \<or> s \<noteq> 0)
      else if length h \<le> unat s then (event_zero, False, False)
      else if unat s < oldest_kept h then (nth_event gen h (oldest_kept h), True, True)
      else (nth_event gen h (unat s), True, False))"

lemma query_rep:
  assumes rep: "el_rep gen h l" and "gen \<noteq> 0" and len: "length h < 2 ^ 63" and s: "unat s < 2 ^ 63"
  shows "SarEventLogQuery (Some l) g s = query_spec gen h g s"
proof (cases "h = []")
  case True
  then show ?thesis using rep by (simp add: SarEventLogQuery_def query_spec_def el_rep_def unat_eq_0)
next
  case False
  note tail = el_tail [OF rep False]
  have l: "el_generation l = gen" "el_next_sequence l = of_nat (Suc (length h))" "el_count l \<noteq> 0"
    using rep False by (auto simp: el_rep_def SAR_EVENTLOG_CAPACITY_def unat_eq_0 [symmetric])
  have newest: "s + 1 > el_next_sequence l - 1 \<longleftrightarrow> length h \<le> unat s"
    using len s by (simp add: l(2) word_less_nat_alt unat_word_ariths(1) unat_of_nat take_bit_nat_eq_self less_Suc_eq_le)
  have ok: "oldest_kept h < 2 ^ 63"
    using len by (simp add: oldest_kept_def)
  have old: "s + 1 < of_nat (Suc (oldest_kept h)) \<longleftrightarrow> unat s < oldest_kept h"
    using ok s by (simp add: word_less_nat_alt unat_word_ariths(1) unat_of_nat take_bit_nat_eq_self)
  have at: "el_records l ! (unat s mod 256) = nth_event gen h (unat s)"
    if "oldest_kept h \<le> unat s" "unat s < length h"
    using rep that by (simp add: el_rep_def SAR_EVENTLOG_CAPACITY_def)
  have idx: "unat (ucast ((ucast ((el_head l + 256 - el_count l) mod 256) + (s + 1 - of_nat (Suc (oldest_kept h)) :: u64)) mod 256) :: u32)
      = unat s mod 256" if "oldest_kept h \<le> unat s" "unat s < length h"
    using el_index [OF that(1) _ tail(1) s] that by (simp add: oldest_kept_def SAR_EVENTLOG_CAPACITY_def add.commute)
  show ?thesis
    using tail l(1,3) assms(2) newest old at idx False
    by (auto simp: SarEventLogQuery_def query_spec_def Let_def SAR_EVENTLOG_CAPACITY_def)
qed

section \<open>Reading the log\<close>

text \<open>
  Whatever was recorded, a reader that saw the event with sequence \<open>s\<close> of the current generation gets the next one,
  unless it was overwritten: then it gets the oldest event still held, flagged as a gap. A reader with nothing new to
  read is told so, and a reader of another generation restarts at the oldest event, with the gap flagged unless it
  never read before.
\<close>

theorem eventlog_query_exact:
  assumes "length h < 2 ^ 63" "unat s < 2 ^ 63"
  shows "SarEventLogQuery (eventlog_after now h) g s = query_spec (if now = 0 then 1 else now) h g s"
proof -
  obtain l where "eventlog_after now h = Some l" "el_rep (if now = 0 then 1 else now) h l"
    using eventlog_after_rep by blast
  then show ?thesis
    using query_rep [OF _ _ assms, of "if now = 0 then 1 else now" l g] by simp
qed

theorem eventlog_query_exact_witness:
  "SarEventLogQuery (eventlog_after 9 (map (\<lambda>k. (of_nat k, 3, 0)) [0..<300])) 9 7 =
     (\<lparr>er_generation = 9, er_sequence = 45, er_timestamp_100ns = 44, er_actor_start_key = 0, er_event_class = 3\<rparr>, True, True)"
  using eventlog_query_exact [of "map (\<lambda>k. (of_nat k, 3, 0)) [0..<300]" 7 9 9]
  by (simp add: query_spec_def nth_event_def oldest_kept_def SAR_EVENTLOG_CAPACITY_def)

text \<open>
  A reader that polls with the cursor of the last event it got, until the log has nothing new.
\<close>

fun poll :: "nat \<Rightarrow> SAR_EVENTLOG option \<Rightarrow> u64 \<Rightarrow> u64 \<Rightarrow> SAR_EVENT_RECORD list" where
  "poll 0 log g s = []"
| "poll (Suc n) log g s =
     (case SarEventLogQuery log g s of (r, valid, gap) \<Rightarrow>
        if valid then r # poll n log (er_generation r) (er_sequence r) else [])"

lemma er_generation_nth [simp]: "er_generation (nth_event gen h k) = gen"
  by (simp add: nth_event_def split: prod.split)

lemma poll_suffix:
  assumes rep: "el_rep gen h l" and gen: "gen \<noteq> 0" and len: "length h < 2 ^ 62"
  shows "oldest_kept h \<le> k \<Longrightarrow> k \<le> length h \<Longrightarrow> length h - k < n \<Longrightarrow>
    poll n (Some l) gen (of_nat k) = map (nth_event gen h) [k..<length h]"
proof (induction n arbitrary: k)
  case 0
  then show ?case by simp
next
  case (Suc n)
  have u: "unat (of_nat k :: u64) = k"
    using Suc.prems len by (simp add: unat_of_nat take_bit_nat_eq_self)
  have q: "SarEventLogQuery (Some l) gen (of_nat k) = query_spec gen h gen (of_nat k)"
    using query_rep [OF rep gen] len u Suc.prems by simp
  show ?case
  proof (cases "k < length h")
    case True
    then have "poll n (Some l) gen (of_nat (Suc k)) = map (nth_event gen h) [Suc k..<length h]"
      using Suc by (intro Suc.IH) simp_all
    moreover have "query_spec gen h gen (of_nat k) = (nth_event gen h k, True, False)"
      using True Suc.prems by (auto simp: query_spec_def u)
    ultimately show ?thesis
      using True by (simp add: q upt_conv_Cons del: of_nat_Suc)
  next
    case False
    then have "query_spec gen h gen (of_nat k) = (event_zero, False, False)"
      by (simp add: query_spec_def u)
    then show ?thesis
      using False by (simp add: q)
  qed
qed

text \<open>
  C30: a reader that starts from nothing and keeps polling gets every event the log still holds, in the order they were
  recorded, and reaches the end after at most one poll more than the capacity.
\<close>

theorem eventlog_poll_drains:
  assumes "length h < 2 ^ 62" "SAR_EVENTLOG_CAPACITY < n"
  shows "poll n (eventlog_after now h) 0 0 =
    map (nth_event (if now = 0 then 1 else now) h) [oldest_kept h..<length h]"
proof -
  let ?gen = "if now = 0 then 1 else now"
  obtain l where l: "eventlog_after now h = Some l" "el_rep ?gen h l"
    using eventlog_after_rep by blast
  obtain m where n: "n = Suc m" "length h - oldest_kept h \<le> m"
    using assms(2) by (cases n) (auto simp: oldest_kept_def)
  have q: "SarEventLogQuery (Some l) 0 0 = query_spec ?gen h 0 0"
    using query_rep [OF l(2)] assms(1) by simp
  show ?thesis
  proof (cases "h = []")
    case True
    then have "query_spec ?gen h 0 0 = (event_zero, False, False)"
      by (simp add: query_spec_def)
    then show ?thesis
      by (simp only: n l(1) poll.simps q) (simp add: True oldest_kept_def)
  next
    case False
    then have lt: "oldest_kept h < length h"
      by (simp add: oldest_kept_def SAR_EVENTLOG_CAPACITY_def)
    have "poll m (Some l) ?gen (of_nat (Suc (oldest_kept h))) = map (nth_event ?gen h) [Suc (oldest_kept h)..<length h]"
      using poll_suffix [OF l(2) _ assms(1), of "Suc (oldest_kept h)" m] lt n(2) by simp
    moreover have "query_spec ?gen h 0 0 = (nth_event ?gen h (oldest_kept h), True, False)"
      using False by (auto simp: query_spec_def)
    ultimately show ?thesis
      using lt by (simp add: n q l(1) upt_conv_Cons del: of_nat_Suc)
  qed
qed

theorem eventlog_poll_drains_witness:
  "map er_sequence (poll 300 (eventlog_after 9 [(1, 3, 0), (2, 4, 7)]) 0 0) = [1, 2]"
  using eventlog_poll_drains [of "[(1, 3, 0), (2, 4, 7)]" 300 9]
  by (simp add: oldest_kept_def SAR_EVENTLOG_CAPACITY_def)

end
