(* ===== verification/Driver_State.thy ===== *)
theory Driver_State
  imports Whitelist Eventlog
begin

text \<open>
  The driver's shared state, \<^verbatim>\<open>driver/state.c\<close>, and the callbacks that read and change it: the process notification of
  \<^verbatim>\<open>driver/processnotify.c\<close>, the handle guard of \<^verbatim>\<open>driver/obguard.c\<close>, and the image and evidence hooks of
  \<^verbatim>\<open>driver/phantom.c\<close>. Each operation runs under its lock, so it is one step. What the kernel answers (process ids and
  start keys, protection levels, file names, allocation) is an argument.
\<close>

section \<open>Definitions\<close>

definition SAR_WHITELIST_CAPACITY :: u32 where "SAR_WHITELIST_CAPACITY = 256"
definition SAR_IDENTITY_BUCKET_COUNT :: u32 where "SAR_IDENTITY_BUCKET_COUNT = 1024"
definition SAR_PHANTOM_K_THRESHOLD :: "32 word" where "SAR_PHANTOM_K_THRESHOLD = 3"

definition SAR_EVENT_CLASS_KEY_CAPTURED :: u32 where "SAR_EVENT_CLASS_KEY_CAPTURED = 1"
definition SAR_EVENT_CLASS_BLOCK_FORWARD :: u32 where "SAR_EVENT_CLASS_BLOCK_FORWARD = 2"
definition SAR_EVENT_CLASS_BLOCK_PHANTOM :: u32 where "SAR_EVENT_CLASS_BLOCK_PHANTOM = 3"
definition SAR_EVENT_CLASS_BLOCK_CAPACITY :: u32 where "SAR_EVENT_CLASS_BLOCK_CAPACITY = 4"
definition SAR_EVENT_CLASS_MODE_CHANGED :: u32 where "SAR_EVENT_CLASS_MODE_CHANGED = 5"
definition SAR_EVENT_CLASS_WHITELIST_ADDED :: u32 where "SAR_EVENT_CLASS_WHITELIST_ADDED = 6"
definition SAR_EVENT_CLASS_WHITELIST_REMOVED :: u32 where "SAR_EVENT_CLASS_WHITELIST_REMOVED = 7"
definition SAR_EVENT_CLASS_BLOCK_INJECTION :: u32 where "SAR_EVENT_CLASS_BLOCK_INJECTION = 8"
definition SAR_EVENT_CLASS_EXEMPT_REVOKED :: u32 where "SAR_EVENT_CLASS_EXEMPT_REVOKED = 10"

text \<open>
  The status codes the modelled parts of the driver return.
\<close>

datatype NTSTATUS =
    STATUS_SUCCESS | STATUS_UNSUCCESSFUL | STATUS_INSUFFICIENT_RESOURCES | STATUS_OBJECT_NAME_COLLISION
  | STATUS_OBJECT_NAME_NOT_FOUND | STATUS_INVALID_PARAMETER | STATUS_INVALID_DEVICE_STATE | STATUS_BUFFER_TOO_SMALL
  | STATUS_ACCESS_DENIED | STATUS_PORT_DISCONNECTED | STATUS_REQUEST_NOT_ACCEPTED | STATUS_REVISION_MISMATCH
  | STATUS_NOT_FOUND | STATUS_DEVICE_NOT_READY | STATUS_DATA_ERROR | STATUS_FILE_TOO_LARGE | STATUS_NOT_SUPPORTED | STATUS_REPARSE | STATUS_OTHER

abbreviation NT_SUCCESS :: "NTSTATUS \<Rightarrow> bool" where "NT_SUCCESS s \<equiv> s = STATUS_SUCCESS"

type_synonym HANDLE = u64
type_synonym PEPROCESS = u64

record SAR_IDENTITY_ENTRY =
  ie_process_id :: HANDLE
  ie_process :: PEPROCESS
  ie_start_key :: u64
  ie_id_state :: sar_id_state
  ie_identity :: sar_identity
  ie_identity_valid :: bool
  ie_subsystem_process :: bool
  ie_protected_trusted :: bool
  ie_phantom_evidence :: u32

record SAR_STATE =
  ss_mode :: u32
  ss_whitelist :: sar_whitelist
  ss_buckets :: "SAR_IDENTITY_ENTRY list list"
  ss_bucket_count :: u32
  ss_captured_key_count :: u64

definition SarIdentityHash :: "HANDLE \<Rightarrow> u32 \<Rightarrow> u32" where
  "SarIdentityHash process_id bucket_count =
     (let value = process_id;
          value = value XOR drop_bit 13 value;
          value = value * 0x9E3779B1
      in ucast (value mod ucast bucket_count))"

definition identity_zero :: sar_identity where
  "identity_zero =
     \<lparr>id_image_path = replicate SEMANTICS_AR_PROTO_PATH_MAX 0,
      id_cert_subject = replicate SEMANTICS_AR_PROTO_SUBJECT_MAX 0,
      id_content_hash = replicate SEMANTICS_AR_CONTENT_HASH_SIZE 0\<rparr>"

text \<open>
  The storage comes zeroed from the pool; an allocation that fails gives no state.
\<close>

definition SarStateCreate :: "bool \<Rightarrow> NTSTATUS \<times> SAR_STATE option" where
  "SarStateCreate pool_ok =
     (if \<not> pool_ok then (STATUS_INSUFFICIENT_RESOURCES, None)
      else (STATUS_SUCCESS, Some
        \<lparr>ss_mode = SEMANTICS_AR_MODE_AUDIT,
         ss_whitelist = sar_whitelist_init (Some (replicate (unat SAR_WHITELIST_CAPACITY) identity_zero))
           (Some (replicate (unat SAR_WHITELIST_CAPACITY) 0)) SAR_WHITELIST_CAPACITY,
         ss_buckets = replicate (unat SAR_IDENTITY_BUCKET_COUNT) [],
         ss_bucket_count = SAR_IDENTITY_BUCKET_COUNT,
         ss_captured_key_count = 0\<rparr>))"

subsection \<open>Mode and whitelist\<close>

definition SarStateModeGet :: "SAR_STATE \<Rightarrow> u32" where
  "SarStateModeGet st = ss_mode st"

definition SarStateModeSet ::
  "u64 \<Rightarrow> SAR_STATE \<Rightarrow> SAR_EVENTLOG option \<Rightarrow> u32 \<Rightarrow> bool \<times> SAR_STATE \<times> SAR_EVENTLOG option" where
  "SarStateModeSet now st log requested =
     (case sar_mode_set (Some \<lparr>ms_mode = ss_mode st\<rparr>) requested of
        (True, Some local) \<Rightarrow>
          (True, st\<lparr>ss_mode := ms_mode local\<rparr>, SarEventLogRecord now log SAR_EVENT_CLASS_MODE_CHANGED 0)
      | _ \<Rightarrow> (False, st, log))"

definition SarStateWhitelistAdd ::
  "u64 \<Rightarrow> SAR_STATE \<Rightarrow> SAR_EVENTLOG option \<Rightarrow> sar_identity \<Rightarrow> sar_wl_status \<times> SAR_STATE \<times> SAR_EVENTLOG option" where
  "SarStateWhitelistAdd now st log ident =
     (case sar_whitelist_add (Some (ss_whitelist st)) (Some ident) now of (status, wl) \<Rightarrow>
        (status, st\<lparr>ss_whitelist := the wl\<rparr>,
         if status = SAR_WL_OK then SarEventLogRecord now log SAR_EVENT_CLASS_WHITELIST_ADDED 0 else log))"

definition SarStateWhitelistRemove ::
  "u64 \<Rightarrow> SAR_STATE \<Rightarrow> SAR_EVENTLOG option \<Rightarrow> sar_identity \<Rightarrow> sar_wl_status \<times> SAR_STATE \<times> SAR_EVENTLOG option" where
  "SarStateWhitelistRemove now st log ident =
     (case sar_whitelist_remove (Some (ss_whitelist st)) (Some ident) of (status, wl) \<Rightarrow>
        (status, st\<lparr>ss_whitelist := the wl\<rparr>,
         if status = SAR_WL_OK then SarEventLogRecord now log SAR_EVENT_CLASS_WHITELIST_REMOVED 0 else log))"

definition SarStateWhitelistMatch :: "SAR_STATE \<Rightarrow> sar_identity \<Rightarrow> bool" where
  "SarStateWhitelistMatch st ident = sar_whitelist_match (Some (ss_whitelist st)) (Some ident)"

definition SarStateWhitelistEnumerate :: "SAR_STATE \<Rightarrow> u32 \<Rightarrow> sar_wl_status \<times> sar_identity option \<times> u64 \<times> u32" where
  "SarStateWhitelistEnumerate st index =
     (case sar_whitelist_enumerate (Some (ss_whitelist st)) index of (status, out) \<Rightarrow>
        (status, map_option fst out, (case out of None \<Rightarrow> 0 | Some (_, t) \<Rightarrow> t), wl_count (ss_whitelist st)))"

subsection \<open>Identity table\<close>

definition identity_bucket :: "SAR_STATE \<Rightarrow> HANDLE \<Rightarrow> nat" where
  "identity_bucket st pid = unat (SarIdentityHash pid (ss_bucket_count st))"

definition SarIdentityFindLocked :: "SAR_STATE \<Rightarrow> HANDLE \<Rightarrow> SAR_IDENTITY_ENTRY option" where
  "SarIdentityFindLocked st pid = find (\<lambda>e. ie_process_id e = pid) (ss_buckets st ! identity_bucket st pid)"

definition SarIdentityFindByProcessLocked :: "(PEPROCESS \<Rightarrow> HANDLE) \<Rightarrow> SAR_STATE \<Rightarrow> PEPROCESS \<Rightarrow> SAR_IDENTITY_ENTRY option" where
  "SarIdentityFindByProcessLocked PsGetProcessId st process =
     find (\<lambda>e. ie_process e = process) (ss_buckets st ! identity_bucket st (PsGetProcessId process))"

text \<open>
  The list operations on a bucket: an entry linked at its head, the entry found in it unlinked, and the entry found in
  it written.
\<close>

fun remove_first :: "('a \<Rightarrow> bool) \<Rightarrow> 'a list \<Rightarrow> 'a list" where
  "remove_first P [] = []"
| "remove_first P (x # xs) = (if P x then xs else x # remove_first P xs)"

fun update_first :: "('a \<Rightarrow> bool) \<Rightarrow> ('a \<Rightarrow> 'a) \<Rightarrow> 'a list \<Rightarrow> 'a list" where
  "update_first P f [] = []"
| "update_first P f (x # xs) = (if P x then f x # xs else x # update_first P f xs)"

definition bucket_update :: "HANDLE \<Rightarrow> (SAR_IDENTITY_ENTRY list \<Rightarrow> SAR_IDENTITY_ENTRY list) \<Rightarrow> SAR_STATE \<Rightarrow> SAR_STATE" where
  "bucket_update pid f st =
     st\<lparr>ss_buckets := (ss_buckets st)[identity_bucket st pid := f (ss_buckets st ! identity_bucket st pid)]\<rparr>"

definition identity_link :: "SAR_IDENTITY_ENTRY \<Rightarrow> SAR_STATE \<Rightarrow> SAR_STATE" where
  "identity_link e st = bucket_update (ie_process_id e) (\<lambda>b. e # b) st"

definition identity_unlink :: "HANDLE \<Rightarrow> SAR_STATE \<Rightarrow> SAR_STATE" where
  "identity_unlink pid st = bucket_update pid (remove_first (\<lambda>e. ie_process_id e = pid)) st"

definition identity_write :: "HANDLE \<Rightarrow> (SAR_IDENTITY_ENTRY \<Rightarrow> SAR_IDENTITY_ENTRY) \<Rightarrow> SAR_STATE \<Rightarrow> SAR_STATE" where
  "identity_write pid f st = bucket_update pid (update_first (\<lambda>e. ie_process_id e = pid) f) st"

definition SarStateIdentityInsert ::
  "(PEPROCESS \<Rightarrow> u64) \<Rightarrow> bool \<Rightarrow> SAR_STATE \<Rightarrow> HANDLE \<Rightarrow> PEPROCESS \<Rightarrow> sar_identity option \<Rightarrow> bool \<Rightarrow> bool \<Rightarrow> bool \<Rightarrow>
   NTSTATUS \<times> SAR_STATE" where
  "SarStateIdentityInsert PsGetProcessStartKey pool_ok st pid process ident identity_valid subsystem protected_trusted =
     (if \<not> pool_ok then (STATUS_INSUFFICIENT_RESOURCES, st)
      else
        let whitelist_hit =
              (case ident of None \<Rightarrow> False | Some i \<Rightarrow> identity_valid \<and> SarStateWhitelistMatch st i);
            entry =
              \<lparr>ie_process_id = pid, ie_process = process, ie_start_key = PsGetProcessStartKey process,
               ie_id_state = (if protected_trusted then SAR_IDSTATE_EXEMPT
                              else sar_identity_resolve identity_valid whitelist_hit),
               ie_identity = (case ident of None \<Rightarrow> identity_zero | Some i \<Rightarrow> i),
               ie_identity_valid = identity_valid, ie_subsystem_process = subsystem,
               ie_protected_trusted = protected_trusted, ie_phantom_evidence = 0\<rparr>
        in if SarIdentityFindLocked st pid \<noteq> None then (STATUS_OBJECT_NAME_COLLISION, st)
           else (STATUS_SUCCESS, identity_link entry st))"

definition SarStateIdentityRemove :: "SAR_STATE \<Rightarrow> HANDLE \<Rightarrow> SAR_STATE" where
  "SarStateIdentityRemove st pid =
     (if SarIdentityFindLocked st pid \<noteq> None then identity_unlink pid st else st)"

definition SarStateIdentityQuery :: "SAR_STATE \<Rightarrow> HANDLE \<Rightarrow> bool \<times> u64 \<times> sar_id_state" where
  "SarStateIdentityQuery st pid =
     (case SarIdentityFindLocked st pid of
        None \<Rightarrow> (False, 0, SAR_IDSTATE_OBSERVE_PENDING)
      | Some e \<Rightarrow> (True, ie_start_key e, ie_id_state e))"

definition SarStateImageByStartKey :: "SAR_STATE \<Rightarrow> u64 \<Rightarrow> bool \<times> u16 list" where
  "SarStateImageByStartKey st start_key =
     (let zero = replicate SEMANTICS_AR_PROTO_PATH_MAX 0
      in if start_key = 0 then (False, zero)
         else case find (\<lambda>e. ie_start_key e = start_key \<and> ie_identity_valid e)
                (concat (map (\<lambda>b. ss_buckets st ! b) [0..<unat (ss_bucket_count st)])) of
           None \<Rightarrow> (False, zero)
         | Some e \<Rightarrow> (True, id_image_path (ie_identity e)))"

definition SarStateIdentityLookup :: "SAR_STATE \<Rightarrow> HANDLE \<Rightarrow> sar_id_state" where
  "SarStateIdentityLookup st pid =
     (case SarIdentityFindLocked st pid of None \<Rightarrow> SAR_IDSTATE_OBSERVE_PENDING | Some e \<Rightarrow> ie_id_state e)"

definition SarStateIdentityApplyVerdict :: "SAR_STATE \<Rightarrow> HANDLE \<Rightarrow> u64 \<Rightarrow> sar_identity \<Rightarrow> bool \<times> SAR_STATE" where
  "SarStateIdentityApplyVerdict st pid start_key verified =
     (if start_key = 0 \<or> \<not> SarStateWhitelistMatch st verified \<or>
         sar_identity_is_interpreter (Some (id_image_path verified)) then (False, st)
      else
        case SarIdentityFindLocked st pid of
          None \<Rightarrow> (False, st)
        | Some e \<Rightarrow>
            if ie_start_key e = start_key then
              (True, identity_write pid (\<lambda>e. e\<lparr>ie_identity := verified, ie_identity_valid := True,
                 ie_id_state := SAR_IDSTATE_EXEMPT\<rparr>) st)
            else (False, st))"

definition SarStateProtectedTarget :: "(PEPROCESS \<Rightarrow> HANDLE) \<Rightarrow> SAR_STATE \<Rightarrow> PEPROCESS \<Rightarrow> bool \<times> u64" where
  "SarStateProtectedTarget PsGetProcessId st target =
     (case SarIdentityFindByProcessLocked PsGetProcessId st target of
        None \<Rightarrow> (False, 0)
      | Some e \<Rightarrow> if ie_id_state e = SAR_IDSTATE_EXEMPT then (True, ie_start_key e) else (False, 0))"

definition SarStateOpenerTrusted :: "(PEPROCESS \<Rightarrow> HANDLE) \<Rightarrow> SAR_STATE \<Rightarrow> PEPROCESS \<Rightarrow> bool" where
  "SarStateOpenerTrusted PsGetProcessId st opener =
     (case SarIdentityFindByProcessLocked PsGetProcessId st opener of
        None \<Rightarrow> False
      | Some e \<Rightarrow> ie_protected_trusted e)"

definition SarStateRevokeExemption :: "SAR_STATE \<Rightarrow> HANDLE \<Rightarrow> bool \<times> u64 \<times> SAR_STATE" where
  "SarStateRevokeExemption st pid =
     (case SarIdentityFindLocked st pid of
        None \<Rightarrow> (False, 0, st)
      | Some e \<Rightarrow>
          if ie_id_state e = SAR_IDSTATE_EXEMPT \<and> \<not> ie_protected_trusted e then
            (True, ie_start_key e, identity_write pid (\<lambda>e. e\<lparr>ie_id_state := SAR_IDSTATE_OBSERVE\<rparr>) st)
          else (False, 0, st))"

subsection \<open>Process notification\<close>

datatype ps_protected_type = PsProtectedTypeNone | PsProtectedTypeProtectedLight | PsProtectedTypeProtected

datatype ps_protected_signer =
    PsProtectedSignerNone | PsProtectedSignerAuthenticode | PsProtectedSignerCodeGen | PsProtectedSignerAntimalware
  | PsProtectedSignerLsa | PsProtectedSignerWindows | PsProtectedSignerWinTcb | PsProtectedSignerWinSystem
  | PsProtectedSignerApp

text \<open>
  What opening the process and querying its protection gives: nothing when either fails.
\<close>

type_synonym ps_protection = "(ps_protected_type \<times> ps_protected_signer) option"

definition SarProcessProtectedTrusted :: "ps_protection \<Rightarrow> bool" where
  "SarProcessProtectedTrusted prot =
     (case prot of
        None \<Rightarrow> False
      | Some (type, signer) \<Rightarrow>
          type \<noteq> PsProtectedTypeNone \<and>
          (signer = PsProtectedSignerWinSystem \<or> signer = PsProtectedSignerWinTcb \<or>
           signer = PsProtectedSignerWindows \<or> signer = PsProtectedSignerAntimalware))"

text \<open>
  The creation record of the kernel: whether the image file object and name are there, whether the open name is
  available, and the normalized name, when it can be queried and parsed.
\<close>

record ps_create_notify_info =
  ci_file_object :: bool
  ci_image_file_name :: bool
  ci_open_name_available :: bool
  ci_normalized_name :: "u16 list option"

definition SarCaptureCanonicalIdentity :: "ps_create_notify_info \<Rightarrow> sar_identity \<times> bool" where
  "SarCaptureCanonicalIdentity ci =
     (if \<not> ci_file_object ci then (identity_zero, False)
      else if \<not> ci_open_name_available ci then (identity_zero, False)
      else case ci_normalized_name ci of
        None \<Rightarrow> (identity_zero, False)
      | Some name \<Rightarrow>
          let count = (if length name \<ge> SEMANTICS_AR_PROTO_PATH_MAX then SEMANTICS_AR_PROTO_PATH_MAX - 1 else length name)
          in (identity_zero\<lparr>id_image_path := splice_at (id_image_path identity_zero) 0 (take count name @ [0])\<rparr>, True))"

definition SarCreateProcessNotifyEx ::
  "(PEPROCESS \<Rightarrow> u64) \<Rightarrow> bool \<Rightarrow> ps_protection \<Rightarrow> SAR_STATE option \<Rightarrow> PEPROCESS \<Rightarrow> HANDLE \<Rightarrow>
   ps_create_notify_info option \<Rightarrow> SAR_STATE option" where
  "SarCreateProcessNotifyEx PsGetProcessStartKey pool_ok prot state process pid create_info =
     (case state of
        None \<Rightarrow> None
      | Some st \<Rightarrow>
          (case create_info of
             None \<Rightarrow> Some (SarStateIdentityRemove st pid)
           | Some ci \<Rightarrow>
               let subsystem = (\<not> ci_file_object ci \<and> \<not> ci_image_file_name ci);
                   (ident, valid) = (if \<not> subsystem then SarCaptureCanonicalIdentity ci else (identity_zero, False))
               in Some (snd (SarStateIdentityInsert PsGetProcessStartKey pool_ok st pid process
                    (if valid then Some ident else None) valid subsystem (SarProcessProtectedTrusted prot)))))"

subsection \<open>Handle guard\<close>

definition SAR_PROCESS_INJECT_MASK :: u32 where
  "SAR_PROCESS_INJECT_MASK = 0x20 OR 0x8 OR 0x2 OR 0x40 OR 0x80 OR 0x200 OR 0x800"

definition SAR_THREAD_INJECT_MASK :: u32 where
  "SAR_THREAD_INJECT_MASK = 0x10 OR 0x2 OR 0x20 OR 0x80 OR 0x100 OR 0x200"

datatype ob_object = Ob_Process PEPROCESS | Ob_Thread u64 | Ob_Other

datatype ob_operation = OB_OPERATION_HANDLE_CREATE | OB_OPERATION_HANDLE_DUPLICATE PEPROCESS | OB_OPERATION_OTHER

record ob_pre_operation_information =
  ob_kernel_handle :: bool
  ob_object_of :: ob_object
  ob_operation_of :: ob_operation
  ob_desired_access :: u32

record ob_kernel =
  ob_PsGetProcessId :: "PEPROCESS \<Rightarrow> HANDLE"
  ob_PsGetThreadProcess :: "u64 \<Rightarrow> PEPROCESS"
  ob_PsGetCurrentProcess :: PEPROCESS

text \<open>
  A null pointer is the process 0.
\<close>

definition SarObPreOperation ::
  "ob_kernel \<Rightarrow> u64 \<Rightarrow> SAR_STATE option \<Rightarrow> SAR_EVENTLOG option \<Rightarrow> ob_pre_operation_information \<Rightarrow>
   ob_pre_operation_information \<times> SAR_EVENTLOG option" where
  "SarObPreOperation k now state log info =
     (case state of
        None \<Rightarrow> (info, log)
      | Some st \<Rightarrow>
          if ob_kernel_handle info then (info, log)
          else case (case ob_object_of info of
                 Ob_Process p \<Rightarrow> Some (p, SAR_PROCESS_INJECT_MASK)
               | Ob_Thread t \<Rightarrow> Some (ob_PsGetThreadProcess k t, SAR_THREAD_INJECT_MASK)
               | Ob_Other \<Rightarrow> None) of
            None \<Rightarrow> (info, log)
          | Some (target, strip) \<Rightarrow>
              if target = 0 then (info, log)
              else case SarStateProtectedTarget (ob_PsGetProcessId k) st target of
                (False, _) \<Rightarrow> (info, log)
              | (True, start_key) \<Rightarrow>
                  (case (case ob_operation_of info of
                      OB_OPERATION_HANDLE_CREATE \<Rightarrow> Some (ob_PsGetCurrentProcess k)
                    | OB_OPERATION_HANDLE_DUPLICATE p \<Rightarrow> Some p
                    | OB_OPERATION_OTHER \<Rightarrow> None) of
                     None \<Rightarrow> (info, log)
                   | Some opener \<Rightarrow>
                       if opener = target then (info, log)
                       else if opener \<noteq> 0 \<and> SarStateOpenerTrusted (ob_PsGetProcessId k) st opener then (info, log)
                       else if ob_desired_access info AND strip = 0 then (info, log)
                       else ((if SarStateModeGet st = SEMANTICS_AR_MODE_ENFORCE
                              then info\<lparr>ob_desired_access := ob_desired_access info AND NOT strip\<rparr> else info),
                         SarEventLogRecord now log SAR_EVENT_CLASS_BLOCK_INJECTION start_key)))"

subsection \<open>Evidence and image loads\<close>

definition phantom_bucket :: "HANDLE \<Rightarrow> u32 \<Rightarrow> u32" where
  "phantom_bucket pid count =
     (let bucket = ucast ((pid XOR drop_bit 13 pid) * 0x9E3779B1) :: u32 in bucket mod count)"

definition SarPhantomEvidenceConvicts :: "SAR_STATE option \<Rightarrow> HANDLE \<Rightarrow> bool \<times> SAR_STATE option" where
  "SarPhantomEvidenceConvicts state pid =
     (case state of
        None \<Rightarrow> (False, None)
      | Some st \<Rightarrow>
          let b = unat (phantom_bucket pid (ss_bucket_count st))
          in case find (\<lambda>e. ie_process_id e = pid) (ss_buckets st ! b) of
               None \<Rightarrow> (False, Some st)
             | Some e \<Rightarrow>
                 if ie_id_state e = SAR_IDSTATE_EXEMPT then (False, Some st)
                 else (sint (ie_phantom_evidence e + 1) \<ge> sint SAR_PHANTOM_K_THRESHOLD,
                   Some (st\<lparr>ss_buckets := (ss_buckets st)[b :=
                     update_first (\<lambda>e. ie_process_id e = pid)
                       (\<lambda>e. e\<lparr>ie_phantom_evidence := ie_phantom_evidence e + 1\<rparr>) (ss_buckets st ! b)]\<rparr>)))"

definition SarPhantomLoadImageNotify ::
  "u64 \<Rightarrow> SAR_STATE option \<Rightarrow> SAR_EVENTLOG option \<Rightarrow> HANDLE \<Rightarrow> bool \<Rightarrow> u32 \<Rightarrow> SAR_STATE option \<times> SAR_EVENTLOG option" where
  "SarPhantomLoadImageNotify now state log pid system_mode_image properties =
     (case state of
        None \<Rightarrow> (None, log)
      | Some st \<Rightarrow>
          if system_mode_image then (Some st, log)
          else if pid = 0 then (Some st, log)
          else
            let sig_level = drop_bit 12 properties AND 0xF
            in if sig_level \<ge> 4 then (Some st, log)
               else case SarStateRevokeExemption st pid of
                 (True, revoked_key, st) \<Rightarrow>
                   (Some st, SarEventLogRecord now log SAR_EVENT_CLASS_EXEMPT_REVOKED revoked_key)
               | (False, _, st) \<Rightarrow> (Some st, log))"

end
