(* ===== verification/Keyed_Table.thy ===== *)
theory Keyed_Table
  imports Main
begin

text \<open>
  The interface of a table of entries found by their key: what a lookup returns after an entry was linked, unlinked or
  written in place, and the client's side of it, namely that a property of all entries is kept by every operation that
  respects it.
\<close>

locale keyed_table =
  fixes ok :: "'t \<Rightarrow> bool"
    and key_of :: "'e \<Rightarrow> 'k"
    and look :: "'t \<Rightarrow> 'k \<Rightarrow> 'e option"
    and link :: "'e \<Rightarrow> 't \<Rightarrow> 't"
    and unlink :: "'k \<Rightarrow> 't \<Rightarrow> 't"
    and modify :: "'k \<Rightarrow> ('e \<Rightarrow> 'e) \<Rightarrow> 't \<Rightarrow> 't"
  assumes look_key: "look t k = Some e \<Longrightarrow> key_of e = k"
    and ok_link: "ok t \<Longrightarrow> look t (key_of e) = None \<Longrightarrow> ok (link e t)"
    and look_link: "ok t \<Longrightarrow> look (link e t) k = (if k = key_of e then Some e else look t k)"
    and ok_unlink: "ok t \<Longrightarrow> ok (unlink k t)"
    and look_unlink: "ok t \<Longrightarrow> look (unlink k t) k' = (if k' = k then None else look t k')"
    and ok_modify: "ok t \<Longrightarrow> (\<And>e. key_of (f e) = key_of e) \<Longrightarrow> ok (modify k f t)"
    and look_modify: "ok t \<Longrightarrow> (\<And>e. key_of (f e) = key_of e) \<Longrightarrow>
      look (modify k f t) k' = (if k' = k then map_option f (look t k) else look t k')"
begin

definition all_entries :: "('e \<Rightarrow> bool) \<Rightarrow> 't \<Rightarrow> bool" where
  "all_entries P t \<longleftrightarrow> (\<forall>k e. look t k = Some e \<longrightarrow> P e)"

lemma all_entriesD: "all_entries P t \<Longrightarrow> look t k = Some e \<Longrightarrow> P e"
  by (simp add: all_entries_def)

lemma all_entries_mono: "all_entries P t \<Longrightarrow> (\<And>e. P e \<Longrightarrow> Q e) \<Longrightarrow> all_entries Q t"
  by (simp add: all_entries_def)

lemma all_link: "ok t \<Longrightarrow> all_entries P t \<Longrightarrow> P e \<Longrightarrow> all_entries P (link e t)"
  by (auto simp: all_entries_def look_link split: if_splits)

lemma all_unlink: "ok t \<Longrightarrow> all_entries P t \<Longrightarrow> all_entries P (unlink k t)"
  by (auto simp: all_entries_def look_unlink split: if_splits)

lemma all_modify:
  "ok t \<Longrightarrow> (\<And>e. key_of (f e) = key_of e) \<Longrightarrow> all_entries P t \<Longrightarrow> (\<And>e. look t k = Some e \<Longrightarrow> P (f e)) \<Longrightarrow>
   all_entries P (modify k f t)"
  by (auto simp: all_entries_def look_modify split: if_splits)

end

end
