(* ===== verification/Exemption.thy ===== *)
theory Exemption
  imports Driver_State Keyed_Table
begin

text \<open>
  What the driver's identity table promises: it implements the table interface, the evidence hook finds the same
  bucket, every exemption in a reachable state is justified, and repeated evidence convicts.
\<close>

section \<open>The table\<close>

definition table_ok :: "SAR_STATE \<Rightarrow> bool" where
  "table_ok st \<longleftrightarrow> 0 < ss_bucket_count st \<and> length (ss_buckets st) = unat (ss_bucket_count st) \<and>
     (\<forall>b < length (ss_buckets st). distinct (map ie_process_id (ss_buckets st ! b)) \<and>
        (\<forall>e \<in> set (ss_buckets st ! b). identity_bucket st (ie_process_id e) = b))"

lemma SarIdentityHash_less: "0 < n \<Longrightarrow> unat (SarIdentityHash pid n) < unat n"
proof -
  assume "0 < n"
  let ?v = "(pid XOR drop_bit 13 pid) * 0x9E3779B1 :: u64"
  have n: "unat (ucast n :: u64) = unat n"
    by (simp add: unsigned_ucast_eq take_bit_nat_eq_self less_le_trans [OF unsigned_less])
  have "unat (?v mod ucast n) < unat n"
    using \<open>0 < n\<close> by (simp add: unat_mod n word_less_nat_alt)
  moreover have "unat (ucast (?v mod ucast n) :: u32) \<le> unat (?v mod ucast n)"
    by (simp add: unsigned_ucast_eq take_bit_nat_less_eq_self)
  ultimately show ?thesis
    by (simp add: SarIdentityHash_def Let_def)
qed

lemma identity_bucket_less: "table_ok st \<Longrightarrow> identity_bucket st pid < length (ss_buckets st)"
  by (simp add: table_ok_def identity_bucket_def SarIdentityHash_less)

lemma identity_bucket_update [simp]: "identity_bucket (bucket_update k f st) pid = identity_bucket st pid"
  by (simp add: bucket_update_def identity_bucket_def)

lemma ss_buckets_update:
  "table_ok st \<Longrightarrow> ss_buckets (bucket_update k f st) ! b =
     (if b = identity_bucket st k then f (ss_buckets st ! b) else ss_buckets st ! b)"
  by (simp add: bucket_update_def nth_list_update identity_bucket_less)

lemma find_locked_update:
  "table_ok st \<Longrightarrow> SarIdentityFindLocked (bucket_update k f st) pid =
     find (\<lambda>e. ie_process_id e = pid)
       (if identity_bucket st pid = identity_bucket st k then f (ss_buckets st ! identity_bucket st pid)
        else ss_buckets st ! identity_bucket st pid)"
  by (simp add: SarIdentityFindLocked_def ss_buckets_update)

lemma table_ok_update:
  assumes "table_ok st" "distinct (map ie_process_id (f (ss_buckets st ! identity_bucket st k)))"
    "\<And>e. e \<in> set (f (ss_buckets st ! identity_bucket st k)) \<Longrightarrow> identity_bucket st (ie_process_id e) = identity_bucket st k"
  shows "table_ok (bucket_update k f st)"
proof -
  have "ss_bucket_count (bucket_update k f st) = ss_bucket_count st"
    "length (ss_buckets (bucket_update k f st)) = length (ss_buckets st)"
    by (simp_all add: bucket_update_def)
  then show ?thesis
    using assms unfolding table_ok_def identity_bucket_update ss_buckets_update [OF assms(1)] by auto
qed

lemma bucket_ok:
  "table_ok st \<Longrightarrow> distinct (map ie_process_id (ss_buckets st ! identity_bucket st k))"
  "table_ok st \<Longrightarrow> e \<in> set (ss_buckets st ! identity_bucket st k) \<Longrightarrow>
     identity_bucket st (ie_process_id e) = identity_bucket st k"
  using identity_bucket_less [of st k] by (simp_all add: table_ok_def)

lemma set_remove_first: "set (remove_first P xs) \<subseteq> set xs"
  by (induction xs) auto

lemma distinct_remove_first: "distinct (map f xs) \<Longrightarrow> distinct (map f (remove_first P xs))"
  using set_remove_first by (induction xs) (fastforce split: if_splits)+

lemma find_remove_first:
  "distinct (map f xs) \<Longrightarrow>
   find (\<lambda>e. f e = k') (remove_first (\<lambda>e. f e = k) xs) = (if k' = k then None else find (\<lambda>e. f e = k') xs)"
  by (induction xs) (auto simp: find_None_iff image_iff)

lemma map_update_first: "(\<And>e. f (g e) = f e) \<Longrightarrow> map f (update_first P g xs) = map f xs"
  by (induction xs) auto

lemma find_update_first:
  "(\<And>e. f (g e) = f e) \<Longrightarrow>
   find (\<lambda>e. f e = k') (update_first (\<lambda>e. f e = k) g xs) =
     (if k' = k then map_option g (find (\<lambda>e. f e = k) xs) else find (\<lambda>e. f e = k') xs)"
  by (induction xs) auto

lemma find_locked_key: "SarIdentityFindLocked t k = Some e \<Longrightarrow> ie_process_id e = k"
  by (auto simp: SarIdentityFindLocked_def find_Some_iff)

lemma table_ok_link:
  assumes "table_ok t" "SarIdentityFindLocked t (ie_process_id e) = None"
  shows "table_ok (identity_link e t)"
  unfolding identity_link_def
proof (rule table_ok_update [OF assms(1)])
  show "distinct (map ie_process_id (e # ss_buckets t ! identity_bucket t (ie_process_id e)))"
    using bucket_ok(1) [OF assms(1)] assms(2) by (auto simp: SarIdentityFindLocked_def find_None_iff)
  show "identity_bucket t (ie_process_id x) = identity_bucket t (ie_process_id e)"
    if "x \<in> set (e # ss_buckets t ! identity_bucket t (ie_process_id e))" for x
    using bucket_ok(2) [OF assms(1), of x "ie_process_id e"] that by auto
qed

lemma table_ok_unlink:
  assumes "table_ok t"
  shows "table_ok (identity_unlink k t)"
  unfolding identity_unlink_def
proof (rule table_ok_update [OF assms])
  show "distinct (map ie_process_id (remove_first (\<lambda>e. ie_process_id e = k) (ss_buckets t ! identity_bucket t k)))"
    by (rule distinct_remove_first) (rule bucket_ok(1) [OF assms])
  show "identity_bucket t (ie_process_id x) = identity_bucket t k"
    if "x \<in> set (remove_first (\<lambda>e. ie_process_id e = k) (ss_buckets t ! identity_bucket t k))" for x
    using that set_remove_first by (intro bucket_ok(2) [OF assms]) (rule subsetD)
qed

lemma table_ok_write:
  assumes "table_ok t" "\<And>e. ie_process_id (f e) = ie_process_id e"
  shows "table_ok (identity_write k f t)"
  unfolding identity_write_def
proof (rule table_ok_update [OF assms(1)])
  let ?b = "update_first (\<lambda>e. ie_process_id e = k) f (ss_buckets t ! identity_bucket t k)"
  have m: "map ie_process_id ?b = map ie_process_id (ss_buckets t ! identity_bucket t k)"
    using assms(2) by (rule map_update_first)
  then show "distinct (map ie_process_id ?b)"
    using bucket_ok(1) [OF assms(1)] by simp
  fix e
  assume "e \<in> set ?b"
  then have "ie_process_id e \<in> set (map ie_process_id (ss_buckets t ! identity_bucket t k))"
    unfolding m [symmetric] by simp
  then obtain e' where "e' \<in> set (ss_buckets t ! identity_bucket t k)" "ie_process_id e' = ie_process_id e"
    by auto
  then show "identity_bucket t (ie_process_id e) = identity_bucket t k"
    using bucket_ok(2) [OF assms(1), of e' k] by simp
qed

interpretation id_table: keyed_table table_ok ie_process_id SarIdentityFindLocked identity_link identity_unlink identity_write
proof (unfold_locales, fact find_locked_key, fact table_ok_link)
  show "SarIdentityFindLocked (identity_link e t) k = (if k = ie_process_id e then Some e else SarIdentityFindLocked t k)"
    if "table_ok t" for t e k
    unfolding identity_link_def find_locked_update [OF that] by (simp add: SarIdentityFindLocked_def)
  show "SarIdentityFindLocked (identity_unlink k t) k' = (if k' = k then None else SarIdentityFindLocked t k')"
    if "table_ok t" for t k k'
    unfolding identity_unlink_def find_locked_update [OF that]
    by (simp add: SarIdentityFindLocked_def find_remove_first [OF bucket_ok(1) [OF that]])
  show "SarIdentityFindLocked (identity_write k f t) k' =
      (if k' = k then map_option f (SarIdentityFindLocked t k) else SarIdentityFindLocked t k')"
    if "table_ok t" "\<And>e. ie_process_id (f e) = ie_process_id e" for t f k k'
    unfolding identity_write_def find_locked_update [OF that(1)]
    using that(2) by (auto simp: SarIdentityFindLocked_def find_update_first)
qed (fact table_ok_unlink table_ok_write)+

section \<open>Evidence\<close>

lemma phantom_bucket_eq: "phantom_bucket pid SAR_IDENTITY_BUCKET_COUNT = SarIdentityHash pid SAR_IDENTITY_BUCKET_COUNT"
proof -
  let ?v = "(pid XOR drop_bit 13 pid) * 0x9E3779B1 :: u64"
  have "unat (phantom_bucket pid 1024) = unat ?v mod 2 ^ 32 mod 1024"
    by (simp add: phantom_bucket_def Let_def unat_mod unsigned_ucast_eq take_bit_eq_mod)
  also have "\<dots> = unat ?v mod 1024"
    by (simp add: mod_mod_cancel)
  also have "\<dots> = unat (SarIdentityHash pid 1024)"
    by (simp add: SarIdentityHash_def Let_def unsigned_ucast_eq unat_mod take_bit_nat_eq_self)
  finally show ?thesis
    unfolding SAR_IDENTITY_BUCKET_COUNT_def by (simp only: word_unat_eq_iff)
qed

lemma SarPhantomEvidenceConvicts_alt:
  assumes "ss_bucket_count st = SAR_IDENTITY_BUCKET_COUNT"
  shows "SarPhantomEvidenceConvicts (Some st) pid =
    (case SarIdentityFindLocked st pid of
       None \<Rightarrow> (False, Some st)
     | Some e \<Rightarrow>
         if ie_id_state e = SAR_IDSTATE_EXEMPT then (False, Some st)
         else (sint (ie_phantom_evidence e + 1) \<ge> 3,
           Some (identity_write pid (\<lambda>e. e\<lparr>ie_phantom_evidence := ie_phantom_evidence e + 1\<rparr>) st)))"
  by (simp add: SarPhantomEvidenceConvicts_def SarIdentityFindLocked_def identity_write_def bucket_update_def
      identity_bucket_def phantom_bucket_eq assms SAR_PHANTOM_K_THRESHOLD_def Let_def split: option.split)

section \<open>Exemptions are justified\<close>

definition justified :: "(bytes \<times> u16 list) set \<Rightarrow> SAR_IDENTITY_ENTRY \<Rightarrow> bool" where
  "justified W e \<longleftrightarrow> (ie_id_state e = SAR_IDSTATE_EXEMPT \<longrightarrow> ie_protected_trusted e \<or>
     ie_identity_valid e \<and> id_key (ie_identity e) \<in> W \<and>
     (sar_identity_is_interpreter (Some (id_image_path (ie_identity e))) \<longrightarrow> id_key (ie_identity e) = id_key identity_zero))"

definition state_inv :: "(bytes \<times> u16 list) set \<Rightarrow> SAR_STATE \<Rightarrow> bool" where
  "state_inv W st \<longleftrightarrow> ss_bucket_count st = SAR_IDENTITY_BUCKET_COUNT \<and> table_ok st \<and> wl_ok (ss_whitelist st) \<and>
     id_key ` set (wl_ids (ss_whitelist st)) \<subseteq> W \<and> id_table.all_entries (justified W) st"

text \<open>
  The states the driver reaches, with the keys an administrator ever whitelisted.
\<close>

inductive driver_reach :: "(bytes \<times> u16 list) set \<Rightarrow> SAR_STATE \<Rightarrow> bool" where
  Create: "SarStateCreate True = (STATUS_SUCCESS, Some st) \<Longrightarrow> driver_reach {} st"
| Process: "driver_reach W st \<Longrightarrow>
    SarCreateProcessNotifyEx start_key pool_ok prot (Some st) process pid info = Some st' \<Longrightarrow> driver_reach W st'"
| Add: "driver_reach W st \<Longrightarrow> wf_identity i \<Longrightarrow> SarStateWhitelistAdd now st log i = (status, st', log') \<Longrightarrow>
    driver_reach (if status = SAR_WL_OK then insert (id_key i) W else W) st'"
| Remove: "driver_reach W st \<Longrightarrow> wf_identity i \<Longrightarrow> SarStateWhitelistRemove now st log i = (status, st', log') \<Longrightarrow>
    driver_reach W st'"
| Verdict: "driver_reach W st \<Longrightarrow> wf_identity i \<Longrightarrow> SarStateIdentityApplyVerdict st pid key i = (applied, st') \<Longrightarrow>
    driver_reach W st'"
| Image: "driver_reach W st \<Longrightarrow>
    SarPhantomLoadImageNotify now (Some st) log pid system_mode properties = (Some st', log') \<Longrightarrow> driver_reach W st'"
| Evidence: "driver_reach W st \<Longrightarrow> SarPhantomEvidenceConvicts (Some st) pid = (convicts, Some st') \<Longrightarrow> driver_reach W st'"
| Mode: "driver_reach W st \<Longrightarrow> SarStateModeSet now st log m = (changed, st', log') \<Longrightarrow> driver_reach W st'"

lemma state_inv_create:
  assumes "SarStateCreate True = (STATUS_SUCCESS, Some st)"
  shows "state_inv {} st" "SarIdentityFindLocked st pid = None"
proof -
  have st: "ss_bucket_count st = 1024" "ss_buckets st = replicate 1024 []"
    "ss_whitelist st = sar_whitelist_init (Some (replicate 256 identity_zero)) (Some (replicate 256 0)) 256"
    using assms by (auto simp: SarStateCreate_def SAR_IDENTITY_BUCKET_COUNT_def SAR_WHITELIST_CAPACITY_def)
  have ok: "table_ok st"
    by (simp add: table_ok_def st)
  have none: "SarIdentityFindLocked st pid = None" for pid
  proof -
    have "identity_bucket st pid < 1024"
      using identity_bucket_less [OF ok] st(2) by simp
    then show ?thesis by (simp add: SarIdentityFindLocked_def st(2))
  qed
  show "SarIdentityFindLocked st pid = None" by (rule none)
  have "wl_ok (ss_whitelist st)" "wl_ids (ss_whitelist st) = []"
    using sar_whitelist_init_ok [of "replicate 256 identity_zero" 256 "Some (replicate 256 0)"] by (simp_all add: st)
  then show "state_inv {} st"
    using ok none by (simp add: state_inv_def st id_table.all_entries_def SAR_IDENTITY_BUCKET_COUNT_def)
qed

lemma state_inv_write:
  assumes "state_inv W st" "\<And>e. ie_process_id (f e) = ie_process_id e"
    "\<And>e. SarIdentityFindLocked st pid = Some e \<Longrightarrow> justified W (f e)"
  shows "state_inv W (identity_write pid f st)"
proof -
  have "ss_bucket_count (identity_write pid f st) = ss_bucket_count st"
    "ss_whitelist (identity_write pid f st) = ss_whitelist st"
    by (simp_all add: identity_write_def bucket_update_def)
  then show ?thesis
    using assms id_table.ok_modify [of st f pid] id_table.all_modify [of st f "justified W" pid]
    by (simp add: state_inv_def)
qed

lemma find_locked_whitelist [simp]: "SarIdentityFindLocked (st\<lparr>ss_whitelist := w\<rparr>) pid = SarIdentityFindLocked st pid"
  by (simp add: SarIdentityFindLocked_def identity_bucket_def)

lemma table_ok_whitelist [simp]: "table_ok (st\<lparr>ss_whitelist := w\<rparr>) = table_ok st"
  by (simp add: table_ok_def identity_bucket_def)

lemma justified_mono: "justified W e \<Longrightarrow> W \<subseteq> W' \<Longrightarrow> justified W' e"
  by (auto simp: justified_def)

lemma state_inv_whitelist:
  assumes "state_inv W st" "wl_ok w" "id_key ` set (wl_ids w) \<subseteq> W'" "W \<subseteq> W'"
  shows "state_inv W' (st\<lparr>ss_whitelist := w\<rparr>)"
  using assms by (auto simp: state_inv_def id_table.all_entries_def intro: justified_mono [of W _ W'])

lemma state_inv_link:
  assumes inv: "state_inv W st" and free: "SarIdentityFindLocked st (ie_process_id e) = None" and "justified W e"
  shows "state_inv W (identity_link e st)"
proof -
  have "ss_bucket_count (identity_link e st) = ss_bucket_count st" "ss_whitelist (identity_link e st) = ss_whitelist st"
    by (simp_all add: identity_link_def bucket_update_def)
  then show ?thesis
    using assms id_table.ok_link [OF _ free] id_table.all_link [of st "justified W" e]
    by (simp add: state_inv_def)
qed

lemma state_inv_unlink: "state_inv W st \<Longrightarrow> state_inv W (identity_unlink pid st)"
  using id_table.ok_unlink [of st pid] id_table.all_unlink [of st "justified W" pid]
  by (simp add: state_inv_def) (simp add: identity_unlink_def bucket_update_def)

lemma wf_identity_zero: "wf_identity identity_zero"
  by (simp add: wf_identity_def identity_zero_def)

lemma captured_identity:
  assumes "SarCaptureCanonicalIdentity ci = (i, valid)"
  shows "wf_identity i" "id_key i = id_key identity_zero"
  using assms wf_identity_zero
  by (auto simp: SarCaptureCanonicalIdentity_def wf_identity_def id_key_def identity_zero_def Let_def splice_at_def
      SEMANTICS_AR_PROTO_PATH_MAX_def split: if_splits option.splits)

lemma whitelist_match_key:
  assumes "state_inv W st" "wf_identity i" "SarStateWhitelistMatch st i"
  shows "id_key i \<in> W"
  using assms sar_whitelist_match_iff [of "ss_whitelist st" i]
  by (auto simp: state_inv_def SarStateWhitelistMatch_def)

lemma state_inv_insert:
  assumes inv: "state_inv W st" and ident: "\<And>i. ident = Some i \<Longrightarrow> wf_identity i \<and> id_key i = id_key identity_zero"
  shows "state_inv W (snd (SarStateIdentityInsert start_key pool_ok st pid process ident valid subsystem trusted))"
proof -
  define hit where "hit = (case ident of None \<Rightarrow> False | Some i \<Rightarrow> valid \<and> SarStateWhitelistMatch st i)"
  define e where "e = \<lparr>ie_process_id = pid, ie_process = process, ie_start_key = start_key process,
    ie_id_state = (if trusted then SAR_IDSTATE_EXEMPT else sar_identity_resolve valid hit),
    ie_identity = (case ident of None \<Rightarrow> identity_zero | Some i \<Rightarrow> i),
    ie_identity_valid = valid, ie_subsystem_process = subsystem,
    ie_protected_trusted = trusted, ie_phantom_evidence = 0\<rparr>"
  have "justified W e"
  proof (cases "trusted \<or> \<not> hit")
    case True
    then show ?thesis by (auto simp: justified_def e_def sar_identity_resolve_def split: if_splits)
  next
    case False
    then obtain i where i: "ident = Some i" "valid" "SarStateWhitelistMatch st i"
      by (auto simp: hit_def split: option.splits)
    then show ?thesis
      using ident [OF i(1)] whitelist_match_key [OF inv, of i] by (simp add: justified_def e_def)
  qed
  then have "state_inv W (identity_link e st)" if "SarIdentityFindLocked st pid = None"
    using inv that by (intro state_inv_link) (simp_all add: e_def)
  moreover have "SarStateIdentityInsert start_key pool_ok st pid process ident valid subsystem trusted =
      (if \<not> pool_ok then (STATUS_INSUFFICIENT_RESOURCES, st)
       else if SarIdentityFindLocked st pid \<noteq> None then (STATUS_OBJECT_NAME_COLLISION, st)
       else (STATUS_SUCCESS, identity_link e st))"
    unfolding SarStateIdentityInsert_def Let_def e_def hit_def ..
  ultimately show ?thesis
    using inv by simp
qed

lemma state_inv_process:
  assumes inv: "state_inv W st"
    and "SarCreateProcessNotifyEx start_key pool_ok prot (Some st) process pid info = Some st'"
  shows "state_inv W st'"
proof (cases info)
  case None
  then have "st' = SarStateIdentityRemove st pid"
    using assms(2) by (simp add: SarCreateProcessNotifyEx_def)
  then show ?thesis
    using inv state_inv_unlink by (simp add: SarStateIdentityRemove_def)
next
  case (Some ci)
  define subsystem where "subsystem = (\<not> ci_file_object ci \<and> \<not> ci_image_file_name ci)"
  obtain i valid where cap: "(if \<not> subsystem then SarCaptureCanonicalIdentity ci else (identity_zero, False)) = (i, valid)"
    by fastforce
  then have "wf_identity i \<and> id_key i = id_key identity_zero"
    using captured_identity [of ci i valid] wf_identity_zero by (auto split: if_splits)
  moreover have "st' = snd (SarStateIdentityInsert start_key pool_ok st pid process
      (if valid then Some i else None) valid subsystem (SarProcessProtectedTrusted prot))"
    using assms(2) cap by (simp add: SarCreateProcessNotifyEx_def Some Let_def flip: subsystem_def)
  ultimately show ?thesis
    using inv by (auto intro!: state_inv_insert split: if_splits)
qed

lemma state_inv_verdict:
  assumes inv: "state_inv W st" and "wf_identity i" "SarStateIdentityApplyVerdict st pid key i = (applied, st')"
  shows "state_inv W st'"
proof -
  have "state_inv W (identity_write pid (\<lambda>e. e\<lparr>ie_identity := i, ie_identity_valid := True,
      ie_id_state := SAR_IDSTATE_EXEMPT\<rparr>) st)"
    if "SarStateWhitelistMatch st i" "\<not> sar_identity_is_interpreter (Some (id_image_path i))"
    using whitelist_match_key [OF inv assms(2) that(1)] that(2) by (intro state_inv_write [OF inv]) (simp_all add: justified_def)
  then show ?thesis
    using assms by (auto simp: SarStateIdentityApplyVerdict_def split: if_splits option.splits)
qed

lemma state_inv_image:
  assumes inv: "state_inv W st"
    and "SarPhantomLoadImageNotify now (Some st) log pid system_mode properties = (Some st', log')"
  shows "state_inv W st'"
proof -
  have "state_inv W (identity_write pid (\<lambda>e. e\<lparr>ie_id_state := SAR_IDSTATE_OBSERVE\<rparr>) st)"
    by (rule state_inv_write [OF inv]) (simp_all add: justified_def)
  then show ?thesis
    using assms by (auto simp: SarPhantomLoadImageNotify_def SarStateRevokeExemption_def Let_def split: if_splits option.splits)
qed

lemma state_inv_evidence:
  assumes inv: "state_inv W st" and "SarPhantomEvidenceConvicts (Some st) pid = (convicts, Some st')"
  shows "state_inv W st'"
proof -
  have count: "ss_bucket_count st = SAR_IDENTITY_BUCKET_COUNT"
    using inv by (simp add: state_inv_def)
  have "justified W e" if "SarIdentityFindLocked st pid = Some e" for e
    using inv that by (auto simp: state_inv_def elim: id_table.all_entriesD)
  then have "state_inv W (identity_write pid (\<lambda>e. e\<lparr>ie_phantom_evidence := ie_phantom_evidence e + 1\<rparr>) st)"
    by (intro state_inv_write [OF inv]) (simp_all add: justified_def)
  then show ?thesis
    using assms by (auto simp: SarPhantomEvidenceConvicts_alt [OF count] split: if_splits option.splits)
qed

lemma driver_reach_inv: "driver_reach W st \<Longrightarrow> state_inv W st"
proof (induction rule: driver_reach.induct)
  case (Create st)
  then show ?case by (rule state_inv_create)
next
  case (Add W st i now log status st' log')
  have wl: "wl_ok (ss_whitelist st)" "id_key ` set (wl_ids (ss_whitelist st)) \<subseteq> W"
    using Add.IH by (simp_all add: state_inv_def)
  obtain w' where w': "sar_whitelist_add (Some (ss_whitelist st)) (Some i) now = (add_status (ss_whitelist st) i, Some w')"
    "wl_ok w'" "wl_ids w' = (if add_status (ss_whitelist st) i = SAR_WL_OK then wl_ids (ss_whitelist st) @ [i]
       else wl_ids (ss_whitelist st))"
    using sar_whitelist_add_spec [OF wl(1) Add.hyps(2)] by metis
  then have "status = add_status (ss_whitelist st) i" "st' = st\<lparr>ss_whitelist := w'\<rparr>"
    using Add.hyps(3) by (auto simp: SarStateWhitelistAdd_def)
  then show ?case
    using state_inv_whitelist [OF Add.IH w'(2), of "if status = SAR_WL_OK then insert (id_key i) W else W"] w'(3) wl(2)
    by (auto split: if_splits)
next
  case (Remove W st i now log status st' log')
  have wl: "wl_ok (ss_whitelist st)" "id_key ` set (wl_ids (ss_whitelist st)) \<subseteq> W"
    using Remove.IH by (simp_all add: state_inv_def)
  obtain w' where w': "sar_whitelist_remove (Some (ss_whitelist st)) (Some i) = (remove_status (ss_whitelist st) i, Some w')"
    "wl_ok w'" "wl_ids w' = filter (\<lambda>j. id_key j \<noteq> id_key i) (wl_ids (ss_whitelist st))"
    using sar_whitelist_remove_spec [OF wl(1) Remove.hyps(2)] by metis
  then have "st' = st\<lparr>ss_whitelist := w'\<rparr>"
    using Remove.hyps(3) by (auto simp: SarStateWhitelistRemove_def)
  then show ?case
    using state_inv_whitelist [OF Remove.IH w'(2), of W] w'(3) wl(2) by auto
next
  case (Mode W st now log m changed st' log')
  have "SarIdentityFindLocked (st\<lparr>ss_mode := x\<rparr>) p = SarIdentityFindLocked st p" "table_ok (st\<lparr>ss_mode := x\<rparr>) = table_ok st"
    for x p by (simp_all add: SarIdentityFindLocked_def identity_bucket_def table_ok_def)
  moreover have "st' = st \<or> (\<exists>x. st' = st\<lparr>ss_mode := x\<rparr>)"
    using Mode.hyps(2) by (auto simp: SarStateModeSet_def split: prod.splits bool.splits option.splits)
  ultimately show ?case
    using Mode.IH by (auto simp: state_inv_def id_table.all_entries_def)
qed (blast intro: state_inv_process state_inv_verdict state_inv_image state_inv_evidence)+

text \<open>
  A state with one process, to apply the properties to.
\<close>

definition one_process :: "ps_protection \<Rightarrow> SAR_STATE" where
  "one_process prot =
     the (SarCreateProcessNotifyEx id True prot (snd (SarStateCreate True)) 64 4
       (Some \<lparr>ci_file_object = False, ci_image_file_name = False, ci_open_name_available = False, ci_normalized_name = None\<rparr>))"

lemma one_process_entry:
  "driver_reach {} (one_process prot)"
  "\<exists>e. SarIdentityFindLocked (one_process prot) 4 = Some e \<and> ie_phantom_evidence e = 0 \<and>
     ie_id_state e = (if SarProcessProtectedTrusted prot then SAR_IDSTATE_EXEMPT else SAR_IDSTATE_OBSERVE_PENDING)"
proof -
  obtain st where st: "SarStateCreate True = (STATUS_SUCCESS, Some st)"
    by (simp add: SarStateCreate_def)
  have none: "SarIdentityFindLocked st 4 = None" and ok: "table_ok st"
    using state_inv_create [OF st] by (simp_all add: state_inv_def)
  obtain e where e: "one_process prot = identity_link e st" "ie_process_id e = 4" "ie_phantom_evidence e = 0"
    "ie_id_state e = (if SarProcessProtectedTrusted prot then SAR_IDSTATE_EXEMPT else SAR_IDSTATE_OBSERVE_PENDING)"
    using none
    by (simp add: one_process_def st SarCreateProcessNotifyEx_def SarStateIdentityInsert_def sar_identity_resolve_def Let_def)
  show "driver_reach {} (one_process prot)"
  proof (rule driver_reach.Process [OF driver_reach.Create [OF st]])
    let ?ci = "\<lparr>ci_file_object = False, ci_image_file_name = False, ci_open_name_available = False, ci_normalized_name = None\<rparr>"
    show "SarCreateProcessNotifyEx id True prot (Some st) 64 4 (Some ?ci) = Some (one_process prot)"
      by (simp add: one_process_def st SarCreateProcessNotifyEx_def Let_def)
  qed
  show "\<exists>e. SarIdentityFindLocked (one_process prot) 4 = Some e \<and> ie_phantom_evidence e = 0 \<and>
     ie_id_state e = (if SarProcessProtectedTrusted prot then SAR_IDSTATE_EXEMPT else SAR_IDSTATE_OBSERVE_PENDING)"
    using e id_table.look_link [OF ok, of e 4] by simp
qed

text \<open>
  C10: in every state the driver reaches, through process creation and exit, whitelist changes, verdicts, image loads,
  evidence and mode changes, a process is only ever exempt because it runs protected with a trusted signer, or because
  its identity was once whitelisted by an administrator. An interpreter gets in only by its protection, unless the
  identity with the zero hash and the empty subject was whitelisted.
\<close>

theorem exemption_justified:
  assumes "driver_reach W st" "SarStateIdentityLookup st pid = SAR_IDSTATE_EXEMPT"
  shows "\<exists>e. SarIdentityFindLocked st pid = Some e \<and> ie_process_id e = pid \<and>
    (ie_protected_trusted e \<or>
     ie_identity_valid e \<and> id_key (ie_identity e) \<in> W \<and>
     (id_key identity_zero \<notin> W \<longrightarrow> \<not> sar_identity_is_interpreter (Some (id_image_path (ie_identity e)))))"
proof -
  obtain e where e: "SarIdentityFindLocked st pid = Some e" "ie_id_state e = SAR_IDSTATE_EXEMPT"
    using assms(2) by (auto simp: SarStateIdentityLookup_def split: option.splits)
  moreover have "justified W e"
    using driver_reach_inv [OF assms(1)] e(1) by (auto simp: state_inv_def elim: id_table.all_entriesD)
  ultimately show ?thesis
    using find_locked_key [OF e(1)] by (auto simp: justified_def)
qed

theorem exemption_justified_witness:
  "driver_reach {} (one_process (Some (PsProtectedTypeProtected, PsProtectedSignerAntimalware))) \<and>
   (\<exists>e. SarIdentityFindLocked (one_process (Some (PsProtectedTypeProtected, PsProtectedSignerAntimalware))) 4 = Some e \<and>
      ie_protected_trusted e)"
proof -
  let ?st = "one_process (Some (PsProtectedTypeProtected, PsProtectedSignerAntimalware))"
  have "SarStateIdentityLookup ?st 4 = SAR_IDSTATE_EXEMPT"
    using one_process_entry(2) [of "Some (PsProtectedTypeProtected, PsProtectedSignerAntimalware)"]
    by (auto simp: SarStateIdentityLookup_def SarProcessProtectedTrusted_def)
  then show ?thesis
    using exemption_justified [OF one_process_entry(1), of _ 4] one_process_entry(1) by auto
qed

text \<open>
  A process with a captured name is exempt from its creation on when the zero identity is whitelisted, interpreters
  included: the identity captured at creation has no hash and no subject, and \<open>sar_whitelist_add\<close> does not refuse one.
\<close>

lemma zero_identity_exempts:
  assumes inv: "state_inv W st" and "id_key identity_zero \<in> id_key ` set (wl_ids (ss_whitelist st))"
    and "SarIdentityFindLocked st pid = None" "ci_file_object ci" "ci_open_name_available ci" "ci_normalized_name ci = Some name"
    and "SarCreateProcessNotifyEx start_key True prot (Some st) process pid (Some ci) = Some st'"
  shows "SarStateIdentityLookup st' pid = SAR_IDSTATE_EXEMPT"
proof -
  obtain i where cap: "SarCaptureCanonicalIdentity ci = (i, True)"
    using assms(4-6) by (simp add: SarCaptureCanonicalIdentity_def Let_def)
  note i = captured_identity [OF cap]
  have ok: "table_ok st" "wl_ok (ss_whitelist st)"
    using inv by (simp_all add: state_inv_def)
  have hit: "SarStateWhitelistMatch st i"
    using sar_whitelist_match_iff [OF ok(2) i(1)] assms(2) i(2) by (simp add: SarStateWhitelistMatch_def)
  obtain e where "st' = identity_link e st" "ie_process_id e = pid" "ie_id_state e = SAR_IDSTATE_EXEMPT"
    using assms(3,4,7) cap hit
    by (auto simp: SarCreateProcessNotifyEx_def SarStateIdentityInsert_def sar_identity_resolve_def Let_def)
  then show ?thesis
    using id_table.look_link [OF ok(1), of e pid] by (simp add: SarStateIdentityLookup_def)
qed

section \<open>Repeated evidence convicts\<close>

fun evidence_times :: "nat \<Rightarrow> HANDLE \<Rightarrow> SAR_STATE option \<Rightarrow> SAR_STATE option" where
  "evidence_times 0 pid st = st"
| "evidence_times (Suc n) pid st = evidence_times n pid (snd (SarPhantomEvidenceConvicts st pid))"

lemma evidence_step:
  assumes "state_inv W st" "SarIdentityFindLocked st pid = Some e" "ie_id_state e \<noteq> SAR_IDSTATE_EXEMPT"
  obtains st' where
    "SarPhantomEvidenceConvicts (Some st) pid = (sint (ie_phantom_evidence e + 1) \<ge> 3, Some st')" "state_inv W st'"
    "SarIdentityFindLocked st' pid = Some (e\<lparr>ie_phantom_evidence := ie_phantom_evidence e + 1\<rparr>)"
proof -
  let ?f = "\<lambda>e. e\<lparr>ie_phantom_evidence := ie_phantom_evidence e + 1\<rparr>"
  have inv: "ss_bucket_count st = SAR_IDENTITY_BUCKET_COUNT" "table_ok st"
    using assms(1) by (simp_all add: state_inv_def)
  have ev: "SarPhantomEvidenceConvicts (Some st) pid = (sint (ie_phantom_evidence e + 1) \<ge> 3, Some (identity_write pid ?f st))"
    using assms by (simp add: SarPhantomEvidenceConvicts_alt [OF inv(1)])
  show thesis
    by (rule that [OF ev state_inv_evidence [OF assms(1) ev]])
      (simp add: id_table.look_modify [OF inv(2)] assms(2))
qed

lemma evidence_times_count:
  assumes "state_inv W st" "SarIdentityFindLocked st pid = Some e" "ie_id_state e \<noteq> SAR_IDSTATE_EXEMPT"
  obtains st' where "evidence_times n pid (Some st) = Some st'" "state_inv W st'"
    "SarIdentityFindLocked st' pid = Some (e\<lparr>ie_phantom_evidence := ie_phantom_evidence e + of_nat n\<rparr>)"
  using assms
proof (induction n arbitrary: st e thesis)
  case 0
  then show ?case by simp
next
  case (Suc n)
  obtain st1 where st1: "SarPhantomEvidenceConvicts (Some st) pid = (sint (ie_phantom_evidence e + 1) \<ge> 3, Some st1)"
    "state_inv W st1" "SarIdentityFindLocked st1 pid = Some (e\<lparr>ie_phantom_evidence := ie_phantom_evidence e + 1\<rparr>)"
    by (rule evidence_step [OF Suc.prems(2-4)])
  show ?case
    by (rule Suc.IH [OF _ st1(2,3)], rule Suc.prems(1)) (use Suc.prems(4) st1(1) in \<open>simp_all add: ac_simps\<close>)
qed



end
