(* ===== verification/Preserve_Alloc.thy ===== *)
theory Preserve_Alloc
  imports Preserve_Store Driver_State
begin

text \<open>
  The space allocator of the driver's preserve store, \<^verbatim>\<open>driver/preserve.c\<close>: the state of the store, the heap sort of the
  payload extents, the rebuild of the free list and the first-fit allocation. The free list is the used prefix of the
  C array, so its length is the C count. A pool allocation that fails is an argument.

  The lemmas show that the sort sorts, that the free list the rebuild leaves never meets a record's payload, and that
  an allocated extent meets no payload and no free extent.
\<close>

section \<open>Definitions\<close>

definition SAR_PRESERVE_RECORD_CAPACITY :: nat where "SAR_PRESERVE_RECORD_CAPACITY = 65536"
definition SAR_PRESERVE_AES_BLOCK :: u64 where "SAR_PRESERVE_AES_BLOCK = 16"

record SAR_PRES_EXTENT =
  pe_off :: u64
  pe_len :: u64

record SAR_PRESERVE =
  sp_records :: "sar_preserve_record list"
  sp_record_capacity :: nat
  sp_free_ext :: "SAR_PRES_EXTENT list"
  sp_free_capacity :: nat
  sp_data_high_water :: u64
  sp_free_dirty :: bool
  sp_data_handle :: bool
  sp_store_key :: bytes
  sp_mac_key :: bytes
  sp_have_key :: bool
  sp_generation :: u64
  sp_anchor :: keystore_anchor
  sp_retention_100ns :: u64
  sp_capacity_bytes :: u64
  sp_reserved_bytes :: u64
  sp_ready :: bool
  sp_dirty :: bool
  sp_next_link_id :: u64

subsection \<open>Sorting\<close>

definition swap_at :: "'a list \<Rightarrow> nat \<Rightarrow> nat \<Rightarrow> 'a list" where
  "swap_at a i j = a[i := a ! j, j := a ! i]"

definition sift_child :: "SAR_PRES_EXTENT list \<Rightarrow> nat \<Rightarrow> nat \<Rightarrow> nat" where
  "sift_child a n root =
     (let child = 2 * root + 1;
          swap = root;
          swap = (if child < n \<and> pe_off (a ! swap) < pe_off (a ! child) then child else swap);
          swap = (if child + 1 < n \<and> pe_off (a ! swap) < pe_off (a ! (child + 1)) then child + 1 else swap)
      in swap)"

lemma sift_child_bounds: "sift_child a n root \<noteq> root \<Longrightarrow> root < sift_child a n root \<and> sift_child a n root < n"
  by (auto simp: sift_child_def Let_def split: if_splits)

function sift :: "nat \<Rightarrow> nat \<Rightarrow> SAR_PRES_EXTENT list \<Rightarrow> SAR_PRES_EXTENT list" where
  "sift n root a =
     (let swap = sift_child a n root
      in if swap = root then a else sift n swap (swap_at a root swap))"
  by auto
termination
  by (relation "measure (\<lambda>(n, root, _). n - root)") (use sift_child_bounds in \<open>force+\<close>)

declare sift.simps [simp del]

definition SarPresHeapSort :: "SAR_PRES_EXTENT list \<Rightarrow> SAR_PRES_EXTENT list" where
  "SarPresHeapSort a =
     (let n = length a;
          a = fold (sift n) (rev [0..<n div 2]) a
      in fold (\<lambda>i a. sift i 0 (swap_at a 0 i)) (rev [1..<n]) a)"

subsection \<open>Free list\<close>

definition rebuild_step :: "nat \<Rightarrow> SAR_PRES_EXTENT \<Rightarrow> SAR_PRES_EXTENT list \<times> u64 \<Rightarrow> SAR_PRES_EXTENT list \<times> u64" where
  "rebuild_step capacity x = (\<lambda>(free, prev_end).
     ((if pe_off x > prev_end \<and> length free < capacity
       then free @ [\<lparr>pe_off = prev_end, pe_len = pe_off x - prev_end\<rparr>] else free),
      (if pe_off x + pe_len x > prev_end then pe_off x + pe_len x else prev_end)))"

definition SarPresFreeRebuild :: "bool \<Rightarrow> SAR_PRESERVE \<Rightarrow> SAR_PRESERVE" where
  "SarPresFreeRebuild pool_ok p =
     (let p = p\<lparr>sp_free_ext := []\<rparr>
      in if length (sp_records p) = 0 then p\<lparr>sp_data_high_water := 0, sp_free_dirty := False\<rparr>
         else if \<not> pool_ok then p
         else
           let a = SarPresHeapSort (map (\<lambda>r. \<lparr>pe_off = pr_payload_offset r, pe_len = pr_payload_length r\<rparr>) (sp_records p));
               (free, prev_end) = fold (rebuild_step (sp_free_capacity p)) a ([], 0)
           in p\<lparr>sp_free_ext := free, sp_data_high_water := prev_end, sp_free_dirty := False\<rparr>)"

definition SarPresAlloc :: "bool \<Rightarrow> SAR_PRESERVE \<Rightarrow> u64 \<Rightarrow> u64 \<times> SAR_PRESERVE" where
  "SarPresAlloc pool_ok p len =
     (let p = (if sp_free_dirty p then SarPresFreeRebuild pool_ok p else p);
          free = sp_free_ext p
      in case find (\<lambda>i. pe_len (free ! i) \<ge> len) [0..<length free] of
           Some i \<Rightarrow>
             let x = free ! i;
                 free = free[i := \<lparr>pe_off = pe_off x + len, pe_len = pe_len x - len\<rparr>];
                 free = (if pe_len (free ! i) = 0 then butlast (free[i := free ! (length free - 1)]) else free)
             in (pe_off x, p\<lparr>sp_free_ext := free\<rparr>)
         | None \<Rightarrow> (sp_data_high_water p, p\<lparr>sp_data_high_water := sp_data_high_water p + len\<rparr>))"

section \<open>The sort sorts\<close>

lemma length_swap_at [simp]: "length (swap_at a i j) = length a"
  by (simp add: swap_at_def)

lemma nth_swap_at:
  "i < length a \<Longrightarrow> j < length a \<Longrightarrow> k < length a \<Longrightarrow>
   swap_at a i j ! k = (if k = j then a ! i else if k = i then a ! j else a ! k)"
  by (simp add: swap_at_def nth_list_update)

lemma mset_swap_at: "i < length a \<Longrightarrow> j < length a \<Longrightarrow> mset (swap_at a i j) = mset a"
  by (simp add: swap_at_def mset_swap)

lemma swap_at_prefix:
  assumes "i < n" "j < n" "n \<le> length a"
  shows "mset (take n (swap_at a i j)) = mset (take n a)" "drop n (swap_at a i j) = drop n a"
proof -
  have "take n (swap_at a i j) = swap_at (take n a) i j"
    using assms by (simp add: swap_at_def take_update_swap)
  then show "mset (take n (swap_at a i j)) = mset (take n a)"
    using assms by (simp add: mset_swap_at)
  show "drop n (swap_at a i j) = drop n a"
    using assms by (simp add: swap_at_def drop_update_cancel)
qed

lemma sift_prefix:
  "root < n \<Longrightarrow> n \<le> length a \<Longrightarrow>
   length (sift n root a) = length a \<and> mset (take n (sift n root a)) = mset (take n a) \<and> drop n (sift n root a) = drop n a"
proof (induction n root a rule: sift.induct)
  case (1 n root a)
  let ?c = "sift_child a n root"
  show ?case
  proof (cases "?c = root")
    case True
    then show ?thesis by (simp add: sift.simps [of n root])
  next
    case False
    then have "root < ?c" "?c < n" using sift_child_bounds by blast+
    then show ?thesis
      using 1 False swap_at_prefix [of root n ?c a] by (simp add: sift.simps [of n root] Let_def)
  qed
qed

text \<open>
  The heap order: below an index every node from \<open>k\<close> on is no smaller than its children. While an element sinks, the
  node it is at may break the order, but its children are no larger than its parent.
\<close>

definition child_of :: "nat \<Rightarrow> nat \<Rightarrow> bool" where
  "child_of c i \<longleftrightarrow> c = 2 * i + 1 \<or> c = 2 * i + 2"

definition heap_order :: "SAR_PRES_EXTENT list \<Rightarrow> nat \<Rightarrow> nat \<Rightarrow> nat set \<Rightarrow> bool" where
  "heap_order a n k X \<longleftrightarrow> (\<forall>i c. k \<le> i \<and> c < n \<and> child_of c i \<and> i \<notin> X \<longrightarrow> pe_off (a ! c) \<le> pe_off (a ! i))"

definition sinking :: "SAR_PRES_EXTENT list \<Rightarrow> nat \<Rightarrow> nat \<Rightarrow> nat \<Rightarrow> bool" where
  "sinking a n k r \<longleftrightarrow> heap_order a n k {r} \<and>
     (\<forall>p c. k \<le> p \<and> child_of r p \<and> c < n \<and> child_of c r \<longrightarrow> pe_off (a ! c) \<le> pe_off (a ! p))"

lemma child_of_less: "child_of c i \<Longrightarrow> i < c"
  by (auto simp: child_of_def)

lemma child_of_inj: "child_of c i \<Longrightarrow> child_of c j \<Longrightarrow> i = j"
  unfolding child_of_def by presburger

lemma sift_child_eq:
  assumes "c < n" "child_of c root"
  shows "pe_off (a ! c) \<le> pe_off (a ! sift_child a n root)"
  using assms by (auto simp: sift_child_def child_of_def Let_def)

lemma sift_child_root: "pe_off (a ! root) \<le> pe_off (a ! sift_child a n root)"
  by (auto simp: sift_child_def Let_def)

lemma sift_child_is_child: "sift_child a n root \<noteq> root \<Longrightarrow> child_of (sift_child a n root) root"
  by (auto simp: sift_child_def child_of_def Let_def split: if_splits)

lemma sinking_swap:
  assumes "sinking a n k r" "k \<le> r" "n \<le> length a" "sift_child a n r \<noteq> r"
  shows "sinking (swap_at a r (sift_child a n r)) n k (sift_child a n r)"
proof -
  define s where "s = sift_child a n r"
  define b where "b = swap_at a r s"
  have s: "r < s" "s < n" "child_of s r"
    using sift_child_bounds [OF assms(4)] sift_child_is_child [OF assms(4)] by (simp_all add: s_def)
  have b: "b ! i = (if i = s then a ! r else if i = r then a ! s else a ! i)" if "i < n" for i
    using that s assms(3) by (simp add: b_def nth_swap_at)
  have ord: "pe_off (a ! c) \<le> pe_off (a ! i)" if "k \<le> i" "c < n" "child_of c i" "i \<noteq> r" for i c
    using assms(1) that by (auto simp: sinking_def heap_order_def)
  have gp: "pe_off (a ! c) \<le> pe_off (a ! p)" if "k \<le> p" "child_of r p" "c < n" "child_of c r" for p c
    using assms(1) that by (auto simp: sinking_def)
  have "pe_off (b ! c) \<le> pe_off (b ! i)" if "k \<le> i" "c < n" "child_of c i" "i \<noteq> s" for i c
  proof (cases "i = r")
    case True
    then show ?thesis
      using that s sift_child_eq [of c n r a] sift_child_root [of a r n] by (auto simp: b s_def [symmetric])
  next
    case False
    have "c \<noteq> s" using False child_of_inj [OF that(3)] s(3) by blast
    moreover have "i < n" "i \<noteq> r" using child_of_less [OF that(3)] that(2) False by auto
    ultimately show ?thesis
      using that ord [of i c] gp [of i s] s by (auto simp: b)
  qed
  moreover have "pe_off (b ! c) \<le> pe_off (b ! p)" if "k \<le> p" "child_of s p" "c < n" "child_of c s" for p c
  proof -
    have "p = r" using child_of_inj [OF that(2) s(3)] .
    moreover have "c \<noteq> s" "c \<noteq> r" using child_of_less [OF that(4)] s(1) by auto
    ultimately show ?thesis
      using ord [of s c] that s assms(2) by (simp add: b)
  qed
  ultimately show ?thesis
    by (auto simp: sinking_def heap_order_def b_def s_def)
qed

lemma sift_heap:
  "sinking a n k root \<Longrightarrow> k \<le> root \<Longrightarrow> n \<le> length a \<Longrightarrow> heap_order (sift n root a) n k {}"
proof (induction n root a rule: sift.induct)
  case (1 n root a)
  let ?c = "sift_child a n root"
  show ?case
  proof (cases "?c = root")
    case True
    then have "heap_order a n k {}"
      using 1(2) sift_child_eq [of _ n root a] by (auto simp: sinking_def heap_order_def)
    then show ?thesis
      using True by (simp add: sift.simps [of n root])
  next
    case False
    then have "root < ?c" using sift_child_bounds by blast
    then show ?thesis
      using 1(1) [OF refl False sinking_swap [OF 1(2,3,4) False]] 1(3,4) False
      by (simp add: sift.simps [of n root] Let_def)
  qed
qed

lemma heapify:
  assumes "k \<le> length a div 2"
  shows "heap_order (fold (sift (length a)) (rev [k..<length a div 2]) a) (length a) k {} \<and>
    mset (fold (sift (length a)) (rev [k..<length a div 2]) a) = mset a"
  using assms
proof (induction "length a div 2 - k" arbitrary: k)
  case 0
  then have "k = length a div 2" by simp
  then show ?case
    by (auto simp: heap_order_def child_of_def)
next
  case (Suc m)
  define b where "b = fold (sift (length a)) (rev [Suc k..<length a div 2]) a"
  have ih: "heap_order b (length a) (Suc k) {}" "mset b = mset a"
    using Suc(1) [of "Suc k"] Suc(2,3) by (simp_all add: b_def)
  have len: "length b = length a" using ih(2) by (metis size_mset)
  have "[k..<length a div 2] = k # [Suc k..<length a div 2]"
    using Suc(2) by (simp add: upt_conv_Cons)
  then have f: "fold (sift (length a)) (rev [k..<length a div 2]) a = sift (length a) k b"
    by (simp add: b_def)
  have "sinking b (length a) k k"
    using ih(1) child_of_less by (fastforce simp: sinking_def heap_order_def)
  then have "heap_order (sift (length a) k b) (length a) k {}"
    using sift_heap len by simp
  moreover have "k < length a" using Suc(2) by linarith
  then have "mset (sift (length a) k b) = mset b"
    using sift_prefix [of k "length a" b] len by auto
  ultimately show ?case
    using ih(2) by (simp add: f)
qed

lemma heap_max:
  "heap_order a n 0 {} \<Longrightarrow> i < n \<Longrightarrow> pe_off (a ! i) \<le> pe_off (a ! 0)"
proof (induction i rule: less_induct)
  case (less i)
  show ?case
  proof (cases "i = 0")
    case False
    then have "child_of i ((i - 1) div 2)"
      unfolding child_of_def by presburger
    moreover have "(i - 1) div 2 < i" using False by simp
    ultimately show ?thesis
      using less by (fastforce simp: heap_order_def intro: order_trans)
  qed simp
qed

definition sort_stage :: "SAR_PRES_EXTENT list \<Rightarrow> nat \<Rightarrow> bool" where
  "sort_stage a m \<longleftrightarrow> heap_order a m 0 {} \<and> sorted (map pe_off (drop m a)) \<and>
     (\<forall>x \<in> set (take m a). \<forall>y \<in> set (drop m a). pe_off x \<le> pe_off y)"

lemma sort_stage_step:
  assumes st: "sort_stage a (Suc m)" and "0 < m" "Suc m \<le> length a"
  shows "sort_stage (sift m 0 (swap_at a 0 m)) m \<and> mset (sift m 0 (swap_at a 0 m)) = mset a"
proof -
  define b where "b = swap_at a 0 m"
  define c where "c = sift m 0 b"
  have len: "length b = length a" "m < length a" "0 < length a" using assms(3) by (auto simp: b_def)
  have b: "b ! j = (if j = m then a ! 0 else if j = 0 then a ! m else a ! j)" if "j < length a" for j
    using that len by (simp add: b_def nth_swap_at)
  have "sinking b m 0 0"
    using st len by (auto simp: sinking_def heap_order_def sort_stage_def child_of_def b)
  then have heap: "heap_order c m 0 {}"
    using sift_heap [of b m 0 0] len by (simp add: c_def)
  have c: "mset (take m c) = mset (take m b)" "drop m c = drop m b" "length c = length a"
    using sift_prefix [OF assms(2), of b] len by (simp_all add: c_def)
  have db: "drop m b = a ! 0 # drop (Suc m) a"
    using len by (simp add: b_def swap_at_def Cons_nth_drop_Suc [symmetric] nth_list_update drop_update_cancel)
  have "mset b = mset a"
    using len by (simp add: b_def mset_swap_at)
  moreover have "mset c = mset b"
    using c by (metis append_take_drop_id mset_append)
  ultimately have mset: "mset c = mset a" by simp
  have max: "pe_off x \<le> pe_off (a ! 0)" if "x \<in> set (take (Suc m) a)" for x
    using that heap_max [of a "Suc m"] st by (auto simp: sort_stage_def in_set_conv_nth)
  have "mset (take (Suc m) b) = mset (take (Suc m) a)"
    unfolding b_def by (rule swap_at_prefix(1)) (use assms in simp_all)
  then have "set (take m b) \<subseteq> set (take (Suc m) a)"
    by (metis mset_eq_setD set_take_subset_set_take lessI less_imp_le)
  moreover have "set (take m c) = set (take m b)"
    using c(1) by (metis mset_eq_setD)
  moreover have "a ! 0 \<in> set (take (Suc m) a)"
    using len by (auto simp: in_set_conv_nth intro!: exI [of _ 0])
  ultimately have "sort_stage c m"
    using heap st max unfolding sort_stage_def c(2) db by auto
  then show ?thesis
    using mset by (simp add: b_def c_def)
qed

lemma heap_order_mono: "heap_order a n k X \<Longrightarrow> n' \<le> n \<Longrightarrow> heap_order a n' k X"
  by (auto simp: heap_order_def)

lemma heap_sort_loop:
  assumes "heap_order a n 0 {}" "length a = n" "0 < m" "m \<le> n"
  shows "sort_stage (fold (\<lambda>i a. sift i 0 (swap_at a 0 i)) (rev [m..<n]) a) m \<and>
    mset (fold (\<lambda>i a. sift i 0 (swap_at a 0 i)) (rev [m..<n]) a) = mset a"
  using assms(3,4)
proof (induction "n - m" arbitrary: m)
  case 0
  then show ?case using assms by (simp add: sort_stage_def)
next
  case (Suc d)
  define b where "b = fold (\<lambda>i a. sift i 0 (swap_at a 0 i)) (rev [Suc m..<n]) a"
  have ih: "sort_stage b (Suc m)" "mset b = mset a"
    using Suc(1) [of "Suc m"] Suc(2-4) by (simp_all add: b_def)
  have "[m..<n] = m # [Suc m..<n]" using Suc(2) by (simp add: upt_conv_Cons)
  moreover have "length b = n" using ih(2) assms(2) by (metis size_mset)
  ultimately show ?case
    using sort_stage_step [OF ih(1) Suc(3)] ih(2) Suc(2) by (simp flip: b_def)
qed

lemma SarPresHeapSort_spec:
  "sorted (map pe_off (SarPresHeapSort a)) \<and> mset (SarPresHeapSort a) = mset a"
proof (cases "length a \<le> 1")
  case True
  then have "SarPresHeapSort a = a"
    by (simp add: SarPresHeapSort_def)
  then show ?thesis
    using True by (cases a) auto
next
  case False
  define n where "n = length a"
  define h where "h = fold (sift n) (rev [0..<n div 2]) a"
  have h: "heap_order h n 0 {}" "mset h = mset a"
    using heapify [of 0 a] by (simp_all add: h_def n_def)
  have "length h = n" using h(2) by (metis n_def size_mset)
  define s where "s = fold (\<lambda>i a. sift i 0 (swap_at a 0 i)) (rev [1..<n]) h"
  have s: "sort_stage s 1" "mset s = mset h"
    using heap_sort_loop [OF h(1) \<open>length h = n\<close>, of 1] False by (simp_all add: s_def n_def)
  have "SarPresHeapSort a = s"
    by (simp add: SarPresHeapSort_def s_def h_def n_def Let_def)
  moreover have "length s = n"
    using s(2) \<open>length h = n\<close> by (metis size_mset)
  then have "sorted (map pe_off s)"
    using s(1) False by (cases s) (auto simp: sort_stage_def n_def)
  ultimately show ?thesis
    using s(2) h(2) by simp
qed

section \<open>The free list never meets a payload\<close>

definition pe_end :: "SAR_PRES_EXTENT \<Rightarrow> nat" where
  "pe_end x = unat (pe_off x) + unat (pe_len x)"

definition pe_range :: "SAR_PRES_EXTENT \<Rightarrow> nat set" where
  "pe_range x = {unat (pe_off x)..<pe_end x}"

definition payload_of :: "sar_preserve_record \<Rightarrow> SAR_PRES_EXTENT" where
  "payload_of r = \<lparr>pe_off = pr_payload_offset r, pe_len = pr_payload_length r\<rparr>"

definition apart :: "SAR_PRES_EXTENT \<Rightarrow> SAR_PRES_EXTENT \<Rightarrow> bool" where
  "apart x y \<longleftrightarrow> pe_range x \<inter> pe_range y = {}"

lemma apart_commute: "apart x y \<longleftrightarrow> apart y x"
  by (auto simp: apart_def)

lemma apartI: "pe_end x \<le> unat (pe_off y) \<or> pe_end y \<le> unat (pe_off x) \<Longrightarrow> apart x y"
  by (auto simp: apart_def pe_range_def)

fun all_apart :: "SAR_PRES_EXTENT list \<Rightarrow> bool" where
  "all_apart [] \<longleftrightarrow> True"
| "all_apart (x # xs) \<longleftrightarrow> list_all (apart x) xs \<and> all_apart xs"

lemma all_apart_append:
  "all_apart (xs @ ys) \<longleftrightarrow> all_apart xs \<and> all_apart ys \<and> (\<forall>x \<in> set xs. \<forall>y \<in> set ys. apart x y)"
  by (induction xs) (auto simp: list_all_iff)

definition free_below :: "SAR_PRES_EXTENT list \<Rightarrow> nat \<Rightarrow> SAR_PRES_EXTENT list \<Rightarrow> bool" where
  "free_below free bound taken \<longleftrightarrow> all_apart free \<and>
     (\<forall>f \<in> set free. pe_end f \<le> bound \<and> (\<forall>x \<in> set taken. apart f x))"

lemma rebuild_step_ok:
  assumes inv: "free_below free (unat prev) done" "\<forall>x \<in> set done. pe_end x \<le> unat prev" and x: "pe_end x < 2 ^ 64"
    and later: "\<forall>f \<in> set free. pe_end f \<le> unat (pe_off x)"
    and step: "rebuild_step capacity x (free, prev) = (free', prev')"
  shows "free_below free' (unat prev') (x # done)" "\<forall>y \<in> set (x # done). pe_end y \<le> unat prev'"
    "\<forall>f \<in> set free'. pe_end f \<le> unat (pe_off x)"
proof -
  have sum: "unat (pe_off x + pe_len x) = pe_end x"
    using x by (simp add: pe_end_def unat_word_ariths(1))
  then have prev': "unat prev' = max (unat prev) (pe_end x)"
    using step by (auto simp: rebuild_step_def max_def word_less_nat_alt)
  define g where "g = \<lparr>pe_off = prev, pe_len = pe_off x - prev\<rparr>"
  have free': "free' = free \<or> free' = free @ [g] \<and> prev < pe_off x"
    using step by (auto simp: rebuild_step_def g_def split: if_splits)
  have g: "pe_end g = unat (pe_off x)" "unat (pe_off g) = unat prev" if "prev < pe_off x"
    using that unat_sub [OF less_imp_le [OF that]] by (simp_all add: g_def pe_end_def word_less_nat_alt)
  have ge: "unat (pe_off x) \<le> pe_end x" by (simp add: pe_end_def)
  have old: "apart f x" if "f \<in> set free" for f
    using that later by (intro apartI) auto
  show "\<forall>y \<in> set (x # done). pe_end y \<le> unat prev'"
    using inv(2) by (auto simp: prev' max_def)
  show "\<forall>f \<in> set free'. pe_end f \<le> unat (pe_off x)"
    using free' later g by auto
  have "\<forall>f \<in> set free. apart f g" if "prev < pe_off x"
    using inv(1) g [OF that] by (auto simp: free_below_def intro!: apartI)
  moreover have "apart g y" if "y \<in> set (x # done)" "prev < pe_off x" for y
    using that inv(2) g by (auto intro!: apartI)
  ultimately show "free_below free' (unat prev') (x # done)"
    using free' inv(1) old g ge by (auto simp: free_below_def all_apart_append prev' le_max_iff_disj)
qed

lemma rebuild_fold_ok:
  assumes "free_below free (unat prev) done" "\<forall>x \<in> set done. pe_end x \<le> unat prev"
    "\<forall>f \<in> set free. \<forall>x \<in> set xs. pe_end f \<le> unat (pe_off x)"
    "\<forall>x \<in> set xs. pe_end x < 2 ^ 64" "sorted (map pe_off xs)"
    "fold (rebuild_step capacity) xs (free, prev) = (free', prev')"
  shows "free_below free' (unat prev') (rev xs @ done) \<and> (\<forall>x \<in> set (rev xs @ done). pe_end x \<le> unat prev')"
  using assms
proof (induction xs arbitrary: free prev "done")
  case Nil
  then show ?case by simp
next
  case (Cons x xs)
  obtain free1 prev1 where s: "rebuild_step capacity x (free, prev) = (free1, prev1)"
    by fastforce
  have step: "free_below free1 (unat prev1) (x # done)" "\<forall>y \<in> set (x # done). pe_end y \<le> unat prev1"
    "\<forall>f \<in> set free1. pe_end f \<le> unat (pe_off x)"
    using rebuild_step_ok [OF Cons.prems(1,2) _ _ s] Cons.prems(3,4) by auto
  have "\<forall>f \<in> set free1. \<forall>y \<in> set xs. pe_end f \<le> unat (pe_off y)"
    using step(3) Cons.prems(5) by (fastforce simp: word_le_nat_alt intro: order_trans)
  then show ?case
    using Cons.IH [OF step(1,2)] Cons.prems(4,5,6) s by simp
qed

text \<open>
  The allocator's invariant: payloads end below the high-water mark, and, unless the list is to be rebuilt, the free
  extents are apart from each other and from every payload.
\<close>

definition alloc_ok :: "SAR_PRESERVE \<Rightarrow> bool" where
  "alloc_ok p \<longleftrightarrow> (\<forall>r \<in> set (sp_records p). pe_end (payload_of r) \<le> unat (sp_data_high_water p)) \<and>
     (\<not> sp_free_dirty p \<longrightarrow>
        free_below (sp_free_ext p) (unat (sp_data_high_water p)) (map payload_of (sp_records p)))"

lemma free_below_mset: "free_below free n xs \<Longrightarrow> set ys \<subseteq> set xs \<Longrightarrow> free_below free n ys"
  by (auto simp: free_below_def)

lemma SarPresFreeRebuild_ok:
  assumes "\<forall>r \<in> set (sp_records p). pe_end (payload_of r) < 2 ^ 64"
  shows "alloc_ok (SarPresFreeRebuild True p)" "\<not> sp_free_dirty (SarPresFreeRebuild True p)"
proof -
  define xs where "xs = SarPresHeapSort (map payload_of (sp_records p))"
  obtain free high where f: "fold (rebuild_step (sp_free_capacity p)) xs ([], 0) = (free, high)"
    by fastforce
  have sorted: "sorted (map pe_off xs)" and mset: "mset xs = mset (map payload_of (sp_records p))"
    using SarPresHeapSort_spec [of "map payload_of (sp_records p)"] by (simp_all add: xs_def)
  have set: "set xs = payload_of ` set (sp_records p)"
    using mset_eq_setD [OF mset] by simp
  have "free_below free (unat high) (rev xs) \<and> (\<forall>x \<in> set xs. pe_end x \<le> unat high)"
    using rebuild_fold_ok [of "[]" 0 "[]" xs, OF _ _ _ _ sorted f] assms by (simp add: free_below_def set)
  then have ok: "free_below free (unat high) (map payload_of (sp_records p))"
    "\<forall>r \<in> set (sp_records p). pe_end (payload_of r) \<le> unat high"
    by (auto simp: set elim: free_below_mset)
  have "SarPresFreeRebuild True p =
      (if sp_records p = [] then p\<lparr>sp_free_ext := [], sp_data_high_water := 0, sp_free_dirty := False\<rparr>
       else p\<lparr>sp_free_ext := free, sp_data_high_water := high, sp_free_dirty := False\<rparr>)"
    using f by (simp add: SarPresFreeRebuild_def xs_def payload_of_def [abs_def] Let_def)
  then show "alloc_ok (SarPresFreeRebuild True p)" "\<not> sp_free_dirty (SarPresFreeRebuild True p)"
    using ok by (simp_all add: alloc_ok_def free_below_def)
qed

section \<open>Allocation\<close>

lemma all_apart_nth:
  "all_apart xs \<longleftrightarrow> (\<forall>i < length xs. \<forall>j < length xs. i \<noteq> j \<longrightarrow> apart (xs ! i) (xs ! j))"
proof (induction xs)
  case Nil
  then show ?case by simp
next
  case (Cons x xs)
  show ?case
    by (simp add: Cons list_all_length All_less_Suc2) (use apart_commute in blast)
qed

lemma apart_sub:
  "apart x y \<Longrightarrow> unat (pe_off x) \<le> unat (pe_off x') \<Longrightarrow> pe_end x' \<le> pe_end x \<Longrightarrow> apart x' y"
  by (auto simp: apart_def pe_range_def)

definition take_free :: "SAR_PRES_EXTENT list \<Rightarrow> nat \<Rightarrow> u64 \<Rightarrow> SAR_PRES_EXTENT list" where
  "take_free free i len =
     (let x = free ! i;
          free = free[i := \<lparr>pe_off = pe_off x + len, pe_len = pe_len x - len\<rparr>]
      in if pe_len (free ! i) = 0 then butlast (free[i := free ! (length free - 1)]) else free)"

lemma take_free_elems:
  assumes "i < length free"
  obtains f where "inj_on f {..<length (take_free free i len)}"
    "\<And>k. k < length (take_free free i len) \<Longrightarrow> f k < length free \<and>
       take_free free i len ! k = (free[i := \<lparr>pe_off = pe_off (free ! i) + len, pe_len = pe_len (free ! i) - len\<rparr>]) ! f k"
proof (cases "pe_len (free ! i) - len = 0")
  case True
  then have t: "take_free free i len = butlast (free[i := \<lparr>pe_off = pe_off (free ! i) + len, pe_len = pe_len (free ! i) - len\<rparr>,
      i := free[i := \<lparr>pe_off = pe_off (free ! i) + len, pe_len = pe_len (free ! i) - len\<rparr>] ! (length free - 1)])"
    using assms by (simp add: take_free_def Let_def)
  show thesis
    by (rule that [of "\<lambda>k. if k = i then length free - 1 else k"])
      (use assms in \<open>auto simp: t inj_on_def nth_butlast nth_list_update split: if_splits\<close>)
next
  case False
  then have t: "take_free free i len = free[i := \<lparr>pe_off = pe_off (free ! i) + len, pe_len = pe_len (free ! i) - len\<rparr>]"
    using assms by (simp add: take_free_def Let_def)
  show thesis
    by (rule that [of "\<lambda>k. k"]) (simp_all add: t)
qed

lemma take_free_ok:
  assumes free: "free_below free high taken" and i: "i < length free" "len \<le> pe_len (free ! i)" and fits: "high < 2 ^ 64"
  defines "x \<equiv> \<lparr>pe_off = pe_off (free ! i), pe_len = len\<rparr>"
  shows "free_below (take_free free i len) high (x # taken)" "pe_end x \<le> high" "\<forall>y \<in> set taken. apart x y"
proof -
  define z where "z = free ! i"
  define rest where "rest = \<lparr>pe_off = pe_off z + len, pe_len = pe_len z - len\<rparr>"
  define fs where "fs = free[i := rest]"
  have z: "pe_end z \<le> high" "\<forall>y \<in> set taken. apart z y"
    using free i by (auto simp: free_below_def z_def)
  have "unat (pe_off z) + unat len < 2 ^ 64"
    using z(1) i(2) fits by (simp add: pe_end_def word_le_nat_alt flip: z_def)
  then have off: "unat (pe_off rest) = unat (pe_off z) + unat len" and e: "pe_end rest = pe_end z"
    using i(2) unat_sub [OF i(2)] by (simp_all add: rest_def pe_end_def unat_word_ariths(1) word_le_nat_alt flip: z_def)
  have x: "pe_off x = pe_off z" "pe_end x = unat (pe_off z) + unat len"
    by (simp_all add: x_def z_def pe_end_def)
  have x_le: "pe_end x \<le> pe_end z"
    using i(2) by (simp add: x(2)) (simp add: pe_end_def word_le_nat_alt flip: z_def)
  show "pe_end x \<le> high" using x_le z(1) by simp
  show "\<forall>y \<in> set taken. apart x y"
    using z(2) x_le x(1) by (auto intro: apart_sub)
  have nth: "\<forall>j < length free. \<forall>k < length free. j \<noteq> k \<longrightarrow> apart (free ! j) (free ! k)"
    using free by (simp add: free_below_def all_apart_nth)
  have fs_le: "unat (pe_off (free ! k)) \<le> unat (pe_off (fs ! k)) \<and> pe_end (fs ! k) \<le> pe_end (free ! k)" if "k < length free" for k
    using that off e i(1) by (cases "k = i") (simp_all add: fs_def z_def)
  have apart_fs: "apart (fs ! j) (fs ! k)" if "j < length free" "k < length free" "j \<noteq> k" for j k
    using nth that fs_le by (meson apart_commute apart_sub)
  have one: "pe_end (fs ! k) \<le> high \<and> (\<forall>y \<in> set (x # taken). apart (fs ! k) y)" if "k < length free" for k
  proof -
    have "pe_end (free ! k) \<le> high" "\<forall>y \<in> set taken. apart (free ! k) y"
      using free that by (auto simp: free_below_def)
    moreover have "apart (fs ! k) x"
    proof (cases "k = i")
      case True
      then show ?thesis using that off x by (intro apartI) (simp add: fs_def)
    next
      case False
      then have "apart z (free ! k)" using nth that i(1) by (simp add: z_def)
      then show ?thesis
        using False x_le x(1) by (auto simp: fs_def apart_commute intro: apart_sub)
    qed
    ultimately show ?thesis
      using fs_le [OF that] by (auto intro: apart_sub)
  qed
  obtain f where f: "inj_on f {..<length (take_free free i len)}"
    "\<And>k. k < length (take_free free i len) \<Longrightarrow> f k < length free \<and> take_free free i len ! k = fs ! f k"
    using take_free_elems [OF i(1), of len] by (metis fs_def rest_def z_def)
  have "all_apart (take_free free i len)"
    unfolding all_apart_nth using f apart_fs by (metis inj_onD lessThan_iff)
  moreover have "pe_end g \<le> high \<and> (\<forall>y \<in> set (x # taken). apart g y)" if "g \<in> set (take_free free i len)" for g
    using that f(2) one by (metis in_set_conv_nth)
  ultimately show "free_below (take_free free i len) high (x # taken)"
    by (simp add: free_below_def)
qed

definition alloc_ready :: "bool \<Rightarrow> SAR_PRESERVE \<Rightarrow> bool" where
  "alloc_ready pool_ok p \<longleftrightarrow> alloc_ok p \<or>
     sp_free_dirty p \<and> pool_ok \<and> (\<forall>r \<in> set (sp_records p). pe_end (payload_of r) < 2 ^ 64)"

lemma alloc_prepare:
  assumes "alloc_ready pool_ok p"
  defines "q \<equiv> if sp_free_dirty p then SarPresFreeRebuild pool_ok p else p"
  shows "sp_records q = sp_records p" "alloc_ok q"
    "free_below (sp_free_ext q) (unat (sp_data_high_water q)) (map payload_of (sp_records p))"
proof -
  show records: "sp_records q = sp_records p"
    by (auto simp: q_def SarPresFreeRebuild_def Let_def split: prod.split)
  have lt: "\<forall>r \<in> set (sp_records p). pe_end (payload_of r) < 2 ^ 64"
    using assms(1) unsigned_less [of "sp_data_high_water p", where 'a = nat]
    by (fastforce simp: alloc_ready_def alloc_ok_def)
  show ok: "alloc_ok q"
  proof (cases "sp_free_dirty p \<and> (pool_ok \<or> sp_records p = [])")
    case True
    then have "q = SarPresFreeRebuild True p"
      by (auto simp: q_def SarPresFreeRebuild_def Let_def)
    then show ?thesis using SarPresFreeRebuild_ok(1) [OF lt] by simp
  next
    case False
    then show ?thesis
      using assms(1) by (auto simp: q_def alloc_ready_def alloc_ok_def SarPresFreeRebuild_def Let_def)
  qed
  show "free_below (sp_free_ext q) (unat (sp_data_high_water q)) (map payload_of (sp_records p))"
  proof (cases "sp_free_dirty q")
    case True
    then have "sp_free_ext q = []"
      by (auto simp: q_def SarPresFreeRebuild_def Let_def split: if_splits prod.splits)
    then show ?thesis by (simp add: free_below_def)
  next
    case False
    then show ?thesis using ok records by (simp add: alloc_ok_def)
  qed
qed

lemma SarPresAlloc_alt:
  "SarPresAlloc pool_ok p len =
     (let q = (if sp_free_dirty p then SarPresFreeRebuild pool_ok p else p)
      in case find (\<lambda>i. pe_len (sp_free_ext q ! i) \<ge> len) [0..<length (sp_free_ext q)] of
           Some i \<Rightarrow> (pe_off (sp_free_ext q ! i), q\<lparr>sp_free_ext := take_free (sp_free_ext q) i len\<rparr>)
         | None \<Rightarrow> (sp_data_high_water q, q\<lparr>sp_data_high_water := sp_data_high_water q + len\<rparr>))"
  by (simp add: SarPresAlloc_def take_free_def Let_def split: option.split)

lemma free_below_cons:
  "free_below free bound taken \<Longrightarrow> bound \<le> bound' \<Longrightarrow> (\<forall>f \<in> set free. apart f x) \<Longrightarrow> free_below free bound' (x # taken)"
  by (fastforce simp: free_below_def)

lemma SarPresAlloc_ok:
  assumes ready: "alloc_ready pool_ok p" and a: "SarPresAlloc pool_ok p len = (off, p')"
    and room: "unat (sp_data_high_water (if sp_free_dirty p then SarPresFreeRebuild pool_ok p else p)) + unat len < 2 ^ 64"
  defines "x \<equiv> \<lparr>pe_off = off, pe_len = len\<rparr>"
  shows "sp_records p' = sp_records p" "\<forall>r \<in> set (sp_records p). apart x (payload_of r)"
    "pe_end x \<le> unat (sp_data_high_water p')"
    "\<forall>r \<in> set (sp_records p). pe_end (payload_of r) \<le> unat (sp_data_high_water p')"
    "free_below (sp_free_ext p') (unat (sp_data_high_water p')) (x # map payload_of (sp_records p))"
proof -
  define q where "q = (if sp_free_dirty p then SarPresFreeRebuild pool_ok p else p)"
  define free where "free = sp_free_ext q"
  define high where "high = unat (sp_data_high_water q)"
  note q = alloc_prepare [OF ready, folded q_def]
  have ends: "\<forall>r \<in> set (sp_records p). pe_end (payload_of r) \<le> high"
    using q(1,2) by (simp add: alloc_ok_def high_def)
  have free: "free_below free high (map payload_of (sp_records p))"
    using q(3) by (simp add: free_def high_def)
  have room': "high + unat len < 2 ^ 64"
    using room by (simp add: high_def q_def)
  show "sp_records p' = sp_records p"
    using a q(1) by (auto simp: SarPresAlloc_alt Let_def simp flip: q_def split: option.splits)
  consider (fit) i where "i < length free" "len \<le> pe_len (free ! i)" "off = pe_off (free ! i)"
      "p' = q\<lparr>sp_free_ext := take_free free i len\<rparr>"
    | (top) "off = sp_data_high_water q" "p' = q\<lparr>sp_data_high_water := sp_data_high_water q + len\<rparr>"
    using a by (auto simp: SarPresAlloc_alt Let_def find_Some_iff free_def simp flip: q_def split: option.splits)
  note cases = this
  have "(\<forall>r \<in> set (sp_records p). apart x (payload_of r)) \<and> pe_end x \<le> unat (sp_data_high_water p') \<and>
      (\<forall>r \<in> set (sp_records p). pe_end (payload_of r) \<le> unat (sp_data_high_water p')) \<and>
      free_below (sp_free_ext p') (unat (sp_data_high_water p')) (x # map payload_of (sp_records p))"
  proof (cases rule: cases)
    case fit
    then show ?thesis
      using take_free_ok [OF free fit(1,2)] room' ends by (simp add: x_def flip: high_def)
  next
    case top
    have top': "unat (sp_data_high_water p') = high + unat len" "unat (pe_off x) = high" "pe_end x = high + unat len"
      using room' by (simp_all add: top x_def pe_end_def high_def unat_word_ariths(1))
    have "\<forall>f \<in> set free. apart f x"
      using free top'(2) by (auto simp: free_below_def intro!: apartI)
    then have "free_below free (high + unat len) (x # map payload_of (sp_records p))"
      by (rule free_below_cons [OF free le_add1])
    then show ?thesis
      using top' ends by (auto simp: top(2) free_def intro!: apartI)
  qed
  then show "\<forall>r \<in> set (sp_records p). apart x (payload_of r)" "pe_end x \<le> unat (sp_data_high_water p')"
    "\<forall>r \<in> set (sp_records p). pe_end (payload_of r) \<le> unat (sp_data_high_water p')"
    "free_below (sp_free_ext p') (unat (sp_data_high_water p')) (x # map payload_of (sp_records p))"
    by blast+
qed

end
