(* ===== verification/Store_Io.thy ===== *)
theory Store_Io
  imports Driver_State
begin

text \<open>
  The files of the driver's stores, \<^verbatim>\<open>driver/store_io.c\<close>: reading a whole file, and replacing a file by writing a
  temporary one and renaming it. The file system is a map from the paths of the stores to their contents; what the
  kernel calls answer is an argument. An operation returns its status and every state of the file system it goes
  through, the last one being the one it leaves, so that a crash is a stop at any of them.

  The locale \<open>atomic_files\<close> is the contract of the replacement. Its client lemma is the commit of a body and of the
  anchor that vouches for it, which both stores use.
\<close>

section \<open>Definitions\<close>

datatype store_path =
    SAR_KS_FILE | SAR_KS_TMP | SAR_KS_KEYFILE | SAR_KS_KEYTMP
  | SAR_PRES_INDEX | SAR_PRES_INDEXTMP | SAR_PRES_DATA | SAR_PRES_KEYFILE | SAR_PRES_KEYTMP

type_synonym store_fs = "store_path \<Rightarrow> bytes option"

text \<open>
  What reading a file meets: whether it opens, whether its size can be queried, the pool, and whether the read
  succeeds.
\<close>

record store_read_env =
  sr_open :: NTSTATUS
  sr_query :: NTSTATUS
  sr_pool :: bool
  sr_read :: NTSTATUS

definition SarStoreReadAll :: "store_read_env \<Rightarrow> store_fs \<Rightarrow> store_path \<Rightarrow> nat \<Rightarrow> NTSTATUS \<times> bytes option" where
  "SarStoreReadAll env fs path max_bytes =
     (case fs path of
        None \<Rightarrow> (STATUS_OBJECT_NAME_NOT_FOUND, None)
      | Some contents \<Rightarrow>
          if \<not> NT_SUCCESS (sr_open env) then (sr_open env, None)
          else if \<not> NT_SUCCESS (sr_query env) then (sr_query env, None)
          else if length contents = 0 then (STATUS_SUCCESS, None)
          else if length contents > max_bytes then (STATUS_FILE_TOO_LARGE, None)
          else if \<not> sr_pool env then (STATUS_INSUFFICIENT_RESOURCES, None)
          else if \<not> NT_SUCCESS (sr_read env) then (sr_read env, None)
          else (STATUS_SUCCESS, Some contents))"

text \<open>
  What replacing a file meets: whether the temporary file opens (it is emptied then), the contents the write goes
  through before it is complete and whether it completes, the flush, and then the opening, the pool and the rename.
\<close>

record store_write_env =
  sw_create :: NTSTATUS
  sw_partial :: "bytes list"
  sw_write :: NTSTATUS
  sw_flush :: NTSTATUS
  sw_open :: NTSTATUS
  sw_pool :: bool
  sw_rename :: NTSTATUS

definition SarStoreWriteRaw :: "store_write_env \<Rightarrow> store_fs \<Rightarrow> store_path \<Rightarrow> bytes \<Rightarrow> NTSTATUS \<times> store_fs list" where
  "SarStoreWriteRaw env fs path buf =
     (if \<not> NT_SUCCESS (sw_create env) then (sw_create env, [fs])
      else
        let writing = map (\<lambda>x. fs(path \<mapsto> x)) ([] # sw_partial env)
        in if \<not> NT_SUCCESS (sw_write env) then (sw_write env, fs # writing)
           else (sw_flush env, fs # writing @ [fs(path \<mapsto> buf)]))"

definition SarStoreRename :: "store_write_env \<Rightarrow> store_fs \<Rightarrow> store_path \<Rightarrow> store_path \<Rightarrow> NTSTATUS \<times> store_fs list" where
  "SarStoreRename env fs tmp target =
     (case fs tmp of
        None \<Rightarrow> (STATUS_OBJECT_NAME_NOT_FOUND, [fs])
      | Some contents \<Rightarrow>
          if \<not> NT_SUCCESS (sw_open env) then (sw_open env, [fs])
          else if \<not> sw_pool env then (STATUS_INSUFFICIENT_RESOURCES, [fs])
          else if \<not> NT_SUCCESS (sw_rename env) then (sw_rename env, [fs])
          else (STATUS_SUCCESS, [fs, fs(tmp := None, target \<mapsto> contents)]))"

definition SarStoreWriteAtomic ::
  "store_write_env \<Rightarrow> store_fs \<Rightarrow> store_path \<Rightarrow> store_path \<Rightarrow> bytes \<Rightarrow> NTSTATUS \<times> store_fs list" where
  "SarStoreWriteAtomic env fs tmp target buf =
     (case SarStoreWriteRaw env fs tmp buf of (status, history) \<Rightarrow>
        if \<not> NT_SUCCESS status then (status, history)
        else case SarStoreRename env (last history) tmp target of (status, renamed) \<Rightarrow> (status, history @ renamed))"

section \<open>The contract of a replacement\<close>

text \<open>
  The target is replaced at once or not at all, the temporary file aside nothing else changes, and success means that
  the new contents are there.
\<close>

locale atomic_files =
  fixes write_atomic :: "'env \<Rightarrow> ('p \<Rightarrow> 'b option) \<Rightarrow> 'p \<Rightarrow> 'p \<Rightarrow> 'b \<Rightarrow> NTSTATUS \<times> ('p \<Rightarrow> 'b option) list"
  assumes history_nonempty: "write_atomic env fs tmp target b = (s, h) \<Longrightarrow> h \<noteq> []"
    and target_old_or_new: "write_atomic env fs tmp target b = (s, h) \<Longrightarrow> tmp \<noteq> target \<Longrightarrow> f \<in> set h \<Longrightarrow>
      f target = fs target \<or> f target = Some b"
    and others_kept: "write_atomic env fs tmp target b = (s, h) \<Longrightarrow> f \<in> set h \<Longrightarrow> p \<noteq> tmp \<Longrightarrow> p \<noteq> target \<Longrightarrow> f p = fs p"
    and status_says: "write_atomic env fs tmp target b = (s, h) \<Longrightarrow> tmp \<noteq> target \<Longrightarrow>
      last h target = (if s = STATUS_SUCCESS then Some b else fs target)"
begin

text \<open>
  A body is replaced, and only if that succeeded the anchor is. At every moment the pair is the old one, the new body
  with the old anchor, or the new pair: never a new anchor over an old body.
\<close>

definition commit_pair ::
  "'env \<Rightarrow> 'env \<Rightarrow> ('p \<Rightarrow> 'b option) \<Rightarrow> 'p \<times> 'p \<Rightarrow> 'b \<Rightarrow> 'p \<times> 'p \<Rightarrow> 'b \<Rightarrow> ('p \<Rightarrow> 'b option) list" where
  "commit_pair e1 e2 fs body b anchor a =
     (case write_atomic e1 fs (fst body) (snd body) b of (s, h) \<Rightarrow>
        if s \<noteq> STATUS_SUCCESS then h
        else h @ snd (write_atomic e2 (last h) (fst anchor) (snd anchor) a))"

lemma commit_pair_cases:
  assumes "f \<in> set (commit_pair e1 e2 fs body b anchor a)"
    and "distinct [fst body, snd body, fst anchor, snd anchor]"
  shows "f (snd body) = fs (snd body) \<and> f (snd anchor) = fs (snd anchor) \<or>
    f (snd body) = Some b \<and> (f (snd anchor) = fs (snd anchor) \<or> f (snd anchor) = Some a)"
proof -
  obtain s h where w: "write_atomic e1 fs (fst body) (snd body) b = (s, h)" by fastforce
  obtain s' h' where w': "write_atomic e2 (last h) (fst anchor) (snd anchor) a = (s', h')" by fastforce
  have h: "g (snd body) = fs (snd body) \<or> g (snd body) = Some b" "g (snd anchor) = fs (snd anchor)" if "g \<in> set h" for g
    using target_old_or_new [OF w _ that] others_kept [OF w that] assms(2) by auto
  consider "f \<in> set h" | "s = STATUS_SUCCESS" "f \<in> set h'"
    using assms(1) by (auto simp: commit_pair_def w w' split: if_splits)
  then show ?thesis
  proof cases
    case 1
    then show ?thesis using h by auto
  next
    case 2
    have "last h (snd body) = Some b" "last h (snd anchor) = fs (snd anchor)"
      using status_says [OF w] 2(1) assms(2) h(2) [OF last_in_set [OF history_nonempty [OF w]]] by auto
    then show ?thesis
      using target_old_or_new [OF w' _ 2(2)] others_kept [OF w' 2(2)] assms(2) by auto
  qed
qed

end

lemma SarStoreWriteRaw_cases:
  assumes "SarStoreWriteRaw env fs path buf = (s, h)"
  shows "h \<noteq> []" "f \<in> set h \<Longrightarrow> p \<noteq> path \<Longrightarrow> f p = fs p" "NT_SUCCESS s \<Longrightarrow> last h = fs(path \<mapsto> buf)"
  using assms by (auto simp: SarStoreWriteRaw_def Let_def split: if_splits)

lemma SarStoreRename_cases:
  assumes "SarStoreRename env fs tmp target = (s, h)"
  obtains "h = [fs]" "\<not> NT_SUCCESS s"
  | b where "fs tmp = Some b" "h = [fs, fs(tmp := None, target \<mapsto> b)]" "NT_SUCCESS s"
  using assms by (auto simp: SarStoreRename_def split: option.splits if_splits)

lemma SarStoreWriteAtomic_cases:
  assumes "SarStoreWriteAtomic env fs tmp target b = (s, h)" "tmp \<noteq> target"
  obtains (failed) "\<not> NT_SUCCESS s" "h \<noteq> []" "\<forall>f \<in> set h. \<forall>p. p \<noteq> tmp \<longrightarrow> f p = fs p"
  | (replaced) h' where "NT_SUCCESS s" "h = h' @ [fs(tmp := None, target \<mapsto> b)]" "\<forall>f \<in> set h'. \<forall>p. p \<noteq> tmp \<longrightarrow> f p = fs p"
proof -
  obtain s1 h1 where raw: "SarStoreWriteRaw env fs tmp b = (s1, h1)" by fastforce
  note r = SarStoreWriteRaw_cases [OF raw]
  show thesis
  proof (cases "NT_SUCCESS s1")
    case False
    then have "s = s1" "h = h1" using assms(1) raw by (auto simp: SarStoreWriteAtomic_def)
    then show ?thesis using False r by (intro failed) auto
  next
    case True
    obtain s2 h2 where ren: "SarStoreRename env (last h1) tmp target = (s2, h2)" by fastforce
    have sh: "s = s2" "h = h1 @ h2" using assms(1) raw ren True by (auto simp: SarStoreWriteAtomic_def)
    have l: "last h1 = fs(tmp \<mapsto> b)" using r(3) True .
    show ?thesis
      using ren
    proof (cases rule: SarStoreRename_cases)
      case 1
      then show ?thesis using sh l r by (intro failed) auto
    next
      case (2 b')
      then have "h = (h1 @ [fs(tmp \<mapsto> b)]) @ [fs(tmp := None, target \<mapsto> b)]" using sh l by simp
      then show ?thesis using 2(3) sh(1) r(2) by (intro replaced) auto
    qed
  qed
qed

interpretation store_files: atomic_files SarStoreWriteAtomic
proof
  show "h \<noteq> []" if "SarStoreWriteAtomic env fs tmp target b = (s, h)" for env fs tmp target b s h
    using that SarStoreWriteRaw_cases(1) [of env fs tmp b]
    by (auto simp: SarStoreWriteAtomic_def split: prod.splits if_splits)
  show "f target = fs target \<or> f target = Some b"
    if "SarStoreWriteAtomic env fs tmp target b = (s, h)" "tmp \<noteq> target" "f \<in> set h" for env fs tmp target b s h f
    using that(1,2) by (cases rule: SarStoreWriteAtomic_cases) (use that in auto)
  show "last h target = (if s = STATUS_SUCCESS then Some b else fs target)"
    if "SarStoreWriteAtomic env fs tmp target b = (s, h)" "tmp \<noteq> target" for env fs tmp target b s h
    using that by (cases rule: SarStoreWriteAtomic_cases) (auto simp: that(2) [symmetric])
  show "f p = fs p" if "SarStoreWriteAtomic env fs tmp target b = (s, h)" "f \<in> set h" "p \<noteq> tmp" "p \<noteq> target"
    for env fs tmp target b s h f p
  proof -
    obtain s1 h1 where raw: "SarStoreWriteRaw env fs tmp b = (s1, h1)" by fastforce
    obtain s2 h2 where ren: "SarStoreRename env (last h1) tmp target = (s2, h2)" by fastforce
    note r = SarStoreWriteRaw_cases [OF raw]
    have "f \<in> set h1 \<or> f \<in> set h2"
      using that(1,2) raw ren by (auto simp: SarStoreWriteAtomic_def split: if_splits)
    moreover have "last h1 p = fs p" using r(1,2) last_in_set that(3) by blast
    moreover have "f p = last h1 p" if "f \<in> set h2"
      using ren by (cases rule: SarStoreRename_cases) (use that \<open>p \<noteq> tmp\<close> \<open>p \<noteq> target\<close> in auto)
    ultimately show ?thesis
      using r(2) that(3) by auto
  qed
qed

end
