(* ===== verification/Keystore_Driver.thy ===== *)
theory Keystore_Driver
  imports Store_Io Keystore_Mgr
begin

text \<open>
  The driver's keystore, \<^verbatim>\<open>driver/keystore_persist.c\<close>: the ledger of captured keys in memory, its persistence by a
  background thread, and its loading at start. Randomness, the pool and the file operations answer through arguments;
  records captured while the thread writes are an argument of the persistence.

  The property is that the persistence is crash safe: stopped anywhere, the next load finds the ledger as it was before
  or as it was to be, and reports no tampering.
\<close>

section \<open>Definitions\<close>

definition SAR_KEYSTORE_CAPACITY :: u64 where "SAR_KEYSTORE_CAPACITY = 16384"
definition SAR_KS_MAX_FILE :: nat where "SAR_KS_MAX_FILE = 64 * 1024 * 1024"
definition SAR_MACKEY_MAGIC :: u32 where "SAR_MACKEY_MAGIC = 0x314B4D53"
definition SAR_MACKEY_VERSION :: u32 where "SAR_MACKEY_VERSION = 1"

datatype sar_ppl_class = SAR_PPL_NONE | SAR_PPL_AVAILABLE | SAR_PPL_ANTIMALWARE

record SAR_POSTURE =
  po_hvci_active :: bool
  po_vbs_active :: bool
  po_tpm20_present :: bool
  po_ppl_available :: sar_ppl_class
  po_dev_drive_supported :: bool
  po_dev_drive_attach_gap :: bool
  po_process_notify_ex2 :: bool
  po_bypass_io_negotiated :: bool
  po_keystore_persistent :: bool
  po_keystore_tamper_detected :: bool
  po_preserve_tamper_detected :: bool
  po_preserve_active :: bool
  po_phantom_active :: bool

record SAR_KEYSTORE =
  dk_records :: "keystore_record list"
  dk_record_capacity :: u64
  dk_mac_key :: bytes
  dk_have_key :: bool
  dk_generation :: u64
  dk_anchor :: keystore_anchor
  dk_ready :: bool
  dk_dirty :: bool
  dk_thread_started :: bool

definition anchor_none :: keystore_anchor where
  "anchor_none = \<lparr>ka_present = False, ka_generation = 0, ka_head_mac = replicate SEMANTICS_AR_MAC_SIZE 0\<rparr>"

text \<open>
  The blob beside the store: the MAC key and the anchor.
\<close>

record SAR_MACKEY_BLOB =
  mb_magic :: u32
  mb_version :: u32
  mb_mac_key :: bytes
  mb_anchor_present :: u8
  mb_anchor_generation :: u64
  mb_anchor_head_mac :: bytes

definition mackey_blob_size :: nat where "mackey_blob_size = 88"

definition mb_encode :: "SAR_MACKEY_BLOB \<Rightarrow> bytes" where
  "mb_encode b = le_store 4 (mb_magic b) @ le_store 4 (mb_version b) @ mb_mac_key b @ [mb_anchor_present b] @
     replicate 7 0 @ le_store 8 (mb_anchor_generation b) @ mb_anchor_head_mac b"

definition mb_decode :: "bytes \<Rightarrow> SAR_MACKEY_BLOB" where
  "mb_decode b =
     \<lparr>mb_magic = le_load (slice b 0 4), mb_version = le_load (slice b 4 4), mb_mac_key = slice b 8 32,
      mb_anchor_present = b ! 40, mb_anchor_generation = le_load (slice b 48 8), mb_anchor_head_mac = slice b 56 32\<rparr>"

definition SarKsFillBlob :: "bytes \<Rightarrow> keystore_anchor \<Rightarrow> SAR_MACKEY_BLOB" where
  "SarKsFillBlob mac_key anchor =
     \<lparr>mb_magic = SAR_MACKEY_MAGIC, mb_version = SAR_MACKEY_VERSION, mb_mac_key = take SEMANTICS_AR_MAC_SIZE mac_key,
      mb_anchor_present = (if ka_present anchor then 1 else 0), mb_anchor_generation = ka_generation anchor,
      mb_anchor_head_mac = take SEMANTICS_AR_MAC_SIZE (ka_head_mac anchor)\<rparr>"

text \<open>
  One run of the persistence: the records captured before the lock was taken the first time are written; those in
  \<open>late\<close> arrive while the files are written.
\<close>

definition SarKsPersist ::
  "bool \<Rightarrow> store_write_env \<Rightarrow> store_write_env \<Rightarrow> keystore_record list \<Rightarrow> SAR_KEYSTORE \<Rightarrow> store_fs \<Rightarrow>
   SAR_KEYSTORE \<times> store_fs list" where
  "SarKsPersist pool_ok env_store env_key late ks fs =
     (let c = word_of_nat (length (dk_records ks)) :: u64;
          need = sar_keystore_serialized_size c;
          grown = ks\<lparr>dk_records := dk_records ks @ late\<rparr>
      in if \<not> pool_ok then (grown\<lparr>dk_dirty := True\<rparr>, [fs])
         else case sar_ksm_persist (Some (dk_mac_key ks)) (dk_records grown) c (dk_generation ks) need of
           (SAR_KSM_OK, Some (buf, na)) \<Rightarrow>
             (case SarStoreWriteAtomic env_store fs SAR_KS_TMP SAR_KS_FILE buf of (s, h) \<Rightarrow>
                if \<not> NT_SUCCESS s then (grown\<lparr>dk_dirty := True\<rparr>, h)
                else
                  let ks' = grown\<lparr>dk_generation := ka_generation na, dk_anchor := na\<rparr>;
                      blob = mb_encode (SarKsFillBlob (dk_mac_key ks) na)
                  in case SarStoreWriteAtomic env_key (last h) SAR_KS_KEYTMP SAR_KS_KEYFILE blob of (s2, h2) \<Rightarrow>
                       (ks'\<lparr>dk_dirty := (if \<not> NT_SUCCESS s2 \<or> length (dk_records grown) > length (dk_records ks)
                          then True else dk_dirty ks)\<rparr>, h @ h2))
         | _ \<Rightarrow> (grown\<lparr>dk_dirty := True\<rparr>, [fs]))"

definition SarKeystoreCreate :: "bool \<Rightarrow> NTSTATUS \<times> SAR_KEYSTORE option" where
  "SarKeystoreCreate pool_ok =
     (if \<not> pool_ok then (STATUS_INSUFFICIENT_RESOURCES, None)
      else (STATUS_SUCCESS, Some
        \<lparr>dk_records = [], dk_record_capacity = SAR_KEYSTORE_CAPACITY,
         dk_mac_key = replicate SEMANTICS_AR_MAC_SIZE 0, dk_have_key = False, dk_generation = 0,
         dk_anchor = anchor_none, dk_ready = False, dk_dirty = False, dk_thread_started = False\<rparr>))"

record keystore_load_env =
  kle_read_key :: store_read_env
  kle_random :: "bytes option"
  kle_write_key :: store_write_env
  kle_read_store :: store_read_env
  kle_write_anchor :: store_write_env
  kle_thread_create :: bool
  kle_thread_reference :: bool

definition load_mackey :: "bytes option \<Rightarrow> SAR_KEYSTORE \<Rightarrow> SAR_KEYSTORE" where
  "load_mackey kbuf ks =
     (case kbuf of
        None \<Rightarrow> ks
      | Some k \<Rightarrow>
          if length k \<noteq> mackey_blob_size then ks
          else
            let b = mb_decode k
            in if mb_magic b = SAR_MACKEY_MAGIC \<and> mb_version b = SAR_MACKEY_VERSION then
                 ks\<lparr>dk_mac_key := mb_mac_key b,
                    dk_anchor := \<lparr>ka_present = (mb_anchor_present b \<noteq> 0), ka_generation = mb_anchor_generation b,
                      ka_head_mac = mb_anchor_head_mac b\<rparr>,
                    dk_have_key := True\<rparr>
               else ks)"

text \<open>
  The second half of the load, once there is a MAC key: the store is read and checked against the anchor. The outer
  \<^term>\<open>None\<close> is a read outside the buffer.
\<close>

definition load_ledger ::
  "keystore_load_env \<Rightarrow> bool \<Rightarrow> SAR_KEYSTORE \<Rightarrow> SAR_POSTURE \<Rightarrow> store_fs list \<Rightarrow>
   (SAR_KEYSTORE \<times> SAR_POSTURE \<times> store_fs list) option" where
  "load_ledger env persist_ok ks posture h =
     (let (status, fbuf) = SarStoreReadAll (kle_read_store env) (last h) SAR_KS_FILE SAR_KS_MAX_FILE;
          persist_ok = (if NT_SUCCESS status \<or> status = STATUS_OBJECT_NAME_NOT_FOUND then persist_ok else False);
          buf = (if NT_SUCCESS status then (case fbuf of None \<Rightarrow> [] | Some f \<Rightarrow> f) else []);
          anchor_generation = (if ka_present (dk_anchor ks) then ka_generation (dk_anchor ks) else 0)
      in case sar_ksm_load buf (Some (dk_mac_key ks))
            (if ka_present (dk_anchor ks) then Some (dk_anchor ks) else None) (dk_record_capacity ks) of
           None \<Rightarrow> None
         | Some res \<Rightarrow>
             let (ks, posture, h) =
               (if kl_status res = SAR_KSM_OK then
                  (ks\<lparr>dk_records := kl_records res, dk_generation := kl_generation res, dk_anchor := kl_anchor res\<rparr>, posture,
                   if kl_advanced res \<and> persist_ok
                   then h @ snd (SarStoreWriteAtomic (kle_write_anchor env) (last h) SAR_KS_KEYTMP SAR_KS_KEYFILE
                          (mb_encode (SarKsFillBlob (dk_mac_key ks) (kl_anchor res))))
                   else h)
                else if kl_status res = SAR_KSM_EMPTY then
                  (ks\<lparr>dk_records := [], dk_generation := anchor_generation\<rparr>, posture, h)
                else
                  (ks\<lparr>dk_records := [], dk_generation := anchor_generation\<rparr>,
                   posture\<lparr>po_keystore_tamper_detected := True\<rparr>, h));
                 ks = ks\<lparr>dk_ready := True\<rparr>
             in if persist_ok then
                  (if kle_thread_create env
                   then Some (ks\<lparr>dk_thread_started := kle_thread_reference env\<rparr>, posture\<lparr>po_keystore_persistent := True\<rparr>, h)
                   else Some (ks, posture\<lparr>po_keystore_persistent := False\<rparr>, h))
                else Some (ks, posture\<lparr>po_keystore_persistent := False\<rparr>, h))"

definition SarKeystoreLoad ::
  "keystore_load_env \<Rightarrow> SAR_KEYSTORE \<Rightarrow> SAR_POSTURE \<Rightarrow> store_fs \<Rightarrow> (SAR_KEYSTORE \<times> SAR_POSTURE \<times> store_fs list) option" where
  "SarKeystoreLoad env ks posture fs =
     (let (status, kbuf) = SarStoreReadAll (kle_read_key env) fs SAR_KS_KEYFILE SAR_KS_MAX_FILE;
          ks = load_mackey (if NT_SUCCESS status then kbuf else None) ks
      in if dk_have_key ks then load_ledger env True ks posture [fs]
         else case kle_random env of
           None \<Rightarrow> Some (ks, posture\<lparr>po_keystore_persistent := False\<rparr>, [fs])
         | Some key \<Rightarrow>
             let ks = ks\<lparr>dk_mac_key := key, dk_anchor := anchor_none, dk_have_key := True\<rparr>;
                 (s, h) = SarStoreWriteAtomic (kle_write_key env) fs SAR_KS_KEYTMP SAR_KS_KEYFILE
                   (mb_encode (SarKsFillBlob key anchor_none))
             in load_ledger env (NT_SUCCESS s) ks posture h)"

definition SarKeystoreReady :: "SAR_KEYSTORE option \<Rightarrow> bool" where
  "SarKeystoreReady keystore = (case keystore of None \<Rightarrow> False | Some ks \<Rightarrow> dk_ready ks)"

definition SarKeystoreAppend :: "SAR_KEYSTORE \<Rightarrow> SAR_STATE \<Rightarrow> keystore_record \<Rightarrow> int \<times> SAR_KEYSTORE \<times> SAR_STATE" where
  "SarKeystoreAppend ks st rec =
     (case sar_keystore_append (dk_records ks) (unat (dk_record_capacity ks)) rec of (rc, records) \<Rightarrow>
        if rc = 1 then (rc, ks\<lparr>dk_records := records, dk_dirty := True\<rparr>,
          st\<lparr>ss_captured_key_count := ss_captured_key_count st + 1\<rparr>)
        else (rc, ks\<lparr>dk_records := records\<rparr>, st))"

record catalog_entry =
  ce_key_id :: bytes
  ce_algorithm :: u32
  ce_mode :: u32
  ce_provenance_offset :: u64
  ce_provenance_path :: "u16 list"
  ce_capture_time :: u64
  ce_actor_start_key :: u64

definition SarKeystoreProject :: "SAR_KEYSTORE \<Rightarrow> u64 \<Rightarrow> catalog_entry option \<times> u64" where
  "SarKeystoreProject ks index =
     ((if unat index < length (dk_records ks) then
         let r = dk_records ks ! unat index
         in Some \<lparr>ce_key_id = kr_key_id r, ce_algorithm = kr_algorithm r, ce_mode = kr_mode r,
              ce_provenance_offset = kr_provenance_offset r, ce_provenance_path = kr_provenance_path r,
              ce_capture_time = kr_capture_time r, ce_actor_start_key = kr_actor_start_key r\<rparr>
       else None),
      word_of_nat (length (dk_records ks)))"

definition SarKeystoreRecordAt :: "SAR_KEYSTORE \<Rightarrow> u64 \<Rightarrow> keystore_record option \<times> u64" where
  "SarKeystoreRecordAt ks index =
     ((if unat index < length (dk_records ks) then Some (dk_records ks ! unat index) else None),
      word_of_nat (length (dk_records ks)))"

text \<open>
  One wake-up of the persistence thread.
\<close>

definition SarKsPersistThread_tick ::
  "bool \<Rightarrow> store_write_env \<Rightarrow> store_write_env \<Rightarrow> keystore_record list \<Rightarrow> SAR_KEYSTORE \<Rightarrow> store_fs \<Rightarrow>
   SAR_KEYSTORE \<times> store_fs list" where
  "SarKsPersistThread_tick pool_ok env_store env_key late ks fs =
     (if dk_dirty ks then SarKsPersist pool_ok env_store env_key late (ks\<lparr>dk_dirty := False\<rparr>) fs
      else (ks\<lparr>dk_records := dk_records ks @ late, dk_dirty := (late \<noteq> [])\<rparr>, [fs]))"

section \<open>Crash safety\<close>

lemma mb_decode_encode:
  assumes "length (mb_mac_key b) = 32" "length (mb_anchor_head_mac b) = 32"
  shows "mb_decode (mb_encode b) = b" "length (mb_encode b) = mackey_blob_size"
proof -
  show "mb_decode (mb_encode b) = b"
    using assms
    by (simp add: mb_decode_def mb_encode_def slice_append_left slice_append_right le_load_store nth_append slice_def)
  show "length (mb_encode b) = mackey_blob_size"
    using assms by (simp add: mb_encode_def mackey_blob_size_def)
qed

definition ledger_anchor :: "bytes \<Rightarrow> u64 \<Rightarrow> keystore_record list \<Rightarrow> keystore_anchor" where
  "ledger_anchor k g rs = \<lparr>ka_present = True, ka_generation = g, ka_head_mac = ks_head k ks_zero_mac rs\<rparr>"

definition mackey_file :: "bytes \<Rightarrow> keystore_anchor \<Rightarrow> bytes" where
  "mackey_file k a = mb_encode (SarKsFillBlob k a)"

text \<open>
  A ledger and its anchor on disk: a committed one, or the pair before the first commit.
\<close>

definition on_disk :: "bytes \<Rightarrow> u64 \<Rightarrow> keystore_record list \<Rightarrow> keystore_anchor \<Rightarrow> store_fs \<Rightarrow> bool" where
  "on_disk k g rs a fs \<longleftrightarrow> fs SAR_KS_KEYFILE = Some (mackey_file k a) \<and>
     (a = anchor_none \<and> g = 0 \<and> rs = [] \<and> fs SAR_KS_FILE = None \<or>
      a = ledger_anchor k g rs \<and> fs SAR_KS_FILE = Some (ks_image k g rs))"

definition ledger_fits :: "keystore_record list \<Rightarrow> bool" where
  "ledger_fits rs \<longleftrightarrow> list_all wf_ks_record rs \<and> length rs \<le> 16384"

definition reads_succeed :: "keystore_load_env \<Rightarrow> bool" where
  "reads_succeed env \<longleftrightarrow>
     (\<forall>r \<in> {kle_read_key env, kle_read_store env}.
        NT_SUCCESS (sr_open r) \<and> NT_SUCCESS (sr_query r) \<and> sr_pool r \<and> NT_SUCCESS (sr_read r))"

lemma read_all_ok:
  assumes "reads_succeed env" "r \<in> {kle_read_key env, kle_read_store env}" "fs p = Some b" "b \<noteq> []" "length b \<le> n"
  shows "SarStoreReadAll r fs p n = (STATUS_SUCCESS, Some b)"
  using assms by (auto simp: reads_succeed_def SarStoreReadAll_def)

lemma load_mackey_file:
  assumes "length k = 32" "length (ka_head_mac a) = 32"
  shows "load_mackey (Some (mackey_file k a)) ks = ks\<lparr>dk_mac_key := k, dk_anchor := a, dk_have_key := True\<rparr>"
    "length (mackey_file k a) = 88"
  using assms mb_decode_encode [of "SarKsFillBlob k a"]
  by (simp_all add: load_mackey_def mackey_file_def SarKsFillBlob_def sar_sizes Let_def) (simp add: mackey_blob_size_def)

lemma image_size:
  assumes "ledger_fits rs"
  shows "length (ks_image k g rs) \<le> SAR_KS_MAX_FILE" "ks_image k g rs \<noteq> []" "52 + length rs * 770 < 2 ^ 64"
    "word_of_nat (length rs) \<le> SAR_KEYSTORE_CAPACITY"
proof -
  have rs: "list_all wf_ks_record rs" "length rs \<le> 16384"
    using assms by (simp_all add: ledger_fits_def)
  show "length (ks_image k g rs) \<le> SAR_KS_MAX_FILE" "ks_image k g rs \<noteq> []"
    using length_ks_image [OF rs(1), of k g] rs(2) by (auto simp: SAR_KS_MAX_FILE_def)
  show "52 + length rs * 770 < 2 ^ 64" using rs(2) by simp
  show "word_of_nat (length rs) \<le> SAR_KEYSTORE_CAPACITY"
    using rs(2) by (simp add: SAR_KEYSTORE_CAPACITY_def word_le_nat_alt unat_u64_of_nat)
qed

definition loads_to :: "keystore_load_env \<Rightarrow> store_fs \<Rightarrow> bytes \<Rightarrow> keystore_record list \<Rightarrow> bool" where
  "loads_to env fs k rs \<longleftrightarrow> (\<forall>ks posture. SarKeystoreCreate True = (STATUS_SUCCESS, Some ks) \<longrightarrow>
     (\<exists>ks' posture' h. SarKeystoreLoad env ks posture fs = Some (ks', posture', h) \<and>
        dk_records ks' = rs \<and> dk_mac_key ks' = k \<and> dk_ready ks' \<and>
        po_keystore_tamper_detected posture' = po_keystore_tamper_detected posture))"

lemma loads_to_pair:
  assumes env: "reads_succeed env" and k: "length k = 32" and a: "length (ka_head_mac a) = 32"
    and key: "fs SAR_KS_KEYFILE = Some (mackey_file k a)"
    and store: "fs SAR_KS_FILE = None \<and> rs = [] \<and> \<not> ka_present a \<or>
      fs SAR_KS_FILE = Some (ks_image k g rs) \<and> ledger_fits rs \<and>
        (ka_present a \<longrightarrow> ka_generation a < g \<or> a = ledger_anchor k g rs)"
  shows "loads_to env fs k rs"
  unfolding loads_to_def
proof (intro allI impI)
  fix ks posture
  assume "SarKeystoreCreate True = (STATUS_SUCCESS, Some ks)"
  then have cap: "dk_record_capacity ks = SAR_KEYSTORE_CAPACITY"
    by (auto simp: SarKeystoreCreate_def)
  define ks1 where "ks1 = ks\<lparr>dk_mac_key := k, dk_anchor := a, dk_have_key := True\<rparr>"
  note mk = load_mackey_file [OF k a]
  have "mackey_file k a \<noteq> []" using mk(2) by auto
  then have "SarStoreReadAll (kle_read_key env) fs SAR_KS_KEYFILE SAR_KS_MAX_FILE = (STATUS_SUCCESS, Some (mackey_file k a))"
    using mk(2) by (intro read_all_ok [OF env]) (simp_all add: key SAR_KS_MAX_FILE_def)
  then have load: "SarKeystoreLoad env ks posture fs = load_ledger env True ks1 posture [fs]"
    by (simp add: SarKeystoreLoad_def mk(1) ks1_def Let_def)
  show "\<exists>ks' posture' h. SarKeystoreLoad env ks posture fs = Some (ks', posture', h) \<and>
      dk_records ks' = rs \<and> dk_mac_key ks' = k \<and> dk_ready ks' \<and>
      po_keystore_tamper_detected posture' = po_keystore_tamper_detected posture"
    using store
  proof (elim disjE conjE)
    assume "fs SAR_KS_FILE = None" "rs = []" "\<not> ka_present a"
    then show ?thesis
      by (simp add: load load_ledger_def ks1_def SarStoreReadAll_def sar_ksm_load_def ksm_fail_def ksm_reset_def Let_def)
  next
    assume im: "fs SAR_KS_FILE = Some (ks_image k g rs)" and rs: "ledger_fits rs"
      and old: "ka_present a \<longrightarrow> ka_generation a < g \<or> a = ledger_anchor k g rs"
    note size = image_size [OF rs]
    have read: "SarStoreReadAll (kle_read_store env) fs SAR_KS_FILE SAR_KS_MAX_FILE = (STATUS_SUCCESS, Some (ks_image k g rs))"
      using im size(1,2) by (intro read_all_ok [OF env]) simp_all
    define A where "A = (if ka_present a then Some a else None)"
    have "\<exists>adv. sar_ksm_load (ks_image k g rs) (Some k) A SAR_KEYSTORE_CAPACITY =
        Some \<lparr>kl_status = SAR_KSM_OK, kl_records = rs, kl_anchor = ledger_anchor k g rs, kl_generation = g, kl_advanced = adv\<rparr>"
      using sar_ksm_load_image [OF _ size(3,4), of k g A] rs old
      by (cases "ka_present a") (auto simp: A_def ledger_fits_def ledger_anchor_def Let_def)
    then obtain adv where ksm: "sar_ksm_load (ks_image k g rs) (Some k) A SAR_KEYSTORE_CAPACITY =
        Some \<lparr>kl_status = SAR_KSM_OK, kl_records = rs, kl_anchor = ledger_anchor k g rs, kl_generation = g, kl_advanced = adv\<rparr>"
      by blast
    have "(if ka_present (dk_anchor ks1) then Some (dk_anchor ks1) else None) = A" "dk_mac_key ks1 = k"
      "dk_record_capacity ks1 = SAR_KEYSTORE_CAPACITY"
      by (simp_all add: ks1_def A_def cap)
    then have "load_ledger env True ks1 posture [fs] = (let
        h = (if adv then [fs] @ snd (SarStoreWriteAtomic (kle_write_anchor env) fs SAR_KS_KEYTMP SAR_KS_KEYFILE
               (mb_encode (SarKsFillBlob k (ledger_anchor k g rs)))) else [fs]);
        ks2 = ks1\<lparr>dk_records := rs, dk_generation := g, dk_anchor := ledger_anchor k g rs, dk_ready := True\<rparr>
      in if kle_thread_create env
         then Some (ks2\<lparr>dk_thread_started := kle_thread_reference env\<rparr>, posture\<lparr>po_keystore_persistent := True\<rparr>, h)
         else Some (ks2, posture\<lparr>po_keystore_persistent := False\<rparr>, h))"
      unfolding load_ledger_def by (simp add: read ksm Let_def)
    then show ?thesis
      by (simp add: load ks1_def Let_def)
  qed
qed

lemma SarKsPersist_history:
  assumes "ledger_fits (dk_records ks)" "f \<in> set (snd (SarKsPersist pool_ok e1 e2 late ks fs))"
  shows "f \<in> set (store_files.commit_pair e1 e2 fs
      (SAR_KS_TMP, SAR_KS_FILE) (ks_image (dk_mac_key ks) (dk_generation ks + 1) (dk_records ks))
      (SAR_KS_KEYTMP, SAR_KS_KEYFILE)
      (mackey_file (dk_mac_key ks) (ledger_anchor (dk_mac_key ks) (dk_generation ks + 1) (dk_records ks)))) \<or> f = fs"
proof -
  let ?rs = "dk_records ks" and ?c = "word_of_nat (length (dk_records ks)) :: u64"
  have n: "unat ?c = length ?rs"
    using image_size(3) [OF assms(1)] by (intro unat_u64_of_nat) simp
  have "sar_ksm_persist (Some (dk_mac_key ks)) (?rs @ late) ?c (dk_generation ks) (sar_keystore_serialized_size ?c) =
      sar_ksm_persist (Some (dk_mac_key ks)) ?rs ?c (dk_generation ks) (sar_keystore_serialized_size ?c)"
    by (simp add: sar_ksm_persist_def sar_keystore_serialize_def n)
  also have "\<dots> = (SAR_KSM_OK, Some (ks_image (dk_mac_key ks) (dk_generation ks + 1) ?rs,
      ledger_anchor (dk_mac_key ks) (dk_generation ks + 1) ?rs))"
    using image_size(3) [OF assms(1)] by (simp add: sar_ksm_persist_image ledger_anchor_def)
  finally show ?thesis
    using assms(2)
    by (auto simp: SarKsPersist_def store_files.commit_pair_def mackey_file_def Let_def split: if_splits prod.splits)
qed

text \<open>
  C11: the persistence of the keystore is crash safe. Let the files hold a committed ledger and its anchor. Whatever the
  kernel calls answer, and whether the persistence is stopped at any moment of its two file replacements or runs to its
  end, the next load that can read the files comes back with the ledger committed before or with the ledger that was
  being written, under the same MAC key, and does not report tampering.
\<close>

theorem keystore_crash_safe:
  assumes "on_disk (dk_mac_key ks) (dk_generation ks) old a fs" "ledger_fits old" "ledger_fits (dk_records ks)"
    "length (dk_mac_key ks) = 32" "unat (dk_generation ks) + 1 < 2 ^ 64" "reads_succeed env"
    "crash \<in> set (snd (SarKsPersist pool_ok e1 e2 late ks fs))"
  shows "loads_to env crash (dk_mac_key ks) old \<or> loads_to env crash (dk_mac_key ks) (dk_records ks)"
proof -
  let ?k = "dk_mac_key ks" and ?g = "dk_generation ks" and ?rs = "dk_records ks"
  have lt: "?g < ?g + 1"
    using assms(5) by (simp add: word_less_nat_alt unat_word_ariths(1))
  have len: "length (ka_head_mac (ledger_anchor k g rs)) = 32" "length (ka_head_mac anchor_none) = 32" for k g rs
    by (simp_all add: ledger_anchor_def anchor_none_def ks_zero_mac_def sar_sizes)
  have a: "length (ka_head_mac a) = 32"
    using assms(1) len by (auto simp: on_disk_def)
  have old: "loads_to env f ?k old"
    if "f SAR_KS_FILE = fs SAR_KS_FILE" "f SAR_KS_KEYFILE = fs SAR_KS_KEYFILE" for f
    using assms(1,2) that
    by (intro loads_to_pair [OF assms(6,4) a, of f old ?g]) (auto simp: on_disk_def anchor_none_def)
  have new: "loads_to env f ?k ?rs" if "f SAR_KS_FILE = Some (ks_image ?k (?g + 1) ?rs)"
    "f SAR_KS_KEYFILE = fs SAR_KS_KEYFILE \<or> f SAR_KS_KEYFILE = Some (mackey_file ?k (ledger_anchor ?k (?g + 1) ?rs))" for f
    using that(2)
  proof
    assume "f SAR_KS_KEYFILE = fs SAR_KS_KEYFILE"
    then show ?thesis
      using assms(1,3) that(1) lt
      by (intro loads_to_pair [OF assms(6,4) a, of f ?rs "?g + 1"]) (auto simp: on_disk_def anchor_none_def ledger_anchor_def)
  next
    assume "f SAR_KS_KEYFILE = Some (mackey_file ?k (ledger_anchor ?k (?g + 1) ?rs))"
    then show ?thesis
      using assms(3) that(1)
      by (intro loads_to_pair [OF assms(6,4) len(1), where fs = f and rs = ?rs and g = "?g + 1"]) auto
  qed
  have "crash SAR_KS_FILE = fs SAR_KS_FILE \<and> crash SAR_KS_KEYFILE = fs SAR_KS_KEYFILE \<or>
      crash SAR_KS_FILE = Some (ks_image ?k (?g + 1) ?rs) \<and> (crash SAR_KS_KEYFILE = fs SAR_KS_KEYFILE \<or>
        crash SAR_KS_KEYFILE = Some (mackey_file ?k (ledger_anchor ?k (?g + 1) ?rs)))"
    using SarKsPersist_history [OF assms(3,7)] store_files.commit_pair_cases [of crash e1 e2 fs] by fastforce
  then show ?thesis
    using old new by blast
qed

definition ok_write :: store_write_env where
  "ok_write = \<lparr>sw_create = STATUS_SUCCESS, sw_partial = [[1], [1, 2]], sw_write = STATUS_SUCCESS, sw_flush = STATUS_SUCCESS,
     sw_open = STATUS_SUCCESS, sw_pool = True, sw_rename = STATUS_SUCCESS\<rparr>"

definition ok_read :: store_read_env where
  "ok_read = \<lparr>sr_open = STATUS_SUCCESS, sr_query = STATUS_SUCCESS, sr_pool = True, sr_read = STATUS_SUCCESS\<rparr>"

definition ok_load :: keystore_load_env where
  "ok_load = \<lparr>kle_read_key = ok_read, kle_random = None, kle_write_key = ok_write, kle_read_store = ok_read,
     kle_write_anchor = ok_write, kle_thread_create = True, kle_thread_reference = True\<rparr>"

definition crash_example_ks :: SAR_KEYSTORE where
  "crash_example_ks =
     \<lparr>dk_records = [ks_example_record], dk_record_capacity = SAR_KEYSTORE_CAPACITY, dk_mac_key = replicate 32 7,
      dk_have_key = True, dk_generation = 0, dk_anchor = anchor_none, dk_ready = True, dk_dirty = True,
      dk_thread_started = True\<rparr>"

definition crash_example_fs :: store_fs where
  "crash_example_fs = Map.empty(SAR_KS_KEYFILE \<mapsto> mackey_file (replicate 32 7) anchor_none)"

theorem keystore_crash_safe_witness:
  "\<exists>crash. crash \<in> set (snd (SarKsPersist True ok_write ok_write [] crash_example_ks crash_example_fs)) \<and>
     crash SAR_KS_TMP = Some [1, 2] \<and>
     (loads_to ok_load crash (replicate 32 7) [] \<or> loads_to ok_load crash (replicate 32 7) [ks_example_record])"
proof -
  let ?crash = "crash_example_fs(SAR_KS_TMP \<mapsto> [1, 2])"
  have fits: "ledger_fits [ks_example_record]" "ledger_fits []"
    by (simp_all add: ledger_fits_def wf_ks_record_def ks_example_record_def)
  have "sar_ksm_persist (Some (replicate 32 7)) [ks_example_record] 1 0 (sar_keystore_serialized_size 1) =
      (SAR_KSM_OK, Some (ks_image (replicate 32 7) 1 [ks_example_record], ledger_anchor (replicate 32 7) 1 [ks_example_record]))"
    using sar_ksm_persist_image [of "[ks_example_record]" "sar_keystore_serialized_size 1" "replicate 32 7" 0]
    by (simp add: ledger_anchor_def)
  then have crash: "?crash \<in> set (snd (SarKsPersist True ok_write ok_write [] crash_example_ks crash_example_fs))"
    by (simp add: SarKsPersist_def crash_example_ks_def SarStoreWriteAtomic_def SarStoreWriteRaw_def SarStoreRename_def
        ok_write_def Let_def)
  have "on_disk (replicate 32 7) 0 [] anchor_none crash_example_fs"
    by (simp add: on_disk_def crash_example_fs_def)
  then show ?thesis
    using keystore_crash_safe [of crash_example_ks "[]" anchor_none crash_example_fs ok_load ?crash True ok_write ok_write "[]"]
      crash fits
    by (intro exI [of _ ?crash]) (simp add: crash_example_ks_def reads_succeed_def ok_load_def ok_read_def)
qed

end
