(* ===== verification/Preserve_Driver.thy ===== *)
theory Preserve_Driver
  imports Preserve_Alloc Keystore_Driver
begin

text \<open>
  The driver's preserve store, \<^verbatim>\<open>driver/preserve.c\<close>: staging the bytes a write is about to destroy, restoring them,
  the quota, the quarantine links, and the persistence of the index. The payload file is a function from offsets to
  bytes; the cipher of the platform, its random numbers, the pool and the file operations answer through arguments.
\<close>

section \<open>Definitions\<close>

type_synonym payload_file = "nat \<Rightarrow> u8"

definition payload_write :: "payload_file \<Rightarrow> nat \<Rightarrow> bytes \<Rightarrow> payload_file" where
  "payload_write d off bs = (\<lambda>i. if off \<le> i \<and> i < off + length bs then bs ! (i - off) else d i)"

definition payload_read :: "payload_file \<Rightarrow> nat \<Rightarrow> nat \<Rightarrow> bytes" where
  "payload_read d off n = map d [off..<off + n]"

datatype SAR_STAGE_RESULT = SAR_STAGE_STORED | SAR_STAGE_ALREADY_COVERED | SAR_STAGE_DROPPED | SAR_STAGE_FAILED

definition SAR_PRESERVE_DEFAULT_RETENTION_100NS :: u64 where
  "SAR_PRESERVE_DEFAULT_RETENTION_100NS = 7 * 24 * 3600 * 10000000"

definition SAR_PRESERVE_DEFAULT_CAPACITY_BYTES :: u64 where
  "SAR_PRESERVE_DEFAULT_CAPACITY_BYTES = 10 * 1024 * 1024 * 1024"

definition SAR_PRESERVE_MAX_INDEX_FILE :: nat where
  "SAR_PRESERVE_MAX_INDEX_FILE = 256 * 1024 * 1024"

definition SAR_PRESKEY_MAGIC :: u32 where "SAR_PRESKEY_MAGIC = 0x4B455250"

definition SarPresRound16 :: "u64 \<Rightarrow> u64" where
  "SarPresRound16 v = (v + (SAR_PRESERVE_AES_BLOCK - 1)) AND NOT (SAR_PRESERVE_AES_BLOCK - 1)"

subsection \<open>Cipher and payload file\<close>

text \<open>
  What the platform's cipher answers: the pool, the key schedule, and the two directions under a key and an
  initialisation vector.
\<close>

record bcrypt_env =
  bx_pool :: bool
  bx_generate :: NTSTATUS
  bx_encrypt :: "bytes \<Rightarrow> bytes \<Rightarrow> bytes \<Rightarrow> bytes option"
  bx_decrypt :: "bytes \<Rightarrow> bytes \<Rightarrow> bytes \<Rightarrow> bytes option"

definition SarPresCrypt :: "bcrypt_env \<Rightarrow> SAR_PRESERVE \<Rightarrow> bool \<Rightarrow> bytes \<Rightarrow> bytes \<Rightarrow> NTSTATUS \<times> bytes" where
  "SarPresCrypt env p encrypt input iv =
     (if length input mod 16 \<noteq> 0 then (STATUS_INVALID_PARAMETER, [])
      else if \<not> bx_pool env then (STATUS_INSUFFICIENT_RESOURCES, [])
      else if \<not> NT_SUCCESS (bx_generate env) then (bx_generate env, [])
      else
        let iv_copy = take 16 iv;
            result = (if encrypt then bx_encrypt env (sp_store_key p) iv_copy input
                      else bx_decrypt env (sp_store_key p) iv_copy input)
        in case result of None \<Rightarrow> (STATUS_OTHER, []) | Some out \<Rightarrow> (STATUS_SUCCESS, out))"

text \<open>
  A write that fails may have left part of its bytes.
\<close>

definition SarPresDataWrite ::
  "NTSTATUS \<Rightarrow> bytes \<Rightarrow> SAR_PRESERVE \<Rightarrow> payload_file \<Rightarrow> u64 \<Rightarrow> bytes \<Rightarrow> NTSTATUS \<times> payload_file" where
  "SarPresDataWrite status torn p d offset buf =
     (if \<not> sp_data_handle p then (STATUS_DEVICE_NOT_READY, d)
      else if NT_SUCCESS status then (STATUS_SUCCESS, payload_write d (unat offset) buf)
      else (status, payload_write d (unat offset) (take (length buf) torn)))"

definition SarPresDataRead :: "NTSTATUS \<Rightarrow> SAR_PRESERVE \<Rightarrow> payload_file \<Rightarrow> u64 \<Rightarrow> nat \<Rightarrow> NTSTATUS \<times> bytes" where
  "SarPresDataRead status p d offset len =
     (if \<not> sp_data_handle p then (STATUS_DEVICE_NOT_READY, [])
      else if NT_SUCCESS status then (STATUS_SUCCESS, payload_read d (unat offset) len)
      else (status, []))"

subsection \<open>Staging\<close>

text \<open>
  What does not change while a range is staged, and what one turn of the loop meets.
\<close>

record stage_args =
  sa_mode :: u32
  sa_now :: u64
  sa_path :: "u16 list"
  sa_causing_path :: "u16 list"
  sa_offset :: u64
  sa_end :: u64
  sa_actor :: u64
  sa_plaintext :: bytes
  sa_against_reservation :: bool

record stage_env =
  se_iv :: "bytes option"
  se_ctbuf :: bool
  se_padbuf :: bool
  se_crypt :: bcrypt_env
  se_rebuild :: bool
  se_write :: NTSTATUS
  se_torn :: bytes

datatype stage_out =
    Stage_Break SAR_STAGE_RESULT SAR_PRESERVE payload_file
  | Stage_Next u64 SAR_PRESERVE payload_file

text \<open>
  Storing one gap, once the quota admits it: encrypt, allocate, write, and append the record.
\<close>

definition stage_store ::
  "stage_env \<Rightarrow> stage_args \<Rightarrow> u64 \<Rightarrow> u64 \<Rightarrow> u64 \<Rightarrow> SAR_PRESERVE \<Rightarrow> payload_file \<Rightarrow> stage_out" where
  "stage_store env a g_off g_len ct_len p d =
     (let ptoff = unat (ucast (g_off - sa_offset a) :: u32);
          n = unat (ucast ct_len :: u32)
      in case se_iv env of
           None \<Rightarrow> Stage_Break SAR_STAGE_FAILED p d
         | Some iv \<Rightarrow>
             if \<not> se_ctbuf env \<or> \<not> se_padbuf env then Stage_Break SAR_STAGE_FAILED p d
             else
               let padbuf = splice_at (replicate (unat ct_len) 0) 0 (slice (sa_plaintext a) ptoff (unat g_len))
               in case SarPresCrypt (se_crypt env) p True (take n padbuf) iv of (status, ctbuf) \<Rightarrow>
                    if \<not> NT_SUCCESS status then Stage_Break SAR_STAGE_FAILED p d
                    else case SarPresAlloc (se_rebuild env) p ct_len of (off, p) \<Rightarrow>
                      (case SarPresDataWrite (se_write env) (se_torn env) p d off (take n ctbuf) of (status, d) \<Rightarrow>
                         if \<not> NT_SUCCESS status then Stage_Break SAR_STAGE_FAILED (p\<lparr>sp_free_dirty := True\<rparr>) d
                         else
                           let rec = (sar_preserve_record_init (Some (sa_path a)) g_off g_len (sa_now a) off ct_len
                                 (sa_actor a) (Some iv) 16 (Some (drop ptoff (sa_plaintext a)))
                                 (ucast (ucast g_len :: u32)))\<lparr>pr_causing_image_path := sa_causing_path a\<rparr>;
                               (rc, records) = sar_preserve_append (sp_records p) (sp_record_capacity p) rec;
                               p = p\<lparr>sp_records := records, sp_dirty := (if rc = 1 then True else sp_dirty p)\<rparr>
                           in Stage_Next (g_off + g_len) p d))"

definition stage_step :: "stage_env \<Rightarrow> stage_args \<Rightarrow> u64 \<Rightarrow> SAR_PRESERVE \<Rightarrow> payload_file \<Rightarrow> stage_out" where
  "stage_step env a cursor p d =
     (case sar_preserve_first_gap (sp_records p) (sa_path a) cursor (sa_end a - cursor) of
        None \<Rightarrow> Stage_Break SAR_STAGE_ALREADY_COVERED p d
      | Some (g_off, g_len) \<Rightarrow>
          let ct_len = SarPresRound16 g_len
          in if ct_len > sp_capacity_bytes p then Stage_Break SAR_STAGE_DROPPED p d
             else
               let prot = sar_preserve_protected_bytes (sp_records p);
                   res = (if sa_against_reservation a then 0 else sp_reserved_bytes p)
               in if prot + ct_len > sp_capacity_bytes p then Stage_Break SAR_STAGE_DROPPED p d
                  else if sar_preserve_total_bytes (sp_records p) + res + ct_len > sp_capacity_bytes p \<and>
                      sa_mode a = SEMANTICS_AR_MODE_ENFORCE then Stage_Break SAR_STAGE_DROPPED p d
                  else
                    let p =
                      (if sar_preserve_total_bytes (sp_records p) + res + ct_len > sp_capacity_bytes p then
                         case sar_preserve_evict_probation_oldest (sp_records p) (sp_capacity_bytes p - prot - ct_len) of
                           (records, removed) \<Rightarrow>
                             p\<lparr>sp_records := records, sp_free_dirty := (if removed > 0 then True else sp_free_dirty p)\<rparr>
                       else p)
                    in if length (sp_records p) \<ge> sp_record_capacity p then Stage_Break SAR_STAGE_DROPPED p d
                       else stage_store env a g_off g_len ct_len p d)"

lemma stage_step_advances:
  assumes "stage_step env a cursor p d = Stage_Next cursor' p' d'" "cursor < sa_end a"
  shows "cursor < cursor' \<and> cursor' \<le> sa_end a"
proof -
  obtain g_off g_len where gap: "sar_preserve_first_gap (sp_records p) (sa_path a) cursor (sa_end a - cursor) = Some (g_off, g_len)"
    using assms(1) by (auto simp: stage_step_def split: option.splits)
  have "pres_gap_spec (sp_records p) (sa_path a) cursor (sa_end a) (Some (g_off, g_len))"
    using pres_gap_loop_spec [of "sp_records p" "sa_path a" cursor "sa_end a"] gap by (simp add: sar_preserve_first_gap_def)
  moreover have "cursor' = g_off + g_len"
    using assms(1) by (simp add: stage_step_def gap stage_store_def Let_def split: if_splits option.splits prod.splits)
  ultimately show ?thesis
    by (auto simp: pres_gap_spec_def)
qed

function stage_loop ::
  "(nat \<Rightarrow> stage_env) \<Rightarrow> stage_args \<Rightarrow> nat \<Rightarrow> bool \<Rightarrow> u64 \<Rightarrow> SAR_PRESERVE \<Rightarrow> payload_file \<Rightarrow>
   SAR_STAGE_RESULT \<times> bool \<times> SAR_PRESERVE \<times> payload_file" where
  "stage_loop env a k staged cursor p d =
     (if cursor < sa_end a then
        (case stage_step (env k) a cursor p d of
           Stage_Break result p d \<Rightarrow> (result, staged, p, d)
         | Stage_Next cursor p d \<Rightarrow> stage_loop env a (Suc k) True cursor p d)
      else (SAR_STAGE_ALREADY_COVERED, staged, p, d))"
  by pat_completeness auto

termination
proof (relation "measure (\<lambda>(env, a, k, staged, cursor, p, d). unat (sa_end a) - unat cursor)")
  fix env :: "nat \<Rightarrow> stage_env" and a k staged cursor p d cursor' p' d'
  assume "cursor < sa_end a" "stage_step (env k) a cursor p d = Stage_Next cursor' p' d'"
  then have "cursor < cursor'" "cursor' \<le> sa_end a"
    using stage_step_advances by blast+
  then show "((env, a, Suc k, True, cursor', p', d'), env, a, k, staged, cursor, p, d)
      \<in> measure (\<lambda>(env, a, k, staged, cursor, p, d). unat (sa_end a) - unat cursor)"
    by (simp add: word_less_nat_alt word_le_nat_alt)
qed simp

declare stage_loop.simps [simp del]

definition evict_aged :: "u64 \<Rightarrow> SAR_PRESERVE \<Rightarrow> SAR_PRESERVE \<times> u64" where
  "evict_aged now p =
     (case sar_preserve_evict_aged (sp_records p) now (sp_retention_100ns p) of (records, removed) \<Rightarrow>
        (p\<lparr>sp_records := records, sp_free_dirty := (if removed > 0 then True else sp_free_dirty p)\<rparr>, removed))"

definition SarPreserveReady :: "SAR_PRESERVE option \<Rightarrow> bool" where
  "SarPreserveReady preserve = (case preserve of None \<Rightarrow> False | Some p \<Rightarrow> sp_ready p)"

text \<open>
  The mode and the image of the causing process come from the driver's state.
\<close>

definition SarPreserveStage ::
  "(nat \<Rightarrow> stage_env) \<Rightarrow> u64 \<Rightarrow> SAR_STATE \<Rightarrow> SAR_PRESERVE option \<Rightarrow> payload_file \<Rightarrow> u16 list \<Rightarrow> u64 \<Rightarrow> u64 \<Rightarrow> u64 \<Rightarrow>
   bytes \<Rightarrow> u32 \<Rightarrow> bool \<Rightarrow> SAR_STAGE_RESULT \<times> SAR_PRESERVE option \<times> payload_file" where
  "SarPreserveStage env now st preserve d path offset len actor plaintext plaintext_len against_reservation =
     (case preserve of
        None \<Rightarrow> (SAR_STAGE_FAILED, None, d)
      | Some p \<Rightarrow>
          if \<not> sp_ready p then (SAR_STAGE_FAILED, Some p, d)
          else if plaintext_len = 0 \<or> len = 0 then (SAR_STAGE_STORED, Some p, d)
          else if ucast plaintext_len \<noteq> len then (SAR_STAGE_FAILED, Some p, d)
          else
            let a = \<lparr>sa_mode = SarStateModeGet st, sa_now = now, sa_path = path,
                     sa_causing_path = snd (SarStateImageByStartKey st actor), sa_offset = offset,
                     sa_end = offset + len, sa_actor = actor, sa_plaintext = plaintext,
                     sa_against_reservation = against_reservation\<rparr>;
                p = fst (evict_aged now p);
                (result, staged, p, d) = stage_loop env a 0 False offset p d
            in if result = SAR_STAGE_DROPPED \<or> result = SAR_STAGE_FAILED then (result, Some p, d)
               else (if staged then SAR_STAGE_STORED else SAR_STAGE_ALREADY_COVERED, Some p, d))"

definition SarPreserveStageLink ::
  "u64 \<Rightarrow> SAR_STATE \<Rightarrow> SAR_PRESERVE option \<Rightarrow> u16 list \<Rightarrow> u64 \<Rightarrow> u64 \<Rightarrow> u64 \<Rightarrow> NTSTATUS \<times> SAR_PRESERVE option" where
  "SarPreserveStageLink now st preserve path file_size actor link_id =
     (case preserve of
        None \<Rightarrow> (STATUS_DEVICE_NOT_READY, None)
      | Some p \<Rightarrow>
          if \<not> sp_ready p then (STATUS_DEVICE_NOT_READY, Some p)
          else if list_ex (\<lambda>r. pr_kind r = SAR_PRESERVE_KIND_NAMESPACE \<and> pr_provenance_offset r = 0 \<and>
              sar_pres_path_eq (pr_provenance_path r) path) (sp_records p)
          then (STATUS_OBJECT_NAME_COLLISION, Some p)
          else
            let p = fst (evict_aged now p)
            in if length (sp_records p) \<ge> sp_record_capacity p then (STATUS_INSUFFICIENT_RESOURCES, Some p)
               else
                 let rec = (sar_preserve_record_init (Some path) 0 file_size now link_id 0 actor None 0 None 0)
                       \<lparr>pr_kind := SAR_PRESERVE_KIND_NAMESPACE,
                        pr_causing_image_path := snd (SarStateImageByStartKey st actor)\<rparr>;
                     (rc, records) = sar_preserve_append (sp_records p) (sp_record_capacity p) rec
                 in (STATUS_SUCCESS, Some (p\<lparr>sp_records := records, sp_dirty := (if rc = 1 then True else sp_dirty p)\<rparr>)))"

subsection \<open>Quarantine links\<close>

definition SAR_Q_SUBDIR :: "u16 list" where
  "SAR_Q_SUBDIR = of_char CHR 0x5C # u16s ''SemanticsArQuarantine''"

fun vol_prefix_from :: "u16 list \<Rightarrow> nat \<Rightarrow> nat \<Rightarrow> nat" where
  "vol_prefix_from [] i slashes = 0"
| "vol_prefix_from (c # cs) i slashes =
     (if i \<ge> SEMANTICS_AR_PROVENANCE_PATH_MAX \<or> c = 0 then 0
      else if c = of_char CHR 0x5C then (if slashes + 1 = 3 then i else vol_prefix_from cs (i + 1) (slashes + 1))
      else vol_prefix_from cs (i + 1) slashes)"

definition SarPresVolPrefixChars :: "u16 list \<Rightarrow> nat" where
  "SarPresVolPrefixChars path = vol_prefix_from path 0 0"

definition hex_digit :: "u64 \<Rightarrow> u16" where
  "hex_digit n = u16s ''0123456789abcdef'' ! unat n"

definition SarPresHex64 :: "u64 \<Rightarrow> u16 list" where
  "SarPresHex64 v = fst (fold (\<lambda>i (out, v). (out[i := hex_digit (v AND 0xF)], drop_bit 4 v)) (rev [0..<16]) (replicate 16 0, v))"

definition SarPreserveQuarantinePaths :: "u16 list \<Rightarrow> u64 \<Rightarrow> nat \<Rightarrow> nat \<Rightarrow> (u16 list \<times> u16 list) option" where
  "SarPreserveQuarantinePaths path link_id dir_cap link_cap =
     (let vp = SarPresVolPrefixChars path;
          need_dir = vp + length SAR_Q_SUBDIR;
          need_link = need_dir + 1 + 16 + 2
      in if vp = 0 \<or> dir_cap \<le> need_dir \<or> link_cap \<le> need_link then None
         else
           let dir = take vp path @ SAR_Q_SUBDIR
           in Some (dir @ [0], dir @ [of_char CHR 0x5C] @ SarPresHex64 link_id @ [of_char CHR ''.'', of_char CHR ''q'', 0]))"

definition SarPreserveAllocLinkId :: "SAR_PRESERVE \<Rightarrow> u64 \<times> SAR_PRESERVE" where
  "SarPreserveAllocLinkId p = (sp_next_link_id p, p\<lparr>sp_next_link_id := sp_next_link_id p + 1\<rparr>)"

definition SarPresUnlinkQuarantine :: "u16 list \<Rightarrow> u64 \<Rightarrow> u16 list list" where
  "SarPresUnlinkQuarantine path link_id =
     (case SarPreserveQuarantinePaths path link_id 320 360 of None \<Rightarrow> [] | Some (dir, link) \<Rightarrow> [link])"

text \<open>
  The reaping of quarantine links: each turn removes the first record that matches and unlinks its file; the result is
  the store and the names unlinked.
\<close>

definition reap_match :: "bool \<Rightarrow> u64 \<Rightarrow> u64 \<Rightarrow> u16 list option \<Rightarrow> u64 \<Rightarrow> u64 \<Rightarrow> sar_preserve_record \<Rightarrow> bool" where
  "reap_match by_age now retention path key_off key_len r \<longleftrightarrow>
     pr_kind r = SAR_PRESERVE_KIND_NAMESPACE \<and>
     (if by_age then now > pr_capture_time r \<and> now - pr_capture_time r \<ge> retention
      else case path of
        None \<Rightarrow> False
      | Some q \<Rightarrow> sar_pres_path_eq (pr_provenance_path r) q \<and> key_off \<le> pr_provenance_offset r \<and>
          pr_provenance_offset r + pr_provenance_length r \<le> key_off + key_len)"

function reap_loop ::
  "(sar_preserve_record \<Rightarrow> bool) \<Rightarrow> sar_preserve_record list \<Rightarrow> u16 list list \<Rightarrow> sar_preserve_record list \<times> u16 list list" where
  "reap_loop matches records unlinked =
     (case find (\<lambda>i. matches (records ! i)) [0..<length records] of
        None \<Rightarrow> (records, unlinked)
      | Some i \<Rightarrow> reap_loop matches (pres_remove_at records i)
          (unlinked @ SarPresUnlinkQuarantine (pr_provenance_path (records ! i)) (pr_payload_offset (records ! i))))"
  by pat_completeness auto

termination
proof (relation "measure (\<lambda>(_, records, _). length records)")
  fix matches and records :: "sar_preserve_record list" and unlinked i
  assume "find (\<lambda>i. matches (records ! i)) [0..<length records] = Some i"
  then have "i < length records" by (auto simp: find_Some_iff)
  then show "((matches, pres_remove_at records i,
        unlinked @ SarPresUnlinkQuarantine (pr_provenance_path (records ! i)) (pr_payload_offset (records ! i))),
      matches, records, unlinked) \<in> measure (\<lambda>(_, records, _). length records)"
    by (simp add: length_pres_remove_at)
qed simp

declare reap_loop.simps [simp del]

definition SarPresReapNamespace ::
  "SAR_PRESERVE \<Rightarrow> bool \<Rightarrow> u64 \<Rightarrow> u64 \<Rightarrow> u16 list option \<Rightarrow> u64 \<Rightarrow> u64 \<Rightarrow> SAR_PRESERVE \<times> u16 list list" where
  "SarPresReapNamespace p by_age now retention path key_off key_len =
     (case reap_loop (reap_match by_age now retention path key_off key_len) (sp_records p) [] of (records, unlinked) \<Rightarrow>
        (p\<lparr>sp_records := records, sp_dirty := (if length records < length (sp_records p) then True else sp_dirty p)\<rparr>, unlinked))"

subsection \<open>Maintenance, promotion and reconciliation\<close>

definition SarPresMaintain :: "u64 \<Rightarrow> SAR_PRESERVE \<Rightarrow> SAR_PRESERVE \<times> u16 list list" where
  "SarPresMaintain now p =
     (let (p, unlinked) = SarPresReapNamespace p True now (sp_retention_100ns p) None 0 0;
          (p, removed) = evict_aged now p
      in (p\<lparr>sp_dirty := (if removed > 0 then True else sp_dirty p)\<rparr>, unlinked))"

definition SarPreservePromote :: "SAR_PRESERVE option \<Rightarrow> u64 \<Rightarrow> SAR_PRESERVE option" where
  "SarPreservePromote preserve actor =
     (case preserve of
        None \<Rightarrow> None
      | Some p \<Rightarrow>
          if \<not> sp_ready p then Some p
          else case sar_preserve_promote (sp_records p) actor of (records, promoted) \<Rightarrow>
            Some (p\<lparr>sp_records := records, sp_dirty := (if promoted > 0 then True else sp_dirty p)\<rparr>))"

definition SarPreserveReconcile ::
  "SAR_PRESERVE option \<Rightarrow> u16 list \<Rightarrow> u64 \<Rightarrow> u64 \<Rightarrow> SAR_PRESERVE option \<times> u16 list list" where
  "SarPreserveReconcile preserve path key_offset key_length =
     (case preserve of
        None \<Rightarrow> (None, [])
      | Some p \<Rightarrow>
          if \<not> sp_ready p then (Some p, [])
          else
            let (p, unlinked) = SarPresReapNamespace p False 0 0 (Some path) key_offset key_length;
                (records, removed) = sar_preserve_reconcile (sp_records p) path key_offset key_length
            in (Some (p\<lparr>sp_records := records, sp_free_dirty := (if removed > 0 then True else sp_free_dirty p),
                  sp_dirty := (if removed > 0 then True else sp_dirty p)\<rparr>), unlinked))"

definition SarPreserveRename :: "SAR_PRESERVE option \<Rightarrow> u16 list \<Rightarrow> u16 list \<Rightarrow> SAR_PRESERVE option" where
  "SarPreserveRename preserve old_path new_path =
     (case preserve of
        None \<Rightarrow> None
      | Some p \<Rightarrow>
          if \<not> sp_ready p then Some p
          else
            let (records, changed) = fold (\<lambda>i (rs, changed).
                  if sar_pres_path_eq (pr_provenance_path (rs ! i)) old_path
                  then (rs[i := (rs ! i)\<lparr>pr_provenance_path := take SEMANTICS_AR_PROVENANCE_PATH_MAX new_path\<rparr>], True)
                  else (rs, changed)) [0..<length (sp_records p)] (sp_records p, False)
            in Some (p\<lparr>sp_records := records, sp_dirty := (if changed then True else sp_dirty p)\<rparr>))"

subsection \<open>Quota\<close>

definition SarPreserveWouldExceed :: "SAR_PRESERVE option \<Rightarrow> u64 \<Rightarrow> bool" where
  "SarPreserveWouldExceed preserve incoming =
     (case preserve of
        None \<Rightarrow> False
      | Some p \<Rightarrow> sp_ready p \<and>
          sar_preserve_total_bytes (sp_records p) + sp_reserved_bytes p + incoming > sp_capacity_bytes p)"

definition SarPreserveReserve :: "SAR_PRESERVE option \<Rightarrow> u64 \<Rightarrow> bool \<times> SAR_PRESERVE option" where
  "SarPreserveReserve preserve n =
     (case preserve of
        None \<Rightarrow> (False, None)
      | Some p \<Rightarrow>
          if \<not> sp_ready p \<or> n = 0 then (False, Some p)
          else if sar_preserve_total_bytes (sp_records p) + sp_reserved_bytes p + n \<le> sp_capacity_bytes p
          then (True, Some (p\<lparr>sp_reserved_bytes := sp_reserved_bytes p + n\<rparr>))
          else (False, Some p))"

definition SarPreserveRelease :: "SAR_PRESERVE option \<Rightarrow> u64 \<Rightarrow> SAR_PRESERVE option" where
  "SarPreserveRelease preserve n =
     (case preserve of
        None \<Rightarrow> None
      | Some p \<Rightarrow>
          if \<not> sp_ready p \<or> n = 0 then Some p
          else if n \<ge> sp_reserved_bytes p then Some (p\<lparr>sp_reserved_bytes := 0\<rparr>)
          else Some (p\<lparr>sp_reserved_bytes := sp_reserved_bytes p - n\<rparr>))"

subsection \<open>Restoring\<close>

text \<open>
  Reading a quarantined file by its link is the file system's: from the link's name, the offset and the length it
  gives a status and the bytes read.
\<close>

record restore_env =
  re_link :: "u16 list \<Rightarrow> u64 \<Rightarrow> u32 \<Rightarrow> NTSTATUS \<times> bytes"
  re_pool :: bool
  re_read :: NTSTATUS
  re_crypt :: bcrypt_env

definition SarPresReadLink :: "restore_env \<Rightarrow> u16 list \<Rightarrow> u64 \<Rightarrow> u64 \<Rightarrow> u32 \<Rightarrow> NTSTATUS \<times> bytes" where
  "SarPresReadLink env path link_id offset len =
     (case SarPreserveQuarantinePaths path link_id 320 360 of
        None \<Rightarrow> (STATUS_OTHER, [])
      | Some (dir, link) \<Rightarrow>
          (case re_link env link offset len of (status, out) \<Rightarrow>
             if NT_SUCCESS status then (status, take (unat len) out) else (status, [])))"

definition SarPreserveRestore ::
  "restore_env \<Rightarrow> SAR_PRESERVE option \<Rightarrow> payload_file \<Rightarrow> u16 list \<Rightarrow> u64 \<Rightarrow> u64 \<Rightarrow> u32 \<Rightarrow> NTSTATUS \<times> bytes" where
  "SarPreserveRestore env preserve d path offset len out_cap =
     (case preserve of
        None \<Rightarrow> (STATUS_DEVICE_NOT_READY, [])
      | Some p \<Rightarrow>
          if \<not> sp_ready p then (STATUS_DEVICE_NOT_READY, [])
          else if len > ucast out_cap then (STATUS_BUFFER_TOO_SMALL, [])
          else case find (\<lambda>r. pr_provenance_offset r \<le> offset \<and>
              offset + len \<le> pr_provenance_offset r + pr_provenance_length r \<and>
              sar_pres_path_eq (pr_provenance_path r) path) (sp_records p) of
            None \<Rightarrow> (STATUS_NOT_FOUND, [])
          | Some rec \<Rightarrow>
              if pr_kind rec = SAR_PRESERVE_KIND_NAMESPACE
              then SarPresReadLink env path (pr_payload_offset rec) offset (ucast len)
              else if \<not> re_pool env then (STATUS_INSUFFICIENT_RESOURCES, [])
              else
                let n = unat (ucast (pr_payload_length rec) :: u32)
                in case SarPresDataRead (re_read env) p d (pr_payload_offset rec) n of (status, ctbuf) \<Rightarrow>
                     if \<not> NT_SUCCESS status then (status, [])
                     else case SarPresCrypt (re_crypt env) p False ctbuf (pr_iv rec) of (status, ptbuf) \<Rightarrow>
                       if \<not> NT_SUCCESS status then (status, [])
                       else case sar_preserve_verify_extract (Some rec) (Some path) offset len (Some ptbuf)
                           (pr_provenance_length rec) of
                         (SAR_PRES_OK, Some inner) \<Rightarrow> (STATUS_SUCCESS, slice ptbuf (unat inner) (unat len))
                       | _ \<Rightarrow> (STATUS_DATA_ERROR, []))"

subsection \<open>Listing\<close>

record preserve_entry =
  pn_provenance_path :: "u16 list"
  pn_provenance_offset :: u64
  pn_provenance_length :: u64
  pn_capture_time :: u64
  pn_payload_length :: u64
  pn_actor_start_key :: u64
  pn_state :: u32
  pn_causing_image_path :: "u16 list"

definition SarPreserveProject :: "SAR_PRESERVE \<Rightarrow> u64 \<Rightarrow> preserve_entry option \<times> u64" where
  "SarPreserveProject p index =
     ((if unat index < length (sp_records p) then
         let r = sp_records p ! unat index
         in Some \<lparr>pn_provenance_path = pr_provenance_path r, pn_provenance_offset = pr_provenance_offset r,
              pn_provenance_length = pr_provenance_length r, pn_capture_time = pr_capture_time r,
              pn_payload_length = pr_payload_length r, pn_actor_start_key = pr_actor_id r, pn_state = pr_state r,
              pn_causing_image_path = pr_causing_image_path r\<rparr>
       else None),
      word_of_nat (length (sp_records p)))"

record SAR_PRESERVE_STATS =
  st_capacity_bytes :: u64
  st_used_bytes :: u64
  st_retention_100ns :: u64
  st_oldest_protected_time :: u64
  st_protected_count :: u32
  st_probation_count :: u32

definition stats_step :: "sar_preserve_record \<Rightarrow> SAR_PRESERVE_STATS \<Rightarrow> SAR_PRESERVE_STATS" where
  "stats_step r s =
     (if pr_state r = SAR_PRESERVE_PROTECTED then
        s\<lparr>st_protected_count := st_protected_count s + 1,
          st_oldest_protected_time :=
            (if st_oldest_protected_time s = 0 \<or> pr_capture_time r < st_oldest_protected_time s
             then pr_capture_time r else st_oldest_protected_time s)\<rparr>
      else s\<lparr>st_probation_count := st_probation_count s + 1\<rparr>)"

definition SarPreserveStats :: "SAR_PRESERVE option \<Rightarrow> SAR_PRESERVE_STATS" where
  "SarPreserveStats preserve =
     (let zero = \<lparr>st_capacity_bytes = 0, st_used_bytes = 0, st_retention_100ns = 0, st_oldest_protected_time = 0,
                  st_protected_count = 0, st_probation_count = 0\<rparr>
      in case preserve of
           None \<Rightarrow> zero
         | Some p \<Rightarrow>
             if \<not> sp_ready p then zero
             else fold stats_step (sp_records p)
               (zero\<lparr>st_capacity_bytes := sp_capacity_bytes p, st_retention_100ns := sp_retention_100ns p,
                     st_used_bytes := sar_preserve_total_bytes (sp_records p)\<rparr>))"

subsection \<open>Persistence\<close>

record SAR_PRESKEY_BLOB =
  pb_magic :: u32
  pb_store_key :: bytes
  pb_mac_key :: bytes
  pb_anchor_present :: u8
  pb_anchor_generation :: u64
  pb_anchor_head_mac :: bytes
  pb_retention_100ns :: u64
  pb_capacity_bytes :: u64

definition preskey_blob_size :: nat where "preskey_blob_size = 132"

definition pb_encode :: "SAR_PRESKEY_BLOB \<Rightarrow> bytes" where
  "pb_encode b = le_store 4 (pb_magic b) @ pb_store_key b @ pb_mac_key b @ [pb_anchor_present b] @ replicate 7 0 @
     le_store 8 (pb_anchor_generation b) @ pb_anchor_head_mac b @ le_store 8 (pb_retention_100ns b) @
     le_store 8 (pb_capacity_bytes b)"

definition pb_decode :: "bytes \<Rightarrow> SAR_PRESKEY_BLOB" where
  "pb_decode b =
     \<lparr>pb_magic = le_load (slice b 0 4), pb_store_key = slice b 4 32, pb_mac_key = slice b 36 32,
      pb_anchor_present = b ! 68, pb_anchor_generation = le_load (slice b 76 8), pb_anchor_head_mac = slice b 84 32,
      pb_retention_100ns = le_load (slice b 116 8), pb_capacity_bytes = le_load (slice b 124 8)\<rparr>"

definition SarPresFillBlob :: "SAR_PRESERVE \<Rightarrow> SAR_PRESKEY_BLOB" where
  "SarPresFillBlob p =
     \<lparr>pb_magic = SAR_PRESKEY_MAGIC, pb_store_key = take SEMANTICS_AR_MAC_SIZE (sp_store_key p),
      pb_mac_key = take SEMANTICS_AR_MAC_SIZE (sp_mac_key p),
      pb_anchor_present = (if ka_present (sp_anchor p) then 1 else 0),
      pb_anchor_generation = ka_generation (sp_anchor p),
      pb_anchor_head_mac = take SEMANTICS_AR_MAC_SIZE (ka_head_mac (sp_anchor p)),
      pb_retention_100ns = sp_retention_100ns p, pb_capacity_bytes = sp_capacity_bytes p\<rparr>"

definition SarPresWriteBlob :: "store_write_env \<Rightarrow> SAR_PRESERVE \<Rightarrow> store_fs \<Rightarrow> NTSTATUS \<times> store_fs list" where
  "SarPresWriteBlob env p fs = SarStoreWriteAtomic env fs SAR_PRES_KEYTMP SAR_PRES_KEYFILE (pb_encode (SarPresFillBlob p))"

definition SarPresPersistIndex ::
  "bool \<Rightarrow> store_write_env \<Rightarrow> store_write_env \<Rightarrow> SAR_PRESERVE \<Rightarrow> store_fs \<Rightarrow> SAR_PRESERVE \<times> store_fs list" where
  "SarPresPersistIndex pool_ok env_index env_key p fs =
     (let c = word_of_nat (length (sp_records p)) :: u64;
          gen = sp_generation p + 1;
          need = sar_preserve_serialized_size c
      in if \<not> pool_ok then (p\<lparr>sp_dirty := True\<rparr>, [fs])
         else case sar_preserve_serialize (sp_mac_key p) (sp_records p) c gen need of (rc, out_len, buf) \<Rightarrow>
           if rc \<noteq> SAR_PRES_OK then (p\<lparr>sp_dirty := True\<rparr>, [fs])
           else case SarStoreWriteAtomic env_index fs SAR_PRES_INDEXTMP SAR_PRES_INDEX buf of (s, h) \<Rightarrow>
             if \<not> NT_SUCCESS s then (p\<lparr>sp_dirty := True\<rparr>, h)
             else
               let p = p\<lparr>sp_generation := gen,
                     sp_anchor := \<lparr>ka_present = True, ka_generation = gen, ka_head_mac = ph_head_mac (ph_decode buf)\<rparr>\<rparr>
               in (p, h @ snd (SarPresWriteBlob env_key p (last h))))"

definition SarPreserveSetBudget ::
  "store_write_env \<Rightarrow> SAR_PRESERVE option \<Rightarrow> store_fs \<Rightarrow> u64 \<Rightarrow> u64 \<Rightarrow> SAR_PRESERVE option \<times> store_fs list" where
  "SarPreserveSetBudget env preserve fs retention capacity =
     (case preserve of
        None \<Rightarrow> (None, [fs])
      | Some p \<Rightarrow>
          if retention = 0 \<or> capacity = 0 then (Some p, [fs])
          else
            let p = p\<lparr>sp_retention_100ns := retention, sp_capacity_bytes := capacity\<rparr>
            in (Some p, snd (SarPresWriteBlob env p fs)))"

definition SarPreserveCreate :: "bool \<Rightarrow> NTSTATUS \<Rightarrow> NTSTATUS \<times> SAR_PRESERVE option" where
  "SarPreserveCreate pool_ok cipher_status =
     (if \<not> pool_ok then (STATUS_INSUFFICIENT_RESOURCES, None)
      else if \<not> NT_SUCCESS cipher_status then (cipher_status, None)
      else (STATUS_SUCCESS, Some
        \<lparr>sp_records = [], sp_record_capacity = SAR_PRESERVE_RECORD_CAPACITY, sp_free_ext = [],
         sp_free_capacity = SAR_PRESERVE_RECORD_CAPACITY + 1, sp_data_high_water = 0, sp_free_dirty = False,
         sp_data_handle = False, sp_store_key = replicate SEMANTICS_AR_MAC_SIZE 0,
         sp_mac_key = replicate SEMANTICS_AR_MAC_SIZE 0, sp_have_key = False, sp_generation = 0,
         sp_anchor = anchor_none, sp_retention_100ns = SAR_PRESERVE_DEFAULT_RETENTION_100NS,
         sp_capacity_bytes = SAR_PRESERVE_DEFAULT_CAPACITY_BYTES, sp_reserved_bytes = 0, sp_ready = False,
         sp_dirty = False, sp_next_link_id = 1\<rparr>))"

record preserve_load_env =
  ple_read_key :: store_read_env
  ple_random :: "(bytes \<times> bytes) option"
  ple_write_key :: store_write_env
  ple_open_data :: NTSTATUS
  ple_read_index :: store_read_env
  ple_write_anchor :: store_write_env

definition load_preskey :: "bytes option \<Rightarrow> SAR_PRESERVE \<Rightarrow> SAR_PRESERVE" where
  "load_preskey kbuf p =
     (case kbuf of
        None \<Rightarrow> p
      | Some k \<Rightarrow>
          if length k \<noteq> preskey_blob_size then p
          else
            let b = pb_decode k
            in if pb_magic b = SAR_PRESKEY_MAGIC then
                 let p = p\<lparr>sp_store_key := pb_store_key b, sp_mac_key := pb_mac_key b,
                       sp_anchor := \<lparr>ka_present = (pb_anchor_present b \<noteq> 0), ka_generation = pb_anchor_generation b,
                         ka_head_mac = pb_anchor_head_mac b\<rparr>\<rparr>;
                     p = (if pb_capacity_bytes b \<noteq> 0 then p\<lparr>sp_retention_100ns := pb_retention_100ns b,
                            sp_capacity_bytes := pb_capacity_bytes b\<rparr> else p)
                 in p\<lparr>sp_have_key := True\<rparr>
               else p)"

definition link_id_after :: "sar_preserve_record list \<Rightarrow> u64 \<Rightarrow> u64" where
  "link_id_after records next = fold (\<lambda>r next.
     if pr_kind r = SAR_PRESERVE_KIND_NAMESPACE \<and> sint (pr_payload_offset r) \<ge> sint next
     then pr_payload_offset r + 1 else next) records next"

text \<open>
  The index is read when it is there and at least as long as its header. The outer \<^term>\<open>None\<close> is a read outside the
  buffer.
\<close>

definition load_index ::
  "preserve_load_env \<Rightarrow> SAR_PRESERVE \<Rightarrow> SAR_POSTURE \<Rightarrow> store_fs list \<Rightarrow> (SAR_PRESERVE \<times> SAR_POSTURE \<times> store_fs list) option" where
  "load_index env p posture h =
     (case SarStoreReadAll (ple_read_index env) (last h) SAR_PRES_INDEX SAR_PRESERVE_MAX_INDEX_FILE of
        (STATUS_SUCCESS, Some fbuf) \<Rightarrow>
          if length fbuf < pres_header_size then Some (p, posture, h)
          else
            (case sar_preserve_verify fbuf (sp_mac_key p) (if ka_present (sp_anchor p) then Some (sp_anchor p) else None) of
               None \<Rightarrow> None
             | Some (SAR_PRES_OK, cnt) \<Rightarrow>
                 let hdr = ph_decode fbuf;
                     count = min (unat (case cnt of Some c \<Rightarrow> c | None \<Rightarrow> 0)) (sp_record_capacity p);
                     records = map (\<lambda>i. pr_decode (slice fbuf (pres_header_size + i * pres_disk_size) pres_record_size)) [0..<count];
                     prior_present = ka_present (sp_anchor p);
                     prior_gen = (if prior_present then ka_generation (sp_anchor p) else 0);
                     p = p\<lparr>sp_records := records, sp_generation := ph_generation hdr,
                           sp_anchor := \<lparr>ka_present = True, ka_generation = ph_generation hdr, ka_head_mac = ph_head_mac hdr\<rparr>\<rparr>;
                     h = (if sp_have_key p \<and> (\<not> prior_present \<or> ph_generation hdr > prior_gen)
                          then h @ snd (SarPresWriteBlob (ple_write_anchor env) p (last h)) else h)
                 in Some (p\<lparr>sp_free_dirty := True, sp_next_link_id := link_id_after records (sp_next_link_id p)\<rparr>, posture, h)
             | Some (rc, cnt) \<Rightarrow>
                 Some (p\<lparr>sp_records := []\<rparr>,
                   (if rc = SAR_PRES_BAD_MAGIC \<or> rc = SAR_PRES_RECORD_MAC \<or> rc = SAR_PRES_ROLLBACK
                    then posture\<lparr>po_preserve_tamper_detected := True\<rparr> else posture), h))
      | _ \<Rightarrow> Some (p, posture, h))"

definition SarPreserveLoad ::
  "preserve_load_env \<Rightarrow> SAR_PRESERVE \<Rightarrow> SAR_POSTURE \<Rightarrow> store_fs \<Rightarrow> (SAR_PRESERVE \<times> SAR_POSTURE \<times> store_fs list) option" where
  "SarPreserveLoad env p posture fs =
     (let (status, kbuf) = SarStoreReadAll (ple_read_key env) fs SAR_PRES_KEYFILE preskey_blob_size;
          p = load_preskey (if NT_SUCCESS status then kbuf else None) p;
          started = (\<lambda>p h.
            if \<not> NT_SUCCESS (ple_open_data env) then Some (p, posture, h)
            else map_option (\<lambda>(p, posture, h). (p\<lparr>sp_ready := True\<rparr>, posture, h))
              (load_index env (p\<lparr>sp_data_handle := True\<rparr>) posture h))
      in if sp_have_key p then started p [fs]
         else case ple_random env of
           None \<Rightarrow> Some (p, posture, [fs])
         | Some (store_key, mac_key) \<Rightarrow>
             let p = p\<lparr>sp_store_key := store_key, sp_mac_key := mac_key, sp_have_key := True\<rparr>
             in started p (snd (SarPresWriteBlob (ple_write_key env) p fs)))"

text \<open>
  One wake-up of the persistence thread.
\<close>

definition SarPresPersistThread_tick ::
  "u64 \<Rightarrow> bool \<Rightarrow> store_write_env \<Rightarrow> store_write_env \<Rightarrow> SAR_PRESERVE \<Rightarrow> store_fs \<Rightarrow> SAR_PRESERVE \<times> u16 list list \<times> store_fs list" where
  "SarPresPersistThread_tick now pool_ok env_index env_key p fs =
     (let (p, unlinked) = SarPresMaintain now p
      in if sp_dirty p then
           (case SarPresPersistIndex pool_ok env_index env_key (p\<lparr>sp_dirty := False\<rparr>) fs of (p, h) \<Rightarrow> (p, unlinked, h))
         else (p, unlinked, [fs]))"

end
