(* ===== verification/Preserve_Stage.thy ===== *)
theory Preserve_Stage
  imports Preserve_Driver
begin

text \<open>
  What staging promises. An invariant says that the payloads of the records do not overlap in the payload file and that
  each decrypts to bytes with the recorded digest; with a free list that is current or can be rebuilt, staging keeps it on
  every outcome, and a restore under it returns the bytes that were staged. The platform's cipher enters through one law,
  that decryption undoes encryption.
\<close>

section \<open>Definitions\<close>

type_synonym decryptor = "bytes \<Rightarrow> bytes \<Rightarrow> bytes \<Rightarrow> bytes option"

definition cipher_law :: "decryptor \<Rightarrow> bcrypt_env \<Rightarrow> bool" where
  "cipher_law D c \<longleftrightarrow> (\<forall>key iv x y. bx_encrypt c key iv x = Some y \<longrightarrow> length y = length x \<and> D key iv y = Some x)"

text \<open>
  The record holds the bytes \<open>pt\<close>: its payload in the file decrypts to them, padded with zeros, and its digest is
  theirs.
\<close>

definition record_holds :: "decryptor \<Rightarrow> bytes \<Rightarrow> payload_file \<Rightarrow> sar_preserve_record \<Rightarrow> bytes \<Rightarrow> bool" where
  "record_holds D key d r pt \<longleftrightarrow>
     wf_pres_record r \<and> pres_nowrap (pr_provenance_offset r) (pr_provenance_length r) \<and>
     length pt = unat (pr_provenance_length r) \<and> pr_content_tag r = sha256_digest pt \<and>
     unat (pr_payload_length r) < 2 ^ 32 \<and> unat (pr_payload_length r) mod 16 = 0 \<and> length pt \<le> unat (pr_payload_length r) \<and>
     D key (take 16 (pr_iv r)) (payload_read d (unat (pr_payload_offset r)) (unat (pr_payload_length r))) =
       Some (pt @ replicate (unat (pr_payload_length r) - length pt) 0)"

definition store_ok :: "decryptor \<Rightarrow> SAR_PRESERVE \<Rightarrow> payload_file \<Rightarrow> bool" where
  "store_ok D p d \<longleftrightarrow> all_apart (map payload_of (sp_records p)) \<and>
     length (sp_records p) \<le> sp_record_capacity p \<and>
     (\<forall>r \<in> set (sp_records p). pr_kind r \<noteq> SAR_PRESERVE_KIND_NAMESPACE \<longrightarrow>
        (\<exists>pt. record_holds D (sp_store_key p) d r pt))"

text \<open>
  The allocator can serve the next request, and the payload file ends below \<open>bound\<close>.
\<close>

definition space_ok :: "bool \<Rightarrow> nat \<Rightarrow> SAR_PRESERVE \<Rightarrow> bool" where
  "space_ok rebuild bound p \<longleftrightarrow> alloc_ready rebuild p \<and> unat (sp_data_high_water p) \<le> bound \<and>
     (\<forall>r \<in> set (sp_records p). pe_end (payload_of r) \<le> bound)"

section \<open>The payload file\<close>

lemma payload_read_write: "payload_read (payload_write d off bs) off (length bs) = bs"
  by (rule nth_equalityI) (simp_all add: payload_read_def payload_write_def)

lemma payload_read_apart:
  assumes "{off..<off + length bs} \<inter> {o'..<o' + n} = {}"
  shows "payload_read (payload_write d off bs) o' n = payload_read d o' n"
proof (rule nth_equalityI)
  fix i assume "i < length (payload_read (payload_write d off bs) o' n)"
  then have "o' + i \<in> {o'..<o' + n}" by (simp add: payload_read_def)
  then have "o' + i \<notin> {off..<off + length bs}" using assms by blast
  then show "payload_read (payload_write d off bs) o' n ! i = payload_read d o' n ! i"
    using \<open>o' + i \<in> {o'..<o' + n}\<close> by (auto simp: payload_read_def payload_write_def)
qed (simp add: payload_read_def)

lemma record_holds_write:
  assumes "record_holds D key d r pt" "apart x (payload_of r)" "length bs \<le> unat (pe_len x)" "off = unat (pe_off x)"
  shows "record_holds D key (payload_write d off bs) r pt"
proof -
  have "{off..<off + length bs} \<inter> {unat (pr_payload_offset r)..<unat (pr_payload_offset r) + unat (pr_payload_length r)} = {}"
    using assms(2-4) by (auto simp: apart_def pe_range_def pe_end_def payload_of_def)
  then show ?thesis
    using assms(1) by (simp add: record_holds_def payload_read_apart)
qed

section \<open>Rounding\<close>

lemma mask_round16: "(w :: u64) AND NOT (mask 4) = w - w mod 16"
proof -
  have "w AND NOT (mask 4) = push_bit 4 (drop_bit 4 w)"
    by (rule bit_word_eqI) (auto simp: bit_simps)
  then have "(w AND NOT (mask 4)) + take_bit 4 w = w"
    by (simp only: bits_ident)
  then show ?thesis
    by (simp add: take_bit_eq_mod algebra_simps eq_diff_eq)
qed

lemma SarPresRound16_bounds:
  assumes "unat v < 2 ^ 60"
  shows "unat (SarPresRound16 v) mod 16 = 0" "unat v \<le> unat (SarPresRound16 v)" "unat (SarPresRound16 v) < unat v + 16"
proof -
  have s: "unat (v + 15) = unat v + 15"
    using assms by (simp add: unat_word_ariths(1))
  have "(v + 15) mod 16 \<le> v + 15"
    by (simp add: word_le_nat_alt unat_mod)
  then have le: "(v + 15) mod 16 \<le> v + 15" .
  have r: "unat (SarPresRound16 v) = unat v + 15 - (unat v + 15) mod 16"
  proof -
    have "SarPresRound16 v = (v + 15) AND NOT (mask 4)"
      by (simp add: SarPresRound16_def SAR_PRESERVE_AES_BLOCK_def mask_eq_exp_minus_1)
    then show ?thesis
      using le by (simp add: mask_round16 unat_sub unat_mod s)
  qed
  show "unat (SarPresRound16 v) mod 16 = 0"
    unfolding r by (simp add: minus_mod_eq_mult_div)
  show "unat v \<le> unat (SarPresRound16 v)" "unat (SarPresRound16 v) < unat v + 16"
    unfolding r using mod_less_divisor [of 16 "unat v + 15"] by linarith+
qed

section \<open>Allocation under the invariant\<close>

lemma rebuild_fold_bound:
  "fold (rebuild_step capacity) xs (free, prev) = (free', prev') \<Longrightarrow> unat prev \<le> bound \<Longrightarrow>
   \<forall>x \<in> set xs. pe_end x \<le> bound \<Longrightarrow> bound < 2 ^ 64 \<Longrightarrow> unat prev' \<le> bound"
proof (induction xs arbitrary: free prev)
  case Nil
  then show ?case by simp
next
  case (Cons x xs)
  have "unat (pe_off x + pe_len x) = pe_end x"
    using Cons.prems by (simp add: pe_end_def unat_word_ariths(1))
  then show ?case
    using Cons.prems Cons.IH [of _ "if pe_off x + pe_len x > prev then pe_off x + pe_len x else prev"]
    by (auto simp: rebuild_step_def split: if_splits)
qed

lemma rebuild_high_bound:
  assumes "unat (sp_data_high_water p) \<le> bound" "\<forall>r \<in> set (sp_records p). pe_end (payload_of r) \<le> bound" "bound < 2 ^ 64"
  shows "unat (sp_data_high_water (SarPresFreeRebuild rebuild p)) \<le> bound"
proof -
  let ?xs = "SarPresHeapSort (map (\<lambda>r. \<lparr>pe_off = pr_payload_offset r, pe_len = pr_payload_length r\<rparr>) (sp_records p))"
  have "set ?xs = payload_of ` set (sp_records p)"
    using SarPresHeapSort_spec [of "map payload_of (sp_records p)"]
    by (metis (no_types, lifting) list.set_map map_eq_conv mset_eq_setD payload_of_def)
  then have "\<forall>x \<in> set ?xs. pe_end x \<le> bound" using assms(2) by simp
  then have "unat high \<le> bound" if "fold (rebuild_step (sp_free_capacity p)) ?xs ([], 0) = (free, high)" for free high
    using rebuild_fold_bound [OF that _ _ assms(3)] by simp
  then show ?thesis
    using assms(1) by (simp add: SarPresFreeRebuild_def Let_def split: prod.split)
qed

lemma sp_store_key_alloc:
  "SarPresAlloc rebuild p len = (off, p') \<Longrightarrow> sp_store_key p' = sp_store_key p \<and> sp_record_capacity p' = sp_record_capacity p \<and>
   sp_data_handle p' = sp_data_handle p \<and> sp_ready p' = sp_ready p"
  by (auto simp: SarPresAlloc_def SarPresFreeRebuild_def Let_def split: if_splits option.splits prod.splits)

text \<open>
  After an allocation the new extent is apart from every payload, and the space is in order both for the records as
  they are and with a record for the new extent.
\<close>

lemma alloc_space:
  assumes space: "space_ok rebuild bound p" and a: "SarPresAlloc rebuild p len = (off, p')" and room: "bound + unat len < 2 ^ 64"
  defines "x \<equiv> \<lparr>pe_off = off, pe_len = len\<rparr>"
  shows "sp_records p' = sp_records p" "\<forall>r \<in> set (sp_records p). apart x (payload_of r)"
    "\<And>rebuild'. space_ok rebuild' (bound + unat len) (p'\<lparr>sp_free_dirty := True\<rparr>)"
    "\<And>rebuild' r b. payload_of r = x \<Longrightarrow> space_ok rebuild' (bound + unat len) (p'\<lparr>sp_records := sp_records p @ [r], sp_dirty := b\<rparr>)"
    "\<And>rebuild' b. space_ok rebuild' (bound + unat len) (p'\<lparr>sp_dirty := b\<rparr>)"
proof -
  define q where "q = (if sp_free_dirty p then SarPresFreeRebuild rebuild p else p)"
  have ready: "alloc_ready rebuild p" and high: "unat (sp_data_high_water p) \<le> bound"
    and ends: "\<forall>r \<in> set (sp_records p). pe_end (payload_of r) \<le> bound"
    using space by (simp_all add: space_ok_def)
  have qhigh: "unat (sp_data_high_water q) \<le> bound"
    using rebuild_high_bound [OF high ends] high room by (simp add: q_def)
  then have "unat (sp_data_high_water q) + unat len < 2 ^ 64" using room by simp
  note ok = SarPresAlloc_ok [OF ready a this [unfolded q_def], folded x_def]
  show recs: "sp_records p' = sp_records p" and "\<forall>r \<in> set (sp_records p). apart x (payload_of r)"
    by (fact ok(1,2))+
  have high': "unat (sp_data_high_water p') \<le> bound + unat len"
  proof -
    have "sp_data_high_water p' = sp_data_high_water q \<or> sp_data_high_water p' = sp_data_high_water q + len"
      using a by (auto simp: SarPresAlloc_alt q_def Let_def split: option.splits)
    then show ?thesis
      using qhigh room by (auto simp: unat_word_ariths(1))
  qed
  note facts = ok(3-5) high' recs ends
  show "space_ok rebuild' (bound + unat len) (p'\<lparr>sp_free_dirty := True\<rparr>)" for rebuild'
    using facts by (auto simp: space_ok_def alloc_ready_def alloc_ok_def)
  show "space_ok rebuild' (bound + unat len) (p'\<lparr>sp_dirty := b\<rparr>)" for rebuild' b
    using facts free_below_mset [of "sp_free_ext p'" _ "x # map payload_of (sp_records p)" "map payload_of (sp_records p)"]
    by (auto simp: space_ok_def alloc_ready_def alloc_ok_def)
  show "space_ok rebuild' (bound + unat len) (p'\<lparr>sp_records := sp_records p @ [r], sp_dirty := b\<rparr>)"
    if "payload_of r = x" for rebuild' r b
    using facts that
      free_below_mset [of "sp_free_ext p'" _ "x # map payload_of (sp_records p)" "map payload_of (sp_records p) @ [x]"]
    by (auto simp: space_ok_def alloc_ready_def alloc_ok_def)
qed

section \<open>Storing one gap\<close>

definition stage_wf :: "stage_args \<Rightarrow> bool" where
  "stage_wf a \<longleftrightarrow> length (sa_path a) = 260 \<and> copy_path 260 (sa_path a) = sa_path a \<and> length (sa_causing_path a) = 260 \<and>
     length (sa_plaintext a) < 2 ^ 31 \<and> unat (sa_offset a) + length (sa_plaintext a) < 2 ^ 63 \<and>
     unat (sa_end a) = unat (sa_offset a) + length (sa_plaintext a)"

definition env_wf :: "decryptor \<Rightarrow> stage_env \<Rightarrow> bool" where
  "env_wf D env \<longleftrightarrow> cipher_law D (se_crypt env) \<and> (\<forall>iv. se_iv env = Some iv \<longrightarrow> length iv = 16)"

definition original_bytes :: "stage_args \<Rightarrow> u64 \<Rightarrow> u64 \<Rightarrow> bytes" where
  "original_bytes a off len = slice (sa_plaintext a) (unat off - unat (sa_offset a)) (unat len)"

lemma ucast_u32_small: "unat (w :: u64) < 2 ^ 32 \<Longrightarrow> unat (ucast w :: u32) = unat w"
  by (simp add: unsigned_ucast_eq take_bit_nat_eq_self)

lemma all_apart_snoc: "all_apart (xs @ [x]) \<longleftrightarrow> all_apart xs \<and> (\<forall>y \<in> set xs. apart x y)"
  by (auto simp: all_apart_append apart_commute)

lemma store_ok_write:
  assumes "store_ok D p d" "\<forall>r \<in> set (sp_records p). apart x (payload_of r)" "length bs \<le> unat (pe_len x)"
    "sp_records q = sp_records p" "sp_store_key q = sp_store_key p" "sp_record_capacity q = sp_record_capacity p"
  shows "store_ok D q (payload_write d (unat (pe_off x)) bs)"
  using assms record_holds_write [of D "sp_store_key p" d _ _ x bs] by (fastforce simp: store_ok_def)

definition staged_record ::
  "stage_args \<Rightarrow> u64 \<Rightarrow> u64 \<Rightarrow> u64 \<Rightarrow> u64 \<Rightarrow> bytes \<Rightarrow> sar_preserve_record" where
  "staged_record a g_off g_len off ct_len iv =
     (sar_preserve_record_init (Some (sa_path a)) g_off g_len (sa_now a) off ct_len
        (sa_actor a) (Some iv) 16 (Some (drop (unat (ucast (g_off - sa_offset a) :: u32)) (sa_plaintext a)))
        (ucast (ucast g_len :: u32)))\<lparr>pr_causing_image_path := sa_causing_path a\<rparr>"

lemma staged_record_holds:
  assumes a: "stage_wf a" and off: "unat (sa_offset a) \<le> unat g_off" and gend: "unat g_off + unat g_len \<le> unat (sa_end a)"
    and iv: "length iv = 16" and ct: "ct_len = SarPresRound16 g_len" "length c = unat ct_len"
    and law: "D key iv c = Some (original_bytes a g_off g_len @ replicate (unat ct_len - unat g_len) 0)"
    and rec: "rec = staged_record a g_off g_len off ct_len iv"
  shows "record_holds D key (payload_write d (unat off) c) rec (original_bytes a g_off g_len)"
    "pr_provenance_path rec = sa_path a" "pr_provenance_offset rec = g_off" "pr_provenance_length rec = g_len"
    "pr_kind rec = SAR_PRESERVE_KIND_BYTERANGE" "payload_of rec = \<lparr>pe_off = off, pe_len = ct_len\<rparr>" "pr_actor_id rec = sa_actor a"
proof -
  have small: "unat g_len < 2 ^ 31" "unat g_off - unat (sa_offset a) < 2 ^ 31"
    using gend a off unfolding stage_wf_def by linarith+
  have sub: "unat (g_off - sa_offset a) = unat g_off - unat (sa_offset a)"
    using off by (simp add: unat_sub word_le_nat_alt)
  have casts: "unat (ucast (g_off - sa_offset a) :: u32) = unat g_off - unat (sa_offset a)"
    "(ucast (ucast g_len :: u32) :: u64) = g_len"
    using small sub
    by (simp_all add: ucast_u32_small word_unat_eq_iff unsigned_ucast_eq unsigned_take_bit_eq take_bit_nat_eq_self)
  note r16 = SarPresRound16_bounds [of g_len]
  have len: "length (original_bytes a g_off g_len) = unat g_len"
    using gend off a by (simp add: original_bytes_def slice_def stage_wf_def)
  have wf: "wf_pres_record rec"
    using a iv wf_sar_preserve_record_init [where iv = "Some iv" and ivl = 16]
    by (simp add: rec staged_record_def wf_pres_record_def stage_wf_def)
  have fields: "pr_provenance_offset rec = g_off" "pr_provenance_length rec = g_len" "pr_payload_offset rec = off"
    "pr_payload_length rec = ct_len" "pr_content_tag rec = sha256_digest (original_bytes a g_off g_len)"
    "take 16 (pr_iv rec) = iv"
    using iv by (simp_all add: rec staged_record_def sar_preserve_record_init_def Let_def casts
        sar_preserve_content_tag_digest original_bytes_def slice_def sar_memcpy_def sar_sizes)
  show "record_holds D key (payload_write d (unat off) c) rec (original_bytes a g_off g_len)"
    unfolding record_holds_def fields
    using wf len law r16 small gend a payload_read_write [of d "unat off" c]
    by (simp add: pres_nowrap_def stage_wf_def ct)
  show "pr_provenance_path rec = sa_path a" "pr_provenance_offset rec = g_off" "pr_provenance_length rec = g_len"
    "pr_kind rec = SAR_PRESERVE_KIND_BYTERANGE" "payload_of rec = \<lparr>pe_off = off, pe_len = ct_len\<rparr>" "pr_actor_id rec = sa_actor a"
    using a fields by (simp_all add: rec staged_record_def sar_preserve_record_init_def stage_wf_def payload_of_def
        SAR_PRESERVE_KIND_BYTERANGE_def sar_sizes Let_def)
qed

text \<open>
  What staging has done so far, relative to the records and the payloads it started from: every record is an old one that
  still holds what it held, or one of this request that holds the bytes the file had in its range.
\<close>

definition fresh_record :: "decryptor \<Rightarrow> bytes \<Rightarrow> stage_args \<Rightarrow> payload_file \<Rightarrow> sar_preserve_record \<Rightarrow> bool" where
  "fresh_record D key a d r \<longleftrightarrow> pr_provenance_path r = sa_path a \<and> pr_kind r = SAR_PRESERVE_KIND_BYTERANGE \<and>
     unat (sa_offset a) \<le> unat (pr_provenance_offset r) \<and>
     unat (pr_provenance_offset r) + unat (pr_provenance_length r) \<le> unat (sa_end a) \<and>
     record_holds D key d r (original_bytes a (pr_provenance_offset r) (pr_provenance_length r))"

definition stage_rel ::
  "decryptor \<Rightarrow> stage_args \<Rightarrow> bytes \<Rightarrow> sar_preserve_record list \<Rightarrow> payload_file \<Rightarrow> SAR_PRESERVE \<Rightarrow> payload_file \<Rightarrow> bool" where
  "stage_rel D a key rs0 d0 p d \<longleftrightarrow> store_ok D p d \<and> sp_store_key p = key \<and>
     (\<forall>r \<in> set (sp_records p).
        r \<in> set rs0 \<and> (\<forall>pt. record_holds D key d0 r pt \<longrightarrow> record_holds D key d r pt) \<or> fresh_record D key a d r)"

lemma stage_rel_write:
  assumes rel: "stage_rel D a key rs0 d0 p d" and x: "\<forall>r \<in> set (sp_records p). apart x (payload_of r)"
    and bs: "length bs \<le> unat (pe_len x)"
    and q: "sp_records q = sp_records p" "sp_store_key q = sp_store_key p" "sp_record_capacity q = sp_record_capacity p"
  shows "stage_rel D a key rs0 d0 q (payload_write d (unat (pe_off x)) bs)"
proof -
  have keep: "record_holds D key (payload_write d (unat (pe_off x)) bs) r pt"
    if "r \<in> set (sp_records p)" "record_holds D key d r pt" for r pt
    using record_holds_write [OF that(2) _ bs] x that(1) by simp
  have "store_ok D q (payload_write d (unat (pe_off x)) bs)"
    using store_ok_write [OF _ x bs] rel q by (simp add: stage_rel_def)
  then show ?thesis
    using rel q keep unfolding stage_rel_def fresh_record_def by (metis (no_types, lifting))
qed

lemma stage_rel_snoc:
  assumes rel: "stage_rel D a key rs0 d0 p d" and new: "fresh_record D key a d r"
    and x: "\<forall>s \<in> set (sp_records p). apart (payload_of r) (payload_of s)"
    and q: "sp_records q = sp_records p @ [r]" "sp_store_key q = sp_store_key p" "sp_record_capacity q = sp_record_capacity p"
    and room: "length (sp_records p) < sp_record_capacity p"
  shows "stage_rel D a key rs0 d0 q d"
  using assms by (auto simp: stage_rel_def store_ok_def all_apart_snoc fresh_record_def)

lemma all_apart_subseq: "subseq xs ys \<Longrightarrow> all_apart ys \<Longrightarrow> all_apart xs"
  by (induction rule: list_emb.induct) (auto simp: list_all_iff dest: list_emb_set)

lemma stage_rel_subseq:
  assumes rel: "stage_rel D a key rs0 d0 p d" and sub: "subseq (sp_records q) (sp_records p)"
    and q: "sp_store_key q = sp_store_key p" "sp_record_capacity q = sp_record_capacity p"
  shows "stage_rel D a key rs0 d0 q d"
proof -
  have "subseq (map payload_of (sp_records q)) (map payload_of (sp_records p))"
    using sub by (rule subseq_map)
  moreover have "set (sp_records q) \<subseteq> set (sp_records p)" "length (sp_records q) \<le> length (sp_records p)"
    using sub by (auto dest: list_emb_set list_emb_length)
  ultimately show ?thesis
    using rel q all_apart_subseq by (fastforce simp: stage_rel_def store_ok_def)
qed

lemma space_ok_subset:
  assumes "space_ok rebuild bound p" "set records \<subseteq> set (sp_records p)"
  shows "space_ok rebuild bound (p\<lparr>sp_records := records, sp_free_dirty := b \<or> sp_free_dirty p\<rparr>)"
  using assms free_below_mset [of "sp_free_ext p" _ "map payload_of (sp_records p)" "map payload_of records"]
    image_mono [OF assms(2), of payload_of]
  by (auto simp: space_ok_def alloc_ready_def alloc_ok_def)

lemma space_ok_mono: "space_ok rebuild bound p \<Longrightarrow> bound \<le> bound' \<Longrightarrow> space_ok True bound' p"
  by (fastforce simp: space_ok_def alloc_ready_def)

lemma payload_write_Nil [simp]: "payload_write d off [] = d"
  by (rule ext) (auto simp: payload_write_def)

lemma stage_store_cases:
  assumes wf: "stage_wf a" and env: "env_wf D env"
    and off: "unat (sa_offset a) \<le> unat g_off" and gend: "unat g_off + unat g_len \<le> unat (sa_end a)"
    and free: "\<not> sar_preserve_covered (sp_records p) (sa_path a) g_off g_len"
    and room: "length (sp_records p) < sp_record_capacity p" and ct: "ct_len = SarPresRound16 g_len"
  obtains (unstored) "stage_store env a g_off g_len ct_len p d = Stage_Break SAR_STAGE_FAILED p d"
  | (torn) off p1 bs where "SarPresAlloc (se_rebuild env) p ct_len = (off, p1)" "length bs \<le> unat ct_len"
      "stage_store env a g_off g_len ct_len p d =
         Stage_Break SAR_STAGE_FAILED (p1\<lparr>sp_free_dirty := True\<rparr>) (payload_write d (unat off) bs)"
  | (stored) off p1 iv c where "SarPresAlloc (se_rebuild env) p ct_len = (off, p1)" "length iv = 16" "length c = unat ct_len"
      "D (sp_store_key p) iv c = Some (original_bytes a g_off g_len @ replicate (unat ct_len - unat g_len) 0)"
      "stage_store env a g_off g_len ct_len p d =
         Stage_Next (g_off + g_len)
           (p1\<lparr>sp_records := sp_records p @ [staged_record a g_off g_len off ct_len iv], sp_dirty := True\<rparr>)
           (payload_write d (unat off) c)"
proof -
  have glen: "unat g_len < 2 ^ 31" and goff: "unat g_off - unat (sa_offset a) < 2 ^ 31"
    using gend off wf unfolding stage_wf_def by linarith+
  note r16 = SarPresRound16_bounds [of g_len, folded ct]
  have ctn: "unat (ucast ct_len :: u32) = unat ct_len" using r16 glen by (simp add: ucast_u32_small)
  have sub: "unat (ucast (g_off - sa_offset a) :: u32) = unat g_off - unat (sa_offset a)"
    using off goff by (subst ucast_u32_small) (simp_all add: unat_sub word_le_nat_alt)
  define P where "P = original_bytes a g_off g_len @ replicate (unat ct_len - unat g_len) 0"
  have len: "length (original_bytes a g_off g_len) = unat g_len"
    using gend off wf by (simp add: original_bytes_def slice_def stage_wf_def)
  have pad: "splice_at (replicate (unat ct_len) 0) 0 (slice (sa_plaintext a) (unat g_off - unat (sa_offset a)) (unat g_len)) = P"
    using len r16 glen by (simp add: splice_at_def original_bytes_def P_def)
  have padlen: "length P = unat ct_len" using len r16 glen by (simp add: P_def)
  have recp: "pr_provenance_path (staged_record a g_off g_len x ct_len iv) = sa_path a"
    "pr_provenance_offset (staged_record a g_off g_len x ct_len iv) = g_off"
    "pr_provenance_length (staged_record a g_off g_len x ct_len iv) = g_len" for x iv
    using wf by (simp_all add: staged_record_def sar_preserve_record_init_def stage_wf_def sar_sizes Let_def)
  obtain off p1 where alloc: "SarPresAlloc (se_rebuild env) p ct_len = (off, p1)" by fastforce
  have recs: "sp_records p1 = sp_records p" "sp_record_capacity p1 = sp_record_capacity p" "sp_data_handle p1 = sp_data_handle p"
    using alloc sp_store_key_alloc [OF alloc]
    by (auto simp: SarPresAlloc_def SarPresFreeRebuild_def Let_def split: if_splits option.splits prod.splits)
  have srec: "staged_record a g_off g_len x ct_len iv =
     (sar_preserve_record_init (Some (sa_path a)) g_off g_len (sa_now a) x ct_len
        (sa_actor a) (Some iv) 16 (Some (drop (unat g_off - unat (sa_offset a)) (sa_plaintext a)))
        (ucast (ucast g_len :: u32)))\<lparr>pr_causing_image_path := sa_causing_path a\<rparr>" for x iv
    by (simp only: staged_record_def sub)
  note store = stage_store_def [of env a g_off g_len ct_len p d, unfolded Let_def ctn sub pad, folded srec]
  show thesis
  proof (cases "\<exists>iv. se_iv env = Some iv \<and> se_ctbuf env \<and> se_padbuf env \<and> fst (SarPresCrypt (se_crypt env) p True P iv) = STATUS_SUCCESS")
    case False
    then have "stage_store env a g_off g_len ct_len p d = Stage_Break SAR_STAGE_FAILED p d"
      using padlen by (auto simp: store split: option.split prod.split)
    then show thesis by (rule unstored)
  next
    case True
    then obtain iv where iv: "se_iv env = Some iv" "se_ctbuf env" "se_padbuf env"
      "fst (SarPresCrypt (se_crypt env) p True P iv) = STATUS_SUCCESS" by blast
    then obtain c where c: "bx_encrypt (se_crypt env) (sp_store_key p) (take 16 iv) P = Some c"
      "SarPresCrypt (se_crypt env) p True P iv = (STATUS_SUCCESS, c)"
      by (auto simp: SarPresCrypt_def Let_def split: if_splits option.splits)
    have ivlen: "length iv = 16" and law: "length c = unat ct_len" "D (sp_store_key p) iv c = Some P"
      using env iv c(1) padlen by (auto simp: env_wf_def cipher_law_def)
    show thesis
    proof (cases "sp_data_handle p \<and> NT_SUCCESS (se_write env)")
      case True
      then show thesis
        using stored [OF alloc ivlen law [unfolded P_def]] iv c(2) law(1) padlen recs free room
        by (simp add: store alloc SarPresDataWrite_def sar_preserve_append_def recp)
    next
      case False
      then show thesis
        using torn [OF alloc, of "if sp_data_handle p then take (unat ct_len) (se_torn env) else []"] iv c(2) law(1) padlen recs
        by (simp add: store alloc SarPresDataWrite_def split: if_splits)
    qed
  qed
qed

lemma stage_store_spec:
  assumes rel: "stage_rel D a key rs0 d0 p d" and space: "space_ok (se_rebuild env) bound p"
    and wf: "stage_wf a" and env: "env_wf D env"
    and off: "unat (sa_offset a) \<le> unat g_off" and gend: "unat g_off + unat g_len \<le> unat (sa_end a)"
    and free: "\<not> sar_preserve_covered (sp_records p) (sa_path a) g_off g_len"
    and room: "length (sp_records p) < sp_record_capacity p" and ct: "ct_len = SarPresRound16 g_len"
    and bound: "bound + unat ct_len < 2 ^ 64"
  shows "stage_store env a g_off g_len ct_len p d = Stage_Break r p' d' \<Longrightarrow>
      r = SAR_STAGE_FAILED \<and> sp_records p' = sp_records p \<and> stage_rel D a key rs0 d0 p' d' \<and> space_ok True (bound + unat ct_len) p'"
    "stage_store env a g_off g_len ct_len p d = Stage_Next c p' d' \<Longrightarrow>
      c = g_off + g_len \<and> stage_rel D a key rs0 d0 p' d' \<and> (\<forall>rebuild. space_ok rebuild (bound + unat ct_len) p') \<and>
      (\<exists>r. sp_records p' = sp_records p @ [r] \<and> pr_provenance_path r = sa_path a \<and>
         pr_provenance_offset r = g_off \<and> pr_provenance_length r = g_len)"
proof -
  note cases = stage_store_cases [OF wf env off gend free room ct, of d]
  have key: "sp_store_key p = key" using rel by (simp add: stage_rel_def)
  show "r = SAR_STAGE_FAILED \<and> sp_records p' = sp_records p \<and> stage_rel D a key rs0 d0 p' d' \<and> space_ok True (bound + unat ct_len) p'"
    if out: "stage_store env a g_off g_len ct_len p d = Stage_Break r p' d'"
  proof (rule cases, goal_cases)
    case 1
    then show ?case using out rel space_ok_mono [OF space, of "bound + unat ct_len"] by simp
  next
    case (2 off p1 bs)
    note a = alloc_space [OF space 2(1) bound]
    have "stage_rel D a key rs0 d0 (p1\<lparr>sp_free_dirty := True\<rparr>) (payload_write d (unat off) bs)"
      using stage_rel_write [OF rel a(2), of bs "p1\<lparr>sp_free_dirty := True\<rparr>"] 2(2) a(1) sp_store_key_alloc [OF 2(1)] by simp
    then show ?case using out 2(3) a(1,3) by auto
  next
    case (3 off p1 iv c)
    then show ?case using out by simp
  qed
  show "c = g_off + g_len \<and> stage_rel D a key rs0 d0 p' d' \<and> (\<forall>rebuild. space_ok rebuild (bound + unat ct_len) p') \<and>
      (\<exists>r. sp_records p' = sp_records p @ [r] \<and> pr_provenance_path r = sa_path a \<and>
         pr_provenance_offset r = g_off \<and> pr_provenance_length r = g_len)"
    if out: "stage_store env a g_off g_len ct_len p d = Stage_Next c p' d'"
  proof (rule cases, goal_cases)
    case (3 off p1 iv ctx)
    define rec where "rec = staged_record a g_off g_len off ct_len iv"
    note a = alloc_space [OF space 3(1) bound]
    have holds: "record_holds D key (payload_write d (unat off) ctx) rec (original_bytes a g_off g_len)"
      "pr_provenance_path rec = sa_path a" "pr_provenance_offset rec = g_off" "pr_provenance_length rec = g_len"
      "pr_kind rec = SAR_PRESERVE_KIND_BYTERANGE" "payload_of rec = \<lparr>pe_off = off, pe_len = ct_len\<rparr>"
      by (rule staged_record_holds [where D = D and key = key, OF wf assms(5) gend 3(2) ct 3(3) 3(4) [unfolded key] rec_def])+
    have w: "stage_rel D a key rs0 d0 p1 (payload_write d (unat off) ctx)"
      using stage_rel_write [OF rel a(2), of ctx p1] 3(3) a(1) sp_store_key_alloc [OF 3(1)] by simp
    have "stage_rel D a key rs0 d0 (p1\<lparr>sp_records := sp_records p @ [rec], sp_dirty := True\<rparr>) (payload_write d (unat off) ctx)"
      using holds a(1,2) sp_store_key_alloc [OF 3(1)] room assms(5) gend
      by (intro stage_rel_snoc [OF w, of rec]) (simp_all add: fresh_record_def)
    then show ?case using out 3(5) a(4) holds by (auto simp: rec_def)
  qed (use out in simp_all)
qed

section \<open>One turn of the loop\<close>

definition stage_evicted :: "SAR_PRESERVE \<Rightarrow> SAR_PRESERVE \<Rightarrow> bool" where
  "stage_evicted p q \<longleftrightarrow> (\<exists>records b. subseq records (sp_records p) \<and>
     q = p\<lparr>sp_records := records, sp_free_dirty := b \<or> sp_free_dirty p\<rparr>)"

lemma stage_evicted_refl: "stage_evicted p p"
  unfolding stage_evicted_def by (rule exI [of _ "sp_records p"], rule exI [of _ False]) simp

lemma stage_evicted_intro:
  assumes "subseq records (sp_records p)"
  shows "stage_evicted p (p\<lparr>sp_records := records, sp_free_dirty := (if b then True else sp_free_dirty p)\<rparr>)"
  unfolding stage_evicted_def
  by (rule exI [of _ records], rule exI [of _ b]) (simp add: assms)

lemma stage_evicted_ok:
  assumes "stage_evicted p q"
  shows "stage_rel D a key rs0 d0 p d \<Longrightarrow> stage_rel D a key rs0 d0 q d"
    "space_ok rebuild bound p \<Longrightarrow> space_ok rebuild bound q" "set (sp_records q) \<subseteq> set (sp_records p)"
  using assms by (auto simp: stage_evicted_def intro!: stage_rel_subseq [of D a key rs0 d0 p d] space_ok_subset dest: list_emb_set)

lemma covered_subset:
  "set rs' \<subseteq> set rs \<Longrightarrow> \<not> sar_preserve_covered rs path off len \<Longrightarrow> \<not> sar_preserve_covered rs' path off len"
  by (auto simp: sar_preserve_covered_def list_ex_iff)

text \<open>
  A turn of the loop ends staging, or stores the first gap of what is left of the range, possibly after an eviction.
\<close>

lemma stage_step_cases:
  obtains (covered) "sar_preserve_first_gap (sp_records p) (sa_path a) cursor (sa_end a - cursor) = None"
      "stage_step env a cursor p d = Stage_Break SAR_STAGE_ALREADY_COVERED p d"
  | (dropped) q where "stage_evicted p q" "sa_mode a = SEMANTICS_AR_MODE_ENFORCE \<longrightarrow> q = p"
      "stage_step env a cursor p d = Stage_Break SAR_STAGE_DROPPED q d"
  | (store) g_off g_len q where "sar_preserve_first_gap (sp_records p) (sa_path a) cursor (sa_end a - cursor) = Some (g_off, g_len)"
      "stage_evicted p q" "sa_mode a = SEMANTICS_AR_MODE_ENFORCE \<longrightarrow> q = p" "length (sp_records q) < sp_record_capacity q"
      "stage_step env a cursor p d = stage_store env a g_off g_len (SarPresRound16 g_len) q d"
proof (cases "sar_preserve_first_gap (sp_records p) (sa_path a) cursor (sa_end a - cursor)")
  case None
  then show thesis by (intro covered) (simp_all add: stage_step_def)
next
  case (Some g)
  obtain g_off g_len where g: "g = (g_off, g_len)" by fastforce
  define prot where "prot = sar_preserve_protected_bytes (sp_records p)"
  define full where "full \<longleftrightarrow> sar_preserve_total_bytes (sp_records p) +
     (if sa_against_reservation a then 0 else sp_reserved_bytes p) + SarPresRound16 g_len > sp_capacity_bytes p"
  define q where "q = (if full then case sar_preserve_evict_probation_oldest (sp_records p)
      (sp_capacity_bytes p - prot - SarPresRound16 g_len) of (records, removed) \<Rightarrow>
        p\<lparr>sp_records := records, sp_free_dirty := (if removed > 0 then True else sp_free_dirty p)\<rparr> else p)"
  have ev: "stage_evicted p q"
    using pres_evict_loop_spec [of "sp_capacity_bytes p - prot - SarPresRound16 g_len" "sp_records p" 0]
    by (cases full)
      (simp_all add: q_def stage_evicted_refl sar_preserve_evict_probation_oldest_def pres_evict_spec_def stage_evicted_intro
        case_prod_beta)
  have step: "stage_step env a cursor p d =
     (if SarPresRound16 g_len > sp_capacity_bytes p \<or> prot + SarPresRound16 g_len > sp_capacity_bytes p \<or>
         full \<and> sa_mode a = SEMANTICS_AR_MODE_ENFORCE then Stage_Break SAR_STAGE_DROPPED p d
      else if length (sp_records q) \<ge> sp_record_capacity q then Stage_Break SAR_STAGE_DROPPED q d
      else stage_store env a g_off g_len (SarPresRound16 g_len) q d)"
    using ev by (auto simp: stage_step_def Some g Let_def prot_def full_def q_def split: prod.split)
  show thesis
    using dropped [of p] dropped [of q] store [of g_off g_len q] Some g ev step stage_evicted_refl [of p]
    by (cases "full \<and> sa_mode a = SEMANTICS_AR_MODE_ENFORCE") (auto simp: q_def split: if_splits)
qed

definition stage_outcome ::
  "decryptor \<Rightarrow> stage_args \<Rightarrow> bytes \<Rightarrow> sar_preserve_record list \<Rightarrow> payload_file \<Rightarrow> nat \<Rightarrow> SAR_PRESERVE \<Rightarrow> SAR_PRESERVE \<Rightarrow> payload_file \<Rightarrow> bool" where
  "stage_outcome D a key rs0 d0 bound p p' d' \<longleftrightarrow> stage_rel D a key rs0 d0 p' d' \<and> space_ok True bound p' \<and>
     (sa_mode a = SEMANTICS_AR_MODE_ENFORCE \<longrightarrow> prefix (sp_records p) (sp_records p'))"

lemma gap_bounds:
  assumes "sar_preserve_first_gap rs path cursor (hi - cursor) = Some (g_off, g_len)"
  shows "unat cursor \<le> unat g_off" "unat g_off + unat g_len \<le> unat hi" "0 < unat g_len"
    "unat (g_off + g_len) = unat g_off + unat g_len"
    "\<And>x. cursor \<le> x \<Longrightarrow> x < g_off \<Longrightarrow> pres_held rs path x" "\<not> sar_preserve_covered rs path g_off g_len"
proof -
  have spec: "pres_gap_spec rs path cursor hi (Some (g_off, g_len))"
    using pres_gap_loop_spec [of rs path cursor hi] assms by (simp add: sar_preserve_first_gap_def)
  then have "g_off < g_off + g_len" by (simp add: pres_gap_spec_def)
  then have sum: "unat (g_off + g_len) = unat g_off + unat g_len"
    by (metis less_imp_le unat_plus_simple)
  then show "unat (g_off + g_len) = unat g_off + unat g_len" .
  show "unat cursor \<le> unat g_off" "unat g_off + unat g_len \<le> unat hi" "0 < unat g_len"
    using spec sum by (auto simp: pres_gap_spec_def word_le_nat_alt word_less_nat_alt)
  show "pres_held rs path x" if "cursor \<le> x" "x < g_off" for x
    using spec that by (auto simp: pres_gap_spec_def)
  show "\<not> sar_preserve_covered rs path g_off g_len"
    using assms by (rule pres_gap_not_covered)
qed

definition stage_advanced ::
  "decryptor \<Rightarrow> stage_args \<Rightarrow> bytes \<Rightarrow> sar_preserve_record list \<Rightarrow> payload_file \<Rightarrow> nat \<Rightarrow> u64 \<Rightarrow> SAR_PRESERVE \<Rightarrow> u64 \<Rightarrow> SAR_PRESERVE \<Rightarrow> payload_file \<Rightarrow> bool" where
  "stage_advanced D a key rs0 d0 bound cursor p c p' d' \<longleftrightarrow>
     stage_outcome D a key rs0 d0 (bound + 16 * (unat c - unat cursor)) p p' d' \<and>
     (\<forall>rebuild. space_ok rebuild (bound + 16 * (unat c - unat cursor)) p') \<and>
     (sa_mode a = SEMANTICS_AR_MODE_ENFORCE \<longrightarrow> (\<forall>x. cursor \<le> x \<and> x < c \<longrightarrow> pres_held (sp_records p') (sa_path a) x))"

lemma stage_step_store:
  assumes rel: "stage_rel D a key rs0 d0 p d" and space: "space_ok (se_rebuild env) bound p"
    and wf: "stage_wf a" and env: "env_wf D env"
    and cur: "unat (sa_offset a) \<le> unat cursor" and room: "bound + 16 * (unat (sa_end a) - unat cursor) < 2 ^ 64"
    and gap: "sar_preserve_first_gap (sp_records p) (sa_path a) cursor (sa_end a - cursor) = Some (g_off, g_len)"
    and ev: "stage_evicted p q" "sa_mode a = SEMANTICS_AR_MODE_ENFORCE \<longrightarrow> q = p" and cap: "length (sp_records q) < sp_record_capacity q"
  shows "stage_store env a g_off g_len (SarPresRound16 g_len) q d = Stage_Break r p' d' \<Longrightarrow>
      stage_outcome D a key rs0 d0 (bound + 16 * (unat (sa_end a) - unat cursor)) p p' d' \<and> r = SAR_STAGE_FAILED"
    "stage_store env a g_off g_len (SarPresRound16 g_len) q d = Stage_Next c p' d' \<Longrightarrow>
      stage_advanced D a key rs0 d0 bound cursor p c p' d'"
proof -
  note g = gap_bounds [OF gap]
  have off: "unat (sa_offset a) \<le> unat g_off" using cur g(1) by simp
  have glen: "unat g_len < 2 ^ 31" using off g(2) wf unfolding stage_wf_def by linarith
  then have ct: "unat (SarPresRound16 g_len) \<le> 16 * unat g_len" using SarPresRound16_bounds [of g_len] g(3) by simp
  have b1: "unat (SarPresRound16 g_len) \<le> 16 * (unat (sa_end a) - unat cursor)"
    and b2: "unat (SarPresRound16 g_len) \<le> 16 * (unat (g_off + g_len) - unat cursor)"
    using ct g(1,2,4) by linarith+
  have b3: "bound + unat (SarPresRound16 g_len) < 2 ^ 64" using b1 room by linarith
  have free: "\<not> sar_preserve_covered (sp_records q) (sa_path a) g_off g_len"
    using covered_subset [OF stage_evicted_ok(3) [OF ev(1)] g(6)] .
  note spec = stage_store_spec [OF stage_evicted_ok(1) [OF ev(1) rel] stage_evicted_ok(2) [OF ev(1) space] wf env off g(2) free cap refl b3]
  show "stage_outcome D a key rs0 d0 (bound + 16 * (unat (sa_end a) - unat cursor)) p p' d' \<and> r = SAR_STAGE_FAILED"
    if "stage_store env a g_off g_len (SarPresRound16 g_len) q d = Stage_Break r p' d'"
    using spec(1) [OF that] ev(2) space_ok_mono [of True _ p' "bound + 16 * (unat (sa_end a) - unat cursor)"] b1
    by (auto simp: stage_outcome_def)
  show "stage_advanced D a key rs0 d0 bound cursor p c p' d'"
    if nxt: "stage_store env a g_off g_len (SarPresRound16 g_len) q d = Stage_Next c p' d'"
  proof -
    obtain s where s: "sp_records p' = sp_records q @ [s]" "pr_provenance_path s = sa_path a"
      "pr_provenance_offset s = g_off" "pr_provenance_length s = g_len" and c: "c = g_off + g_len"
      and rest: "stage_rel D a key rs0 d0 p' d'" "\<forall>rebuild. space_ok rebuild (bound + unat (SarPresRound16 g_len)) p'"
      using spec(2) [OF nxt] by blast
    have "space_ok rebuild (bound + 16 * (unat c - unat cursor)) p'" for rebuild
      using rest(2) b2 c by (fastforce simp: space_ok_def)
    moreover have "pres_held (sp_records p') (sa_path a) x" if "q = p" "cursor \<le> x" "x < c" for x
    proof (cases "x < g_off")
      case True
      then show ?thesis using g(5) [OF that(2)] that(1) s(1) by simp
    next
      case False
      then show ?thesis
        using s c wf that(3) by (simp add: pres_held_def pres_holds_def stage_wf_def not_less)
    qed
    ultimately show ?thesis
      using rest(1) s(1) ev(2) by (auto simp: stage_advanced_def stage_outcome_def)
  qed
qed

lemma stage_step_spec:
  assumes rel: "stage_rel D a key rs0 d0 p d" and space: "space_ok (se_rebuild env) bound p"
    and wf: "stage_wf a" and env: "env_wf D env"
    and cur: "unat (sa_offset a) \<le> unat cursor" and room: "bound + 16 * (unat (sa_end a) - unat cursor) < 2 ^ 64"
  shows "stage_step env a cursor p d = Stage_Break r p' d' \<Longrightarrow>
      stage_outcome D a key rs0 d0 (bound + 16 * (unat (sa_end a) - unat cursor)) p p' d' \<and> r \<noteq> SAR_STAGE_STORED \<and>
      (r = SAR_STAGE_ALREADY_COVERED \<longrightarrow> (\<forall>x. cursor \<le> x \<and> x < sa_end a \<longrightarrow> pres_held (sp_records p') (sa_path a) x))"
    "stage_step env a cursor p d = Stage_Next c p' d' \<Longrightarrow> stage_advanced D a key rs0 d0 bound cursor p c p' d'"
proof -
  have sp: "space_ok True (bound + 16 * (unat (sa_end a) - unat cursor)) p"
    using space_ok_mono [OF space] by simp
  note store = stage_step_store [OF assms]
  show "stage_outcome D a key rs0 d0 (bound + 16 * (unat (sa_end a) - unat cursor)) p p' d' \<and> r \<noteq> SAR_STAGE_STORED \<and>
      (r = SAR_STAGE_ALREADY_COVERED \<longrightarrow> (\<forall>x. cursor \<le> x \<and> x < sa_end a \<longrightarrow> pres_held (sp_records p') (sa_path a) x))"
    if out: "stage_step env a cursor p d = Stage_Break r p' d'"
  proof (rule stage_step_cases [of p a cursor env d], goal_cases)
    case 1
    then have "\<forall>x. cursor \<le> x \<and> x < sa_end a \<longrightarrow> pres_held (sp_records p) (sa_path a) x"
      using pres_gap_loop_spec [of "sp_records p" "sa_path a" cursor "sa_end a"]
      by (simp add: sar_preserve_first_gap_def pres_gap_spec_def)
    then show ?case using out 1(2) rel sp by (simp add: stage_outcome_def)
  next
    case (2 q)
    then show ?case using out stage_evicted_ok [OF 2(1)] rel sp by (auto simp: stage_outcome_def)
  next
    case (3 g_off g_len q)
    show ?case using store(1) [OF 3(1-4), of r p' d'] out 3(5) by simp
  qed
  show "stage_advanced D a key rs0 d0 bound cursor p c p' d'" if out: "stage_step env a cursor p d = Stage_Next c p' d'"
    by (rule stage_step_cases [of p a cursor env d]) (use store(2) out in simp_all)
qed

lemma pres_held_prefix: "prefix rs rs' \<Longrightarrow> pres_held rs path x \<Longrightarrow> pres_held rs' path x"
  by (auto simp: prefix_def)

lemma stage_loop_spec:
  assumes "stage_rel D a key rs0 d0 p d" "space_ok (se_rebuild (env k)) bound p" "stage_wf a" "\<forall>k. env_wf D (env k)"
    "unat (sa_offset a) \<le> unat cursor" "bound + 16 * (unat (sa_end a) - unat cursor) < 2 ^ 64"
    "stage_loop env a k staged cursor p d = (r, staged', p', d')"
  shows "stage_outcome D a key rs0 d0 (bound + 16 * (unat (sa_end a) - unat cursor)) p p' d' \<and> r \<noteq> SAR_STAGE_STORED \<and>
      (r = SAR_STAGE_ALREADY_COVERED \<longrightarrow> sa_mode a = SEMANTICS_AR_MODE_ENFORCE \<longrightarrow>
         (\<forall>x. cursor \<le> x \<and> x < sa_end a \<longrightarrow> pres_held (sp_records p') (sa_path a) x))"
  using assms
proof (induction env a k staged cursor p d arbitrary: bound rule: stage_loop.induct)
  case (1 env a k staged cursor p d)
  note spec = stage_step_spec [OF "1.prems"(1-3) spec [OF "1.prems"(4), of k] "1.prems"(5,6)]
  show ?case
  proof (cases "cursor < sa_end a")
    case False
    then show ?thesis
      using "1.prems" space_ok_mono [OF "1.prems"(2)] by (auto simp: stage_loop.simps [of env a k] stage_outcome_def)
  next
    case True
    show ?thesis
    proof (cases "stage_step (env k) a cursor p d")
      case (Stage_Break r1 p1 d1)
      then show ?thesis
        using spec(1) [OF Stage_Break] "1.prems"(7) True by (simp add: stage_loop.simps [of env a k])
    next
      case (Stage_Next c p1 d1)
      have c: "unat cursor < unat c" "unat c \<le> unat (sa_end a)"
        using stage_step_advances [OF Stage_Next True] by (simp_all add: word_less_nat_alt word_le_nat_alt)
      have adv: "stage_advanced D a key rs0 d0 bound cursor p c p1 d1" using spec(2) [OF Stage_Next] .
      have sum: "bound + 16 * (unat c - unat cursor) + 16 * (unat (sa_end a) - unat c) =
          bound + 16 * (unat (sa_end a) - unat cursor)"
        using c by simp
      have loop: "stage_loop env a (Suc k) True c p1 d1 = (r, staged', p', d')"
        using "1.prems"(7) True Stage_Next by (simp add: stage_loop.simps [of env a k])
      have "stage_outcome D a key rs0 d0 (bound + 16 * (unat (sa_end a) - unat cursor)) p1 p' d' \<and> r \<noteq> SAR_STAGE_STORED \<and>
          (r = SAR_STAGE_ALREADY_COVERED \<longrightarrow> sa_mode a = SEMANTICS_AR_MODE_ENFORCE \<longrightarrow>
             (\<forall>x. c \<le> x \<and> x < sa_end a \<longrightarrow> pres_held (sp_records p') (sa_path a) x))"
        using "1.IH" [OF True Stage_Next, of "bound + 16 * (unat c - unat cursor)"] adv "1.prems"(3-6) c loop
        by (simp add: sum stage_advanced_def stage_outcome_def)
      then show ?thesis
        using adv pres_held_prefix [of "sp_records p1" "sp_records p'" "sa_path a"]
        unfolding stage_advanced_def stage_outcome_def by (metis not_le prefix_order.trans)
    qed
  qed
qed

section \<open>Restoring what was staged\<close>

definition restore_works :: "decryptor \<Rightarrow> restore_env \<Rightarrow> bool" where
  "restore_works D env \<longleftrightarrow> re_pool env \<and> re_read env = STATUS_SUCCESS \<and> bx_pool (re_crypt env) \<and>
     bx_generate (re_crypt env) = STATUS_SUCCESS \<and>
     (\<forall>key iv c x. D key iv c = Some x \<longrightarrow> length c = length x \<longrightarrow> bx_decrypt (re_crypt env) key iv c = Some x)"

lemma restore_held:
  assumes ready: "sp_ready p" "sp_data_handle p" and env: "restore_works D env"
    and found: "find (\<lambda>r. pr_provenance_offset r \<le> off \<and> off + len \<le> pr_provenance_offset r + pr_provenance_length r \<and>
        sar_pres_path_eq (pr_provenance_path r) path) (sp_records p) = Some r"
    and kind: "pr_kind r \<noteq> SAR_PRESERVE_KIND_NAMESPACE" and holds: "record_holds D (sp_store_key p) d r pt"
    and path: "length path = 260" and nowrap: "pres_nowrap off len" and pos: "0 < len" and fits: "len \<le> ucast cap"
  shows "SarPreserveRestore env (Some p) d path off len cap =
    (STATUS_SUCCESS, slice pt (unat off - unat (pr_provenance_offset r)) (unat len))"
proof -
  have r: "pr_provenance_offset r \<le> off" "off + len \<le> pr_provenance_offset r + pr_provenance_length r"
    "sar_pres_path_eq (pr_provenance_path r) path"
    using found by (auto simp: find_Some_iff)
  have h: "wf_pres_record r" "pres_nowrap (pr_provenance_offset r) (pr_provenance_length r)"
    "length pt = unat (pr_provenance_length r)" "pr_content_tag r = sha256_digest pt"
    "unat (pr_payload_length r) < 2 ^ 32" "unat (pr_payload_length r) mod 16 = 0" "length pt \<le> unat (pr_payload_length r)"
    using holds by (auto simp: record_holds_def)
  have le: "unat (pr_provenance_offset r) \<le> unat off" using r(1) by (simp add: word_le_nat_alt)
  have inner: "unat (off - pr_provenance_offset r) = unat off - unat (pr_provenance_offset r)"
    using r(1) by (simp add: unat_sub)
  have inside: "unat off - unat (pr_provenance_offset r) + unat len \<le> unat (pr_provenance_length r)"
    "unat (pr_provenance_offset r) + (unat off - unat (pr_provenance_offset r)) = unat off"
    using r(2) le nowrap h(2) by (simp_all add: word_le_nat_alt pres_add_less)
  define ct where "ct = payload_read d (unat (pr_payload_offset r)) (unat (pr_payload_length r))"
  define ptbuf where "ptbuf = pt @ replicate (unat (pr_payload_length r) - length pt) 0"
  have len: "length ct = unat (pr_payload_length r)" "length ptbuf = unat (pr_payload_length r)"
    using h(7) by (simp_all add: ct_def ptbuf_def payload_read_def)
  have D: "D (sp_store_key p) (take 16 (pr_iv r)) ct = Some ptbuf"
    using holds by (simp add: record_holds_def ct_def ptbuf_def)
  have crypt: "SarPresCrypt (re_crypt env) p False ct (pr_iv r) = (STATUS_SUCCESS, ptbuf)"
    using env D len h(6) by (simp add: SarPresCrypt_def restore_works_def Let_def)
  have "sar_preserve_verify_extract (Some r) (Some path) off len (Some ptbuf) (pr_provenance_length r) =
      (SAR_PRES_OK, Some (off - pr_provenance_offset r))"
    using h path nowrap r(3) pos inner inside
    by (subst verify_extract_iff) (auto simp: wf_pres_record_def sar_pres_path_eq_iff ptbuf_def word_gt_0)
  moreover have "slice ptbuf (unat (off - pr_provenance_offset r)) (unat len) = slice pt (unat off - unat (pr_provenance_offset r)) (unat len)"
    using inside inner h(3) by (simp add: slice_def ptbuf_def)
  ultimately show ?thesis
    using ready env kind fits h(5) found crypt
    by (simp add: SarPreserveRestore_def SarPresDataRead_def restore_works_def ucast_u32_small ct_def not_less)
qed

section \<open>A whole request\<close>

definition stage_request :: "SAR_STATE \<Rightarrow> u16 list \<Rightarrow> u64 \<Rightarrow> bytes \<Rightarrow> u32 \<Rightarrow> u64 \<Rightarrow> bool" where
  "stage_request st path offset plaintext plaintext_len actor \<longleftrightarrow>
     length path = 260 \<and> copy_path 260 path = path \<and> length plaintext = unat plaintext_len \<and> unat plaintext_len < 2 ^ 31 \<and>
     unat offset + unat plaintext_len < 2 ^ 63 \<and> length (snd (SarStateImageByStartKey st actor)) = 260"

definition stage_params ::
  "SAR_STATE \<Rightarrow> u64 \<Rightarrow> u16 list \<Rightarrow> u64 \<Rightarrow> u64 \<Rightarrow> u64 \<Rightarrow> bytes \<Rightarrow> bool \<Rightarrow> stage_args" where
  "stage_params st now path offset len actor plaintext against_reservation =
     \<lparr>sa_mode = SarStateModeGet st, sa_now = now, sa_path = path, sa_causing_path = snd (SarStateImageByStartKey st actor),
      sa_offset = offset, sa_end = offset + len, sa_actor = actor, sa_plaintext = plaintext,
      sa_against_reservation = against_reservation\<rparr>"

definition aged :: "u64 \<Rightarrow> SAR_PRESERVE \<Rightarrow> sar_preserve_record \<Rightarrow> bool" where
  "aged now p r \<longleftrightarrow> pr_capture_time r < now \<and> sp_retention_100ns p \<le> now - pr_capture_time r"

lemma evict_aged_filter:
  "sp_records (fst (evict_aged now p)) = filter (\<lambda>r. \<not> aged now p r) (sp_records p)" "stage_evicted p (fst (evict_aged now p))"
  by (simp_all only: evict_aged_def sar_preserve_evict_aged_def pres_compact_filter aged_def prod.case fst_conv
      stage_evicted_intro subseq_filter_left) simp

lemma stage_wf_params:
  assumes "stage_request st path offset plaintext plen actor"
  shows "stage_wf (stage_params st now path offset (ucast plen) actor plaintext resv)"
    "unat (offset + ucast plen) = unat offset + unat plen"
proof -
  have "unat (ucast plen :: u64) = unat plen"
    using unsigned_less [of plen, where 'a = nat] by (simp add: unsigned_ucast_eq take_bit_nat_eq_self)
  then show "unat (offset + ucast plen) = unat offset + unat plen"
    using assms by (simp add: unat_word_ariths(1) stage_request_def)
  then show "stage_wf (stage_params st now path offset (ucast plen) actor plaintext resv)"
    using assms by (simp add: stage_request_def stage_wf_def stage_params_def)
qed

lemma stage_rel_refl: "store_ok D p d \<Longrightarrow> stage_rel D a (sp_store_key p) (sp_records p) d p d"
  by (auto simp: stage_rel_def)

lemma stage_request_outcome:
  assumes ok: "store_ok D p d" and space: "space_ok (se_rebuild (env 0)) bound p" and env: "\<forall>k. env_wf D (env k)"
    and req: "stage_request st path offset plaintext plen actor" and room: "bound + 16 * unat plen < 2 ^ 64"
    and out: "SarPreserveStage env now st (Some p) d path offset len actor plaintext plen resv = (r, Some p', d')"
  defines "a \<equiv> stage_params st now path offset (ucast plen) actor plaintext resv"
  shows "stage_rel D a (sp_store_key p) (sp_records p) d p' d'" "space_ok True (bound + 16 * unat plen) p'"
    "SarStateModeGet st = SEMANTICS_AR_MODE_ENFORCE \<Longrightarrow> \<forall>s \<in> set (sp_records p). \<not> aged now p s \<longrightarrow> s \<in> set (sp_records p')"
    "SarStateModeGet st = SEMANTICS_AR_MODE_ENFORCE \<Longrightarrow> r = SAR_STAGE_STORED \<or> r = SAR_STAGE_ALREADY_COVERED \<Longrightarrow> len \<noteq> 0 \<Longrightarrow>
       plen \<noteq> 0 \<Longrightarrow> \<forall>x. offset \<le> x \<and> x < offset + len \<longrightarrow> pres_held (sp_records p') path x"
proof -
  have wf: "stage_wf a" "unat (offset + ucast plen) = unat offset + unat plen"
    unfolding a_def using stage_wf_params [OF req] by blast+
  have "stage_rel D a (sp_store_key p) (sp_records p) d p' d' \<and> space_ok True (bound + 16 * unat plen) p' \<and>
    (SarStateModeGet st = SEMANTICS_AR_MODE_ENFORCE \<longrightarrow> (\<forall>s \<in> set (sp_records p). \<not> aged now p s \<longrightarrow> s \<in> set (sp_records p')) \<and>
     (r = SAR_STAGE_STORED \<or> r = SAR_STAGE_ALREADY_COVERED \<longrightarrow> len \<noteq> 0 \<longrightarrow> plen \<noteq> 0 \<longrightarrow>
       (\<forall>x. offset \<le> x \<and> x < offset + len \<longrightarrow> pres_held (sp_records p') path x)))"
  proof (cases "sp_ready p \<and> plen \<noteq> 0 \<and> len \<noteq> 0 \<and> ucast plen = len")
    case False
    then have "p' = p \<and> d' = d \<and> (r = SAR_STAGE_STORED \<or> r = SAR_STAGE_ALREADY_COVERED \<longrightarrow> plen = 0 \<or> len = 0)"
      using out by (auto simp: SarPreserveStage_def split: if_splits)
    then show ?thesis using stage_rel_refl [OF ok] space_ok_mono [OF space] by auto
  next
    case True
    let ?p = "fst (evict_aged now p)"
    obtain r1 s1 where loop: "stage_loop env a 0 False offset ?p d = (r1, s1, p', d')"
      and r1: "r = r1 \<and> (r1 = SAR_STAGE_DROPPED \<or> r1 = SAR_STAGE_FAILED) \<or>
        r1 \<noteq> SAR_STAGE_DROPPED \<and> r1 \<noteq> SAR_STAGE_FAILED"
      using out True by (auto simp: SarPreserveStage_def Let_def a_def stage_params_def split: prod.splits if_splits)
    note ev = stage_evicted_ok [OF evict_aged_filter(2) [of p now]]
    have a: "sa_offset a = offset" "sa_end a = offset + len" "sa_mode a = SarStateModeGet st" "sa_path a = path"
      using True by (simp_all add: a_def stage_params_def)
    have e: "unat (sa_end a) - unat offset = unat plen" using a True wf(2) by simp
    show ?thesis
      using stage_loop_spec [OF ev(1) [OF stage_rel_refl [OF ok]] ev(2) [OF space] wf(1) env _ _ loop] a e room r1
        evict_aged_filter(1) [of now p]
      by (cases r1) (auto simp: stage_outcome_def prefix_def)
  qed
  then show "stage_rel D a (sp_store_key p) (sp_records p) d p' d'" "space_ok True (bound + 16 * unat plen) p'"
    "SarStateModeGet st = SEMANTICS_AR_MODE_ENFORCE \<Longrightarrow> \<forall>s \<in> set (sp_records p). \<not> aged now p s \<longrightarrow> s \<in> set (sp_records p')"
    "SarStateModeGet st = SEMANTICS_AR_MODE_ENFORCE \<Longrightarrow> r = SAR_STAGE_STORED \<or> r = SAR_STAGE_ALREADY_COVERED \<Longrightarrow> len \<noteq> 0 \<Longrightarrow>
       plen \<noteq> 0 \<Longrightarrow> \<forall>x. offset \<le> x \<and> x < offset + len \<longrightarrow> pres_held (sp_records p') path x"
    by auto
qed

section \<open>A range of a file with no record\<close>

fun stage_store_of :: "stage_out \<Rightarrow> SAR_PRESERVE" where
  "stage_store_of (Stage_Break r p d) = p"
| "stage_store_of (Stage_Next c p d) = p"

definition same_store :: "SAR_PRESERVE \<Rightarrow> SAR_PRESERVE \<Rightarrow> bool" where
  "same_store p q \<longleftrightarrow> sp_ready q = sp_ready p \<and> sp_data_handle q = sp_data_handle p \<and> sp_store_key q = sp_store_key p"

lemma same_store_step: "same_store p (stage_store_of (stage_step env a cursor p d))"
proof -
  have alloc: "same_store q q'" if "SarPresAlloc rebuild q len = (off, q')" for rebuild q len off q'
    using sp_store_key_alloc [OF that] by (simp add: same_store_def)
  have store: "same_store q (stage_store_of (stage_store env a g_off g_len ct_len q d))" for g_off g_len ct_len q
    by (auto simp: stage_store_def Let_def same_store_def dest!: alloc split: option.split prod.split)
  have ev: "same_store p q" if "stage_evicted p q" for q
    using that by (auto simp: stage_evicted_def same_store_def)
  show ?thesis
  proof (rule stage_step_cases [of p a cursor env d], goal_cases)
    case 1
    then show ?case by (simp add: same_store_def)
  next
    case (2 q)
    then show ?case using ev by simp
  next
    case (3 g_off g_len q)
    then show ?case using ev store by (simp add: same_store_def)
  qed
qed

lemma same_store_loop: "stage_loop env a k staged cursor p d = (r, staged', p', d') \<Longrightarrow> same_store p p'"
proof (induction env a k staged cursor p d rule: stage_loop.induct)
  case (1 env a k staged cursor p d)
  show ?case
  proof (cases "stage_step (env k) a cursor p d")
    case (Stage_Break r1 p1 d1)
    then show ?thesis
      using "1.prems" same_store_step [of p "env k" a cursor d]
      by (auto simp: stage_loop.simps [of env a k] same_store_def split: if_splits)
  next
    case (Stage_Next c p1 d1)
    show ?thesis
    proof (cases "cursor < sa_end a")
      case True
      have "same_store p1 p'"
        using "1.IH" [OF True Stage_Next] "1.prems" True Stage_Next by (simp add: stage_loop.simps [of env a k])
      then show ?thesis
        using same_store_step [of p "env k" a cursor d] Stage_Next by (simp add: same_store_def)
    next
      case False
      then show ?thesis using "1.prems" by (simp add: stage_loop.simps [of env a k] same_store_def)
    qed
  qed
qed

lemma first_gap_untouched:
  assumes none: "\<forall>r \<in> set rs. \<not> sar_pres_path_eq (pr_provenance_path r) path" and "cursor < hi"
  shows "sar_preserve_first_gap rs path cursor (hi - cursor) = Some (cursor, hi - cursor)"
proof -
  have spec: "pres_gap_spec rs path cursor hi (sar_preserve_first_gap rs path cursor (hi - cursor))"
    using pres_gap_loop_spec [of rs path cursor hi] by (simp add: sar_preserve_first_gap_def)
  have unheld: "\<not> pres_held rs path x" for x
    using none by (auto simp: pres_held_def list_ex_iff pres_holds_def)
  show ?thesis
  proof (cases "sar_preserve_first_gap rs path cursor (hi - cursor)")
    case None
    then show ?thesis using spec unheld assms(2) by (auto simp: pres_gap_spec_def)
  next
    case (Some g)
    obtain g_off g_len where g: "g = (g_off, g_len)" by fastforce
    then have "g_off = cursor" "g_off + g_len = hi"
      using spec unheld none by (auto simp: pres_gap_spec_def Some order.order_iff_strict)
    then show ?thesis by (auto simp: Some g algebra_simps)
  qed
qed

lemma stage_loop_untouched:
  assumes rel: "stage_rel D a key rs0 d0 p d" and space: "space_ok (se_rebuild (env k)) bound p"
    and wf: "stage_wf a" and env: "env_wf D (env k)"
    and cur: "unat (sa_offset a) \<le> unat cursor" and room: "bound + 16 * (unat (sa_end a) - unat cursor) < 2 ^ 64"
    and none: "\<forall>r \<in> set (sp_records p). \<not> sar_pres_path_eq (pr_provenance_path r) (sa_path a)"
    and lt: "cursor < sa_end a" and loop: "stage_loop env a k staged cursor p d = (r, staged', p', d')"
    and r: "r \<noteq> SAR_STAGE_DROPPED" "r \<noteq> SAR_STAGE_FAILED"
  shows "\<exists>s \<in> set (sp_records p'). pr_provenance_path s = sa_path a \<and> pr_provenance_offset s = cursor \<and>
     pr_provenance_length s = sa_end a - cursor"
proof -
  note gap = first_gap_untouched [OF none lt]
  note out = loop [unfolded stage_loop.simps [of env a k]]
  show ?thesis
  proof (rule stage_step_cases [of p a cursor "env k" d], goal_cases)
    case 1
    then show ?case by (simp add: gap)
  next
    case (2 q)
    then show ?case using out lt r by simp
  next
    case (3 g_off g_len q)
    have g: "g_off = cursor" "g_len = sa_end a - cursor" using 3(1) by (auto simp: gap)
    note b = gap_bounds [OF 3(1)]
    have glen: "unat g_len < 2 ^ 31" using b(1,2) cur wf unfolding stage_wf_def by linarith
    have "unat (SarPresRound16 g_len) \<le> 16 * (unat (sa_end a) - unat cursor)"
      using SarPresRound16_bounds [of g_len] glen b(1-3) by simp
    then have "bound + unat (SarPresRound16 g_len) < 2 ^ 64" using room by linarith
    note spec = stage_store_spec [OF stage_evicted_ok(1) [OF 3(2) rel] stage_evicted_ok(2) [OF 3(2) space] wf env _ b(2)
        covered_subset [OF stage_evicted_ok(3) [OF 3(2)] b(6)] 3(4) refl this]
    have off: "unat (sa_offset a) \<le> unat g_off" using cur b(1) by simp
    show ?case
    proof (cases "stage_step (env k) a cursor p d")
      case (Stage_Break r1 p1 d1)
      then show ?thesis using spec(1) [OF off, of r1 p1 d1] 3(5) out lt r by simp
    next
      case (Stage_Next c p1 d1)
      then have "c = sa_end a" "p1 = p'"
        using spec(2) [OF off, of c p1 d1] 3(5) out lt g by (auto simp: stage_loop.simps [of env a "Suc k"])
      then show ?thesis using spec(2) [OF off, of c p1 d1] 3(5) Stage_Next g by auto
    qed
  qed
qed

lemma stage_request_untouched:
  assumes ok: "store_ok D p d" and space: "space_ok (se_rebuild (env 0)) bound p" and env: "\<forall>k. env_wf D (env k)"
    and req: "stage_request st path offset plaintext plen actor" and room: "bound + 16 * unat plen < 2 ^ 64"
    and out: "SarPreserveStage env now st (Some p) d path offset len actor plaintext plen resv = (r, Some p', d')"
    and r: "r = SAR_STAGE_STORED \<or> r = SAR_STAGE_ALREADY_COVERED" and ready: "sp_ready p"
    and none: "\<forall>s \<in> set (sp_records p). \<not> sar_pres_path_eq (pr_provenance_path s) path"
    and len: "len \<noteq> 0" "plen \<noteq> 0"
  shows "same_store p p' \<and> (\<exists>s \<in> set (sp_records p'). pr_provenance_path s = path \<and> pr_provenance_offset s = offset \<and>
      pr_provenance_length s = ucast plen)"
proof -
  define a where "a = stage_params st now path offset (ucast plen) actor plaintext resv"
  have wf: "stage_wf a" "unat (offset + ucast plen) = unat offset + unat plen"
    unfolding a_def using stage_wf_params [OF req] by blast+
  let ?p = "fst (evict_aged now p)"
  have eq: "ucast plen = len"
    using out r ready len by (auto simp: SarPreserveStage_def split: if_splits)
  then obtain r1 s1 where loop: "stage_loop env a 0 False offset ?p d = (r1, s1, p', d')"
    and r1: "r1 \<noteq> SAR_STAGE_DROPPED" "r1 \<noteq> SAR_STAGE_FAILED"
    using out r ready len by (auto simp: SarPreserveStage_def Let_def a_def stage_params_def split: prod.splits if_splits)
  note ev = stage_evicted_ok [OF evict_aged_filter(2) [of p now]]
  have a: "sa_offset a = offset" "sa_end a = offset + ucast plen" "sa_path a = path"
    by (simp_all add: a_def stage_params_def)
  have e: "unat (sa_end a) - unat offset = unat plen" "offset < sa_end a"
    using a wf(2) len(2) by (simp_all add: word_less_nat_alt unat_gt_0)
  have "same_store p ?p" by (simp add: evict_aged_def same_store_def case_prod_beta)
  then have "same_store p p'" using same_store_loop [OF loop] by (simp add: same_store_def)
  moreover have "\<forall>s \<in> set (sp_records ?p). \<not> sar_pres_path_eq (pr_provenance_path s) (sa_path a)"
    using none ev(3) a(3) by auto
  then have "\<exists>s \<in> set (sp_records p'). pr_provenance_path s = path \<and> pr_provenance_offset s = offset \<and>
      pr_provenance_length s = ucast plen"
    using stage_loop_untouched [OF ev(1) [OF stage_rel_refl [OF ok]] ev(2) [OF space] wf(1) spec [OF env, of 0] _ _ _ e(2) loop r1]
      a e(1) room by simp
  ultimately show ?thesis by blast
qed

section \<open>Properties\<close>

text \<open>
  C3: staging a write's original bytes into a store whose free list is current or can be rebuilt, with any mixture of
  failures of the cipher, the pool and the payload file after that, torn writes included. (When the rebuild of the free
  list fails after a load, the allocator starts at offset 0 and overwrites payloads: \<open>load_then_failed_rebuild\<close>.) The
  cipher of the platform decrypts what it encrypted, and the offsets of the payload file stay below the 64-bit bound.
  Afterwards the payloads of the records still do not overlap and still decrypt to bytes of the
  recorded digest; every record is either one from before, which still holds what it held, or one of this request's file
  that holds exactly the bytes the request gave for its range. While the driver enforces, no record is lost but by its
  age, and when the request is answered as stored or covered every byte of its range is held by a record.
\<close>

theorem preserve_stage_keeps_originals:
  assumes "store_ok D p d" "space_ok (se_rebuild (env 0)) bound p" "\<forall>k. env_wf D (env k)"
    "stage_request st path offset plaintext plen actor" "bound + 16 * unat plen < 2 ^ 64"
    "SarPreserveStage env now st (Some p) d path offset len actor plaintext plen resv = (r, Some p', d')"
  shows "store_ok D p' d' \<and>
    (\<forall>s \<in> set (sp_records p').
       s \<in> set (sp_records p) \<and> (\<forall>pt. record_holds D (sp_store_key p) d s pt \<longrightarrow> record_holds D (sp_store_key p) d' s pt) \<or>
       pr_provenance_path s = path \<and>
       record_holds D (sp_store_key p) d' s
         (slice plaintext (unat (pr_provenance_offset s) - unat offset) (unat (pr_provenance_length s)))) \<and>
    (SarStateModeGet st = SEMANTICS_AR_MODE_ENFORCE \<longrightarrow>
       (\<forall>s \<in> set (sp_records p). \<not> aged now p s \<longrightarrow> s \<in> set (sp_records p')) \<and>
       (r = SAR_STAGE_STORED \<or> r = SAR_STAGE_ALREADY_COVERED \<longrightarrow> len \<noteq> 0 \<longrightarrow> plen \<noteq> 0 \<longrightarrow>
          (\<forall>x. offset \<le> x \<and> x < offset + len \<longrightarrow> pres_held (sp_records p') path x)))"
  using stage_request_outcome [OF assms]
  by (auto simp: stage_rel_def fresh_record_def original_bytes_def stage_params_def)

definition cipher_example :: bcrypt_env where
  "cipher_example = \<lparr>bx_pool = True, bx_generate = STATUS_SUCCESS, bx_encrypt = (\<lambda>key iv x. Some (rev x)),
     bx_decrypt = (\<lambda>key iv x. Some (rev x))\<rparr>"

definition stage_example :: "nat \<Rightarrow> stage_env" where
  "stage_example k = \<lparr>se_iv = Some (replicate 16 9), se_ctbuf = True, se_padbuf = True, se_crypt = cipher_example,
     se_rebuild = True, se_write = STATUS_SUCCESS, se_torn = []\<rparr>"

definition store_example :: SAR_PRESERVE where
  "store_example = (the (snd (SarPreserveCreate True STATUS_SUCCESS)))\<lparr>sp_ready := True, sp_data_handle := True\<rparr>"

definition state_example :: SAR_STATE where
  "state_example = (the (snd (SarStateCreate True)))\<lparr>ss_mode := SEMANTICS_AR_MODE_ENFORCE\<rparr>"

definition path_example :: "u16 list" where
  "path_example = replicate 3 65 @ replicate 257 0"

definition staged_example :: "SAR_STAGE_RESULT \<times> SAR_PRESERVE option \<times> payload_file" where
  "staged_example = SarPreserveStage stage_example 1000 state_example (Some store_example) (\<lambda>_. 0) path_example 100 5 7
     [1, 2, 3, 4, 5] 5 False"

lemma image_example: "SarStateImageByStartKey state_example 7 = (False, replicate 260 0)"
proof -
  have empty: "concat (map ((!) (replicate n [])) [0..<n]) = []" for n :: nat by simp
  show ?thesis
    by (simp add: SarStateImageByStartKey_def state_example_def SarStateCreate_def SEMANTICS_AR_PROTO_PATH_MAX_def empty)
qed

lemmas stage_examples = store_example_def SarPreserveCreate_def stage_example_def cipher_example_def stage_params_def image_example

lemma stage_example_ok:
  "store_ok (\<lambda>key iv c. Some (rev c)) store_example (\<lambda>_. 0)" "space_ok (se_rebuild (stage_example 0)) 0 store_example"
  "\<forall>k. env_wf (\<lambda>key iv c. Some (rev c)) (stage_example k)"
  "stage_request state_example path_example 100 [1, 2, 3, 4, 5] 5 7"
  by (simp_all add: store_ok_def space_ok_def alloc_ready_def alloc_ok_def free_below_def env_wf_def cipher_law_def
      stage_request_def stage_examples)
    (simp add: path_example_def, code_simp)

lemma staged_example_stored: "\<exists>q e. staged_example = (SAR_STAGE_STORED, Some q, e)"
proof -
  define a where "a = stage_params state_example 1000 path_example 100 5 7 [1, 2, 3, 4, 5] False"
  have e: "fst (evict_aged 1000 store_example) = store_example"
    by (simp add: evict_aged_def sar_preserve_evict_aged_def pres_compact_filter stage_examples)
  have gap: "sar_preserve_first_gap [] path_example 100 5 = Some (100, 5)"
    using first_gap_untouched [of "[]" path_example 100 105] by simp
  have r16: "SarPresRound16 5 = 16" by code_simp
  have "\<exists>p1 d1. stage_store (stage_example 0) a 100 5 16 store_example (\<lambda>_. 0) = Stage_Next 105 p1 d1"
    by (simp add: stage_store_def SarPresCrypt_def SarPresDataWrite_def stage_examples a_def Let_def splice_at_def
        slice_def case_prod_beta SarPresAlloc_def)
  then obtain p1 d1 where "stage_step (stage_example 0) a 100 store_example (\<lambda>_. 0) = Stage_Next 105 p1 d1"
    using gap r16
    by (auto simp add: stage_step_def Let_def a_def stage_examples SAR_PRESERVE_DEFAULT_CAPACITY_BYTES_def SAR_PRESERVE_RECORD_CAPACITY_def
       sar_preserve_protected_bytes_def sar_preserve_total_bytes_def)
  then have "stage_loop stage_example a 0 False 100 store_example (\<lambda>_. 0) = (SAR_STAGE_ALREADY_COVERED, True, p1, d1)"
    by (simp add: stage_loop.simps a_def stage_params_def)
  then show ?thesis
    by (simp add: staged_example_def SarPreserveStage_def e Let_def a_def stage_params_def) (simp add: store_example_def)
qed

theorem preserve_stage_keeps_originals_witness:
  "\<exists>q e. staged_example = (SAR_STAGE_STORED, Some q, e) \<and> store_ok (\<lambda>key iv c. Some (rev c)) q e \<and>
     (\<forall>x. 100 \<le> x \<and> x < 105 \<longrightarrow> pres_held (sp_records q) path_example x)"
proof -
  obtain q e where out: "staged_example = (SAR_STAGE_STORED, Some q, e)" using staged_example_stored by blast
  have mode: "SarStateModeGet state_example = SEMANTICS_AR_MODE_ENFORCE"
    by (simp add: SarStateModeGet_def state_example_def)
  show ?thesis
    using preserve_stage_keeps_originals [OF stage_example_ok _ out [unfolded staged_example_def]] mode out
    by (intro exI [of _ q] exI [of _ e]) simp
qed

lemma stage_then_restore:
  assumes "store_ok D p d" "space_ok (se_rebuild (env 0)) bound p" "\<forall>k. env_wf D (env k)"
    "stage_request st path offset plaintext plen actor" "bound + 16 * unat plen < 2 ^ 64"
    "SarPreserveStage env now st (Some p) d path offset len actor plaintext plen resv = (r, Some p', d')"
    "r = SAR_STAGE_STORED \<or> r = SAR_STAGE_ALREADY_COVERED" "sp_ready p" "sp_data_handle p" "restore_works D renv"
    "\<forall>s \<in> set (sp_records p). \<not> sar_pres_path_eq (pr_provenance_path s) path"
    "len \<noteq> 0" "offset \<le> off" "0 < n" "unat off + unat n \<le> unat offset + unat plen" "n \<le> ucast cap"
  shows "SarPreserveRestore renv (Some p') d' path off n cap = (STATUS_SUCCESS, slice plaintext (unat off - unat offset) (unat n))"
proof -
  define a where "a = stage_params st now path offset (ucast plen) actor plaintext resv"
  have path: "length path = 260" and nowrap: "unat offset + unat plen < 2 ^ 63" using assms(4) by (simp_all add: stage_request_def)
  have n: "pres_nowrap off n" using assms(15) nowrap by (simp add: pres_nowrap_def)
  have pos: "plen \<noteq> 0" using assms(13-15) by (auto simp: word_le_nat_alt word_less_nat_alt)
  note rel = stage_request_outcome(1) [OF assms(1-6), folded a_def]
  note whole = stage_request_untouched [OF assms(1-6,7,8,11,12) pos]
  have "offset \<le> off" "off + n \<le> offset + ucast plen"
    using assms(13,15) stage_wf_params(2) [OF assms(4)] n by (simp_all add: word_le_nat_alt pres_add_less)
  then have "\<exists>w \<in> set (sp_records p'). pr_provenance_offset w \<le> off \<and>
      off + n \<le> pr_provenance_offset w + pr_provenance_length w \<and> sar_pres_path_eq (pr_provenance_path w) path"
    using whole path by force
  then obtain s where found: "find (\<lambda>r. pr_provenance_offset r \<le> off \<and> off + n \<le> pr_provenance_offset r + pr_provenance_length r \<and>
        sar_pres_path_eq (pr_provenance_path r) path) (sp_records p') = Some s"
    using find_None_iff by (metis (no_types, lifting) not_None_eq)
  then have s: "s \<in> set (sp_records p')" "sar_pres_path_eq (pr_provenance_path s) path" "pr_provenance_offset s \<le> off"
    "off + n \<le> pr_provenance_offset s + pr_provenance_length s"
    by (auto simp: find_Some_iff)
  have fresh: "fresh_record D (sp_store_key p) a d' s"
    using rel s assms(11) unfolding stage_rel_def by blast
  then have same: "SarPreserveRestore renv (Some p') d' path off n cap =
      (STATUS_SUCCESS, slice (original_bytes a (pr_provenance_offset s) (pr_provenance_length s))
         (unat off - unat (pr_provenance_offset s)) (unat n))"
    using whole assms(8,9,10,14,16) found path n
    by (intro restore_held) (auto simp: same_store_def fresh_record_def SAR_PRESERVE_KIND_BYTERANGE_def SAR_PRESERVE_KIND_NAMESPACE_def)
  have "unat (sa_offset a) \<le> unat (pr_provenance_offset s)" "pres_nowrap (pr_provenance_offset s) (pr_provenance_length s)"
    using fresh by (simp_all add: fresh_record_def record_holds_def)
  then have "slice (original_bytes a (pr_provenance_offset s) (pr_provenance_length s)) (unat off - unat (pr_provenance_offset s)) (unat n) =
      slice plaintext (unat off - unat offset) (unat n)"
    using s(3,4) n by (simp add: original_bytes_def a_def stage_params_def slice_slice word_le_nat_alt pres_add_less)
  then show ?thesis using same by simp
qed

text \<open>
  C2: what staging saves, restoring returns. For a file of which the store has no record yet, a request that is answered as
  stored or covered makes every part of its range restorable: with a working platform, restoring any non-empty part of
  the range returns exactly the bytes the request gave for it, in every mode.
\<close>

theorem preserve_stage_restore:
  assumes "store_ok D p d" "space_ok (se_rebuild (env 0)) bound p" "\<forall>k. env_wf D (env k)"
    "stage_request st path offset plaintext plen actor" "bound + 16 * unat plen < 2 ^ 64"
    "SarPreserveStage env now st (Some p) d path offset len actor plaintext plen resv = (r, Some p', d')"
    "r = SAR_STAGE_STORED \<or> r = SAR_STAGE_ALREADY_COVERED" "sp_ready p" "sp_data_handle p" "restore_works D renv"
    "\<forall>s \<in> set (sp_records p). \<not> sar_pres_path_eq (pr_provenance_path s) path"
    "len \<noteq> 0" "offset \<le> off" "0 < n" "unat off + unat n \<le> unat offset + unat plen" "n \<le> ucast cap"
  shows "SarPreserveRestore renv (Some p') d' path off n cap = (STATUS_SUCCESS, slice plaintext (unat off - unat offset) (unat n))"
  by (rule stage_then_restore [OF assms])

definition restore_example :: restore_env where
  "restore_example = \<lparr>re_link = (\<lambda>link off n. (STATUS_OTHER, [])), re_pool = True, re_read = STATUS_SUCCESS, re_crypt = cipher_example\<rparr>"

theorem preserve_stage_restore_witness:
  "\<exists>q e. staged_example = (SAR_STAGE_STORED, Some q, e) \<and>
     SarPreserveRestore restore_example (Some q) e path_example 101 3 16 = (STATUS_SUCCESS, [2, 3, 4])"
proof -
  obtain q e where out: "staged_example = (SAR_STAGE_STORED, Some q, e)" using staged_example_stored by blast
  have works: "restore_works (\<lambda>key iv c. Some (rev c)) restore_example"
    by (auto simp: restore_works_def restore_example_def cipher_example_def)
  have "SarPreserveRestore restore_example (Some q) e path_example 101 3 16 =
      (STATUS_SUCCESS, slice [1, 2, 3, 4, 5] (unat (101 :: u64) - unat (100 :: u64)) (unat (3 :: u64)))"
    by (rule preserve_stage_restore [OF stage_example_ok _ out [unfolded staged_example_def] _ _ _ works])
      (simp_all add: store_example_def SarPreserveCreate_def)
  then show ?thesis using out by (intro exI [of _ q] exI [of _ e]) (simp add: slice_def)
qed

section \<open>Two consequences of a failed or erased load\<close>

text \<open>
  After a load the list of free extents is stale and the high-water mark is zero until the list is rebuilt. When the
  rebuild finds no memory, the next allocation is at offset zero, whatever payloads the loaded records have there.
\<close>

lemma load_then_failed_rebuild:
  assumes "sp_free_ext p = []" "sp_data_high_water p = 0" "load_index env p posture h = Some (p', posture', h')"
    "sp_records p' \<noteq> []" "sp_records p = []"
  shows "fst (SarPresAlloc False p' len) = 0"
proof -
  obtain s f where read: "SarStoreReadAll (ple_read_index env) (last h) SAR_PRES_INDEX SAR_PRESERVE_MAX_INDEX_FILE = (s, f)" by fastforce
  have "s = STATUS_SUCCESS" using assms by (cases s) (auto simp: load_index_def read)
  moreover obtain fbuf where f: "f = Some fbuf" using assms calculation by (cases f) (auto simp: load_index_def read)
  moreover obtain rc cnt where v: "sar_preserve_verify fbuf (sp_mac_key p) (if ka_present (sp_anchor p) then Some (sp_anchor p) else None) =
      Some (rc, cnt)"
    using assms calculation by (auto simp: load_index_def read split: if_splits option.splits)
  moreover have "rc = SAR_PRES_OK" using assms calculation by (cases rc) (auto simp: load_index_def read split: if_splits)
  ultimately have "sp_free_dirty p' \<and> sp_free_ext p' = [] \<and> sp_data_high_water p' = 0"
    using assms by (auto simp: load_index_def read Let_def split: if_splits)
  then show ?thesis
    using assms(4) by (simp add: SarPresAlloc_def SarPresFreeRebuild_def Let_def)
qed

text \<open>
  When the index file is missing, the load reports nothing and keeps the generation it had, zero at start, whatever
  generation the anchor records; the next index that is written gets generation one and the anchor follows it down.
\<close>

lemma erased_index_restarts_anchor:
  assumes "fst (SarStoreReadAll (ple_read_index env) (last h) SAR_PRES_INDEX SAR_PRESERVE_MAX_INDEX_FILE) \<noteq> STATUS_SUCCESS"
  shows "load_index env p posture h = Some (p, posture, h)"
    "sp_generation p = 0 \<Longrightarrow> SarPresPersistIndex pool env_index env_key p fs = (p', h') \<Longrightarrow> \<not> sp_dirty p' \<Longrightarrow> \<not> sp_dirty p \<Longrightarrow>
       ka_generation (sp_anchor p') = 1"
  using assms
  by (auto simp: load_index_def SarPresPersistIndex_def Let_def split: prod.splits NTSTATUS.splits if_splits)

end
