(* ===== verification/Recovery_Driver.thy ===== *)
theory Recovery_Driver
  imports Recover_Roundtrip Preserve_Stage
begin

text \<open>
  Recovery in the driver, \<^verbatim>\<open>driver/recovery.c\<close>: a file is recovered from the captured keys into a temporary file beside
  it, chunk by chunk, or a preserved region is put back into it. The files are a map from names to contents. Opening,
  querying, reading, writing and flushing a file answer through arguments; a read that starts behind the end of a file
  fails, as it does on the platform. What a call may read of a chunk is what was just read into it, so a read of
  stale bytes shows as the outer \<^term>\<open>None\<close>.
\<close>

section \<open>Definitions\<close>

type_synonym rec_fs = "u16 list \<rightharpoonup> bytes"

definition SAR_PRESERVE_STAGE_MAX :: nat where "SAR_PRESERVE_STAGE_MAX = 4 * 1024 * 1024"

definition SAR_REC_NT_PREFIX :: "u16 list" where
  "SAR_REC_NT_PREFIX = [of_char CHR 0x5C, of_char CHR ''?'', of_char CHR ''?'', of_char CHR 0x5C]"

definition SAR_REC_TMP_SUFFIX :: "u16 list" where "SAR_REC_TMP_SUFFIX = u16s ''.sarrectmp''"

definition SarRecBuildPaths :: "u16 list \<Rightarrow> (u16 list \<times> u16 list) option" where
  "SarRecBuildPaths path =
     (let prefix = (if path ! 0 = of_char CHR 0x5C then [] else SAR_REC_NT_PREFIX);
          chars = takeWhile (\<lambda>c. c \<noteq> 0) (take SEMANTICS_AR_PROTO_PATH_MAX path);
          target = prefix @ chars
      in if chars = [] then None else Some (target, target @ SAR_REC_TMP_SUFFIX))"

subsection \<open>Files\<close>

definition file_write :: "bytes \<Rightarrow> nat \<Rightarrow> bytes \<Rightarrow> bytes" where
  "file_write contents off bs = take off (contents @ replicate (off - length contents) 0) @ bs @ drop (off + length bs) contents"

definition zw_read :: "NTSTATUS \<Rightarrow> bytes \<Rightarrow> bytes \<Rightarrow> nat \<Rightarrow> nat \<Rightarrow> NTSTATUS \<times> bytes" where
  "zw_read status contents buf off n =
     (if \<not> NT_SUCCESS status then (status, buf)
      else if off \<ge> length contents then (STATUS_OTHER, buf)
      else (STATUS_SUCCESS, splice_at buf 0 (slice contents off n)))"

definition SarRecWriteTemp :: "NTSTATUS \<Rightarrow> NTSTATUS \<Rightarrow> NTSTATUS \<Rightarrow> rec_fs \<Rightarrow> u16 list \<Rightarrow> bytes \<Rightarrow> NTSTATUS \<times> rec_fs" where
  "SarRecWriteTemp create_status write_status flush_status fs path buf =
     (if \<not> NT_SUCCESS create_status then (create_status, fs)
      else if buf \<noteq> [] \<and> \<not> NT_SUCCESS write_status then (write_status, fs(path \<mapsto> []))
      else (flush_status, fs(path \<mapsto> buf)))"

subsection \<open>Recovery from captured keys\<close>

record recover_env =
  ve_pool_paths :: bool
  ve_pool_work :: bool
  ve_open :: NTSTATUS
  ve_query :: NTSTATUS
  ve_create :: NTSTATUS
  ve_read_sample :: "nat \<Rightarrow> NTSTATUS"
  ve_copy_read :: "nat \<Rightarrow> NTSTATUS"
  ve_copy_write :: "nat \<Rightarrow> NTSTATUS"
  ve_read :: "nat \<Rightarrow> nat \<Rightarrow> NTSTATUS"
  ve_write :: "nat \<Rightarrow> nat \<Rightarrow> NTSTATUS"
  ve_eof :: NTSTATUS
  ve_flush :: NTSTATUS

text \<open>
  The buffers and counters of one request; \<open>rw_out\<close> is the temporary file once it is open.
\<close>

record rec_work =
  rw_ct :: bytes
  rw_pt :: bytes
  rw_out :: "bytes option"
  rw_matched :: bool
  rw_applied :: nat
  rw_recovered :: u64
  rw_end :: u64

datatype rec_flow = Rec_Continue rec_work | Rec_Cleanup sar_recover_status rec_work

primrec rec_steps :: "('a \<Rightarrow> rec_work \<Rightarrow> rec_flow option) \<Rightarrow> 'a list \<Rightarrow> rec_work \<Rightarrow> rec_flow option" where
  "rec_steps f [] w = Some (Rec_Continue w)"
| "rec_steps f (x # xs) w =
     (case f x w of
        None \<Rightarrow> None
      | Some (Rec_Cleanup s w') \<Rightarrow> Some (Rec_Cleanup s w')
      | Some (Rec_Continue w') \<Rightarrow> rec_steps f xs w')"

definition rec_chunks :: "u64 \<Rightarrow> nat list" where
  "rec_chunks len = [0..<(unat len + SAR_PRESERVE_STAGE_MAX - 1) div SAR_PRESERVE_STAGE_MAX]"

definition rec_extent :: "keystore_record \<Rightarrow> u64 \<Rightarrow> (u64 \<times> u64 \<times> u64 \<times> u64) option" where
  "rec_extent r targetlen =
     (let off = kr_provenance_offset r
      in if off \<ge> targetlen then None
         else
           let rlen = kr_provenance_length r;
               rlen = (if rlen = 0 \<or> rlen > targetlen - off then targetlen - off else rlen);
               soff = kr_sample_offset r;
               slen = ucast (kr_sample_length r) :: u64
           in if slen = 0 \<or> slen > word_of_nat SAR_PRESERVE_STAGE_MAX \<or> soff < off \<or> soff + slen > off + rlen then None
              else Some (off, rlen, soff, slen))"

text \<open>
  Reading a part of the file with the block before it, and decrypting it. The result says whether the read succeeded
  and how the decryption ended.
\<close>

definition rec_decrypt ::
  "NTSTATUS \<Rightarrow> bytes \<Rightarrow> sar_recovery_key \<Rightarrow> u64 \<Rightarrow> u64 \<Rightarrow> u64 \<Rightarrow> u64 \<Rightarrow> rec_work \<Rightarrow>
   (bool \<times> sar_recover_status \<times> rec_work) option" where
  "rec_decrypt rd target rk off pos n targetlen w =
     (let prefix = (if pos \<ge> 16 then 16 else 0 :: nat)
      in case zw_read rd target (rw_ct w) (unat pos - prefix) (prefix + unat n) of (s, ct) \<Rightarrow>
           if \<not> NT_SUCCESS s then Some (False, SAR_RECOVER_INVALID, w)
           else
             (case sar_recover_chunk rk SAR_CTR_CONTINUOUS
                \<lparr>w_bytes = take (prefix + unat n) ct, w_before = prefix, w_base = unat pos\<rparr> (rw_pt w) off pos n targetlen of
                None \<Rightarrow> None
              | Some (st, pt) \<Rightarrow> Some (True, st, w\<lparr>rw_ct := ct, rw_pt := pt\<rparr>)))"

definition rec_copy_step :: "recover_env \<Rightarrow> bytes \<Rightarrow> u64 \<Rightarrow> nat \<Rightarrow> rec_work \<Rightarrow> rec_flow option" where
  "rec_copy_step env target targetlen k w =
     (let pos = k * SAR_PRESERVE_STAGE_MAX;
          cs = min SAR_PRESERVE_STAGE_MAX (unat targetlen - pos)
      in case zw_read (ve_copy_read env k) target (rw_ct w) pos cs of (s, ct) \<Rightarrow>
           if \<not> NT_SUCCESS s \<or> \<not> NT_SUCCESS (ve_copy_write env k)
           then Some (Rec_Cleanup SAR_RECOVER_DECLINED_TARGET_IO w)
           else Some (Rec_Continue (w\<lparr>rw_ct := ct,
             rw_out := map_option (\<lambda>out. file_write out pos (take cs ct)) (rw_out w)\<rparr>)))"

definition rec_open_temp :: "recover_env \<Rightarrow> bytes \<Rightarrow> u64 \<Rightarrow> rec_work \<Rightarrow> rec_flow option" where
  "rec_open_temp env target targetlen w =
     (case rw_out w of
        Some out \<Rightarrow> Some (Rec_Continue w)
      | None \<Rightarrow>
          if \<not> NT_SUCCESS (ve_create env) then Some (Rec_Cleanup SAR_RECOVER_DECLINED_TARGET_IO w)
          else rec_steps (rec_copy_step env target targetlen) (rec_chunks targetlen) (w\<lparr>rw_out := Some []\<rparr>))"

definition rec_chunk_step ::
  "recover_env \<Rightarrow> nat \<Rightarrow> bytes \<Rightarrow> sar_recovery_key \<Rightarrow> u64 \<Rightarrow> u64 \<Rightarrow> u64 \<Rightarrow> nat \<Rightarrow> rec_work \<Rightarrow> rec_flow option" where
  "rec_chunk_step env index target rk off rlen targetlen k w =
     (let pos = off + word_of_nat (k * SAR_PRESERVE_STAGE_MAX);
          wlen = (if off + rlen - pos > word_of_nat SAR_PRESERVE_STAGE_MAX then word_of_nat SAR_PRESERVE_STAGE_MAX
                  else off + rlen - pos)
      in case rec_decrypt (ve_read env index k) target rk off pos wlen targetlen w of
           None \<Rightarrow> None
         | Some (rd, st, w) \<Rightarrow>
             if \<not> rd then Some (Rec_Cleanup SAR_RECOVER_DECLINED_TARGET_IO w)
             else if st \<noteq> SAR_RECOVER_OK then Some (Rec_Cleanup SAR_RECOVER_DECLINED_MISMATCH w)
             else if \<not> NT_SUCCESS (ve_write env index k) then Some (Rec_Cleanup SAR_RECOVER_DECLINED_TARGET_IO w)
             else Some (Rec_Continue (w\<lparr>rw_out :=
               map_option (\<lambda>out. file_write out (unat pos) (take (unat wlen) (rw_pt w))) (rw_out w)\<rparr>)))"

definition rec_apply ::
  "recover_env \<Rightarrow> nat \<Rightarrow> bytes \<Rightarrow> u64 \<Rightarrow> sar_recovery_key \<Rightarrow> u64 \<Rightarrow> u64 \<Rightarrow> rec_work \<Rightarrow> rec_flow option" where
  "rec_apply env index target targetlen rk off rlen w =
     (case rec_open_temp env target targetlen w of
        None \<Rightarrow> None
      | Some (Rec_Cleanup s w) \<Rightarrow> Some (Rec_Cleanup s w)
      | Some (Rec_Continue w) \<Rightarrow>
          (case rec_steps (rec_chunk_step env index target rk off rlen targetlen) (rec_chunks rlen) w of
             None \<Rightarrow> None
           | Some (Rec_Cleanup s w) \<Rightarrow> Some (Rec_Cleanup s w)
           | Some (Rec_Continue w) \<Rightarrow>
               Some (Rec_Continue (w\<lparr>rw_applied := rw_applied w + 1, rw_recovered := rw_recovered w + rlen,
                 rw_end := (if off + rlen > rw_end w then off + rlen else rw_end w)\<rparr>))))"

definition rec_record ::
  "recover_env \<Rightarrow> bytes \<Rightarrow> bytes \<Rightarrow> u64 \<Rightarrow> nat \<times> keystore_record \<Rightarrow> rec_work \<Rightarrow> rec_flow option" where
  "rec_record env key_id target targetlen = (\<lambda>(index, r) w.
     if sar_memcmp (kr_key_id r) key_id SEMANTICS_AR_KEY_ID_SIZE \<noteq> 0 then Some (Rec_Continue w)
     else
       let w = w\<lparr>rw_matched := True\<rparr>
       in case rec_extent r targetlen of
            None \<Rightarrow> Some (Rec_Continue w)
          | Some (off, rlen, soff, slen) \<Rightarrow>
              let rk = sar_recovery_key_from_record r
              in case rec_decrypt (ve_read_sample env index) target rk off soff slen targetlen w of
                   None \<Rightarrow> None
                 | Some (rd, st, w) \<Rightarrow>
                     if \<not> rd then Some (Rec_Continue w)
                     else if st \<noteq> SAR_RECOVER_OK then Some (Rec_Continue w)
                     else if sar_memcmp (sar_sample_tag (rw_pt w) (unat slen)) (kr_sample_tag r) SEMANTICS_AR_MAC_SIZE \<noteq> 0
                     then Some (Rec_Continue w)
                     else rec_apply env index target targetlen rk off rlen w)"

text \<open>
  After the records: truncate and flush, or give the reason why nothing was recovered.
\<close>

definition rec_finish :: "recover_env \<Rightarrow> u64 \<Rightarrow> rec_work \<Rightarrow> sar_recover_status \<times> u64 \<times> rec_work" where
  "rec_finish env targetlen w =
     (if \<not> rw_matched w then (SAR_RECOVER_DECLINED_NO_KEY_ID, 0, w)
      else if rw_applied w = 0 then (SAR_RECOVER_DECLINED_MISMATCH, 0, w)
      else case rw_out w of
        None \<Rightarrow> (SAR_RECOVER_OK, rw_recovered w, w)
      | Some out \<Rightarrow>
          if rw_end w < targetlen \<and> \<not> NT_SUCCESS (ve_eof env) then (SAR_RECOVER_DECLINED_TARGET_IO, 0, w)
          else
            let w = (if rw_end w < targetlen then w\<lparr>rw_out := Some (take (unat (rw_end w)) out)\<rparr> else w)
            in if \<not> NT_SUCCESS (ve_flush env) then (SAR_RECOVER_DECLINED_TARGET_IO, 0, w)
               else (SAR_RECOVER_OK, rw_recovered w, w))"

definition rec_work_init :: rec_work where
  "rec_work_init = \<lparr>rw_ct = replicate (SAR_PRESERVE_STAGE_MAX + 16) 0, rw_pt = replicate SAR_PRESERVE_STAGE_MAX 0,
     rw_out = None, rw_matched = False, rw_applied = 0, rw_recovered = 0, rw_end = 0\<rparr>"

definition rec_store :: "rec_fs \<Rightarrow> u16 list \<Rightarrow> rec_work \<Rightarrow> rec_fs" where
  "rec_store fs temp w = (case rw_out w of None \<Rightarrow> fs | Some out \<Rightarrow> fs(temp \<mapsto> out))"

definition SarRecoveryExecute ::
  "recover_env \<Rightarrow> SAR_KEYSTORE option \<Rightarrow> bytes \<Rightarrow> u16 list \<Rightarrow> rec_fs \<Rightarrow> (sar_recover_status \<times> u64 \<times> rec_fs) option" where
  "SarRecoveryExecute env keystore key_id target_path fs =
     (case keystore of
        None \<Rightarrow> Some (SAR_RECOVER_DECLINED_TARGET_IO, 0, fs)
      | Some ks \<Rightarrow>
          if \<not> SarKeystoreReady keystore then Some (SAR_RECOVER_DECLINED_TARGET_IO, 0, fs)
          else if \<not> ve_pool_paths env then Some (SAR_RECOVER_INVALID, 0, fs)
          else case SarRecBuildPaths target_path of
            None \<Rightarrow> Some (SAR_RECOVER_INVALID, 0, fs)
          | Some (target, temp) \<Rightarrow>
              if \<not> ve_pool_work env then Some (SAR_RECOVER_INVALID, 0, fs)
              else case fs target of
                None \<Rightarrow> Some (SAR_RECOVER_DECLINED_TARGET_IO, 0, fs)
              | Some contents \<Rightarrow>
                  if \<not> NT_SUCCESS (ve_open env) then Some (SAR_RECOVER_DECLINED_TARGET_IO, 0, fs)
                  else
                    let targetlen = (if NT_SUCCESS (ve_query env) then word_of_nat (length contents) else 0) :: u64
                    in if targetlen = 0 then
                         (case SarRecWriteTemp (ve_create env) STATUS_SUCCESS (ve_flush env) fs temp [] of (s, fs) \<Rightarrow>
                            Some (if NT_SUCCESS s then SAR_RECOVER_OK else SAR_RECOVER_DECLINED_TARGET_IO, 0, fs))
                       else
                         (case rec_steps (rec_record env key_id contents targetlen) (enumerate 0 (dk_records ks)) rec_work_init of
                            None \<Rightarrow> None
                          | Some (Rec_Cleanup s w) \<Rightarrow> Some (s, 0, rec_store fs temp w)
                          | Some (Rec_Continue w) \<Rightarrow>
                              (case rec_finish env targetlen w of (s, bytes, w) \<Rightarrow> Some (s, bytes, rec_store fs temp w))))"

subsection \<open>Recovery of preserved regions\<close>

text \<open>
  The object manager's names: whether the file opens, the name of the open file, and what a drive's link stands for.
\<close>

record resolve_env =
  rn_open :: NTSTATUS
  rn_name :: "u16 list option"
  rn_link :: "u16 list \<Rightarrow> u16 list option"

definition SarRecResolveNtPath :: "resolve_env \<Rightarrow> u16 list \<Rightarrow> u16 list" where
  "SarRecResolveNtPath env dos_path =
     (let zero = replicate SEMANTICS_AR_PROVENANCE_PATH_MAX 0
      in if \<not> NT_SUCCESS (rn_open env) then
           (if length dos_path < 7 then zero
            else case rn_link env (take 6 dos_path) of
              None \<Rightarrow> zero
            | Some dev \<Rightarrow> splice_at zero 0 (take (SEMANTICS_AR_PROVENANCE_PATH_MAX - 1) (dev @ drop 6 dos_path)))
         else case rn_name env of
           None \<Rightarrow> zero
         | Some name \<Rightarrow> splice_at zero 0 (take (SEMANTICS_AR_PROVENANCE_PATH_MAX - 1) name))"

record preserve_recover_env =
  qe_pool_paths :: bool
  qe_pool_work :: bool
  qe_resolve :: resolve_env
  qe_restore :: restore_env
  qe_open :: NTSTATUS
  qe_query :: NTSTATUS
  qe_create :: NTSTATUS
  qe_read :: "nat \<Rightarrow> NTSTATUS"
  qe_write :: "nat \<Rightarrow> NTSTATUS"
  qe_flush :: NTSTATUS

text \<open>
  One chunk of the new file: what the target holds there, zeros behind it, and the region over both. \<open>th\<close> is the
  contents of the target when it could be opened.
\<close>

definition overlay_region :: "nat \<Rightarrow> bytes \<Rightarrow> nat \<Rightarrow> bytes \<Rightarrow> bytes" where
  "overlay_region off region pos chunk =
     (let ostart = max off pos;
          oend = min (off + length region) (pos + length chunk)
      in if ostart < oend then splice_at chunk (ostart - pos) (slice region (ostart - off) (oend - ostart)) else chunk)"

definition overlay_step ::
  "preserve_recover_env \<Rightarrow> bytes option \<Rightarrow> nat \<Rightarrow> nat \<Rightarrow> nat \<Rightarrow> bytes \<Rightarrow> nat \<Rightarrow> bytes \<Rightarrow> (bytes + bytes)" where
  "overlay_step env th targetlen final_size off region k out =
     (let pos = k * SAR_PRESERVE_STAGE_MAX;
          csize = min SAR_PRESERVE_STAGE_MAX (final_size - pos);
          chunk = replicate csize 0;
          (s, chunk) = (case th of
             None \<Rightarrow> (STATUS_SUCCESS, chunk)
           | Some contents \<Rightarrow>
               if pos < targetlen then zw_read (qe_read env k) contents chunk pos (min csize (targetlen - pos))
               else (STATUS_SUCCESS, chunk))
      in if \<not> NT_SUCCESS s then Inl out
         else if \<not> NT_SUCCESS (qe_write env k) then Inl out
         else Inr (file_write out pos (overlay_region off region pos chunk)))"

primrec overlay_loop :: "(nat \<Rightarrow> bytes \<Rightarrow> (bytes + bytes)) \<Rightarrow> nat list \<Rightarrow> bytes \<Rightarrow> (bytes + bytes)" where
  "overlay_loop f [] out = Inr out"
| "overlay_loop f (k # ks) out = (case f k out of Inl out \<Rightarrow> Inl out | Inr out \<Rightarrow> overlay_loop f ks out)"

definition SarPreserveRecoveryExecute ::
  "preserve_recover_env \<Rightarrow> SAR_PRESERVE option \<Rightarrow> payload_file \<Rightarrow> u16 list \<Rightarrow> u64 \<Rightarrow> u64 \<Rightarrow> rec_fs \<Rightarrow>
   sar_recover_status \<times> u64 \<times> rec_fs" where
  "SarPreserveRecoveryExecute env preserve d target_path off rlen fs =
     (if preserve = None then (SAR_RECOVER_DECLINED_TARGET_IO, 0, fs)
      else if rlen = 0 \<or> off + rlen < off then (SAR_RECOVER_INVALID, 0, fs)
      else if \<not> qe_pool_paths env then (SAR_RECOVER_INVALID, 0, fs)
      else case SarRecBuildPaths target_path of
        None \<Rightarrow> (SAR_RECOVER_INVALID, 0, fs)
      | Some (target, temp) \<Rightarrow>
          if \<not> qe_pool_work env then (SAR_RECOVER_INVALID, 0, fs)
          else
            let resolved = SarRecResolveNtPath (qe_resolve env) target;
                provpath = (if resolved ! 0 \<noteq> 0 then resolved else target_path)
            in case SarPreserveRestore (qe_restore env) preserve d provpath off rlen (ucast rlen) of (status, region) \<Rightarrow>
                 if \<not> NT_SUCCESS status \<or> length region \<noteq> unat (ucast rlen :: u32)
                 then (SAR_RECOVER_DECLINED_MISMATCH, 0, fs)
                 else
                   let th = (if NT_SUCCESS (qe_open env) then fs target else None);
                       targetlen = (case th of
                          None \<Rightarrow> 0
                        | Some contents \<Rightarrow> if NT_SUCCESS (qe_query env) then length contents else 0);
                       final_size = max (unat (off + rlen)) targetlen
                   in if \<not> NT_SUCCESS (qe_create env) then (SAR_RECOVER_DECLINED_TARGET_IO, 0, fs)
                      else case overlay_loop (overlay_step env th targetlen final_size (unat off) region)
                          (rec_chunks (word_of_nat final_size)) [] of
                        Inl out \<Rightarrow> (SAR_RECOVER_DECLINED_TARGET_IO, 0, fs(temp \<mapsto> out))
                      | Inr out \<Rightarrow>
                          if \<not> NT_SUCCESS (qe_flush env) then (SAR_RECOVER_DECLINED_TARGET_IO, 0, fs(temp \<mapsto> out))
                          else (SAR_RECOVER_OK, rlen, fs(temp \<mapsto> out)))"

section \<open>Chunks of a file\<close>

text \<open>
  Writing the parts of some contents in chunks, each behind the last, gives the contents.
\<close>

lemma file_write_append: "file_write xs (length xs) ys = xs @ ys"
  by (simp add: file_write_def)

lemma file_write_inside: "off + length bs \<le> length xs \<Longrightarrow> file_write xs off bs = splice_at xs off bs"
  by (simp add: file_write_def splice_at_def)

lemma rec_chunks_0 [simp]: "rec_chunks 0 = []"
  by (simp add: rec_chunks_def SAR_PRESERVE_STAGE_MAX_def)

lemma rec_chunks_cover:
  assumes "0 < len"
  shows "rec_chunks len = [0..<Suc ((unat len - 1) div SAR_PRESERVE_STAGE_MAX)]"
    "unat len \<le> Suc ((unat len - 1) div SAR_PRESERVE_STAGE_MAX) * SAR_PRESERVE_STAGE_MAX"
    "(unat len - 1) div SAR_PRESERVE_STAGE_MAX * SAR_PRESERVE_STAGE_MAX < unat len"
proof -
  have pos: "0 < unat len" using assms by (simp add: unat_gt_0 word_gt_0)
  have m: "0 < SAR_PRESERVE_STAGE_MAX" by (simp add: SAR_PRESERVE_STAGE_MAX_def)
  have "(unat len + SAR_PRESERVE_STAGE_MAX - 1) div SAR_PRESERVE_STAGE_MAX = ((unat len - 1) + SAR_PRESERVE_STAGE_MAX) div SAR_PRESERVE_STAGE_MAX"
    using pos by (metis (no_types) Nat.add_diff_assoc2 One_nat_def Suc_leI)
  also have "\<dots> = Suc ((unat len - 1) div SAR_PRESERVE_STAGE_MAX)" using m by (simp only: div_add_self2 neq0_conv Suc_eq_plus1)
  finally show "rec_chunks len = [0..<Suc ((unat len - 1) div SAR_PRESERVE_STAGE_MAX)]" by (simp only: rec_chunks_def)
  show "unat len \<le> Suc ((unat len - 1) div SAR_PRESERVE_STAGE_MAX) * SAR_PRESERVE_STAGE_MAX"
    using dividend_less_div_times [OF m, of "unat len - 1"] pos by simp
  show "(unat len - 1) div SAR_PRESERVE_STAGE_MAX * SAR_PRESERVE_STAGE_MAX < unat len"
    using div_times_less_eq_dividend [of "unat len - 1" SAR_PRESERVE_STAGE_MAX] pos by linarith
qed

lemma chunk_loop:
  assumes "\<And>k. k < n \<Longrightarrow> f k (take (k * m) F) = Inr (take (Suc k * m) F)"
  shows "i \<le> n \<Longrightarrow> overlay_loop f [i..<n] (take (i * m) F) = Inr (take (n * m) F)"
proof (induction "n - i" arbitrary: i)
  case (Suc d)
  then have "i < n" "d = n - Suc i" by simp_all
  then have "overlay_loop f [Suc i..<n] (take (Suc i * m) F) = Inr (take (n * m) F)" by (intro Suc.hyps(1)) simp_all
  with assms [OF \<open>i < n\<close>] show ?case by (simp only: upt_conv_Cons [OF \<open>i < n\<close>] overlay_loop.simps sum.case)
qed simp

lemma length_file_write: "length (file_write xs off bs) = max (length xs) (off + length bs)"
  by (simp add: file_write_def)

lemma file_write_nth:
  "i < max (length xs) (off + length bs) \<Longrightarrow>
   file_write xs off bs ! i =
     (if off \<le> i \<and> i < off + length bs then bs ! (i - off) else if i < length xs then xs ! i else 0)"
  by (auto simp: file_write_def nth_append min_def)

lemma splice_at_nth:
  "i + length bs \<le> length xs \<Longrightarrow> j < length xs \<Longrightarrow>
   splice_at xs i bs ! j = (if i \<le> j \<and> j < i + length bs then bs ! (j - i) else xs ! j)"
  by (auto simp: splice_at_def nth_append min_def)

lemma file_write_next: "pos = length out \<Longrightarrow> file_write out pos bs = out @ bs"
  by (simp add: file_write_append)

lemma overlay_chunk:
  assumes "pos + c \<le> length F" "F = file_write contents off region"
  defines "chunk \<equiv> (if pos < length contents then splice_at (replicate c 0) 0 (slice contents pos (min c (length contents - pos)))
                    else replicate c 0)"
  shows "overlay_region off region pos chunk = slice F pos c" (is "?l = _")
proof (rule nth_equalityI)
  have len: "length chunk = c" by (simp add: chunk_def slice_def)
  have F: "length F = max (length contents) (off + length region)" by (simp add: assms(2) length_file_write)
  show l: "length ?l = length (slice F pos c)" using assms(1) len by (auto simp: overlay_region_def Let_def slice_def)
  fix i assume "i < length ?l"
  with l assms(1) have i: "i < c" by (simp add: slice_def)
  have chunk: "chunk ! i = (if pos + i < length contents then contents ! (pos + i) else 0)"
    using i by (auto simp: chunk_def splice_at_nth slice_def)
  have "slice F pos c ! i = F ! (pos + i)" using i assms(1) by (simp add: slice_def)
  also have "\<dots> = (if off \<le> pos + i \<and> pos + i < off + length region then region ! (pos + i - off) else chunk ! i)"
    using i assms(1) F by (subst assms(2), subst file_write_nth) (auto simp: chunk)
  finally have F_i: "slice F pos c ! i =
    (if off \<le> pos + i \<and> pos + i < off + length region then region ! (pos + i - off) else chunk ! i)" .
  define os oe where "os = max off pos" and "oe = min (off + length region) (pos + c)"
  have os: "off \<le> os" "pos \<le> os" "os = off \<or> os = pos" by (auto simp: os_def)
  have oe: "oe \<le> off + length region" "oe \<le> pos + c" "oe = off + length region \<or> oe = pos + c" by (auto simp: oe_def)
  show "?l ! i = slice F pos c ! i"
  proof (cases "os < oe")
    case True
    have sl: "length (slice region (os - off) (oe - os)) = oe - os" using True os oe by (simp add: slice_def)
    have fit: "os - pos + (oe - os) \<le> c" using True os oe by linarith
    have "?l ! i = splice_at chunk (os - pos) (slice region (os - off) (oe - os)) ! i"
      using True by (simp add: overlay_region_def len flip: os_def oe_def)
    also have "\<dots> = (if os - pos \<le> i \<and> i < os - pos + (oe - os) then slice region (os - off) (oe - os) ! (i - (os - pos)) else chunk ! i)"
      using fit i by (subst splice_at_nth) (simp_all only: sl len)
    also have "\<dots> = slice F pos c ! i"
    proof (cases "os - pos \<le> i \<and> i < os - pos + (oe - os)")
      case in_region: True
      then have "os - off + (i - (os - pos)) = pos + i - off" "i - (os - pos) < oe - os" "os - off \<le> length region"
        using True os oe by linarith+
      then have "slice region (os - off) (oe - os) ! (i - (os - pos)) = region ! (pos + i - off)" by (simp only: slice_def nth_take nth_drop)
      moreover have "off \<le> pos + i \<and> pos + i < off + length region" using in_region True os oe by linarith
      ultimately show ?thesis using in_region F_i by simp
    next
      case outside: False
      then have "\<not> (off \<le> pos + i \<and> pos + i < off + length region)" using True os oe i by linarith
      with outside F_i show ?thesis by (simp only: if_not_P if_False)
    qed
    finally show ?thesis .
  next
    case False
    then have "\<not> (off \<le> pos + i \<and> pos + i < off + length region)" using i os oe by linarith
    with False F_i show ?thesis by (simp add: overlay_region_def len flip: os_def oe_def)
  qed
qed

section \<open>A preserved region is put back\<close>

text \<open>
  Every call on the files answers success: the reading of the target, the writing and flushing of the temporary file.
\<close>

definition overlay_io_ok :: "preserve_recover_env \<Rightarrow> bool" where
  "overlay_io_ok env \<longleftrightarrow> qe_pool_paths env \<and> qe_pool_work env \<and> NT_SUCCESS (qe_query env) \<and> NT_SUCCESS (qe_create env) \<and>
     (\<forall>k. NT_SUCCESS (qe_read env k)) \<and> (\<forall>k. NT_SUCCESS (qe_write env k)) \<and> NT_SUCCESS (qe_flush env)"

definition th_contents :: "bytes option \<Rightarrow> bytes" where
  "th_contents th = (case th of None \<Rightarrow> [] | Some contents \<Rightarrow> contents)"

lemma overlay_step_exact:
  assumes io: "overlay_io_ok env" and F: "F = file_write (th_contents th) off region" and k: "k * SAR_PRESERVE_STAGE_MAX < length F"
  shows "overlay_step env th (length (th_contents th)) (length F) off region k (take (k * SAR_PRESERVE_STAGE_MAX) F) =
    Inr (take (Suc k * SAR_PRESERVE_STAGE_MAX) F)"
proof -
  let ?pos = "k * SAR_PRESERVE_STAGE_MAX"
  let ?c = "min SAR_PRESERVE_STAGE_MAX (length F - ?pos)"
  have fit: "?pos + ?c \<le> length F" using k by simp
  have join: "take ?pos F @ slice F ?pos ?c = take (Suc k * SAR_PRESERVE_STAGE_MAX) F"
    using k by (cases "SAR_PRESERVE_STAGE_MAX \<le> length F - ?pos") (simp_all add: slice_def add.commute [of SAR_PRESERVE_STAGE_MAX] take_add)
  have out: "length (take ?pos F) = ?pos" using k by simp
  have next_chunk: "file_write (take ?pos F) ?pos chunk = take ?pos F @ chunk" for chunk by (rule file_write_next) (simp only: out)
  note chunk = overlay_chunk [OF fit F]
  show ?thesis
  proof (cases th)
    case None
    then show ?thesis using io chunk join
      by (simp add: overlay_step_def overlay_io_ok_def Let_def th_contents_def next_chunk)
  next
    case (Some contents)
    then show ?thesis using io chunk join
      by (cases "?pos < length contents")
        (simp_all add: overlay_step_def overlay_io_ok_def Let_def th_contents_def next_chunk zw_read_def)
  qed
qed

lemma overlay_loop_exact:
  assumes io: "overlay_io_ok env" and F: "F = file_write (th_contents th) off region" and fit: "length F < 2 ^ 64"
  shows "overlay_loop (overlay_step env th (length (th_contents th)) (length F) off region) (rec_chunks (word_of_nat (length F))) [] = Inr F"
proof (cases "F = []")
  case False
  let ?m = SAR_PRESERVE_STAGE_MAX
  let ?n = "Suc ((length F - 1) div ?m)"
  have u: "unat (word_of_nat (length F) :: u64) = length F" using fit by (simp add: unat_of_nat take_bit_nat_eq_self)
  have pos: "0 < (word_of_nat (length F) :: u64)" using False by (simp add: word_less_nat_alt u)
  note cover = rec_chunks_cover [OF pos, unfolded u]
  have step: "overlay_step env th (length (th_contents th)) (length F) off region k (take (k * ?m) F) = Inr (take (Suc k * ?m) F)"
    if "k < ?n" for k
  proof (rule overlay_step_exact [OF io F])
    have "k * ?m \<le> (length F - 1) div ?m * ?m" using that by (intro mult_le_mono1) simp
    with cover(3) show "k * ?m < length F" by linarith
  qed
  have "overlay_loop (overlay_step env th (length (th_contents th)) (length F) off region) [0..<?n] (take (0 * ?m) F) = Inr (take (?n * ?m) F)"
    by (rule chunk_loop, erule step, rule le0)
  moreover have "take (?n * ?m) F = F" by (rule take_all) (rule cover(2))
  ultimately show ?thesis by (simp only: cover(1) mult_0 take_0)
qed simp

lemma overlay_final_size:
  assumes "off \<le> off + rlen" "unat rlen < 2 ^ 32" "length region = unat (ucast rlen :: u32)"
  shows "max (unat (off + rlen)) (length c) = length (file_write c (unat off) region)"
proof -
  have "unat (off + rlen) = unat off + unat rlen" using assms(1) by (simp only: unat_plus_simple)
  moreover have "length region = unat rlen" using assms(2,3) by (simp add: unsigned_ucast_eq take_bit_nat_eq_self)
  ultimately show ?thesis by (simp add: length_file_write max.commute)
qed

lemma th_length:
  "NT_SUCCESS q \<Longrightarrow> (case th of None \<Rightarrow> 0 | Some contents \<Rightarrow> if NT_SUCCESS q then length contents else 0) = length (th_contents th)"
  by (simp add: th_contents_def split: option.split)

text \<open>
  When the region is restored from the store and every call on the files succeeds, the driver answers OK with the length
  of the region, and the temporary file holds the target's present contents with the region written at its offset.
\<close>

lemma preserve_recovery_exact:
  assumes io: "overlay_io_ok env" and paths: "SarRecBuildPaths path = Some (target, temp)"
    and range: "0 < rlen" "off \<le> off + rlen" "unat rlen < 2 ^ 32"
    and resolved: "resolved = SarRecResolveNtPath (qe_resolve env) target"
    and restore: "SarPreserveRestore (qe_restore env) (Some p) d (if resolved ! 0 \<noteq> 0 then resolved else path) off rlen (ucast rlen)
      = (STATUS_SUCCESS, region)" "length region = unat rlen"
    and th: "th = (if NT_SUCCESS (qe_open env) then fs target else None)" "length (th_contents th) < 2 ^ 64"
  shows "SarPreserveRecoveryExecute env (Some p) d path off rlen fs =
    (SAR_RECOVER_OK, rlen, fs(temp \<mapsto> file_write (th_contents th) (unat off) region))"
proof -
  let ?F = "file_write (th_contents th) (unat off) region"
  have q: "NT_SUCCESS (qe_query env)" using io by (simp add: overlay_io_ok_def)
  have len: "length region = unat (ucast rlen :: u32)"
    using range(3) restore(2) by (simp add: unsigned_ucast_eq take_bit_nat_eq_self)
  have size: "max (unat (off + rlen)) (length (th_contents th)) = length ?F"
    by (rule overlay_final_size [OF range(2,3) len])
  then have fit: "length ?F < 2 ^ 64" using th(2) unsigned_less [of "off + rlen"] by (simp flip: size)
  note loop = overlay_loop_exact [OF io refl fit]
  have ok: "\<not> (rlen = 0 \<or> off + rlen < off)" using range(1,2) by auto
  have calls: "qe_pool_paths env" "qe_pool_work env" "NT_SUCCESS (qe_create env)" "NT_SUCCESS (qe_flush env)"
    using io by (simp_all only: overlay_io_ok_def)
  have "NT_SUCCESS STATUS_SUCCESS" by simp
  then show ?thesis unfolding SarPreserveRecoveryExecute_def Let_def resolved [symmetric]
    by (simp only: paths calls ok option.case prod.case restore(1) if_True if_False simp_thms option.distinct len loop sum.case
      th_length [OF q] size resolved [symmetric] th(1) [symmetric])
qed

text \<open>
  C6: a destroyed range is put back. A request to save a range of a file, of which the store has no record yet, is answered
  as stored or covered. Later, whatever the file then holds, recovering any non-empty part of the range under the name
  the file resolves to answers OK, and the temporary file that replaces the target holds the target's present contents
  with exactly the saved bytes written over that part, zeros filling a gap before it; no other file changes.
\<close>

theorem staged_range_put_back:
  assumes "store_ok D p d" "space_ok (se_rebuild (env 0)) bound p" "\<forall>k. env_wf D (env k)"
    "stage_request st prov offset plaintext plen actor" "bound + 16 * unat plen < 2 ^ 64"
    "SarPreserveStage env now st (Some p) d prov offset len actor plaintext plen resv = (r, Some p', d')"
    "r = SAR_STAGE_STORED \<or> r = SAR_STAGE_ALREADY_COVERED" "sp_ready p" "sp_data_handle p"
    "\<forall>s \<in> set (sp_records p). \<not> sar_pres_path_eq (pr_provenance_path s) prov" "len \<noteq> 0"
    and part: "offset \<le> off" "0 < n" "unat off + unat n \<le> unat offset + unat plen"
    and io: "overlay_io_ok renv" "restore_works D (qe_restore renv)" "SarRecBuildPaths path = Some (target, temp)"
      "SarRecResolveNtPath (qe_resolve renv) target = prov" "prov ! 0 \<noteq> 0"
    and target: "NT_SUCCESS (qe_open renv)" "fs target = Some contents" "length contents < 2 ^ 64"
  shows "SarPreserveRecoveryExecute renv (Some p') d' path off n fs =
    (SAR_RECOVER_OK, n, fs(temp \<mapsto> file_write contents (unat off) (slice plaintext (unat off - unat offset) (unat n))))"
proof -
  have req: "unat offset + unat plen < 2 ^ 63" "length plaintext = unat plen" using assms(4) by (simp_all add: stage_request_def)
  have n: "unat n < 2 ^ 32" using part(1,3) unsigned_less [of plen, where ?'a = nat] by (simp add: word_le_nat_alt)
  then have "unat (ucast n :: u32) = unat n" by (simp add: unsigned_ucast_eq take_bit_nat_eq_self)
  then have cap: "n \<le> ucast (ucast n :: u32)" using unsigned_less [of n, where ?'a = nat]
    by (subst word_le_nat_alt, subst unsigned_ucast_eq) (simp add: take_bit_nat_eq_self)
  have "unat off + unat n < 2 ^ 64" using part(3) req(1) by simp
  then have "off \<le> off + n" by (simp add: word_le_nat_alt unat_word_ariths)
  moreover have "length (slice plaintext (unat off - unat offset) (unat n)) = unat n"
    using part req(2) by (simp add: slice_def word_le_nat_alt)
  moreover have "SarPreserveRestore (qe_restore renv) (Some p') d' prov off n (ucast n) =
      (STATUS_SUCCESS, slice plaintext (unat off - unat offset) (unat n))"
    by (rule stage_then_restore [OF assms(1-9) io(2) assms(10,11) part cap])
  ultimately show ?thesis
    using preserve_recovery_exact [OF io(1,3) part(2) _ n io(4) [symmetric], of off p' d' "slice plaintext (unat off - unat offset) (unat n)"
        "fs target" fs] io(5) target
    by (simp add: th_contents_def)
qed

definition overlay_example :: preserve_recover_env where
  "overlay_example = \<lparr>qe_pool_paths = True, qe_pool_work = True,
     qe_resolve = \<lparr>rn_open = STATUS_SUCCESS, rn_name = Some [65, 65, 65], rn_link = (\<lambda>_. None)\<rparr>,
     qe_restore = restore_example, qe_open = STATUS_SUCCESS, qe_query = STATUS_SUCCESS, qe_create = STATUS_SUCCESS,
     qe_read = (\<lambda>_. STATUS_SUCCESS), qe_write = (\<lambda>_. STATUS_SUCCESS), qe_flush = STATUS_SUCCESS\<rparr>"

theorem staged_range_put_back_witness:
  "\<exists>q e target temp. staged_example = (SAR_STAGE_STORED, Some q, e) \<and>
     SarPreserveRecoveryExecute overlay_example (Some q) e path_example 101 3 [target \<mapsto> replicate 110 7] =
       (SAR_RECOVER_OK, 3, [target \<mapsto> replicate 110 7, temp \<mapsto> replicate 101 7 @ [2, 3, 4] @ replicate 6 7])"
proof -
  obtain q e where out: "staged_example = (SAR_STAGE_STORED, Some q, e)" using staged_example_stored by blast
  have works: "restore_works (\<lambda>key iv c. Some (rev c)) (qe_restore overlay_example)"
    by (auto simp: restore_works_def overlay_example_def restore_example_def cipher_example_def)
  have io: "overlay_io_ok overlay_example" by (simp add: overlay_io_ok_def overlay_example_def)
  have built: "SarRecBuildPaths path_example = Some ([92, 63, 63, 92, 65, 65, 65], [92, 63, 63, 92, 65, 65, 65] @ SAR_REC_TMP_SUFFIX)"
    by code_simp
  have name: "SarRecResolveNtPath (qe_resolve overlay_example) [92, 63, 63, 92, 65, 65, 65] = path_example"
    by (simp add: SarRecResolveNtPath_def overlay_example_def path_example_def SEMANTICS_AR_PROVENANCE_PATH_MAX_def splice_at_def numeral_3_eq_3)
  have "SarPreserveRecoveryExecute overlay_example (Some q) e path_example 101 3 [[92, 63, 63, 92, 65, 65, 65] \<mapsto> replicate 110 7] =
      (SAR_RECOVER_OK, 3, [[92, 63, 63, 92, 65, 65, 65] \<mapsto> replicate 110 7, [92, 63, 63, 92, 65, 65, 65] @ SAR_REC_TMP_SUFFIX \<mapsto>
        file_write (replicate 110 7) (unat (101 :: u64)) (slice [1, 2, 3, 4, 5] (unat (101 :: u64) - unat (100 :: u64)) (unat (3 :: u64)))])"
    by (rule staged_range_put_back [OF stage_example_ok _ out [unfolded staged_example_def] _ _ _ _ _ _ _ _ io works built name])
      (simp_all add: store_example_def SarPreserveCreate_def path_example_def overlay_example_def nth_append)
  then show ?thesis using out
    by (intro exI [of _ q] exI [of _ e] exI [of _ "[92, 63, 63, 92, 65, 65, 65]"] exI [of _ "[92, 63, 63, 92, 65, 65, 65] @ SAR_REC_TMP_SUFFIX"])
      (simp add: slice_def file_write_def)
qed

end
