(* ===== verification/Recovery_Correct.thy ===== *)
theory Recovery_Correct
  imports Recovery_Driver
begin

text \<open>
  What recovery from captured keys in the driver, \<^verbatim>\<open>driver/recovery.c\<close>, achieves: the temporary file is the plaintext.
  The chunks of the decryption, each read with the block before it, add up to the decryption of the whole segment, and the
  sample check lets only the matching key write.
\<close>

section \<open>One part of the file\<close>

definition sound_key :: "sar_recovery_key \<Rightarrow> rec_ciphers \<Rightarrow> bool" where
  "sound_key rk cs \<longleftrightarrow> precheck rk = SAR_RECOVER_OK \<and> build_ciphers rk = Some cs \<and> key_ready rk \<and> rk_algorithm rk \<noteq> SAR_ALG_RC4"

text \<open>
  A part the driver decrypts in one piece: it starts at a block, at the start of the file or with room for the block
  before it, and fits the buffer. A good part has whole blocks only, where the mode wants them.
\<close>

definition fair_part :: "sar_recovery_key \<Rightarrow> nat \<Rightarrow> nat \<Rightarrow> nat \<Rightarrow> bool" where
  "fair_part rk pos n len \<longleftrightarrow> rk_unit rk dvd pos \<and> (pos = 0 \<or> 16 \<le> pos) \<and> 0 < n \<and> n \<le> SAR_PRESERVE_STAGE_MAX \<and> pos + n \<le> len"

definition good_part :: "sar_recovery_key \<Rightarrow> nat \<Rightarrow> nat \<Rightarrow> nat \<Rightarrow> bool" where
  "good_part rk pos n len \<longleftrightarrow> fair_part rk pos n len \<and> rk_whole rk n = n"

definition work_ok :: "rec_work \<Rightarrow> bool" where
  "work_ok w \<longleftrightarrow> length (rw_ct w) = SAR_PRESERVE_STAGE_MAX + 16 \<and> length (rw_pt w) = SAR_PRESERVE_STAGE_MAX"

lemma rk_unit_le: "rk_unit rk \<le> 16"
  by (simp add: rk_unit_def alg_block_def)

lemma zw_read_inside:
  assumes "NT_SUCCESS rd" "off + n \<le> length contents" "0 < n" "n \<le> length buf"
  shows "zw_read rd contents buf off n = (STATUS_SUCCESS, splice_at buf 0 (slice contents off n))"
    "take n (splice_at buf 0 (slice contents off n)) = slice contents off n"
    "length (splice_at buf 0 (slice contents off n)) = length buf"
  using assms by (simp_all add: zw_read_def splice_at_def slice_def)

lemma rec_decrypt_part:
  assumes key: "sound_key rk cs" and seg: "segment contents 0 (sar_encrypt rk cs P)" "length P \<le> length contents"
    and size: "length contents < 2 ^ 64" and part: "fair_part rk (unat pos) (unat n) (length P)" and w: "work_ok w" and rd: "NT_SUCCESS rd"
  shows "\<exists>ct. length ct = SAR_PRESERVE_STAGE_MAX + 16 \<and> rec_decrypt rd contents rk 0 pos n (word_of_nat (length contents)) w =
    Some (True, SAR_RECOVER_OK, w\<lparr>rw_ct := ct, rw_pt := splice_at (rw_pt w) 0 (slice P (unat pos) (rk_whole rk (unat n)))\<rparr>)"
proof -
  define prefix where "prefix = (if pos \<ge> 16 then 16 else 0 :: nat)"
  have pre: "prefix \<le> unat pos" "prefix \<le> 16" "unat pos \<noteq> 0 \<Longrightarrow> prefix = 16"
    using part by (auto simp: prefix_def word_le_nat_alt fair_part_def)
  have fit: "unat pos - prefix + (prefix + unat n) \<le> length contents" "0 < prefix + unat n" "prefix + unat n \<le> length (rw_ct w)"
    using part seg(2) pre w by (auto simp: fair_part_def work_ok_def)
  note read = zw_read_inside [OF rd fit]
  let ?w = "\<lparr>w_bytes = slice contents (unat pos - prefix) (prefix + unat n), w_before = prefix, w_base = unat pos\<rparr>"
  have len: "length (w_bytes ?w) = prefix + unat n" using fit(1) by (simp add: slice_def)
  have win: "window_of contents ?w" "window_lo ?w = unat pos - prefix" "window_hi ?w = unat pos + unat n"
    using fit(1) pre(1) len by (simp_all add: window_of_def window_lo_def window_hi_def)
  have "sar_recover_chunk rk SAR_CTR_CONTINUOUS ?w (rw_pt w) 0 pos n (word_of_nat (length contents)) =
      Some (SAR_RECOVER_OK, splice_at (rw_pt w) (unat pos - w_base ?w) (slice P (unat pos) (rk_whole rk (unat n))))"
  proof (rule recover_chunk_part [where org = 0 and cs = cs])
    show "window_lo ?w + (if unat pos = 0 then 0 else rk_unit rk) \<le> unat pos"
      using pre rk_unit_le [of rk] by (auto simp: win(2))
    show "unat pos + unat n \<le> unat (word_of_nat (length contents) :: u64)"
      using part seg(2) by (simp add: unat_u64_of_nat [OF size] fair_part_def)
  qed (use key seg part w win in \<open>simp_all add: sound_key_def fair_part_def work_ok_def policy_origin_def SAR_CTR_CONTINUOUS_def
        SAR_CTR_RESET_PER_CHUNK_def word_less_nat_alt\<close>)
  then show ?thesis using read w part
    by (intro exI [of _ "splice_at (rw_ct w) 0 (slice contents (unat pos - prefix) (prefix + unat n))"]) (simp add: rec_decrypt_def Let_def work_ok_def fair_part_def flip: prefix_def)
qed

lemma rec_decrypt_exact:
  assumes "sound_key rk cs" "segment contents 0 (sar_encrypt rk cs P)" "length P \<le> length contents" "length contents < 2 ^ 64"
    "good_part rk (unat pos) (unat n) (length P)" "work_ok w" "NT_SUCCESS rd"
  shows "\<exists>ct. length ct = SAR_PRESERVE_STAGE_MAX + 16 \<and> rec_decrypt rd contents rk 0 pos n (word_of_nat (length contents)) w =
    Some (True, SAR_RECOVER_OK, w\<lparr>rw_ct := ct, rw_pt := splice_at (rw_pt w) 0 (slice P (unat pos) (unat n))\<rparr>)"
  using rec_decrypt_part [OF assms(1-4) _ assms(6,7), of pos n] assms(5) by (simp add: good_part_def)

section \<open>The chunks of the file\<close>

lemma rec_steps_upt:
  assumes "\<And>k w. k < n \<Longrightarrow> holds k w \<Longrightarrow> \<exists>w'. f k w = Some (Rec_Continue w') \<and> holds (Suc k) w'"
  shows "i \<le> n \<Longrightarrow> holds i w \<Longrightarrow> \<exists>w'. rec_steps f [i..<n] w = Some (Rec_Continue w') \<and> holds n w'"
proof (induction "n - i" arbitrary: i w)
  case (Suc d)
  then have i: "i < n" "d = n - Suc i" by simp_all
  obtain w' where w': "f i w = Some (Rec_Continue w')" "holds (Suc i) w'" using assms [OF i(1) Suc.prems(2)] by blast
  with Suc.hyps(1) [OF i(2)] i(1) obtain w'' where "rec_steps f [Suc i..<n] w' = Some (Rec_Continue w'')" "holds n w''"
    by (metis Suc_leI)
  then show ?case using w'(1) by (simp add: upt_conv_Cons [OF i(1)])
qed auto

text \<open>
  Only the buffers and the temporary file have changed since \<open>w0\<close>, and the file now holds \<open>out\<close>.
\<close>

definition progress :: "rec_work \<Rightarrow> bytes \<Rightarrow> rec_work \<Rightarrow> bool" where
  "progress w0 out w \<longleftrightarrow> work_ok w \<and> w = w0\<lparr>rw_ct := rw_ct w, rw_pt := rw_pt w, rw_out := Some out\<rparr>"

lemma progress_step:
  assumes "progress w0 out w" "length ct = SAR_PRESERVE_STAGE_MAX + 16" "length pt = SAR_PRESERVE_STAGE_MAX"
  shows "progress w0 out' (w\<lparr>rw_ct := ct, rw_pt := pt, rw_out := Some out'\<rparr>)"
  using assms unfolding progress_def work_ok_def by (cases w, cases w0) simp

lemma progressD:
  assumes "progress w0 out w"
  shows "work_ok w" "rw_out w = Some out" "rw_matched w = rw_matched w0" "rw_applied w = rw_applied w0"
    "rw_recovered w = rw_recovered w0" "rw_end w = rw_end w0"
  using assms by (cases w, cases w0, simp add: progress_def)+

lemma chunk_bounds:
  fixes len :: u64
  assumes "0 < len" "k < Suc ((unat len - 1) div SAR_PRESERVE_STAGE_MAX)"
  shows "k * SAR_PRESERVE_STAGE_MAX < unat len"
proof -
  have "k * SAR_PRESERVE_STAGE_MAX \<le> (unat len - 1) div SAR_PRESERVE_STAGE_MAX * SAR_PRESERVE_STAGE_MAX"
    using assms(2) by (intro mult_le_mono1) simp
  then show ?thesis using rec_chunks_cover(3) [OF assms(1)] by linarith
qed

text \<open>
  A loop whose steps each extend what is done by a chunk, ends with everything done.
\<close>

lemma rec_chunk_loop:
  assumes len: "0 < len" and start: "holds 0 w"
    and step: "\<And>k w. k * SAR_PRESERVE_STAGE_MAX < unat len \<Longrightarrow> holds (k * SAR_PRESERVE_STAGE_MAX) w \<Longrightarrow>
      \<exists>w'. f k w = Some (Rec_Continue w') \<and> holds (min (Suc k * SAR_PRESERVE_STAGE_MAX) (unat len)) w'"
  shows "\<exists>w'. rec_steps f (rec_chunks len) w = Some (Rec_Continue w') \<and> holds (unat len) w'"
proof -
  let ?n = "Suc ((unat len - 1) div SAR_PRESERVE_STAGE_MAX)"
  have "\<exists>w'. rec_steps f [0..<?n] w = Some (Rec_Continue w') \<and> holds (min (?n * SAR_PRESERVE_STAGE_MAX) (unat len)) w'"
  proof (rule rec_steps_upt [where holds = "\<lambda>k. holds (min (k * SAR_PRESERVE_STAGE_MAX) (unat len))"])
    fix k w' assume k: "k < ?n" "holds (min (k * SAR_PRESERVE_STAGE_MAX) (unat len)) w'"
    then show "\<exists>w''. f k w' = Some (Rec_Continue w'') \<and> holds (min (Suc k * SAR_PRESERVE_STAGE_MAX) (unat len)) w''"
      using step [of k w'] chunk_bounds [OF len k(1)] by simp
  qed (use start in simp_all)
  moreover have "min (?n * SAR_PRESERVE_STAGE_MAX) (unat len) = unat len" using rec_chunks_cover(2) [OF len] by (rule min_absorb2)
  ultimately show ?thesis by (simp only: rec_chunks_cover(1) [OF len])
qed

lemma file_write_patch:
  assumes "pos + n \<le> length P" "length P \<le> length contents"
  shows "file_write (take pos P @ drop pos contents) pos (slice P pos n) = take (pos + n) P @ drop (pos + n) contents"
  using assms by (simp add: file_write_def slice_def take_add add.commute [of n])

lemma rec_copy_exact:
  assumes "\<forall>k. NT_SUCCESS (ve_copy_read env k)" "\<forall>k. NT_SUCCESS (ve_copy_write env k)"
    and size: "length contents < 2 ^ 64" "contents \<noteq> []" and w: "work_ok w"
  shows "\<exists>w'. rec_steps (rec_copy_step env contents (word_of_nat (length contents))) (rec_chunks (word_of_nat (length contents)))
      (w\<lparr>rw_out := Some []\<rparr>) = Some (Rec_Continue w') \<and> progress w contents w'"
proof -
  let ?len = "word_of_nat (length contents) :: u64"
  have u: "unat ?len = length contents" by (rule unat_u64_of_nat [OF size(1)])
  have pos: "0 < ?len" using size(2) by (simp add: word_less_nat_alt u)
  have "\<exists>w'. rec_steps (rec_copy_step env contents ?len) (rec_chunks ?len) (w\<lparr>rw_out := Some []\<rparr>) = Some (Rec_Continue w') \<and>
      progress w (take (unat ?len) contents) w'"
  proof (rule rec_chunk_loop [OF pos, where holds = "\<lambda>k. progress w (take k contents)"])
    show "progress w (take 0 contents) (w\<lparr>rw_out := Some []\<rparr>)" using w by (simp add: progress_def work_ok_def)
  next
    fix k w' assume k: "k * SAR_PRESERVE_STAGE_MAX < unat ?len" "progress w (take (k * SAR_PRESERVE_STAGE_MAX) contents) w'"
    define p where "p = k * SAR_PRESERVE_STAGE_MAX"
    define c where "c = min SAR_PRESERVE_STAGE_MAX (length contents - p)"
    have fit: "p + c \<le> length contents" "0 < c" "c \<le> length (rw_ct w')"
      using k by (auto simp: c_def u p_def progress_def work_ok_def SAR_PRESERVE_STAGE_MAX_def)
    note read = zw_read_inside [OF assms(1) [THEN spec, of k] fit]
    note w' = progressD [OF k(2)]
    define ct where "ct = splice_at (rw_ct w') 0 (slice contents p c)"
    have "min (Suc k * SAR_PRESERVE_STAGE_MAX) (length contents) = p + c" using k(1) by (simp add: c_def u p_def)
    moreover have "file_write (take p contents) p (slice contents p c) = take (p + c) contents"
      using file_write_patch [OF fit(1) order.refl] fit(1) by (simp add: file_write_def slice_def take_add)
    ultimately have "rec_copy_step env contents ?len k w' =
        Some (Rec_Continue (w'\<lparr>rw_ct := ct, rw_pt := rw_pt w', rw_out := Some (take (min (Suc k * SAR_PRESERVE_STAGE_MAX) (unat ?len)) contents)\<rparr>))"
      using read(1,2) assms(2) w'(2) unfolding rec_copy_step_def Let_def u p_def [symmetric] c_def [symmetric] ct_def [symmetric] by simp
    moreover have "length ct = SAR_PRESERVE_STAGE_MAX + 16" using read(3) w'(1) by (simp add: ct_def work_ok_def)
    ultimately show "\<exists>w''. rec_copy_step env contents ?len k w' = Some (Rec_Continue w'') \<and>
        progress w (take (min (Suc k * SAR_PRESERVE_STAGE_MAX) (unat ?len)) contents) w''"
      using progress_step [OF k(2)] w'(1) unfolding work_ok_def by blast
  qed
  then show ?thesis by (simp add: u)
qed

definition rec_io_ok :: "recover_env \<Rightarrow> bool" where
  "rec_io_ok env \<longleftrightarrow> ve_pool_paths env \<and> ve_pool_work env \<and> NT_SUCCESS (ve_open env) \<and> NT_SUCCESS (ve_query env) \<and>
     NT_SUCCESS (ve_create env) \<and> (\<forall>i. NT_SUCCESS (ve_read_sample env i)) \<and> (\<forall>k. NT_SUCCESS (ve_copy_read env k)) \<and>
     (\<forall>k. NT_SUCCESS (ve_copy_write env k)) \<and> (\<forall>i k. NT_SUCCESS (ve_read env i k)) \<and>
     (\<forall>i k. NT_SUCCESS (ve_write env i k)) \<and> NT_SUCCESS (ve_eof env) \<and> NT_SUCCESS (ve_flush env)"

lemma rk_unit_stage: "rk_unit rk dvd SAR_PRESERVE_STAGE_MAX"
  by (simp add: rk_unit_def alg_block_def SAR_PRESERVE_STAGE_MAX_def)

lemma rk_whole_rest:
  assumes "rk_whole rk n = n" "rk_unit rk dvd p" "p \<le> n"
  shows "rk_whole rk (n - p) = n - p"
proof (cases "rk_whole rk (n - p) = (n - p) div rk_unit rk * rk_unit rk")
  case True
  show ?thesis
  proof (cases "rk_mode rk = SAR_MODE_ECB \<or> rk_mode rk = SAR_MODE_CBC \<or> rk_mode rk = SAR_MODE_XTS")
    case whole: True
    then have "n div rk_unit rk * rk_unit rk = n" using assms(1) by (auto simp: rk_whole_def)
    then have "rk_unit rk dvd n" by (metis dvd_triv_right)
    then have "rk_unit rk dvd n - p" using assms(2,3) by (simp add: dvd_diff_nat)
    with True show ?thesis by simp
  qed (auto simp: rk_whole_def)
qed (auto simp: rk_whole_def)

lemma rk_whole_stage: "rk_whole rk SAR_PRESERVE_STAGE_MAX = SAR_PRESERVE_STAGE_MAX"
  using rk_unit_stage [of rk] by (simp add: rk_whole_def)

lemma good_chunk:
  assumes "rk_whole rk len = len" "k * SAR_PRESERVE_STAGE_MAX < len"
  shows "good_part rk (k * SAR_PRESERVE_STAGE_MAX) (min SAR_PRESERVE_STAGE_MAX (len - k * SAR_PRESERVE_STAGE_MAX)) len"
proof -
  have "rk_unit rk dvd k * SAR_PRESERVE_STAGE_MAX" by (intro dvd_mult rk_unit_stage)
  moreover from this have "rk_whole rk (min SAR_PRESERVE_STAGE_MAX (len - k * SAR_PRESERVE_STAGE_MAX)) = min SAR_PRESERVE_STAGE_MAX (len - k * SAR_PRESERVE_STAGE_MAX)"
    using rk_whole_rest [OF assms(1)] assms(2) by (auto simp: min_def rk_whole_stage)
  moreover have "k * SAR_PRESERVE_STAGE_MAX = 0 \<or> 16 \<le> k * SAR_PRESERVE_STAGE_MAX" by (cases k) (simp_all add: SAR_PRESERVE_STAGE_MAX_def)
  ultimately show ?thesis using assms(2) by (auto simp: good_part_def fair_part_def SAR_PRESERVE_STAGE_MAX_def)
qed

text \<open>
  The place and length of a chunk as the loop computes them in 64-bit words.
\<close>

lemma chunk_words:
  fixes rlen :: u64
  assumes "k * SAR_PRESERVE_STAGE_MAX < unat rlen"
  defines "pos \<equiv> word_of_nat (k * SAR_PRESERVE_STAGE_MAX) :: u64"
  shows "unat pos = k * SAR_PRESERVE_STAGE_MAX"
    "unat (if rlen - pos > word_of_nat SAR_PRESERVE_STAGE_MAX then word_of_nat SAR_PRESERVE_STAGE_MAX else rlen - pos) =
      min SAR_PRESERVE_STAGE_MAX (unat rlen - k * SAR_PRESERVE_STAGE_MAX)"
proof -
  have "k * SAR_PRESERVE_STAGE_MAX < 2 ^ 64" using assms(1) unsigned_less [of rlen, where ?'a = nat] by simp
  then show u: "unat pos = k * SAR_PRESERVE_STAGE_MAX" by (simp only: pos_def unat_u64_of_nat)
  have m: "unat (word_of_nat SAR_PRESERVE_STAGE_MAX :: u64) = SAR_PRESERVE_STAGE_MAX"
    by (rule unat_u64_of_nat) (simp add: SAR_PRESERVE_STAGE_MAX_def)
  have "unat (rlen - pos) = unat rlen - k * SAR_PRESERVE_STAGE_MAX"
    using assms(1) by (subst unat_sub) (simp_all add: word_le_nat_alt u)
  then show "unat (if rlen - pos > word_of_nat SAR_PRESERVE_STAGE_MAX then word_of_nat SAR_PRESERVE_STAGE_MAX else rlen - pos) =
      min SAR_PRESERVE_STAGE_MAX (unat rlen - k * SAR_PRESERVE_STAGE_MAX)"
    by (simp add: word_less_nat_alt m min_def)
qed

section \<open>One record, and the request\<close>

lemma rec_chunks_exact:
  assumes io: "rec_io_ok env" and key: "sound_key rk cs"
    and seg: "segment contents 0 (sar_encrypt rk cs P)" "length P \<le> length contents" "length contents < 2 ^ 64"
    and len: "unat rlen = length P" "0 < rlen" "rk_whole rk (length P) = length P" and w: "progress w0 contents w"
  shows "\<exists>w'. rec_steps (rec_chunk_step env index contents rk 0 rlen (word_of_nat (length contents))) (rec_chunks rlen) w =
    Some (Rec_Continue w') \<and> progress w0 (P @ drop (length P) contents) w'"
proof -
  let ?step = "rec_chunk_step env index contents rk 0 rlen (word_of_nat (length contents))"
  have "\<exists>w'. rec_steps ?step (rec_chunks rlen) w = Some (Rec_Continue w') \<and>
      progress w0 (take (unat rlen) P @ drop (unat rlen) contents) w'"
  proof (rule rec_chunk_loop [OF len(2), where holds = "\<lambda>n. progress w0 (take n P @ drop n contents)"])
    show "progress w0 (take 0 P @ drop 0 contents) w" using w by simp
  next
    fix k w1 assume k: "k * SAR_PRESERVE_STAGE_MAX < unat rlen"
      and w1: "progress w0 (take (k * SAR_PRESERVE_STAGE_MAX) P @ drop (k * SAR_PRESERVE_STAGE_MAX) contents) w1"
    define pos :: u64 where "pos = word_of_nat (k * SAR_PRESERVE_STAGE_MAX)"
    define n where "n = (if rlen - pos > word_of_nat SAR_PRESERVE_STAGE_MAX then word_of_nat SAR_PRESERVE_STAGE_MAX else rlen - pos)"
    note u = chunk_words [OF k, folded pos_def, folded n_def]
    have part: "good_part rk (unat pos) (unat n) (length P)" using good_chunk [OF len(3)] k by (simp add: u len(1))
    have rd: "NT_SUCCESS (ve_read env index k)" and wr: "NT_SUCCESS (ve_write env index k)" using io by (simp_all add: rec_io_ok_def)
    obtain ct where ct: "length ct = SAR_PRESERVE_STAGE_MAX + 16"
      "rec_decrypt (ve_read env index k) contents rk 0 pos n (word_of_nat (length contents)) w1 =
        Some (True, SAR_RECOVER_OK, w1\<lparr>rw_ct := ct, rw_pt := splice_at (rw_pt w1) 0 (slice P (unat pos) (unat n))\<rparr>)"
      using rec_decrypt_exact [OF key seg(1,2,3) part progressD(1) [OF w1] rd] by blast
    have fit: "unat pos + unat n \<le> length P" "unat n \<le> length (rw_pt w1)" using part progressD(1) [OF w1] by (simp_all add: good_part_def fair_part_def work_ok_def)
    have pt: "take (unat n) (splice_at (rw_pt w1) 0 (slice P (unat pos) (unat n))) = slice P (unat pos) (unat n)"
      "length (splice_at (rw_pt w1) 0 (slice P (unat pos) (unat n))) = SAR_PRESERVE_STAGE_MAX"
      using fit progressD(1) [OF w1] by (simp_all add: splice_at_def slice_def work_ok_def)
    have "min (Suc k * SAR_PRESERVE_STAGE_MAX) (unat rlen) = unat pos + unat n" using k by (simp add: u)
    moreover have "?step k w1 = Some (Rec_Continue (w1\<lparr>rw_ct := ct, rw_pt := splice_at (rw_pt w1) 0 (slice P (unat pos) (unat n)),
        rw_out := Some (take (unat pos + unat n) P @ drop (unat pos + unat n) contents)\<rparr>))"
      using ct(2) wr pt(1) progressD(2) [OF w1] file_write_patch [OF fit(1) seg(2)]
      unfolding rec_chunk_step_def Let_def add_0 pos_def [symmetric] n_def [symmetric] by (simp flip: u(1))
    ultimately show "\<exists>w'. ?step k w1 = Some (Rec_Continue w') \<and> progress w0 (take (min (Suc k * SAR_PRESERVE_STAGE_MAX) (unat rlen)) P @
        drop (min (Suc k * SAR_PRESERVE_STAGE_MAX) (unat rlen)) contents) w'"
      using progress_step [OF w1 ct(1) pt(2)] by (simp only:) blast
  qed
  then show ?thesis by (simp add: len(1))
qed

lemma rec_apply_exact:
  assumes "rec_io_ok env" "sound_key rk cs" "segment contents 0 (sar_encrypt rk cs P)" "length P \<le> length contents"
    "length contents < 2 ^ 64" "unat rlen = length P" "0 < rlen" "rk_whole rk (length P) = length P" "work_ok w" "rw_out w = None"
  shows "\<exists>w'. rec_apply env index contents (word_of_nat (length contents)) rk 0 rlen w =
      Some (Rec_Continue (w'\<lparr>rw_applied := rw_applied w + 1, rw_recovered := rw_recovered w + rlen,
        rw_end := (if rlen > rw_end w then rlen else rw_end w)\<rparr>)) \<and> progress w (P @ drop (length P) contents) w'"
proof -
  have ne: "contents \<noteq> []" using assms(4,6,7) by (auto simp: word_less_nat_alt)
  have io: "\<forall>k. NT_SUCCESS (ve_copy_read env k)" "\<forall>k. NT_SUCCESS (ve_copy_write env k)" "NT_SUCCESS (ve_create env)"
    using assms(1) by (simp_all add: rec_io_ok_def)
  obtain w1 where w1: "rec_open_temp env contents (word_of_nat (length contents)) w = Some (Rec_Continue w1)" "progress w contents w1"
    using rec_copy_exact [OF io(1,2) assms(5) ne assms(9)] io(3) assms(10) by (auto simp: rec_open_temp_def)
  obtain w2 where "rec_steps (rec_chunk_step env index contents rk 0 rlen (word_of_nat (length contents))) (rec_chunks rlen) w1 =
      Some (Rec_Continue w2)" "progress w (P @ drop (length P) contents) w2"
    using rec_chunks_exact [OF assms(1-8) w1(2)] by blast
  then show ?thesis by (intro exI [of _ w2]) (simp add: rec_apply_def w1(1) progressD [OF \<open>progress w _ w2\<close>])
qed

lemma rec_steps_append:
  "rec_steps f (xs @ ys) w = (case rec_steps f xs w of Some (Rec_Continue w') \<Rightarrow> rec_steps f ys w' | r \<Rightarrow> r)"
  by (induction xs arbitrary: w) (auto split: option.split rec_flow.split)

lemma rec_steps_other_keys:
  "\<forall>(i, r) \<in> set zs. sar_memcmp (kr_key_id r) key_id SEMANTICS_AR_KEY_ID_SIZE \<noteq> 0 \<Longrightarrow>
   rec_steps (rec_record env key_id contents len) zs w = Some (Rec_Continue w)"
  by (induction zs) (auto simp: rec_record_def)

text \<open>
  The record of the key and the file it was captured for: the file starts with the encryption of \<open>P\<close> under the record's key,
  the record's extent covers it, and the sample tag is that of a part of \<open>P\<close>.
\<close>

definition record_fits :: "keystore_record \<Rightarrow> rec_ciphers \<Rightarrow> bytes \<Rightarrow> bytes \<Rightarrow> bool" where
  "record_fits r cs P contents \<longleftrightarrow>
     sound_key (sar_recovery_key_from_record r) cs \<and> segment contents 0 (sar_encrypt (sar_recovery_key_from_record r) cs P) \<and>
     length P \<le> length contents \<and> length contents < 2 ^ 64 \<and>
     rk_whole (sar_recovery_key_from_record r) (length P) = length P \<and>
     (case rec_extent r (word_of_nat (length contents)) of
        None \<Rightarrow> False
      | Some (off, rlen, soff, slen) \<Rightarrow>
          off = 0 \<and> unat rlen = length P \<and> good_part (sar_recovery_key_from_record r) (unat soff) (unat slen) (length P) \<and>
          sar_memcmp (sar_sample_tag (slice P (unat soff) (unat slen)) (unat slen)) (kr_sample_tag r) SEMANTICS_AR_MAC_SIZE = 0)"

lemma rec_record_exact:
  assumes io: "rec_io_ok env" and fits: "record_fits r cs P contents" and w: "work_ok w" "rw_out w = None"
    and id: "sar_memcmp (kr_key_id r) key_id SEMANTICS_AR_KEY_ID_SIZE = 0"
  shows "\<exists>w'. rec_record env key_id contents (word_of_nat (length contents)) (index, r) w = Some (Rec_Continue w') \<and>
    rw_matched w' \<and> rw_applied w' = rw_applied w + 1 \<and> rw_recovered w' = rw_recovered w + word_of_nat (length P) \<and>
    rw_end w' = max (word_of_nat (length P)) (rw_end w) \<and> rw_out w' = Some (P @ drop (length P) contents)"
proof -
  define rk where "rk = sar_recovery_key_from_record r"
  obtain rlen soff slen where ext: "rec_extent r (word_of_nat (length contents)) = Some (0, rlen, soff, slen)"
    and f: "unat rlen = length P" "good_part rk (unat soff) (unat slen) (length P)"
      "sar_memcmp (sar_sample_tag (slice P (unat soff) (unat slen)) (unat slen)) (kr_sample_tag r) SEMANTICS_AR_MAC_SIZE = 0"
    using fits by (auto simp: record_fits_def rk_def split: option.splits)
  have r: "sound_key rk cs" "segment contents 0 (sar_encrypt rk cs P)" "length P \<le> length contents" "length contents < 2 ^ 64"
    "rk_whole rk (length P) = length P"
    using fits by (simp_all add: record_fits_def rk_def)
  define w0 where "w0 = w\<lparr>rw_matched := True\<rparr>"
  have w0: "work_ok w0" "rw_out w0 = None" using w by (simp_all add: w0_def work_ok_def)
  have rd: "NT_SUCCESS (ve_read_sample env index)" using io by (simp add: rec_io_ok_def)
  obtain ct where ct: "length ct = SAR_PRESERVE_STAGE_MAX + 16"
    "rec_decrypt (ve_read_sample env index) contents rk 0 soff slen (word_of_nat (length contents)) w0 =
      Some (True, SAR_RECOVER_OK, w0\<lparr>rw_ct := ct, rw_pt := splice_at (rw_pt w0) 0 (slice P (unat soff) (unat slen))\<rparr>)"
    using rec_decrypt_exact [OF r(1-4) f(2) w0(1) rd] by blast
  define w1 where "w1 = w0\<lparr>rw_ct := ct, rw_pt := splice_at (rw_pt w0) 0 (slice P (unat soff) (unat slen))\<rparr>"
  have fit: "unat soff + unat slen \<le> length P" "unat slen \<le> length (rw_pt w0)" using f(2) w0(1) by (simp_all add: good_part_def fair_part_def work_ok_def)
  have w1: "work_ok w1" "rw_out w1 = None" and tag: "take (unat slen) (rw_pt w1) = slice P (unat soff) (unat slen)"
    using fit w0 ct(1) by (simp_all add: w1_def work_ok_def splice_at_def slice_def)
  have same: "sar_sample_tag (rw_pt w1) (unat slen) = sar_sample_tag (slice P (unat soff) (unat slen)) (unat slen)"
    unfolding sar_sample_tag_def tag by (simp add: slice_def)
  have pos: "0 < rlen" using f(1,2) by (auto simp: word_less_nat_alt good_part_def fair_part_def)
  obtain w2 where w2: "rec_apply env index contents (word_of_nat (length contents)) rk 0 rlen w1 =
      Some (Rec_Continue (w2\<lparr>rw_applied := rw_applied w1 + 1, rw_recovered := rw_recovered w1 + rlen,
        rw_end := (if rlen > rw_end w1 then rlen else rw_end w1)\<rparr>))" "progress w1 (P @ drop (length P) contents) w2"
    using rec_apply_exact [OF io r(1-4) f(1) pos r(5) w1] by blast
  have len: "word_of_nat (length P) = rlen" by (simp flip: f(1))
  show ?thesis
    using id ext ct(2) w2(1) f(3) progressD [OF w2(2)]
    by (simp add: rec_record_def Let_def len same flip: rk_def w0_def w1_def) (auto simp: w1_def w0_def max_def)
qed


definition example_record :: keystore_record where
  "example_record = \<lparr>kr_key_id = replicate 32 3, kr_algorithm = SAR_ALG_SM4, kr_mode = SAR_MODE_CBC, kr_key_length = 16,
     kr_key_bytes = replicate 64 1, kr_iv = replicate 24 7, kr_iv_length = 16, kr_ctr_layout_tag = 0, kr_mode_params = 0,
     kr_provenance_offset = 0, kr_provenance_length = 0, kr_provenance_path = [], kr_sample_offset = 0, kr_sample_length = 32,
     kr_sample_tag = sar_sample_tag (replicate 32 5) 32, kr_capture_time = 0, kr_actor_start_key = 0\<rparr>"

definition example_file :: bytes where
  "example_file = sar_encrypt (sar_recovery_key_from_record example_record) (the (build_ciphers (sar_recovery_key_from_record example_record)))
     (replicate 48 5)"

definition example_keystore :: SAR_KEYSTORE where
  "example_keystore = (the (snd (SarKeystoreCreate True)))\<lparr>dk_ready := True,
     dk_records := [example_record\<lparr>kr_key_id := replicate 32 4\<rparr>, example_record]\<rparr>"

definition example_env :: recover_env where
  "example_env = \<lparr>ve_pool_paths = True, ve_pool_work = True, ve_open = STATUS_SUCCESS, ve_query = STATUS_SUCCESS,
     ve_create = STATUS_SUCCESS, ve_read_sample = (\<lambda>_. STATUS_SUCCESS), ve_copy_read = (\<lambda>_. STATUS_SUCCESS),
     ve_copy_write = (\<lambda>_. STATUS_SUCCESS), ve_read = (\<lambda>_ _. STATUS_SUCCESS), ve_write = (\<lambda>_ _. STATUS_SUCCESS),
     ve_eof = STATUS_SUCCESS, ve_flush = STATUS_SUCCESS\<rparr>"

lemma example_record_fits:
  "record_fits example_record (the (build_ciphers (sar_recovery_key_from_record example_record))) (replicate 48 5) example_file"
proof -
  let ?rk = "sar_recovery_key_from_record example_record"
  let ?cs = "the (build_ciphers ?rk)"
  have rk: "rk_mode ?rk = SAR_MODE_CBC" "rk_unit ?rk = 16"
    by (simp_all add: sar_recovery_key_from_record_def example_record_def rk_unit_def alg_block_def is_block_alg_def
      sar_alg_defs sar_sizes)
  have key: "precheck ?rk = SAR_RECOVER_OK" "build_ciphers ?rk = Some ?cs" "key_ready ?rk" "rk_algorithm ?rk \<noteq> SAR_ALG_RC4"
    by (simp_all add: sar_recovery_key_from_record_def example_record_def precheck_def build_ciphers_def key_ready_def sar_memcpy_def
      is_block_alg_def make_block_def rk_unit_def alg_block_def aes_key_ok_def is_aes_alg_def Let_def sar_alg_defs sar_sizes)
  have len: "length example_file = 48" using length_sar_encrypt [OF key(1-3), of "replicate 48 5"] rk by (simp add: example_file_def rk_whole_def)
  have "rec_extent example_record 48 = Some (0, 48, 0, 32)"
    by (simp add: rec_extent_def example_record_def SAR_PRESERVE_STAGE_MAX_def)
  moreover have "kr_sample_tag example_record = sar_sample_tag (replicate 32 5) 32" by (simp add: example_record_def)
  ultimately show ?thesis using key rk len
    by (simp add: record_fits_def sound_key_def segment_def rk_whole_def good_part_def fair_part_def SAR_PRESERVE_STAGE_MAX_def slice_def
        sar_memcmp_eq_0 sar_sizes flip: example_file_def)
qed


section \<open>Three ways to lose bytes\<close>

text \<open>
  When the length of the target cannot be queried it counts as zero: the request is answered OK and the temporary file,
  which then replaces the target, is empty.
\<close>

lemma unknown_length_recovers_nothing:
  assumes "SarKeystoreReady (Some ks)" "ve_pool_paths env" "ve_pool_work env" "NT_SUCCESS (ve_open env)" "NT_SUCCESS (ve_create env)"
    "NT_SUCCESS (ve_flush env)" "\<not> NT_SUCCESS (ve_query env)" "SarRecBuildPaths path = Some (target, temp)" "fs target = Some contents"
  shows "SarRecoveryExecute env (Some ks) key_id path fs = Some (SAR_RECOVER_OK, 0, fs(temp \<mapsto> []))"
  using assms by (simp add: SarRecoveryExecute_def SarRecWriteTemp_def)

text \<open>
  A target that cannot be opened, because another process holds it, counts as absent: the request is answered OK and
  the temporary file holds zeros up to the region, the region, and nothing behind it.
\<close>

lemma unopened_target_is_dropped:
  assumes "overlay_io_ok env" "SarRecBuildPaths path = Some (target, temp)" "0 < rlen" "off \<le> off + rlen" "unat rlen < 2 ^ 32"
    "resolved = SarRecResolveNtPath (qe_resolve env) target"
    "SarPreserveRestore (qe_restore env) (Some p) d (if resolved ! 0 \<noteq> 0 then resolved else path) off rlen (ucast rlen) = (STATUS_SUCCESS, region)"
    "length region = unat rlen" "\<not> NT_SUCCESS (qe_open env)"
  shows "SarPreserveRecoveryExecute env (Some p) d path off rlen fs = (SAR_RECOVER_OK, rlen, fs(temp \<mapsto> replicate (unat off) 0 @ region))"
  using preserve_recovery_exact [OF assms(1-8), of None fs] assms(9) by (simp add: th_contents_def file_write_def)

text \<open>
  The last partial block of a file in a mode with whole blocks is not decrypted; the chunk that is written there holds
  what the buffer had before, not the bytes of the file.
\<close>

lemma partial_block_is_stale:
  assumes key: "sound_key rk cs" and seg: "segment contents 0 (sar_encrypt rk cs P)" "length P \<le> length contents" "length contents < 2 ^ 64"
    and len: "unat rlen = length P" "0 < rlen" "length P \<le> SAR_PRESERVE_STAGE_MAX"
    and w: "work_ok w" "rw_out w = Some out" and io: "NT_SUCCESS (ve_read env index 0)" "NT_SUCCESS (ve_write env index 0)"
  shows "\<exists>w'. rec_chunk_step env index contents rk 0 rlen (word_of_nat (length contents)) 0 w = Some (Rec_Continue w') \<and>
    rw_out w' = Some (file_write out 0 (take (rk_whole rk (length P)) P @ slice (rw_pt w) (rk_whole rk (length P)) (length P - rk_whole rk (length P))))"
proof -
  have fair: "fair_part rk (unat (0 :: u64)) (unat rlen) (length P)" using len by (simp add: fair_part_def word_less_nat_alt)
  have m: "unat (word_of_nat SAR_PRESERVE_STAGE_MAX :: u64) = SAR_PRESERVE_STAGE_MAX"
    by (rule unat_u64_of_nat) (simp add: SAR_PRESERVE_STAGE_MAX_def)
  have small: "\<not> word_of_nat SAR_PRESERVE_STAGE_MAX < rlen" using len(1,3) by (simp add: word_less_nat_alt m)
  obtain ct where "rec_decrypt (ve_read env index 0) contents rk 0 0 rlen (word_of_nat (length contents)) w =
      Some (True, SAR_RECOVER_OK, w\<lparr>rw_ct := ct, rw_pt := splice_at (rw_pt w) 0 (slice P 0 (rk_whole rk (length P)))\<rparr>)"
    using rec_decrypt_part [OF key seg fair w(1) io(1)] len(1) by auto
  moreover have "take (length P) (splice_at (rw_pt w) 0 (slice P 0 (rk_whole rk (length P)))) =
      take (rk_whole rk (length P)) P @ slice (rw_pt w) (rk_whole rk (length P)) (length P - rk_whole rk (length P))"
    using rk_whole_le [of rk "length P"] by (simp add: splice_at_def slice_def)
  ultimately show ?thesis using io(2) w(2) small by (simp add: rec_chunk_step_def len(1))
qed

end
