(* ===== verification/Capture_State.thy ===== *)
theory Capture_State
  imports Driver_State
begin

text \<open>
  The state of the driver's capture component (driver/capture.c): the processes that are blocked, the processes whose
  memory was scanned, the counters, and the operations other components use. A process is its object's address; what the
  kernel knows of it, its start key, is an argument.
\<close>

definition SAR_BLOCKED_CAPACITY :: nat where "SAR_BLOCKED_CAPACITY = 256"

record SAR_CAPTURE_CTX =
  cc_blocked :: "PEPROCESS list"
  cc_inflight :: "32 word"
  cc_mmap_inflight :: "32 word"
  cc_whitelist_skips :: u64
  cc_pressure_drops :: u64
  cc_preload_drops :: u64
  cc_scanned :: "PEPROCESS list"

definition SarCaptureBlockOriginator ::
  "u64 \<Rightarrow> (PEPROCESS \<Rightarrow> u64) \<Rightarrow> SAR_CAPTURE_CTX \<Rightarrow> SAR_EVENTLOG option \<Rightarrow> PEPROCESS \<Rightarrow> u32 \<Rightarrow> SAR_CAPTURE_CTX \<times> SAR_EVENTLOG option" where
  "SarCaptureBlockOriginator now start_key ctx log originator event_class =
     (let present = list_ex (\<lambda>p. p = originator) (cc_blocked ctx);
          ctx = (if \<not> present \<and> length (cc_blocked ctx) < SAR_BLOCKED_CAPACITY
                 then ctx\<lparr>cc_blocked := cc_blocked ctx @ [originator]\<rparr> else ctx)
      in (ctx, SarEventLogRecord now log event_class (start_key originator)))"

definition SarCaptureNoteCapacityRefusal :: "u64 \<Rightarrow> (PEPROCESS \<Rightarrow> u64) \<Rightarrow> SAR_EVENTLOG option \<Rightarrow> PEPROCESS \<Rightarrow> SAR_EVENTLOG option" where
  "SarCaptureNoteCapacityRefusal now start_key log originator =
     SarEventLogRecord now log SAR_EVENT_CLASS_BLOCK_CAPACITY (start_key originator)"

definition SarCaptureInflight :: "SAR_CAPTURE_CTX option \<Rightarrow> 32 word" where
  "SarCaptureInflight ctx = (case ctx of None \<Rightarrow> 0 | Some c \<Rightarrow> cc_inflight c + cc_mmap_inflight c)"

definition SarCaptureOriginatorBlocked :: "SAR_CAPTURE_CTX option \<Rightarrow> PEPROCESS \<Rightarrow> bool" where
  "SarCaptureOriginatorBlocked ctx originator =
     (case ctx of None \<Rightarrow> False | Some c \<Rightarrow> list_ex (\<lambda>p. p = originator) (cc_blocked c))"

lemma block_originator_blocks:
  assumes "length (cc_blocked ctx) < SAR_BLOCKED_CAPACITY"
  shows "SarCaptureOriginatorBlocked (Some (fst (SarCaptureBlockOriginator now start_key ctx log p cls))) q \<longleftrightarrow>
    q = p \<or> SarCaptureOriginatorBlocked (Some ctx) q"
  using assms by (auto simp: SarCaptureBlockOriginator_def SarCaptureOriginatorBlocked_def list_ex_iff Let_def)

text \<open>
  When the table is full a further process is reported as blocked in the event log, and is not blocked.
\<close>

lemma block_originator_full:
  assumes "length (cc_blocked ctx) = SAR_BLOCKED_CAPACITY" "p \<notin> set (cc_blocked ctx)"
  shows "\<not> SarCaptureOriginatorBlocked (Some (fst (SarCaptureBlockOriginator now start_key ctx log p cls))) p \<and>
    snd (SarCaptureBlockOriginator now start_key ctx log p cls) = SarEventLogRecord now log cls (start_key p)"
  using assms by (auto simp: SarCaptureBlockOriginator_def SarCaptureOriginatorBlocked_def list_ex_iff Let_def)

end
