(* ===== verification/Commport.thy ===== *)
theory Commport
  imports Recovery_Correct Exemption Capture_State
begin

text \<open>
  The communication port of the driver, \<^verbatim>\<open>driver/commport.c\<close>: the service connects, answers a challenge, and then sends
  requests. The state is what the handlers reach through the driver's globals. A message is the bytes of the input
  buffer, which are taken not to change while the handler runs; the reply is the bytes copied to the output buffer, empty
  when there is none. Signature checking, process inspection and work items are answers of the platform.
\<close>

section \<open>Definitions\<close>

subsection \<open>State\<close>

record SAR_COMM =
  sc_server_port :: bool
  sc_client_port :: bool
  sc_handshake :: sar_handshake
  sc_tamper_counter :: u64

record sar_globals =
  ga_comm :: SAR_COMM
  ga_state :: SAR_STATE
  ga_keystore :: "SAR_KEYSTORE option"
  ga_preserve :: "SAR_PRESERVE option"
  ga_data :: payload_file
  ga_eventlog :: "SAR_EVENTLOG option"
  ga_posture :: SAR_POSTURE
  ga_capture :: "SAR_CAPTURE_CTX option"
  ga_files :: rec_fs
  ga_store :: store_fs

definition comm_tamper :: "SAR_COMM \<Rightarrow> SAR_COMM" where
  "comm_tamper c = c\<lparr>sc_tamper_counter := sc_tamper_counter c + 1\<rparr>"

definition tamper :: "sar_globals \<Rightarrow> sar_globals" where
  "tamper g = g\<lparr>ga_comm := comm_tamper (ga_comm g)\<rparr>"

subsection \<open>Connection\<close>

record bcrypt_verify_env =
  hv_open :: NTSTATUS
  hv_import :: NTSTATUS
  hv_verify :: "bytes \<Rightarrow> bytes \<Rightarrow> NTSTATUS"

definition SarHandshakeVerify :: "bcrypt_verify_env \<Rightarrow> bytes \<Rightarrow> bytes \<Rightarrow> bool" where
  "SarHandshakeVerify env nonce signature \<longleftrightarrow>
     NT_SUCCESS (hv_open env) \<and> NT_SUCCESS (hv_import env) \<and> NT_SUCCESS (hv_verify env nonce signature)"

definition g_sar_service_image_allow :: "u16 list" where
  "g_sar_service_image_allow = of_char CHR 0x5C # u16s ''semantics_ar_service.exe''"

text \<open>
  The platform compares two strings character by character after folding the case.
\<close>

definition SarImagePathAllowed :: "(u16 \<Rightarrow> u16) \<Rightarrow> u16 list \<Rightarrow> bool" where
  "SarImagePathAllowed upcase image_name =
     (if length image_name < length g_sar_service_image_allow then False
      else
        let tail = drop (length image_name - length g_sar_service_image_allow) image_name
        in map upcase tail = map upcase g_sar_service_image_allow)"

definition SarQueryConnectorProtection :: "ps_protection \<Rightarrow> sar_ppl_class" where
  "SarQueryConnectorProtection prot =
     (case prot of
        None \<Rightarrow> SAR_PPL_NONE
      | Some (type, signer) \<Rightarrow>
          if type = PsProtectedTypeProtected \<and> signer = PsProtectedSignerAntimalware then SAR_PPL_ANTIMALWARE
          else if type \<noteq> PsProtectedTypeNone then SAR_PPL_AVAILABLE
          else SAR_PPL_NONE)"

text \<open>
  The random generator gives a nonce or fails. The challenge is the message that is sent.
\<close>

definition SarIssueChallenge :: "bytes option \<Rightarrow> NTSTATUS \<Rightarrow> SAR_COMM \<Rightarrow> NTSTATUS \<times> bytes \<times> SAR_COMM" where
  "SarIssueChallenge random send_status c =
     (if \<not> sc_client_port c then (STATUS_PORT_DISCONNECTED, [], c)
      else case random of
        None \<Rightarrow> (STATUS_OTHER, [], c)
      | Some nonce \<Rightarrow>
          (case sar_handshake_issue_challenge (Some (sc_handshake c)) (Some nonce) (word_of_nat SAR_HS_NONCE_SIZE) of
             (SAR_HS_RESULT_OK, Some hs) \<Rightarrow>
               (send_status,
                mh_encode \<lparr>mh_protocol_version = SEMANTICS_AR_PROTOCOL_VERSION,
                  mh_message_type = SEMANTICS_AR_MSG_CONNECT_CHALLENGE,
                  mh_message_length = word_of_nat (sizeof connect_challenge_fields)\<rparr> @ take SAR_HS_NONCE_SIZE nonce,
                c\<lparr>sc_handshake := hs\<rparr>)
           | _ \<Rightarrow> (STATUS_UNSUCCESSFUL, [], c)))"

record connect_env =
  ne_image :: "u16 list option"
  ne_upcase :: "u16 \<Rightarrow> u16"
  ne_workitem :: bool
  ne_queue :: NTSTATUS
  ne_protection :: ps_protection
  ne_verify :: bcrypt_verify_env

text \<open>
  A connection is accepted when the result is success; then a work item that issues the challenge is queued.
\<close>

definition SarCommConnectNotify :: "connect_env \<Rightarrow> sar_globals \<Rightarrow> NTSTATUS \<times> sar_globals" where
  "SarCommConnectNotify env g =
     (case ne_image env of
        None \<Rightarrow> (STATUS_ACCESS_DENIED, g)
      | Some image_name \<Rightarrow>
          if \<not> SarImagePathAllowed (ne_upcase env) image_name then (STATUS_ACCESS_DENIED, g)
          else
            let c = (ga_comm g)\<lparr>sc_handshake := sar_handshake_init SEMANTICS_AR_PROTOCOL_VERSION (Some (SarHandshakeVerify (ne_verify env))),
                      sc_client_port := True\<rparr>
            in if \<not> ne_workitem env \<or> \<not> NT_SUCCESS (ne_queue env) then
                 (STATUS_ACCESS_DENIED, g\<lparr>ga_comm := c\<lparr>sc_client_port := False\<rparr>\<rparr>)
               else
                 let protection = SarQueryConnectorProtection (ne_protection env);
                     po = ga_posture g;
                     po = (if protection = SAR_PPL_ANTIMALWARE then po\<lparr>po_ppl_available := SAR_PPL_ANTIMALWARE\<rparr>
                           else if protection = SAR_PPL_AVAILABLE \<and> po_ppl_available po = SAR_PPL_NONE
                           then po\<lparr>po_ppl_available := SAR_PPL_AVAILABLE\<rparr> else po)
                 in (STATUS_SUCCESS, g\<lparr>ga_comm := c, ga_posture := po\<rparr>))"

definition SarCommDisconnectNotify :: "SAR_COMM \<Rightarrow> SAR_COMM" where
  "SarCommDisconnectNotify c =
     c\<lparr>sc_client_port := False, sc_handshake := the (sar_handshake_timeout (Some (sc_handshake c)))\<rparr>"

text \<open>
  The port, once its storage, its security descriptor and the port object could be made.
\<close>

definition SarCommPortCreate :: "bool \<Rightarrow> NTSTATUS \<Rightarrow> NTSTATUS \<Rightarrow> bcrypt_verify_env \<Rightarrow> NTSTATUS \<times> SAR_COMM option" where
  "SarCommPortCreate pool_ok security_status port_status verify =
     (if \<not> pool_ok then (STATUS_INSUFFICIENT_RESOURCES, None)
      else if \<not> NT_SUCCESS security_status then (security_status, None)
      else if \<not> NT_SUCCESS port_status then (port_status, None)
      else (STATUS_SUCCESS, Some
        \<lparr>sc_server_port = True, sc_client_port = False,
         sc_handshake = sar_handshake_init SEMANTICS_AR_PROTOCOL_VERSION (Some (SarHandshakeVerify verify)), sc_tamper_counter = 0\<rparr>))"

definition SarCommPortClose :: "SAR_COMM \<Rightarrow> SAR_COMM" where
  "SarCommPortClose c = c\<lparr>sc_client_port := False, sc_server_port := False\<rparr>"

subsection \<open>Requests\<close>

record comm_env =
  me_now :: u64
  me_recover :: recover_env
  me_preserve_recover :: preserve_recover_env
  me_write :: store_write_env

type_synonym comm_result = "NTSTATUS \<times> bytes \<times> sar_globals"

definition u32_at :: "bytes \<Rightarrow> nat \<Rightarrow> u32" where "u32_at b off = le_load (slice b off 4)"
definition u64_at :: "bytes \<Rightarrow> nat \<Rightarrow> u64" where "u64_at b off = le_load (slice b off 8)"
definition path_at :: "bytes \<Rightarrow> nat \<Rightarrow> nat \<Rightarrow> u16 list" where "path_at b off n = path_of_bytes n (slice b off (2 * n))"

text \<open>
  What every request but the response to the challenge starts with: the session has to be authenticated, and the
  output buffer has to hold the reply.
\<close>

definition authenticated :: "sar_globals \<Rightarrow> bool" where
  "authenticated g = sar_handshake_authenticated (Some (sc_handshake (ga_comm g)))"

definition when_authenticated :: "sar_globals \<Rightarrow> comm_result option \<Rightarrow> comm_result option" where
  "when_authenticated g r = (if \<not> authenticated g then Some (STATUS_INVALID_DEVICE_STATE, [], tamper g) else r)"

definition when_fits :: "nat option \<Rightarrow> nat \<Rightarrow> sar_globals \<Rightarrow> comm_result option \<Rightarrow> comm_result option" where
  "when_fits out_len n g r =
     (case out_len of
        None \<Rightarrow> Some (STATUS_BUFFER_TOO_SMALL, [], g)
      | Some len \<Rightarrow> if len < n then Some (STATUS_BUFFER_TOO_SMALL, [], g) else r)"

definition reply_header :: "u32 \<Rightarrow> nat list \<Rightarrow> bytes" where
  "reply_header type layout = mh_encode \<lparr>mh_protocol_version = SEMANTICS_AR_PROTOCOL_VERSION, mh_message_type = type,
     mh_message_length = word_of_nat (sizeof layout)\<rparr>"

abbreviation bool_u32 :: "bool \<Rightarrow> bytes" where "bool_u32 v \<equiv> le_store 4 (if v then 1 else 0 :: u32)"
abbreviation u32_bytes :: "u32 \<Rightarrow> bytes" where "u32_bytes v \<equiv> le_store 4 v"
abbreviation u64_bytes :: "u64 \<Rightarrow> bytes" where "u64_bytes v \<equiv> le_store 8 v"

definition SarHandleConnectResponse :: "sar_globals \<Rightarrow> bytes \<Rightarrow> comm_result" where
  "SarHandleConnectResponse g b =
     (let sig_length = u32_at b 12; signature = slice b 16 SEMANTICS_AR_HS_SIG_MAX
      in if unat sig_length > SEMANTICS_AR_HS_SIG_MAX then (STATUS_INVALID_PARAMETER, [], g)
         else case sar_handshake_verify_response (Some (sc_handshake (ga_comm g))) (Some signature) sig_length of (hs, h) \<Rightarrow>
           let g = g\<lparr>ga_comm := (ga_comm g)\<lparr>sc_handshake := the h\<rparr>\<rparr>
           in if hs \<noteq> SAR_HS_RESULT_OK then (STATUS_REQUEST_NOT_ACCEPTED, [], tamper g)
              else case sar_handshake_check_version h (mh_protocol_version (mh_decode b)) of (hs, h) \<Rightarrow>
                let g = g\<lparr>ga_comm := (ga_comm g)\<lparr>sc_handshake := the h\<rparr>\<rparr>
                in if hs \<noteq> SAR_HS_RESULT_OK then (STATUS_REVISION_MISMATCH, [], tamper g)
                   else (STATUS_SUCCESS, [], g))"

definition SarHandleGetStatus :: "sar_globals \<Rightarrow> nat option \<Rightarrow> comm_result option" where
  "SarHandleGetStatus g out_len = when_authenticated g (when_fits out_len (sizeof status_reply_fields) g
     (let stats = SarPreserveStats (ga_preserve g); st = ga_state g; po = ga_posture g
      in Some (STATUS_SUCCESS,
           reply_header SEMANTICS_AR_MSG_STATUS_REPLY status_reply_fields @ u32_bytes 0 @
           u32_bytes SEMANTICS_AR_PROTOCOL_VERSION @ u32_bytes (SarStateModeGet st) @ u64_bytes (ss_captured_key_count st) @
           u64_bytes (st_capacity_bytes stats) @ u64_bytes (st_used_bytes stats) @ u64_bytes (st_retention_100ns stats) @
           u64_bytes (st_oldest_protected_time stats) @ u32_bytes (st_protected_count stats) @
           u32_bytes (st_probation_count stats) @ u64_bytes (scast (SarCaptureInflight (ga_capture g))) @
           bool_u32 (po_keystore_tamper_detected po \<or> po_preserve_tamper_detected po), g)))"

definition id_state_value :: "sar_id_state \<Rightarrow> u32" where
  "id_state_value s = (case s of SAR_IDSTATE_OBSERVE_PENDING \<Rightarrow> 0 | SAR_IDSTATE_OBSERVE \<Rightarrow> 1 | SAR_IDSTATE_EXEMPT \<Rightarrow> 2)"

definition SarHandleProcessQuery :: "sar_globals \<Rightarrow> bytes \<Rightarrow> nat option \<Rightarrow> comm_result option" where
  "SarHandleProcessQuery g b out_len = when_authenticated g (when_fits out_len (sizeof process_reply_fields) g
     (case SarStateIdentityQuery (ga_state g) (u64_at b 12) of (valid, sk, st) \<Rightarrow>
        Some (STATUS_SUCCESS,
          reply_header SEMANTICS_AR_MSG_PROCESS_REPLY process_reply_fields @ bool_u32 valid @ u32_bytes (id_state_value st) @
          u64_bytes sk, g)))"

definition recover_status_value :: "sar_recover_status \<Rightarrow> u32" where
  "recover_status_value s = - (case s of SAR_RECOVER_OK \<Rightarrow> 0 | SAR_RECOVER_DECLINED_KEY \<Rightarrow> 1 | SAR_RECOVER_DECLINED_IV \<Rightarrow> 2
     | SAR_RECOVER_DECLINED_GEOMETRY \<Rightarrow> 3 | SAR_RECOVER_DECLINED_STATE_ONLY \<Rightarrow> 4 | SAR_RECOVER_DECLINED_MISMATCH \<Rightarrow> 5
     | SAR_RECOVER_INVALID \<Rightarrow> 6 | SAR_RECOVER_DECLINED_NO_KEY_ID \<Rightarrow> 7 | SAR_RECOVER_DECLINED_TARGET_IO \<Rightarrow> 8
     | SAR_RECOVER_DECLINED_TOO_LARGE \<Rightarrow> 9)"

definition SarHandleRecoveryExec :: "comm_env \<Rightarrow> sar_globals \<Rightarrow> bytes \<Rightarrow> nat option \<Rightarrow> comm_result option" where
  "SarHandleRecoveryExec env g b out_len = when_authenticated g (when_fits out_len (sizeof recovery_result_fields) g
     (case SarRecoveryExecute (me_recover env) (ga_keystore g) (slice b 12 SEMANTICS_AR_KEY_ID_SIZE)
        (path_at b 44 SEMANTICS_AR_PROTO_PATH_MAX) (ga_files g) of
        None \<Rightarrow> None
      | Some (status, recovered, fs) \<Rightarrow>
          Some (STATUS_SUCCESS,
            reply_header SEMANTICS_AR_MSG_RECOVERY_RESULT recovery_result_fields @ u32_bytes (recover_status_value status) @
            u64_bytes recovered, g\<lparr>ga_files := fs\<rparr>)))"

definition SarHandlePreserveRecover :: "comm_env \<Rightarrow> sar_globals \<Rightarrow> bytes \<Rightarrow> nat option \<Rightarrow> comm_result option" where
  "SarHandlePreserveRecover env g b out_len = when_authenticated g (when_fits out_len (sizeof recovery_result_fields) g
     (case SarPreserveRecoveryExecute (me_preserve_recover env) (ga_preserve g) (ga_data g)
        (path_at b 12 SEMANTICS_AR_PROTO_PATH_MAX) (u64_at b 532) (u64_at b 540) (ga_files g) of (status, recovered, fs) \<Rightarrow>
          Some (STATUS_SUCCESS,
            reply_header SEMANTICS_AR_MSG_PRESERVE_RESULT recovery_result_fields @ u32_bytes (recover_status_value status) @
            u64_bytes recovered, g\<lparr>ga_files := fs\<rparr>)))"

definition catalog_entry_bytes :: "catalog_entry option \<Rightarrow> bytes" where
  "catalog_entry_bytes entry =
     (case entry of
        None \<Rightarrow> replicate (sizeof catalog_entry_fields) 0
      | Some e \<Rightarrow> ce_key_id e @ u32_bytes (ce_algorithm e) @ u32_bytes (ce_mode e) @ u64_bytes (ce_provenance_offset e) @
          path_bytes (ce_provenance_path e) @ u64_bytes (ce_capture_time e) @ u64_bytes (ce_actor_start_key e))"

definition catalog_project :: "sar_globals \<Rightarrow> u32 \<Rightarrow> catalog_entry option \<times> u64" where
  "catalog_project g index =
     (case ga_keystore g of
        None \<Rightarrow> (None, 0)
      | Some ks \<Rightarrow> if SarKeystoreReady (ga_keystore g) then SarKeystoreProject ks (ucast index) else (None, 0))"

definition SarHandleCatalogQuery :: "sar_globals \<Rightarrow> bytes \<Rightarrow> nat option \<Rightarrow> comm_result option" where
  "SarHandleCatalogQuery g b out_len = when_authenticated g (when_fits out_len (sizeof catalog_reply_fields) g
     (let index = u32_at b 12
      in case catalog_project g index of (entry, found) \<Rightarrow>
           Some (STATUS_SUCCESS,
             reply_header SEMANTICS_AR_MSG_CATALOG_REPLY catalog_reply_fields @ u32_bytes 0 @ u32_bytes (ucast found) @
             u32_bytes index @ bool_u32 (entry \<noteq> None) @ catalog_entry_bytes entry, g)))"

definition preserve_entry_bytes :: "preserve_entry option \<Rightarrow> bytes" where
  "preserve_entry_bytes entry =
     (case entry of
        None \<Rightarrow> replicate (sizeof preserve_entry_fields) 0
      | Some e \<Rightarrow> path_bytes (pn_provenance_path e) @ u64_bytes (pn_provenance_offset e) @ u64_bytes (pn_provenance_length e) @
          u64_bytes (pn_capture_time e) @ u64_bytes (pn_payload_length e) @ u64_bytes (pn_actor_start_key e) @
          u32_bytes (pn_state e) @ path_bytes (pn_causing_image_path e))"

definition preserve_project :: "sar_globals \<Rightarrow> u32 \<Rightarrow> preserve_entry option \<times> u64" where
  "preserve_project g index =
     (case ga_preserve g of
        None \<Rightarrow> (None, 0)
      | Some p \<Rightarrow> if SarPreserveReady (ga_preserve g) then SarPreserveProject p (ucast index) else (None, 0))"

definition SarHandlePreserveQuery :: "sar_globals \<Rightarrow> bytes \<Rightarrow> nat option \<Rightarrow> comm_result option" where
  "SarHandlePreserveQuery g b out_len = when_authenticated g (when_fits out_len (sizeof preserve_reply_fields) g
     (let index = u32_at b 12
      in case preserve_project g index of (entry, found) \<Rightarrow>
           Some (STATUS_SUCCESS,
             reply_header SEMANTICS_AR_MSG_PRESERVE_REPLY preserve_reply_fields @ u32_bytes 0 @ u32_bytes (ucast found) @
             u32_bytes index @ bool_u32 (entry \<noteq> None) @ preserve_entry_bytes entry, g)))"

definition SarHandleEventsQuery :: "sar_globals \<Rightarrow> bytes \<Rightarrow> nat option \<Rightarrow> comm_result option" where
  "SarHandleEventsQuery g b out_len = when_authenticated g (when_fits out_len (sizeof events_reply_fields) g
     (case SarEventLogQuery (ga_eventlog g) (u64_at b 12) (u64_at b 20) of (r, valid, gap) \<Rightarrow>
        Some (STATUS_SUCCESS,
          reply_header SEMANTICS_AR_MSG_EVENTS_REPLY events_reply_fields @ u32_bytes 0 @ bool_u32 valid @ bool_u32 gap @
          (if valid then u32_bytes (er_event_class r) @ u64_bytes (er_generation r) @ u64_bytes (er_sequence r) @
             u64_bytes (er_timestamp_100ns r) @ u64_bytes (er_actor_start_key r)
           else replicate 36 0), g)))"

definition whitelist_entry_bytes :: "(sar_identity \<times> u64) option \<Rightarrow> bytes" where
  "whitelist_entry_bytes entry =
     (case entry of
        None \<Rightarrow> replicate (sizeof whitelist_entry_fields) 0
      | Some (ident, first_seen) \<Rightarrow> path_bytes (id_image_path ident) @ path_bytes (id_cert_subject ident) @ id_content_hash ident @
          u64_bytes first_seen)"

definition SarHandleWhitelistQuery :: "sar_globals \<Rightarrow> bytes \<Rightarrow> nat option \<Rightarrow> comm_result option" where
  "SarHandleWhitelistQuery g b out_len = when_authenticated g (when_fits out_len (sizeof whitelist_reply_fields) g
     (let index = u32_at b 12
      in case SarStateWhitelistEnumerate (ga_state g) index of (st, ident, first_seen, found) \<Rightarrow>
           Some (STATUS_SUCCESS,
             reply_header SEMANTICS_AR_MSG_WHITELIST_REPLY whitelist_reply_fields @ u32_bytes 0 @ u32_bytes found @
             u32_bytes index @ bool_u32 (st = SAR_WL_OK) @
             whitelist_entry_bytes (if st = SAR_WL_OK then map_option (\<lambda>i. (i, first_seen)) ident else None), g)))"

text \<open>
  The requests without a reply, as the dispatch treats them.
\<close>

definition identity_at :: "bytes \<Rightarrow> nat \<Rightarrow> sar_identity" where
  "identity_at b off =
     \<lparr>id_image_path = path_at b off SEMANTICS_AR_PROTO_PATH_MAX,
      id_cert_subject = path_at b (off + 2 * SEMANTICS_AR_PROTO_PATH_MAX) SEMANTICS_AR_PROTO_SUBJECT_MAX,
      id_content_hash = slice b (off + 2 * SEMANTICS_AR_PROTO_PATH_MAX + 2 * SEMANTICS_AR_PROTO_SUBJECT_MAX) SEMANTICS_AR_CONTENT_HASH_SIZE\<rparr>"

definition handle_set_budget :: "comm_env \<Rightarrow> sar_globals \<Rightarrow> bytes \<Rightarrow> comm_result option" where
  "handle_set_budget env g b = when_authenticated g
     (case SarPreserveSetBudget (me_write env) (ga_preserve g) (ga_store g) (u64_at b 12) (u64_at b 20) of (p, h) \<Rightarrow>
        Some (STATUS_SUCCESS, [], g\<lparr>ga_preserve := p, ga_store := last h\<rparr>))"

definition handle_set_mode :: "comm_env \<Rightarrow> sar_globals \<Rightarrow> bytes \<Rightarrow> comm_result option" where
  "handle_set_mode env g b = when_authenticated g
     (case SarStateModeSet (me_now env) (ga_state g) (ga_eventlog g) (u32_at b 12) of (ok, st, log) \<Rightarrow>
        Some (if ok then STATUS_SUCCESS else STATUS_INVALID_PARAMETER, [], g\<lparr>ga_state := st, ga_eventlog := log\<rparr>))"

definition handle_whitelist :: "comm_env \<Rightarrow> sar_globals \<Rightarrow> u32 \<Rightarrow> bytes \<Rightarrow> comm_result option" where
  "handle_whitelist env g type b = when_authenticated g
     (case (if type = SEMANTICS_AR_MSG_WHITELIST_ADD
            then SarStateWhitelistAdd (me_now env) (ga_state g) (ga_eventlog g) (identity_at b 12)
            else SarStateWhitelistRemove (me_now env) (ga_state g) (ga_eventlog g) (identity_at b 12)) of (s, st, log) \<Rightarrow>
        Some (if s = SAR_WL_OK then STATUS_SUCCESS else STATUS_UNSUCCESSFUL, [], g\<lparr>ga_state := st, ga_eventlog := log\<rparr>))"

definition handle_identity_verdict :: "sar_globals \<Rightarrow> bytes \<Rightarrow> comm_result option" where
  "handle_identity_verdict g b = when_authenticated g
     (case SarStateIdentityApplyVerdict (ga_state g) (u64_at b 12) (u64_at b 20) (identity_at b 28) of (ok, st) \<Rightarrow>
        Some (if ok then STATUS_SUCCESS else STATUS_UNSUCCESSFUL, [], g\<lparr>ga_state := st\<rparr>))"

text \<open>
  The dispatch. The bytes of the message are absent when the buffer is; \<open>out_len\<close> is absent when the output buffer is.
\<close>

definition comm_dispatch :: "comm_env \<Rightarrow> sar_globals \<Rightarrow> u32 \<Rightarrow> bytes \<Rightarrow> nat option \<Rightarrow> comm_result option" where
  "comm_dispatch env g type b out_len =
     (if type = SEMANTICS_AR_MSG_CONNECT_RESPONSE then Some (SarHandleConnectResponse g b)
      else if type = SEMANTICS_AR_MSG_GET_STATUS then SarHandleGetStatus g out_len
      else if type = SEMANTICS_AR_MSG_RECOVERY_EXEC then SarHandleRecoveryExec env g b out_len
      else if type = SEMANTICS_AR_MSG_CATALOG_QUERY then SarHandleCatalogQuery g b out_len
      else if type = SEMANTICS_AR_MSG_PRESERVE_QUERY then SarHandlePreserveQuery g b out_len
      else if type = SEMANTICS_AR_MSG_PRESERVE_RECOVER then SarHandlePreserveRecover env g b out_len
      else if type = SEMANTICS_AR_MSG_EVENTS_QUERY then SarHandleEventsQuery g b out_len
      else if type = SEMANTICS_AR_MSG_SET_BUDGET then handle_set_budget env g b
      else if type = SEMANTICS_AR_MSG_SET_MODE then handle_set_mode env g b
      else if type = SEMANTICS_AR_MSG_WHITELIST_ADD \<or> type = SEMANTICS_AR_MSG_WHITELIST_REMOVE then handle_whitelist env g type b
      else if type = SEMANTICS_AR_MSG_PROCESS_QUERY then SarHandleProcessQuery g b out_len
      else if type = SEMANTICS_AR_MSG_WHITELIST_QUERY then SarHandleWhitelistQuery g b out_len
      else if type = SEMANTICS_AR_MSG_IDENTITY_VERDICT then handle_identity_verdict g b
      else Some (STATUS_INVALID_PARAMETER, [], tamper g))"

definition SarCommMessageNotify :: "comm_env \<Rightarrow> sar_globals \<Rightarrow> bytes option \<Rightarrow> nat option \<Rightarrow> comm_result option" where
  "SarCommMessageNotify env g buf out_len =
     (case buf of
        None \<Rightarrow> Some (STATUS_INVALID_PARAMETER, [], g)
      | Some b \<Rightarrow>
          (case sar_msg_validate (Some b) of (mv, type) \<Rightarrow>
             if mv \<noteq> SAR_MSG_OK then Some (STATUS_INVALID_PARAMETER, [], tamper g)
             else comm_dispatch env g type b out_len))"

lemmas comm_handlers = SarHandleGetStatus_def SarHandleRecoveryExec_def SarHandleCatalogQuery_def SarHandlePreserveQuery_def
  SarHandlePreserveRecover_def SarHandleEventsQuery_def handle_set_budget_def handle_set_mode_def handle_whitelist_def
  SarHandleProcessQuery_def SarHandleWhitelistQuery_def handle_identity_verdict_def

section \<open>Before authentication\<close>

lemma comm_dispatch_unauthenticated:
  assumes "\<not> authenticated g" "type \<noteq> SEMANTICS_AR_MSG_CONNECT_RESPONSE"
  shows "\<exists>s. comm_dispatch env g type b out_len = Some (s, [], tamper g) \<and> s \<noteq> STATUS_SUCCESS"
  using assms by (simp add: comm_dispatch_def comm_handlers when_authenticated_def)

text \<open>
  A response to the challenge that is signed: the signature it carries is good for the nonce of the session. It is the
  only thing that changes the handshake, and it can only end it.
\<close>

definition response_signed :: "sar_handshake \<Rightarrow> bytes \<Rightarrow> bool" where
  "response_signed h b \<longleftrightarrow>
     (case hs_verify h of
        None \<Rightarrow> False
      | Some verify \<Rightarrow> verify (take (unat (hs_nonce_len h)) (hs_nonce h)) (take (unat (u32_at b 12)) (slice b 16 SEMANTICS_AR_HS_SIG_MAX)))"

definition handshake_step :: "sar_handshake \<Rightarrow> bytes \<Rightarrow> sar_handshake \<Rightarrow> bool" where
  "handshake_step h b h' \<longleftrightarrow> hs_nonce h' = hs_nonce h \<and> hs_nonce_len h' = hs_nonce_len h \<and> hs_verify h' = hs_verify h \<and>
     (hs_phase h' = hs_phase h \<or> hs_phase h' = SAR_HS_REJECTED \<or>
      hs_phase h' = SAR_HS_VERSIONED \<and> hs_phase h = SAR_HS_CHALLENGE_ISSUED \<and> response_signed h b)"

lemma connect_response_step:
  "\<exists>s c. SarHandleConnectResponse g b = (s, [], g\<lparr>ga_comm := c\<rparr>) \<and> sc_client_port c = sc_client_port (ga_comm g) \<and>
     handshake_step (sc_handshake (ga_comm g)) b (sc_handshake c)"
proof -
  obtain s r g' where out: "SarHandleConnectResponse g b = (s, r, g')" by (metis prod_cases3)
  have "r = [] \<and> g' = g\<lparr>ga_comm := ga_comm g'\<rparr> \<and> sc_client_port (ga_comm g') = sc_client_port (ga_comm g) \<and>
      handshake_step (sc_handshake (ga_comm g)) b (sc_handshake (ga_comm g'))"
    using out
    by (auto simp: SarHandleConnectResponse_def sar_handshake_defs Let_def tamper_def comm_tamper_def handshake_step_def response_signed_def
        split: if_splits option.splits)
  then show ?thesis using out by (intro exI [of _ s] exI [of _ "ga_comm g'"]) simp
qed

lemma message_unauthenticated:
  assumes "\<not> authenticated g"
  shows "\<exists>s c. SarCommMessageNotify env g buf out_len = Some (s, [], g\<lparr>ga_comm := c\<rparr>) \<and> sc_client_port c = sc_client_port (ga_comm g) \<and>
    (sc_handshake c = sc_handshake (ga_comm g) \<or>
     (\<exists>b. buf = Some b \<and> sar_msg_validate buf = (SAR_MSG_OK, SEMANTICS_AR_MSG_CONNECT_RESPONSE) \<and>
        handshake_step (sc_handshake (ga_comm g)) b (sc_handshake c)))"
proof (cases buf)
  case None
  then show ?thesis by (intro exI [of _ STATUS_INVALID_PARAMETER] exI [of _ "ga_comm g"]) (simp add: SarCommMessageNotify_def)
next
  case (Some b)
  obtain mv t where v: "sar_msg_validate (Some b) = (mv, t)" by fastforce
  show ?thesis
  proof (cases "mv = SAR_MSG_OK \<and> t = SEMANTICS_AR_MSG_CONNECT_RESPONSE")
    case True
    then show ?thesis using connect_response_step [of g b] Some v
      by (auto simp: SarCommMessageNotify_def comm_dispatch_def)
  next
    case False
    then have "\<exists>s. SarCommMessageNotify env g buf out_len = Some (s, [], tamper g)"
      using comm_dispatch_unauthenticated [OF assms, of t env b out_len] Some v
      by (cases "mv = SAR_MSG_OK") (auto simp: SarCommMessageNotify_def)
    then obtain s where "SarCommMessageNotify env g buf out_len = Some (s, [], tamper g)" by blast
    then show ?thesis by (intro exI [of _ s] exI [of _ "comm_tamper (ga_comm g)"]) (simp add: tamper_def comm_tamper_def)
  qed
qed

text \<open>
  C8: nothing without authentication. As long as the session is not authenticated, no message of whatever bytes is answered
  with data, and none changes anything but the port's own record: not the mode, the whitelist, the identities, the
  keys, the preserved data, the budget, the log, nor any file. The session becomes authenticated only by a valid response
  message to an outstanding challenge that carries a signature the verification accepts for the session's nonce.
\<close>

theorem comm_unauthenticated_inert:
  assumes "\<not> authenticated g"
  shows "\<exists>s c. SarCommMessageNotify env g buf out_len = Some (s, [], g\<lparr>ga_comm := c\<rparr>) \<and>
    (authenticated (g\<lparr>ga_comm := c\<rparr>) \<longrightarrow>
       (\<exists>b. buf = Some b \<and> sar_msg_validate buf = (SAR_MSG_OK, SEMANTICS_AR_MSG_CONNECT_RESPONSE) \<and>
          hs_phase (sc_handshake (ga_comm g)) = SAR_HS_CHALLENGE_ISSUED \<and> response_signed (sc_handshake (ga_comm g)) b))"
proof -
  obtain s c where out: "SarCommMessageNotify env g buf out_len = Some (s, [], g\<lparr>ga_comm := c\<rparr>)"
    "sc_handshake c = sc_handshake (ga_comm g) \<or>
     (\<exists>b. buf = Some b \<and> sar_msg_validate buf = (SAR_MSG_OK, SEMANTICS_AR_MSG_CONNECT_RESPONSE) \<and>
        handshake_step (sc_handshake (ga_comm g)) b (sc_handshake c))"
    using message_unauthenticated [OF assms] by blast
  then show ?thesis using assms
    by (intro exI [of _ s] exI [of _ c]) (auto simp: authenticated_def sar_handshake_authenticated_def handshake_step_def)
qed

section \<open>Sessions\<close>

text \<open>
  What happens at the port over time, the latest first: connections, challenges, messages and disconnections. The filter
  manager accepts one connection at a time and delivers messages only while it is open; the rest of the driver runs in
  between and leaves the port alone. The key the signatures are checked against is the same throughout.
\<close>

datatype comm_event = Connected | Challenged bytes | Message bytes | Disconnected

inductive comm_run :: "bcrypt_verify_env \<Rightarrow> comm_event list \<Rightarrow> sar_globals \<Rightarrow> bool" for verify where
  create: "SarCommPortCreate pool security port verify = (STATUS_SUCCESS, Some c) \<Longrightarrow> comm_run verify [] (g\<lparr>ga_comm := c\<rparr>)"
| connect: "comm_run verify tr g \<Longrightarrow> \<not> sc_client_port (ga_comm g) \<Longrightarrow> ne_verify env = verify \<Longrightarrow>
    SarCommConnectNotify env g = (s, g') \<Longrightarrow> comm_run verify (if NT_SUCCESS s then Connected # tr else tr) g'"
| challenge: "comm_run verify tr g \<Longrightarrow> length nonce = SAR_HS_NONCE_SIZE \<Longrightarrow>
    SarIssueChallenge (Some nonce) sent (ga_comm g) = (s, m, c) \<Longrightarrow> comm_run verify (Challenged nonce # tr) (g\<lparr>ga_comm := c\<rparr>)"
| message: "comm_run verify tr g \<Longrightarrow> sc_client_port (ga_comm g) \<Longrightarrow>
    SarCommMessageNotify env g (Some b) out_len = Some (s, r, g') \<Longrightarrow> comm_run verify (Message b # tr) g'"
| disconnect: "comm_run verify tr g \<Longrightarrow> sc_client_port (ga_comm g) \<Longrightarrow>
    comm_run verify (Disconnected # tr) (g\<lparr>ga_comm := SarCommDisconnectNotify (ga_comm g)\<rparr>)"
| other: "comm_run verify tr g \<Longrightarrow> ga_comm g' = ga_comm g \<Longrightarrow> comm_run verify tr g'"

definition session :: "comm_event list \<Rightarrow> comm_event list" where
  "session tr = takeWhile (\<lambda>e. e \<noteq> Connected) tr"

definition signed_for :: "bcrypt_verify_env \<Rightarrow> bytes \<Rightarrow> bytes \<Rightarrow> bool" where
  "signed_for verify nonce b \<longleftrightarrow> SarHandshakeVerify verify nonce (take (unat (u32_at b 12)) (slice b 16 SEMANTICS_AR_HS_SIG_MAX))"

definition session_inv :: "bcrypt_verify_env \<Rightarrow> comm_event list \<Rightarrow> sar_globals \<Rightarrow> bool" where
  "session_inv verify tr g \<longleftrightarrow> (let c = ga_comm g; h = sc_handshake c in
     hs_verify h = Some (SarHandshakeVerify verify) \<and> length (hs_nonce h) = SAR_HS_NONCE_SIZE \<and>
     (sc_client_port c \<longrightarrow>
        (hs_phase h = SAR_HS_CHALLENGE_ISSUED \<longrightarrow>
           hs_nonce_len h = word_of_nat SAR_HS_NONCE_SIZE \<and> Challenged (hs_nonce h) \<in> set (session tr)) \<and>
        (hs_phase h = SAR_HS_VERSIONED \<longrightarrow>
           (\<exists>nonce b. Challenged nonce \<in> set (session tr) \<and> Message b \<in> set (session tr) \<and> signed_for verify nonce b)) \<and>
        hs_phase h \<noteq> SAR_HS_AUTHENTICATED))"

lemma dispatch_keeps_comm:
  assumes "type \<noteq> SEMANTICS_AR_MSG_CONNECT_RESPONSE" "comm_dispatch env g type b out_len = Some (s, r, g')"
  shows "ga_comm g' = ga_comm g \<or> ga_comm g' = comm_tamper (ga_comm g)"
proof (cases "authenticated g")
  case False
  then show ?thesis using comm_dispatch_unauthenticated [OF False assms(1), of env b out_len] assms(2) by (auto simp: tamper_def)
next
  case True
  then show ?thesis using assms
    by (auto simp: comm_dispatch_def comm_handlers when_authenticated_def when_fits_def Let_def tamper_def split: if_splits option.splits prod.splits)
qed

lemma message_keeps_comm:
  assumes "SarCommMessageNotify env g (Some b) out_len = Some (s, r, g')"
  shows "sc_client_port (ga_comm g') = sc_client_port (ga_comm g) \<and>
    (sc_handshake (ga_comm g') = sc_handshake (ga_comm g) \<or> handshake_step (sc_handshake (ga_comm g)) b (sc_handshake (ga_comm g')))"
proof -
  obtain mv t where v: "sar_msg_validate (Some b) = (mv, t)" by fastforce
  show ?thesis
  proof (cases "mv = SAR_MSG_OK")
    case True
    then show ?thesis using assms v connect_response_step [of g b] dispatch_keeps_comm [of t env g b out_len s r g']
      by (cases "t = SEMANTICS_AR_MSG_CONNECT_RESPONSE")
        (auto simp: SarCommMessageNotify_def comm_dispatch_def comm_tamper_def)
  next
    case False
    then show ?thesis using assms v by (auto simp: SarCommMessageNotify_def tamper_def comm_tamper_def)
  qed
qed

lemma session_simps [simp]:
  "session [] = []" "session (Connected # tr) = []" "session (Challenged n # tr) = Challenged n # session tr"
  "session (Message b # tr) = Message b # session tr" "session (Disconnected # tr) = Disconnected # session tr"
  by (simp_all add: session_def)

lemma comm_run_session: "comm_run verify tr g \<Longrightarrow> session_inv verify tr g"
proof (induction rule: comm_run.induct)
  case (create pool security port c g)
  then show ?case by (auto simp: SarCommPortCreate_def session_inv_def sar_handshake_init_def SAR_HS_NONCE_SIZE_def split: if_splits)
next
  case (connect tr g env s g')
  then show ?case
    by (auto simp: SarCommConnectNotify_def session_inv_def sar_handshake_init_def Let_def split: option.splits if_splits)
next
  case (challenge tr g nonce sent s m c)
  then show ?case
    by (auto simp: SarIssueChallenge_def session_inv_def Let_def sar_handshake_issue_challenge_def ctl_memcpy_eq split: if_splits)
next
  case (message tr g env b out_len s r g')
  have signed: "signed_for verify (hs_nonce (sc_handshake (ga_comm g))) b"
    if "hs_phase (sc_handshake (ga_comm g)) = SAR_HS_CHALLENGE_ISSUED" "response_signed (sc_handshake (ga_comm g)) b"
    using message.IH message.hyps(2) that by (auto simp: session_inv_def Let_def response_signed_def signed_for_def SAR_HS_NONCE_SIZE_def)
  show ?case using message_keeps_comm [OF message.hyps(3)] message.IH message.hyps(2) signed
    by (auto simp: session_inv_def Let_def handshake_step_def)
next
  case (disconnect tr g)
  then show ?case by (auto simp: session_inv_def Let_def SarCommDisconnectNotify_def sar_handshake_timeout_def)
next
  case (other tr g g')
  then show ?case by (simp add: session_inv_def)
qed

text \<open>
  C9: an open session that is authenticated was signed for. Whatever sequence of connections, challenges, messages,
  disconnections and other activity of the driver led here, if the connection is open and authenticated, then since it
  was made a random nonce was issued as a challenge and a message arrived whose signature the service's public key
  verifies for that very nonce: no session inherits the authentication of an earlier one.
\<close>

theorem comm_session_signed:
  assumes "comm_run verify tr g" "sc_client_port (ga_comm g)" "authenticated g"
  shows "\<exists>nonce b. Challenged nonce \<in> set (session tr) \<and> Message b \<in> set (session tr) \<and> signed_for verify nonce b"
  using comm_run_session [OF assms(1)] assms(2,3)
  by (simp add: session_inv_def Let_def authenticated_def sar_handshake_authenticated_def)

section \<open>The type of a reply\<close>

definition reply_type :: "u32 \<Rightarrow> u32 option" where
  "reply_type type =
     (if type = SEMANTICS_AR_MSG_GET_STATUS then Some SEMANTICS_AR_MSG_STATUS_REPLY
      else if type = SEMANTICS_AR_MSG_RECOVERY_EXEC then Some SEMANTICS_AR_MSG_RECOVERY_RESULT
      else if type = SEMANTICS_AR_MSG_CATALOG_QUERY then Some SEMANTICS_AR_MSG_CATALOG_REPLY
      else if type = SEMANTICS_AR_MSG_PRESERVE_QUERY then Some SEMANTICS_AR_MSG_PRESERVE_REPLY
      else if type = SEMANTICS_AR_MSG_PRESERVE_RECOVER then Some SEMANTICS_AR_MSG_PRESERVE_RESULT
      else if type = SEMANTICS_AR_MSG_EVENTS_QUERY then Some SEMANTICS_AR_MSG_EVENTS_REPLY
      else if type = SEMANTICS_AR_MSG_PROCESS_QUERY then Some SEMANTICS_AR_MSG_PROCESS_REPLY
      else if type = SEMANTICS_AR_MSG_WHITELIST_QUERY then Some SEMANTICS_AR_MSG_WHITELIST_REPLY
      else None)"

text \<open>
  The records the driver holds have fields of the sizes their types give them.
\<close>

definition globals_wf :: "sar_globals \<Rightarrow> bool" where
  "globals_wf g \<longleftrightarrow> (case ga_keystore g of None \<Rightarrow> True | Some ks \<Rightarrow> list_all wf_ks_record (dk_records ks)) \<and>
     (case ga_preserve g of None \<Rightarrow> True | Some p \<Rightarrow> list_all wf_pres_record (sp_records p)) \<and> wl_ok (ss_whitelist (ga_state g))"

lemma reply_valid:
  assumes "12 + length body = sizeof layout" "sar_msg_expected_length t = word_of_nat (sizeof layout)" "sizeof layout < 2 ^ 32"
  shows "sar_msg_validate (Some (reply_header t layout @ body)) = (SAR_MSG_OK, t) \<and> length (reply_header t layout @ body) = sizeof layout"
proof -
  have len: "length (reply_header t layout @ body) = sizeof layout" using assms(1) by (simp add: reply_header_def mh_encode_def)
  have u: "unat (word_of_nat (sizeof layout) :: u32) = sizeof layout" using assms(3) by (simp add: unat_of_nat take_bit_nat_eq_self)
  have "mh_decode (reply_header t layout @ body) = \<lparr>mh_protocol_version = SEMANTICS_AR_PROTOCOL_VERSION, mh_message_type = t,
      mh_message_length = word_of_nat (sizeof layout)\<rparr>"
    by (simp add: mh_decode_def reply_header_def mh_encode_def slice_def le_load_store)
  moreover have "(word_of_nat (sizeof layout) :: u32) \<noteq> 0" using u assms(1) by (metis add_is_0 unat_0 zero_neq_numeral)
  ultimately show ?thesis unfolding sar_msg_validate_ok_iff using len u assms(2) by simp
qed

lemma reply_lengths:
  "wf_ks_record r \<Longrightarrow> length (kr_key_id r) = 32 \<and> length (kr_provenance_path r) = 260"
  "wf_pres_record q \<Longrightarrow> length (pr_provenance_path q) = 260 \<and> length (pr_causing_image_path q) = 260"
  "wf_identity i \<Longrightarrow> length (id_image_path i) = 260 \<and> length (id_cert_subject i) = 256 \<and> length (id_content_hash i) = 32"
  by (simp_all add: wf_ks_record_def wf_pres_record_def wf_identity_def SEMANTICS_AR_PROTO_PATH_MAX_def SEMANTICS_AR_PROTO_SUBJECT_MAX_def
      SEMANTICS_AR_CONTENT_HASH_SIZE_def)

lemma sizeof_entries:
  "sizeof catalog_entry_fields = 584" "sizeof preserve_entry_fields = 1084" "sizeof whitelist_entry_fields = 1072"
  by (simp_all add: msg_fields_defs)

lemma catalog_reply_length:
  assumes "globals_wf g" "catalog_project g index = (entry, n)"
  shows "length (catalog_entry_bytes entry) = 584"
proof (cases entry)
  case (Some e)
  then obtain k where k: "ga_keystore g = Some k" "SarKeystoreProject k (ucast index) = (Some e, n)"
    using assms(2) by (auto simp: catalog_project_def split: option.splits if_splits)
  then have "\<exists>r \<in> set (dk_records k). ce_key_id e = kr_key_id r \<and> ce_provenance_path e = kr_provenance_path r"
    by (auto simp: SarKeystoreProject_def Let_def intro!: bexI [of _ "dk_records k ! unat (ucast index :: u64)"] split: if_splits)
  then show ?thesis using assms(1) Some k(1) by (auto simp: globals_wf_def catalog_entry_bytes_def list_all_iff dest!: reply_lengths(1))
qed (simp add: catalog_entry_bytes_def sizeof_entries)

lemma preserve_reply_length:
  assumes "globals_wf g" "preserve_project g index = (entry, n)"
  shows "length (preserve_entry_bytes entry) = 1084"
proof (cases entry)
  case (Some e)
  then obtain p where p: "ga_preserve g = Some p" "SarPreserveProject p (ucast index) = (Some e, n)"
    using assms(2) by (auto simp: preserve_project_def split: option.splits if_splits)
  then have "\<exists>r \<in> set (sp_records p). pn_provenance_path e = pr_provenance_path r \<and> pn_causing_image_path e = pr_causing_image_path r"
    by (auto simp: SarPreserveProject_def Let_def intro!: bexI [of _ "sp_records p ! unat (ucast index :: u64)"] split: if_splits)
  then show ?thesis using assms(1) Some p(1) by (auto simp: globals_wf_def preserve_entry_bytes_def list_all_iff dest!: reply_lengths(2))
qed (simp add: preserve_entry_bytes_def sizeof_entries)

lemma whitelist_reply_length:
  assumes "wl_ok (ss_whitelist st)" "SarStateWhitelistEnumerate st index = (s, ident, seen, n)"
  shows "length (whitelist_entry_bytes (if s = SAR_WL_OK then map_option (\<lambda>i. (i, seen)) ident else None)) = 1072"
proof (cases "s = SAR_WL_OK \<and> ident \<noteq> None")
  case True
  then obtain i where i: "ident = Some i" by blast
  have "i \<in> set (wl_ids (ss_whitelist st))"
    using assms True i by (auto simp: SarStateWhitelistEnumerate_def sar_whitelist_enumerate_def wl_ids_def wl_ok_def wl_storage_def
        word_le_nat_alt in_set_conv_nth intro!: exI [of _ "unat index"] split: option.splits if_splits)
  then have "wf_identity i" using assms(1) by (auto simp: wl_ok_def ids_ok_def list_all_iff)
  then show ?thesis using True i by (auto simp: whitelist_entry_bytes_def dest: reply_lengths(3))
qed (auto simp: whitelist_entry_bytes_def sizeof_entries)

lemma if_chainE: "(if c then x else y) = z \<Longrightarrow> (c \<Longrightarrow> x = z \<Longrightarrow> P) \<Longrightarrow> (\<not> c \<Longrightarrow> y = z \<Longrightarrow> P) \<Longrightarrow> P"
  by (simp split: if_splits)

lemma guarded_reply:
  assumes "when_authenticated g (when_fits out_len n g r) = Some (s, reply, g')" "reply \<noteq> []"
  shows "authenticated g \<and> (\<exists>len. out_len = Some len \<and> n \<le> len) \<and> r = Some (s, reply, g')"
  using assms by (auto simp: when_authenticated_def when_fits_def not_less split: if_splits option.splits)

lemma unanswered:
  "handle_set_budget env g b = Some (s, reply, g') \<Longrightarrow> reply = []" "handle_set_mode env g b = Some (s, reply, g') \<Longrightarrow> reply = []"
  "handle_whitelist env g t b = Some (s, reply, g') \<Longrightarrow> reply = []" "handle_identity_verdict g b = Some (s, reply, g') \<Longrightarrow> reply = []"
  by (auto simp: handle_set_budget_def handle_set_mode_def handle_whitelist_def handle_identity_verdict_def when_authenticated_def
      split: if_splits prod.splits)

text \<open>
  What a handler has to show of its reply.
\<close>

definition typed_reply :: "sar_globals \<Rightarrow> u32 \<Rightarrow> nat option \<Rightarrow> NTSTATUS \<Rightarrow> bytes \<Rightarrow> bool" where
  "typed_reply g t out_len s reply \<longleftrightarrow> authenticated g \<and> s = STATUS_SUCCESS \<and> sar_msg_validate (Some reply) = (SAR_MSG_OK, t) \<and>
     (\<exists>len. out_len = Some len \<and> length reply \<le> len)"

lemma typed_replyI:
  assumes "when_authenticated g (when_fits out_len (sizeof layout) g r) = Some (s, reply, g')" "reply \<noteq> []"
    "r = Some (s, reply, g') \<Longrightarrow> s = STATUS_SUCCESS \<and> (\<exists>body. reply = reply_header t layout @ body \<and> 12 + length body = sizeof layout)"
    "sar_msg_expected_length t = word_of_nat (sizeof layout)" "sizeof layout < 2 ^ 32"
  shows "typed_reply g t out_len s reply"
  using guarded_reply [OF assms(1,2)] assms(3) reply_valid [OF _ assms(4,5)] by (auto simp: typed_reply_def)

lemma expected_replies:
  "sar_msg_expected_length SEMANTICS_AR_MSG_STATUS_REPLY = word_of_nat (sizeof status_reply_fields)"
  "sar_msg_expected_length SEMANTICS_AR_MSG_PROCESS_REPLY = word_of_nat (sizeof process_reply_fields)"
  "sar_msg_expected_length SEMANTICS_AR_MSG_RECOVERY_RESULT = word_of_nat (sizeof recovery_result_fields)"
  "sar_msg_expected_length SEMANTICS_AR_MSG_PRESERVE_RESULT = word_of_nat (sizeof recovery_result_fields)"
  "sar_msg_expected_length SEMANTICS_AR_MSG_CATALOG_REPLY = word_of_nat (sizeof catalog_reply_fields)"
  "sar_msg_expected_length SEMANTICS_AR_MSG_PRESERVE_REPLY = word_of_nat (sizeof preserve_reply_fields)"
  "sar_msg_expected_length SEMANTICS_AR_MSG_EVENTS_REPLY = word_of_nat (sizeof events_reply_fields)"
  "sar_msg_expected_length SEMANTICS_AR_MSG_WHITELIST_REPLY = word_of_nat (sizeof whitelist_reply_fields)"
  by (simp_all add: sar_msg_expected_length_def msg_type_defs)

lemma typed_simple_replies:
  "SarHandleGetStatus g out_len = Some (s, reply, g') \<Longrightarrow> reply \<noteq> [] \<Longrightarrow> typed_reply g SEMANTICS_AR_MSG_STATUS_REPLY out_len s reply"
  "SarHandleProcessQuery g b out_len = Some (s, reply, g') \<Longrightarrow> reply \<noteq> [] \<Longrightarrow> typed_reply g SEMANTICS_AR_MSG_PROCESS_REPLY out_len s reply"
  "SarHandleRecoveryExec env g b out_len = Some (s, reply, g') \<Longrightarrow> reply \<noteq> [] \<Longrightarrow> typed_reply g SEMANTICS_AR_MSG_RECOVERY_RESULT out_len s reply"
  "SarHandlePreserveRecover env g b out_len = Some (s, reply, g') \<Longrightarrow> reply \<noteq> [] \<Longrightarrow> typed_reply g SEMANTICS_AR_MSG_PRESERVE_RESULT out_len s reply"
  "SarHandleEventsQuery g b out_len = Some (s, reply, g') \<Longrightarrow> reply \<noteq> [] \<Longrightarrow> typed_reply g SEMANTICS_AR_MSG_EVENTS_REPLY out_len s reply"
  unfolding SarHandleGetStatus_def SarHandleProcessQuery_def SarHandleRecoveryExec_def SarHandlePreserveRecover_def SarHandleEventsQuery_def
  by (erule (1) typed_replyI, (auto simp: sizeof_msg Let_def split: prod.splits option.splits) [], simp only: expected_replies, simp add: sizeof_msg)+

lemma typed_listing_replies:
  assumes "globals_wf g"
  shows "SarHandleCatalogQuery g b out_len = Some (s, reply, g') \<Longrightarrow> reply \<noteq> [] \<Longrightarrow> typed_reply g SEMANTICS_AR_MSG_CATALOG_REPLY out_len s reply"
    "SarHandlePreserveQuery g b out_len = Some (s, reply, g') \<Longrightarrow> reply \<noteq> [] \<Longrightarrow> typed_reply g SEMANTICS_AR_MSG_PRESERVE_REPLY out_len s reply"
    "SarHandleWhitelistQuery g b out_len = Some (s, reply, g') \<Longrightarrow> reply \<noteq> [] \<Longrightarrow> typed_reply g SEMANTICS_AR_MSG_WHITELIST_REPLY out_len s reply"
proof -
  note lengths = catalog_reply_length [OF assms] preserve_reply_length [OF assms] whitelist_reply_length
  have wl: "wl_ok (ss_whitelist (ga_state g))" using assms by (simp add: globals_wf_def)
  note query_defs = SarHandleCatalogQuery_def SarHandlePreserveQuery_def SarHandleWhitelistQuery_def
  show "SarHandleCatalogQuery g b out_len = Some (s, reply, g') \<Longrightarrow> reply \<noteq> [] \<Longrightarrow> typed_reply g SEMANTICS_AR_MSG_CATALOG_REPLY out_len s reply"
    unfolding query_defs
    by (erule (1) typed_replyI, (use lengths in \<open>auto simp: sizeof_msg Let_def split: prod.splits\<close>) [], simp only: expected_replies, simp add: sizeof_msg)
  show "SarHandlePreserveQuery g b out_len = Some (s, reply, g') \<Longrightarrow> reply \<noteq> [] \<Longrightarrow> typed_reply g SEMANTICS_AR_MSG_PRESERVE_REPLY out_len s reply"
    unfolding query_defs
    by (erule (1) typed_replyI, (use lengths in \<open>auto simp: sizeof_msg Let_def split: prod.splits\<close>) [], simp only: expected_replies, simp add: sizeof_msg)
  show "SarHandleWhitelistQuery g b out_len = Some (s, reply, g') \<Longrightarrow> reply \<noteq> [] \<Longrightarrow> typed_reply g SEMANTICS_AR_MSG_WHITELIST_REPLY out_len s reply"
    unfolding query_defs
    by (erule (1) typed_replyI, (use whitelist_reply_length [OF wl] in \<open>auto simp: sizeof_msg Let_def split: prod.splits\<close>) [], simp only: expected_replies, simp add: sizeof_msg)
qed

lemma reply_types:
  "reply_type SEMANTICS_AR_MSG_GET_STATUS = Some SEMANTICS_AR_MSG_STATUS_REPLY"
  "reply_type SEMANTICS_AR_MSG_RECOVERY_EXEC = Some SEMANTICS_AR_MSG_RECOVERY_RESULT"
  "reply_type SEMANTICS_AR_MSG_CATALOG_QUERY = Some SEMANTICS_AR_MSG_CATALOG_REPLY"
  "reply_type SEMANTICS_AR_MSG_PRESERVE_QUERY = Some SEMANTICS_AR_MSG_PRESERVE_REPLY"
  "reply_type SEMANTICS_AR_MSG_PRESERVE_RECOVER = Some SEMANTICS_AR_MSG_PRESERVE_RESULT"
  "reply_type SEMANTICS_AR_MSG_EVENTS_QUERY = Some SEMANTICS_AR_MSG_EVENTS_REPLY"
  "reply_type SEMANTICS_AR_MSG_PROCESS_QUERY = Some SEMANTICS_AR_MSG_PROCESS_REPLY"
  "reply_type SEMANTICS_AR_MSG_WHITELIST_QUERY = Some SEMANTICS_AR_MSG_WHITELIST_REPLY"
  by (simp_all add: reply_type_def msg_type_defs)

lemma answered:
  "t = m \<Longrightarrow> reply_type m = Some t' \<Longrightarrow> typed_reply g t' out_len s reply \<Longrightarrow> \<exists>t'. reply_type t = Some t' \<and> typed_reply g t' out_len s reply"
  by blast

text \<open>
  C16: the type of a reply. Every reply the driver copies to the service answers a valid request of the eight that have
  one, in an authenticated session and with success, fits the output buffer, and is itself a valid message of exactly the
  type that belongs to the request, with the version, type and length its header has to name, whatever records the
  driver holds.
\<close>

theorem comm_reply_typed:
  assumes "globals_wf g" "SarCommMessageNotify env g buf out_len = Some (s, reply, g')" "reply \<noteq> []"
  shows "\<exists>t t'. sar_msg_validate buf = (SAR_MSG_OK, t) \<and> reply_type t = Some t' \<and> typed_reply g t' out_len s reply"
proof -
  obtain b where b: "buf = Some b" using assms(2,3) by (cases buf) (auto simp: SarCommMessageNotify_def)
  obtain mv t where v: "sar_msg_validate (Some b) = (mv, t)" by fastforce
  have mv: "mv = SAR_MSG_OK" using assms(2,3) b v by (auto simp: SarCommMessageNotify_def split: if_splits)
  then have d: "comm_dispatch env g t b out_len = Some (s, reply, g')" using assms(2) b v by (simp add: SarCommMessageNotify_def)
  obtain s' c where response: "SarHandleConnectResponse g b = (s', [], g\<lparr>ga_comm := c\<rparr>)" using connect_response_step [of g b] by blast
  from d [unfolded comm_dispatch_def] have "\<exists>t'. reply_type t = Some t' \<and> typed_reply g t' out_len s reply"
    by (elim if_chainE) ((erule answered, rule reply_types, erule typed_simple_replies typed_listing_replies [OF assms(1)], rule assms(3))
        | (drule unanswered, simp add: assms(3)) | (simp add: response assms(3) assms(3) [symmetric]))+
  then show ?thesis using b v mv by simp
qed

section \<open>Witnesses\<close>

definition verify_example :: bcrypt_verify_env where
  "verify_example = \<lparr>hv_open = STATUS_SUCCESS, hv_import = STATUS_SUCCESS,
     hv_verify = (\<lambda>nonce signature. if signature = nonce then STATUS_SUCCESS else STATUS_OTHER)\<rparr>"

definition comm_example :: SAR_COMM where
  "comm_example = the (snd (SarCommPortCreate True STATUS_SUCCESS STATUS_SUCCESS verify_example))"

definition globals_example :: sar_globals where
  "globals_example = \<lparr>ga_comm = comm_example, ga_state = state_example, ga_keystore = None, ga_preserve = None,
     ga_data = (\<lambda>_. 0), ga_eventlog = None,
     ga_posture = \<lparr>po_hvci_active = False, po_vbs_active = False, po_tpm20_present = False, po_ppl_available = SAR_PPL_NONE,
       po_dev_drive_supported = False, po_dev_drive_attach_gap = False, po_process_notify_ex2 = False,
       po_bypass_io_negotiated = False, po_keystore_persistent = False, po_keystore_tamper_detected = False,
       po_preserve_tamper_detected = False, po_preserve_active = False, po_phantom_active = False\<rparr>,
     ga_capture = None, ga_files = Map.empty, ga_store = (\<lambda>_. None)\<rparr>"

definition comm_env_example :: comm_env where
  "comm_env_example = \<lparr>me_now = 1, me_recover = example_env, me_preserve_recover = overlay_example,
     me_write = \<lparr>sw_create = STATUS_SUCCESS, sw_partial = [], sw_write = STATUS_SUCCESS, sw_flush = STATUS_SUCCESS, sw_open = STATUS_SUCCESS,
       sw_pool = True, sw_rename = STATUS_SUCCESS\<rparr>\<rparr>"

definition status_request :: bytes where
  "status_request = reply_header SEMANTICS_AR_MSG_GET_STATUS get_status_fields"

lemma status_request_valid: "sar_msg_validate (Some status_request) = (SAR_MSG_OK, SEMANTICS_AR_MSG_GET_STATUS)"
  using reply_valid [of "[]" get_status_fields SEMANTICS_AR_MSG_GET_STATUS]
  by (simp add: status_request_def sizeof_msg sar_msg_expected_length_def msg_type_defs)

theorem comm_unauthenticated_inert_witness:
  "\<not> authenticated globals_example \<and>
   (\<exists>s c. SarCommMessageNotify comm_env_example globals_example (Some status_request) (Some 84) = Some (s, [], globals_example\<lparr>ga_comm := c\<rparr>))"
proof -
  have "\<not> authenticated globals_example"
    by (simp add: authenticated_def globals_example_def comm_example_def SarCommPortCreate_def sar_handshake_defs)
  with comm_unauthenticated_inert [OF this, of comm_env_example "Some status_request" "Some 84"] show ?thesis by blast
qed

definition nonce_example :: bytes where "nonce_example = map word_of_nat [0..<32]"

definition response_example :: bytes where
  "response_example = reply_header SEMANTICS_AR_MSG_CONNECT_RESPONSE connect_response_fields @ le_store 4 (32 :: u32) @ nonce_example @ replicate 480 0"

definition connect_example :: connect_env where
  "connect_example = \<lparr>ne_image = Some g_sar_service_image_allow, ne_upcase = (\<lambda>c. c), ne_workitem = True, ne_queue = STATUS_SUCCESS,
     ne_protection = None, ne_verify = verify_example\<rparr>"

definition challenged_example :: sar_handshake where
  "challenged_example = (sar_handshake_init SEMANTICS_AR_PROTOCOL_VERSION (Some (SarHandshakeVerify verify_example)))
     \<lparr>hs_nonce := nonce_example, hs_nonce_len := 32, hs_phase := SAR_HS_CHALLENGE_ISSUED\<rparr>"

definition connected_example :: sar_globals where
  "connected_example = globals_example\<lparr>ga_comm := comm_example\<lparr>sc_client_port := True, sc_handshake := challenged_example\<rparr>\<rparr>"

lemma connected_example_run: "comm_run verify_example [Challenged nonce_example, Connected] connected_example"
proof -
  have "comm_run verify_example [] (globals_example\<lparr>ga_comm := comm_example\<rparr>)"
    by (rule comm_run.create [of True STATUS_SUCCESS STATUS_SUCCESS]) (simp add: comm_example_def SarCommPortCreate_def)
  then have start: "comm_run verify_example [] globals_example" by (simp add: globals_example_def)
  define g1 where "g1 = globals_example\<lparr>ga_comm := comm_example\<lparr>sc_client_port := True,
    sc_handshake := sar_handshake_init SEMANTICS_AR_PROTOCOL_VERSION (Some (SarHandshakeVerify verify_example))\<rparr>\<rparr>"
  have "SarCommConnectNotify connect_example globals_example = (STATUS_SUCCESS, g1)"
    by (simp add: SarCommConnectNotify_def connect_example_def SarImagePathAllowed_def SarQueryConnectorProtection_def g1_def Let_def)
      (simp add: globals_example_def)
  from comm_run.connect [OF start _ _ this] have conn: "comm_run verify_example [Connected] g1"
    by (simp add: globals_example_def comm_example_def SarCommPortCreate_def connect_example_def)
  have n: "length nonce_example = SAR_HS_NONCE_SIZE" by (simp add: nonce_example_def SAR_HS_NONCE_SIZE_def)
  have "\<exists>m. SarIssueChallenge (Some nonce_example) STATUS_SUCCESS (ga_comm g1) = (STATUS_SUCCESS, m, ga_comm connected_example)"
    by (simp add: SarIssueChallenge_def g1_def sar_handshake_issue_challenge_def sar_handshake_init_def ctl_memcpy_eq n connected_example_def
        challenged_example_def) (simp add: SAR_HS_NONCE_SIZE_def)
  then obtain m where "SarIssueChallenge (Some nonce_example) STATUS_SUCCESS (ga_comm g1) = (STATUS_SUCCESS, m, ga_comm connected_example)" by blast
  from comm_run.challenge [OF conn n this] show ?thesis by (simp add: g1_def connected_example_def)
qed

lemma response_example_accepted:
  "\<exists>c. SarCommMessageNotify comm_env_example connected_example (Some response_example) None = Some (STATUS_SUCCESS, [], connected_example\<lparr>ga_comm := c\<rparr>) \<and>
     sc_client_port c \<and> hs_phase (sc_handshake c) = SAR_HS_VERSIONED"
proof -
  let ?body = "le_store 4 (32 :: u32) @ nonce_example @ replicate 480 0"
  have n: "length nonce_example = 32" by (simp add: nonce_example_def)
  have h: "length (reply_header t l) = 12" for t l by (simp add: reply_header_def mh_encode_def)
  have valid: "sar_msg_validate (Some response_example) = (SAR_MSG_OK, SEMANTICS_AR_MSG_CONNECT_RESPONSE)"
    using reply_valid [of ?body connect_response_fields SEMANTICS_AR_MSG_CONNECT_RESPONSE]
    by (simp add: response_example_def sizeof_msg sar_msg_expected_length_def msg_type_defs n)
  then have version: "mh_protocol_version (mh_decode response_example) = SEMANTICS_AR_PROTOCOL_VERSION"
    by (simp add: sar_msg_validate_ok_iff)
  have parts: "u32_at response_example 12 = 32" "take 32 (slice response_example 16 SEMANTICS_AR_HS_SIG_MAX) = nonce_example"
    using n by (simp_all add: u32_at_def response_example_def slice_def h le_load_store SEMANTICS_AR_HS_SIG_MAX_def)
  define h where "h = challenged_example\<lparr>hs_phase := SAR_HS_VERSIONED, hs_version_peer := SEMANTICS_AR_PROTOCOL_VERSION\<rparr>"
  show ?thesis using valid version parts n
    by (intro exI [of _ "(ga_comm connected_example)\<lparr>sc_handshake := h\<rparr>"])
      (simp add: SarCommMessageNotify_def comm_dispatch_def SarHandleConnectResponse_def sar_handshake_defs connected_example_def
        challenged_example_def SarHandshakeVerify_def verify_example_def SEMANTICS_AR_HS_SIG_MAX_def h_def)
qed

theorem comm_session_signed_witness:
  "\<exists>tr g. comm_run verify_example tr g \<and> sc_client_port (ga_comm g) \<and> authenticated g \<and>
     (\<exists>nonce b. Challenged nonce \<in> set (session tr) \<and> Message b \<in> set (session tr) \<and> signed_for verify_example nonce b)"
proof -
  obtain c where c: "SarCommMessageNotify comm_env_example connected_example (Some response_example) None =
      Some (STATUS_SUCCESS, [], connected_example\<lparr>ga_comm := c\<rparr>)" "sc_client_port c" "hs_phase (sc_handshake c) = SAR_HS_VERSIONED"
    using response_example_accepted by blast
  have run: "comm_run verify_example [Message response_example, Challenged nonce_example, Connected] (connected_example\<lparr>ga_comm := c\<rparr>)"
    by (rule comm_run.message [OF connected_example_run _ c(1)]) (simp add: connected_example_def)
  have auth: "authenticated (connected_example\<lparr>ga_comm := c\<rparr>)" using c(3) by (simp add: authenticated_def sar_handshake_authenticated_def)
  show ?thesis using comm_session_signed [OF run _ auth] run c(2) auth
    by (intro exI [of _ "[Message response_example, Challenged nonce_example, Connected]"] exI [of _ "connected_example\<lparr>ga_comm := c\<rparr>"]) simp
qed

definition serving_example :: sar_globals where
  "serving_example = globals_example\<lparr>ga_comm := comm_example\<lparr>sc_handshake := (sc_handshake comm_example)\<lparr>hs_phase := SAR_HS_VERSIONED\<rparr>\<rparr>\<rparr>"

theorem comm_reply_typed_witness:
  "\<exists>s reply g'. SarCommMessageNotify comm_env_example serving_example (Some status_request) (Some 84) = Some (s, reply, g') \<and>
     typed_reply serving_example SEMANTICS_AR_MSG_STATUS_REPLY (Some 84) s reply"
proof -
  have auth: "authenticated serving_example" by (simp add: authenticated_def serving_example_def sar_handshake_authenticated_def)
  obtain st where st: "SarStateCreate True = (STATUS_SUCCESS, Some st)" by (simp add: SarStateCreate_def)
  then have wf: "globals_wf serving_example" using state_inv_create(1) [OF st]
    by (simp add: globals_wf_def serving_example_def globals_example_def state_example_def state_inv_def)
  have "\<exists>reply. SarCommMessageNotify comm_env_example serving_example (Some status_request) (Some 84) = Some (STATUS_SUCCESS, reply, serving_example) \<and>
      reply \<noteq> []"
    using auth status_request_valid
    by (simp add: SarCommMessageNotify_def comm_dispatch_def SarHandleGetStatus_def when_authenticated_def when_fits_def sizeof_msg Let_def
        msg_type_defs reply_header_def mh_encode_def le_store_def)
  then obtain reply where r: "SarCommMessageNotify comm_env_example serving_example (Some status_request) (Some 84) =
      Some (STATUS_SUCCESS, reply, serving_example)" "reply \<noteq> []" by blast
  show ?thesis using comm_reply_typed [OF wf r] status_request_valid r(1) reply_types(1)
    by (intro exI [of _ STATUS_SUCCESS] exI [of _ reply] exI [of _ serving_example]) simp
qed

section \<open>The class of the service\<close>

text \<open>
  The service is installed as a light protected process of the antimalware signer. The class recorded for it is only that
  some protection is available; the antimalware class would take a full protected process.
\<close>

lemma antimalware_light_is_not_antimalware:
  "SarQueryConnectorProtection (Some (PsProtectedTypeProtectedLight, PsProtectedSignerAntimalware)) = SAR_PPL_AVAILABLE"
  by (simp add: SarQueryConnectorProtection_def)

end
