(* ===== verification/Phantom_Names.thy ===== *)
theory Phantom_Names
  imports Store_Io Mac_Chain Sha256
begin

text \<open>
  Phantom files, the derivation (driver/phantom.c): the layouts of a directory entry, the canonical form of a directory,
  and everything that follows from the volume's secret, a directory and an index: the name of a phantom file, its size
  and times, its file reference number, the path of its backing file and the contents of that file. The lemmas bound the
  names, show that they carry an extension of the palette, and that a directory gives the same phantoms whichever of
  its two spellings the filter manager reports.
\<close>

section \<open>Layouts of a directory entry\<close>

record SAR_DIR_OFFSETS =
  do_next_entry :: nat
  do_file_index :: nat
  do_creation_time :: "nat option"
  do_last_access :: nat
  do_last_write :: nat
  do_change_time :: nat
  do_end_of_file :: nat
  do_alloc_size :: nat
  do_attrs :: nat
  do_name_length :: nat
  do_name_start :: nat
  do_ea_size :: "nat option"
  do_short_name_length :: "nat option"
  do_short_name :: "nat option"
  do_file_id :: "nat option"
  do_file_id_128 :: "nat option"
  do_base_record_size :: nat

text \<open>
  The times, sizes and attributes stand at the same places in every layout that has them.
\<close>

definition dir_layout :: "nat \<Rightarrow> nat option \<Rightarrow> nat option \<Rightarrow> nat option \<Rightarrow> nat option \<Rightarrow> nat option \<Rightarrow> SAR_DIR_OFFSETS" where
  "dir_layout start ea short_len short fid fid128 =
     \<lparr>do_next_entry = 0, do_file_index = 4, do_creation_time = Some 8, do_last_access = 16, do_last_write = 24,
      do_change_time = 32, do_end_of_file = 40, do_alloc_size = 48, do_attrs = 56, do_name_length = 60,
      do_name_start = start, do_ea_size = ea, do_short_name_length = short_len, do_short_name = short,
      do_file_id = fid, do_file_id_128 = fid128, do_base_record_size = start\<rparr>"

definition g_dir_offsets_dir :: SAR_DIR_OFFSETS where
  "g_dir_offsets_dir = dir_layout 64 None None None None None"

definition g_dir_offsets_full :: SAR_DIR_OFFSETS where
  "g_dir_offsets_full = dir_layout 68 (Some 64) None None None None"

definition g_dir_offsets_both :: SAR_DIR_OFFSETS where
  "g_dir_offsets_both = dir_layout 94 (Some 64) (Some 68) (Some 70) None None"

definition g_dir_offsets_names :: SAR_DIR_OFFSETS where
  "g_dir_offsets_names =
     \<lparr>do_next_entry = 0, do_file_index = 4, do_creation_time = None, do_last_access = 0xFFFFFFFF, do_last_write = 0xFFFFFFFF,
      do_change_time = 0xFFFFFFFF, do_end_of_file = 0xFFFFFFFF, do_alloc_size = 0xFFFFFFFF, do_attrs = 0xFFFFFFFF,
      do_name_length = 8, do_name_start = 12, do_ea_size = None, do_short_name_length = None, do_short_name = None,
      do_file_id = None, do_file_id_128 = None, do_base_record_size = 12\<rparr>"

definition g_dir_offsets_id_full :: SAR_DIR_OFFSETS where
  "g_dir_offsets_id_full = dir_layout 80 (Some 64) None None (Some 72) None"

definition g_dir_offsets_id_both :: SAR_DIR_OFFSETS where
  "g_dir_offsets_id_both = dir_layout 104 (Some 64) (Some 68) (Some 70) (Some 96) None"

definition g_dir_offsets_id_extd :: SAR_DIR_OFFSETS where
  "g_dir_offsets_id_extd = dir_layout 88 (Some 64) None None None (Some 72)"

definition g_dir_offsets_id_extd_both :: SAR_DIR_OFFSETS where
  "g_dir_offsets_id_extd_both = dir_layout 114 (Some 64) (Some 88) (Some 90) None (Some 72)"

definition g_dir_offsets_id_global_tx :: SAR_DIR_OFFSETS where
  "g_dir_offsets_id_global_tx = dir_layout 92 None None None (Some 64) None"

datatype FILE_INFORMATION_CLASS =
  FileDirectoryInformation | FileFullDirectoryInformation | FileBothDirectoryInformation | FileNamesInformation |
  FileIdFullDirectoryInformation | FileIdBothDirectoryInformation | FileIdExtdDirectoryInformation |
  FileIdExtdBothDirectoryInformation | FileIdGlobalTxDirectoryInformation |
  FileNameInformation | FileNormalizedNameInformation | FileInternalInformation | FileOtherInformation

fun SarPhantomDirOffsets :: "FILE_INFORMATION_CLASS \<Rightarrow> SAR_DIR_OFFSETS option" where
  "SarPhantomDirOffsets FileDirectoryInformation = Some g_dir_offsets_dir"
| "SarPhantomDirOffsets FileFullDirectoryInformation = Some g_dir_offsets_full"
| "SarPhantomDirOffsets FileBothDirectoryInformation = Some g_dir_offsets_both"
| "SarPhantomDirOffsets FileNamesInformation = Some g_dir_offsets_names"
| "SarPhantomDirOffsets FileIdFullDirectoryInformation = Some g_dir_offsets_id_full"
| "SarPhantomDirOffsets FileIdBothDirectoryInformation = Some g_dir_offsets_id_both"
| "SarPhantomDirOffsets FileIdExtdDirectoryInformation = Some g_dir_offsets_id_extd"
| "SarPhantomDirOffsets FileIdExtdBothDirectoryInformation = Some g_dir_offsets_id_extd_both"
| "SarPhantomDirOffsets FileIdGlobalTxDirectoryInformation = Some g_dir_offsets_id_global_tx"
| "SarPhantomDirOffsets _ = None"

text \<open>
  Sizes are rounded up to a multiple of eight.
\<close>

definition round8 :: "nat \<Rightarrow> nat" where "round8 n = (n + 7) div 8 * 8"

definition SarPhantomEntrySize :: "SAR_DIR_OFFSETS \<Rightarrow> nat \<Rightarrow> nat" where
  "SarPhantomEntrySize off name_bytes = round8 (do_base_record_size off + name_bytes)"

section \<open>Directories\<close>

definition BACKSLASH :: u16 where "BACKSLASH = of_char CHR 0x5C"

definition lower :: "u16 \<Rightarrow> u16" where
  "lower c = (if of_char CHR ''A'' \<le> c \<and> c \<le> of_char CHR ''Z'' then c + 32 else c)"

definition dev_prefix :: "u16 list" where
  "dev_prefix = BACKSLASH # u16s ''Device'' @ [BACKSLASH]"

text \<open>
  The rest of a path from its n-th backslash on.
\<close>

fun from_slash :: "nat \<Rightarrow> u16 list \<Rightarrow> u16 list option" where
  "from_slash n [] = None"
| "from_slash n (c # cs) =
     (if c = BACKSLASH then (if n \<le> 1 then Some (c # cs) else from_slash (n - 1) cs) else from_slash n cs)"

definition SarPhantomCanonDir :: "u16 list \<Rightarrow> u16 list" where
  "SarPhantomCanonDir path =
     (let is_dev = length path \<ge> length dev_prefix \<and> map lower (take (length dev_prefix) path) = map lower dev_prefix;
          b = (if is_dev then case from_slash 3 path of None \<Rightarrow> path | Some rest \<Rightarrow> rest else path)
      in if b \<noteq> [] \<and> last b = BACKSLASH then butlast b else b)"

section \<open>What a secret, a directory and an index give\<close>

definition SarPhantomDeriveSecret :: "bytes \<Rightarrow> bytes" where
  "SarPhantomDeriveSecret mac_key = sar_hmac_sha256 mac_key (map of_char ''phantom-volume-secret'')"

definition SAR_PHANTOM_NAME_CHARS :: nat where "SAR_PHANTOM_NAME_CHARS = 32"
definition SAR_PHANTOM_MAX_PER_DIR :: nat where "SAR_PHANTOM_MAX_PER_DIR = 3"

text \<open>
  The message of every derivation: at most 520 bytes of the directory, the index, and a tag that keeps the derivations
  apart.
\<close>

definition phantom_hash :: "bytes \<Rightarrow> u16 list \<Rightarrow> u32 \<Rightarrow> bytes \<Rightarrow> bytes" where
  "phantom_hash secret dir index tag =
     sar_hmac_sha256 secret (take 520 (path_bytes (SarPhantomCanonDir dir)) @ le_store 4 index @ tag)"

definition g_phantom_cons :: "u16 list" where "g_phantom_cons = u16s ''bcdfghjklmnprstvwz''"
definition g_phantom_vow :: "u16 list" where "g_phantom_vow = u16s ''aeiou''"

definition g_phantom_ext :: "u16 list list" where
  "g_phantom_ext = map u16s
     [''docx'', ''doc'', ''xlsx'', ''xls'', ''pptx'', ''ppt'', ''pdf'', ''rtf'',
      ''txt'', ''csv'', ''odt'', ''ods'', ''jpg'', ''jpeg'', ''png'', ''gif'',
      ''bmp'', ''tiff'', ''psd'', ''zip'', ''rar'', ''7z'', ''tar'', ''gz'',
      ''mp3'', ''mp4'', ''avi'', ''mov'', ''wav'', ''sql'', ''mdb'', ''accdb'',
      ''db'', ''dwg'', ''dxf'', ''ai'', ''eps'', ''htm'', ''xml'', ''json'']"

definition hash_byte :: "bytes \<Rightarrow> nat \<Rightarrow> nat" where "hash_byte hash hi = unat (hash ! (hi mod 32))"

definition syllable_step :: "bytes \<Rightarrow> bool \<Rightarrow> nat \<Rightarrow> u16 list \<times> nat \<Rightarrow> u16 list \<times> nat" where
  "syllable_step hash cap s = (\<lambda>(name, hi).
     let c = g_phantom_cons ! (hash_byte hash hi mod length g_phantom_cons);
         v = g_phantom_vow ! (hash_byte hash (hi + 1) mod length g_phantom_vow);
         c = (if s = 0 \<and> cap then c - of_char CHR ''a'' + of_char CHR ''A'' else c)
     in (name @ [c, v], hi + 2))"

definition digit_step :: "bytes \<Rightarrow> nat \<Rightarrow> u16 list \<times> nat \<Rightarrow> u16 list \<times> nat" where
  "digit_step hash d = (\<lambda>(name, hi).
     (name @ [of_char CHR ''0'' + word_of_nat (hash_byte hash hi mod 10)], hi + 1))"

definition phantom_stem :: "bytes \<Rightarrow> u16 list" where
  "phantom_stem hash =
     (let cap = odd (hash_byte hash 0);
          nsyl = 2 + hash_byte hash 1 mod 3;
          (name, hi) = fold (syllable_step hash cap) [0..<nsyl] ([], 2);
          tmpl = hash_byte hash hi mod 4;
          hi = hi + 1
      in if tmpl = 1 \<or> tmpl = 2 then
           let name = (if tmpl = 1 then name @ [of_char CHR ''_''] else name);
               ndig = 2 + hash_byte hash hi mod 4
           in fst (fold (digit_step hash) [0..<ndig] (name, hi + 1))
         else if tmpl = 3 then
           let nsyl2 = 1 + hash_byte hash hi mod 2
           in fst (fold (syllable_step hash True) [0..<nsyl2] (name, hi + 1))
         else name)"

definition phantom_ext :: "bytes \<Rightarrow> u16 list" where
  "phantom_ext hash = g_phantom_ext ! ((unat (hash ! 30) + 256 * unat (hash ! 31)) mod length g_phantom_ext)"

definition SarPhantomNameForIndex :: "bytes \<Rightarrow> u16 list \<Rightarrow> u32 \<Rightarrow> u16 list" where
  "SarPhantomNameForIndex secret dir index =
     (let hash = phantom_hash secret dir index []
      in phantom_stem hash @ [of_char CHR ''.''] @ phantom_ext hash)"

definition SarPhantomCountForDir :: "u32 \<Rightarrow> nat" where
  "SarPhantomCountForDir real_file_count =
     (if real_file_count = 0 then 0 else if real_file_count \<le> 5 then 1
      else if real_file_count \<le> 20 then 2 else SAR_PHANTOM_MAX_PER_DIR)"

record SAR_PHANTOM_META =
  pm_size :: u32
  pm_ctime :: u64
  pm_atime :: u64
  pm_wtime :: u64

definition SarPhantomRead64 :: "bytes \<Rightarrow> nat \<Rightarrow> u64" where
  "SarPhantomRead64 b i = le_load (slice b i 8)"

definition SarPhantomMetaForIndex :: "bytes \<Rightarrow> u16 list \<Rightarrow> u32 \<Rightarrow> SAR_PHANTOM_META" where
  "SarPhantomMetaForIndex secret dir index =
     (let base = 132500000000000000;
          span = 1576800000000000;
          hash = phantom_hash secret dir index [0x4D];
          r = le_load (slice hash 0 4) :: u32;
          a = SarPhantomRead64 hash 4 mod span;
          b = SarPhantomRead64 hash 12 mod (span div 4);
          c = SarPhantomRead64 hash 20 mod (span div 8)
      in \<lparr>pm_size = 4096 + r mod (1024 * 1024 - 4096), pm_ctime = base + a, pm_atime = base + a + b + c, pm_wtime = base + a + b\<rparr>)"

definition SAR_PHANTOM_FRN_BASE :: u64 where "SAR_PHANTOM_FRN_BASE = 0x0000400000000000"
definition SAR_PHANTOM_FRN_SPAN :: u64 where "SAR_PHANTOM_FRN_SPAN = 0x0000010000000000"
definition SAR_PHANTOM_FRN_INDEX_MASK :: u64 where "SAR_PHANTOM_FRN_INDEX_MASK = 0x0000FFFFFFFFFFFF"

definition SarPhantomFrn :: "bytes \<Rightarrow> u16 list \<Rightarrow> u32 \<Rightarrow> u64" where
  "SarPhantomFrn secret dir index =
     (let hash = phantom_hash secret dir index [0x46];
          idx48 = SAR_PHANTOM_FRN_BASE + SarPhantomRead64 hash 0 mod SAR_PHANTOM_FRN_SPAN;
          seq = 1 + SarPhantomRead64 hash 8 mod 0xFFFE
      in push_bit 48 seq OR (idx48 AND SAR_PHANTOM_FRN_INDEX_MASK))"

definition SarPhantomFrnInRange :: "u64 \<Rightarrow> bool" where
  "SarPhantomFrnInRange frn \<longleftrightarrow>
     (let idx = frn AND SAR_PHANTOM_FRN_INDEX_MASK
      in idx \<ge> SAR_PHANTOM_FRN_BASE \<and> idx < SAR_PHANTOM_FRN_BASE + SAR_PHANTOM_FRN_SPAN)"

section \<open>Recognising a name\<close>

definition phantom_marker :: "u16 list" where
  "phantom_marker = BACKSLASH # u16s ''phantom'' @ [BACKSLASH]"

definition SarPhantomIsPhantomPath :: "u16 list \<Rightarrow> bool" where
  "SarPhantomIsPhantomPath path \<longleftrightarrow>
     length path \<ge> length phantom_marker \<and>
     list_ex (\<lambda>i. list_all (\<lambda>j. lower (path ! (i + j)) = lower (phantom_marker ! j)) [0..<length phantom_marker])
       [0..<length path - length phantom_marker + 1]"

definition has_ext :: "u16 list \<Rightarrow> u16 list \<Rightarrow> bool" where
  "has_ext name e \<longleftrightarrow>
     length name \<ge> length e + 1 \<and> name ! (length name - length e - 1) = of_char CHR ''.'' \<and>
     list_all (\<lambda>j. lower (drop (length name - length e) name ! j) = e ! j) [0..<length e]"

definition SarPhantomExtInPalette :: "u16 list \<Rightarrow> bool" where
  "SarPhantomExtInPalette name = list_ex (has_ext name) g_phantom_ext"

text \<open>
  The platform compares two names after folding the case of each character by its own table, an argument here.
\<close>

definition RtlEqualUnicodeString :: "(u16 \<Rightarrow> u16) \<Rightarrow> u16 list \<Rightarrow> u16 list \<Rightarrow> bool" where
  "RtlEqualUnicodeString upcase a b \<longleftrightarrow> map upcase a = map upcase b"

definition SarPhantomMatchName :: "(u16 \<Rightarrow> u16) \<Rightarrow> bytes \<Rightarrow> u16 list \<Rightarrow> u16 list \<Rightarrow> nat option" where
  "SarPhantomMatchName upcase secret file_name dir =
     find (\<lambda>i. RtlEqualUnicodeString upcase file_name (SarPhantomNameForIndex secret dir (word_of_nat i)))
       [0..<SAR_PHANTOM_MAX_PER_DIR]"

section \<open>The backing file\<close>

definition backing_prefix :: "u16 list" where
  "backing_prefix = concat (map (\<lambda>s. BACKSLASH # u16s s) [''SystemRoot'', ''System32'', ''drivers'', ''SemanticsAr'', ''phantom'']) @ [BACKSLASH]"

definition hex_char :: "u8 \<Rightarrow> u16" where "hex_char n = u16s ''0123456789abcdef'' ! unat n"

definition backing_step :: "bytes \<Rightarrow> nat \<Rightarrow> u16 list \<Rightarrow> u16 list" where
  "backing_step hash i path =
     (if length path < 258 then path @ [hex_char (drop_bit 4 (hash ! i) AND 0xF), hex_char (hash ! i AND 0xF)] else path)"

definition SarPhantomBuildBackingPath :: "bytes \<Rightarrow> u32 \<Rightarrow> u16 list \<Rightarrow> u16 list" where
  "SarPhantomBuildBackingPath secret index dir =
     (let hash = phantom_hash secret dir index [] in fold (backing_step hash) [0..<16] backing_prefix)"

definition g_pm_alpha :: bytes where
  "g_pm_alpha = map of_char '' etaoinshrdlcumwfgypbvkxqjz.,'' @ [0x0D, 0x0A]"

definition g_pm_png :: bytes where "g_pm_png = [0x89, 0x50, 0x4E, 0x47, 0x0D, 0x0A, 0x1A, 0x0A]"
definition g_pm_jpg :: bytes where "g_pm_jpg = [0xFF, 0xD8, 0xFF, 0xE0, 0x00, 0x10, 0x4A, 0x46, 0x49, 0x46, 0x00]"
definition g_pm_gif :: bytes where "g_pm_gif = [0x47, 0x49, 0x46, 0x38, 0x39, 0x61]"
definition g_pm_bmp :: bytes where "g_pm_bmp = [0x42, 0x4D]"
definition g_pm_pdf :: bytes where "g_pm_pdf = [0x25, 0x50, 0x44, 0x46, 0x2D, 0x31, 0x2E, 0x37, 0x0A]"
definition g_pm_zip :: bytes where "g_pm_zip = [0x50, 0x4B, 0x03, 0x04]"
definition g_pm_ole :: bytes where "g_pm_ole = [0xD0, 0xCF, 0x11, 0xE0, 0xA1, 0xB1, 0x1A, 0xE1]"
definition g_pm_rtf :: bytes where "g_pm_rtf = [0x7B, 0x5C, 0x72, 0x74, 0x66, 0x31]"
definition g_pm_gz :: bytes where "g_pm_gz = [0x1F, 0x8B, 0x08]"
definition g_pm_7z :: bytes where "g_pm_7z = [0x37, 0x7A, 0xBC, 0xAF, 0x27, 0x1C]"
definition g_pm_rar :: bytes where "g_pm_rar = [0x52, 0x61, 0x72, 0x21, 0x1A, 0x07, 0x00]"

definition g_pm_table :: "(u16 list \<times> bytes) list" where
  "g_pm_table = map (\<lambda>(e, magic). (u16s e, magic))
     [(''png'', g_pm_png), (''jpg'', g_pm_jpg),
      (''jpeg'', g_pm_jpg), (''gif'', g_pm_gif),
      (''bmp'', g_pm_bmp), (''pdf'', g_pm_pdf),
      (''docx'', g_pm_zip), (''xlsx'', g_pm_zip),
      (''pptx'', g_pm_zip), (''zip'', g_pm_zip),
      (''odt'', g_pm_zip), (''ods'', g_pm_zip),
      (''doc'', g_pm_ole), (''xls'', g_pm_ole),
      (''ppt'', g_pm_ole), (''mdb'', g_pm_ole),
      (''rtf'', g_pm_rtf), (''gz'', g_pm_gz),
      (''7z'', g_pm_7z), (''rar'', g_pm_rar)]"

text \<open>
  The bytes a backing file starts with: none when the name has no dot or its extension is not in the table.
\<close>

definition last_dot :: "u16 list \<Rightarrow> nat option" where
  "last_dot name = fold (\<lambda>i dot. if name ! i = of_char CHR ''.'' then Some i else dot) [0..<length name] None"

definition SarPhantomFillTemplate :: "nat \<Rightarrow> u16 list \<Rightarrow> bytes" where
  "SarPhantomFillTemplate buf_len name =
     (case last_dot name of
        None \<Rightarrow> []
      | Some dot \<Rightarrow>
          (case find (\<lambda>(e, magic). length name - dot - 1 = length e \<and>
                  list_all (\<lambda>j. lower (name ! (dot + 1 + j)) = e ! j) [0..<length e] \<and> length magic \<le> buf_len) g_pm_table of
             None \<Rightarrow> []
           | Some (e, magic) \<Rightarrow> magic))"

definition synth_step :: "nat \<Rightarrow> u64 \<times> bytes \<Rightarrow> u64 \<times> bytes" where
  "synth_step i = (\<lambda>(state, out).
     let state = state + 0x9E3779B97F4A7C15;
         z = state;
         z = (z XOR drop_bit 30 z) * 0xBF58476D1CE4E5B9;
         z = (z XOR drop_bit 27 z) * 0x94D049BB133111EB;
         z = z XOR drop_bit 31 z
     in (state, out @ [g_pm_alpha ! (unat z mod length g_pm_alpha)]))"

definition SarPhantomSynthBody :: "bytes \<Rightarrow> u16 list \<Rightarrow> u32 \<Rightarrow> nat \<Rightarrow> bytes" where
  "SarPhantomSynthBody secret dir index len =
     snd (fold synth_step [0..<len] (SarPhantomRead64 (phantom_hash secret dir index [0x42]) 0, []))"

text \<open>
  The backing files by path, with the times that were set; what opening, allocating, creating, writing and setting the
  times answer is an argument. A file that cannot be written is left empty, as the creation truncates it.
\<close>

type_synonym backing_files = "u16 list \<Rightarrow> (bytes \<times> SAR_PHANTOM_META option) option"

record backing_env =
  be_open :: NTSTATUS
  be_pool :: bool
  be_create :: NTSTATUS
  be_write :: NTSTATUS
  be_times :: NTSTATUS

definition SarPhantomMaterializeBacking ::
  "backing_env \<Rightarrow> backing_files \<Rightarrow> u16 list \<Rightarrow> u16 list \<Rightarrow> bytes \<Rightarrow> u16 list \<Rightarrow> u32 \<Rightarrow> backing_files" where
  "SarPhantomMaterializeBacking env files backing_path final_comp secret dir index =
     (let meta = SarPhantomMetaForIndex secret dir index;
          size = unat (pm_size meta)
      in if NT_SUCCESS (be_open env) then files
         else if \<not> be_pool env then files
         else
           let magic = SarPhantomFillTemplate size final_comp;
               buf = magic @ SarPhantomSynthBody secret dir index (size - length magic)
           in if \<not> NT_SUCCESS (be_create env) then files
              else files(backing_path \<mapsto>
                (if NT_SUCCESS (be_write env) then buf else [], if NT_SUCCESS (be_times env) then Some meta else None)))"

section \<open>The map from backing files to phantoms\<close>

definition SAR_PM_IDMAP_SLOTS :: nat where "SAR_PM_IDMAP_SLOTS = 256"

record SAR_PM_IDENT =
  pi_backhex :: "u16 list"
  pi_dir :: "u16 list"
  pi_name :: "u16 list"
  pi_index :: u32
  pi_frn :: u64

text \<open>
  An entry that is not valid is \<open>None\<close>.
\<close>

record pm_idmap =
  pm_slots :: "SAR_PM_IDENT option list"
  pm_next :: u32

definition pm_idmap_init :: pm_idmap where
  "pm_idmap_init = \<lparr>pm_slots = replicate SAR_PM_IDMAP_SLOTS None, pm_next = 0\<rparr>"

definition SarPmIdMapInsert :: "u16 list \<Rightarrow> u16 list \<Rightarrow> u16 list \<Rightarrow> u32 \<Rightarrow> u64 \<Rightarrow> pm_idmap \<Rightarrow> pm_idmap" where
  "SarPmIdMapInsert back_hex dir name index frn m =
     (if length back_hex > 48 \<or> length dir > 284 \<or> length name > SAR_PHANTOM_NAME_CHARS then m
      else m\<lparr>pm_slots := (pm_slots m)[unat (pm_next m) mod SAR_PM_IDMAP_SLOTS :=
               Some \<lparr>pi_backhex = back_hex, pi_dir = dir, pi_name = name, pi_index = index, pi_frn = frn\<rparr>],
             pm_next := pm_next m + 1\<rparr>)"

definition SarPmIdMapLookup :: "u16 list \<Rightarrow> pm_idmap \<Rightarrow> SAR_PM_IDENT option" where
  "SarPmIdMapLookup back_hex m =
     (case find (\<lambda>e. case e of None \<Rightarrow> False | Some e \<Rightarrow> pi_backhex e = back_hex) (pm_slots m) of
        None \<Rightarrow> None | Some e \<Rightarrow> e)"

definition SarPmIdMapLookupByRef :: "u64 \<Rightarrow> pm_idmap \<Rightarrow> SAR_PM_IDENT option" where
  "SarPmIdMapLookupByRef frn m =
     (case find (\<lambda>e. case e of None \<Rightarrow> False | Some e \<Rightarrow> pi_frn e = frn) (pm_slots m) of
        None \<Rightarrow> None | Some e \<Rightarrow> e)"

section \<open>Names\<close>

lemma length_phantom_hash [simp, sar_len]: "length (phantom_hash secret dir index tag) = 32"
  by (simp add: phantom_hash_def)

lemma syllables_length: "length (fst (fold (syllable_step hash cap) ss (name, hi))) = length name + 2 * length ss"
  by (induction ss arbitrary: name hi) (simp_all add: syllable_step_def Let_def)

lemma digits_length: "length (fst (fold (digit_step hash) ds (name, hi))) = length name + length ds"
  by (induction ds arbitrary: name hi) (simp_all add: digit_step_def)

lemma phantom_stem_length: "2 \<le> length (phantom_stem hash) \<and> length (phantom_stem hash) \<le> 14"
proof -
  obtain name hi where f: "fold (syllable_step hash (odd (hash_byte hash 0))) [0..<2 + hash_byte hash 1 mod 3] ([], 2) = (name, hi)"
    by fastforce
  have n: "length name = 4 + 2 * (hash_byte hash 1 mod 3)"
    using syllables_length [of hash "odd (hash_byte hash 0)" "[0..<2 + hash_byte hash 1 mod 3]" "[]" 2] f by simp
  have b: "hash_byte hash 1 mod 3 \<le> 2" by simp
  have c: "hash_byte hash (hi + 1) mod 4 \<le> 3" "hash_byte hash (hi + 1) mod 2 \<le> 1" by simp_all
  show ?thesis unfolding phantom_stem_def Let_def f prod.case if_distrib [of length] if_distrib [of "(\<le>) 2"]
      syllables_length digits_length length_upt
    using n b c by auto
qed

lemma phantom_ext_palette: "phantom_ext hash \<in> set g_phantom_ext"
  unfolding phantom_ext_def by (rule nth_mem) (simp add: g_phantom_ext_def)

lemma palette_exts: "e \<in> set g_phantom_ext \<Longrightarrow> 2 \<le> length e \<and> length e \<le> 5 \<and> map lower e = e \<and> of_char CHR ''.'' \<notin> set e"
  by (auto simp: g_phantom_ext_def u16s_def lower_def of_char_def)

lemma phantom_name_length:
  "length (SarPhantomNameForIndex secret dir index) \<le> 20"
  using phantom_stem_length [of "phantom_hash secret dir index []"]
    palette_exts [OF phantom_ext_palette, of "phantom_hash secret dir index []"]
  by (simp add: SarPhantomNameForIndex_def Let_def)

lemma phantom_name_fits: "length (SarPhantomNameForIndex secret dir index) \<le> SAR_PHANTOM_NAME_CHARS"
  using phantom_name_length [of secret dir index] by (simp add: SAR_PHANTOM_NAME_CHARS_def)

lemma has_ext_append:
  assumes "map lower e = e"
  shows "has_ext (stem @ [of_char CHR ''.''] @ e) e"
proof -
  have "lower (e ! j) = e ! j" if "j < length e" for j using assms that by (metis nth_map)
  then show ?thesis by (simp add: has_ext_def nth_append list_all_iff)
qed

lemma phantom_name_in_palette: "SarPhantomExtInPalette (SarPhantomNameForIndex secret dir index)"
proof -
  let ?h = "phantom_hash secret dir index []"
  have "has_ext (SarPhantomNameForIndex secret dir index) (phantom_ext ?h)"
    unfolding SarPhantomNameForIndex_def Let_def by (rule has_ext_append) (simp only: palette_exts [OF phantom_ext_palette])
  then show ?thesis unfolding SarPhantomExtInPalette_def list_ex_iff using phantom_ext_palette by (rule bexI)
qed

lemma phantom_name_matched:
  assumes "i < SAR_PHANTOM_MAX_PER_DIR"
  shows "\<exists>j \<le> i. SarPhantomMatchName upcase secret (SarPhantomNameForIndex secret dir (word_of_nat i)) dir = Some j \<and>
    RtlEqualUnicodeString upcase (SarPhantomNameForIndex secret dir (word_of_nat i)) (SarPhantomNameForIndex secret dir (word_of_nat j))"
proof -
  let ?P = "\<lambda>j. RtlEqualUnicodeString upcase (SarPhantomNameForIndex secret dir (word_of_nat i)) (SarPhantomNameForIndex secret dir (word_of_nat j))"
  have i: "?P i" "i \<in> set [0..<SAR_PHANTOM_MAX_PER_DIR]" using assms by (simp_all add: RtlEqualUnicodeString_def)
  obtain j where j: "find ?P [0..<SAR_PHANTOM_MAX_PER_DIR] = Some j"
    using i by (cases "find ?P [0..<SAR_PHANTOM_MAX_PER_DIR]") (auto simp: find_None_iff)
  then obtain k where k: "k < SAR_PHANTOM_MAX_PER_DIR" "?P k" "j = k" "\<forall>l < k. \<not> ?P l"
    by (auto simp: find_Some_iff)
  then have "j \<le> i" using i(1) leI by blast
  then show ?thesis using j k(2,3) unfolding SarPhantomMatchName_def by blast
qed

section \<open>Sizes, times and reference numbers\<close>

lemma phantom_meta_sane:
  fixes secret dir index
  defines "m \<equiv> SarPhantomMetaForIndex secret dir index"
  shows "4096 \<le> unat (pm_size m) \<and> unat (pm_size m) < 1024 * 1024 \<and> pm_ctime m \<le> pm_wtime m \<and> pm_wtime m \<le> pm_atime m"
proof -
  define hash where "hash = phantom_hash secret dir index [0x4D]"
  define r where "r = (le_load (slice hash 0 4) :: u32) mod (1024 * 1024 - 4096)"
  define a where "a = SarPhantomRead64 hash 4 mod 1576800000000000"
  define b where "b = SarPhantomRead64 hash 12 mod (1576800000000000 div 4)"
  define c where "c = SarPhantomRead64 hash 20 mod (1576800000000000 div 8)"
  have m: "m = \<lparr>pm_size = 4096 + r, pm_ctime = 132500000000000000 + a, pm_atime = 132500000000000000 + a + b + c,
      pm_wtime = 132500000000000000 + a + b\<rparr>"
    by (simp add: m_def SarPhantomMetaForIndex_def Let_def hash_def r_def a_def b_def c_def)
  have "unat r < 1044480" "unat a < 1576800000000000" "unat b < 394200000000000" "unat c < 197100000000000"
    by (simp_all add: r_def a_def b_def c_def unat_mod_distrib)
  moreover from this have "unat (4096 + r) = 4096 + unat r"
    "unat (132500000000000000 + a) = 132500000000000000 + unat a"
    by (simp_all add: unat_add_lem [THEN iffD1])
  moreover from calculation have "unat (132500000000000000 + a + b) = 132500000000000000 + unat a + unat b"
    by (simp add: unat_add_lem [THEN iffD1])
  moreover from calculation have "unat (132500000000000000 + a + b + c) = 132500000000000000 + unat a + unat b + unat c"
    by (simp add: unat_add_lem [THEN iffD1])
  ultimately show ?thesis by (simp add: m word_le_nat_alt)
qed

lemma phantom_frn_in_range: "SarPhantomFrnInRange (SarPhantomFrn secret dir index)"
proof -
  define h where "h = SarPhantomRead64 (phantom_hash secret dir index [0x46]) 0 mod SAR_PHANTOM_FRN_SPAN"
  define q where "q = 1 + SarPhantomRead64 (phantom_hash secret dir index [0x46]) 8 mod 0xFFFE"
  have "unat h < 0x10000000000" by (simp add: h_def SAR_PHANTOM_FRN_SPAN_def unat_mod_distrib)
  then have idx: "unat (SAR_PHANTOM_FRN_BASE + h) = 0x400000000000 + unat h" "unat h < 0x10000000000"
    by (simp_all add: SAR_PHANTOM_FRN_BASE_def unat_add_lem [THEN iffD1])
  have mask: "SAR_PHANTOM_FRN_INDEX_MASK = mask 48" by (simp add: SAR_PHANTOM_FRN_INDEX_MASK_def mask_eq_exp_minus_1)
  have "(push_bit 48 q OR (SAR_PHANTOM_FRN_BASE + h AND mask 48)) AND mask 48 = take_bit 48 (SAR_PHANTOM_FRN_BASE + h)"
    by (rule bit_word_eqI) (auto simp: bit_simps)
  moreover have "take_bit 48 (SAR_PHANTOM_FRN_BASE + h) = SAR_PHANTOM_FRN_BASE + h"
    unfolding word_unat_eq_iff unsigned_take_bit_eq using idx by (simp add: take_bit_nat_eq_self)
  ultimately have f: "SarPhantomFrn secret dir index AND SAR_PHANTOM_FRN_INDEX_MASK = SAR_PHANTOM_FRN_BASE + h"
    by (simp only: SarPhantomFrn_def Let_def mask h_def [symmetric] q_def [symmetric])
  show ?thesis unfolding SarPhantomFrnInRange_def Let_def f word_le_nat_alt word_less_nat_alt idx(1)
    using idx(2) by (simp add: SAR_PHANTOM_FRN_BASE_def SAR_PHANTOM_FRN_SPAN_def)
qed

section \<open>The two spellings of a directory\<close>

text \<open>
  A listing is asked for by the full name of the directory, which starts with the device of the volume; an open reports
  the parent directory without the volume and with a backslash at its end. Both give the same canonical directory, unless
  the directory itself lies under a top directory called Device.
\<close>

definition volume_name :: "u16 list \<Rightarrow> bool" where
  "volume_name v \<longleftrightarrow> (\<exists>x. v = dev_prefix @ x \<and> BACKSLASH \<notin> set x)"

definition under_device :: "u16 list \<Rightarrow> bool" where
  "under_device d \<longleftrightarrow> length d \<ge> length dev_prefix \<and> map lower (take (length dev_prefix) d) = map lower dev_prefix"

lemma from_slash_skip: "BACKSLASH \<notin> set x \<Longrightarrow> from_slash n (x @ y) = from_slash n y"
  by (induction x) auto

lemma dev_prefix_eq: "dev_prefix = BACKSLASH # u16s ''Device'' @ [BACKSLASH]" "BACKSLASH \<notin> set (u16s ''Device'')"
  by (simp_all add: dev_prefix_def BACKSLASH_def u16s_def of_char_def)

lemma from_slash_volume: "volume_name v \<Longrightarrow> from_slash 3 (v @ BACKSLASH # d) = Some (BACKSLASH # d)"
  by (auto simp: volume_name_def dev_prefix_eq(1) from_slash_skip dev_prefix_eq(2))

lemma canon_dir_listing:
  assumes "volume_name v"
  shows "SarPhantomCanonDir (v @ BACKSLASH # d) =
    (if last (BACKSLASH # d) = BACKSLASH then butlast (BACKSLASH # d) else BACKSLASH # d)"
proof -
  have "take (length dev_prefix) (v @ BACKSLASH # d) = dev_prefix \<and> length (v @ BACKSLASH # d) \<ge> length dev_prefix"
    using assms by (auto simp: volume_name_def)
  then show ?thesis by (simp add: SarPhantomCanonDir_def Let_def from_slash_volume [OF assms])
qed

lemma canon_dir_open: "\<not> under_device (d @ [BACKSLASH]) \<Longrightarrow> SarPhantomCanonDir (d @ [BACKSLASH]) = d"
  unfolding SarPhantomCanonDir_def under_device_def by (simp only: Let_def) simp

lemma canon_dir_spellings:
  assumes "volume_name v" "last (BACKSLASH # d) \<noteq> BACKSLASH" "\<not> under_device (BACKSLASH # d @ [BACKSLASH])"
  shows "SarPhantomCanonDir (v @ BACKSLASH # d) = SarPhantomCanonDir (BACKSLASH # d @ [BACKSLASH])"
  using canon_dir_listing [OF assms(1)] canon_dir_open [of "BACKSLASH # d"] assms(2,3) by simp

lemma canon_dir_root: "volume_name v \<Longrightarrow> SarPhantomCanonDir (v @ [BACKSLASH]) = SarPhantomCanonDir [BACKSLASH]"
  using canon_dir_listing [of v "[]"] by (simp add: SarPhantomCanonDir_def dev_prefix_def)

lemma canon_dir_device_differs:
  "SarPhantomCanonDir (dev_prefix @ u16s ''V1'' @ dev_prefix @ u16s ''a'' @ [BACKSLASH] @ u16s ''b'') \<noteq>
   SarPhantomCanonDir (dev_prefix @ u16s ''a'' @ [BACKSLASH] @ u16s ''b'' @ [BACKSLASH])"
  by (simp add: SarPhantomCanonDir_def Let_def dev_prefix_def BACKSLASH_def u16s_def of_char_def lower_def)

text \<open>
  Everything that is derived depends on the directory through its canonical form only.
\<close>

lemma phantom_hash_canon:
  "SarPhantomCanonDir d = SarPhantomCanonDir d' \<Longrightarrow> phantom_hash secret d index tag = phantom_hash secret d' index tag"
  by (simp add: phantom_hash_def)

lemmas phantom_derive_defs = SarPhantomNameForIndex_def SarPhantomMetaForIndex_def SarPhantomFrn_def
  SarPhantomBuildBackingPath_def SarPhantomSynthBody_def

lemma phantom_derive_canon:
  assumes "SarPhantomCanonDir d = SarPhantomCanonDir d'"
  shows "SarPhantomNameForIndex secret d = SarPhantomNameForIndex secret d'"
    "SarPhantomMetaForIndex secret d = SarPhantomMetaForIndex secret d'"
    "SarPhantomFrn secret d = SarPhantomFrn secret d'"
    "SarPhantomBuildBackingPath secret index d = SarPhantomBuildBackingPath secret index d'"
    "SarPhantomSynthBody secret d = SarPhantomSynthBody secret d'"
  by (rule ext | simp add: phantom_derive_defs phantom_hash_canon [OF assms])+

section \<open>Backing files\<close>

lemma backing_fold: "length path + 2 * length is \<le> 258 \<Longrightarrow> \<exists>hex. fold (backing_step hash) is path = path @ hex \<and> length hex = 2 * length is"
proof (induction "is" arbitrary: path)
  case (Cons i "is")
  let ?p = "path @ [hex_char (drop_bit 4 (hash ! i) AND 0xF), hex_char (hash ! i AND 0xF)]"
  from Cons.prems Cons.IH [of ?p] obtain hex where "fold (backing_step hash) is ?p = ?p @ hex" "length hex = 2 * length is" by auto
  then show ?case using Cons.prems
    by (intro exI [of _ "drop (length path) ?p @ hex"]) (simp add: backing_step_def [of hash i])
qed simp

lemma length_backing_prefix: "length backing_prefix = 49" by (simp add: backing_prefix_def u16s_def)

lemma backing_path_form: "\<exists>hex. SarPhantomBuildBackingPath secret index dir = backing_prefix @ hex \<and> length hex = 32"
  using backing_fold [of backing_prefix "[0..<16]" "phantom_hash secret dir index []"]
  by (simp add: SarPhantomBuildBackingPath_def Let_def length_backing_prefix)

lemma synth_length: "length (snd (fold synth_step is (st, out))) = length out + length is"
  by (induction "is" arbitrary: st out) (simp_all add: synth_step_def Let_def)

lemma template_fits: "length (SarPhantomFillTemplate n name) \<le> n"
  by (auto simp: SarPhantomFillTemplate_def find_Some_iff split: option.split)

lemma materialized_size:
  assumes "be_open env \<noteq> STATUS_SUCCESS" "be_pool env" "be_create env = STATUS_SUCCESS" "be_write env = STATUS_SUCCESS"
  obtains times body where "SarPhantomMaterializeBacking env files path name secret dir index path =
      Some (SarPhantomFillTemplate (unat (pm_size (SarPhantomMetaForIndex secret dir index))) name @ body, times)"
    "length (SarPhantomFillTemplate (unat (pm_size (SarPhantomMetaForIndex secret dir index))) name @ body) =
       unat (pm_size (SarPhantomMetaForIndex secret dir index))"
  using assms template_fits [of "unat (pm_size (SarPhantomMetaForIndex secret dir index))" name]
  by (simp add: SarPhantomMaterializeBacking_def Let_def SarPhantomSynthBody_def synth_length)

end
