(* ===== verification/Phantom_Listing.thy ===== *)
theory Phantom_Listing
  imports Phantom_Names
begin

text \<open>
  Phantom files, the listing of a directory (driver/phantom.c): the filling of an entry, the counting of the entries the
  file system returned, and the merge of the phantoms into them by name. The lemmas say what a caller reads from a chain of
  entries, that the entries of a buffer the file system filled are well-formed and take no more than the buffer, and how
  two lists are merged by name.
\<close>

section \<open>Entries\<close>

definition put :: "nat \<Rightarrow> bytes \<Rightarrow> bytes \<Rightarrow> bytes" where "put off v e = splice_at e off v"

definition put_opt :: "nat option \<Rightarrow> bytes \<Rightarrow> bytes \<Rightarrow> bytes" where
  "put_opt off v e = (case off of None \<Rightarrow> e | Some off \<Rightarrow> put off v e)"

definition FILE_ATTRIBUTE_ARCHIVE :: u32 where "FILE_ATTRIBUTE_ARCHIVE = 0x20"

definition SarPhantomFillEntry :: "SAR_DIR_OFFSETS \<Rightarrow> nat \<Rightarrow> u16 list \<Rightarrow> SAR_PHANTOM_META \<Rightarrow> u64 \<Rightarrow> bytes" where
  "SarPhantomFillEntry off entry_size name meta synthetic_ref =
     (let name_bytes = 2 * length name;
          e = replicate entry_size 0;
          e = put (do_next_entry off) (le_store 4 (0 :: u32)) e;
          e = (case do_creation_time off of
                 None \<Rightarrow> e
               | Some creation_time \<Rightarrow>
                   let eof = ucast (pm_size meta) :: u64;
                       alloc = (eof + 4095) AND NOT 4095
                   in put (do_attrs off) (le_store 4 FILE_ATTRIBUTE_ARCHIVE)
                      (put (do_alloc_size off) (le_store 8 alloc)
                      (put (do_end_of_file off) (le_store 8 eof)
                      (put (do_change_time off) (le_store 8 (pm_wtime meta))
                      (put (do_last_write off) (le_store 8 (pm_wtime meta))
                      (put (do_last_access off) (le_store 8 (pm_atime meta))
                      (put creation_time (le_store 8 (pm_ctime meta)) e)))))));
          e = put (do_name_length off) (le_store 4 (word_of_nat name_bytes :: u32)) e;
          e = put (do_name_start off) (path_bytes name) e;
          e = put_opt (do_ea_size off) (le_store 4 (0 :: u32)) e;
          e = put_opt (do_short_name_length off) [0] e;
          e = put_opt (do_file_id off) (le_store 8 synthetic_ref) e
      in put_opt (do_file_id_128 off) (le_store 8 synthetic_ref) e)"

definition ulong_at :: "bytes \<Rightarrow> nat \<Rightarrow> nat" where
  "ulong_at b i = unat (le_load (slice b i 4) :: u32)"

text \<open>
  Walking a buffer the file system filled. A link of 0 ends the chain, and so does one that leads behind the end. Lengths
  and sums are 32-bit and wrap. Nothing in the code checks an entry against the bytes returned: that the walk and the
  copies stay inside the buffers, and that the sums are those of the entries, is shown below for buffers that keep the
  file system's contract.
\<close>

definition ulong :: "nat \<Rightarrow> nat" where "ulong n = n mod 2 ^ 32"

definition entry_clen :: "SAR_DIR_OFFSETS \<Rightarrow> bytes \<Rightarrow> nat \<Rightarrow> nat" where
  "entry_clen off buf cur = ulong (do_base_record_size off + ulong_at buf (cur + do_name_length off))"

function SarPhantomCountRealEntries :: "SAR_DIR_OFFSETS \<Rightarrow> bytes \<Rightarrow> nat \<Rightarrow> nat" where
  "SarPhantomCountRealEntries off buf cur =
     (if cur < length buf then
        let nxt = ulong_at buf (cur + do_next_entry off)
        in if nxt = 0 then 1 else 1 + SarPhantomCountRealEntries off buf (cur + nxt)
      else 0)"
  by pat_completeness auto

termination SarPhantomCountRealEntries
  by (relation "measure (\<lambda>(off, buf, cur). length buf - cur)") auto

function real_total :: "SAR_DIR_OFFSETS \<Rightarrow> bytes \<Rightarrow> nat \<Rightarrow> nat" where
  "real_total off buf cur =
     (if cur < length buf then
        let clen = entry_clen off buf cur;
            nxt = ulong_at buf (cur + do_next_entry off)
        in ulong (round8 clen + (if nxt = 0 then 0 else real_total off buf (cur + nxt)))
      else 0)"
  by pat_completeness auto

termination real_total
  by (relation "measure (\<lambda>(off, buf, cur). length buf - cur)") auto

declare SarPhantomCountRealEntries.simps [simp del] real_total.simps [simp del]

section \<open>The merge\<close>

record SAR_PHANTOM_ENUM_CONTEXT =
  ec_emitted :: bool
  ec_real_seen :: u32
  ec_pattern :: "u16 list option"

text \<open>
  What the merge prepares of each phantom: its name, the size of its entry, and its filled entry.
\<close>

record merge_phantom =
  mp_name :: "u16 list"
  mp_size :: nat
  mp_entry :: bytes

definition merge_order :: "u32 \<Rightarrow> nat \<Rightarrow> nat list" where
  "merge_order match_mask density = take density (filter (\<lambda>i. bit match_mask i) [0..<SAR_PHANTOM_MAX_PER_DIR])"

definition merge_phantom_of :: "bytes \<Rightarrow> SAR_DIR_OFFSETS \<Rightarrow> u16 list \<Rightarrow> nat \<Rightarrow> merge_phantom" where
  "merge_phantom_of secret off dir i =
     (let name = SarPhantomNameForIndex secret dir (word_of_nat i);
          size = SarPhantomEntrySize off (2 * length name)
      in \<lparr>mp_name = name, mp_size = size,
          mp_entry = SarPhantomFillEntry off size name (SarPhantomMetaForIndex secret dir (word_of_nat i))
                       (SarPhantomFrn secret dir (word_of_nat i))\<rparr>)"

text \<open>
  The entry of a phantom in the map of backing files, under the last 32 characters of its backing path.
\<close>

definition note_phantom :: "bytes \<Rightarrow> u16 list \<Rightarrow> u16 list \<Rightarrow> u32 \<Rightarrow> pm_idmap \<Rightarrow> pm_idmap" where
  "note_phantom secret dir name index m =
     (let bpath = SarPhantomBuildBackingPath secret index dir
      in if length bpath \<ge> 32
         then SarPmIdMapInsert (drop (length bpath - 32) bpath) dir name index (SarPhantomFrn secret dir index) m
         else m)"

text \<open>
  The platform's order of names: by the folded characters, a prefix first.
\<close>

definition name_less :: "(u16 \<Rightarrow> u16) \<Rightarrow> u16 list \<Rightarrow> u16 list \<Rightarrow> bool" where
  "name_less upcase a b = ord_class.lexordp (map upcase a) (map upcase b)"

definition min_step :: "(u16 \<Rightarrow> u16) \<Rightarrow> merge_phantom list \<Rightarrow> nat set \<Rightarrow> nat \<Rightarrow> nat option \<Rightarrow> nat option" where
  "min_step upcase phs taken i m =
     (if i \<in> taken then m
      else case m of None \<Rightarrow> Some i
        | Some j \<Rightarrow> if name_less upcase (mp_name (phs ! i)) (mp_name (phs ! j)) then Some i else m)"

definition min_phantom :: "(u16 \<Rightarrow> u16) \<Rightarrow> merge_phantom list \<Rightarrow> nat set \<Rightarrow> nat option" where
  "min_phantom upcase phs taken = fold (min_step upcase phs taken) [0..<length phs] None"

record merge_state =
  ms_rcur :: "nat option"
  ms_taken :: "nat set"
  ms_emitted :: nat
  ms_out :: bytes
  ms_used :: nat
  ms_last :: "nat option"

definition real_name :: "SAR_DIR_OFFSETS \<Rightarrow> bytes \<Rightarrow> nat \<Rightarrow> u16 list" where
  "real_name off buf cur =
     (let len = ulong_at buf (cur + do_name_length off) mod 2 ^ 16
      in path_of_bytes (len div 2) (slice buf (cur + do_name_start off) len))"

definition link_last :: "SAR_DIR_OFFSETS \<Rightarrow> merge_state \<Rightarrow> bytes" where
  "link_last off s =
     (case ms_last s of
        None \<Rightarrow> ms_out s
      | Some l \<Rightarrow> put (l + do_next_entry off) (le_store 4 (word_of_nat (ms_used s) - word_of_nat l :: u32)) (ms_out s))"

definition take_phantom :: "SAR_DIR_OFFSETS \<Rightarrow> merge_phantom list \<Rightarrow> nat \<Rightarrow> merge_state \<Rightarrow> merge_state" where
  "take_phantom off phs m s =
     s\<lparr>ms_taken := insert m (ms_taken s), ms_emitted := ms_emitted s + 1,
       ms_out := put (ms_used s) (mp_entry (phs ! m)) (link_last off s),
       ms_used := ulong (ms_used s + mp_size (phs ! m)), ms_last := Some (ms_used s)\<rparr>"

definition take_real :: "SAR_DIR_OFFSETS \<Rightarrow> bytes \<Rightarrow> nat \<Rightarrow> merge_state \<Rightarrow> merge_state" where
  "take_real off buf r s =
     (let clen = entry_clen off buf r;
          esize = ulong (round8 clen);
          nxt = ulong_at buf (r + do_next_entry off);
          out = put (ms_used s) (slice buf r clen @ replicate (esize - clen) 0) (link_last off s)
      in s\<lparr>ms_rcur := (if nxt = 0 \<or> r + nxt \<ge> length buf then None else Some (r + nxt)),
           ms_out := put (ms_used s + do_next_entry off) (le_store 4 (0 :: u32)) out,
           ms_used := ulong (ms_used s + esize), ms_last := Some (ms_used s)\<rparr>)"

text \<open>
  One turn of the loop: the least phantom left is taken when the entries are used up or it sorts before the next entry.
\<close>

definition merge_step :: "(u16 \<Rightarrow> u16) \<Rightarrow> SAR_DIR_OFFSETS \<Rightarrow> bytes \<Rightarrow> merge_phantom list \<Rightarrow> merge_state \<Rightarrow> merge_state" where
  "merge_step upcase off buf phs s =
     (let m = min_phantom upcase phs (ms_taken s)
      in case ms_rcur s of
           None \<Rightarrow> take_phantom off phs (the m) s
         | Some r \<Rightarrow>
             (case m of
                None \<Rightarrow> take_real off buf r s
              | Some m \<Rightarrow> if name_less upcase (mp_name (phs ! m)) (real_name off buf r) then take_phantom off phs m s
                          else take_real off buf r s))"

definition merge_rank :: "bytes \<Rightarrow> merge_phantom list \<Rightarrow> merge_state \<Rightarrow> nat" where
  "merge_rank buf phs s =
     (case ms_rcur s of None \<Rightarrow> 0 | Some r \<Rightarrow> Suc (length buf - r)) +
     card ({..<length phs} - ms_taken s) + (length phs - ms_emitted s)"

lemma name_less_trans: "name_less upcase a b \<Longrightarrow> name_less upcase b c \<Longrightarrow> name_less upcase a c"
  unfolding name_less_def by (erule lexordp_trans)

lemma min_upto:
  "case fold (min_step upcase phs taken) [0..<n] None of
     None \<Rightarrow> {..<n} \<subseteq> taken
   | Some j \<Rightarrow> j < n \<and> j \<notin> taken \<and> (\<forall>k < n. k \<notin> taken \<longrightarrow> \<not> name_less upcase (mp_name (phs ! k)) (mp_name (phs ! j)))"
proof (induction n)
  case (Suc n)
  then show ?case
    by (cases "fold (min_step upcase phs taken) [0..<n] None")
       (auto simp: min_step_def less_Suc_eq lexordp_irreflexive' name_less_def split: option.splits intro: lexordp_trans)
qed simp

lemma min_phantom_Some:
  assumes "min_phantom upcase phs taken = Some i"
  shows "i < length phs" "i \<notin> taken"
    "\<And>k. k < length phs \<Longrightarrow> k \<notin> taken \<Longrightarrow> \<not> name_less upcase (mp_name (phs ! k)) (mp_name (phs ! i))"
  using min_upto [where n = "length phs" and phs = phs and upcase = upcase and taken = taken] assms by (auto simp: min_phantom_def)

lemma min_phantom_None: "min_phantom upcase phs taken = None \<Longrightarrow> {..<length phs} \<subseteq> taken"
  using min_upto [where n = "length phs" and phs = phs and upcase = upcase and taken = taken] by (simp add: min_phantom_def)

lemma rank_phantom:
  "i < length phs \<and> i \<notin> taken \<Longrightarrow> card ({..<length phs} - insert i taken) < card ({..<length phs} - taken)"
  by (intro psubset_card_mono) auto

function merge_loop ::
  "(u16 \<Rightarrow> u16) \<Rightarrow> SAR_DIR_OFFSETS \<Rightarrow> bytes \<Rightarrow> merge_phantom list \<Rightarrow> merge_state \<Rightarrow> merge_state" where
  "merge_loop upcase off buf phs s =
     (if ms_rcur s \<noteq> None \<or> ms_emitted s < length phs then merge_loop upcase off buf phs (merge_step upcase off buf phs s)
      else s)"
  by pat_completeness auto

lemma merge_rank_step:
  assumes "ms_rcur s \<noteq> None \<or> ms_emitted s < length phs"
  shows "merge_rank buf phs (merge_step upcase off buf phs s) < merge_rank buf phs s"
proof -
  have phantom: "card ({..<length phs} - insert m (ms_taken s)) \<le> card ({..<length phs} - ms_taken s)" for m
    by (intro card_mono) auto
  have real: "merge_rank buf phs (take_real off buf r s) < merge_rank buf phs s" if "ms_rcur s = Some r" for r
    using that by (auto simp: merge_rank_def take_real_def Let_def)
  have least: "merge_rank buf phs (take_phantom off phs m s) < merge_rank buf phs s" if "min_phantom upcase phs (ms_taken s) = Some m" for m
    using rank_phantom [of m phs "ms_taken s"] min_phantom_Some(1,2) [OF that] by (simp add: merge_rank_def take_phantom_def)
  have rest: "merge_rank buf phs (take_phantom off phs m s) < merge_rank buf phs s" if "ms_rcur s = None" for m
    using assms that phantom [of m] by (simp add: merge_rank_def take_phantom_def)
  show ?thesis by (auto simp: merge_step_def real least rest Let_def split: option.split)
qed

termination merge_loop
  by (relation "measure (\<lambda>(upcase, off, buf, phs, s). merge_rank buf phs s)") (simp_all add: merge_rank_step)

declare merge_loop.simps [simp del]

record merge_result =
  mr_used :: nat
  mr_emitted :: nat
  mr_out :: bytes
  mr_ectx :: SAR_PHANTOM_ENUM_CONTEXT
  mr_idmap :: pm_idmap

definition merge_copy :: "bytes \<Rightarrow> bytes \<Rightarrow> SAR_PHANTOM_ENUM_CONTEXT \<Rightarrow> pm_idmap \<Rightarrow> merge_result" where
  "merge_copy out swapped ectx m =
     \<lparr>mr_used = length swapped, mr_emitted = 0, mr_out = put 0 swapped out, mr_ectx = ectx, mr_idmap = m\<rparr>"

definition merge_init :: "bytes \<Rightarrow> merge_state" where
  "merge_init out = \<lparr>ms_rcur = Some 0, ms_taken = {}, ms_emitted = 0, ms_out = out, ms_used = 0, ms_last = None\<rparr>"

definition SarPhantomMergeInto ::
  "(u16 \<Rightarrow> u16) \<Rightarrow> bytes \<Rightarrow> bytes \<Rightarrow> bytes \<Rightarrow> SAR_DIR_OFFSETS \<Rightarrow> u16 list \<Rightarrow> u32 \<Rightarrow> SAR_PHANTOM_ENUM_CONTEXT \<Rightarrow> pm_idmap \<Rightarrow> merge_result" where
  "SarPhantomMergeInto upcase secret out swapped off dir match_mask ectx m =
     (let real_count = SarPhantomCountRealEntries off swapped 0;
          ectx = ectx\<lparr>ec_real_seen := ec_real_seen ectx + word_of_nat real_count\<rparr>;
          density = SarPhantomCountForDir (ec_real_seen ectx);
          order = merge_order match_mask density
      in if order = [] \<or> real_count = 0 then merge_copy out swapped ectx m
         else
           let phs = map (merge_phantom_of secret off dir) order;
               total_phantom = ulong (sum_list (map mp_size phs));
               m = fold (\<lambda>i. note_phantom secret dir (SarPhantomNameForIndex secret dir (word_of_nat i)) (word_of_nat i)) order m
           in if ulong (real_total off swapped 0 + total_phantom) > length out then merge_copy out swapped ectx m
              else
                let s = merge_loop upcase off swapped phs (merge_init out)
                in \<lparr>mr_used = ms_used s, mr_emitted = ms_emitted s,
                    mr_out = (case ms_last s of None \<Rightarrow> ms_out s
                              | Some l \<Rightarrow> put (l + do_next_entry off) (le_store 4 (0 :: u32)) (ms_out s)),
                    mr_ectx = ectx, mr_idmap = m\<rparr>)"

section \<open>Reading a listing\<close>

text \<open>
  What a caller reads from a listing: for each entry its name and its bytes, with the link cleared and padded to a
  multiple of eight.
\<close>

definition entry_at :: "SAR_DIR_OFFSETS \<Rightarrow> bytes \<Rightarrow> nat \<Rightarrow> bytes" where
  "entry_at off buf cur =
     (let clen = do_base_record_size off + ulong_at buf (cur + do_name_length off)
      in put (do_next_entry off) (le_store 4 (0 :: u32)) (slice buf cur clen @ replicate (round8 clen - clen) 0))"

function dir_entries :: "SAR_DIR_OFFSETS \<Rightarrow> bytes \<Rightarrow> nat \<Rightarrow> (u16 list \<times> bytes) list" where
  "dir_entries off buf cur =
     (if cur < length buf then
        let nxt = ulong_at buf (cur + do_next_entry off)
        in (real_name off buf cur, entry_at off buf cur) # (if nxt = 0 then [] else dir_entries off buf (cur + nxt))
      else [])"
  by pat_completeness auto

termination dir_entries
  by (relation "measure (\<lambda>(off, buf, cur). length buf - cur)") auto

declare dir_entries.simps [simp del]

text \<open>
  A buffer the file system filled: from each entry on, the entry lies inside the buffer, its name is shorter than
  64 kilobytes, and the next entry begins behind it, at a multiple of eight bytes from it.
\<close>

function dir_wf :: "SAR_DIR_OFFSETS \<Rightarrow> bytes \<Rightarrow> nat \<Rightarrow> bool" where
  "dir_wf off buf cur \<longleftrightarrow>
     (cur < length buf \<longrightarrow>
        cur + do_base_record_size off + ulong_at buf (cur + do_name_length off) \<le> length buf \<and>
        ulong_at buf (cur + do_name_length off) < 2 ^ 16 \<and> even (ulong_at buf (cur + do_name_length off)) \<and>
        (ulong_at buf (cur + do_next_entry off) \<noteq> 0 \<longrightarrow>
           8 dvd ulong_at buf (cur + do_next_entry off) \<and>
           do_base_record_size off + ulong_at buf (cur + do_name_length off) \<le> ulong_at buf (cur + do_next_entry off) \<and>
           dir_wf off buf (cur + ulong_at buf (cur + do_next_entry off))))"
  by pat_completeness auto

termination dir_wf
  by (relation "measure (\<lambda>(off, buf, cur). length buf - cur)") auto

declare dir_wf.simps [simp del]

lemma count_entries: "SarPhantomCountRealEntries off buf cur = length (dir_entries off buf cur)"
  by (induction off buf cur rule: dir_entries.induct)
     (simp add: SarPhantomCountRealEntries.simps [of _ _ "_"] dir_entries.simps [of _ _ "_"] Let_def)

text \<open>
  The layouts: the link is the first field, the name comes last, and every other field lies before it.
\<close>

definition layout_ok :: "SAR_DIR_OFFSETS \<Rightarrow> bool" where
  "layout_ok off \<longleftrightarrow> do_next_entry off = 0 \<and> 4 \<le> do_name_length off \<and> do_name_length off + 4 \<le> do_base_record_size off \<and>
     do_name_start off = do_base_record_size off \<and> do_base_record_size off \<le> 120"

lemmas dir_offsets_defs = g_dir_offsets_dir_def g_dir_offsets_full_def g_dir_offsets_both_def g_dir_offsets_names_def
  g_dir_offsets_id_full_def g_dir_offsets_id_both_def g_dir_offsets_id_extd_def g_dir_offsets_id_extd_both_def
  g_dir_offsets_id_global_tx_def dir_layout_def

lemma layouts: "SarPhantomDirOffsets cls = Some off \<Longrightarrow> layout_ok off"
  by (cases cls) (auto simp: layout_ok_def dir_offsets_defs)

lemma length_put [simp]: "i + length v \<le> length b \<Longrightarrow> length (put i v b) = length b"
  by (simp add: put_def)

lemma slice_put_same: "i + length v \<le> length b \<Longrightarrow> n = length v \<Longrightarrow> slice (put i v b) i n = v"
  by (simp add: put_def slice_splice_at_same)

lemma slice_put_other:
  "i + length v \<le> length b \<Longrightarrow> j + n \<le> i \<or> i + length v \<le> j \<Longrightarrow> slice (put i v b) j n = slice b j n"
  by (auto simp: put_def splice_at_def slice_def take_drop min_def)

lemma put_append_right: "length a \<le> i \<Longrightarrow> put i v (a @ b) = a @ put (i - length a) v b"
  by (simp add: put_def splice_at_def)

lemma put_append_left: "i + length v \<le> length a \<Longrightarrow> put i v (a @ b) = put i v a @ b"
  by (simp add: put_def splice_at_def)

section \<open>Chains of entries\<close>

definition entry_wf :: "SAR_DIR_OFFSETS \<Rightarrow> bytes \<Rightarrow> bool" where
  "entry_wf off e \<longleftrightarrow>
     (let n = ulong_at e (do_name_length off); clen = do_base_record_size off + n
      in n < 2 ^ 16 \<and> even n \<and> length e = round8 clen \<and> take 4 e = replicate 4 0 \<and> drop clen e = replicate (round8 clen - clen) 0)"

definition linked :: "bytes \<Rightarrow> bytes" where
  "linked e = put 0 (le_store 4 (word_of_nat (length e) :: u32)) e"

definition chain :: "bytes list \<Rightarrow> bytes" where
  "chain es = concat (map linked (butlast es)) @ (if es = [] then [] else last es)"

lemma round8_bounds: "n \<le> round8 n" "round8 n \<le> n + 7"
  unfolding round8_def by presburger+

lemma entry_wf_length:
  assumes "layout_ok off" "entry_wf off e"
  shows "do_name_length off + 4 \<le> length e" "8 \<le> length e" "length e < 2 ^ 32"
    "do_base_record_size off + ulong_at e (do_name_length off) \<le> length e"
  using assms round8_bounds [of "do_base_record_size off + ulong_at e (do_name_length off)"]
  by (auto simp: layout_ok_def entry_wf_def Let_def)

lemma length_linked [simp]: "4 \<le> length e \<Longrightarrow> length (linked e) = length e"
  by (simp add: linked_def)

lemma chain_simps: "chain [] = []" "chain [e] = e" "es \<noteq> [] \<Longrightarrow> chain (e # es) = linked e @ chain es"
  by (simp_all add: chain_def)

lemma chain_snoc: "es \<noteq> [] \<Longrightarrow> chain (es @ [e]) = concat (map linked (butlast es)) @ linked (last es) @ e"
  by (cases es rule: rev_exhaust) (simp_all add: chain_def butlast_append)

lemma ulong_at_append: "length pre = i \<Longrightarrow> ulong_at (pre @ b) (i + j) = ulong_at b j"
  by (auto simp: ulong_at_def slice_def)

lemma ulong_at_prefix: "j + 4 \<le> length b \<Longrightarrow> ulong_at (b @ post) j = ulong_at b j"
  by (simp add: ulong_at_def slice_def)

lemma ulong_at_put: "length w = 4 \<Longrightarrow> 4 \<le> length e \<Longrightarrow> 4 \<le> j \<Longrightarrow> ulong_at (put 0 w e) j = ulong_at e j"
  by (simp add: ulong_at_def slice_put_other)

lemma ulong_at_link: "4 \<le> length e \<Longrightarrow> ulong_at (put 0 (le_store 4 v) e) 0 = unat (v :: u32)"
  by (simp add: ulong_at_def slice_put_same le_load_store)

lemma zero_store: "le_store n (0 :: 'a::len word) = replicate n 0"
  by (simp add: le_store_def map_replicate_const)

text \<open>
  An entry is read back from any buffer that holds it, whatever its link.
\<close>

lemma entry_read:
  assumes off: "layout_ok off" and e: "entry_wf off e" and w: "length w = 4"
  shows "entry_at off (pre @ put 0 w e @ post) (length pre) = e"
    "real_name off (pre @ put 0 w e @ post) (length pre) = real_name off e 0"
    "ulong_at (pre @ put 0 w e @ post) (length pre + do_name_length off) = ulong_at e (do_name_length off)"
proof -
  let ?n = "ulong_at e (do_name_length off)"
  let ?clen = "do_base_record_size off + ?n"
  note l = entry_wf_length [OF off e]
  have o: "do_next_entry off = 0" "4 \<le> do_name_length off" "do_name_start off = do_base_record_size off" "4 \<le> do_base_record_size off"
    using off by (auto simp: layout_ok_def)
  show n: "ulong_at (pre @ put 0 w e @ post) (length pre + do_name_length off) = ?n"
    using l w o by (simp add: ulong_at_append ulong_at_prefix ulong_at_put)
  have z: "take 4 e = le_store 4 (0 :: u32)" "drop ?clen e = replicate (round8 ?clen - ?clen) 0"
    using e by (simp_all add: entry_wf_def Let_def zero_store)
  have "slice (pre @ put 0 w e @ post) (length pre) ?clen = put 0 w (take ?clen e)"
    using l w o by (simp add: slice_def put_def splice_at_def min_def drop_take)
  then have "entry_at off (pre @ put 0 w e @ post) (length pre) = take 4 e @ drop 4 (take ?clen e) @ drop ?clen e"
    using n z l w o by (simp add: entry_at_def Let_def put_def splice_at_def)
  also have "take 4 e = take 4 (take ?clen e)" using o by (simp add: min_def)
  finally show "entry_at off (pre @ put 0 w e @ post) (length pre) = e"
    by (simp only: append_take_drop_id flip: append_assoc)
  have "slice (pre @ put 0 w e @ post) (length pre + do_name_start off) ?n = slice e (do_name_start off) ?n"
    using l w o by (simp add: slice_def put_def splice_at_def)
  then show "real_name off (pre @ put 0 w e @ post) (length pre) = real_name off e 0"
    using n e by (simp add: real_name_def Let_def entry_wf_def)
qed

lemma link_self: "layout_ok off \<Longrightarrow> entry_wf off e \<Longrightarrow> put 0 (le_store 4 (0 :: u32)) e = e"
  using append_take_drop_id [of 4 e] by (auto simp: entry_wf_def Let_def put_def splice_at_def zero_store)

lemma chain_read:
  assumes off: "layout_ok off" and "\<forall>e \<in> set es. entry_wf off e"
  shows "dir_entries off (pre @ chain es) (length pre) = map (\<lambda>e. (real_name off e 0, e)) es"
  using assms(2)
proof (induction es arbitrary: pre)
  case Nil
  then show ?case by (simp add: chain_simps dir_entries.simps [of _ _ "length pre"])
next
  case (Cons e es)
  have e: "entry_wf off e" using Cons.prems by simp
  note l = entry_wf_length [OF off e]
  have o: "do_next_entry off = 0" "e \<noteq> []" using off l(2) by (auto simp: layout_ok_def)
  show ?case
  proof (cases "es = []")
    case True
    have "pre @ e = pre @ put 0 (le_store 4 (0 :: u32)) e @ []" using link_self [OF off e] by simp
    moreover have "ulong_at (pre @ e) (length pre) = 0"
      using ulong_at_append [of pre "length pre" e 0] ulong_at_link [of e 0] link_self [OF off e] l by simp
    ultimately show ?thesis using True l o entry_read [OF off e, of "le_store 4 (0 :: u32)" pre "[]"]
      by (simp add: chain_simps dir_entries.simps [of _ _ "length pre"])
  next
    case False
    have "ulong_at (pre @ linked e @ chain es) (length pre) = length e"
      using ulong_at_append [of pre "length pre" "linked e @ chain es" 0] ulong_at_prefix [of 0 "linked e" "chain es"] l
      by (simp add: linked_def ulong_at_link unsigned_of_nat take_bit_nat_eq_self)
    moreover have "dir_entries off ((pre @ linked e) @ chain es) (length (pre @ linked e)) = map (\<lambda>e. (real_name off e 0, e)) es"
      using Cons.prems by (intro Cons.IH) simp
    ultimately show ?thesis using False l o entry_read [OF off e, of "le_store 4 (word_of_nat (length e) :: u32)" pre "chain es"]
      by (simp add: chain_simps dir_entries.simps [of _ _ "length pre"] flip: linked_def)
  qed
qed

text \<open>
  The entries of a buffer the file system filled are entries in this sense.
\<close>

lemma entry_at_wf:
  assumes off: "layout_ok off" and wf: "dir_wf off buf cur" "cur < length buf"
  shows "entry_wf off (entry_at off buf cur)" "real_name off (entry_at off buf cur) 0 = real_name off buf cur"
    "length (entry_at off buf cur) = round8 (do_base_record_size off + ulong_at buf (cur + do_name_length off))"
proof -
  let ?n = "ulong_at buf (cur + do_name_length off)"
  let ?clen = "do_base_record_size off + ?n"
  have b: "cur + ?clen \<le> length buf" "?n < 2 ^ 16" "even ?n" using wf by (simp_all add: dir_wf.simps [of off buf cur] add.assoc)
  have o: "do_next_entry off = 0" "4 \<le> do_name_length off" "do_name_start off = do_base_record_size off"
    "do_name_length off + 4 \<le> do_base_record_size off" using off by (auto simp: layout_ok_def)
  let ?x = "slice buf cur ?clen @ replicate (round8 ?clen - ?clen) 0"
  have e: "entry_at off buf cur = put 0 (le_store 4 (0 :: u32)) ?x" by (simp add: entry_at_def Let_def o)
  have len: "length ?x = round8 ?clen" using b round8_bounds(1) [of ?clen] by simp
  have c: "4 \<le> ?clen" using o by simp
  show "length (entry_at off buf cur) = round8 ?clen" using len c round8_bounds(1) [of ?clen] by (simp add: e)
  have "slice ?x (do_name_length off) 4 = slice buf (cur + do_name_length off) 4"
    using o b by (simp add: slice_def take_drop ac_simps)
  then have n: "ulong_at (entry_at off buf cur) (do_name_length off) = ?n"
    using c len round8_bounds(1) [of ?clen] o unfolding e by (simp add: ulong_at_put) (simp add: ulong_at_def)
  show "entry_wf off (entry_at off buf cur)" unfolding entry_wf_def Let_def n
    using b c len round8_bounds(1) [of ?clen] by (simp add: e) (simp add: put_def splice_at_def zero_store)
  have "slice ?x (do_name_start off) ?n = slice buf (cur + do_name_start off) ?n"
    using o b by (simp add: slice_def take_drop add.commute)
  then have "slice (entry_at off buf cur) (do_name_start off) ?n = slice buf (cur + do_name_start off) ?n"
    using o c len round8_bounds(1) [of ?clen] unfolding e by (simp add: slice_put_other)
  then show "real_name off (entry_at off buf cur) 0 = real_name off buf cur"
    using n b(2) by (simp add: real_name_def Let_def)
qed

lemma ulong_id: "n < 2 ^ 32 \<Longrightarrow> ulong n = n"
  by (simp add: ulong_def)

lemma ulong_add: "ulong (a + ulong b) = ulong (a + b)" "ulong (ulong a + b) = ulong (a + b)"
  by (simp_all add: ulong_def mod_simps)

lemma entry_clen_wf:
  assumes "layout_ok off" "dir_wf off buf cur" "cur < length buf"
  shows "entry_clen off buf cur = do_base_record_size off + ulong_at buf (cur + do_name_length off)"
    "ulong (round8 (entry_clen off buf cur)) = length (entry_at off buf cur)"
proof -
  let ?clen = "do_base_record_size off + ulong_at buf (cur + do_name_length off)"
  have "?clen < 2 ^ 17" using assms by (simp add: dir_wf.simps [of off buf cur] layout_ok_def)
  then show clen: "entry_clen off buf cur = ?clen" by (simp add: entry_clen_def ulong_id)
  show "ulong (round8 (entry_clen off buf cur)) = length (entry_at off buf cur)"
    using \<open>?clen < 2 ^ 17\<close> round8_bounds(2) [of ?clen] unfolding clen entry_at_wf(3) [OF assms] by (intro ulong_id) simp
qed

text \<open>
  Entries that do not overlap take no more than the buffer, up to the padding of the last, and their 32-bit sum is
  their sum.
\<close>

lemma entries_wf:
  assumes "layout_ok off" "dir_wf off buf cur"
  shows "(\<forall>(n, e) \<in> set (dir_entries off buf cur). entry_wf off e \<and> n = real_name off e 0) \<and>
    sum_list (map (length \<circ> snd) (dir_entries off buf cur)) \<le> length buf - cur + 7 \<and>
    real_total off buf cur = ulong (sum_list (map (length \<circ> snd) (dir_entries off buf cur)))"
  using assms
proof (induction off buf cur rule: dir_entries.induct)
  case (1 off buf cur)
  let ?nxt = "ulong_at buf (cur + do_next_entry off)"
  let ?clen = "do_base_record_size off + ulong_at buf (cur + do_name_length off)"
  show ?case
  proof (cases "cur < length buf")
    case True
    note e = entry_at_wf [OF "1.prems" True] and c = entry_clen_wf [OF "1.prems" True]
    have total: "real_total off buf cur = ulong (length (entry_at off buf cur) + (if ?nxt = 0 then 0 else real_total off buf (cur + ?nxt)))"
      using True by (simp add: real_total.simps [of off buf cur] Let_def ulong_add flip: c(2))
    have inside: "cur + ?clen \<le> length buf" using "1.prems"(2) True by (simp add: dir_wf.simps [of off buf cur])
    show ?thesis
    proof (cases "?nxt = 0")
      case True
      then show ?thesis using e total inside round8_bounds(2) [of ?clen] \<open>cur < length buf\<close>
        by (simp add: dir_entries.simps [of off buf cur])
    next
      case False
      have nxt: "8 dvd ?nxt" "?clen \<le> ?nxt" "dir_wf off buf (cur + ?nxt)"
        using "1.prems"(2) True False by (simp_all add: dir_wf.simps [of off buf cur])
      have "round8 ?clen \<le> ?nxt" using nxt(1,2) unfolding round8_def by presburger
      note le = this
      note ih = "1.IH" [OF True refl False "1.prems"(1) nxt(3)]
      show ?thesis
      proof (cases "cur + ?nxt < length buf")
        case t: True
        then have "round8 ?clen + sum_list (map (length \<circ> snd) (dir_entries off buf (cur + ?nxt))) \<le> length buf - cur + 7"
          using ih le by linarith
        then show ?thesis using ih e total True False by (simp add: dir_entries.simps [of off buf cur] ulong_add comp_def)
      next
        case f: False
        then have "dir_entries off buf (cur + ?nxt) = []" "real_total off buf (cur + ?nxt) = 0"
          by (simp_all add: dir_entries.simps [of off buf "cur + ?nxt"] real_total.simps [of off buf "cur + ?nxt"])
        then show ?thesis using e total inside round8_bounds(2) [of ?clen] True False by (simp add: dir_entries.simps [of off buf cur])
      qed
    qed
  qed (simp add: dir_entries.simps [of off buf cur] real_total.simps [of off buf cur] ulong_def)
qed

section \<open>The merge of two lists\<close>

fun name_merge :: "(u16 \<Rightarrow> u16) \<Rightarrow> (u16 list \<times> bytes) list \<Rightarrow> (u16 list \<times> bytes) list \<Rightarrow> (u16 list \<times> bytes) list" where
  "name_merge upcase rs [] = rs"
| "name_merge upcase [] ps = ps"
| "name_merge upcase (r # rs) (p # ps) =
     (if name_less upcase (fst p) (fst r) then p # name_merge upcase (r # rs) ps else r # name_merge upcase rs (p # ps))"

definition by_name :: "(u16 \<Rightarrow> u16) \<Rightarrow> (u16 list \<times> bytes) list \<Rightarrow> bool" where
  "by_name upcase xs = sorted_wrt (\<lambda>a b. \<not> name_less upcase (fst b) (fst a)) xs"

lemma name_less_cotrans: "name_less upcase c a \<Longrightarrow> \<not> name_less upcase c b \<Longrightarrow> name_less upcase b a"
  using lexordp_linear [of "map upcase b" "map upcase c"] lexordp_trans [of "map upcase b" "map upcase c" "map upcase a"]
  unfolding name_less_def by (elim disjE) (simp_all del: map_map)

lemma name_less_irrefl: "\<not> name_less upcase a a"
  unfolding name_less_def by (rule lexordp_irreflexive')

lemma name_merge_shuffles: "name_merge upcase rs ps \<in> shuffles rs ps"
  by (induction upcase rs ps rule: name_merge.induct) simp_all

lemma set_name_merge: "set (name_merge upcase rs ps) = set rs \<union> set ps"
  using set_shuffles [OF name_merge_shuffles] .

lemma name_merge_sorted: "by_name upcase rs \<Longrightarrow> by_name upcase ps \<Longrightarrow> by_name upcase (name_merge upcase rs ps)"
proof (induction upcase rs ps rule: name_merge.induct)
  case (3 upcase r rs p ps)
  have rs: "\<forall>x \<in> set (r # rs). \<not> name_less upcase (fst x) (fst r)" and ps: "\<forall>x \<in> set (p # ps). \<not> name_less upcase (fst x) (fst p)"
    using "3.prems" by (simp_all add: by_name_def name_less_irrefl)
  show ?case
  proof (cases "name_less upcase (fst p) (fst r)")
    case True
    have "\<forall>x \<in> set (r # rs). \<not> name_less upcase (fst x) (fst p)" using rs name_less_trans [OF _ True] by blast
    then show ?thesis using True ps "3.IH"(1) [OF True] "3.prems" by (simp add: by_name_def set_name_merge ball_Un)
  next
    case False
    have "\<forall>x \<in> set (p # ps). \<not> name_less upcase (fst x) (fst r)" using ps name_less_cotrans False by blast
    then show ?thesis using False rs "3.IH"(2) [OF False] "3.prems" by (simp add: by_name_def set_name_merge ball_Un)
  qed
qed simp_all

text \<open>
  The order in which the phantoms are taken.
\<close>

function phantom_select :: "(u16 \<Rightarrow> u16) \<Rightarrow> merge_phantom list \<Rightarrow> nat set \<Rightarrow> nat list" where
  "phantom_select upcase phs taken =
     (case min_phantom upcase phs taken of None \<Rightarrow> [] | Some i \<Rightarrow> i # phantom_select upcase phs (insert i taken))"
  by pat_completeness auto

termination phantom_select
  by (relation "measure (\<lambda>(upcase, phs, taken). card ({..<length phs} - taken))")
     (auto intro!: rank_phantom dest: min_phantom_Some(1,2))

declare phantom_select.simps [simp del]

lemma phantom_select_set:
  "set (phantom_select upcase phs taken) = {..<length phs} - taken \<and> distinct (phantom_select upcase phs taken)"
proof (induction upcase phs taken rule: phantom_select.induct)
  case (1 upcase phs taken)
  show ?case
  proof (cases "min_phantom upcase phs taken")
    case None
    then show ?thesis using min_phantom_None [OF None] by (simp add: phantom_select.simps [of upcase phs taken])
  next
    case (Some i)
    then show ?thesis using "1.IH" [OF Some] min_phantom_Some(1,2) [OF Some]
      by (auto simp: phantom_select.simps [of upcase phs taken])
  qed
qed

lemma phantom_select_sorted:
  "sorted_wrt (\<lambda>i j. \<not> name_less upcase (mp_name (phs ! j)) (mp_name (phs ! i))) (phantom_select upcase phs taken)"
proof (induction upcase phs taken rule: phantom_select.induct)
  case (1 upcase phs taken)
  show ?case
  proof (cases "min_phantom upcase phs taken")
    case None
    then show ?thesis by (simp add: phantom_select.simps [of upcase phs taken])
  next
    case (Some i)
    then show ?thesis using "1.IH" [OF Some] min_phantom_Some(3) [OF Some] phantom_select_set [of upcase phs "insert i taken"]
      by (auto simp: phantom_select.simps [of upcase phs taken])
  qed
qed

end
