(* ===== verification/Phantom_Merge.thy ===== *)
theory Phantom_Merge
  imports Phantom_Listing
begin

text \<open>
  Phantom files, correctness of the merge: the entry of a phantom is a well-formed entry that reads back as its name, the
  loop over the two buffers computes the merge of two lists, and a caller reads from the result exactly that merge.
\<close>

section \<open>The entry of a phantom\<close>

definition filled :: "SAR_DIR_OFFSETS \<Rightarrow> nat \<Rightarrow> bytes \<Rightarrow> bytes \<Rightarrow> bytes \<Rightarrow> bool" where
  "filled off sz name_length tail e \<longleftrightarrow>
     length e = sz \<and> take 4 e = replicate 4 0 \<and> slice e (do_name_length off) 4 = name_length \<and>
     drop (do_base_record_size off) e = tail"

lemma filled_keep:
  assumes "filled off sz n t e" "4 \<le> i" "i + length v \<le> do_base_record_size off"
    "i + length v \<le> do_name_length off \<or> do_name_length off + 4 \<le> i" "do_base_record_size off \<le> sz"
  shows "filled off sz n t (put i v e)"
proof -
  have "take 4 (put i v e) = take 4 e" "drop (do_base_record_size off) (put i v e) = drop (do_base_record_size off) e"
    using assms(1,2,3,5) by (auto simp: put_def splice_at_def filled_def min_def simp flip: length_0_conv)
  then show ?thesis using assms by (auto simp: filled_def slice_put_other)
qed

lemma filled_name_length:
  assumes "filled off sz n t e" "layout_ok off" "do_base_record_size off \<le> sz" "length v = 4"
  shows "filled off sz v t (put (do_name_length off) v e)"
proof -
  have "take 4 (put (do_name_length off) v e) = take 4 e"
    "drop (do_base_record_size off) (put (do_name_length off) v e) = drop (do_base_record_size off) e"
    using assms by (auto simp: put_def splice_at_def filled_def layout_ok_def min_def)
  then show ?thesis using assms by (auto simp: filled_def slice_put_same layout_ok_def)
qed

lemma filled_name:
  assumes "filled off sz n t e" "layout_ok off" "do_base_record_size off + length v \<le> sz"
  shows "filled off sz n (v @ drop (length v) t) (put (do_name_start off) v e)"
proof -
  have "take 4 (put (do_name_start off) v e) = take 4 e"
    "drop (do_base_record_size off) (put (do_name_start off) v e) = v @ drop (length v) t"
    using assms by (auto simp: put_def splice_at_def filled_def layout_ok_def min_def add.commute)
  then show ?thesis using assms by (auto simp: filled_def slice_put_other layout_ok_def)
qed

definition field_ok :: "SAR_DIR_OFFSETS \<Rightarrow> nat \<Rightarrow> nat \<Rightarrow> bool" where
  "field_ok off i n \<longleftrightarrow> 4 \<le> i \<and> i + n \<le> do_base_record_size off \<and> (i + n \<le> do_name_length off \<or> do_name_length off + 4 \<le> i)"

lemma layout_fields:
  assumes "SarPhantomDirOffsets cls = Some off"
  shows "do_creation_time off = Some c \<Longrightarrow> field_ok off c 8 \<and> field_ok off (do_last_access off) 8 \<and> field_ok off (do_last_write off) 8 \<and>
      field_ok off (do_change_time off) 8 \<and> field_ok off (do_end_of_file off) 8 \<and> field_ok off (do_alloc_size off) 8 \<and> field_ok off (do_attrs off) 4"
    "do_ea_size off = Some i \<Longrightarrow> field_ok off i 4" "do_short_name_length off = Some i \<Longrightarrow> field_ok off i (Suc 0)"
    "do_file_id off = Some i \<Longrightarrow> field_ok off i 8" "do_file_id_128 off = Some i \<Longrightarrow> field_ok off i 8"
  using assms by (cases cls; auto simp: dir_offsets_defs field_ok_def)+

lemma filled_entry:
  assumes cls: "SarPhantomDirOffsets cls = Some off" and size: "sz = SarPhantomEntrySize off (2 * length name)"
  shows "filled off sz (le_store 4 (word_of_nat (2 * length name) :: u32))
    (path_bytes name @ replicate (sz - do_base_record_size off - 2 * length name) 0)
    (SarPhantomFillEntry off sz name meta ref)"
proof -
  have off: "layout_ok off" using layouts [OF cls] .
  have sz: "do_base_record_size off + 2 * length name \<le> sz" using round8_bounds(1) by (simp add: size SarPhantomEntrySize_def)
  have start: "filled off sz (replicate 4 0) (replicate (sz - do_base_record_size off) 0) (put (do_next_entry off) (le_store 4 (0 :: u32)) (replicate sz 0))"
    using off sz by (auto simp: filled_def layout_ok_def put_def splice_at_def zero_store slice_def min_def simp flip: replicate_add)
  have f: "filled off sz (le_store 4 (word_of_nat (2 * length name) :: u32)) (path_bytes name @ replicate (sz - do_base_record_size off - 2 * length name) 0)
      (put (do_name_start off) (path_bytes name) (put (do_name_length off) (le_store 4 (word_of_nat (2 * length name) :: u32)) e))"
    if "filled off sz (replicate 4 0) (replicate (sz - do_base_record_size off) 0) e" for e
    using filled_name [OF filled_name_length [OF that off, of "le_store 4 (word_of_nat (2 * length name) :: u32)"] off, of "path_bytes name"] sz
    by simp
  have keep: "filled off sz n t (put i v e)" if "filled off sz n t e" "field_ok off i (length v)" for n t e i v
    using filled_keep [OF that(1), of i v] that(2) sz by (simp add: field_ok_def)
  have keep_opt: "filled off sz n t (put_opt i v e)" if "filled off sz n t e" "\<And>j. i = Some j \<Longrightarrow> field_ok off j (length v)" for n t e i v
    using that keep by (cases i) (simp_all add: put_opt_def)
  note fields = layout_fields [OF cls]
  show ?thesis unfolding SarPhantomFillEntry_def Let_def
  proof (intro keep_opt f)
    show "filled off sz (replicate 4 0) (replicate (sz - do_base_record_size off) 0) (case do_creation_time off of None \<Rightarrow> put (do_next_entry off) (le_store 4 (0 :: u32)) (replicate sz 0)
      | Some creation_time \<Rightarrow> put (do_attrs off) (le_store 4 FILE_ATTRIBUTE_ARCHIVE) (put (do_alloc_size off) (le_store 8 ((ucast (pm_size meta) + 4095 :: u64) AND NOT 4095))
          (put (do_end_of_file off) (le_store 8 (ucast (pm_size meta) :: u64)) (put (do_change_time off) (le_store 8 (pm_wtime meta))
          (put (do_last_write off) (le_store 8 (pm_wtime meta)) (put (do_last_access off) (le_store 8 (pm_atime meta))
          (put creation_time (le_store 8 (pm_ctime meta)) (put (do_next_entry off) (le_store 4 (0 :: u32)) (replicate sz 0)))))))))"
      by (cases "do_creation_time off") (simp_all add: start keep fields)
  qed (simp_all add: fields)
qed

lemma phantom_entry:
  assumes cls: "SarPhantomDirOffsets cls = Some off" and p: "p = merge_phantom_of secret off dir i"
  shows "entry_wf off (mp_entry p)" "real_name off (mp_entry p) 0 = mp_name p" "length (mp_entry p) = mp_size p"
proof -
  let ?name = "SarPhantomNameForIndex secret dir (word_of_nat i)"
  let ?n = "2 * length ?name"
  let ?clen = "do_base_record_size off + ?n"
  have name: "mp_name p = ?name" and sz: "mp_size p = round8 ?clen"
    by (simp_all add: p merge_phantom_of_def Let_def SarPhantomEntrySize_def)
  have f: "filled off (mp_size p) (le_store 4 (word_of_nat ?n :: u32)) (path_bytes ?name @ replicate (round8 ?clen - do_base_record_size off - ?n) 0) (mp_entry p)"
    using filled_entry [OF cls refl, of ?name] sz by (simp add: p merge_phantom_of_def Let_def SarPhantomEntrySize_def)
  then show len: "length (mp_entry p) = mp_size p" by (simp add: filled_def)
  have small: "?n < 2 ^ 16" using phantom_name_length [of secret dir "word_of_nat i"] by simp
  have off: "layout_ok off" using layouts [OF cls] .
  have n: "ulong_at (mp_entry p) (do_name_length off) = ?n"
  proof -
    have "slice (mp_entry p) (do_name_length off) 4 = le_store 4 (word_of_nat ?n :: u32)" using f by (simp only: filled_def)
    then have "ulong_at (mp_entry p) (do_name_length off) = unat (word_of_nat ?n :: u32)"
      unfolding ulong_at_def by (simp only:) (simp add: le_load_store)
    then show ?thesis using small by (simp only: unsigned_of_nat) (simp add: take_bit_nat_eq_self)
  qed
  have tail: "drop ?clen (mp_entry p) = drop ?n (drop (do_base_record_size off) (mp_entry p))" by (simp add: add.commute)
  show "entry_wf off (mp_entry p)" unfolding entry_wf_def Let_def n tail
    using f small len sz by (simp add: filled_def)
  have "slice (mp_entry p) (do_name_start off) ?n = path_bytes ?name" using f off by (simp add: filled_def slice_def layout_ok_def)
  then show "real_name off (mp_entry p) 0 = mp_name p" unfolding real_name_def Let_def name add_0 n
    using small by simp
qed

section \<open>The loop\<close>

text \<open>
  What is written so far is a chain of entries, and the rest fits.
\<close>

definition written :: "SAR_DIR_OFFSETS \<Rightarrow> nat \<Rightarrow> merge_state \<Rightarrow> bytes list \<Rightarrow> bool" where
  "written off cap s es \<longleftrightarrow>
     (\<forall>e \<in> set es. entry_wf off e) \<and> length (ms_out s) = cap \<and> ms_used s \<le> cap \<and>
     take (ms_used s) (ms_out s) = chain es \<and> ms_used s = length (chain es) \<and>
     ms_last s = (if es = [] then None else Some (ms_used s - length (last es)))"

lemma length_chain:
  assumes "layout_ok off" "\<forall>e \<in> set es. entry_wf off e"
  shows "length (chain es) = sum_list (map length es)"
  using assms(2)
proof (induction es)
  case (Cons e es)
  then show ?case using entry_wf_length(2) [OF assms(1), of e] by (cases "es = []") (simp_all add: chain_simps)
qed (simp add: chain_simps)

lemma link_last_chain:
  assumes off: "layout_ok off" and w: "written off cap s es"
  shows "link_last off s = concat (map linked es) @ drop (ms_used s) (ms_out s)"
proof (cases "es = []")
  case True
  then show ?thesis using w by (simp add: link_last_def written_def chain_simps)
next
  case False
  let ?pre = "concat (map linked (butlast es))"
  have es: "es = butlast es @ [last es]" using False by simp
  have wf: "entry_wf off (last es)" using w False by (simp add: written_def)
  have out: "ms_out s = (?pre @ last es) @ drop (ms_used s) (ms_out s)"
  proof -
    have "take (ms_used s) (ms_out s) = chain es" using w unfolding written_def by blast
    also have "\<dots> = ?pre @ last es" using False by (simp add: chain_def)
    finally have "take (ms_used s) (ms_out s) = ?pre @ last es" .
    then show ?thesis using append_take_drop_id [of "ms_used s" "ms_out s"] by (simp only:)
  qed
  have used: "ms_used s = length ?pre + length (last es)" using w False by (simp add: written_def chain_def)
  have l: "4 \<le> length (last es)" using entry_wf_length(2) [OF off wf] by simp
  have "link_last off s = put (length ?pre) (le_store 4 (word_of_nat (length (last es)) :: u32)) (ms_out s)"
  proof -
    have "ms_last s = Some (length ?pre)" using w False used by (simp add: written_def)
    then show ?thesis using off by (simp add: link_last_def layout_ok_def used)
  qed
  also have "\<dots> = ?pre @ linked (last es) @ drop (ms_used s) (ms_out s)"
    by (subst out) (simp add: put_append_right put_append_left l linked_def)
  also have "\<dots> = concat (map linked es) @ drop (ms_used s) (ms_out s)" by (subst (3) es) simp
  finally show ?thesis .
qed

lemma length_links:
  assumes off: "layout_ok off" and es: "\<forall>e \<in> set es. entry_wf off e"
  shows "length (concat (map linked es)) = length (chain es)"
proof -
  have "length (linked x) = length x" if "x \<in> set es" for x using entry_wf_length(2) [OF off, of x] es that by simp
  then have "map (length \<circ> linked) es = map length es" by simp
  then show ?thesis using length_chain [OF off es] by (simp only: length_concat map_map)
qed

lemma length_link_last: "layout_ok off \<Longrightarrow> written off cap s es \<Longrightarrow> length (link_last off s) = cap"
  unfolding link_last_chain by (subst length_append) (simp add: length_links written_def)

lemma written_emit:
  assumes off: "layout_ok off" and w: "written off cap s es" and e: "entry_wf off e" and fits: "ms_used s + length e \<le> cap"
    and s': "ms_out s' = put (ms_used s) e (link_last off s)" "ms_used s' = ms_used s + length e" "ms_last s' = Some (ms_used s)"
  shows "written off cap s' (es @ [e])"
proof -
  let ?pre = "concat (map linked es)"
  have all: "\<forall>x \<in> set es. entry_wf off x" "length (ms_out s) = cap" "ms_used s = length (chain es)" using w by (simp_all add: written_def)
  have pre: "length ?pre = ms_used s" using length_links [OF off all(1)] all(3) by simp
  have out: "ms_out s' = ?pre @ e @ drop (ms_used s + length e) (ms_out s)"
    unfolding s' link_last_chain [OF off w] using pre by (simp add: put_def splice_at_def add.commute)
  have ch: "chain (es @ [e]) = ?pre @ e" by (simp add: chain_def)
  show ?thesis using all(1,2) e fits s'(2,3) pre unfolding written_def out ch by simp
qed

definition merge_rest :: "SAR_DIR_OFFSETS \<Rightarrow> bytes \<Rightarrow> merge_state \<Rightarrow> (u16 list \<times> bytes) list" where
  "merge_rest off buf s = (case ms_rcur s of None \<Rightarrow> [] | Some r \<Rightarrow> dir_entries off buf r)"

definition phantom_view :: "merge_phantom \<Rightarrow> u16 list \<times> bytes" where "phantom_view p = (mp_name p, mp_entry p)"

definition phantom_rest :: "(u16 \<Rightarrow> u16) \<Rightarrow> merge_phantom list \<Rightarrow> merge_state \<Rightarrow> (u16 list \<times> bytes) list" where
  "phantom_rest upcase phs s = map (\<lambda>i. phantom_view (phs ! i)) (phantom_select upcase phs (ms_taken s))"

definition merge_inv ::
  "(u16 \<Rightarrow> u16) \<Rightarrow> SAR_DIR_OFFSETS \<Rightarrow> bytes \<Rightarrow> merge_phantom list \<Rightarrow> nat \<Rightarrow> merge_state \<Rightarrow> bytes list \<Rightarrow> bool" where
  "merge_inv upcase off buf phs cap s es \<longleftrightarrow>
     cap < 2 ^ 32 \<and> written off cap s es \<and> ms_taken s \<subseteq> {..<length phs} \<and> ms_emitted s = card (ms_taken s) \<and>
     (case ms_rcur s of None \<Rightarrow> True | Some r \<Rightarrow> r < length buf \<and> dir_wf off buf r) \<and>
     ms_used s + sum_list (map (length \<circ> snd) (merge_rest off buf s)) + sum_list (map (length \<circ> snd) (phantom_rest upcase phs s)) \<le> cap"

lemma take_phantom_inv:
  assumes off: "layout_ok off" and phs: "\<forall>p \<in> set phs. entry_wf off (mp_entry p) \<and> length (mp_entry p) = mp_size p"
    and inv: "merge_inv upcase off buf phs cap s es" and m: "min_phantom upcase phs (ms_taken s) = Some m"
  shows "merge_inv upcase off buf phs cap (take_phantom off phs m s) (es @ [mp_entry (phs ! m)])"
    "phantom_rest upcase phs s = phantom_view (phs ! m) # phantom_rest upcase phs (take_phantom off phs m s)"
    "merge_rest off buf (take_phantom off phs m s) = merge_rest off buf s"
proof -
  show rest: "phantom_rest upcase phs s = phantom_view (phs ! m) # phantom_rest upcase phs (take_phantom off phs m s)"
    by (simp add: phantom_rest_def phantom_select.simps [of upcase phs "ms_taken s"] m take_phantom_def)
  show rest': "merge_rest off buf (take_phantom off phs m s) = merge_rest off buf s" by (simp add: merge_rest_def take_phantom_def)
  have e: "entry_wf off (mp_entry (phs ! m))" "length (mp_entry (phs ! m)) = mp_size (phs ! m)"
    using phs min_phantom_Some(1) [OF m] by simp_all
  have fits: "ms_used s + mp_size (phs ! m) + sum_list (map (length \<circ> snd) (merge_rest off buf s)) +
      sum_list (map (length \<circ> snd) (phantom_rest upcase phs (take_phantom off phs m s))) \<le> cap"
    using inv unfolding merge_inv_def rest by (simp add: phantom_view_def e)
  have used: "ms_used (take_phantom off phs m s) = ms_used s + mp_size (phs ! m)"
    using inv fits by (simp add: take_phantom_def merge_inv_def ulong_id)
  have "written off cap (take_phantom off phs m s) (es @ [mp_entry (phs ! m)])"
    using inv fits e by (intro written_emit [OF off]) (simp_all add: merge_inv_def used, simp_all add: take_phantom_def)
  moreover have "finite (ms_taken s)" using inv finite_subset [OF _ finite_lessThan] by (auto simp: merge_inv_def)
  ultimately show "merge_inv upcase off buf phs cap (take_phantom off phs m s) (es @ [mp_entry (phs ! m)])"
    using inv fits min_phantom_Some(1,2) [OF m] rest' unfolding merge_inv_def used by (simp add: take_phantom_def)
qed

lemma put_put: "i + length v \<le> length w \<Longrightarrow> u + length w \<le> length b \<Longrightarrow> put (u + i) v (put u w b) = put u (put i v w) b"
  by (simp add: put_def splice_at_def)

lemma take_real_inv:
  assumes off: "layout_ok off" and inv: "merge_inv upcase off buf phs cap s es" and r: "ms_rcur s = Some r"
  shows "merge_inv upcase off buf phs cap (take_real off buf r s) (es @ [entry_at off buf r])"
    "merge_rest off buf s = (real_name off buf r, entry_at off buf r) # merge_rest off buf (take_real off buf r s)"
    "phantom_rest upcase phs (take_real off buf r s) = phantom_rest upcase phs s"
proof -
  let ?clen = "do_base_record_size off + ulong_at buf (r + do_name_length off)"
  let ?nxt = "ulong_at buf (r + do_next_entry off)"
  have wf: "r < length buf" "dir_wf off buf r" using inv r by (simp_all add: merge_inv_def)
  have o: "do_next_entry off = 0" "4 \<le> ?clen" using off by (auto simp: layout_ok_def)
  note e = entry_at_wf [OF off wf(2,1)] and c = entry_clen_wf [OF off wf(2,1)]
  show rest: "merge_rest off buf s = (real_name off buf r, entry_at off buf r) # merge_rest off buf (take_real off buf r s)"
    using r wf(1) by (auto simp: merge_rest_def take_real_def Let_def dir_entries.simps [of off buf r] dir_entries.simps [of off buf "r + ?nxt"])
  show rest': "phantom_rest upcase phs (take_real off buf r s) = phantom_rest upcase phs s"
    by (simp add: phantom_rest_def take_real_def Let_def)
  have fits: "ms_used s + length (entry_at off buf r) + sum_list (map (length \<circ> snd) (merge_rest off buf (take_real off buf r s))) +
      sum_list (map (length \<circ> snd) (phantom_rest upcase phs s)) \<le> cap"
    using inv unfolding merge_inv_def rest by simp
  have "r + ?clen \<le> length buf" using wf by (simp add: dir_wf.simps [of off buf r] add.assoc)
  then have len: "length (slice buf r ?clen @ replicate (round8 ?clen - ?clen) 0) = round8 ?clen" using round8_bounds(1) [of ?clen] by simp
  have w: "written off cap s es" and cap32: "cap < 2 ^ 32" using inv by (simp_all add: merge_inv_def)
  have cap: "length (link_last off s) = cap" by (rule length_link_last [OF off w])
  have esize: "ulong (round8 ?clen) = round8 ?clen" using c e(3) by simp
  have used: "ms_used (take_real off buf r s) = ms_used s + length (entry_at off buf r)"
    using fits cap32 by (simp add: take_real_def Let_def c(1) esize ulong_id flip: e(3))
  have "ms_out (take_real off buf r s) = put (ms_used s) (entry_at off buf r) (link_last off s)"
    using put_put [of 0 "le_store 4 (0 :: u32)" "slice buf r ?clen @ replicate (round8 ?clen - ?clen) 0" "ms_used s" "link_last off s"]
      len o round8_bounds(1) [of ?clen] fits e(3) cap by (simp add: take_real_def Let_def entry_at_def c(1) esize)
  then have "written off cap (take_real off buf r s) (es @ [entry_at off buf r])"
    using w fits e by (intro written_emit [OF off]) (simp_all add: used, simp_all add: take_real_def Let_def)
  moreover have step: "ms_taken (take_real off buf r s) = ms_taken s" "ms_emitted (take_real off buf r s) = ms_emitted s"
    by (simp_all add: take_real_def Let_def)
  moreover have "case ms_rcur (take_real off buf r s) of None \<Rightarrow> True | Some r \<Rightarrow> r < length buf \<and> dir_wf off buf r"
    using wf by (auto simp: take_real_def Let_def dir_wf.simps [of off buf r])
  ultimately show "merge_inv upcase off buf phs cap (take_real off buf r s) (es @ [entry_at off buf r])"
    using inv fits rest' unfolding merge_inv_def step used by simp
qed

lemma name_merge_Nil [simp]: "name_merge upcase [] ps = ps" by (cases ps) simp_all

definition merge_todo :: "(u16 \<Rightarrow> u16) \<Rightarrow> SAR_DIR_OFFSETS \<Rightarrow> bytes \<Rightarrow> merge_phantom list \<Rightarrow> merge_state \<Rightarrow> bytes list" where
  "merge_todo upcase off buf phs s = map snd (name_merge upcase (merge_rest off buf s) (phantom_rest upcase phs s))"

lemma merge_step_exact:
  assumes off: "layout_ok off" and phs: "\<forall>p \<in> set phs. entry_wf off (mp_entry p) \<and> length (mp_entry p) = mp_size p"
    and inv: "merge_inv upcase off buf phs cap s es" and more: "ms_rcur s \<noteq> None \<or> ms_emitted s < length phs"
  shows "\<exists>e. merge_inv upcase off buf phs cap (merge_step upcase off buf phs s) (es @ [e]) \<and>
    merge_todo upcase off buf phs s = e # merge_todo upcase off buf phs (merge_step upcase off buf phs s)"
proof (cases "min_phantom upcase phs (ms_taken s)")
  case None
  have rest: "phantom_rest upcase phs s = []" by (simp add: phantom_rest_def phantom_select.simps [of upcase phs "ms_taken s"] None)
  have "ms_taken s = {..<length phs}" using min_phantom_None [OF None] inv by (auto simp: merge_inv_def)
  then obtain r where r: "ms_rcur s = Some r" using more inv by (auto simp: merge_inv_def)
  have step: "merge_step upcase off buf phs s = take_real off buf r s" by (simp add: merge_step_def r None)
  show ?thesis using take_real_inv [OF off inv r] by (intro exI [of _ "entry_at off buf r"]) (simp add: step rest merge_todo_def)
next
  case (Some m)
  note ph = take_phantom_inv [OF off phs inv Some]
  show ?thesis
  proof (cases "ms_rcur s \<noteq> None \<and> \<not> name_less upcase (mp_name (phs ! m)) (real_name off buf (the (ms_rcur s)))")
    case True
    then obtain r where r: "ms_rcur s = Some r" "\<not> name_less upcase (mp_name (phs ! m)) (real_name off buf r)" by auto
    have step: "merge_step upcase off buf phs s = take_real off buf r s" by (simp add: merge_step_def r Some)
    show ?thesis using take_real_inv [OF off inv r(1)] ph(2) r(2)
      by (intro exI [of _ "entry_at off buf r"]) (simp add: step merge_todo_def phantom_view_def)
  next
    case False
    have step: "merge_step upcase off buf phs s = take_phantom off phs m s"
      using False by (cases "ms_rcur s") (simp_all add: merge_step_def Some)
    have "merge_rest off buf s = [] \<or> (\<exists>r rs. merge_rest off buf s = r # rs \<and> name_less upcase (mp_name (phs ! m)) (fst r))"
    proof (cases "ms_rcur s")
      case (Some r)
      then show ?thesis using take_real_inv(2) [OF off inv Some] False by simp
    qed (simp add: merge_rest_def)
    then show ?thesis using ph
      by (intro exI [of _ "mp_entry (phs ! m)"]) (auto simp: step merge_todo_def phantom_view_def)
  qed
qed

lemma merge_loop_exact:
  assumes "layout_ok off" "\<forall>p \<in> set phs. entry_wf off (mp_entry p) \<and> length (mp_entry p) = mp_size p"
    "merge_inv upcase off buf phs cap s es"
  shows "written off cap (merge_loop upcase off buf phs s) (es @ merge_todo upcase off buf phs s) \<and>
    ms_emitted (merge_loop upcase off buf phs s) = length phs"
  using assms
proof (induction upcase off buf phs s arbitrary: es rule: merge_loop.induct)
  case (1 upcase off buf phs s)
  show ?case
  proof (cases "ms_rcur s \<noteq> None \<or> ms_emitted s < length phs")
    case False
    have taken: "ms_taken s \<subseteq> {..<length phs}" "ms_emitted s = card (ms_taken s)" using "1.prems"(3) by (simp_all add: merge_inv_def)
    then have full: "card (ms_taken s) = length phs" using False card_mono [OF finite_lessThan taken(1)] by simp
    then have "ms_taken s = {..<length phs}" using taken(1) by (intro card_subset_eq) auto
    then have "phantom_select upcase phs (ms_taken s) = []" using phantom_select_set [of upcase phs "ms_taken s"] by simp
    then show ?thesis using False taken(2) full "1.prems"(3)
      by (simp add: merge_loop.simps [of upcase off buf phs s] merge_todo_def merge_rest_def phantom_rest_def merge_inv_def)
  next
    case True
    obtain e where e: "merge_inv upcase off buf phs cap (merge_step upcase off buf phs s) (es @ [e])"
      "merge_todo upcase off buf phs s = e # merge_todo upcase off buf phs (merge_step upcase off buf phs s)"
      using merge_step_exact [OF "1.prems" True] by blast
    then show ?thesis using "1.IH" [OF True "1.prems"(1,2) e(1)] True by (simp add: merge_loop.simps [of upcase off buf phs s])
  qed
qed

section \<open>What a caller sees\<close>

lemma chain_unlink:
  assumes off: "layout_ok off" and w: "written off cap s es" and es: "es \<noteq> []"
  shows "put (ms_used s - length (last es) + do_next_entry off) (le_store 4 (0 :: u32)) (ms_out s) = ms_out s"
proof -
  let ?pre = "concat (map linked (butlast es))"
  have wf: "entry_wf off (last es)" using w es by (simp add: written_def)
  have l: "4 \<le> length (last es)" using entry_wf_length(2) [OF off wf] by simp
  have "take (ms_used s) (ms_out s) = chain es" using w unfolding written_def by blast
  then have out: "ms_out s = ?pre @ last es @ drop (ms_used s) (ms_out s)"
    using append_take_drop_id [of "ms_used s" "ms_out s"] es by (simp add: chain_def)
  have "ms_used s - length (last es) = length ?pre" using w es by (simp add: written_def chain_def)
  then have "put (ms_used s - length (last es) + do_next_entry off) (le_store 4 (0 :: u32)) (ms_out s) =
      ?pre @ put 0 (le_store 4 (0 :: u32)) (last es) @ drop (ms_used s) (ms_out s)"
    using off l by (subst out) (simp add: layout_ok_def put_append_right put_append_left)
  then show ?thesis using link_self [OF off wf] out by simp
qed

lemma real_entries_nonempty: "SarPhantomCountRealEntries off swapped 0 \<noteq> 0 \<Longrightarrow> 0 < length swapped"
  by (auto simp: count_entries dir_entries.simps [of off swapped 0] split: if_splits)

lemma name_merge_views:
  assumes "\<forall>(n, e) \<in> set xs. n = real_name off e 0"
  shows "map (\<lambda>e. (real_name off e 0, e)) (map snd xs) = xs"
  using assms by (induction xs) auto

text \<open>
  The merge, for any phantoms whose entries are well-formed and fit.
\<close>

lemma merge_loop_listing:
  fixes upcase :: "u16 \<Rightarrow> u16"
  assumes off: "layout_ok off" and wf: "dir_wf off swapped 0" "0 < length swapped"
    and phs: "\<forall>p \<in> set phs. entry_wf off (mp_entry p) \<and> real_name off (mp_entry p) 0 = mp_name p \<and> length (mp_entry p) = mp_size p"
    and fits: "sum_list (map (length \<circ> snd) (dir_entries off swapped 0)) + sum_list (map mp_size phs) \<le> length out" "length out < 2 ^ 32"
    and s_def: "s = merge_loop upcase off swapped phs (merge_init out)"
    and ps_def: "ps = map (\<lambda>i. phantom_view (phs ! i)) (phantom_select upcase phs {})"
  obtains l where "ms_last s = Some l" "put (l + do_next_entry off) (le_store 4 (0 :: u32)) (ms_out s) = ms_out s"
    "length (ms_out s) = length out" "ms_used s \<le> length out" "ms_emitted s = length phs"
    "dir_entries off (take (ms_used s) (ms_out s)) 0 = name_merge upcase (dir_entries off swapped 0) ps"
proof -
  let ?rs = "dir_entries off swapped 0"
  let ?m = "name_merge upcase ?rs ps"
  have sel: "set (phantom_select upcase phs {}) = {..<length phs}" "distinct (phantom_select upcase phs {})"
    using phantom_select_set [of upcase phs "{}"] by simp_all
  have rs: "\<forall>(n, e) \<in> set ?rs. entry_wf off e \<and> n = real_name off e 0"
    using entries_wf [OF off wf(1)] by simp
  have ps: "\<forall>(n, e) \<in> set ps. entry_wf off e \<and> n = real_name off e 0" using phs sel(1) by (auto simp: ps_def phantom_view_def)
  have "sum_list (map (length \<circ> snd) ps) = sum_list (map (\<lambda>i. mp_size (phs ! i)) (phantom_select upcase phs {}))"
    unfolding ps_def map_map by (rule arg_cong [of _ _ sum_list], rule map_cong [OF refl]) (use phs sel(1) in \<open>simp add: phantom_view_def\<close>)
  also have "\<dots> = (\<Sum>i<length phs. mp_size (phs ! i))" using sel by (simp add: sum_list_distinct_conv_sum_set)
  also have "\<dots> = sum_list (map mp_size phs)" by (simp add: sum_list_sum_nth atLeast0LessThan)
  finally have "merge_inv upcase off swapped phs (length out) (merge_init out) []"
    using fits wf
    by (simp add: merge_inv_def merge_init_def written_def chain_simps merge_rest_def phantom_rest_def ps_def [symmetric])
  then have w: "written off (length out) s (map snd ?m)" and em: "ms_emitted s = length phs"
    using merge_loop_exact [OF off, of phs upcase swapped "length out" "merge_init out" "[]"] phs
    by (auto simp: s_def merge_todo_def merge_rest_def phantom_rest_def merge_init_def ps_def)
  have ne: "map snd ?m \<noteq> []" using wf(2) set_name_merge [of upcase ?rs ps] by (auto simp: dir_entries.simps [of off swapped 0] Let_def)
  have last: "ms_last s = Some (ms_used s - length (last (map snd ?m)))" using w ne unfolding written_def by presburger
  have "\<forall>(n, e) \<in> set ?m. entry_wf off e \<and> n = real_name off e 0" using rs ps by (auto simp: set_name_merge)
  then have "dir_entries off (take (ms_used s) (ms_out s)) 0 = ?m"
    using chain_read [OF off, of "map snd ?m" "[]"] name_merge_views [of ?m off] w unfolding written_def by fastforce
  then show thesis using that [OF last chain_unlink [OF off w ne]] w em unfolding written_def by blast
qed

lemma merge_order_set: "set (merge_order mm d) \<subseteq> {i. i < SAR_PHANTOM_MAX_PER_DIR \<and> bit mm i}" "distinct (merge_order mm d)"
  by (auto simp: merge_order_def dest: in_set_takeD)

definition phantom_entry_of :: "bytes \<Rightarrow> SAR_DIR_OFFSETS \<Rightarrow> u16 list \<Rightarrow> nat \<Rightarrow> u16 list \<times> bytes" where
  "phantom_entry_of secret off dir i = phantom_view (merge_phantom_of secret off dir i)"

lemma dir_entries_copy: "length swapped \<le> length out \<Longrightarrow> take (length swapped) (put 0 swapped out) = swapped"
  by (simp add: put_def splice_at_def)

lemma merge_into_cases:
  assumes "r = SarPhantomMergeInto upcase secret out swapped off dir match_mask ectx m"
  obtains (copy) "mr_used r = length swapped" "mr_out r = put 0 swapped out" "mr_emitted r = 0"
  | (merge) d order phs s where "order = merge_order match_mask d" "phs = map (merge_phantom_of secret off dir) order"
      "SarPhantomCountRealEntries off swapped 0 \<noteq> 0" "ulong (real_total off swapped 0 + sum_list (map mp_size phs)) \<le> length out"
      "s = merge_loop upcase off swapped phs (merge_init out)" "mr_used r = ms_used s" "mr_emitted r = ms_emitted s"
      "mr_out r = (case ms_last s of None \<Rightarrow> ms_out s | Some l \<Rightarrow> put (l + do_next_entry off) (le_store 4 (0 :: u32)) (ms_out s))"
proof -
  let ?d = "SarPhantomCountForDir (ec_real_seen ectx + word_of_nat (SarPhantomCountRealEntries off swapped 0))"
  let ?phs = "map (merge_phantom_of secret off dir) (merge_order match_mask ?d)"
  let ?s = "merge_loop upcase off swapped ?phs (merge_init out)"
  show thesis using merge(1) [of _ ?d ?phs ?s] copy assms
    by (auto simp: SarPhantomMergeInto_def Let_def merge_copy_def not_less ulong_add split: if_splits)
qed

text \<open>
  The phantoms a merge takes, in the order they are taken.
\<close>

lemma merge_selected:
  assumes "phs = map (merge_phantom_of secret off dir) order"
    and is_def: "is = map ((!) order) (phantom_select upcase phs {})"
  shows "map (\<lambda>i. phantom_view (phs ! i)) (phantom_select upcase phs {}) = map (phantom_entry_of secret off dir) is"
    "set is = set order" "distinct order \<Longrightarrow> distinct is" "length is = length order"
    "by_name upcase (map (phantom_entry_of secret off dir) is)"
proof -
  let ?sel = "phantom_select upcase phs {}"
  have sel: "set ?sel = {..<length order}" "distinct ?sel" using phantom_select_set [of upcase phs "{}"] by (simp_all add: assms(1))
  show ps: "map (\<lambda>i. phantom_view (phs ! i)) ?sel = map (phantom_entry_of secret off dir) is"
    using sel(1) by (auto simp: assms(1) is_def phantom_entry_of_def)
  show "set is = set order" by (simp add: is_def sel(1) nth_image flip: atLeast0LessThan)
  show "distinct is" if "distinct order" using sel that by (auto simp: is_def distinct_map inj_on_def nth_eq_iff_index_eq)
  show "length is = length order" using distinct_card [OF sel(2)] sel(1) by (simp add: is_def)
  show "by_name upcase (map (phantom_entry_of secret off dir) is)"
    using phantom_select_sorted [of upcase phs "{}"] unfolding ps [symmetric] by (simp add: by_name_def sorted_wrt_map phantom_view_def)
qed

text \<open>
  The sizes: the phantoms of one listing are few and small, so that the 32-bit sum of the check is the sum of the sizes.
\<close>

lemma phantom_sizes:
  assumes "layout_ok off" "\<forall>p \<in> set phs. entry_wf off (mp_entry p) \<and> length (mp_entry p) = mp_size p"
  shows "sum_list (map mp_size phs) \<le> length phs * 2 ^ 17"
proof -
  have "mp_size p \<le> 2 ^ 17" if "p \<in> set phs" for p
    using assms that round8_bounds(2) [of "do_base_record_size off + ulong_at (mp_entry p) (do_name_length off)"]
    by (auto simp: entry_wf_def Let_def layout_ok_def)
  then show ?thesis by (induction phs) (auto intro: add_mono)
qed

lemma merge_fits:
  assumes off: "layout_ok off" and wf: "dir_wf off swapped 0" "length swapped < 2 ^ 31"
    and phs: "\<forall>p \<in> set phs. entry_wf off (mp_entry p) \<and> length (mp_entry p) = mp_size p" "length phs \<le> 32"
    and fits: "ulong (real_total off swapped 0 + sum_list (map mp_size phs)) \<le> n"
  shows "sum_list (map (length \<circ> snd) (dir_entries off swapped 0)) + sum_list (map mp_size phs) \<le> n"
proof -
  let ?rs = "sum_list (map (length \<circ> snd) (dir_entries off swapped 0))"
  have "?rs \<le> length swapped + 7" "real_total off swapped 0 = ulong ?rs" using entries_wf [OF off wf(1)] by simp_all
  moreover have "sum_list (map mp_size phs) \<le> 32 * 2 ^ 17" using phantom_sizes [OF off phs(1)] phs(2) by simp
  ultimately have "?rs + sum_list (map mp_size phs) < 2 ^ 32" "ulong (?rs + sum_list (map mp_size phs)) \<le> n"
    using wf(2) fits by (simp_all add: ulong_add)
  then show ?thesis by (simp add: ulong_id)
qed

text \<open>
  C14: what a process that is not trusted sees of a directory. For a listing of less than two gigabytes whose entries
  lie inside what the file system returned, aligned and without overlap, in any of the nine layouts, the buffer handed
  on fits the caller's, and walking it gives every entry of the file system once, unchanged up to its link and its
  padding and in its order, with the entries of distinct phantoms that match the caller's pattern among them, as many
  as are counted as emitted. When the file system lists by name, so does the result: a phantom is not given away by its
  place. The sums of sizes that guard the merge are 32-bit; without the assumptions on the listing they can wrap.
\<close>

theorem phantom_listing_merged:
  assumes cls: "SarPhantomDirOffsets cls = Some off"
    and wf: "dir_wf off swapped 0" "length swapped < 2 ^ 31" "length swapped \<le> length out" "length out < 2 ^ 32"
    and r: "r = SarPhantomMergeInto upcase secret out swapped off dir match_mask ectx m"
  shows "length (mr_out r) = length out \<and> mr_used r \<le> length out \<and>
    (\<exists>is. set is \<subseteq> {i. i < SAR_PHANTOM_MAX_PER_DIR \<and> bit match_mask i} \<and> distinct is \<and> mr_emitted r = length is \<and>
       (let seen = dir_entries off (take (mr_used r) (mr_out r)) 0; real = dir_entries off swapped 0
        in seen \<in> shuffles real (map (phantom_entry_of secret off dir) is) \<and> (by_name upcase real \<longrightarrow> by_name upcase seen)))"
  using r
proof (cases rule: merge_into_cases)
  case copy
  then show ?thesis using wf(3) by (intro conjI exI [of _ "[]"]) (simp_all add: dir_entries_copy)
next
  case (merge d order phs s)
  have phs: "\<forall>p \<in> set phs. entry_wf off (mp_entry p) \<and> real_name off (mp_entry p) 0 = mp_name p \<and> length (mp_entry p) = mp_size p"
    using phantom_entry [OF cls] by (auto simp: merge(2))
  define "is" where "is = map ((!) order) (phantom_select upcase phs {})"
  note sel = merge_selected [OF merge(2) is_def]
  have order: "set is \<subseteq> {i. i < SAR_PHANTOM_MAX_PER_DIR \<and> bit match_mask i}" "distinct is" "length phs = length is"
    using merge_order_set [of match_mask d] sel(2,3,4) by (simp_all add: merge(1,2))
  have "length phs \<le> card {i. i < SAR_PHANTOM_MAX_PER_DIR \<and> bit match_mask i}"
    using card_mono [OF _ order(1)] distinct_card [OF order(2)] order(3) by simp
  also have "\<dots> \<le> card {..<SAR_PHANTOM_MAX_PER_DIR}" by (intro card_mono) auto
  finally have few: "length phs \<le> 32" by (simp add: SAR_PHANTOM_MAX_PER_DIR_def)
  have fits: "sum_list (map (length \<circ> snd) (dir_entries off swapped 0)) + sum_list (map mp_size phs) \<le> length out"
    using merge_fits [OF layouts [OF cls] wf(1,2) _ few merge(4)] phs by simp
  obtain l where l: "ms_last s = Some l" "put (l + do_next_entry off) (le_store 4 (0 :: u32)) (ms_out s) = ms_out s"
    "length (ms_out s) = length out" "ms_used s \<le> length out" "ms_emitted s = length phs"
    "dir_entries off (take (ms_used s) (ms_out s)) 0 = name_merge upcase (dir_entries off swapped 0) (map (phantom_entry_of secret off dir) is)"
    by (rule merge_loop_listing [OF layouts [OF cls] wf(1) real_entries_nonempty [OF merge(3)] phs fits wf(4) merge(5) sel(1) [symmetric]])
  have out: "mr_out r = ms_out s" using l(1,2) merge(8) by simp
  show ?thesis using l(3-6) order name_merge_shuffles name_merge_sorted [OF _ sel(5)]
    unfolding out merge(6,7) Let_def by (intro conjI exI [of _ "is"]) simp_all
qed

definition names_example :: bytes where
  "names_example = [16, 0, 0, 0, 0, 0, 0, 0, 2, 0, 0, 0, 97, 0, 0, 0, 0, 0, 0, 0, 0, 0, 0, 0, 2, 0, 0, 0, 98, 0]"

lemma names_example_read:
  "ulong_at names_example 0 = 16" "ulong_at names_example 8 = 2" "ulong_at names_example 16 = 0" "ulong_at names_example 24 = 2"
  "length names_example = 30"
  by code_simp+

lemma names_layout: "do_next_entry g_dir_offsets_names = 0" "do_name_length g_dir_offsets_names = 8" "do_base_record_size g_dir_offsets_names = 12"
  by (simp_all add: g_dir_offsets_names_def)

lemma names_example_wf: "dir_wf g_dir_offsets_names names_example 0"
proof -
  have "dir_wf g_dir_offsets_names names_example 16" by (subst dir_wf.simps) (simp add: names_example_read names_layout)
  then show ?thesis by (subst dir_wf.simps) (simp add: names_example_read names_layout)
qed

theorem phantom_listing_merged_witness:
  "\<exists>out used. used \<le> 200 \<and> length out = 200 \<and> length (dir_entries g_dir_offsets_names names_example 0) = 2 \<and>
     set (dir_entries g_dir_offsets_names names_example 0) \<subseteq> set (dir_entries g_dir_offsets_names (take used out) 0)"
proof -
  define r where "r = SarPhantomMergeInto (\<lambda>c. c) (replicate 32 7) (replicate 200 0) names_example g_dir_offsets_names (u16s ''d'') 7
    \<lparr>ec_emitted = False, ec_real_seen = 0, ec_pattern = None\<rparr> pm_idmap_init"
  have "length (dir_entries g_dir_offsets_names names_example 16) = 1" by (subst dir_entries.simps) (simp add: names_example_read names_layout)
  then have two: "length (dir_entries g_dir_offsets_names names_example 0) = 2"
    by (subst dir_entries.simps) (simp add: names_example_read names_layout)
  have "length names_example < 2 ^ 31" "length names_example \<le> length (replicate 200 (0 :: u8))" "length (replicate 200 (0 :: u8)) < 2 ^ 32"
    by (simp_all add: names_example_read)
  from phantom_listing_merged [of FileNamesInformation, OF SarPhantomDirOffsets.simps(4) names_example_wf this r_def]
  obtain ps where "length (mr_out r) = 200" "mr_used r \<le> 200"
    "dir_entries g_dir_offsets_names (take (mr_used r) (mr_out r)) 0 \<in> shuffles (dir_entries g_dir_offsets_names names_example 0) ps"
    by (auto simp: Let_def)
  with two set_shuffles [OF this(3)] show ?thesis by (intro exI [of _ "mr_out r"] exI [of _ "mr_used r"]) simp
qed

end
