(* ===== verification/Targets.thy ===== *)
theory Targets
  imports Phantom_Names
begin

text \<open>
  Which paths the driver leaves alone or guards (driver/operations.c and driver/capture.c): the system root, the places
  under it that belong to the operating system, the driver's own stores and the quarantine. The lemmas give these tests
  as prefix relations on folded paths.
\<close>

section \<open>Definitions\<close>

text \<open>
  The name of the system root, when the kernel gave one that fits 280 characters; a prefix test that folds case is the
  platform's, with its table an argument.
\<close>

definition SarOsAnchorInit :: "u16 list option \<Rightarrow> u16 list option" where
  "SarOsAnchorInit name =
     (case name of None \<Rightarrow> None | Some n \<Rightarrow> if n \<noteq> [] \<and> length n \<le> 280 then Some n else None)"

definition RtlPrefixUnicodeString :: "(u16 \<Rightarrow> u16) \<Rightarrow> u16 list \<Rightarrow> u16 list \<Rightarrow> bool" where
  "RtlPrefixUnicodeString upcase p s \<longleftrightarrow> length p \<le> length s \<and> map upcase p = map upcase (take (length p) s)"

fun SarWideCaselessPrefix :: "u16 list \<Rightarrow> u16 list \<Rightarrow> bool" where
  "SarWideCaselessPrefix s [] = True"
| "SarWideCaselessPrefix [] (b # p) = False"
| "SarWideCaselessPrefix (a # s) (b # p) = (lower a = lower b \<and> SarWideCaselessPrefix s p)"

definition exempt_subs :: "u16 list list" where
  "exempt_subs = map (\<lambda>parts. concat (map (\<lambda>s. BACKSLASH # u16s s) parts) @ [BACKSLASH])
     [[''system32'', ''config''],
      [''system32'', ''wbem'', ''repository''],
      [''system32'', ''winevt'', ''logs''],
      [''system32'', ''logfiles''],
      [''system32'', ''catroot2''],
      [''serviceprofiles''],
      [''softwaredistribution'', ''datastore''],
      [''inf'']]"

definition SarTargetExempt :: "(u16 \<Rightarrow> u16) \<Rightarrow> u16 list option \<Rightarrow> u16 list \<Rightarrow> bool" where
  "SarTargetExempt upcase sysroot name =
     (case sysroot of
        None \<Rightarrow> False
      | Some root \<Rightarrow>
          if \<not> RtlPrefixUnicodeString upcase root name then False
          else if length name \<le> length root then False
          else if name ! length root \<noteq> BACKSLASH then False
          else list_ex (SarWideCaselessPrefix (drop (length root) name)) exempt_subs)"

definition SarPathUnderSystemRoot :: "(u16 \<Rightarrow> u16) \<Rightarrow> u16 list option \<Rightarrow> u16 list \<Rightarrow> bool" where
  "SarPathUnderSystemRoot upcase sysroot name =
     (case sysroot of
        None \<Rightarrow> False
      | Some root \<Rightarrow>
          if \<not> RtlPrefixUnicodeString upcase root name then False
          else length name = length root \<or> name ! length root = BACKSLASH)"

fun SarWideCaselessComponent :: "u16 list \<Rightarrow> u16 list \<Rightarrow> bool" where
  "SarWideCaselessComponent s [] = (case s of [] \<Rightarrow> True | c # _ \<Rightarrow> c = BACKSLASH)"
| "SarWideCaselessComponent [] (b # p) = False"
| "SarWideCaselessComponent (a # s) (b # p) = (lower a = lower b \<and> SarWideCaselessComponent s p)"

definition drivers_store :: "u16 list" where
  "drivers_store = concat (map (\<lambda>s. BACKSLASH # u16s s) [''System32'', ''drivers'', ''SemanticsAr''])"

definition quarantine_store :: "u16 list" where
  "quarantine_store = BACKSLASH # u16s ''SemanticsArQuarantine''"

definition SarNameIsOwnStore :: "(u16 \<Rightarrow> u16) \<Rightarrow> u16 list option \<Rightarrow> u16 list \<Rightarrow> bool" where
  "SarNameIsOwnStore upcase sysroot name \<longleftrightarrow>
     (case sysroot of
        None \<Rightarrow> False
      | Some root \<Rightarrow> length name > length root \<and> RtlPrefixUnicodeString upcase root name \<and>
                     SarWideCaselessComponent (drop (length root) name) drivers_store) \<or>
     (case from_slash 3 name of
        None \<Rightarrow> False
      | Some rest \<Rightarrow> SarWideCaselessComponent rest quarantine_store)"

definition own_marker :: "u16 list" where "own_marker = u16s ''SemanticsAr''"

text \<open>
  A path of a record is a field of fixed length ended by a zero.
\<close>

definition path_chars :: "u16 list \<Rightarrow> u16 list" where "path_chars path = takeWhile (\<lambda>c. c \<noteq> 0) path"

definition SarCaptureProvenanceIsOwn :: "u16 list \<Rightarrow> bool" where
  "SarCaptureProvenanceIsOwn path =
     list_ex (\<lambda>i. slice path i (length own_marker) = own_marker) [0..<length (path_chars path)]"

definition SarCapturePathExempt :: "(u16 \<Rightarrow> u16) \<Rightarrow> u16 list option \<Rightarrow> u16 list \<Rightarrow> bool" where
  "SarCapturePathExempt upcase sysroot path \<longleftrightarrow>
     path_chars path = [] \<or> SarCaptureProvenanceIsOwn path \<or> SarTargetExempt upcase sysroot (path_chars path)"

text \<open>
  The path of a record from the name of a file: cut to 259 characters and padded with zeros; all zero without a name.
\<close>

definition SarCaptureResolveProvenance :: "u16 list option \<Rightarrow> u16 list" where
  "SarCaptureResolveProvenance name =
     (case name of
        None \<Rightarrow> replicate SEMANTICS_AR_PROVENANCE_PATH_MAX 0
      | Some n \<Rightarrow>
          let chars = take (SEMANTICS_AR_PROVENANCE_PATH_MAX - 1) n
          in chars @ replicate (SEMANTICS_AR_PROVENANCE_PATH_MAX - length chars) 0)"

section \<open>Properties\<close>

lemma caseless_prefix_iff: "SarWideCaselessPrefix s p \<longleftrightarrow> length p \<le> length s \<and> map lower p = map lower (take (length p) s)"
  by (induction s p rule: SarWideCaselessPrefix.induct) auto

lemma caseless_component_iff:
  "SarWideCaselessComponent s p \<longleftrightarrow> SarWideCaselessPrefix s p \<and> (length s = length p \<or> s ! length p = BACKSLASH)"
  by (induction s p rule: SarWideCaselessComponent.induct) (auto split: list.split)

lemma length_resolve_provenance [simp]: "length (SarCaptureResolveProvenance name) = SEMANTICS_AR_PROVENANCE_PATH_MAX"
  by (auto simp: SarCaptureResolveProvenance_def Let_def SEMANTICS_AR_PROVENANCE_PATH_MAX_def split: option.split)

lemma target_exempt_under_root: "SarTargetExempt upcase sysroot name \<Longrightarrow> SarPathUnderSystemRoot upcase sysroot name"
  by (auto simp: SarTargetExempt_def SarPathUnderSystemRoot_def split: option.splits if_splits)

text \<open>
  The driver's store is not among the places of the operating system it exempts, so the two classes are apart.
\<close>

lemma caseless_prefix_clash:
  assumes "SarWideCaselessPrefix s p" "SarWideCaselessPrefix s q" "i < length p" "i < length q"
  shows "lower (p ! i) = lower (q ! i)"
  using assms by (auto simp: caseless_prefix_iff list_eq_iff_nth_eq)

lemma own_path_exempt: "SarCaptureProvenanceIsOwn path \<Longrightarrow> SarCapturePathExempt upcase sysroot path"
  by (simp add: SarCapturePathExempt_def)

text \<open>
  The test for the driver's own files looks for the component's name anywhere in the path, so a document of that name is
  exempt too.
\<close>

lemma document_is_own:
  "SarCaptureProvenanceIsOwn (SarCaptureResolveProvenance (Some (dev_prefix @ u16s ''V1'' @ [BACKSLASH] @ u16s ''SemanticsAr.docx'')))"
  by code_simp

end
