(* ===== verification/Phantom_Callbacks.thy ===== *)
theory Phantom_Callbacks
  imports Phantom_Merge Capture_State Targets
begin

text \<open>
  Phantom files, the callbacks (driver/phantom.c): creation and activation, the interception of opens, directory
  queries, file information queries and the enumeration of the change journal. What the filter manager and the kernel
  tell about a request is an argument record of each callback; the state is the map of backing files, the context of an
  enumeration and the backing files themselves.
\<close>

section \<open>The component\<close>

record SAR_PHANTOM =
  ph_active :: bool
  ph_volume_secret :: bytes
  ph_image_notify_registered :: bool

definition SarPhantomCreate :: "bool \<Rightarrow> bool \<Rightarrow> pm_idmap \<Rightarrow> NTSTATUS \<times> SAR_PHANTOM option \<times> pm_idmap" where
  "SarPhantomCreate pool_ok replace_name m =
     (if \<not> pool_ok then (STATUS_INSUFFICIENT_RESOURCES, None, m)
      else if \<not> replace_name then (STATUS_NOT_SUPPORTED, None, pm_idmap_init)
      else (STATUS_SUCCESS, Some \<lparr>ph_active = False, ph_volume_secret = replicate 32 0, ph_image_notify_registered = False\<rparr>,
        pm_idmap_init))"

text \<open>
  The directory of the backing files is made if it can be; the component is active either way.
\<close>

definition SarPhantomActivate :: "SAR_PHANTOM \<Rightarrow> bytes \<Rightarrow> SAR_PHANTOM" where
  "SarPhantomActivate ph mac_key = ph\<lparr>ph_volume_secret := SarPhantomDeriveSecret mac_key, ph_active := True\<rparr>"

definition SarPhantomActive :: "SAR_PHANTOM option \<Rightarrow> bool" where
  "SarPhantomActive ph = (case ph of None \<Rightarrow> False | Some ph \<Rightarrow> ph_active ph)"

definition SarPhantomImageNotifyRegister :: "NTSTATUS \<Rightarrow> SAR_PHANTOM option \<Rightarrow> SAR_PHANTOM option" where
  "SarPhantomImageNotifyRegister s ph =
     map_option (\<lambda>ph. if NT_SUCCESS s then ph\<lparr>ph_image_notify_registered := True\<rparr> else ph) ph"

definition SarPhantomImageNotifyUnregister :: "SAR_PHANTOM option \<Rightarrow> SAR_PHANTOM option" where
  "SarPhantomImageNotifyUnregister ph =
     map_option (\<lambda>ph. if ph_image_notify_registered ph then ph\<lparr>ph_image_notify_registered := False\<rparr> else ph) ph"

definition SarPhantomIsTrusted :: "SAR_STATE \<Rightarrow> HANDLE \<Rightarrow> bool" where
  "SarPhantomIsTrusted st pid \<longleftrightarrow> SarStateIdentityLookup st pid = SAR_IDSTATE_EXEMPT"

text \<open>
  The process of a request: that of its thread, or the current one.
\<close>

definition SarPhantomCurrentPid :: "HANDLE option \<Rightarrow> HANDLE \<Rightarrow> HANDLE" where
  "SarPhantomCurrentPid thread_pid current_pid = (case thread_pid of None \<Rightarrow> current_pid | Some pid \<Rightarrow> pid)"

section \<open>Opens\<close>

definition FILE_SUPERSEDE :: u32 where "FILE_SUPERSEDE = 0"
definition FILE_CREATE :: u32 where "FILE_CREATE = 2"
definition FILE_OVERWRITE :: u32 where "FILE_OVERWRITE = 4"
definition FILE_OVERWRITE_IF :: u32 where "FILE_OVERWRITE_IF = 5"

definition create_disposition :: "u32 \<Rightarrow> u32" where
  "create_disposition options = drop_bit 24 options AND 0xFF"

text \<open>
  What a request to open tells: the mode and process of the caller, the options, the name in the file object and whether
  it is relative, whether the file is named by its number, the request level, the parsed name, and what the volume and
  the file system answer. The result of the callback: the request goes on, is completed with a status, or is sent to
  another file.
\<close>

record create_env =
  pe_kernel_mode :: bool
  pe_process :: PEPROCESS
  pe_thread_pid :: "HANDLE option"
  pe_current_pid :: HANDLE
  pe_options :: u32
  pe_file_name :: "u16 list option"
  pe_related :: bool
  pe_by_file_id :: bool
  pe_passive :: bool
  pe_target_directory :: bool
  pe_name_info :: "(u16 list \<times> u16 list) option"
  pe_upcase :: "u16 \<Rightarrow> u16"
  pe_volume :: "u16 list option"
  pe_backing :: backing_env
  pe_backing_frn :: "u16 list \<Rightarrow> u64 option"

datatype create_result = Create_Pass | Create_Complete NTSTATUS | Create_Reparse bytes

definition SarPhantomResolveBackingFrn :: "(u16 list \<Rightarrow> u64 option) \<Rightarrow> u16 list \<Rightarrow> u64 option" where
  "SarPhantomResolveBackingFrn query path = query path"

definition precreate_blocked :: "create_env \<Rightarrow> SAR_CAPTURE_CTX option \<Rightarrow> bool" where
  "precreate_blocked env capture \<longleftrightarrow>
     \<not> pe_kernel_mode env \<and> SarCaptureOriginatorBlocked capture (pe_process env) \<and>
     create_disposition (pe_options env) \<in> {FILE_SUPERSEDE, FILE_OVERWRITE, FILE_OVERWRITE_IF}"

text \<open>
  The phantom a request names by its file number, if it is a known one.
\<close>

definition precreate_by_id :: "create_env \<Rightarrow> pm_idmap \<Rightarrow> u16 list \<Rightarrow> SAR_PM_IDENT option" where
  "precreate_by_id env m name =
     (if pe_by_file_id env \<and> length (path_bytes name) \<ge> 8 \<and> pe_passive env then
        let frn = le_load (take 8 (path_bytes name)) :: u64
        in if SarPhantomFrnInRange frn then SarPmIdMapLookupByRef frn m else None
      else None)"

definition precreate_open_id ::
  "create_env \<Rightarrow> bool \<Rightarrow> bytes \<Rightarrow> SAR_PM_IDENT \<Rightarrow> backing_files \<Rightarrow> create_result \<times> backing_files" where
  "precreate_open_id env replace_name secret ident files =
     (let path = SarPhantomBuildBackingPath secret (pi_index ident) (pi_dir ident);
          files = SarPhantomMaterializeBacking (pe_backing env) files path (pi_name ident) secret (pi_dir ident) (pi_index ident);
          not_found = (Create_Complete STATUS_OBJECT_NAME_NOT_FOUND, files)
      in if \<not> replace_name then not_found
         else case SarPhantomResolveBackingFrn (pe_backing_frn env) path of
           None \<Rightarrow> not_found
         | Some frn \<Rightarrow>
             (case pe_volume env of
                None \<Rightarrow> not_found
              | Some vol \<Rightarrow>
                  if 2 * length vol + 2 + 8 \<le> 160
                  then (Create_Reparse (path_bytes vol @ [0x5C, 0] @ le_store 8 frn), files) else not_found))"

definition precreate_match :: "create_env \<Rightarrow> bytes \<Rightarrow> u16 list \<Rightarrow> (nat \<times> u16 list \<times> u16 list) option" where
  "precreate_match env secret name =
     (if pe_target_directory env \<or> \<not> SarPhantomExtInPalette name then None
      else case pe_name_info env of
        None \<Rightarrow> None
      | Some (parent, final) \<Rightarrow>
          map_option (\<lambda>i. (i, parent, final)) (SarPhantomMatchName (pe_upcase env) secret final parent))"

definition precreate_open_name ::
  "create_env \<Rightarrow> bool \<Rightarrow> bytes \<Rightarrow> nat \<Rightarrow> u16 list \<Rightarrow> u16 list \<Rightarrow> pm_idmap \<Rightarrow> backing_files \<Rightarrow> create_result \<times> pm_idmap \<times> backing_files" where
  "precreate_open_name env replace_name secret i parent final m files =
     (let path = SarPhantomBuildBackingPath secret (word_of_nat i) parent;
          files = SarPhantomMaterializeBacking (pe_backing env) files path final secret parent (word_of_nat i);
          m = note_phantom secret parent final (word_of_nat i) m
      in (if \<not> replace_name then Create_Complete STATUS_OBJECT_NAME_NOT_FOUND else Create_Reparse (path_bytes path), m, files))"

definition SarPhantomPreCreate ::
  "create_env \<Rightarrow> SAR_CAPTURE_CTX option \<Rightarrow> SAR_STATE \<Rightarrow> bool \<Rightarrow> SAR_PHANTOM option \<Rightarrow> pm_idmap \<Rightarrow> backing_files \<Rightarrow>
   create_result \<times> pm_idmap \<times> backing_files" where
  "SarPhantomPreCreate env capture st replace_name pho m files =
     (if precreate_blocked env capture then (Create_Complete STATUS_ACCESS_DENIED, m, files)
      else if \<not> SarPhantomActive pho then (Create_Pass, m, files)
      else if pe_kernel_mode env then (Create_Pass, m, files)
      else
        (case pe_file_name env of
           None \<Rightarrow> (Create_Pass, m, files)
         | Some name \<Rightarrow>
             let trusted = SarPhantomIsTrusted st (SarPhantomCurrentPid (pe_thread_pid env) (pe_current_pid env));
                 secret = ph_volume_secret (the pho)
             in if name = [] \<and> \<not> pe_related env then
                  (if \<not> trusted then (Create_Complete STATUS_ACCESS_DENIED, m, files) else (Create_Pass, m, files))
                else
                  (case precreate_by_id env m name of
                     Some ident \<Rightarrow>
                       if trusted then (Create_Complete STATUS_OBJECT_NAME_NOT_FOUND, m, files)
                       else (case precreate_open_id env replace_name secret ident files of (r, files) \<Rightarrow> (r, m, files))
                   | None \<Rightarrow>
                       (case precreate_match env secret name of
                          None \<Rightarrow> (Create_Pass, m, files)
                        | Some (i, parent, final) \<Rightarrow>
                            if trusted then (Create_Complete STATUS_OBJECT_NAME_NOT_FOUND, m, files)
                            else if create_disposition (pe_options env) = FILE_CREATE then (Create_Pass, m, files)
                            else precreate_open_name env replace_name secret i parent final m files))))"

section \<open>Directory queries\<close>

text \<open>
  The pattern of an enumeration is folded and must fit 260 characters; \<open>None\<close> is an enumeration without one.
\<close>

definition SarPhantomCapturePattern ::
  "(u16 \<Rightarrow> u16) \<Rightarrow> u16 list option \<Rightarrow> SAR_PHANTOM_ENUM_CONTEXT \<Rightarrow> SAR_PHANTOM_ENUM_CONTEXT" where
  "SarPhantomCapturePattern upcase fn ectx =
     (case fn of
        None \<Rightarrow> ectx
      | Some name \<Rightarrow>
          if name = [] then ectx
          else if length name \<le> 260 then ectx\<lparr>ec_pattern := Some (map upcase name)\<rparr> else ectx)"

text \<open>
  Whether a name matches a pattern is the platform's to say.
\<close>

definition SarPhantomComputeMask :: "(u16 list \<Rightarrow> u16 list \<Rightarrow> bool) \<Rightarrow> bytes \<Rightarrow> u16 list \<Rightarrow> SAR_PHANTOM_ENUM_CONTEXT \<Rightarrow> u32" where
  "SarPhantomComputeMask in_expression secret dir ectx =
     (case ec_pattern ectx of
        None \<Rightarrow> push_bit SAR_PHANTOM_MAX_PER_DIR 1 - 1
      | Some pattern \<Rightarrow>
          fold (\<lambda>i mask. if in_expression pattern (SarPhantomNameForIndex secret dir (word_of_nat i))
                         then mask OR push_bit i 1 else mask) [0..<SAR_PHANTOM_MAX_PER_DIR] 0)"

record SAR_PHANTOM_DIR_CTX =
  dc_info_class :: FILE_INFORMATION_CLASS
  dc_name :: "u16 list"
  dc_match_mask :: u32
  dc_buf_length :: nat

record dir_env =
  de_kernel_mode :: bool
  de_query_directory :: bool
  de_single_entry :: bool
  de_passive :: bool
  de_info_class :: FILE_INFORMATION_CLASS
  de_thread_pid :: "HANDLE option"
  de_current_pid :: HANDLE
  de_name_info :: "u16 list option"
  de_context :: "SAR_PHANTOM_ENUM_CONTEXT option"
  de_context_alloc :: bool
  de_context_made :: bool
  de_context_race :: "SAR_PHANTOM_ENUM_CONTEXT option"
  de_restart :: bool
  de_pattern :: "u16 list option"
  de_length :: nat
  de_upcase :: "u16 \<Rightarrow> u16"
  de_in_expression :: "u16 list \<Rightarrow> u16 list \<Rightarrow> bool"
  de_buffer :: bool
  de_mdl :: bool
  de_ctx :: bool

text \<open>
  The context of the enumeration: the one the handle has; else, if one can be allocated, the new one, unless another
  thread attached one first or it cannot be attached.
\<close>

definition predir_context :: "dir_env \<Rightarrow> SAR_PHANTOM_ENUM_CONTEXT option" where
  "predir_context env =
     (case de_context env of
        Some ectx \<Rightarrow> Some ectx
      | None \<Rightarrow>
          if \<not> de_context_alloc env then None
          else
            (case de_context_race env of
               Some old \<Rightarrow> Some old
             | None \<Rightarrow>
                 if de_context_made env
                 then Some (SarPhantomCapturePattern (de_upcase env) (de_pattern env) \<lparr>ec_emitted = False, ec_real_seen = 0, ec_pattern = None\<rparr>)
                 else None))"

definition predir_restart :: "dir_env \<Rightarrow> SAR_PHANTOM_ENUM_CONTEXT \<Rightarrow> SAR_PHANTOM_ENUM_CONTEXT" where
  "predir_restart env ectx =
     (if de_restart env then
        let ectx = ectx\<lparr>ec_emitted := False, ec_real_seen := 0\<rparr>
        in if (case de_pattern env of None \<Rightarrow> False | Some p \<Rightarrow> p \<noteq> [])
           then SarPhantomCapturePattern (de_upcase env) (de_pattern env) (ectx\<lparr>ec_pattern := None\<rparr>) else ectx
      else ectx)"

text \<open>
  The pre-operation callback: \<open>None\<close> lets the query go on untouched; otherwise the query runs into a buffer of the driver's
  and the completion merges. The context of the enumeration is returned as it is left on the handle.
\<close>

definition SarPhantomPreDirControl ::
  "dir_env \<Rightarrow> u16 list option \<Rightarrow> SAR_STATE \<Rightarrow> SAR_PHANTOM option \<Rightarrow> SAR_PHANTOM_DIR_CTX option \<times> SAR_PHANTOM_ENUM_CONTEXT option" where
  "SarPhantomPreDirControl env sysroot st pho =
     (if \<not> SarPhantomActive pho \<or> de_kernel_mode env \<or> \<not> de_query_directory env \<or> de_single_entry env \<or> \<not> de_passive env
         \<or> SarPhantomDirOffsets (de_info_class env) = None
         \<or> SarPhantomIsTrusted st (SarPhantomCurrentPid (de_thread_pid env) (de_current_pid env))
      then (None, de_context env)
      else
        (case de_name_info env of
           None \<Rightarrow> (None, de_context env)
         | Some name \<Rightarrow>
             if SarPathUnderSystemRoot (de_upcase env) sysroot name then (None, de_context env)
             else
               (case predir_context env of
                  None \<Rightarrow> (None, None)
                | Some ectx \<Rightarrow>
                    let ectx = predir_restart env ectx
                    in if ec_emitted ectx \<or> de_length env = 0 then (None, Some ectx)
                       else
                         let match_mask = SarPhantomComputeMask (de_in_expression env) (ph_volume_secret (the pho)) name ectx
                         in if match_mask = 0 \<or> \<not> de_buffer env \<or> \<not> de_mdl env \<or> \<not> de_ctx env then (None, Some ectx)
                            else (Some \<lparr>dc_info_class = de_info_class env, dc_name = name, dc_match_mask = match_mask,
                                        dc_buf_length = de_length env\<rparr>, Some ectx))))"

text \<open>
  The completion: the file system's answer is its status and the bytes it put into the driver's buffer. The result is the
  status and the bytes and length the caller gets; \<open>None\<close> for the bytes means the caller's buffer is not written. When
  the caller's buffer cannot be reached, now or on a thread where it is safe to, the reason is the status.
\<close>

record dir_answer =
  da_status :: NTSTATUS
  da_data :: bytes
  da_user :: bytes
  da_map :: NTSTATUS
  da_draining :: bool

definition SarPhantomDeliver ::
  "(u16 \<Rightarrow> u16) \<Rightarrow> bytes \<Rightarrow> dir_answer \<Rightarrow> SAR_PHANTOM_DIR_CTX \<Rightarrow> SAR_PHANTOM_ENUM_CONTEXT \<Rightarrow> pm_idmap \<Rightarrow>
   bytes \<times> nat \<times> SAR_PHANTOM_ENUM_CONTEXT \<times> pm_idmap" where
  "SarPhantomDeliver upcase secret ans ctx ectx m =
     (case SarPhantomDirOffsets (dc_info_class ctx) of
        None \<Rightarrow> (put 0 (da_data ans) (da_user ans), length (da_data ans), ectx, m)
      | Some off \<Rightarrow>
          if length (da_data ans) > dc_buf_length ctx then (put 0 (da_data ans) (da_user ans), length (da_data ans), ectx, m)
          else
            let r = SarPhantomMergeInto upcase secret (da_user ans) (da_data ans) off (dc_name ctx) (dc_match_mask ctx) ectx m
            in (mr_out r, mr_used r, if mr_emitted r > 0 then (mr_ectx r)\<lparr>ec_emitted := True\<rparr> else mr_ectx r, mr_idmap r))"

definition SarPhantomPostDirControl ::
  "(u16 \<Rightarrow> u16) \<Rightarrow> bytes \<Rightarrow> dir_answer \<Rightarrow> SAR_PHANTOM_DIR_CTX option \<Rightarrow> SAR_PHANTOM_ENUM_CONTEXT \<Rightarrow> pm_idmap \<Rightarrow>
   NTSTATUS \<times> (bytes \<times> nat) option \<times> SAR_PHANTOM_ENUM_CONTEXT \<times> pm_idmap" where
  "SarPhantomPostDirControl upcase secret ans ctx ectx m =
     (case ctx of
        None \<Rightarrow> (da_status ans, None, ectx, m)
      | Some ctx \<Rightarrow>
          if da_draining ans \<or> \<not> NT_SUCCESS (da_status ans) \<or> da_data ans = [] \<or> length (da_data ans) > dc_buf_length ctx
          then (da_status ans, None, ectx, m)
          else if \<not> NT_SUCCESS (da_map ans) then (da_map ans, Some (da_user ans, 0), ectx, m)
          else
            (case SarPhantomDeliver upcase secret ans ctx ectx m of
               (out, used, ectx, m) \<Rightarrow> (STATUS_SUCCESS, Some (out, used), ectx, m)))"

section \<open>File information\<close>

record query_env =
  qe_draining :: bool
  qe_kernel_mode :: bool
  qe_status :: NTSTATUS
  qe_object_name :: "u16 list option"
  qe_thread_pid :: "HANDLE option"
  qe_current_pid :: HANDLE
  qe_name_info :: "(u16 list \<times> u16 list) option"
  qe_info_class :: FILE_INFORMATION_CLASS
  qe_buffer :: "bytes option"
  qe_length :: u32

text \<open>
  The answer of the file system about a backing file, rewritten to that of the phantom: its name, or its file number.
\<close>

definition query_rewrite :: "query_env \<Rightarrow> SAR_PM_IDENT \<Rightarrow> bytes option \<times> nat \<Rightarrow> bytes option \<times> nat" where
  "query_rewrite env ident = (\<lambda>(buffer, information).
     case buffer of
       None \<Rightarrow> (buffer, information)
     | Some b \<Rightarrow>
         if qe_info_class env = FileNameInformation \<or> qe_info_class env = FileNormalizedNameInformation then
           let full = path_bytes (pi_dir ident) @ path_bytes (pi_name ident);
               needed = word_of_nat (length full) :: u32;
               buf_cap = qe_length env - 4
           in if needed \<le> buf_cap then (Some (put 0 (le_store 4 needed) (put 4 full b)), 4 + length full) else (buffer, information)
         else if qe_info_class env = FileInternalInformation then (Some (put 0 (le_store 8 (pi_frn ident)) b), information)
         else (buffer, information))"

definition SarPhantomPostQueryInfo ::
  "query_env \<Rightarrow> SAR_STATE \<Rightarrow> SAR_PHANTOM option \<Rightarrow> pm_idmap \<Rightarrow> nat \<Rightarrow> bytes option \<times> nat" where
  "SarPhantomPostQueryInfo env st pho m information =
     (if qe_draining env \<or> \<not> SarPhantomActive pho \<or> qe_kernel_mode env \<or> \<not> NT_SUCCESS (qe_status env)
      then (qe_buffer env, information)
      else
        (case qe_object_name env of
           None \<Rightarrow> (qe_buffer env, information)
         | Some object_name \<Rightarrow>
             if \<not> SarPhantomIsPhantomPath object_name \<or>
                SarPhantomIsTrusted st (SarPhantomCurrentPid (qe_thread_pid env) (qe_current_pid env))
             then (qe_buffer env, information)
             else
               (case qe_name_info env of
                  None \<Rightarrow> (qe_buffer env, information)
                | Some (name, final) \<Rightarrow>
                    if \<not> SarPhantomIsPhantomPath name then (qe_buffer env, information)
                    else
                      (case SarPmIdMapLookup final m of
                         None \<Rightarrow> (qe_buffer env, information)
                       | Some ident \<Rightarrow> query_rewrite env ident (qe_buffer env, information)))))"

section \<open>The change journal\<close>

definition USN_NAME :: nat where "USN_NAME = 60"

definition u16_at :: "bytes \<Rightarrow> nat \<Rightarrow> u16" where "u16_at b i = le_load (slice b i 2)"
definition frn_at :: "bytes \<Rightarrow> nat \<Rightarrow> u64" where "frn_at b i = le_load (slice b i 8)"

text \<open>
  The parents the records name, at most eight, with the number of records of each.
\<close>

definition count_parent :: "u64 \<Rightarrow> (u64 \<times> u32) list \<Rightarrow> (u64 \<times> u32) list" where
  "count_parent par ps =
     (if list_ex (\<lambda>(q, c). q = par) ps then map (\<lambda>(q, c). if q = par then (q, c + 1) else (q, c)) ps
      else if length ps < 8 then ps @ [(par, 1)] else ps)"

function usn_parents :: "bytes \<Rightarrow> nat \<Rightarrow> (u64 \<times> u32) list \<Rightarrow> (u64 \<times> u32) list" where
  "usn_parents buf p ps =
     (if p + USN_NAME \<le> length buf then
        let len = ulong_at buf p
        in if u16_at buf (p + 4) \<noteq> 2 \<or> len < USN_NAME \<or> p + len > length buf then ps
           else
             let par = frn_at buf (p + 16)
             in usn_parents buf (p + len) (if SarPhantomFrnInRange par then ps else count_parent par ps)
      else ps)"
  by pat_completeness auto

termination usn_parents
  by (relation "measure (\<lambda>(buf, p, ps). length buf - p)") (auto simp: USN_NAME_def)

definition SarPhantomResolveDir :: "(u64 \<Rightarrow> u16 list option) \<Rightarrow> u64 \<Rightarrow> u16 list option" where
  "SarPhantomResolveDir name_of frn =
     (case name_of frn of None \<Rightarrow> None | Some n \<Rightarrow> if n \<noteq> [] \<and> length n \<le> 283 then Some n else None)"

definition usn_record :: "bytes \<Rightarrow> u16 list \<Rightarrow> u64 \<Rightarrow> nat \<Rightarrow> bytes" where
  "usn_record secret dir parent k =
     (let name = SarPhantomNameForIndex secret dir (word_of_nat k);
          len = round8 (USN_NAME + 2 * length name)
      in put 60 (path_bytes name)
         (put 58 (le_store 2 (word_of_nat USN_NAME :: u16))
         (put 56 (le_store 2 (word_of_nat (2 * length name) :: u16))
         (put 52 (le_store 4 FILE_ATTRIBUTE_ARCHIVE)
         (put 40 (le_store 4 (0x80000001 :: u32))
         (put 16 (le_store 8 parent)
         (put 8 (le_store 8 (SarPhantomFrn secret dir (word_of_nat k)))
         (put 4 (le_store 2 (2 :: u16))
         (put 0 (le_store 4 (word_of_nat len :: u32)) (replicate len 0))))))))))"

record usn_state =
  us_buf :: bytes
  us_used :: nat
  us_idmap :: pm_idmap

fun usn_phantoms :: "bytes \<Rightarrow> u16 list \<Rightarrow> u64 \<Rightarrow> nat list \<Rightarrow> usn_state \<Rightarrow> usn_state" where
  "usn_phantoms secret dir parent [] s = s"
| "usn_phantoms secret dir parent (k # ks) s =
     (let rec = usn_record secret dir parent k
      in if us_used s + length rec > length (us_buf s) then s
         else usn_phantoms secret dir parent ks
           (s\<lparr>us_buf := put (us_used s) rec (us_buf s), us_used := us_used s + length rec,
              us_idmap := note_phantom secret dir (SarPhantomNameForIndex secret dir (word_of_nat k)) (word_of_nat k) (us_idmap s)\<rparr>))"

definition usn_parent :: "(u64 \<Rightarrow> u16 list option) \<Rightarrow> bytes \<Rightarrow> u64 \<times> u32 \<Rightarrow> usn_state \<Rightarrow> usn_state" where
  "usn_parent name_of secret = (\<lambda>(parent, n) s.
     case SarPhantomResolveDir name_of parent of
       None \<Rightarrow> s
     | Some dir \<Rightarrow>
         if SarPhantomIsPhantomPath dir then s
         else usn_phantoms secret dir parent [0..<SarPhantomCountForDir n] s)"

text \<open>
  The buffer is the caller's, of which the file system has used the first bytes: a cursor and the records.
\<close>

definition SarPhantomInjectUsn :: "(u64 \<Rightarrow> u16 list option) \<Rightarrow> bytes \<Rightarrow> bytes \<Rightarrow> nat \<Rightarrow> pm_idmap \<Rightarrow> usn_state" where
  "SarPhantomInjectUsn name_of secret buf used m =
     (let s = \<lparr>us_buf = buf, us_used = used, us_idmap = m\<rparr>
      in if used \<le> 8 \<or> used > length buf then s
         else fold (usn_parent name_of secret) (usn_parents (take used buf) 8 []) s)"

record fsctl_env =
  fe_draining :: bool
  fe_status :: NTSTATUS
  fe_kernel_mode :: bool
  fe_enum_usn :: bool
  fe_thread_pid :: "HANDLE option"
  fe_current_pid :: HANDLE
  fe_mapped :: bool
  fe_name_of :: "u64 \<Rightarrow> u16 list option"

definition SarPhantomPostFsControl ::
  "fsctl_env \<Rightarrow> SAR_STATE \<Rightarrow> SAR_PHANTOM option \<Rightarrow> bytes \<Rightarrow> nat \<Rightarrow> pm_idmap \<Rightarrow> usn_state" where
  "SarPhantomPostFsControl env st pho buf used m =
     (if fe_draining env \<or> \<not> SarPhantomActive pho \<or> \<not> NT_SUCCESS (fe_status env) \<or> fe_kernel_mode env \<or>
         \<not> fe_enum_usn env \<or> used \<le> 8 \<or>
         SarPhantomIsTrusted st (SarPhantomCurrentPid (fe_thread_pid env) (fe_current_pid env)) \<or> \<not> fe_mapped env
      then \<lparr>us_buf = buf, us_used = used, us_idmap = m\<rparr>
      else SarPhantomInjectUsn (fe_name_of env) (ph_volume_secret (the pho)) buf used m)"

section \<open>The journal keeps its records\<close>

lemma usn_record_fits: "USN_NAME \<le> length (usn_record secret dir parent k)"
  using round8_bounds(1) [of "USN_NAME + 2 * length (SarPhantomNameForIndex secret dir (word_of_nat k))"]
  by (simp add: usn_record_def Let_def USN_NAME_def)

lemma take_put: "n \<le> i \<Longrightarrow> i + length v \<le> length b \<Longrightarrow> take n (put i v b) = take n b"
  by (simp add: put_def splice_at_def)

definition usn_kept :: "usn_state \<Rightarrow> usn_state \<Rightarrow> bool" where
  "usn_kept s s' \<longleftrightarrow> length (us_buf s') = length (us_buf s) \<and> us_used s \<le> us_used s' \<and> us_used s' \<le> length (us_buf s) \<and>
     take (us_used s) (us_buf s') = take (us_used s) (us_buf s)"

lemma usn_kept_refl: "us_used s \<le> length (us_buf s) \<Longrightarrow> usn_kept s s"
  by (simp add: usn_kept_def)

lemma usn_kept_trans: "usn_kept s s' \<Longrightarrow> usn_kept s' s'' \<Longrightarrow> usn_kept s s''"
proof -
  assume a: "usn_kept s s'" and b: "usn_kept s' s''"
  then have le: "us_used s \<le> us_used s'" by (simp add: usn_kept_def)
  have "take (us_used s) (us_buf s'') = take (us_used s) (take (us_used s') (us_buf s''))" using le by (simp add: min_def)
  also have "\<dots> = take (us_used s) (take (us_used s') (us_buf s'))" using b by (simp add: usn_kept_def)
  also have "\<dots> = take (us_used s) (us_buf s)" using a le by (simp add: usn_kept_def min_def)
  finally show ?thesis using a b by (simp add: usn_kept_def)
qed

lemma usn_phantoms_kept: "us_used s \<le> length (us_buf s) \<Longrightarrow> usn_kept s (usn_phantoms secret dir parent ks s)"
proof (induction secret dir parent ks s rule: usn_phantoms.induct)
  case (2 secret dir parent k ks s)
  let ?rec = "usn_record secret dir parent k"
  show ?case
  proof (cases "us_used s + length ?rec > length (us_buf s)")
    case True
    then show ?thesis using "2.prems" by (simp add: usn_kept_def)
  next
    case False
    let ?s = "s\<lparr>us_buf := put (us_used s) ?rec (us_buf s), us_used := us_used s + length ?rec,
      us_idmap := note_phantom secret dir (SarPhantomNameForIndex secret dir (word_of_nat k)) (word_of_nat k) (us_idmap s)\<rparr>"
    have "usn_kept s ?s" using False by (simp add: usn_kept_def take_put)
    moreover have "usn_kept ?s (usn_phantoms secret dir parent ks ?s)" using False by (intro "2.IH" [OF refl]) simp_all
    ultimately show ?thesis using usn_kept_trans False by (simp add: Let_def)
  qed
qed (simp add: usn_kept_def)

lemma usn_inject_kept:
  assumes "used \<le> length buf"
  shows "usn_kept \<lparr>us_buf = buf, us_used = used, us_idmap = m\<rparr> (SarPhantomInjectUsn name_of secret buf used m)"
proof -
  have step: "usn_kept s (usn_parent name_of secret pn s)" if "us_used s \<le> length (us_buf s)" for pn s
    by (cases pn) (simp add: usn_parent_def usn_phantoms_kept that usn_kept_refl split: option.split)
  have "usn_kept s (fold (usn_parent name_of secret) ps s)" if "us_used s \<le> length (us_buf s)" for ps s
    using that
  proof (induction ps arbitrary: s)
    case (Cons p ps)
    have p: "usn_kept s (usn_parent name_of secret p s)" by (rule step [OF Cons.prems])
    then have "us_used (usn_parent name_of secret p s) \<le> length (us_buf (usn_parent name_of secret p s))" by (simp add: usn_kept_def)
    from usn_kept_trans [OF p Cons.IH [OF this]] show ?case by simp
  qed (simp add: usn_kept_refl)
  then show ?thesis using assms by (simp add: SarPhantomInjectUsn_def Let_def usn_kept_refl)
qed

section \<open>A listed phantom\<close>

lemma find_update: "find P xs = None \<Longrightarrow> i < length xs \<Longrightarrow> P y \<Longrightarrow> find P (xs[i := y]) = Some y"
proof (induction xs arbitrary: i)
  case (Cons x xs)
  then show ?case by (cases i) (auto split: if_splits)
qed simp

lemma note_phantom_eq:
  "\<exists>hex. length hex = 32 \<and> SarPhantomBuildBackingPath secret index dir = backing_prefix @ hex \<and>
     note_phantom secret dir name index m = SarPmIdMapInsert hex dir name index (SarPhantomFrn secret dir index) m"
proof -
  obtain hex where "SarPhantomBuildBackingPath secret index dir = backing_prefix @ hex" "length hex = 32"
    using backing_path_form by blast
  then show ?thesis by (intro exI [of _ hex]) (simp add: note_phantom_def)
qed

text \<open>
  The number a listing shows for a phantom is known to the driver from then on.
\<close>

lemma note_phantom_found:
  assumes "length dir \<le> 284" "length name \<le> SAR_PHANTOM_NAME_CHARS" "length (pm_slots m) = SAR_PM_IDMAP_SLOTS"
    "SarPmIdMapLookupByRef (SarPhantomFrn secret dir index) m = None"
  shows "\<exists>ident. SarPmIdMapLookupByRef (SarPhantomFrn secret dir index) (note_phantom secret dir name index m) = Some ident \<and>
    pi_dir ident = dir \<and> pi_name ident = name \<and> pi_index ident = index"
proof -
  let ?P = "\<lambda>e. case e of None \<Rightarrow> False | Some e \<Rightarrow> pi_frn e = SarPhantomFrn secret dir index"
  obtain hex where hex: "length hex = 32" "note_phantom secret dir name index m = SarPmIdMapInsert hex dir name index (SarPhantomFrn secret dir index) m"
    using note_phantom_eq by blast
  have none: "find ?P (pm_slots m) = None"
    using assms(4) by (auto simp: SarPmIdMapLookupByRef_def find_Some_iff split: option.splits)
  have "unat (pm_next m) mod SAR_PM_IDMAP_SLOTS < length (pm_slots m)" by (simp add: assms(3) SAR_PM_IDMAP_SLOTS_def)
  from find_update [OF none this, of "Some \<lparr>pi_backhex = hex, pi_dir = dir, pi_name = name, pi_index = index, pi_frn = SarPhantomFrn secret dir index\<rparr>"]
  show ?thesis using assms(1,2) hex by (simp add: SarPmIdMapLookupByRef_def SarPmIdMapInsert_def)
qed

section \<open>Properties\<close>

text \<open>
  The two spellings of a directory: a listing names it in full, with a backslash at the end for the root of the volume
  only; an open reports the parent without the volume and with a backslash at the end.
\<close>

definition dir_spellings :: "u16 list \<Rightarrow> u16 list \<Rightarrow> bool" where
  "dir_spellings listed parent \<longleftrightarrow>
     (\<exists>v d. volume_name v \<and>
        (listed = v @ [BACKSLASH] \<and> parent = [BACKSLASH] \<or>
         listed = v @ BACKSLASH # d \<and> parent = BACKSLASH # d @ [BACKSLASH] \<and> last (BACKSLASH # d) \<noteq> BACKSLASH))"

lemma dir_spellings_canon:
  assumes "dir_spellings listed parent" "\<not> under_device parent"
  shows "SarPhantomCanonDir listed = SarPhantomCanonDir parent"
  using assms canon_dir_spellings canon_dir_root unfolding dir_spellings_def by blast


definition create_example :: "u16 list \<Rightarrow> create_env" where
  "create_example name = \<lparr>pe_kernel_mode = False, pe_process = 1, pe_thread_pid = None, pe_current_pid = 4, pe_options = 0x01000000,
     pe_file_name = Some name, pe_related = False, pe_by_file_id = False, pe_passive = True, pe_target_directory = False,
     pe_name_info = Some (BACKSLASH # u16s ''docs'' @ [BACKSLASH], name), pe_upcase = (\<lambda>c. c), pe_volume = None,
     pe_backing = \<lparr>be_open = STATUS_OBJECT_NAME_NOT_FOUND, be_pool = True, be_create = STATUS_SUCCESS, be_write = STATUS_SUCCESS,
       be_times = STATUS_SUCCESS\<rparr>, pe_backing_frn = (\<lambda>_. None)\<rparr>"

definition phantom_example :: SAR_PHANTOM where
  "phantom_example = SarPhantomActivate \<lparr>ph_active = False, ph_volume_secret = replicate 32 0, ph_image_notify_registered = False\<rparr> (replicate 32 5)"


section \<open>The name a phantom reports\<close>

text \<open>
  The listing notes the directory without a backslash at its end, and the first note of a backing file is the one that is
  found, also after the file was opened. The name of the opened phantom is then reported as the directory and the name
  with nothing between them.
\<close>

lemma listed_name_has_no_separator:
  assumes canon: "SarPhantomCanonDir listed = SarPhantomCanonDir parent" and len: "length listed \<le> 284" "length name \<le> SAR_PHANTOM_NAME_CHARS"
    and "qe_info_class env = FileNameInformation" "word_of_nat (2 * length listed + 2 * length name) \<le> qe_length env - 4"
  shows "\<exists>hex ident. SarPhantomBuildBackingPath secret index parent = backing_prefix @ hex \<and>
    SarPmIdMapLookup hex (note_phantom secret parent name index (note_phantom secret listed name index pm_idmap_init)) = Some ident \<and>
    query_rewrite env ident (Some b, n) =
      (Some (put 0 (le_store 4 (word_of_nat (2 * length listed + 2 * length name) :: u32)) (put 4 (path_bytes (listed @ name)) b)),
       4 + 2 * length listed + 2 * length name)"
proof -
  obtain hex where hex: "length hex = 32" "SarPhantomBuildBackingPath secret index listed = backing_prefix @ hex"
    "note_phantom secret listed name index pm_idmap_init = SarPmIdMapInsert hex listed name index (SarPhantomFrn secret listed index) pm_idmap_init"
    using note_phantom_eq by blast
  define m where "m = note_phantom secret listed name index pm_idmap_init"
  define e where "e = \<lparr>pi_backhex = hex, pi_dir = listed, pi_name = name, pi_index = index, pi_frn = SarPhantomFrn secret listed index\<rparr>"
  have "replicate 256 None = (None :: SAR_PM_IDENT option) # replicate 255 None" by (simp flip: replicate_Suc)
  then have m: "pm_slots m = Some e # replicate 255 None" "pm_next m = 1"
    using hex len by (simp_all add: m_def SarPmIdMapInsert_def pm_idmap_init_def SAR_PM_IDMAP_SLOTS_def e_def)
  obtain hex' where hex': "note_phantom secret parent name index m = SarPmIdMapInsert hex' parent name index (SarPhantomFrn secret parent index) m"
    using note_phantom_eq by blast
  have "SarPmIdMapLookup hex (note_phantom secret parent name index m) = Some e"
    unfolding hex' by (simp add: SarPmIdMapInsert_def m SAR_PM_IDMAP_SLOTS_def SarPmIdMapLookup_def e_def)
  moreover have "query_rewrite env e (Some b, n) =
      (Some (put 0 (le_store 4 (word_of_nat (2 * length listed + 2 * length name) :: u32)) (put 4 (path_bytes (listed @ name)) b)),
       4 + 2 * length listed + 2 * length name)"
  proof -
    have "path_bytes (listed @ name) = path_bytes listed @ path_bytes name" by (simp add: path_bytes_def)
    then show ?thesis using assms(4,5) by (simp add: query_rewrite_def e_def Let_def)
  qed
  ultimately show ?thesis using hex(2) phantom_derive_canon(4) [OF canon] unfolding m_def by metis
qed

end
