(* ===== verification/Capture.thy ===== *)
theory Capture
  imports Convict Gate Keystore Control
begin

text \<open>
  The judgement of one write, \<^verbatim>\<open>capture/src/capture.c\<close>: the gate decides whether the written bytes are worth the
  search, the engine searches for a key that explains them, and a key that was found becomes a record of the keystore and
  a notification. A pointer the code tests against NULL is an option.
\<close>

section \<open>Requests and results\<close>

datatype sar_capture_outcome =
  SAR_CAPTURE_INVALID | SAR_CAPTURE_SKIP_GATE | SAR_CAPTURE_NO_CONVICTION | SAR_CAPTURE_CONVICTED

record sar_capture_request =
  rq_plaintext :: "bytes option"
  rq_ciphertext :: "bytes option"
  rq_sample_size :: u32
  rq_file_offset :: u64
  rq_candidates :: "bytes list"
  rq_scan_buffer :: "bytes option"
  rq_provenance_path :: "u16 list option"
  rq_provenance_offset :: u64
  rq_provenance_length :: u64
  rq_capture_time :: u64
  rq_actor_start_key :: u64

record verdict_notify =
  vn_protocol_version :: u32
  vn_message_type :: u32
  vn_message_length :: u32
  vn_key_id :: bytes
  vn_algorithm :: u32
  vn_mode :: u32
  vn_mode_params :: u64
  vn_provenance_offset :: u64
  vn_provenance_path :: "u16 list"

record sar_capture_result =
  cr_outcome :: sar_capture_outcome
  cr_gate :: sar_gate_result
  cr_verdict :: sar_verdict
  cr_record :: keystore_record
  cr_notify :: verdict_notify

definition zero_record :: keystore_record where
  "zero_record = \<lparr>kr_key_id = replicate 32 0, kr_algorithm = 0, kr_mode = 0, kr_key_length = 0,
     kr_key_bytes = replicate 64 0, kr_iv = replicate 24 0, kr_iv_length = 0, kr_ctr_layout_tag = 0, kr_mode_params = 0,
     kr_provenance_offset = 0, kr_provenance_length = 0, kr_provenance_path = replicate 260 0, kr_sample_offset = 0,
     kr_sample_length = 0, kr_sample_tag = replicate 32 0, kr_capture_time = 0, kr_actor_start_key = 0\<rparr>"

definition zero_notify :: verdict_notify where
  "zero_notify = \<lparr>vn_protocol_version = 0, vn_message_type = 0, vn_message_length = 0, vn_key_id = replicate 32 0,
     vn_algorithm = 0, vn_mode = 0, vn_mode_params = 0, vn_provenance_offset = 0,
     vn_provenance_path = replicate SEMANTICS_AR_PROTO_PATH_MAX 0\<rparr>"

definition sar_capture_result_zero :: sar_capture_result where
  "sar_capture_result_zero = \<lparr>cr_outcome = SAR_CAPTURE_INVALID,
     cr_gate = \<lparr>gr_candidate = False, gr_novelty_off = 0, gr_novelty_len = 0\<rparr>, cr_verdict = zero_verdict,
     cr_record = zero_record, cr_notify = zero_notify\<rparr>"

definition sar_capture_build_notify :: "keystore_record \<Rightarrow> verdict_notify" where
  "sar_capture_build_notify rec =
     \<lparr>vn_protocol_version = SEMANTICS_AR_PROTOCOL_VERSION, vn_message_type = SEMANTICS_AR_MSG_VERDICT_NOTIFY,
      vn_message_length = word_of_nat (sizeof verdict_notify_fields),
      vn_key_id = take SEMANTICS_AR_KEY_ID_SIZE (kr_key_id rec), vn_algorithm = kr_algorithm rec, vn_mode = kr_mode rec,
      vn_mode_params = kr_mode_params rec, vn_provenance_offset = kr_provenance_offset rec,
      vn_provenance_path = map (\<lambda>i. kr_provenance_path rec ! i) [0..<SEMANTICS_AR_PROTO_PATH_MAX]\<rparr>"

definition capture_input :: "sar_capture_request \<Rightarrow> sar_engine_input" where
  "capture_input req = \<lparr>ei_candidates = rq_candidates req, ei_scan_buffer = rq_scan_buffer req,
     ei_plaintext = rq_plaintext req, ei_ciphertext = rq_ciphertext req, ei_sample_size = rq_sample_size req,
     ei_file_offset = rq_file_offset req\<rparr>"

section \<open>The run\<close>

definition sar_capture_run ::
  "sar_capture_request option \<Rightarrow> sar_gate_map option \<Rightarrow> bytes option
     \<Rightarrow> sar_capture_outcome \<times> sar_gate_map option \<times> sar_capture_result" where
  "sar_capture_run request gate_scratch mac_key_ptr =
     (let out = sar_capture_result_zero
      in case (request, gate_scratch, mac_key_ptr) of
           (Some req, Some scratch, Some mac_key) \<Rightarrow>
             (case (rq_plaintext req, rq_ciphertext req) of
                (Some pt, Some ct) \<Rightarrow>
                  if rq_sample_size req < 16 then (SAR_CAPTURE_INVALID, gate_scratch, out)
                  else
                    let (scratch, gate) = sar_gate_classify scratch pt ct (unat (rq_sample_size req));
                        out = out\<lparr>cr_gate := gate\<rparr>
                    in if \<not> gr_candidate gate
                       then (SAR_CAPTURE_SKIP_GATE, Some scratch, out\<lparr>cr_outcome := SAR_CAPTURE_SKIP_GATE\<rparr>)
                       else
                         (case sar_convict (capture_input req) of
                            None \<Rightarrow> (SAR_CAPTURE_NO_CONVICTION, Some scratch, out\<lparr>cr_outcome := SAR_CAPTURE_NO_CONVICTION\<rparr>)
                          | Some verdict \<Rightarrow>
                              let rec = sar_keystore_record_init mac_key verdict (rq_provenance_path req)
                                    (rq_provenance_offset req) (rq_provenance_length req) (Some pt) (rq_sample_size req)
                                    (rq_file_offset req) (rq_capture_time req) (rq_actor_start_key req)
                              in (SAR_CAPTURE_CONVICTED, Some scratch,
                                  out\<lparr>cr_verdict := verdict, cr_record := rec, cr_notify := sar_capture_build_notify rec,
                                      cr_outcome := SAR_CAPTURE_CONVICTED\<rparr>))
              | _ \<Rightarrow> (SAR_CAPTURE_INVALID, gate_scratch, out))
         | _ \<Rightarrow> (SAR_CAPTURE_INVALID, gate_scratch, out))"

section \<open>Lemmas\<close>

lemma gate_candidate_iff:
  assumes "length (gm_present scratch) = SAR_GATE_MAP_BYTES" "sar_gate_classify scratch original written len = (scratch', gate)"
  shows "gr_candidate gate \<longleftrightarrow> list_ex (gate_block_fires original written len) (gate_blocks len)"
    "length (gm_present scratch') = SAR_GATE_MAP_BYTES"
proof -
  let ?F = "filter (gate_block_fires original written len) (gate_blocks len)"
  have blocks: "map (\<lambda>k. k * SAR_GATE_BLOCK_SIZE) [0..<(len + SAR_GATE_BLOCK_SIZE - 1) div SAR_GATE_BLOCK_SIZE] =
      gate_blocks len" by (simp add: gate_blocks_def SAR_GATE_BLOCK_SIZE_def add.commute)
  obtain m where m: "length (gm_present m) = SAR_GATE_MAP_BYTES"
      "fold (gate_classify_step original written len) (gate_blocks len) (scratch, False, 0, 0) =
      (m, if ?F = [] then (False, 0, 0) else (True, hd ?F, last ?F + min 256 (len - last ?F)))"
    using gate_classify_fold [OF assms(1), of original written len "gate_blocks len"] by blast
  have "gr_candidate gate \<longleftrightarrow> ?F \<noteq> []" "scratch' = m"
    using assms(2) m(2) unfolding sar_gate_classify_def blocks by (auto split: if_splits)
  then show "gr_candidate gate \<longleftrightarrow> list_ex (gate_block_fires original written len) (gate_blocks len)"
      "length (gm_present scratch') = SAR_GATE_MAP_BYTES"
    using m(1) by (auto simp: filter_empty_conv list_ex_iff)
qed

text \<open>
  What a run on a usable request returns: the three outcomes, told apart by the gate and the engine.
\<close>

lemma capture_run_cases:
  assumes "length (gm_present scratch) = SAR_GATE_MAP_BYTES"
    and "rq_plaintext req = Some pt" "rq_ciphertext req = Some ct" "16 \<le> rq_sample_size req"
  obtains scratch' out where
    "sar_capture_run (Some req) (Some scratch) (Some mac_key) = (cr_outcome out, Some scratch', out)"
    "length (gm_present scratch') = SAR_GATE_MAP_BYTES"
    "cr_outcome out =
       (if \<not> list_ex (gate_block_fires pt ct (unat (rq_sample_size req))) (gate_blocks (unat (rq_sample_size req)))
        then SAR_CAPTURE_SKIP_GATE
        else if sar_convict (capture_input req) = None then SAR_CAPTURE_NO_CONVICTION else SAR_CAPTURE_CONVICTED)"
    "cr_outcome out = SAR_CAPTURE_CONVICTED \<Longrightarrow> sar_convict (capture_input req) = Some (cr_verdict out)"
    "cr_outcome out = SAR_CAPTURE_CONVICTED \<Longrightarrow>
       cr_record out = sar_keystore_record_init mac_key (cr_verdict out) (rq_provenance_path req) (rq_provenance_offset req)
         (rq_provenance_length req) (Some pt) (rq_sample_size req) (rq_file_offset req) (rq_capture_time req)
         (rq_actor_start_key req) \<and>
       cr_notify out = sar_capture_build_notify (cr_record out)"
proof -
  obtain scratch' gate where g: "sar_gate_classify scratch pt ct (unat (rq_sample_size req)) = (scratch', gate)"
    by fastforce
  note c = gate_candidate_iff [OF assms(1) g]
  have size: "\<not> rq_sample_size req < 16" using assms(4) by (simp add: not_less)
  consider "\<not> gr_candidate gate" | "gr_candidate gate" "sar_convict (capture_input req) = None"
    | v where "gr_candidate gate" "sar_convict (capture_input req) = Some v" by fastforce
  then show ?thesis
    by cases (rule that [where scratch' = scratch' and
      out = "snd (snd (sar_capture_run (Some req) (Some scratch) (Some mac_key)))"];
      use c g size assms(2,3) in \<open>auto simp: sar_capture_run_def Let_def\<close>)+
qed

lemma capture_run_invalid:
  "fst (sar_capture_run request scratch mac_key) = SAR_CAPTURE_INVALID \<longleftrightarrow>
     request = None \<or> scratch = None \<or> mac_key = None \<or>
     rq_plaintext (the request) = None \<or> rq_ciphertext (the request) = None \<or> rq_sample_size (the request) < 16"
  unfolding sar_capture_run_def Let_def by (auto split: option.splits prod.splits)

section \<open>The judgement\<close>

text \<open>
  Encryption with a key that can be found is convicted. When the write is a block-aligned part of a file encrypted in
  one of the five block modes, the cipher's key is among the candidates or its schedule in the scanned memory, and some
  block of the write shows new byte pairs, the run convicts; the verdict explains the sample, the record is made from
  it, and the notification names the record. A write that fires no block is passed over without a search.
\<close>

lemma capture_run_convicts:
  assumes map: "length (gm_present scratch) = SAR_GATE_MAP_BYTES"
    and sample: "rq_plaintext req = Some (drop off P)" "rq_ciphertext req = Some (drop off (mode_encrypt bc m L iv P))"
      "2 * bc_block_size bc \<le> unat (rq_sample_size req)" "off + unat (rq_sample_size req) \<le> length P"
      "off + unat (rq_sample_size req) \<le> length (mode_encrypt bc m L iv P)" "unat (rq_file_offset req) + 16 < 2 ^ 64"
    and key: "offers_key (capture_input req) alg key" "make_block alg key (length key) = Some bc"
      "\<forall>c\<in>set (rq_candidates req). length c = 16"
    and mode: "m \<in> set engine_modes" "mode_layout_ok bc m L" "length iv = bc_block_size bc" "off = k * bc_block_size bc"
    and n: "n = unat (rq_sample_size req)"
  shows "\<exists>scratch' out. sar_capture_run (Some req) (Some scratch) (Some mac_key) = (cr_outcome out, Some scratch', out) \<and>
     (if list_ex (gate_block_fires (drop off P) (drop off (mode_encrypt bc m L iv P)) n) (gate_blocks n)
      then cr_outcome out = SAR_CAPTURE_CONVICTED \<and>
           verdict_proof (capture_input req) (drop off P) (drop off (mode_encrypt bc m L iv P)) (cr_verdict out) \<and>
           cr_record out = sar_keystore_record_init mac_key (cr_verdict out) (rq_provenance_path req)
             (rq_provenance_offset req) (rq_provenance_length req) (Some (drop off P)) (rq_sample_size req)
             (rq_file_offset req) (rq_capture_time req) (rq_actor_start_key req) \<and>
           vn_key_id (cr_notify out) = take 32 (kr_key_id (cr_record out)) \<and>
           vn_message_length (cr_notify out) = 588
      else cr_outcome out = SAR_CAPTURE_SKIP_GATE)"
proof -
  let ?ct = "drop off (mode_encrypt bc m L iv P)"
  have io: "ei_plaintext (capture_input req) = Some (drop off P)" "ei_ciphertext (capture_input req) = Some ?ct"
      "ei_candidates (capture_input req) = rq_candidates req" "ei_sample_size (capture_input req) = rq_sample_size req"
      "ei_file_offset (capture_input req) = rq_file_offset req"
    using sample(1,2) by (simp_all add: capture_input_def)
  note bc = make_block_wf [OF key(2) offers_key_ok [OF key(1) key(3) [folded io(3)]]]
  have "16 \<le> unat (rq_sample_size req)" using sample(3) bc(2) by (simp add: alg_block_def split: if_splits)
  then have size: "16 \<le> rq_sample_size req" by (simp add: word_le_nat_alt)
  have "mode_seen bc (drop off P) ?ct (unat (rq_sample_size req)) m"
    using bc(1) sample mode by (intro mode_encrypt_seen [where k = k]) simp_all
  then have found: "sar_convict (capture_input req) \<noteq> None"
    using bc(1) sample key mode size io by (intro sar_convict_complete [where m = m and bc = bc]) simp_all
  obtain scratch' out where out: "sar_capture_run (Some req) (Some scratch) (Some mac_key) = (cr_outcome out, Some scratch', out)"
      "cr_outcome out = (if \<not> list_ex (gate_block_fires (drop off P) ?ct n) (gate_blocks n) then SAR_CAPTURE_SKIP_GATE
        else if sar_convict (capture_input req) = None then SAR_CAPTURE_NO_CONVICTION else SAR_CAPTURE_CONVICTED)"
      "cr_outcome out = SAR_CAPTURE_CONVICTED \<Longrightarrow> sar_convict (capture_input req) = Some (cr_verdict out)"
      "cr_outcome out = SAR_CAPTURE_CONVICTED \<Longrightarrow>
       cr_record out = sar_keystore_record_init mac_key (cr_verdict out) (rq_provenance_path req) (rq_provenance_offset req)
         (rq_provenance_length req) (Some (drop off P)) (rq_sample_size req) (rq_file_offset req) (rq_capture_time req)
         (rq_actor_start_key req) \<and> cr_notify out = sar_capture_build_notify (cr_record out)"
    unfolding n by (rule capture_run_cases [OF map sample(1,2) size, of mac_key]) blast
  have "verdict_proof (capture_input req) (drop off P) ?ct (cr_verdict out)" if "cr_outcome out = SAR_CAPTURE_CONVICTED"
    using io key(3) sample by (intro sar_convict_sound [OF out(3) [OF that]]) simp_all
  then show ?thesis
    using out found
    by (intro exI [of _ scratch'] exI [of _ out])
      (auto simp: sar_capture_build_notify_def SEMANTICS_AR_KEY_ID_SIZE_def sizeof_msg)
qed

text \<open>
  An example: an SM4 file in OFB mode, with the initialisation vector whose first keystream block is 1 to 16, so that the
  first block of the ciphertext is known.
\<close>

definition capture_example_iv :: bytes where
  "capture_example_iv = snd (bc_decrypt (sm4_bc convict_example_key) (map word_of_nat [1..<17]))"

definition capture_example_ct :: bytes where
  "capture_example_ct =
     mode_encrypt (sm4_bc convict_example_key) SAR_MODE_OFB (SAR_CTR_LAYOUTS ! 0) capture_example_iv (replicate 32 7)"

definition capture_example :: sar_capture_request where
  "capture_example = \<lparr>rq_plaintext = Some (replicate 32 7), rq_ciphertext = Some capture_example_ct,
     rq_sample_size = 32, rq_file_offset = 0, rq_candidates = [convict_example_key], rq_scan_buffer = None,
     rq_provenance_path = Some [67, 0], rq_provenance_offset = 0, rq_provenance_length = 32, rq_capture_time = 1,
     rq_actor_start_key = 5\<rparr>"

lemma capture_example_bytes:
  "length capture_example_iv = 16" "length capture_example_ct = 32"
  "j < 15 \<Longrightarrow> capture_example_ct ! j \<noteq> 7"
proof -
  let ?bc = "sm4_bc convict_example_key" and ?Y = "map word_of_nat [1..<17] :: bytes"
  have Y: "length ?Y = bc_block_size ?bc" by (simp add: convict_example_bc)
  show "length capture_example_iv = 16"
    using convict_example_bc(2,3) Y by (simp add: wf_bc_def capture_example_iv_def)
  show "length capture_example_ct = 32"
    by (simp add: capture_example_ct_def mode_encrypt_def sar_mode_neq ks_encrypt_def)
  have "bc_E ?bc capture_example_iv = ?Y"
    using convict_example_bc(2) Y by (simp add: wf_bc_def capture_example_iv_def)
  then have ofb: "ofb_block ?bc capture_example_iv 0 = ?Y" by (simp add: ofb_block_def)
  show "capture_example_ct ! j \<noteq> 7" if j: "j < 15"
  proof -
    have "capture_example_ct ! j = 7 XOR ?Y ! j"
      using j ofb by (simp add: capture_example_ct_def mode_encrypt_def sar_mode_neq ks_encrypt_def convict_example_bc)
    also have "?Y ! j = word_of_nat (1 + j)" using j by simp
    finally have x: "capture_example_ct ! j = 7 XOR word_of_nat (1 + j)" .
    have "(word_of_nat (1 + j) :: u8) = 7 XOR (7 XOR word_of_nat (1 + j))" by (simp flip: xor.assoc)
    then have "(word_of_nat (1 + j) :: u8) = 0" if "capture_example_ct ! j = 7"
      using that [unfolded x] by (simp only: xor_self_eq)
    moreover have "unat (word_of_nat (1 + j) :: u8) = 1 + j"
      using j by (simp only: unsigned_of_nat) (simp add: take_bit_nat_eq_self)
    ultimately show ?thesis by auto
  qed
qed

lemma capture_example_fires: "list_ex (gate_block_fires (replicate 32 7) capture_example_ct 32) (gate_blocks 32)"
proof -
  let ?P = "\<lambda>k. \<not> gate_same (replicate 32 7) capture_example_ct k"
  let ?Q = "\<lambda>k. \<not> list_ex (\<lambda>i. replicate 32 7 ! i = capture_example_ct ! k \<and>
      replicate 32 7 ! (i + 1) = capture_example_ct ! (k + 1)) [0..<31]"
  have "?P k \<and> ?Q k" if "k < 15" for k
    using capture_example_bytes(3) [OF that] that nth_replicate [of _ 32 "7 :: u8"]
    unfolding gate_same_def list_ex_iff atLeastLessThan_iff set_upt by fastforce
  then have "?P k \<and> ?Q k" if "k \<in> set [0..<15]" for k using that unfolding set_upt atLeastLessThan_iff by (elim conjE)
  then have "\<forall>k \<in> set [0..<15]. ?P k \<and> ?Q k" by (rule ballI)
  then have f: "filter ?Q (filter ?P [0..<15]) = [0..<15]" by (subst filter_True; (subst filter_True)?; blast)
  have "filter ?Q (filter ?P [0..<31]) = filter ?Q (filter ?P [0..<15]) @ filter ?Q (filter ?P [15..<31])"
    using upt_add_eq_append [of 0 15 16] by (simp only: filter_append numeral_plus_numeral add_num_simps zero_le)
  then have "15 \<le> length (filter ?Q (filter ?P [0..<31]))" unfolding f by (simp only: length_append length_upt)
  moreover have "length (gate_changed (replicate 32 7) capture_example_ct 32) \<le> 31"
    unfolding gate_changed_def using length_filter_le [of ?P "[0..<32 - 1]"] by (simp only: length_upt)
  ultimately have "gate_block_fires (replicate 32 7) capture_example_ct 32 0"
    unfolding gate_block_fires_def gate_novel_def gate_changed_def Let_def drop_0 by (simp del: upt_rec_numeral)
  then show ?thesis by (simp add: gate_blocks_def)
qed

lemma capture_run_example:
  "fst (sar_capture_run (Some capture_example) (Some \<lparr>gm_present = replicate SAR_GATE_MAP_BYTES 0\<rparr>) (Some (replicate 32 1))) =
     SAR_CAPTURE_CONVICTED"
proof -
  have "offers_key (capture_input capture_example) SAR_ALG_SM4 convict_example_key"
    using convict_example_viable by (simp add: offers_key_def capture_input_def capture_example_def)
  note key = this convict_example_bc(1)
  have io: "rq_plaintext capture_example = Some (drop 0 (replicate 32 7))" "rq_sample_size capture_example = 32"
      "rq_ciphertext capture_example = Some (drop 0 (mode_encrypt (sm4_bc convict_example_key) SAR_MODE_OFB
         (SAR_CTR_LAYOUTS ! 0) capture_example_iv (replicate 32 7)))"
      "rq_file_offset capture_example = 0" "rq_candidates capture_example = [convict_example_key]"
    by (simp_all add: capture_example_def capture_example_ct_def)
  have m: "SAR_MODE_OFB \<in> set engine_modes" "mode_layout_ok (sm4_bc convict_example_key) SAR_MODE_OFB (SAR_CTR_LAYOUTS ! 0)"
    by (simp_all add: engine_modes_def mode_layout_ok_def sar_mode_neq)
  have len: "length capture_example_iv = bc_block_size (sm4_bc convict_example_key)"
      "length (mode_encrypt (sm4_bc convict_example_key) SAR_MODE_OFB (SAR_CTR_LAYOUTS ! 0) capture_example_iv (replicate 32 7)) = 32"
    using capture_example_bytes(1,2) by (simp_all add: convict_example_bc capture_example_ct_def)
  have "length (gm_present \<lparr>gm_present = replicate SAR_GATE_MAP_BYTES 0\<rparr>) = SAR_GATE_MAP_BYTES" by simp
  note run = capture_run_convicts [OF this io(1) io(3) _ _ _ _ key _ m len(1), of 0 32 "replicate 32 1"]
  have "2 * bc_block_size (sm4_bc convict_example_key) \<le> unat (rq_sample_size capture_example)"
      "0 + unat (rq_sample_size capture_example) \<le> length (replicate 32 (7 :: u8))"
      "unat (rq_file_offset capture_example) + 16 < 2 ^ 64" "32 = unat (rq_sample_size capture_example)"
      "\<forall>c\<in>set (rq_candidates capture_example). length c = 16"
    by (simp_all add: io(2,4,5) convict_example_bc(3) convict_example_key_length)
  note run = run [OF this(1,2) _ this(3,5) mult_zero_left [symmetric] this(4), unfolded drop_0, folded capture_example_ct_def]
  have "0 + unat (rq_sample_size capture_example) \<le> length capture_example_ct"
    by (simp add: io(2) capture_example_bytes(2))
  from run [OF this, unfolded if_P [OF capture_example_fires]] obtain scratch' out where
      "sar_capture_run (Some capture_example) (Some \<lparr>gm_present = replicate SAR_GATE_MAP_BYTES 0\<rparr>)
      (Some (replicate 32 1)) = (cr_outcome out, Some scratch', out)" "cr_outcome out = SAR_CAPTURE_CONVICTED"
    by (elim exE conjE)
  then show ?thesis by simp
qed

end
