(* ===== verification/Capture_Ranges.thy ===== *)
theory Capture_Ranges
  imports Driver_State
begin

text \<open>
  What the filter remembers of an open file, the stream context of \<^verbatim>\<open>driver/seam.h\<close>, and the ranges of it whose original
  bytes are already saved, from \<^verbatim>\<open>driver/capture.c\<close>. The array of ranges is a list with its capacity; whether the pool has
  memory for a larger array is an argument. A pointer that may be NULL is an option; a process identifier of 0 is none.
\<close>

section \<open>Stream contexts\<close>

record SAR_CAPTURED_RANGE =
  rg_start :: u64
  rg_end :: u64

record SAR_EXTENT =
  ex_vcn_byte :: u64
  ex_len :: u64
  ex_lcn_byte :: "64 word"

record SAR_EXTENT_MAP =
  em_sector_size :: u32
  em_covered_len :: u64
  em_ext :: "SAR_EXTENT list"

record SAR_STREAM_CONTEXT =
  sx_flags :: u32
  sx_read_length :: u32
  sx_read_offset :: u64
  sx_cap_ranges :: "SAR_CAPTURED_RANGE list"
  sx_cap_capacity :: nat
  sx_mmap_map :: "SAR_EXTENT_MAP option"
  sx_mmap_path :: "u16 list option"
  sx_mmap_arm_pid :: HANDLE
  sx_mmap_arm_key :: u64
  sx_mmap_reserved :: u64
  sx_read_sample :: bytes

definition SAR_STREAMCTX_FLAG_SECTION_DIRTY :: u32 where "SAR_STREAMCTX_FLAG_SECTION_DIRTY = 0x1"
definition SAR_STREAMCTX_FLAG_OWN_STORE :: u32 where "SAR_STREAMCTX_FLAG_OWN_STORE = 0x2"
definition SAR_STREAMCTX_FLAG_PHANTOM_BACKING :: u32 where "SAR_STREAMCTX_FLAG_PHANTOM_BACKING = 0x4"
definition SAR_STREAMCTX_FLAG_READ_OBSERVED :: u32 where "SAR_STREAMCTX_FLAG_READ_OBSERVED = 0x10"
definition SAR_STREAMCTX_FLAG_TRACKED_FROM_OPEN :: u32 where "SAR_STREAMCTX_FLAG_TRACKED_FROM_OPEN = 0x20"
definition SAR_STREAMCTX_FLAG_OS_OWNED :: u32 where "SAR_STREAMCTX_FLAG_OS_OWNED = 0x40"
definition SAR_STREAMCTX_FLAG_MMAP_RESERVE_TRIED :: u32 where "SAR_STREAMCTX_FLAG_MMAP_RESERVE_TRIED = 0x80"
definition SAR_STREAMCTX_FLAG_OSOWN_CHECKED :: u32 where "SAR_STREAMCTX_FLAG_OSOWN_CHECKED = 0x100"

definition flag_on :: "SAR_STREAM_CONTEXT \<Rightarrow> u32 \<Rightarrow> bool" where
  "flag_on sc f \<longleftrightarrow> (sx_flags sc AND f) \<noteq> 0"

section \<open>Ranges that are saved\<close>

text \<open>
  The range goes to its place by its start, then ranges that touch are joined, in the array itself: what is written so far
  is the list \<open>out\<close>.
\<close>

definition range_join :: "SAR_CAPTURED_RANGE \<Rightarrow> SAR_CAPTURED_RANGE list \<Rightarrow> SAR_CAPTURED_RANGE list" where
  "range_join r out =
     (if out \<noteq> [] \<and> rg_start r \<le> rg_end (last out)
      then if rg_end r > rg_end (last out) then butlast out @ [(last out)\<lparr>rg_end := rg_end r\<rparr>] else out
      else out @ [r])"

definition SarCapRangeInsert ::
  "bool \<Rightarrow> SAR_STREAM_CONTEXT \<Rightarrow> u64 \<Rightarrow> u64 \<Rightarrow> bool \<times> SAR_STREAM_CONTEXT" where
  "SarCapRangeInsert pool sc start stop =
     (let grow = length (sx_cap_ranges sc) + 1 > sx_cap_capacity sc
      in if grow \<and> \<not> pool then (False, sc)
         else
           let cap = (if grow then if sx_cap_capacity sc \<noteq> 0 then sx_cap_capacity sc * 2 else 8 else sx_cap_capacity sc);
               arr = takeWhile (\<lambda>r. rg_start r < start) (sx_cap_ranges sc) @
                 \<lparr>rg_start = start, rg_end = stop\<rparr> # dropWhile (\<lambda>r. rg_start r < start) (sx_cap_ranges sc)
           in (True, sc\<lparr>sx_cap_ranges := fold range_join arr [], sx_cap_capacity := cap\<rparr>))"

definition SarMmapRangeCovered :: "SAR_STREAM_CONTEXT \<Rightarrow> u64 \<Rightarrow> u32 \<Rightarrow> bool" where
  "SarMmapRangeCovered sc offset len =
     list_ex (\<lambda>r. rg_start r \<le> offset \<and> offset + ucast len \<le> rg_end r) (sx_cap_ranges sc)"

section \<open>Lemmas\<close>

definition range_in :: "u64 \<Rightarrow> SAR_CAPTURED_RANGE \<Rightarrow> bool" where
  "range_in x r \<longleftrightarrow> rg_start r \<le> x \<and> x < rg_end r"

definition captured :: "SAR_CAPTURED_RANGE list \<Rightarrow> u64 \<Rightarrow> bool" where
  "captured rs x \<longleftrightarrow> (\<exists>r \<in> set rs. range_in x r)"

definition ranges_sorted :: "SAR_CAPTURED_RANGE list \<Rightarrow> bool" where
  "ranges_sorted rs \<longleftrightarrow> sorted_wrt (\<lambda>a b. rg_end a < rg_start b) rs \<and> (\<forall>r \<in> set rs. rg_start r < rg_end r)"

lemma captured_simps [simp]:
  "captured [] x \<longleftrightarrow> False" "captured (r # rs) x \<longleftrightarrow> range_in x r \<or> captured rs x"
  "captured (rs @ qs) x \<longleftrightarrow> captured rs x \<or> captured qs x"
  by (auto simp: captured_def)

text \<open>
  Joining ranges sorted by their start.
\<close>

lemma range_join_sorted:
  assumes out: "ranges_sorted out" "\<forall>q \<in> set out. rg_start q \<le> rg_start r" and r: "rg_start r < rg_end r"
  shows "ranges_sorted (range_join r out)" "\<forall>q \<in> set (range_join r out). rg_start q \<le> rg_start r"
    "captured (range_join r out) x \<longleftrightarrow> captured out x \<or> range_in x r"
proof -
  have "ranges_sorted (range_join r out) \<and> (\<forall>q \<in> set (range_join r out). rg_start q \<le> rg_start r) \<and>
      (captured (range_join r out) x \<longleftrightarrow> captured out x \<or> range_in x r)"
  proof (cases out rule: rev_cases)
    case Nil
    then show ?thesis using r by (simp add: range_join_def ranges_sorted_def)
  next
    case (snoc qs q)
    have q: "ranges_sorted qs" "\<forall>a \<in> set qs. rg_end a < rg_start q" "rg_start q < rg_end q" "rg_start q \<le> rg_start r"
      "\<forall>a \<in> set qs. rg_start a < rg_end a" "\<forall>a \<in> set qs. rg_start a \<le> rg_start r"
      using out unfolding snoc by (auto simp: ranges_sorted_def sorted_wrt_append)
    have far: "rg_end a < rg_start r" if "a \<in> set qs" for a using q(2,4) that by force
    have last: "last out = q" "butlast out = qs" "out \<noteq> []" by (simp_all add: snoc)
    consider "rg_end q < rg_start r" | "rg_start r \<le> rg_end q" "rg_end r \<le> rg_end q" | "rg_start r \<le> rg_end q" "rg_end q < rg_end r"
      using le_less_linear by blast
    then show ?thesis
    proof cases
      case 1
      then have "\<not> rg_start r \<le> rg_end q" by (simp add: not_le)
      then have "range_join r out = out @ [r]" by (simp add: range_join_def last)
      moreover have "ranges_sorted (out @ [r])"
        using out(1) r far 1 by (simp add: ranges_sorted_def sorted_wrt_append snoc ball_Un)
      ultimately show ?thesis using out(2) by simp
    next
      case 2
      then have "\<not> rg_end q < rg_end r" by (simp add: not_less)
      with 2 have "range_join r out = out" by (simp add: range_join_def last)
      moreover have "range_in x q" if "range_in x r"
        using that q(4) 2(2) unfolding range_in_def by (meson order_trans less_le_trans)
      ultimately show ?thesis using out by (auto simp: snoc)
    next
      case 3
      then have eq: "range_join r out = qs @ [q\<lparr>rg_end := rg_end r\<rparr>]" by (simp add: range_join_def last)
      have "rg_start q < rg_end r" using q(3) 3(2) by (rule less_trans)
      then have "ranges_sorted (qs @ [q\<lparr>rg_end := rg_end r\<rparr>])"
        using q by (simp add: ranges_sorted_def sorted_wrt_append ball_Un)
      moreover have "range_in x (q\<lparr>rg_end := rg_end r\<rparr>) \<longleftrightarrow> range_in x q \<or> range_in x r"
        using q(4) 3 unfolding range_in_def by (auto intro: order_trans less_trans le_less_trans dest: leI)
      ultimately show ?thesis using q(4,6) unfolding eq by (simp add: snoc ball_Un)
    qed
  qed
  then show "ranges_sorted (range_join r out)" "\<forall>q \<in> set (range_join r out). rg_start q \<le> rg_start r"
      "captured (range_join r out) x \<longleftrightarrow> captured out x \<or> range_in x r" by blast+
qed

lemma range_join_fold:
  assumes "sorted_wrt (\<lambda>a b. rg_start a \<le> rg_start b) rs" "\<forall>r \<in> set rs. rg_start r < rg_end r"
    and "ranges_sorted out" "\<forall>q \<in> set out. \<forall>r \<in> set rs. rg_start q \<le> rg_start r"
  shows "ranges_sorted (fold range_join rs out) \<and> (captured (fold range_join rs out) x \<longleftrightarrow> captured out x \<or> captured rs x)"
  using assms
proof (induction rs arbitrary: out)
  case (Cons r rs)
  note j = range_join_sorted [OF Cons.prems(3), of r]
  have "\<forall>q \<in> set (range_join r out). \<forall>s \<in> set rs. rg_start q \<le> rg_start s"
    using j(2) Cons.prems by force
  then show ?case using Cons.IH [of "range_join r out"] j(1) j(3) [of x] Cons.prems by auto
qed simp

lemma range_drop_start:
  assumes "sorted_wrt (\<lambda>a b. rg_start a < rg_start b) rs" "r \<in> set (dropWhile (\<lambda>r. rg_start r < start) rs)"
  shows "start \<le> rg_start r"
  using assms
proof (induction rs)
  case (Cons a rs)
  show ?case
  proof (cases "rg_start a < start")
    case False
    then have "r = a \<or> rg_start a < rg_start r" using Cons.prems by auto
    then show ?thesis using False by (meson leI less_imp_le order_trans)
  qed (use Cons in simp)
qed simp

lemma cap_range_insert:
  assumes rs: "ranges_sorted (sx_cap_ranges sc)" and new: "start < stop"
    and out: "SarCapRangeInsert pool sc start stop = (b, sc')"
  shows "ranges_sorted (sx_cap_ranges sc')"
    "captured (sx_cap_ranges sc') x \<longleftrightarrow> captured (sx_cap_ranges sc) x \<or> b \<and> start \<le> x \<and> x < stop"
    "b \<longleftrightarrow> pool \<or> length (sx_cap_ranges sc) < sx_cap_capacity sc"
proof -
  let ?rs = "sx_cap_ranges sc" and ?n = "\<lparr>rg_start = start, rg_end = stop\<rparr>"
  let ?arr = "takeWhile (\<lambda>r. rg_start r < start) ?rs @ ?n # dropWhile (\<lambda>r. rg_start r < start) ?rs"
  have pos: "\<forall>r \<in> set ?rs. rg_start r < rg_end r" using rs by (simp add: ranges_sorted_def)
  have strict: "sorted_wrt (\<lambda>a b. rg_start a < rg_start b) ?rs"
    by (rule sorted_wrt_mono_rel [of _ "\<lambda>a b. rg_end a < rg_start b"])
      (use rs pos in \<open>auto simp: ranges_sorted_def\<close>)
  have drop: "start \<le> rg_start r" if "r \<in> set (dropWhile (\<lambda>r. rg_start r < start) ?rs)" for r
    using range_drop_start [OF strict that] .
  have "captured (takeWhile P ?rs) x \<or> captured (dropWhile P ?rs) x \<longleftrightarrow> captured ?rs x" for P
    by (metis captured_simps(3) takeWhile_dropWhile_id)
  then have arr: "captured ?arr x \<longleftrightarrow> captured ?rs x \<or> start \<le> x \<and> x < stop"
    by (auto simp: range_in_def)
  have weak: "sorted_wrt (\<lambda>a b. rg_start a \<le> rg_start b) ?rs"
    by (rule sorted_wrt_mono_rel [OF _ strict]) simp
  have "sorted_wrt (\<lambda>a b. rg_start a \<le> rg_start b) (takeWhile (\<lambda>r. rg_start r < start) ?rs @ dropWhile (\<lambda>r. rg_start r < start) ?rs)"
    using weak by simp
  moreover have "rg_start r \<le> start" if "r \<in> set (takeWhile (\<lambda>r. rg_start r < start) ?rs)" for r
    using set_takeWhileD [OF that] by (blast intro: less_imp_le)
  ultimately have "sorted_wrt (\<lambda>a b. rg_start a \<le> rg_start b) ?arr"
    using drop unfolding sorted_wrt_append by simp
  moreover have "\<forall>r \<in> set ?arr. rg_start r < rg_end r"
    using pos new by (auto dest: set_takeWhileD set_dropWhileD)
  ultimately have f: "ranges_sorted (fold range_join ?arr [])"
      "captured (fold range_join ?arr []) x \<longleftrightarrow> captured ?rs x \<or> start \<le> x \<and> x < stop"
    using range_join_fold [of ?arr "[]" x] arr by (simp_all add: ranges_sorted_def)
  have b: "b \<longleftrightarrow> pool \<or> length (sx_cap_ranges sc) < sx_cap_capacity sc"
    using out unfolding SarCapRangeInsert_def Let_def by (auto split: if_splits)
  have sc': "sx_cap_ranges sc' = (if b then fold range_join ?arr [] else ?rs)"
    using out unfolding SarCapRangeInsert_def Let_def by (auto simp del: fold.simps fold_append split: if_splits)
  show "ranges_sorted (sx_cap_ranges sc')" using sc' f(1) rs by simp
  show "captured (sx_cap_ranges sc') x \<longleftrightarrow> captured (sx_cap_ranges sc) x \<or> b \<and> start \<le> x \<and> x < stop"
    unfolding sc' using f(2) by simp
  show "b \<longleftrightarrow> pool \<or> length (sx_cap_ranges sc) < sx_cap_capacity sc" by (rule b)
qed

end
