(* ===== verification/Capture_Preserve.thy ===== *)
theory Capture_Preserve
  imports Capture_Ranges Capture_State Targets Recovery_Driver
begin

text \<open>
  Saving what an operation is about to destroy, from \<^verbatim>\<open>driver/capture.c\<close>: the range a write overwrites, the whole content
  of a file that is superseded, and a quarantine link to a file that is deleted or replaced. What the filter manager and
  the memory manager answer is in the environments; a mapped view shows the bytes of the file. Offsets inside a file are
  natural numbers once they are below the file's size, which is a signed 64-bit number. A fault on reading the view is taken
  to end the staging of that piece before it changes the store; that the code then leaves the store's lock held is not part
  of the model.
\<close>

section \<open>Staging the pieces of a view\<close>

record stage_world =
  sw_env :: "nat \<Rightarrow> nat \<Rightarrow> stage_env"
  sw_now :: "nat \<Rightarrow> u64"
  sw_fault :: "nat \<Rightarrow> bool"

record stage_run =
  sr_calls :: nat
  sr_store :: "SAR_PRESERVE option"
  sr_data :: payload_file

definition stage_bad :: "SAR_STAGE_RESULT \<Rightarrow> bool" where
  "stage_bad r \<longleftrightarrow> r = SAR_STAGE_FAILED \<or> r = SAR_STAGE_DROPPED"

definition stage_call ::
  "stage_world \<Rightarrow> SAR_STATE \<Rightarrow> u16 list \<Rightarrow> u64 \<Rightarrow> bytes \<Rightarrow> nat \<Rightarrow> stage_run \<Rightarrow> SAR_STAGE_RESULT option \<times> stage_run" where
  "stage_call w st path actor pt off s =
     (let k = sr_calls s; n = word_of_nat (length pt) :: u32
      in if sw_fault w k then (None, s\<lparr>sr_calls := Suc k\<rparr>)
         else case SarPreserveStage (sw_env w k) (sw_now w k) st (sr_store s) (sr_data s) path (word_of_nat off)
                 (ucast n) actor pt n False of
                (r, p, d) \<Rightarrow> (Some r, \<lparr>sr_calls = Suc k, sr_store = p, sr_data = d\<rparr>))"

function stage_pieces ::
  "stage_world \<Rightarrow> SAR_STATE \<Rightarrow> u16 list \<Rightarrow> u64 \<Rightarrow> bytes \<Rightarrow> nat \<Rightarrow> nat \<Rightarrow> nat \<Rightarrow> SAR_STAGE_RESULT \<Rightarrow> stage_run \<Rightarrow>
   SAR_STAGE_RESULT \<times> stage_run" where
  "stage_pieces w st path actor view base off stop worst s =
     (if off < stop then
        let chunk = min (stop - off) SAR_PRESERVE_STAGE_MAX
        in case stage_call w st path actor (slice view (off - base) chunk) off s of
             (None, s) \<Rightarrow> (SAR_STAGE_FAILED, s)
           | (Some r, s) \<Rightarrow>
               stage_pieces w st path actor view base (off + SAR_PRESERVE_STAGE_MAX) stop
                 (if stage_bad r then r else worst) s
      else (worst, s))"
  by pat_completeness auto

termination
  by (relation "measure (\<lambda>(w, st, path, actor, view, base, off, stop, worst, s). stop - off)")
    (auto simp: SAR_PRESERVE_STAGE_MAX_def)

declare stage_pieces.simps [simp del]

definition SarCaptureStageSpan ::
  "stage_world \<Rightarrow> SAR_STATE \<Rightarrow> u16 list \<Rightarrow> u64 \<Rightarrow> bytes \<Rightarrow> nat \<Rightarrow> nat \<Rightarrow> nat \<Rightarrow> stage_run \<Rightarrow> SAR_STAGE_RESULT \<times> stage_run" where
  "SarCaptureStageSpan w st path actor view aligned_start span_start span_end s =
     stage_pieces w st path actor view aligned_start span_start span_end SAR_STAGE_STORED s"

section \<open>The range of a write\<close>

definition SAR_MAP_GRANULARITY :: u64 where "SAR_MAP_GRANULARITY = 0x10000"

record region_env =
  ge_passive :: bool
  ge_name :: "u16 list option"
  ge_section_ctx :: bool
  ge_section :: "bytes option"
  ge_map :: bool
  ge_range_pool :: bool
  ge_start_key :: "PEPROCESS \<Rightarrow> u64"
  ge_world :: stage_world

text \<open>
  The loop over the ranges already saved stages what lies before each of them; the cursor, the worst result and the store
  are its state.
\<close>

fun region_loop ::
  "stage_world \<Rightarrow> SAR_STATE \<Rightarrow> u16 list \<Rightarrow> u64 \<Rightarrow> bytes \<Rightarrow> nat \<Rightarrow> nat \<Rightarrow> SAR_CAPTURED_RANGE list \<Rightarrow>
   nat \<times> SAR_STAGE_RESULT \<times> stage_run \<Rightarrow> nat \<times> SAR_STAGE_RESULT \<times> stage_run" where
  "region_loop w st path actor view aligned stop [] acc = acc"
| "region_loop w st path actor view aligned stop (r # rs) (cursor, worst, s) =
     (let a = unat (rg_start r); b = unat (rg_end r)
      in if \<not> cursor < stop then (cursor, worst, s)
         else if b \<le> cursor then region_loop w st path actor view aligned stop rs (cursor, worst, s)
         else if a \<ge> stop then (cursor, worst, s)
         else
           let (worst, s) =
             (if a > cursor then
                case SarCaptureStageSpan w st path actor view aligned cursor (if a < stop then a else stop) s of
                  (r, s) \<Rightarrow> (if stage_bad r then r else worst, s)
              else (worst, s))
           in region_loop w st path actor view aligned stop rs (b, worst, s))"

definition region_stage ::
  "stage_world \<Rightarrow> SAR_STATE \<Rightarrow> u16 list \<Rightarrow> u64 \<Rightarrow> bytes \<Rightarrow> nat \<Rightarrow> nat \<Rightarrow> nat \<Rightarrow> SAR_CAPTURED_RANGE list \<Rightarrow> stage_run \<Rightarrow>
   SAR_STAGE_RESULT \<times> stage_run" where
  "region_stage w st path actor view aligned offset stop ranges s =
     (case region_loop w st path actor view aligned stop ranges (offset, SAR_STAGE_STORED, s) of
        (cursor, worst, s) \<Rightarrow>
          if cursor < stop then
            case SarCaptureStageSpan w st path actor view aligned cursor stop s of
              (r, s) \<Rightarrow> (if stage_bad r then r else worst, s)
          else (worst, s))"

definition SarCaptureInPlaceRegion ::
  "region_env \<Rightarrow> (u16 \<Rightarrow> u16) \<Rightarrow> u16 list option \<Rightarrow> SAR_STATE \<Rightarrow> SAR_CAPTURE_CTX option \<Rightarrow> SAR_STREAM_CONTEXT option \<Rightarrow>
   PEPROCESS \<Rightarrow> u64 \<Rightarrow> u64 \<Rightarrow> stage_run \<Rightarrow> SAR_STAGE_RESULT \<times> SAR_STREAM_CONTEXT option \<times> stage_run" where
  "SarCaptureInPlaceRegion env upcase sysroot st ctx stream originator offset len s =
     (if ctx = None \<or> \<not> SarPreserveReady (sr_store s) \<or> \<not> ge_passive env \<or> len = 0 then (SAR_STAGE_STORED, stream, s)
      else
        let path = SarCaptureResolveProvenance (ge_name env)
        in if SarCapturePathExempt upcase sysroot path then (SAR_STAGE_STORED, stream, s)
           else
             (case (stream, ge_section_ctx env, ge_section env) of
                (Some sc, True, Some contents) \<Rightarrow>
                  let file_size = word_of_nat (length contents) :: u64;
                      stop = min (offset + len) file_size
                  in if offset < stop \<and> ge_map env then
                       let aligned = offset AND NOT (SAR_MAP_GRANULARITY - 1);
                           view = slice contents (unat aligned) (unat (stop - aligned));
                           (worst, s) = region_stage (ge_world env) st path (ge_start_key env originator) view
                             (unat aligned) (unat offset) (unat stop) (sx_cap_ranges sc) s;
                           sc = (if worst = SAR_STAGE_STORED then snd (SarCapRangeInsert (ge_range_pool env) sc offset stop)
                                 else sc)
                       in (worst, Some sc, s)
                     else (SAR_STAGE_STORED, Some sc, s)
              | _ \<Rightarrow> (SAR_STAGE_STORED, stream, s)))"

section \<open>A whole file\<close>

definition SarCaptureWholeContent ::
  "region_env \<Rightarrow> (u16 \<Rightarrow> u16) \<Rightarrow> u16 list option \<Rightarrow> SAR_STATE \<Rightarrow> u16 list \<Rightarrow> PEPROCESS \<Rightarrow> stage_run \<Rightarrow> SAR_STAGE_RESULT \<times> stage_run" where
  "SarCaptureWholeContent env upcase sysroot st path originator s =
     (if SarCapturePathExempt upcase sysroot path \<or> \<not> ge_section_ctx env then (SAR_STAGE_STORED, s)
      else
        (case ge_section env of
           None \<Rightarrow> (SAR_STAGE_STORED, s)
         | Some contents \<Rightarrow>
             if 0 < length contents \<and> ge_map env
             then stage_pieces (ge_world env) st path (ge_start_key env originator) contents 0 0 (length contents) SAR_STAGE_STORED s
             else (SAR_STAGE_STORED, s)))"

section \<open>Links to files that go away\<close>

definition SarCaptureStreamConfidentBlind :: "SAR_STREAM_CONTEXT option \<Rightarrow> bool" where
  "SarCaptureStreamConfidentBlind stream =
     (case stream of
        None \<Rightarrow> False
      | Some sc \<Rightarrow> flag_on sc SAR_STREAMCTX_FLAG_TRACKED_FROM_OPEN \<and> \<not> flag_on sc SAR_STREAMCTX_FLAG_READ_OBSERVED \<and>
          \<not> flag_on sc SAR_STREAMCTX_FLAG_SECTION_DIRTY)"

text \<open>
  The quarantine directory lies on the file's volume; what is done to it is returned as the list of links made and
  deleted.
\<close>

datatype link_action = Link_Create "u16 list" | Link_Delete "u16 list"

record link_env =
  lk_pid :: "PEPROCESS \<Rightarrow> HANDLE"
  lk_size :: "u64 option"
  lk_status :: NTSTATUS
  lk_now :: u64
  lk_region :: region_env

definition link_make ::
  "link_env \<Rightarrow> (u16 \<Rightarrow> u16) \<Rightarrow> u16 list option \<Rightarrow> SAR_STATE \<Rightarrow> u16 list \<Rightarrow> PEPROCESS \<Rightarrow> u64 \<Rightarrow> SAR_PRESERVE \<Rightarrow> stage_run \<Rightarrow>
   SAR_STAGE_RESULT \<times> link_action list \<times> stage_run" where
  "link_make env upcase sysroot st path originator file_size p s =
     (let actor = ge_start_key (lk_region env) originator;
          (link_id, p) = SarPreserveAllocLinkId p;
          s = s\<lparr>sr_store := Some p\<rparr>
      in case SarPreserveQuarantinePaths path link_id 96 128 of
           None \<Rightarrow> (SAR_STAGE_FAILED, [], s)
         | Some (dir, link) \<Rightarrow>
             if NT_SUCCESS (lk_status env) then
               (case SarPreserveStageLink (lk_now env) st (sr_store s) path file_size actor link_id of
                  (status, store) \<Rightarrow>
                    if status \<noteq> STATUS_SUCCESS
                    then (SAR_STAGE_DROPPED, [Link_Create link, Link_Delete link], s\<lparr>sr_store := store\<rparr>)
                    else (SAR_STAGE_STORED, [Link_Create link], s\<lparr>sr_store := store\<rparr>))
             else
               (case SarCaptureWholeContent (lk_region env) upcase sysroot st path originator s of
                  (r, s) \<Rightarrow> (r, [], s)))"

definition SarCaptureLinkPreserve ::
  "link_env \<Rightarrow> (u16 \<Rightarrow> u16) \<Rightarrow> u16 list option \<Rightarrow> SAR_STATE \<Rightarrow> SAR_CAPTURE_CTX option \<Rightarrow> SAR_STREAM_CONTEXT option \<Rightarrow> u16 list \<Rightarrow>
   PEPROCESS \<Rightarrow> stage_run \<Rightarrow> SAR_STAGE_RESULT \<times> link_action list \<times> stage_run" where
  "SarCaptureLinkPreserve env upcase sysroot st ctx stream path originator s =
     (case sr_store s of
        None \<Rightarrow> (SAR_STAGE_STORED, [], s)
      | Some p \<Rightarrow>
          if ctx = None \<or> \<not> sp_ready p \<or> \<not> ge_passive (lk_region env) \<or> SarCapturePathExempt upcase sysroot path \<or>
             SarStateIdentityLookup st (lk_pid env originator) = SAR_IDSTATE_EXEMPT \<or> SarCaptureStreamConfidentBlind stream
          then (SAR_STAGE_STORED, [], s)
          else
            (case lk_size env of
               None \<Rightarrow> (SAR_STAGE_STORED, [], s)
             | Some file_size \<Rightarrow>
                 if file_size = 0 then (SAR_STAGE_STORED, [], s)
                 else link_make env upcase sysroot st path originator file_size p s))"

definition SarCaptureSubmitDelete ::
  "link_env \<Rightarrow> (u16 \<Rightarrow> u16) \<Rightarrow> u16 list option \<Rightarrow> SAR_STATE \<Rightarrow> SAR_CAPTURE_CTX option \<Rightarrow> SAR_STREAM_CONTEXT option \<Rightarrow> PEPROCESS \<Rightarrow>
   stage_run \<Rightarrow> SAR_STAGE_RESULT \<times> link_action list \<times> stage_run" where
  "SarCaptureSubmitDelete env upcase sysroot st ctx stream originator s =
     (if ctx = None \<or> \<not> SarPreserveReady (sr_store s) \<or> \<not> ge_passive (lk_region env) then (SAR_STAGE_STORED, [], s)
      else SarCaptureLinkPreserve env upcase sysroot st ctx stream (SarCaptureResolveProvenance (ge_name (lk_region env)))
             originator s)"

text \<open>
  A rename or a new hard link. The environment of the target is its own: the file that would be replaced, opened by the
  driver, and its stream.
\<close>

record rename_env =
  rn_info :: bool
  rn_ex_class :: bool
  rn_flags :: u32
  rn_replace_if_exists :: bool
  rn_name_length :: u32
  rn_source :: "u16 list option"
  rn_dest :: "u16 list option"
  rn_open :: bool
  rn_stream :: "SAR_STREAM_CONTEXT option"
  rn_link :: link_env

definition FILE_RENAME_REPLACE_IF_EXISTS :: u32 where "FILE_RENAME_REPLACE_IF_EXISTS = 1"

definition SarCaptureSubmitRenameTarget ::
  "rename_env \<Rightarrow> (u16 \<Rightarrow> u16) \<Rightarrow> u16 list option \<Rightarrow> SAR_STATE \<Rightarrow> SAR_CAPTURE_CTX option \<Rightarrow> PEPROCESS \<Rightarrow> stage_run \<Rightarrow>
   SAR_STAGE_RESULT \<times> link_action list \<times> stage_run" where
  "SarCaptureSubmitRenameTarget env upcase sysroot st ctx originator s =
     (let replace = (if rn_ex_class env then (rn_flags env AND FILE_RENAME_REPLACE_IF_EXISTS) \<noteq> 0 else rn_replace_if_exists env)
      in if ctx = None \<or> \<not> rn_info env \<or> \<not> SarPreserveReady (sr_store s) \<or> \<not> ge_passive (lk_region (rn_link env)) \<or>
            \<not> replace \<or> rn_name_length env = 0
         then (SAR_STAGE_STORED, [], s)
         else
           (case rn_dest env of
              None \<Rightarrow> (SAR_STAGE_STORED, [], s)
            | Some dest \<Rightarrow>
                if \<not> rn_open env then (SAR_STAGE_STORED, [], s)
                else SarCaptureLinkPreserve (rn_link env) upcase sysroot st ctx (rn_stream env)
                       (SarCaptureResolveProvenance (Some dest)) originator s))"

definition SarCaptureSubmitRenameRekey :: "rename_env \<Rightarrow> SAR_CAPTURE_CTX option \<Rightarrow> stage_run \<Rightarrow> stage_run" where
  "SarCaptureSubmitRenameRekey env ctx s =
     (if ctx = None \<or> \<not> rn_info env \<or> \<not> SarPreserveReady (sr_store s) \<or> \<not> ge_passive (lk_region (rn_link env)) \<or>
         rn_name_length env = 0
      then s
      else
        (case (rn_source env, rn_dest env) of
           (Some src, Some dest) \<Rightarrow>
             s\<lparr>sr_store := SarPreserveRename (sr_store s) (SarCaptureResolveProvenance (Some src))
                 (SarCaptureResolveProvenance (Some dest))\<rparr>
         | _ \<Rightarrow> s))"

text \<open>
  An open that supersedes or overwrites: the driver opens the file of that name first.
\<close>

definition SarCaptureResolveProvenanceFo :: "u16 list option \<Rightarrow> u16 list" where
  "SarCaptureResolveProvenanceFo name = SarCaptureResolveProvenance name"

record supersede_env =
  se_top_level :: bool
  se_opened_name :: "u16 list option"
  se_open :: bool
  se_stream :: "SAR_STREAM_CONTEXT option"
  se_region :: region_env

definition SarCaptureSubmitSupersede ::
  "supersede_env \<Rightarrow> (u16 \<Rightarrow> u16) \<Rightarrow> u16 list option \<Rightarrow> SAR_STATE \<Rightarrow> SAR_CAPTURE_CTX option \<Rightarrow> PEPROCESS \<Rightarrow> stage_run \<Rightarrow>
   SAR_STAGE_RESULT \<times> stage_run" where
  "SarCaptureSubmitSupersede env upcase sysroot st ctx originator s =
     (if ctx = None \<or> \<not> SarPreserveReady (sr_store s) \<or> \<not> ge_passive (se_region env) \<or> se_top_level env \<or>
         se_opened_name env = None \<or> \<not> se_open env \<or> SarCaptureStreamConfidentBlind (se_stream env)
      then (SAR_STAGE_STORED, s)
      else
        let path = SarCaptureResolveProvenanceFo (ge_name (se_region env))
        in if hd path \<noteq> 0 \<and> \<not> SarCaptureProvenanceIsOwn path
           then SarCaptureWholeContent (se_region env) upcase sysroot st path originator s
           else (SAR_STAGE_STORED, s))"

end
