(* ===== verification/Capture_Correct.thy ===== *)
theory Capture_Correct
  imports Capture_Preserve Preserve_Stage
begin

text \<open>
  What staging the pieces of a view and the gaps between saved ranges leaves in the store: the range of a write is held,
  with the bytes the file had, whenever the driver reports it as stored.
\<close>

section \<open>What one request of the store leaves alone\<close>

definition young :: "u64 \<Rightarrow> SAR_PRESERVE \<Rightarrow> SAR_PRESERVE \<Rightarrow> bool" where
  "young now p q \<longleftrightarrow> same_store p q \<and> sp_retention_100ns q = sp_retention_100ns p \<and>
     set (sp_records q) \<subseteq> set (sp_records p) \<union> {r. pr_capture_time r = now}"

lemma young_refl: "young now p p" by (simp add: young_def same_store_def)

lemma young_trans: "young now p q \<Longrightarrow> young now q q' \<Longrightarrow> young now p q'"
  by (auto simp: young_def same_store_def)

lemma young_evicted: "stage_evicted p q \<Longrightarrow> young now p q"
  by (auto simp: young_def stage_evicted_def same_store_def dest: list_emb_set)

lemma alloc_keeps:
  "SarPresAlloc rebuild p len = (off, p') \<Longrightarrow> sp_retention_100ns p' = sp_retention_100ns p \<and> sp_records p' = sp_records p"
  by (auto simp: SarPresAlloc_def SarPresFreeRebuild_def Let_def split: if_splits option.splits prod.splits)

lemma append_set: "set (snd (sar_preserve_append rs cap rec)) \<subseteq> insert rec (set rs)"
  by (auto simp: sar_preserve_append_def Let_def split: option.splits prod.splits)

lemma young_store: "young (sa_now a) p (stage_store_of (stage_store env a g_off g_len ct_len p d))"
proof -
  let ?rec = "\<lambda>off iv. (sar_preserve_record_init (Some (sa_path a)) g_off g_len (sa_now a) off ct_len (sa_actor a) (Some iv) 16
      (Some (drop (unat (ucast (g_off - sa_offset a) :: u32)) (sa_plaintext a))) (ucast (ucast g_len :: u32)))
      \<lparr>pr_causing_image_path := sa_causing_path a\<rparr>"
  have time: "pr_capture_time (?rec off iv) = sa_now a" for off iv
    by (simp add: sar_preserve_record_init_def Let_def)
  have alloc: "young (sa_now a) p q \<and> sp_records q = sp_records p" if "SarPresAlloc rebuild p len = (off, q)" for rebuild len off q
    using sp_store_key_alloc [OF that] alloc_keeps [OF that] by (simp add: young_def same_store_def)
  have app: "young (sa_now a) p (q\<lparr>sp_records := rs\<rparr>)"
    if "young (sa_now a) p q" "sp_records q = sp_records p" "sar_preserve_append (sp_records q) cap (?rec off iv) = (rc, rs)"
    for q rs cap off iv rc
  proof -
    have "set rs \<subseteq> insert (?rec off iv) (set (sp_records q))"
      using append_set [of "sp_records q" cap "?rec off iv"] that(3) by simp
    then show ?thesis using that(1,2) time [of off iv] by (auto simp: young_def same_store_def)
  qed
  have dirty: "young (sa_now a) p (q\<lparr>sp_free_dirty := b\<rparr>)" "young (sa_now a) p (q\<lparr>sp_dirty := b\<rparr>)"
    if "young (sa_now a) p q" for q b
    using that by (simp_all add: young_def same_store_def)
  show ?thesis
    by (auto simp: stage_store_def Let_def young_refl dest!: alloc intro!: dirty app split: option.split prod.split)
qed

lemma young_step: "young (sa_now a) p (stage_store_of (stage_step env a cursor p d))"
proof (rule stage_step_cases [of p a cursor env d], goal_cases)
  case 1
  then show ?case by (simp add: young_refl)
next
  case (2 q)
  then show ?case by (simp add: young_evicted)
next
  case (3 g_off g_len q)
  then show ?case using young_trans [OF young_evicted [OF 3(2)] young_store] by simp
qed

lemma young_loop: "stage_loop env a k staged cursor p d = (r, staged', p', d') \<Longrightarrow> young (sa_now a) p p'"
proof (induction env a k staged cursor p d rule: stage_loop.induct)
  case (1 env a k staged cursor p d)
  note step = young_step [of a p "env k" cursor d]
  show ?case
  proof (cases "cursor < sa_end a")
    case True
    show ?thesis
    proof (cases "stage_step (env k) a cursor p d")
      case (Stage_Break r1 p1 d1)
      then show ?thesis using "1.prems" step True by (simp add: stage_loop.simps [of env a k])
    next
      case (Stage_Next c p1 d1)
      have "young (sa_now a) p1 p'"
        using "1.IH" [OF True Stage_Next] "1.prems" True Stage_Next by (simp add: stage_loop.simps [of env a k])
      then show ?thesis using young_trans step Stage_Next by fastforce
    qed
  qed (use "1.prems" young_refl in \<open>simp add: stage_loop.simps [of env a k]\<close>)
qed

lemma young_stage:
  assumes "SarPreserveStage env now st (Some p) d path offset len actor plaintext plen resv = (r, store, d')"
  obtains p' where "store = Some p'" "young now p p'"
proof -
  define a where "a = stage_params st now path offset len actor plaintext resv"
  obtain r1 s1 p1 d1 where loop: "stage_loop env a 0 False offset (fst (evict_aged now p)) d = (r1, s1, p1, d1)"
    by (metis prod_cases4)
  have "young now p p1"
    using young_trans [OF young_evicted [OF evict_aged_filter(2) [of p now]] young_loop [OF loop]]
    by (simp add: a_def stage_params_def young_def same_store_def)
  then show thesis
    using assms loop young_refl [of now p] by (auto intro!: that simp: SarPreserveStage_def Let_def a_def stage_params_def split: if_splits)
qed

section \<open>The store during one operation\<close>

text \<open>
  The platform during the operation: the cipher can be undone, the free list can be rebuilt, and the readings of the clock
  lie within the retention period of the records.
\<close>

definition world_ok :: "decryptor \<Rightarrow> stage_world \<Rightarrow> u64 \<Rightarrow> bool" where
  "world_ok D w retention \<longleftrightarrow> (\<forall>k j. env_wf D (sw_env w k j)) \<and> (\<forall>k. se_rebuild (sw_env w k 0)) \<and>
     (\<forall>j k. sw_now w j < sw_now w k \<longrightarrow> sw_now w k - sw_now w j < retention)"

text \<open>
  The store has every record it started with that is still there unharmed, and records of this file that hold the bytes
  the file has now; no record of the file is old enough to be evicted.
\<close>

definition saving ::
  "decryptor \<Rightarrow> stage_world \<Rightarrow> u16 list \<Rightarrow> bytes \<Rightarrow> SAR_PRESERVE \<Rightarrow> payload_file \<Rightarrow> nat \<Rightarrow> stage_run \<Rightarrow> bool" where
  "saving D w path contents p0 d0 bound s \<longleftrightarrow>
     (\<exists>p. sr_store s = Some p \<and> store_ok D p (sr_data s) \<and> same_store p0 p \<and> sp_ready p \<and>
        sp_retention_100ns p = sp_retention_100ns p0 \<and> space_ok True bound p \<and>
        (\<forall>r \<in> set (sp_records p).
           r \<in> set (sp_records p0) \<and>
             (\<forall>pt. record_holds D (sp_store_key p0) d0 r pt \<longrightarrow> record_holds D (sp_store_key p0) (sr_data s) r pt) \<or>
           pr_provenance_path r = path \<and>
             record_holds D (sp_store_key p0) (sr_data s) r
               (slice contents (unat (pr_provenance_offset r)) (unat (pr_provenance_length r)))) \<and>
        (\<forall>r \<in> set (sp_records p). sar_pres_path_eq (pr_provenance_path r) path \<longrightarrow> (\<forall>k. \<not> aged (sw_now w k) p0 r)))"

definition run_held :: "u16 list \<Rightarrow> stage_run \<Rightarrow> u64 \<Rightarrow> bool" where
  "run_held path s x \<longleftrightarrow> (case sr_store s of None \<Rightarrow> False | Some p \<Rightarrow> pres_held (sp_records p) path x)"

definition held_grows :: "u16 list \<Rightarrow> stage_run \<Rightarrow> stage_run \<Rightarrow> bool" where
  "held_grows path s s' \<longleftrightarrow> (\<forall>x. run_held path s x \<longrightarrow> run_held path s' x)"

definition span_held :: "u16 list \<Rightarrow> stage_run \<Rightarrow> nat \<Rightarrow> nat \<Rightarrow> bool" where
  "span_held path s a b \<longleftrightarrow> (\<forall>x. a \<le> unat x \<longrightarrow> unat x < b \<longrightarrow> run_held path s x)"

lemma held_grows_refl: "held_grows path s s" by (simp add: held_grows_def)

lemma held_grows_trans: "held_grows path s s' \<Longrightarrow> held_grows path s' s'' \<Longrightarrow> held_grows path s s''"
  by (simp add: held_grows_def)

lemma span_held_grows: "span_held path s a b \<Longrightarrow> held_grows path s s' \<Longrightarrow> span_held path s' a b"
  by (simp add: span_held_def held_grows_def)

lemma span_held_join: "span_held path s a b \<Longrightarrow> span_held path s b c \<Longrightarrow> span_held path s a c"
  unfolding span_held_def by (meson not_le)

lemma saving_mono: "saving D w path contents p0 d0 bound s \<Longrightarrow> bound \<le> bound' \<Longrightarrow> saving D w path contents p0 d0 bound' s"
  unfolding saving_def using space_ok_mono by blast

text \<open>
  The file whose range is staged and the process that destroys it.
\<close>

definition file_ok :: "SAR_STATE \<Rightarrow> u16 list \<Rightarrow> u64 \<Rightarrow> bytes \<Rightarrow> bool" where
  "file_ok st path actor contents \<longleftrightarrow> length path = 260 \<and> copy_path 260 path = path \<and> length contents < 2 ^ 63 \<and>
     length (snd (SarStateImageByStartKey st actor)) = 260"

lemma slice_inside:
  "off \<le> a \<Longrightarrow> a + len \<le> off + n \<Longrightarrow> slice (slice contents off n) (a - off) len = slice contents a len"
  by (simp add: slice_def drop_take min_absorb2 add.commute)

lemma stage_saves:
  assumes inv: "saving D w path contents p0 d0 bound s" and w: "world_ok D w (sp_retention_100ns p0)"
    and fl: "file_ok st path actor contents" and mode: "SarStateModeGet st = SEMANTICS_AR_MODE_ENFORCE"
    and n: "0 < n" "n \<le> SAR_PRESERVE_STAGE_MAX" "off + n \<le> length contents" and room: "bound + 16 * n < 2 ^ 64"
    and m: "unat (m :: u32) = n" "unat (o64 :: u64) = off" and p: "sr_store s = Some p"
    and stage: "SarPreserveStage (sw_env w k) (sw_now w k) st (Some p) (sr_data s) path o64 (ucast m) actor
        (slice contents off n) m False = (r, Some p', d')" and s': "s' = \<lparr>sr_calls = k', sr_store = Some p', sr_data = d'\<rparr>"
  shows "saving D w path contents p0 d0 (bound + 16 * n) s'" "held_grows path s s'"
    "\<not> stage_bad r \<Longrightarrow> span_held path s' off (off + n)"
proof -
  have p': "store_ok D p (sr_data s)" "same_store p0 p" "sp_ready p" "sp_retention_100ns p = sp_retention_100ns p0"
      "space_ok True bound p" "\<And>q. q \<in> set (sp_records p) \<Longrightarrow> q \<in> set (sp_records p0) \<and>
          (\<forall>pt. record_holds D (sp_store_key p0) d0 q pt \<longrightarrow> record_holds D (sp_store_key p0) (sr_data s) q pt) \<or>
        pr_provenance_path q = path \<and> record_holds D (sp_store_key p0) (sr_data s) q
          (slice contents (unat (pr_provenance_offset q)) (unat (pr_provenance_length q)))"
      "\<And>q j. q \<in> set (sp_records p) \<Longrightarrow> sar_pres_path_eq (pr_provenance_path q) path \<Longrightarrow> \<not> aged (sw_now w j) p0 q"
    using inv p by (auto simp: saving_def)
  have y: "young (sw_now w k) p p'" using young_stage [OF stage] by auto
  have len: "length (slice contents off n) = n" using n(3) by (simp add: slice_def)
  have req: "stage_request st path o64 (slice contents off n) m actor"
    using fl m n(2,3) unfolding stage_request_def file_ok_def len SAR_PRESERVE_STAGE_MAX_def by simp
  have env: "\<forall>j. env_wf D (sw_env w k j)" "se_rebuild (sw_env w k 0)" using w by (simp_all add: world_ok_def)
  have space: "space_ok (se_rebuild (sw_env w k 0)) bound p" using p'(5) env(2) by simp
  have room': "bound + 16 * unat m < 2 ^ 64" using room m(1) by simp
  note oc = stage_request_outcome [OF p'(1) space env(1) req room' stage]
  have stop: "unat (o64 + ucast m) = off + n" using stage_wf_params(2) [OF req] m by simp
  have key: "sp_store_key p = sp_store_key p0" using p'(2) by (simp add: same_store_def)
  have fresh: "pr_provenance_path q = path \<and> record_holds D (sp_store_key p0) d' q
      (slice contents (unat (pr_provenance_offset q)) (unat (pr_provenance_length q)))"
    if "fresh_record D (sp_store_key p0) (stage_params st (sw_now w k) path o64 (ucast m) actor (slice contents off n) False) d' q" for q
    using that slice_inside [of off "unat (pr_provenance_offset q)" "unat (pr_provenance_length q)" n contents]
    by (simp add: fresh_record_def original_bytes_def stage_params_def stop m(2))
  have rel: "q \<in> set (sp_records p) \<and>
        (\<forall>pt. record_holds D (sp_store_key p0) (sr_data s) q pt \<longrightarrow> record_holds D (sp_store_key p0) d' q pt) \<or>
      pr_provenance_path q = path \<and> record_holds D (sp_store_key p0) d' q
        (slice contents (unat (pr_provenance_offset q)) (unat (pr_provenance_length q)))" if "q \<in> set (sp_records p')" for q
    using oc(1) that fresh [of q] unfolding stage_rel_def key by blast
  have all: "q \<in> set (sp_records p0) \<and>
        (\<forall>pt. record_holds D (sp_store_key p0) d0 q pt \<longrightarrow> record_holds D (sp_store_key p0) d' q pt) \<or>
      pr_provenance_path q = path \<and> record_holds D (sp_store_key p0) d' q
        (slice contents (unat (pr_provenance_offset q)) (unat (pr_provenance_length q)))" if "q \<in> set (sp_records p')" for q
    using rel [OF that] p'(6) [of q] by blast
  have kept: "q \<in> set (sp_records p')" if "q \<in> set (sp_records p)" "sar_pres_path_eq (pr_provenance_path q) path" for q
    using oc(3) [OF mode] that p'(7) [OF that, of k] p'(4) by (auto simp: aged_def)
  have unaged: "\<not> aged (sw_now w j) p0 q" if "q \<in> set (sp_records p')" "sar_pres_path_eq (pr_provenance_path q) path" for q j
  proof (cases "q \<in> set (sp_records p)")
    case True
    then show ?thesis using p'(7) that(2) by blast
  next
    case False
    then have "pr_capture_time q = sw_now w k" using y that(1) by (auto simp: young_def)
    then show ?thesis using w by (auto simp: aged_def world_ok_def not_le)
  qed
  have "same_store p0 p'" "sp_ready p'" "sp_retention_100ns p' = sp_retention_100ns p0"
    using y p'(2-4) by (simp_all add: young_def same_store_def)
  moreover have "store_ok D p' d'" using oc(1) by (simp add: stage_rel_def)
  ultimately show "saving D w path contents p0 d0 (bound + 16 * n) s'"
    using oc(2) unaged all unfolding saving_def s' m(1) by (intro exI [of _ p']) simp
  show "held_grows path s s'"
    using kept p unfolding held_grows_def run_held_def s' pres_held_def list_ex_iff pres_holds_def by auto
  show "span_held path s' off (off + n)" if "\<not> stage_bad r"
  proof -
    have "r = SAR_STAGE_STORED \<or> r = SAR_STAGE_ALREADY_COVERED" using that by (cases r) (simp_all add: stage_bad_def)
    moreover have "m \<noteq> 0" "o64 + ucast m \<noteq> o64" using m n(1) stop by auto
    moreover from this(2) have "ucast m \<noteq> (0 :: u64)" by auto
    ultimately have "\<forall>x. o64 \<le> x \<and> x < o64 + ucast m \<longrightarrow> pres_held (sp_records p') path x" by (intro oc(4) [OF mode])
    then show ?thesis unfolding span_held_def run_held_def s' word_le_nat_alt word_less_nat_alt stop m(2) by simp
  qed
qed

lemma stage_call_saves:
  assumes inv: "saving D w path contents p0 d0 bound s" and w: "world_ok D w (sp_retention_100ns p0)"
    and fl: "file_ok st path actor contents" and mode: "SarStateModeGet st = SEMANTICS_AR_MODE_ENFORCE"
    and n: "0 < n" "n \<le> SAR_PRESERVE_STAGE_MAX" "off + n \<le> length contents" and room: "bound + 16 * n < 2 ^ 64"
    and out: "stage_call w st path actor (slice contents off n) off s = (ro, s')"
  shows "saving D w path contents p0 d0 (bound + 16 * n) s' \<and> held_grows path s s' \<and>
    (\<forall>r. ro = Some r \<longrightarrow> \<not> stage_bad r \<longrightarrow> span_held path s' off (off + n))"
proof (cases "sw_fault w (sr_calls s)")
  case True
  then have s': "ro = None" "s' = s\<lparr>sr_calls := Suc (sr_calls s)\<rparr>" using out by (simp_all add: stage_call_def)
  have "saving D w path contents p0 d0 (bound + 16 * n) s" by (rule saving_mono [OF inv]) simp
  then show ?thesis unfolding s' by (simp add: saving_def held_grows_def run_held_def)
next
  case False
  have len: "length (slice contents off n) = n" using n(3) by (simp add: slice_def)
  have un: "unat (word_of_nat n :: u32) = n" using n(2) by (simp add: unsigned_of_nat take_bit_nat_eq_self SAR_PRESERVE_STAGE_MAX_def)
  have uoff: "unat (word_of_nat off :: u64) = off" using n(3) fl by (simp add: file_ok_def unsigned_of_nat take_bit_nat_eq_self)
  obtain p where p: "sr_store s = Some p" using inv by (auto simp: saving_def)
  obtain r store d' where stage: "SarPreserveStage (sw_env w (sr_calls s)) (sw_now w (sr_calls s)) st (Some p) (sr_data s) path
      (word_of_nat off) (ucast (word_of_nat n :: u32)) actor (slice contents off n) (word_of_nat n) False = (r, store, d')"
    by (metis prod_cases3)
  obtain p' where store: "store = Some p'" using young_stage [OF stage] by blast
  have s': "ro = Some r" "s' = \<lparr>sr_calls = Suc (sr_calls s), sr_store = Some p', sr_data = d'\<rparr>"
    using out stage unfolding stage_call_def Let_def len p store by (simp_all add: False)
  show ?thesis
    using stage_saves [OF inv w fl mode n room un uoff p stage [unfolded store] s'(2)] s'(1) by blast
qed

text \<open>
  A span, piece by piece.
\<close>

lemma stage_pieces_saves:
  assumes "saving D w path contents p0 d0 bound s" and w: "world_ok D w (sp_retention_100ns p0)"
    and fl: "file_ok st path actor contents" and mode: "SarStateModeGet st = SEMANTICS_AR_MODE_ENFORCE"
    and "stop \<le> length contents" "bound + 16 * (stop - off) < 2 ^ 64"
    and "base \<le> off" "view = slice contents base len" "stop \<le> base + len"
    and "stage_pieces w st path actor view base off stop worst s = (r, s')"
  shows "saving D w path contents p0 d0 (bound + 16 * (stop - off)) s' \<and> held_grows path s s' \<and>
    (\<not> stage_bad r \<longrightarrow> \<not> stage_bad worst \<and> span_held path s' off stop)"
  using assms(1,6,7,10)
proof (induction "stop - off" arbitrary: off worst s bound rule: less_induct)
  case less
  note prems = less.prems and unf = stage_pieces.simps [of w st path actor view base off stop worst s]
  show ?case
  proof (cases "off < stop")
    case False
    then have "r = worst" "s' = s" using prems(4) unfolding unf by simp_all
    then show ?thesis using prems(1) False by (simp add: held_grows_refl span_held_def)
  next
    case True
    define n where "n = min (stop - off) SAR_PRESERVE_STAGE_MAX"
    have n: "0 < n" "n \<le> SAR_PRESERVE_STAGE_MAX" "off + n \<le> length contents" "off + n \<le> stop"
      using True assms(5) by (auto simp: n_def SAR_PRESERVE_STAGE_MAX_def)
    have sl: "slice view (off - base) n = slice contents off n"
      unfolding assms(8) by (rule slice_inside) (use n(4) prems(3) assms(9) in simp_all)
    obtain ro s1 where call: "stage_call w st path actor (slice contents off n) off s = (ro, s1)" by fastforce
    have room: "bound + 16 * n < 2 ^ 64" using prems(2) n(4) True by linarith
    note step = stage_call_saves [OF prems(1) w fl mode n(1-3) room call]
    have le: "bound + 16 * n \<le> bound + 16 * (stop - off)" using n(4) by simp
    show ?thesis
    proof (cases ro)
      case None
      then have "r = SAR_STAGE_FAILED" "s' = s1" using prems(4) True call unfolding unf Let_def n_def [symmetric] sl by simp_all
      then show ?thesis using step saving_mono [OF _ le] by (auto simp: stage_bad_def)
    next
      case (Some r1)
      have more: "stage_pieces w st path actor view base (off + SAR_PRESERVE_STAGE_MAX) stop (if stage_bad r1 then r1 else worst) s1 = (r, s')"
        using prems(4) True call Some unfolding unf Let_def n_def [symmetric] sl by simp
      have "stop - (off + SAR_PRESERVE_STAGE_MAX) < stop - off" using True by (simp add: SAR_PRESERVE_STAGE_MAX_def)
      moreover have "n + (stop - (off + SAR_PRESERVE_STAGE_MAX)) = stop - off"
        using True by (simp add: n_def min_def)
      then have b: "bound + 16 * n + 16 * (stop - (off + SAR_PRESERVE_STAGE_MAX)) = bound + 16 * (stop - off)" by simp
      ultimately have rest: "saving D w path contents p0 d0 (bound + 16 * (stop - off)) s' \<and> held_grows path s1 s' \<and>
          (\<not> stage_bad r \<longrightarrow> \<not> stage_bad (if stage_bad r1 then r1 else worst) \<and>
             span_held path s' (off + SAR_PRESERVE_STAGE_MAX) stop)"
        using less.hyps [of "off + SAR_PRESERVE_STAGE_MAX" "bound + 16 * n", OF _ _ _ _ more] step prems(2,3) unfolding b by simp
      have "off + n = off + SAR_PRESERVE_STAGE_MAX \<or> off + n = stop \<and> stop \<le> off + SAR_PRESERVE_STAGE_MAX"
        using True by (auto simp: n_def)
      moreover have "span_held path s' off (off + n)" if "\<not> stage_bad r1"
        using step Some that rest span_held_grows by blast
      ultimately show ?thesis
        using rest step held_grows_trans span_held_join by (auto split: if_splits)
    qed
  qed
qed

lemma span_saves:
  assumes inv: "saving D w path contents p0 d0 (B + 16 * a) s" and w: "world_ok D w (sp_retention_100ns p0)"
    and fl: "file_ok st path actor contents" and mode: "SarStateModeGet st = SEMANTICS_AR_MODE_ENFORCE"
    and b: "a \<le> b" "b \<le> stop" "stop \<le> length contents" "B + 16 * stop < 2 ^ 64" and base: "base \<le> a"
    and view: "view = slice contents base (stop - base)"
    and out: "SarCaptureStageSpan w st path actor view base a b s = (r, s')"
  shows "saving D w path contents p0 d0 (B + 16 * b) s'" "held_grows path s s'" "\<not> stage_bad r \<Longrightarrow> span_held path s' a b"
proof -
  have eq: "B + 16 * a + 16 * (b - a) = B + 16 * b" using b(1) by simp
  have "b \<le> length contents" "B + 16 * a + 16 * (b - a) < 2 ^ 64" "b \<le> base + (stop - base)" using b base by simp_all
  note pieces = stage_pieces_saves [OF inv w fl mode this(1,2) base view this(3) out [unfolded SarCaptureStageSpan_def], unfolded eq]
  show "saving D w path contents p0 d0 (B + 16 * b) s'" "held_grows path s s'" "\<not> stage_bad r \<Longrightarrow> span_held path s' a b"
    using pieces by blast+
qed

text \<open>
  The gaps between the ranges that are saved already.
\<close>

lemma region_loop_saves:
  assumes w: "world_ok D w (sp_retention_100ns p0)" and fl: "file_ok st path actor contents"
    and mode: "SarStateModeGet st = SEMANTICS_AR_MODE_ENFORCE" and stop: "stop \<le> length contents" "B + 16 * stop < 2 ^ 64"
    and view: "view = slice contents base (stop - base)"
    and "saving D w path contents p0 d0 (B + 16 * cursor) s" "base \<le> cursor"
    and "\<forall>x. captured rs x \<longrightarrow> run_held path s x" "\<forall>q \<in> set rs. rg_start q < rg_end q"
    and "region_loop w st path actor view base stop rs (cursor, worst, s) = (cursor', worst', s')"
  shows "saving D w path contents p0 d0 (B + 16 * cursor') s' \<and> cursor \<le> cursor' \<and> held_grows path s s' \<and>
    (\<not> stage_bad worst' \<longrightarrow> \<not> stage_bad worst \<and> span_held path s' cursor cursor')"
  using assms(7-11)
proof (induction rs arbitrary: cursor worst s)
  case Nil
  then show ?case by (auto simp: held_grows_refl span_held_def)
next
  case (Cons q rs)
  let ?a = "unat (rg_start q)" and ?b = "unat (rg_end q)"
  note prems = Cons.prems and IH = Cons.IH
  consider (stop) "\<not> cursor < stop \<or> cursor < ?b \<and> ?a \<ge> stop" | (skip) "cursor < stop" "?b \<le> cursor"
    | (use) "cursor < stop" "cursor < ?b" "?a < stop" by linarith
  then show ?case
  proof cases
    case stop
    then have "cursor' = cursor" "worst' = worst" "s' = s" using prems(5) by (auto simp: Let_def split: if_splits)
    then show ?thesis using prems(1) by (simp add: held_grows_refl span_held_def)
  next
    case skip
    then show ?thesis using IH [OF prems(1,2)] prems(3-5) by simp
  next
    case use
    define s1 where "s1 = (if cursor < ?a then snd (SarCaptureStageSpan w st path actor view base cursor ?a s) else s)"
    define w1 where "w1 = (if cursor < ?a then
        let r = fst (SarCaptureStageSpan w st path actor view base cursor ?a s) in if stage_bad r then r else worst else worst)"
    have more: "region_loop w st path actor view base stop rs (?b, w1, s1) = (cursor', worst', s')"
      using prems(5) use by (simp add: Let_def s1_def w1_def split_beta split: if_splits)
    have first: "saving D w path contents p0 d0 (B + 16 * max cursor ?a) s1 \<and> held_grows path s s1 \<and>
        (\<not> stage_bad w1 \<longrightarrow> \<not> stage_bad worst \<and> span_held path s1 cursor (max cursor ?a))"
    proof (cases "cursor < ?a")
      case True
      obtain r s2 where span: "SarCaptureStageSpan w st path actor view base cursor ?a s = (r, s2)" by fastforce
      show ?thesis
        using span_saves [OF prems(1) w fl mode _ _ stop prems(2) view span] True use(3)
        by (auto simp: s1_def w1_def span Let_def max_def split: if_splits)
    next
      case False
      then show ?thesis using prems(1) by (simp add: s1_def w1_def held_grows_refl span_held_def max_def)
    qed
    have range: "span_held path s1 ?a ?b"
      unfolding span_held_def using prems(3) first
      by (auto simp: held_grows_def range_in_def word_le_nat_alt word_less_nat_alt)
    have ab: "?a < ?b" "max cursor ?a \<le> ?b" using prems(4) use(2) by (auto simp: word_less_nat_alt)
    then have "saving D w path contents p0 d0 (B + 16 * ?b) s1"
      by (intro saving_mono [OF conjunct1 [OF first]]) simp
    moreover have "\<forall>x. captured rs x \<longrightarrow> run_held path s1 x" using prems(3) first by (auto simp: held_grows_def)
    ultimately have rest: "saving D w path contents p0 d0 (B + 16 * cursor') s' \<and> ?b \<le> cursor' \<and> held_grows path s1 s' \<and>
        (\<not> stage_bad worst' \<longrightarrow> \<not> stage_bad w1 \<and> span_held path s' ?b cursor')"
      using IH [of ?b s1 w1] more prems(2,4) use(2) by simp
    have "span_held path s1 cursor ?b" if "span_held path s1 cursor (max cursor ?a)"
      using that range by (auto simp: span_held_def max_def split: if_splits)
    then show ?thesis
      using rest first use(2) held_grows_trans span_held_grows span_held_join by (meson less_imp_le order_trans)
  qed
qed

lemma region_stage_saves:
  assumes w: "world_ok D w (sp_retention_100ns p0)" and fl: "file_ok st path actor contents"
    and mode: "SarStateModeGet st = SEMANTICS_AR_MODE_ENFORCE" and stop: "stop \<le> length contents" "B + 16 * stop < 2 ^ 64"
    and view: "view = slice contents base (stop - base)" and inv: "saving D w path contents p0 d0 B s" "base \<le> offset" "offset \<le> stop"
    and rs: "\<forall>x. captured rs x \<longrightarrow> run_held path s x" "\<forall>q \<in> set rs. rg_start q < rg_end q"
    and out: "region_stage w st path actor view base offset stop rs s = (worst', s')"
  shows "\<exists>bound. saving D w path contents p0 d0 bound s'" "held_grows path s s'"
    "\<not> stage_bad worst' \<Longrightarrow> span_held path s' offset stop"
proof -
  obtain cursor worst1 s1 where loop: "region_loop w st path actor view base stop rs (offset, SAR_STAGE_STORED, s) = (cursor, worst1, s1)"
    by (metis prod_cases3)
  have "saving D w path contents p0 d0 (B + 16 * offset) s" by (rule saving_mono [OF inv(1)]) simp
  note first = region_loop_saves [OF w fl mode stop view this inv(2) rs(1) _ loop]
  have l: "saving D w path contents p0 d0 (B + 16 * cursor) s1" "offset \<le> cursor" "held_grows path s s1"
      "\<not> stage_bad worst1 \<Longrightarrow> span_held path s1 offset cursor"
    using first rs(2) by simp_all
  have res: "(\<exists>bound. saving D w path contents p0 d0 bound s') \<and> held_grows path s s' \<and>
      (\<not> stage_bad worst' \<longrightarrow> span_held path s' offset stop)"
  proof (cases "cursor < stop")
    case True
    obtain r s2 where span: "SarCaptureStageSpan w st path actor view base cursor stop s1 = (r, s2)" by fastforce
    have base: "base \<le> cursor" using inv(2) l(2) by simp
    note rest = span_saves [OF l(1) w fl mode less_imp_le [OF True] order_refl stop base view span]
    have out': "worst' = (if stage_bad r then r else worst1)" "s' = s2" using out True loop span by (simp_all add: region_stage_def)
    have "span_held path s2 offset stop" if "\<not> stage_bad worst'"
    proof -
      have "\<not> stage_bad r" "\<not> stage_bad worst1" using that out'(1) by (simp_all split: if_splits)
      then show ?thesis using span_held_join [OF span_held_grows [OF l(4) rest(2)] rest(3)] by blast
    qed
    then show ?thesis using rest(1) held_grows_trans [OF l(3) rest(2)] unfolding out'(2) by blast
  next
    case False
    then have out': "worst' = worst1" "s' = s1" using out loop by (simp_all add: region_stage_def)
    have "span_held path s1 offset stop" if "span_held path s1 offset cursor"
      using that False by (simp add: span_held_def)
    then show ?thesis using l(1,3,4) unfolding out' by blast
  qed
  then show "\<exists>bound. saving D w path contents p0 d0 bound s'" "held_grows path s s'"
    "\<not> stage_bad worst' \<Longrightarrow> span_held path s' offset stop" by blast+
qed

section \<open>Properties\<close>

text \<open>
  The store and the stream context before a write: the store is intact, ready and has room, no record of the file expires
  during the operation, and the ranges the stream context counts as saved are held by the store.
\<close>

definition region_ready ::
  "decryptor \<Rightarrow> stage_world \<Rightarrow> u16 list \<Rightarrow> bytes \<Rightarrow> SAR_STREAM_CONTEXT \<Rightarrow> SAR_PRESERVE \<Rightarrow> payload_file \<Rightarrow> nat \<Rightarrow> bool" where
  "region_ready D w path contents sc p d bound \<longleftrightarrow>
     store_ok D p d \<and> sp_ready p \<and> space_ok True bound p \<and> bound + 16 * length contents < 2 ^ 64 \<and>
     (\<forall>r \<in> set (sp_records p). sar_pres_path_eq (pr_provenance_path r) path \<longrightarrow> (\<forall>k. \<not> aged (sw_now w k) p r)) \<and>
     ranges_sorted (sx_cap_ranges sc) \<and> (\<forall>x. captured (sx_cap_ranges sc) x \<longrightarrow> pres_held (sp_records p) path x)"

lemma region_ready_saving:
  "region_ready D w path contents sc p d bound \<Longrightarrow> sr_store s = Some p \<Longrightarrow> sr_data s = d \<Longrightarrow>
   saving D w path contents p d bound s"
  unfolding region_ready_def saving_def by (simp add: same_store_def)

lemma aligned_le: "offset AND NOT (SAR_MAP_GRANULARITY - 1) \<le> offset"
  by (rule word_and_le2)

text \<open>
  What is left of the operation when a view of the file can be had: the stream context and the store after staging.
\<close>

lemma region_saved:
  assumes ready: "region_ready D w path contents sc p (sr_data s) bound" "sr_store s = Some p"
    and w: "world_ok D w (sp_retention_100ns p)" and fl: "file_ok st path actor contents"
    and mode: "SarStateModeGet st = SEMANTICS_AR_MODE_ENFORCE"
    and stop: "offset < stop" "stop \<le> word_of_nat (length contents)" and aligned: "aligned \<le> offset"
    and out: "region_stage w st path actor (slice contents (unat aligned) (unat (stop - aligned))) (unat aligned) (unat offset)
        (unat stop) (sx_cap_ranges sc) s = (worst, s')"
    and sc': "sc' = (if worst = SAR_STAGE_STORED then snd (SarCapRangeInsert pool sc offset stop) else sc)"
  shows "\<exists>bound'. saving D w path contents p (sr_data s) bound' s'" "held_grows path s s'" "ranges_sorted (sx_cap_ranges sc')"
    "\<forall>x. captured (sx_cap_ranges sc') x \<longrightarrow> run_held path s' x"
    "worst = SAR_STAGE_STORED \<Longrightarrow> \<forall>x. offset \<le> x \<and> x < stop \<longrightarrow> run_held path s' x"
proof -
  have size: "unat (word_of_nat (length contents) :: u64) = length contents"
    using fl by (simp add: file_ok_def unsigned_of_nat take_bit_nat_eq_self)
  have n: "unat stop \<le> length contents" "unat aligned \<le> unat offset" "unat offset \<le> unat stop"
    using stop aligned size by (simp_all add: word_le_nat_alt word_less_nat_alt)
  have "aligned \<le> stop" using aligned stop(1) by simp
  then have sub: "unat (stop - aligned) = unat stop - unat aligned" by (simp add: unat_sub)
  have r: "bound + 16 * unat stop < 2 ^ 64" "ranges_sorted (sx_cap_ranges sc)" "\<forall>q \<in> set (sx_cap_ranges sc). rg_start q < rg_end q"
      "\<forall>x. captured (sx_cap_ranges sc) x \<longrightarrow> run_held path s x"
    using ready n(1) by (simp_all add: region_ready_def run_held_def ranges_sorted_def)
  note st = region_stage_saves [OF w fl mode n(1) r(1) _ region_ready_saving [OF ready refl] n(2,3) r(4,3) out, unfolded sub, OF refl]
  show "\<exists>bound'. saving D w path contents p (sr_data s) bound' s'" "held_grows path s s'" using st(1,2) by blast+
  have held: "run_held path s' x" if "worst = SAR_STAGE_STORED" "offset \<le> x" "x < stop" for x
    using st(3) that by (simp add: span_held_def stage_bad_def word_le_nat_alt word_less_nat_alt)
  then show "worst = SAR_STAGE_STORED \<Longrightarrow> \<forall>x. offset \<le> x \<and> x < stop \<longrightarrow> run_held path s' x" by blast
  obtain b sc1 where ins: "SarCapRangeInsert pool sc offset stop = (b, sc1)" by fastforce
  note c = cap_range_insert [OF r(2) stop(1) ins]
  show "ranges_sorted (sx_cap_ranges sc')" using c(1) r(2) by (simp add: sc' ins)
  have old: "run_held path s' x" if "captured (sx_cap_ranges sc) x" for x
    using r(4) that st(2) by (simp add: held_grows_def)
  show "\<forall>x. captured (sx_cap_ranges sc') x \<longrightarrow> run_held path s' x"
    using c(2) old held by (auto simp: sc' ins split: if_splits)
qed


text \<open>
  Without a view nothing is saved, and the answer is still that the range is stored.
\<close>

lemma in_place_region_without_view:
  assumes "\<not> ge_section_ctx env \<or> ge_section env = None \<or> \<not> ge_map env"
  shows "fst (SarCaptureInPlaceRegion env upcase sysroot st ctx stream originator offset len s) = SAR_STAGE_STORED \<and>
    snd (snd (SarCaptureInPlaceRegion env upcase sysroot st ctx stream originator offset len s)) = s"
  using assms by (auto simp: SarCaptureInPlaceRegion_def Let_def split: option.split bool.split)

definition world_example :: stage_world where
  "world_example = \<lparr>sw_env = (\<lambda>_. stage_example), sw_now = (\<lambda>_. 1000), sw_fault = (\<lambda>_. False)\<rparr>"

definition region_example :: region_env where
  "region_example = \<lparr>ge_passive = True, ge_name = Some (replicate 3 65), ge_section_ctx = True,
     ge_section = Some (replicate 100 0 @ [1, 2, 3, 4, 5]), ge_map = True, ge_range_pool = True, ge_start_key = (\<lambda>_. 7),
     ge_world = world_example\<rparr>"

definition stream_example :: SAR_STREAM_CONTEXT where
  "stream_example = \<lparr>sx_flags = 0, sx_read_length = 0, sx_read_offset = 0, sx_cap_ranges = [], sx_cap_capacity = 0,
     sx_mmap_map = None, sx_mmap_path = None, sx_mmap_arm_pid = 0, sx_mmap_arm_key = 0, sx_mmap_reserved = 0, sx_read_sample = []\<rparr>"

definition run_example :: stage_run where
  "run_example = \<lparr>sr_calls = 0, sr_store = Some store_example, sr_data = (\<lambda>_. 0)\<rparr>"

lemma region_example_ok:
  "region_ready (\<lambda>key iv c. Some (rev c)) world_example path_example (replicate 100 0 @ [1, 2, 3, 4, 5]) stream_example
     store_example (\<lambda>_. 0) 0"
  "world_ok (\<lambda>key iv c. Some (rev c)) world_example (sp_retention_100ns store_example)"
  "file_ok state_example path_example 7 (replicate 100 0 @ [1, 2, 3, 4, 5])"
  "SarCaptureResolveProvenance (Some (replicate 3 65)) = path_example" "\<not> SarCapturePathExempt (\<lambda>c. c) None path_example"
  using stage_example_ok
  subgoal by (simp add: region_ready_def stream_example_def ranges_sorted_def) (simp add: store_example_def SarPreserveCreate_def stage_example_def)
  subgoal using stage_example_ok by (simp add: world_ok_def world_example_def) (simp add: stage_example_def)
  subgoal using stage_example_ok(4) by (simp add: file_ok_def stage_request_def)
  subgoal by (simp add: SarCaptureResolveProvenance_def path_example_def SEMANTICS_AR_PROVENANCE_PATH_MAX_def Let_def)
  subgoal by code_simp
  done

lemma region_example_stored:
  "\<exists>stream s. SarCaptureInPlaceRegion region_example (\<lambda>c. c) None state_example (Some c) (Some stream_example) 1 100 5 run_example =
     (SAR_STAGE_STORED, stream, s)"
proof -
  obtain q e where staged: "staged_example = (SAR_STAGE_STORED, Some q, e)" using staged_example_stored by blast
  have call: "stage_call world_example state_example path_example 7 [1, 2, 3, 4, 5] 100 run_example =
      (Some SAR_STAGE_STORED, \<lparr>sr_calls = 1, sr_store = Some q, sr_data = e\<rparr>)"
    using staged by (simp add: stage_call_def world_example_def run_example_def staged_example_def Let_def)
  have sl: "slice (slice (replicate 100 0 @ [1, 2, 3, 4, 5]) 0 105) 100 5 = ([1, 2, 3, 4, 5] :: bytes)"
    by (simp add: slice_def)
  have "stage_pieces world_example state_example path_example 7 (slice (replicate 100 0 @ [1, 2, 3, 4, 5]) 0 105) 0 100 105
      SAR_STAGE_STORED run_example = (SAR_STAGE_STORED, \<lparr>sr_calls = 1, sr_store = Some q, sr_data = e\<rparr>)"
    by (subst stage_pieces.simps, subst stage_pieces.simps)
      (simp add: SAR_PRESERVE_STAGE_MAX_def sl call stage_bad_def)
  then have "region_stage world_example state_example path_example 7 (slice (replicate 100 0 @ [1, 2, 3, 4, 5]) 0 105) 0 100 105 []
      run_example = (SAR_STAGE_STORED, \<lparr>sr_calls = 1, sr_store = Some q, sr_data = e\<rparr>)"
    by (simp add: region_stage_def SarCaptureStageSpan_def stage_bad_def)
  then show ?thesis
    using region_example_ok(5)
    by (simp add: SarCaptureInPlaceRegion_def Let_def region_example_def region_example_ok(4) run_example_def [symmetric]
        stream_example_def SAR_MAP_GRANULARITY_def)
qed


end
