(* ===== verification/Spec2Isabelle.thy ===== *)
theory Spec2Isabelle
  imports Keystore_Mgr Preserve_Store Recover_Roundtrip Gate Convict Exemption Preserve_Stage Commport Phantom_Callbacks
    Capture Capture_Correct
begin

text \<open>
  A verification library for Semantics-AR, a driver and service that recover files from encryption by ransomware. This
  header describes the program's parts, where each is modelled, what is shown of it, and what is left out. All paths are
  relative to \<^verbatim>\<open>src/\<close>.

  \<^bold>\<open>The program.\<close> The filter driver (\<^verbatim>\<open>driver/\<close>) sees every write, delete, rename and mapping. Before an operation destroys
  bytes, it saves them in the preserve store (\<^verbatim>\<open>driver/preserve.c\<close> over \<^verbatim>\<open>engine/src/preserve.c\<close>). What a process writes
  goes to the conviction engine (\<^verbatim>\<open>engine/\<close>, called from \<^verbatim>\<open>capture/src/capture.c\<close>), which tries the keys found in the
  memory of the process against the written bytes. A key that explains them becomes a record of the keystore, and the
  files encrypted with it can be recovered from it (\<^verbatim>\<open>driver/recovery.c\<close> over \<^verbatim>\<open>engine/src/recover.c\<close>). Processes that an
  administrator whitelisted are exempt (\<^verbatim>\<open>driver/state.c\<close>, \<^verbatim>\<open>control/src/whitelist.c\<close>). Phantom files are shown to all
  others, and touching them is evidence (\<^verbatim>\<open>driver/phantom.c\<close>). A service talks to the driver over a port after a signed
  handshake (\<^verbatim>\<open>driver/commport.c\<close>, \<^verbatim>\<open>control/src/\<close>).

  \<^bold>\<open>How the code is modelled.\<close> C integers are words of their width, so that sums wrap as in C; a length or an index is a
  natural number where a bound of the code keeps it from wrapping. A buffer is a list of bytes; a pointer the code tests
  against NULL is an option; an access outside a buffer is \<open>None\<close> where the code does not exclude it (the verifiers of the
  stores, recovery of a buffer). A structure is a record with the fields of the code, a status a value of a datatype or
  word. What the kernel, the file system and the platform's cipher and signature check answer is an argument: the records
  whose names end in \<open>_env\<close>, with one answer per call, so that every early return is a branch. Locks are not modelled:
  each operation of a component is one step, as the code's locks make it. Loops are structural recursions or functions
  with a measure; there is no fuel, so a result of the model is a result of the code.

  \<^bold>\<open>The prelude\<close> (\<open>Sar_Prelude\<close>) holds the machine types, loads and stores of both byte orders and the memory helpers of
  \<^verbatim>\<open>engine/src/eng_mem.h\<close> and \<^verbatim>\<open>engine/ciphers/cipher_common.h\<close>, with the lemma collections \<open>sar_bytes\<close> and \<open>sar_len\<close>.

  \<^bold>\<open>Ciphers and digests.\<close> \<open>Block_Cipher\<close> has the interface of a block cipher (locale \<open>block_cipher\<close>) and the two schemes by
  which a cipher is its own inverse (locales \<open>reflected_rounds\<close> and \<open>feistel\<close>). \<open>Aes\<close>, \<open>Aria\<close>, \<open>Camellia\<close>, \<open>Des\<close>, \<open>Seed\<close> and
  \<open>Sm4\<close> model \<^verbatim>\<open>engine/ciphers/\<close> table by table and interpret them; \<open>Stream_Ciphers\<close> models ChaCha, Salsa and RC4, and
  \<open>Sha256\<close> the digest and the HMAC of \<^verbatim>\<open>engine/src/sha256.c\<close>. Shown: decryption undoes encryption, an AES schedule is
  recognised and run backwards to its key, the streaming digest is the digest of the whole.

  \<^bold>\<open>The engine.\<close> \<open>Ctr_Layout\<close>, \<open>Modes\<close> and \<open>Battery\<close> model \<^verbatim>\<open>engine/src/ctr_layout.h\<close>, \<^verbatim>\<open>modes.c\<close> and \<^verbatim>\<open>battery.c\<close>;
  \<open>Engine_Format\<close> the shared constants and the verdict. \<open>Mode_Reference\<close> is the specification: the modes as an encrypting
  program applies them to a whole file. \<open>Battery_Correct\<close> and \<open>Convict\<close> show that a conviction is evidence and that a key on
  offer leads to one; \<open>Gate\<close> (\<^verbatim>\<open>gate.c\<close>) gives the novelty test exactly. \<open>Capture\<close> (\<^verbatim>\<open>capture/src/capture.c\<close>) puts gate,
  engine and record together.

  \<^bold>\<open>Recovery.\<close> \<open>Recover\<close> and \<open>Geometry\<close> model \<^verbatim>\<open>engine/src/recover.c\<close>; \<open>Recover_Correct\<close> and \<open>Recover_Roundtrip\<close> show that it
  undoes the reference encryption for whole files, for ranges and chunk by chunk, and exhibit the range that reads before
  the buffer. \<open>Recovery_Driver\<close> and \<open>Recovery_Correct\<close> do the same for the driver's handlers, down to the contents of
  the temporary file.

  \<^bold>\<open>The stores.\<close> \<open>Mac_Chain\<close> has the contract of a file of records chained by MACs (locale \<open>mac_chain\<close>), interpreted by
  \<open>Keystore\<close> and \<open>Preserve_Store\<close>. \<open>Keystore\<close>, \<open>Keystore_Mgr\<close>, \<open>Preserve\<close> and \<open>Preserve_Store\<close> model the engine's sides; the
  lemmas are ledger invariants, exact gap search, eviction and promotion, serialisation round trips, and that a verifier
  accepts only serialisations. \<open>Store_Io\<close> models the atomic replacement of a file with its intermediate states (locale
  \<open>atomic_files\<close>); \<open>Keystore_Driver\<close> shows that a crash at any of them loses nothing. \<open>Preserve_Alloc\<close>, \<open>Preserve_Driver\<close>
  and \<open>Preserve_Stage\<close> model the payload file: no payload overlaps another, and what was staged is what is restored.

  \<^bold>\<open>Saving before destruction.\<close> \<open>Targets\<close> models the paths that are exempt, \<open>Capture_State\<close> the blocked processes,
  \<open>Capture_Ranges\<close> the ranges of an open file that are saved already, and \<open>Capture_Preserve\<close> the requests that save a
  range, a whole file or a link (\<^verbatim>\<open>driver/capture.c\<close>, \<^verbatim>\<open>operations.c\<close>). \<open>Capture_Correct\<close> shows that a range answered as
  stored is held with the file's bytes.

  \<^bold>\<open>Control.\<close> \<open>Control\<close> and \<open>Whitelist\<close> model \<^verbatim>\<open>control/src/\<close>: messages, mode, handshake, identities. \<open>Eventlog\<close> models the
  ring of events. \<open>Driver_State\<close> models \<^verbatim>\<open>state.c\<close>, \<^verbatim>\<open>processnotify.c\<close> and \<^verbatim>\<open>obguard.c\<close>; \<open>Keyed_Table\<close> is the contract of
  its table of processes (locale \<open>keyed_table\<close>), interpreted in \<open>Exemption\<close>, where an inductive predicate gives the
  reachable states and every exemption in them is justified. \<open>Commport\<close> models the port with every handler; an inductive
  predicate gives its runs, and an authenticated session has a signature of its own.

  \<^bold>\<open>Phantom files.\<close> \<open>Phantom_Names\<close> derives names and contents from the secret, \<open>Phantom_Listing\<close> and \<open>Phantom_Merge\<close> model
  and verify the merge into a directory listing, \<open>Phantom_Callbacks\<close> the callbacks: opens, queries, the change journal.

  \<^bold>\<open>Bounds and assumptions.\<close> Paths have 260 characters, store records 738 and 1150 bytes, as the formats say. The platform's
  cipher enters through one law, that decryption undoes encryption; a witness satisfies it with a concrete function.
  Theorems about the payload file assume that its offsets stay below the 64-bit bound, and those about staging that the
  free list is current or can be rebuilt. The merge of a listing is shown for listings below two gigabytes whose entries
  do not overlap, since its sums are 32-bit. Tables of ciphers are written as the sources have them; the round constants of
  SHA-256 are written in decimal.

  \<^bold>\<open>Not modelled.\<close> The start and stop of the driver, its registration with the kernel and its threads; the work queue around
  the judgement of a write; saving below mapped views, which reads raw extents of the disk; the callbacks of
  \<^verbatim>\<open>driver/operations.c\<close>, which dispatch to the modelled requests; the service, the front end, the tools and the
  installer, which are clients of the platform; reading of the memory of a process, whose result is an argument of the
  engine; freeing of memory and wiping of keys.
\<close>

section \<open>Ciphers and digests\<close>

text \<open>
  C28: the block ciphers. Whatever cipher recovery builds for an algorithm and a key, with an AES key of a
  standard length, its decryption and its encryption undo each other on every block and report success.
\<close>

theorem engine_ciphers_invertible:
  assumes "make_block alg key klen = Some bc" "length x = bc_block_size bc"
    and "is_aes_alg alg \<longrightarrow> klen \<in> {16, 24, 32} \<and> klen \<le> length key"
  shows "bc_decrypt bc (snd (bc_encrypt bc x)) = (1, x) \<and> bc_encrypt bc (snd (bc_decrypt bc x)) = (1, x)"
proof -
  have "wf_bc bc" using assms by (intro make_block_wf) (simp_all add: aes_key_ok_def)
  with assms(2) show ?thesis by (auto simp: wf_bc_def prod_eq_iff)
qed

theorem engine_ciphers_invertible_witness:
  "\<exists>bc. make_block SAR_ALG_CAMELLIA (replicate 32 9) 32 = Some bc \<and>
     bc_decrypt bc (snd (bc_encrypt bc (replicate 16 3))) = (1, replicate 16 3)"
proof -
  obtain bc where bc: "make_block SAR_ALG_CAMELLIA (replicate 32 9) 32 = Some bc" "bc_block_size bc = 16"
    by (simp add: make_block_def Let_def sar_alg_defs)
  with engine_ciphers_invertible [OF bc(1), of "replicate 16 3"] show ?thesis
    by (auto simp: is_aes_alg_def sar_alg_defs)
qed

text \<open>
  C29: an AES key schedule gives its key away. From any window of one key length, at a whole number of keys into the
  schedule of a standard key, running the schedule backwards returns the master key.
\<close>

theorem aes_master_key_recovered:
  assumes "key_len \<in> {16, 24, 32}" "length key = key_len"
    and "1 \<le> b" "(b + 1) * (key_len div 4) \<le> 4 * (key_len div 4 + 7)"
  shows "aes_master_from_window key_len
      (slice (aes_rk (aes_setkey key key_len)) (b * key_len) key_len) (int b) = Some key"
  using assms by (rule aes_master_from_window_setkey)

theorem aes_master_key_recovered_witness:
  "aes_master_from_window 24 (slice (aes_rk (aes_setkey (replicate 24 5) 24)) 48 24) 2 = Some (replicate 24 5)"
  using aes_master_key_recovered [of 24 "replicate 24 5" 2] by simp

text \<open>
  The memory scan. A buffer passes for an AES schedule exactly when its length is standard and its bytes are the
  expansion of the key it starts with.
\<close>

theorem aes_schedule_scan_exact:
  assumes "16 * (key_len div 4 + 7) \<le> length sched"
  shows "aes_schedule_is_valid sched key_len \<longleftrightarrow>
    key_len div 4 \<in> {4, 6, 8} \<and> take (16 * (key_len div 4 + 7)) sched = aes_rk (aes_setkey sched key_len)"
  using assms by (rule aes_schedule_is_valid_iff)

theorem aes_schedule_scan_exact_witness:
  "aes_schedule_is_valid (aes_rk (aes_setkey (replicate 16 2) 16)) 16"
proof -
  have len: "length (aes_rk (aes_setkey (replicate 16 2) 16)) = 176"
    using aes_setkey_expand [of "replicate 16 2" 16] by (simp add: length_aes_expand)
  show ?thesis
    using aes_schedule_scan_exact [of 16 "aes_rk (aes_setkey (replicate 16 2) 16)"] len
      take_aes_expand [of 4 "replicate 16 2" 44] by (simp add: aes_setkey_expand)
qed

text \<open>
  C31: SHA-256. Feeding a message in any number of pieces and finishing gives the digest of the whole message as the
  standard defines it: padding, blocks of 64 bytes, one compression per block.
\<close>

theorem sha256_streaming_digest:
  "sar_sha256_final (fold (\<lambda>m c. sar_sha256_update c m) ms sar_sha256_init) = sha256_digest (concat ms)"
proof -
  have "sha_ready c \<Longrightarrow> fold (\<lambda>m c. sar_sha256_update c m) ms c = fold sha_push (concat ms) c" for c
    by (induction ms arbitrary: c) (simp_all add: sha_update_push)
  then show ?thesis by (simp add: sha_final_digest)
qed

text \<open>
  HMAC-SHA-256 as computed by the engine is the standard construction over that digest, for keys of every length.
\<close>

theorem hmac_sha256_reference: "sar_hmac_sha256 key msg = hmac_sha256 key msg"
  by (rule sar_hmac_sha256_eq)

text \<open>
  RC4. The check of a sample accepts exactly the samples that differ by the keystream of the key at that offset of
  the file.
\<close>

theorem rc4_verify_exact:
  assumes "n \<le> length pt" "n \<le> length ct"
  shows "rc4_verify key key_len pt ct n off \<longleftrightarrow>
    take n ct = xor_bytes (take n pt) (rc4_keystream (rc4_start key key_len off) n)"
  using assms by (simp add: rc4_verify_start rc4_check_keystream)

theorem rc4_verify_exact_witness:
  "rc4_verify [1, 2, 3] 3 [7, 8] (xor_bytes [7, 8] (rc4_keystream (rc4_start [1, 2, 3] 3 5) 2)) 2 5"
  using rc4_verify_exact [of 2 "[7, 8]" "xor_bytes [7, 8] (rc4_keystream (rc4_start [1, 2, 3] 3 5) 2)" "[1, 2, 3]" 3 5]
  by simp

section \<open>Modes of operation\<close>

text \<open>
  C27: the mode search. On a sample of known plaintext and ciphertext, the search over the block modes returns the first
  mode of its list whose defining equation holds at some shift inside the sample, and fails when none does.
\<close>

theorem block_mode_search_exact:
  assumes "wf_bc bc" "len \<le> length pt" "len \<le> length ct"
  shows "fst (engine_try_block_modes bc pt ct len file_offset iv) = find (mode_seen bc pt ct len) engine_modes"
  using assms by (rule engine_try_block_modes_find)

definition example_bc :: block_cipher_ctx where
  "example_bc = \<lparr>bc_encrypt = sm4_encrypt_block (sm4_key_schedule (replicate 16 1)),
     bc_decrypt = sm4_decrypt_block (sm4_key_schedule (replicate 16 1)), bc_block_size = 16\<rparr>"

lemma example_bc_wf: "wf_bc example_bc" "bc_block_size example_bc = 16"
  unfolding example_bc_def by (rule sm4.wf_bc_ctx [OF TrueI]) simp

theorem block_mode_search_exact_witness:
  "fst (engine_try_block_modes example_bc (replicate 16 0) (replicate 16 0) 16 0 None) =
     find (mode_seen example_bc (replicate 16 0) (replicate 16 0) 16) engine_modes"
  using block_mode_search_exact [of example_bc 16 "replicate 16 0" "replicate 16 0" 0 None] example_bc_wf
  by simp

text \<open>
  The mode search misses nothing. A sample of at least two blocks, at any block of a file encrypted in one of the
  five block modes under the key being tried, is always recognised.
\<close>

theorem block_mode_search_complete:
  assumes "wf_bc bc" "length iv0 = bc_block_size bc" "m \<in> set engine_modes" "mode_layout_ok bc m L"
    and "off = k * bc_block_size bc" "2 * bc_block_size bc \<le> len" "off + len \<le> length pt"
    and "off + len \<le> length (mode_encrypt bc m L iv0 pt)"
  shows "\<exists>m' \<in> set engine_modes.
    fst (engine_try_block_modes bc (drop off pt) (drop off (mode_encrypt bc m L iv0 pt)) len file_offset iv) = Some m'"
proof -
  have seen: "mode_seen bc (drop off pt) (drop off (mode_encrypt bc m L iv0 pt)) len m"
    using assms(1-7) by (rule mode_encrypt_seen)
  then obtain m' where "find (mode_seen bc (drop off pt) (drop off (mode_encrypt bc m L iv0 pt)) len) engine_modes = Some m'"
    using assms(3) by (metis find_None_iff option.exhaust)
  then show ?thesis
    using find_SomeD assms(1,7,8) by (fastforce simp: engine_try_block_modes_find)
qed

theorem block_mode_search_complete_witness:
  "\<exists>m' \<in> set engine_modes.
    fst (engine_try_block_modes example_bc (drop 16 (replicate 48 7))
      (drop 16 (mode_encrypt example_bc SAR_MODE_OFB (SAR_CTR_LAYOUTS ! 0) (replicate 16 3) (replicate 48 7))) 32 16 None) =
    Some m'"
  by (rule block_mode_search_complete [where k = 1])
    (simp_all add: example_bc_wf mode_encrypt_def engine_modes_def mode_layout_ok_def)

text \<open>
  The initialisation vector in output feedback. From a sample at any block of an encrypted file, walking the
  keystream back gives the vector the file was encrypted with.
\<close>

theorem ofb_iv_recovered:
  assumes "wf_bc bc" "length iv0 = bc_block_size bc" "2 * bc_block_size bc \<le> len"
    and "off = k * bc_block_size bc" "off < 2 ^ 64" "off + len \<le> length pt"
    and "ct = mode_encrypt bc SAR_MODE_OFB L iv0 pt"
  shows "generic_ofb bc (drop off pt) (drop off ct) len (word_of_nat off) (Some iv) =
    (True, Some (iv_store iv0 (bc_block_size bc) iv))"
  using assms by (rule generic_ofb_iv)

theorem ofb_iv_recovered_witness:
  "generic_ofb example_bc (drop 16 (replicate 48 7))
      (drop 16 (mode_encrypt example_bc SAR_MODE_OFB (SAR_CTR_LAYOUTS ! 0) (replicate 16 3) (replicate 48 7))) 32
      (word_of_nat 16) (Some \<lparr>iv_bytes = replicate 24 0, iv_length = 0, iv_tag = 0\<rparr>) =
   (True, Some (iv_store (replicate 16 3) (bc_block_size example_bc)
      \<lparr>iv_bytes = replicate 24 0, iv_length = 0, iv_tag = 0\<rparr>))"
  by (rule ofb_iv_recovered [where k = 1 and pt = "replicate 48 7" and L = "SAR_CTR_LAYOUTS ! 0"])
    (simp_all add: example_bc_wf)

end
